(* ===== verification/Prelude.thy ===== *)
theory Prelude
  imports Complex_Main "HOL-Library.AList" "HOL-Library.Multiset"
begin

text \<open>
  What the components share and the source takes from its language's standard library:
  insertion-ordered maps (JavaScript \<open>Map\<close>, as association lists over
  \<open>HOL-Library.AList\<close>), insertion-ordered sets, the stable \<open>Array.prototype.sort\<close>
  driven by a comparator, and the result type in which a thrown error is a value.
  The named collections \<open>jmap_simps\<close> and \<open>sort_simps\<close> carry the component proofs.
\<close>

named_theorems jmap_simps \<open>reading a map or a set after a write\<close>
named_theorems sort_simps \<open>what the stable sort keeps\<close>

section \<open>Maps and sets in insertion order\<close>

text \<open>A JavaScript \<open>Map\<close> iterates its entries in the order in which their keys were first
  set; setting a present key keeps its place. That is \<open>AList.update\<close>.\<close>

type_synonym ('k, 'v) jmap = "('k \<times> 'v) list"

abbreviation mget :: "('k, 'v) jmap \<Rightarrow> 'k \<Rightarrow> 'v option" where
  "mget m k \<equiv> map_of m k"

abbreviation mput :: "'k \<Rightarrow> 'v \<Rightarrow> ('k, 'v) jmap \<Rightarrow> ('k, 'v) jmap" where
  "mput k v m \<equiv> AList.update k v m"

abbreviation mdel :: "'k \<Rightarrow> ('k, 'v) jmap \<Rightarrow> ('k, 'v) jmap" where
  "mdel k m \<equiv> AList.delete k m"

abbreviation mhas :: "('k, 'v) jmap \<Rightarrow> 'k \<Rightarrow> bool" where
  "mhas m k \<equiv> map_of m k \<noteq> None"

abbreviation mkeys :: "('k, 'v) jmap \<Rightarrow> 'k list" where
  "mkeys m \<equiv> map fst m"

abbreviation mvalues :: "('k, 'v) jmap \<Rightarrow> 'v list" where
  "mvalues m \<equiv> map snd m"

text \<open>A JavaScript \<open>Set\<close>: adding a present element does nothing, a new one goes last.\<close>

definition sadd :: "'a \<Rightarrow> 'a list \<Rightarrow> 'a list" where
  "sadd x s = (if x \<in> set s then s else s @ [x])"

definition sadd_all :: "'a list \<Rightarrow> 'a list \<Rightarrow> 'a list" where
  "sadd_all xs s = foldl (\<lambda>s x. sadd x s) s xs"

text \<open>The interface a client of a map relies on: what a lookup gives after a write or a
  removal, and that keys stay unique.\<close>

locale js_map =
  fixes get :: "'m \<Rightarrow> 'k \<Rightarrow> 'v option"
    and put :: "'k \<Rightarrow> 'v \<Rightarrow> 'm \<Rightarrow> 'm"
    and del :: "'k \<Rightarrow> 'm \<Rightarrow> 'm"
    and keys :: "'m \<Rightarrow> 'k list"
  assumes get_put: "get (put k v m) k' = (if k' = k then Some v else get m k')"
    and get_del: "get (del k m) k' = (if k' = k then None else get m k')"
    and keys_get: "k \<in> set (keys m) \<longleftrightarrow> get m k \<noteq> None"
    and distinct_put: "distinct (keys m) \<Longrightarrow> distinct (keys (put k v m))"
    and distinct_del: "distinct (keys m) \<Longrightarrow> distinct (keys (del k m))"
begin

lemma keys_put: "set (keys (put k v m)) = insert k (set (keys m))"
  by (auto simp: keys_get get_put split: if_splits)

lemma keys_del: "set (keys (del k m)) = set (keys m) - {k}"
  by (auto simp: keys_get get_del split: if_splits)

lemma put_put_get: "get (put k v (put k w m)) = get (put k v m)"
  by (rule ext) (simp add: get_put)

lemma put_comm: "k \<noteq> l \<Longrightarrow> get (put k v (put l w m)) = get (put l w (put k v m))"
  by (rule ext) (simp add: get_put)

lemma length_keys_put:
  "distinct (keys m) \<Longrightarrow>
   length (keys (put k v m)) = length (keys m) + (if get m k = None then 1 else 0)"
proof -
  assume d: "distinct (keys m)"
  have "length (keys (put k v m)) = card (insert k (set (keys m)))"
    using distinct_put [OF d] by (simp add: distinct_card [symmetric] keys_put)
  also have "\<dots> = card (set (keys m)) + (if get m k = None then 1 else 0)"
    by (simp add: card_insert_if keys_get)
  finally show ?thesis
    using d by (simp add: distinct_card)
qed

lemma length_keys_del:
  "distinct (keys m) \<Longrightarrow> get m k \<noteq> None \<Longrightarrow> length (keys m) = Suc (length (keys (del k m)))"
proof -
  assume d: "distinct (keys m)" and g: "get m k \<noteq> None"
  have "length (keys (del k m)) = card (set (keys m) - {k})"
    using distinct_del [OF d] by (simp add: distinct_card [symmetric] keys_del)
  moreover have "card (set (keys m)) = Suc (card (set (keys m) - {k}))"
    using g by (intro card.remove) (auto simp: keys_get)
  ultimately show ?thesis
    using d by (simp add: distinct_card)
qed

end

lemma map_of_update [jmap_simps]:
  "map_of (AList.update k v m) k' = (if k' = k then Some v else map_of m k')"
  by (simp add: update_conv')

lemma map_of_delete_if [jmap_simps]:
  "map_of (AList.delete k m) k' = (if k' = k then None else map_of m k')"
  by (simp add: delete_conv')

interpretation jm: js_map "map_of" "AList.update" "AList.delete" "map fst"
proof unfold_locales
  fix k :: 'a and m :: "('a \<times> 'b) list"
  show "k \<in> set (map fst m) \<longleftrightarrow> map_of m k \<noteq> None"
    by (simp add: map_of_eq_None_iff)
qed (simp_all add: map_of_update map_of_delete_if distinct_update distinct_delete)

lemma fst_set_update [jmap_simps]:
  "fst ` set (AList.update k v m) = insert k (fst ` set m)"
  by (simp add: dom_update)

lemma fst_set_delete [jmap_simps]: "fst ` set (AList.delete k m) = fst ` set m - {k}"
  using jm.keys_del [of k m] by simp

lemma set_update_distinct:
  "distinct (map fst m) \<Longrightarrow>
   set (AList.update k v m) = insert (k, v) {p \<in> set m. fst p \<noteq> k}"
  by (induction m) (auto simp: rev_image_eqI)

lemma set_update_subset: "set (AList.update k v m) \<subseteq> insert (k, v) (set m)"
  by (induction m) auto

lemma set_delete_subset: "set (AList.delete k m) \<subseteq> set m"
  by (induction m) (auto simp: AList.delete_eq)

lemma set_sadd [simp]: "set (sadd x s) = insert x (set s)"
  by (auto simp: sadd_def)

lemma distinct_sadd [simp]: "distinct (sadd x s) = distinct s"
  by (auto simp: sadd_def)

lemma set_sadd_all [simp]: "set (sadd_all xs s) = set xs \<union> set s"
  by (induction xs arbitrary: s) (auto simp: sadd_all_def)

lemma distinct_sadd_all [simp]: "distinct (sadd_all xs s) = distinct s"
  by (induction xs arbitrary: s) (auto simp: sadd_all_def)

lemma foldl_preserves:
  assumes "P s" and "\<And>s x. P s \<Longrightarrow> P (f s x)"
  shows "P (foldl f s xs)"
  using assms by (induction xs arbitrary: s) auto

text \<open>Grouping by a key, in insertion order, as the code does with a map of arrays.\<close>

definition group_add :: "('a \<Rightarrow> 'k) \<Rightarrow> ('k, 'a list) jmap \<Rightarrow> 'a \<Rightarrow> ('k, 'a list) jmap" where
  "group_add key m x = mput (key x) ((case mget m (key x) of Some b \<Rightarrow> b | None \<Rightarrow> []) @ [x]) m"

lemma group_get [jmap_simps]:
  "mget (foldl (group_add key) [] xs) k = (let b = filter (\<lambda>x. key x = k) xs in if b = [] then None else Some b)"
proof (induction xs rule: rev_induct)
  case (snoc x xs)
  then show ?case by (auto simp: group_add_def map_of_update Let_def)
qed simp

lemma group_distinct [simp]: "distinct (mkeys (foldl (group_add key) [] xs))"
  by (rule foldl_preserves) (simp_all add: group_add_def distinct_update)

lemma group_values: "set (mvalues (foldl (group_add key) [] xs)) = (\<lambda>x. filter (\<lambda>y. key y = key x) xs) ` set xs"
proof -
  have "(k, b) \<in> set (foldl (group_add key) [] xs) \<longleftrightarrow> b = filter (\<lambda>x. key x = k) xs \<and> b \<noteq> []" for k b
    using map_of_eq_Some_iff [OF group_distinct, of key xs k b] by (auto simp: group_get Let_def split: if_splits)
  then have "set (mvalues (foldl (group_add key) [] xs)) = {b. \<exists>k. b = filter (\<lambda>x. key x = k) xs \<and> b \<noteq> []}" by force
  also have "\<dots> = (\<lambda>x. filter (\<lambda>y. key y = key x) xs) ` set xs" by (auto simp: filter_empty_conv image_iff)
  finally show ?thesis .
qed

text \<open>Grouping keeps every element exactly once.\<close>

lemma concat_mput:
  assumes "distinct (mkeys m)"
  shows "mset (concat (mvalues (mput k v m))) + mset (case mget m k of Some old \<Rightarrow> old | None \<Rightarrow> []) =
    mset (concat (mvalues m)) + mset v"
  using assms by (induction m) (auto simp: map_of_eq_None_iff split: option.splits)

lemma group_mset: "mset (concat (mvalues (foldl (group_add key) [] xs))) = mset xs"
proof (induction xs rule: rev_induct)
  case (snoc x xs)
  then show ?case
    using concat_mput [OF group_distinct [of key xs], of "key x"
      "(case mget (foldl (group_add key) [] xs) (key x) of Some b \<Rightarrow> b | None \<Rightarrow> []) @ [x]"]
    by (simp add: group_add_def [of key "foldl (group_add key) [] xs" x])
qed simp

section \<open>The stable sort\<close>

text \<open>\<open>Array.prototype.sort\<close> is stable and orders by a comparator whose result is positive
  when its first argument goes after its second. \<open>le x y\<close> stands for
  \<open>compare(x, y) <= 0\<close>; equal elements keep their order.\<close>

fun insert_by :: "('a \<Rightarrow> 'a \<Rightarrow> bool) \<Rightarrow> 'a \<Rightarrow> 'a list \<Rightarrow> 'a list" where
  "insert_by le x [] = [x]"
| "insert_by le x (y # ys) = (if le x y then x # y # ys else y # insert_by le x ys)"

definition sort_by :: "('a \<Rightarrow> 'a \<Rightarrow> bool) \<Rightarrow> 'a list \<Rightarrow> 'a list" where
  "sort_by le xs = foldr (insert_by le) xs []"

lemma mset_insert_by [sort_simps]: "mset (insert_by le x xs) = add_mset x (mset xs)"
  by (induction xs) auto

lemma mset_sort_by [sort_simps]: "mset (sort_by le xs) = mset xs"
  by (induction xs) (auto simp: sort_by_def mset_insert_by)

lemma set_insert_by [sort_simps]: "set (insert_by le x xs) = insert x (set xs)"
  by (induction xs) auto

lemma set_sort_by [sort_simps]: "set (sort_by le xs) = set xs"
  by (metis mset_sort_by set_mset_mset)

lemma length_sort_by [sort_simps]: "length (sort_by le xs) = length xs"
  by (metis mset_sort_by size_mset)

lemma distinct_map_sort_by [sort_simps]:
  "distinct (map f (sort_by le xs)) = distinct (map f xs)"
  by (metis distinct_count_atmost_1 mset_map mset_sort_by set_map set_sort_by)

lemma sort_by_already: "sorted_wrt le xs \<Longrightarrow> sort_by le xs = xs"
proof (induction xs)
  case (Cons x xs)
  then show ?case by (cases xs) (auto simp: sort_by_def)
qed (simp add: sort_by_def)

lemma insert_by_map: "(\<And>a b. le (f a) (f b) = le a b) \<Longrightarrow> insert_by le (f x) (map f xs) = map f (insert_by le x xs)"
  by (induction xs) auto

lemma sort_by_map: "(\<And>a b. le (f a) (f b) = le a b) \<Longrightarrow> sort_by le (map f xs) = map f (sort_by le xs)"
  by (induction xs) (auto simp: sort_by_def insert_by_map)

text \<open>What a consistent comparator promises, and what a sort by one gives. The laws are
  asked on a carrier only: a comparator over events is consistent on well-dated ones.\<close>

locale consistent_compare =
  fixes le :: "'a \<Rightarrow> 'a \<Rightarrow> bool" and A :: "'a set"
  assumes le_total: "x \<in> A \<Longrightarrow> y \<in> A \<Longrightarrow> le x y \<or> le y x"
    and le_trans: "x \<in> A \<Longrightarrow> y \<in> A \<Longrightarrow> z \<in> A \<Longrightarrow> le x y \<Longrightarrow> le y z \<Longrightarrow> le x z"
begin

lemma sorted_insert_by:
  "x \<in> A \<Longrightarrow> set ys \<subseteq> A \<Longrightarrow> sorted_wrt le ys \<Longrightarrow> sorted_wrt le (insert_by le x ys)"
proof (induction ys)
  case (Cons y ys)
  show ?case
  proof (cases "le x y")
    case True
    with Cons.prems show ?thesis by (auto intro: le_trans [of x y])
  next
    case False
    with Cons.prems have "le y x" using le_total [of x y] by auto
    with False Cons show ?thesis by (auto simp: set_insert_by)
  qed
qed simp

lemma sorted_sort_by: "set xs \<subseteq> A \<Longrightarrow> sorted_wrt le (sort_by le xs)"
proof (induction xs)
  case (Cons x xs)
  have "set (foldr (insert_by le) xs []) \<subseteq> A"
    using Cons.prems set_sort_by [of le xs] by (auto simp: sort_by_def)
  with Cons show ?case by (auto simp: sort_by_def intro!: sorted_insert_by)
qed (simp add: sort_by_def)

end

locale strict_compare = consistent_compare +
  assumes le_antisym: "x \<in> A \<Longrightarrow> y \<in> A \<Longrightarrow> le x y \<Longrightarrow> le y x \<Longrightarrow> x = y"
begin

lemma sorted_unique:
  "sorted_wrt le xs \<Longrightarrow> sorted_wrt le ys \<Longrightarrow> mset xs = mset ys \<Longrightarrow> set xs \<subseteq> A \<Longrightarrow> xs = ys"
proof (induction xs arbitrary: ys)
  case (Cons x xs)
  then obtain y ys' where ys: "ys = y # ys'" by (cases ys) auto
  have xy: "x \<in> set ys" "y \<in> set (x # xs)"
    using Cons.prems(3) ys mset_eq_setD [OF Cons.prems(3)] by auto
  have "x = y"
  proof (rule ccontr)
    assume "x \<noteq> y"
    then have "x \<in> set ys'" "y \<in> set xs" using xy ys by auto
    then have "le y x" "le x y" using Cons.prems ys by auto
    moreover have "x \<in> A" "y \<in> A" using Cons.prems(4) xy(2) by auto
    ultimately show False using le_antisym \<open>x \<noteq> y\<close> by blast
  qed
  with Cons ys show ?case by auto
qed simp

lemma sort_by_perm:
  "mset xs = mset ys \<Longrightarrow> set xs \<subseteq> A \<Longrightarrow> sort_by le xs = sort_by le ys"
  by (intro sorted_unique sorted_sort_by) (auto simp: sort_simps dest: mset_eq_setD)

end

section \<open>Errors as values\<close>

text \<open>A thrown error is \<open>Inl\<close>; \<open>rbind\<close> is the sequencing the code gets from exceptions.\<close>

type_synonym ('e, 'a) result = "'e + 'a"

fun rbind :: "('e, 'a) result \<Rightarrow> ('a \<Rightarrow> ('e, 'b) result) \<Rightarrow> ('e, 'b) result" where
  "rbind (Inl e) f = Inl e"
| "rbind (Inr x) f = f x"

lemma rbind_Inr [simp]: "rbind r f = Inr y \<longleftrightarrow> (\<exists>x. r = Inr x \<and> f x = Inr y)"
  by (cases r) auto

lemma rbind_Inl [simp]: "rbind r f = Inl e \<longleftrightarrow> r = Inl e \<or> (\<exists>x. r = Inr x \<and> f x = Inl e)"
  by (cases r) auto

text \<open>An HTTP error as the services throw it: its status and its code or message.\<close>

datatype http_error = HttpError (status_of: nat) (code_of: string)

section \<open>Small facts on lists and folds\<close>

lemma foldl_invariant:
  assumes "P s" and "\<And>s x. x \<in> set xs \<Longrightarrow> P s \<Longrightarrow> P (f s x)"
  shows "P (foldl f s xs)"
  using assms by (induction xs arbitrary: s) auto

lemma map_of_Some_in_set: "map_of m k = Some v \<Longrightarrow> v \<in> set (map snd m)"
  by (induction m) (auto split: if_splits)

lemma length_filter_eq_1:
  "length (filter P xs) = 1 \<longleftrightarrow> (\<exists>ys x zs. xs = ys @ x # zs \<and> P x \<and> filter P ys = [] \<and> filter P zs = [])"
proof
  assume "length (filter P xs) = 1"
  then obtain x where "filter P xs = [x]" by (auto simp: length_Suc_conv)
  then obtain ys zs where "xs = ys @ x # zs" "\<forall>y\<in>set ys. \<not> P y" "P x" "filter P zs = []"
    by (auto simp: filter_eq_Cons_iff)
  then show "\<exists>ys x zs. xs = ys @ x # zs \<and> P x \<and> filter P ys = [] \<and> filter P zs = []"
    by (metis filter_False)
qed auto

lemma distinct_map_inj_on: "distinct (map f xs) \<Longrightarrow> x \<in> set xs \<Longrightarrow> y \<in> set xs \<Longrightarrow> f x = f y \<Longrightarrow> x = y"
  by (meson distinct_map inj_onD)

end
