(* ===== verification/JsValue.thy ===== *)
theory JsValue
  imports Prelude "HOL-Library.Code_Target_Nat"
begin

text \<open>
  The dynamically typed values of the source (\<open>unknown\<close>, \<open>Record<string, unknown>\<close>) and
  the parts of the language's standard library that read them: \<open>String(v)\<close>, \<open>Number(v)\<close>,
  \<open>BigInt(v)\<close>, \<open>??\<close>, \<open>toString(radix)\<close>, \<open>trim\<close>, case mapping and ISO dates.

  Strings are byte lists (UTF-8); case mapping acts on ASCII letters. A number is the decimal
  value it prints as, or \<open>NaN\<close>, or an infinity: the numbers the program computes with (chain
  ids, counters, millisecond times) are integers below \<open>2 ^ 53\<close>, where double arithmetic is
  exact. Amounts are not numbers in this program but \<open>BigInt\<close> (\<open>int\<close>) or \<open>Decimal\<close>.
\<close>

section \<open>Values\<close>

datatype jnum = JNaN | JInf bool | JFin rat

datatype jsv =
    VUndef
  | VNull
  | VBool bool
  | VNum jnum
  | VStr string
  | VArr "jsv list"
  | VObj "(string \<times> jsv) list"

type_synonym jobj = "(string, jsv) jmap"

text \<open>Reading a property of an object; an absent one is \<open>undefined\<close>.\<close>

definition pget :: "jobj \<Rightarrow> string \<Rightarrow> jsv" where
  "pget p k = (case map_of p k of None \<Rightarrow> VUndef | Some v \<Rightarrow> v)"

definition nullish :: "jsv \<Rightarrow> bool" where
  "nullish v \<longleftrightarrow> v = VUndef \<or> v = VNull"

text \<open>The operator \<open>a ?? b\<close>.\<close>

definition coalesce :: "jsv \<Rightarrow> jsv \<Rightarrow> jsv" where
  "coalesce a b = (if nullish a then b else a)"

definition is_str :: "jsv \<Rightarrow> bool" where
  "is_str v = (case v of VStr _ \<Rightarrow> True | _ \<Rightarrow> False)"

definition str_or_num :: "jsv \<Rightarrow> bool" where
  "str_or_num v = (case v of VStr _ \<Rightarrow> True | VNum _ \<Rightarrow> True | _ \<Rightarrow> False)"

definition str_of :: "jsv \<Rightarrow> string option" where
  "str_of v = (case v of VStr s \<Rightarrow> Some s | _ \<Rightarrow> None)"

definition jint :: "int \<Rightarrow> jsv" where
  "jint i = VNum (JFin (of_int i))"

text \<open>Object spread \<open>{...p, k: v}\<close> writes a property as a map does.\<close>

definition pput :: "string \<Rightarrow> jsv \<Rightarrow> jobj \<Rightarrow> jobj" where
  "pput k v p = AList.update k v p"

definition pdel :: "string \<Rightarrow> jobj \<Rightarrow> jobj" where
  "pdel k p = AList.delete k p"

text \<open>Object spread \<open>{...p, ...q}\<close>.\<close>

definition pspread :: "jobj \<Rightarrow> jobj \<Rightarrow> jobj" where
  "pspread p q = foldl (\<lambda>r (k, v). pput k v r) p q"

lemma pget_pput [simp]: "pget (pput k v p) k' = (if k' = k then v else pget p k')"
  by (simp add: pget_def pput_def map_of_update)

lemma pget_pdel [simp]: "pget (pdel k p) k' = (if k' = k then VUndef else pget p k')"
  by (simp add: pget_def pdel_def map_of_delete_if)

lemma coalesce_simps [simp]:
  "coalesce VUndef b = b" "coalesce VNull b = b" "coalesce (VStr s) b = VStr s"
  "coalesce (VNum n) b = VNum n" "coalesce (VBool t) b = VBool t"
  "coalesce (VArr vs) b = VArr vs" "coalesce (VObj p) b = VObj p"
  by (simp_all add: coalesce_def nullish_def)

section \<open>Digits\<close>

definition digit_char :: "nat \<Rightarrow> char" where
  "digit_char d = (if d < 10 then char_of (48 + d) else char_of (87 + d))"

definition digit_val :: "char \<Rightarrow> nat option" where
  "digit_val c = (let n = of_char c :: nat in
     if 48 \<le> n \<and> n \<le> 57 then Some (n - 48)
     else if 97 \<le> n \<and> n \<le> 122 then Some (n - 87)
     else if 65 \<le> n \<and> n \<le> 90 then Some (n - 55)
     else None)"

text \<open>\<open>n.toString(b)\<close> for a radix between 2 and 36.\<close>

fun to_base :: "nat \<Rightarrow> nat \<Rightarrow> string" where
  "to_base b n = (if b < 2 \<or> n < b then [digit_char n] else to_base b (n div b) @ [digit_char (n mod b)])"

declare to_base.simps [simp del]

definition digit_in :: "nat \<Rightarrow> char \<Rightarrow> nat option" where
  "digit_in b c = (case digit_val c of None \<Rightarrow> None | Some d \<Rightarrow> if d < b then Some d else None)"

fun digits_from :: "nat \<Rightarrow> nat \<Rightarrow> string \<Rightarrow> nat option" where
  "digits_from b a [] = Some a"
| "digits_from b a (c # cs) = (case digit_in b c of None \<Rightarrow> None | Some d \<Rightarrow> digits_from b (a * b + d) cs)"

text \<open>A non-empty run of digits of a radix.\<close>

definition of_base :: "nat \<Rightarrow> string \<Rightarrow> nat option" where
  "of_base b s = (if s = [] then None else digits_from b 0 s)"

lemma of_char_digit: "d < 36 \<Longrightarrow> (of_char (digit_char d) :: nat) = (if d < 10 then 48 + d else 87 + d)"
  by (simp add: digit_char_def)

lemma digit_in_digit_char [simp]: "d < b \<Longrightarrow> b \<le> 36 \<Longrightarrow> digit_in b (digit_char d) = Some d"
  by (auto simp: digit_in_def digit_val_def of_char_digit Let_def)

lemma digits_from_append:
  "digits_from b a (s @ t) = (case digits_from b a s of None \<Rightarrow> None | Some a' \<Rightarrow> digits_from b a' t)"
  by (induction s arbitrary: a) (auto split: option.splits)

lemma to_base_nonempty [simp]: "to_base b n \<noteq> []"
  by (subst to_base.simps) simp

lemma digits_from_to_base:
  "2 \<le> b \<Longrightarrow> b \<le> 36 \<Longrightarrow> digits_from b a (to_base b n) = Some (a * b ^ length (to_base b n) + n)"
proof (induction b n arbitrary: a rule: to_base.induct)
  case (1 b n)
  show ?case
  proof (cases "n < b")
    case True
    then show ?thesis using "1.prems" by (simp add: to_base.simps [of b n])
  next
    case False
    then have IH: "digits_from b a (to_base b (n div b)) = Some (a * b ^ length (to_base b (n div b)) + n div b)"
      using "1.IH" "1.prems" by simp
    have "n div b * b + n mod b = n" by simp
    then show ?thesis
      using IH False "1.prems"
      by (simp add: to_base.simps [of b n] digits_from_append algebra_simps)
  qed
qed

text \<open>Printing a number in a radix and reading it back gives the number.\<close>

lemma of_base_to_base [simp]: "2 \<le> b \<Longrightarrow> b \<le> 36 \<Longrightarrow> of_base b (to_base b n) = Some n"
  by (simp add: of_base_def digits_from_to_base)

lemma to_base_inj: "2 \<le> b \<Longrightarrow> b \<le> 36 \<Longrightarrow> to_base b m = to_base b n \<Longrightarrow> m = n"
  by (metis of_base_to_base option.inject)

definition nat_str :: "nat \<Rightarrow> string" where
  "nat_str n = to_base 10 n"

definition int_str :: "int \<Rightarrow> string" where
  "int_str i = (if i < 0 then ''-'' @ nat_str (nat (- i)) else nat_str (nat i))"

lemma set_to_base:
  "2 \<le> b \<Longrightarrow> b \<le> 36 \<Longrightarrow> set (to_base b n) \<subseteq> digit_char ` {..<b}"
proof (induction b n rule: to_base.induct)
  case (1 b n)
  then show ?case by (subst to_base.simps) auto
qed

lemma of_char_nat_str: "c \<in> set (nat_str n) \<Longrightarrow> (of_char c :: nat) \<in> {48..57}"
  using set_to_base [of 10 n] by (auto simp: nat_str_def of_char_digit)

lemma nat_str_inj [simp]: "nat_str m = nat_str n \<longleftrightarrow> m = n"
  by (auto simp: nat_str_def dest: to_base_inj [of 10, simplified])

section \<open>Decimal notation\<close>

definition is_integer :: "rat \<Rightarrow> bool" where
  "is_integer q \<longleftrightarrow> snd (quotient_of q) = 1"

text \<open>How many decimals the fraction with denominator \<open>d\<close> needs.\<close>

function dscale :: "nat \<Rightarrow> nat" where
  "dscale d = (if d = 0 \<or> gcd d 10 = 1 then 0 else Suc (dscale (d div gcd d 10)))"
  by pat_completeness auto
termination
proof (relation "measure id")
  fix d :: nat
  assume "\<not> (d = 0 \<or> gcd d 10 = 1)"
  moreover have "0 < gcd d 10" by simp
  ultimately have "0 < d" "1 < gcd d 10" by linarith+
  then show "(d div gcd d 10, d) \<in> measure id"
    by (simp add: div_less_dividend)
qed simp

declare dscale.simps [simp del]

definition scale_of :: "rat \<Rightarrow> nat" where
  "scale_of q = dscale (nat (snd (quotient_of q)))"

definition zeros :: "nat \<Rightarrow> string" where
  "zeros n = replicate n (CHR ''0'')"

definition pad_left :: "nat \<Rightarrow> string \<Rightarrow> string" where
  "pad_left k s = zeros (k - length s) @ s"

text \<open>Plain notation: sign, integer part, and as many decimals as the value needs.\<close>

definition dec_show_nat :: "nat \<Rightarrow> nat \<Rightarrow> string" where
  "dec_show_nat k m =
     nat_str (m div 10 ^ k) @ (if k = 0 then [] else ''.'' @ pad_left k (nat_str (m mod 10 ^ k)))"

definition dec_show :: "rat \<Rightarrow> string" where
  "dec_show q = (let k = scale_of q; m = nat \<lfloor>\<bar>q\<bar> * 10 ^ k\<rfloor> in
     (if q < 0 then ''-'' else []) @ dec_show_nat k m)"

fun split_at :: "char \<Rightarrow> string \<Rightarrow> string \<times> string option" where
  "split_at c [] = ([], None)"
| "split_at c (x # xs) = (if x = c then ([], Some xs) else (case split_at c xs of (a, b) \<Rightarrow> (x # a, b)))"

definition dec_read_abs :: "string \<Rightarrow> rat option" where
  "dec_read_abs s = (case split_at (CHR ''.'') s of
     (ip, None) \<Rightarrow> map_option of_nat (of_base 10 ip)
   | (ip, Some fp) \<Rightarrow>
       if fp = [] then map_option of_nat (of_base 10 ip)
       else map_option (\<lambda>m. of_nat m / 10 ^ length fp) (of_base 10 (ip @ fp)))"

definition dec_read :: "string \<Rightarrow> rat option" where
  "dec_read s = (case s of
     [] \<Rightarrow> None
   | c # cs \<Rightarrow> if c = CHR ''-'' then map_option uminus (dec_read_abs cs)
                else if c = CHR ''+'' then dec_read_abs cs
                else dec_read_abs s)"

text \<open>A value with a finite decimal expansion.\<close>

definition decimal_value :: "rat \<Rightarrow> bool" where
  "decimal_value q \<longleftrightarrow> (\<exists>m k. q = of_int m / 10 ^ k)"

lemma dscale_dvd: "d \<noteq> 0 \<Longrightarrow> d dvd 10 ^ n \<Longrightarrow> d dvd 10 ^ dscale d"
proof (induction d arbitrary: n rule: dscale.induct)
  case (1 d)
  show ?case
  proof (cases "gcd d 10 = 1")
    case True
    then have "coprime d 10" by (simp only: coprime_iff_gcd_eq_1)
    then have "coprime d (10 ^ n)" by (rule coprime_power_right_iff [THEN iffD2, OF disjI1])
    with "1.prems"(2) have "d = 1" by (metis coprime_absorb_left nat_dvd_1_iff_1)
    then show ?thesis by simp
  next
    case False
    define g where "g = gcd d 10"
    have g: "g dvd d" "g dvd 10" "g \<noteq> 0" using "1.prems"(1) by (auto simp: g_def)
    have d: "d = g * (d div g)" using g by simp
    have "d div g dvd d" using d by (metis dvd_triv_right)
    then have "d div g dvd 10 ^ n" using "1.prems"(2) by (rule dvd_trans)
    moreover have "d div g \<noteq> 0" using d "1.prems"(1) by (metis mult_0_right)
    ultimately have "d div g dvd 10 ^ dscale (d div g)"
      using "1.IH" "1.prems"(1) False by (simp add: g_def)
    then have "g * (d div g) dvd 10 * 10 ^ dscale (d div g)"
      by (rule mult_dvd_mono [OF g(2)])
    moreover have "dscale d = Suc (dscale (d div g))"
      using False "1.prems"(1) by (simp add: dscale.simps [of d] g_def)
    ultimately show ?thesis using d by simp
  qed
qed

lemma decimal_scaled:
  assumes "decimal_value q"
  shows "\<bar>q\<bar> * 10 ^ scale_of q = of_nat (nat \<lfloor>\<bar>q\<bar> * 10 ^ scale_of q\<rfloor>)"
proof -
  obtain m k where q: "q = of_int m / 10 ^ k" using assms by (auto simp: decimal_value_def)
  obtain a b where ab: "quotient_of q = (a, b)" by (cases "quotient_of q")
  have b: "b > 0" and co: "coprime a b" and qab: "q = of_int a / of_int b"
    using quotient_of_denom_pos [OF ab] quotient_of_coprime [OF ab] quotient_of_div [OF ab] by auto
  have "(of_int a :: rat) * 10 ^ k = of_int m * of_int b"
    using q qab b by (simp add: field_simps)
  then have "a * 10 ^ k = m * b"
    by (metis (mono_tags, lifting) of_int_eq_iff of_int_mult of_int_numeral of_int_power)
  then have "b dvd a * 10 ^ k" by simp
  then have "b dvd 10 ^ k" using co by (simp add: coprime_commute coprime_dvd_mult_right_iff)
  then have "nat b dvd 10 ^ k" using b
    by (metis nat_dvd_iff of_nat_numeral of_nat_power zero_less_imp_eq_int nat_int int_dvd_int_iff)
  then have "nat b dvd 10 ^ scale_of q"
    using dscale_dvd [of "nat b" k] b ab by (simp add: scale_of_def)
  then obtain c where c: "(10::nat) ^ scale_of q = nat b * c" by blast
  have "(10::rat) ^ scale_of q = of_nat ((10::nat) ^ scale_of q)" by simp
  also have "\<dots> = of_int b * of_nat c" using b by (simp only: c) simp
  finally have "q * 10 ^ scale_of q = of_int (a * int c)" using qab b by simp
  then have "\<bar>q\<bar> * 10 ^ scale_of q = of_int \<bar>a * int c\<bar>"
    by (metis abs_mult abs_of_pos of_int_abs zero_less_numeral zero_less_power)
  then show ?thesis by simp
qed

lemma split_at_append: "c \<notin> set a \<Longrightarrow> split_at c (a @ c # b) = (a, Some b)"
  by (induction a) auto

lemma split_at_none: "c \<notin> set a \<Longrightarrow> split_at c a = (a, None)"
  by (induction a) auto

lemma digits_from_zeros [simp]: "2 \<le> b \<Longrightarrow> b \<le> 36 \<Longrightarrow> digits_from b a (zeros n) = Some (a * b ^ n)"
proof (induction n arbitrary: a)
  case (Suc n)
  have "digit_in b (CHR ''0'') = Some 0"
    using Suc.prems by (simp add: digit_in_def digit_val_def)
  then show ?case using Suc by (simp add: zeros_def algebra_simps)
qed (simp add: zeros_def)

lemma length_to_base_less: "2 \<le> b \<Longrightarrow> 0 < k \<Longrightarrow> n < b ^ k \<Longrightarrow> length (to_base b n) \<le> k"
proof (induction k arbitrary: n)
  case (Suc k)
  show ?case
  proof (cases "n < b")
    case True
    then show ?thesis by (simp add: to_base.simps [of b n])
  next
    case False
    then have "k \<noteq> 0" using Suc.prems by (cases k) auto
    moreover have "n div b < b ^ k" using Suc.prems by (simp add: less_mult_imp_div_less mult.commute)
    ultimately have "length (to_base b (n div b)) \<le> k" using Suc by simp
    then show ?thesis using False Suc.prems by (simp add: to_base.simps [of b n])
  qed
qed simp

lemma dec_read_show_nat: "dec_read_abs (dec_show_nat k m) = Some (of_nat m / 10 ^ k)"
proof -
  have dot: "CHR ''.'' \<notin> set (nat_str n)" for n using of_char_nat_str [of "CHR ''.''" n] by auto
  show ?thesis
  proof (cases "k = 0")
    case True
    then show ?thesis
      using dot [of m] by (simp add: dec_read_abs_def dec_show_nat_def split_at_none nat_str_def)
  next
    case False
    define fp where "fp = pad_left k (nat_str (m mod 10 ^ k))"
    have len: "length (nat_str (m mod 10 ^ k)) \<le> k"
      using False by (auto simp: nat_str_def intro!: length_to_base_less)
    then have lfp: "length fp = k" by (simp add: fp_def pad_left_def zeros_def)
    have "digits_from 10 a fp = Some (a * 10 ^ k + m mod 10 ^ k)" for a
    proof -
      have e: "(10::nat) ^ (k - length (nat_str (m mod 10 ^ k))) * 10 ^ length (nat_str (m mod 10 ^ k)) = 10 ^ k"
        using len by (simp flip: power_add)
      show ?thesis
        unfolding fp_def pad_left_def digits_from_append
        using e by (simp add: nat_str_def digits_from_to_base mult.assoc)
    qed
    then have "digits_from 10 0 (nat_str (m div 10 ^ k) @ fp) = Some (m div 10 ^ k * 10 ^ k + m mod 10 ^ k)"
      by (simp add: digits_from_append nat_str_def digits_from_to_base)
    then have "of_base 10 (nat_str (m div 10 ^ k) @ fp) = Some m"
      by (simp only: of_base_def div_mult_mod_eq) (simp add: nat_str_def)
    moreover have "fp \<noteq> []" using lfp False by auto
    ultimately show ?thesis
      using False lfp dot [of "m div 10 ^ k"]
      by (simp add: dec_read_abs_def dec_show_nat_def fp_def [symmetric] split_at_append)
  qed
qed

text \<open>A finite decimal printed in plain notation reads back as itself.\<close>

lemma dec_read_show:
  assumes "decimal_value q"
  shows "dec_read (dec_show q) = Some q"
proof -
  define k where "k = scale_of q"
  define m where "m = nat \<lfloor>\<bar>q\<bar> * 10 ^ k\<rfloor>"
  have "\<bar>q\<bar> * 10 ^ k = of_nat m" using decimal_scaled [OF assms] by (simp add: m_def k_def)
  then have "\<bar>q\<bar> = of_nat m / 10 ^ k" by (simp add: field_simps)
  then have abs: "dec_read_abs (dec_show_nat k m) = Some \<bar>q\<bar>" by (simp add: dec_read_show_nat)
  have "dec_show_nat k m \<noteq> []" by (simp add: dec_show_nat_def nat_str_def)
  then obtain c cs where cs: "dec_show_nat k m = c # cs" by (cases "dec_show_nat k m") auto
  have "c \<in> set (nat_str (m div 10 ^ k))"
    using cs by (cases "nat_str (m div 10 ^ k)") (auto simp: dec_show_nat_def nat_str_def)
  then have "(of_char c :: nat) \<in> {48..57}" by (rule of_char_nat_str)
  then have c: "c \<noteq> CHR ''-''" "c \<noteq> CHR ''+''" by auto
  have show_q: "dec_show q = (if q < 0 then ''-'' else []) @ dec_show_nat k m"
    by (simp add: dec_show_def k_def m_def Let_def)
  show ?thesis
  proof (cases "q < 0")
    case True
    then show ?thesis using abs by (simp add: show_q dec_read_def)
  next
    case False
    then show ?thesis using abs cs c by (simp add: show_q dec_read_def)
  qed
qed

section \<open>Strings\<close>

definition is_space :: "char \<Rightarrow> bool" where
  "is_space c \<longleftrightarrow> (let n = of_char c :: nat in n = 32 \<or> (9 \<le> n \<and> n \<le> 13))"

definition trim :: "string \<Rightarrow> string" where
  "trim s = rev (dropWhile is_space (rev (dropWhile is_space s)))"

definition lower_char :: "char \<Rightarrow> char" where
  "lower_char c = (let n = of_char c :: nat in if 65 \<le> n \<and> n \<le> 90 then char_of (n + 32) else c)"

definition upper_char :: "char \<Rightarrow> char" where
  "upper_char c = (let n = of_char c :: nat in if 97 \<le> n \<and> n \<le> 122 then char_of (n - 32) else c)"

definition toLowerCase :: "string \<Rightarrow> string" where
  "toLowerCase s = map lower_char s"

definition toUpperCase :: "string \<Rightarrow> string" where
  "toUpperCase s = map upper_char s"

definition startsWith :: "string \<Rightarrow> string \<Rightarrow> bool" where
  "startsWith s p \<longleftrightarrow> take (length p) s = p"

fun join :: "string \<Rightarrow> string list \<Rightarrow> string" where
  "join sep [] = []"
| "join sep [x] = x"
| "join sep (x # y # ys) = x @ sep @ join sep (y # ys)"

lemma lower_char_idem [simp]: "lower_char (lower_char c) = lower_char c"
  by (simp add: lower_char_def Let_def)

lemma toLowerCase_idem [simp]: "toLowerCase (toLowerCase s) = toLowerCase s"
  by (simp add: toLowerCase_def)

section \<open>Conversions\<close>

text \<open>\<open>Number.prototype.toString()\<close>: plain notation from \<open>1e-6\<close> up to \<open>1e21\<close>,
  exponent notation outside.\<close>

definition mantissa :: "string \<Rightarrow> string" where
  "mantissa ds = (case ds of [] \<Rightarrow> [] | [d] \<Rightarrow> [d] | d # r \<Rightarrow> d # ''.'' @ r)"

definition exp_show :: "rat \<Rightarrow> string" where
  "exp_show q = (let k = scale_of q; ds = nat_str (nat \<lfloor>q * 10 ^ k\<rfloor>); e = int (length ds) - int k - 1;
       sig = rev (dropWhile (\<lambda>c. c = CHR ''0'') (rev ds)) in
     mantissa sig @ ''e'' @ (if e < 0 then ''-'' else ''+'') @ nat_str (nat \<bar>e\<bar>))"

definition num_str :: "jnum \<Rightarrow> string" where
  "num_str x = (case x of
     JNaN \<Rightarrow> ''NaN''
   | JInf neg \<Rightarrow> if neg then ''-Infinity'' else ''Infinity''
   | JFin q \<Rightarrow> if is_integer q \<and> \<bar>q\<bar> < 10 ^ 21 then int_str \<lfloor>q\<rfloor>
       else if \<bar>q\<bar> < 10 ^ 21 \<and> 1 \<le> \<bar>q\<bar> * 10 ^ 6 then dec_show q
       else (if q < 0 then ''-'' else []) @ exp_show \<bar>q\<bar>)"

function js_String :: "jsv \<Rightarrow> string" where
  "js_String VUndef = ''undefined''"
| "js_String VNull = ''null''"
| "js_String (VBool b) = (if b then ''true'' else ''false'')"
| "js_String (VNum n) = num_str n"
| "js_String (VStr s) = s"
| "js_String (VArr vs) = join '','' (map (\<lambda>v. if nullish v then [] else js_String v) vs)"
| "js_String (VObj p) = ''[object Object]''"
  by pat_completeness auto
termination
  by (relation "measure size") (auto simp: less_Suc_eq_le size_list_estimation')

text \<open>The numeric literals of \<open>Number(string)\<close>: decimal with optional sign, fraction and
  exponent, unsigned hexadecimal, octal and binary, \<open>Infinity\<close>, and blank as zero.\<close>

definition read_unsigned :: "string \<Rightarrow> rat option" where
  "read_unsigned s = (case split_at (CHR ''.'') s of
     (ip, None) \<Rightarrow> map_option of_nat (of_base 10 ip)
   | (ip, Some fp) \<Rightarrow> map_option (\<lambda>m. of_nat m / 10 ^ length fp) (of_base 10 (ip @ fp)))"

definition read_exponent :: "string \<Rightarrow> int option" where
  "read_exponent s = (case s of
     [] \<Rightarrow> None
   | c # cs \<Rightarrow> if c = CHR ''-'' then map_option (\<lambda>n. - int n) (of_base 10 cs)
                else if c = CHR ''+'' then map_option int (of_base 10 cs)
                else map_option int (of_base 10 s))"

definition pow10 :: "int \<Rightarrow> rat" where
  "pow10 e = (if 0 \<le> e then 10 ^ nat e else 1 / 10 ^ nat (- e))"

definition read_decimal :: "string \<Rightarrow> rat option" where
  "read_decimal s = (case split_at (CHR ''e'') (map lower_char s) of
     (m, None) \<Rightarrow> read_unsigned m
   | (m, Some e) \<Rightarrow> (case (read_unsigned m, read_exponent e) of
       (Some q, Some i) \<Rightarrow> Some (q * pow10 i) | _ \<Rightarrow> None))"

definition read_prefixed :: "string \<Rightarrow> nat option" where
  "read_prefixed s = (case s of
     z # x # ds \<Rightarrow> if z = CHR ''0'' \<and> lower_char x = CHR ''x'' then of_base 16 ds
                    else if z = CHR ''0'' \<and> lower_char x = CHR ''o'' then of_base 8 ds
                    else if z = CHR ''0'' \<and> lower_char x = CHR ''b'' then of_base 2 ds
                    else None
   | _ \<Rightarrow> None)"

definition read_signed :: "string \<Rightarrow> jnum" where
  "read_signed s =
     (let neg = (s \<noteq> [] \<and> hd s = CHR ''-''); signed = (s \<noteq> [] \<and> (neg \<or> hd s = CHR ''+''));
          body = (if signed then tl s else s)
      in if body = ''Infinity'' then JInf neg
         else case read_decimal body of None \<Rightarrow> JNaN | Some q \<Rightarrow> JFin (if neg then - q else q))"

definition string_to_number :: "string \<Rightarrow> jnum" where
  "string_to_number str = (let s = trim str in
     if s = [] then JFin 0
     else case read_prefixed s of Some n \<Rightarrow> JFin (of_nat n) | None \<Rightarrow> read_signed s)"

definition js_Number :: "jsv \<Rightarrow> jnum" where
  "js_Number v = (case v of
     VUndef \<Rightarrow> JNaN
   | VNull \<Rightarrow> JFin 0
   | VBool b \<Rightarrow> JFin (if b then 1 else 0)
   | VNum n \<Rightarrow> n
   | VStr s \<Rightarrow> string_to_number s
   | VArr vs \<Rightarrow> string_to_number (js_String v)
   | VObj p \<Rightarrow> JNaN)"

text \<open>\<open>BigInt(v)\<close> on a string or a number; \<open>None\<close> where it throws.\<close>

definition string_to_bigint :: "string \<Rightarrow> int option" where
  "string_to_bigint str = (let s = trim str in
     if s = [] then Some 0
     else case read_prefixed s of
       Some n \<Rightarrow> Some (int n)
     | None \<Rightarrow>
         (if hd s = CHR ''-'' then map_option (\<lambda>n. - int n) (of_base 10 (tl s))
          else if hd s = CHR ''+'' then map_option int (of_base 10 (tl s))
          else map_option int (of_base 10 s)))"

definition js_BigInt :: "jsv \<Rightarrow> int option" where
  "js_BigInt v = (case v of
     VStr s \<Rightarrow> string_to_bigint s
   | VNum (JFin q) \<Rightarrow> if is_integer q then Some \<lfloor>q\<rfloor> else None
   | _ \<Rightarrow> None)"

definition num_fin :: "jnum \<Rightarrow> rat option" where
  "num_fin n = (case n of JFin q \<Rightarrow> Some q | _ \<Rightarrow> None)"

section \<open>Dates\<close>

text \<open>A \<open>Date\<close> is its time value in milliseconds; an invalid date is \<open>None\<close>.\<close>

type_synonym date = "int option"

definition civil :: "int \<Rightarrow> int \<times> int \<times> int" where
  "civil days =
     (let z = days + 719468; era = z div 146097; doe = z mod 146097;
          yoe = (doe - doe div 1460 + doe div 36524 - doe div 146096) div 365;
          doy = doe - (365 * yoe + yoe div 4 - yoe div 100);
          mp = (5 * doy + 2) div 153;
          d = doy - (153 * mp + 2) div 5 + 1;
          m = (if mp < 10 then mp + 3 else mp - 9)
      in (yoe + era * 400 + (if m \<le> 2 then 1 else 0), m, d))"

definition days_from_civil :: "int \<Rightarrow> int \<Rightarrow> int \<Rightarrow> int" where
  "days_from_civil y m d =
     (let y' = (if m \<le> 2 then y - 1 else y); era = y' div 400; yoe = y' mod 400;
          doy = (153 * (if m > 2 then m - 3 else m + 9) + 2) div 5 + d - 1;
          doe = yoe * 365 + yoe div 4 - yoe div 100 + doy
      in era * 146097 + doe - 719468)"

definition pad_int :: "nat \<Rightarrow> int \<Rightarrow> string" where
  "pad_int k i = pad_left k (nat_str (nat i))"

definition year_str :: "int \<Rightarrow> string" where
  "year_str y = (if 0 \<le> y \<and> y \<le> 9999 then pad_int 4 y
     else (if y < 0 then ''-'' else ''+'') @ pad_int 6 \<bar>y\<bar>)"

definition toISOString :: "int \<Rightarrow> string" where
  "toISOString ms =
     (case civil (ms div 86400000) of (y, m, d) \<Rightarrow>
        (let t = ms mod 86400000 in
         year_str y @ ''-'' @ pad_int 2 m @ ''-'' @ pad_int 2 d @ ''T'' @
         pad_int 2 (t div 3600000) @ '':'' @ pad_int 2 (t div 60000 mod 60) @ '':'' @
         pad_int 2 (t div 1000 mod 60) @ ''.'' @ pad_int 3 (t mod 1000) @ ''Z''))"

text \<open>\<open>new Date().toISOString().slice(0, 10)\<close>.\<close>

definition iso_day :: "int \<Rightarrow> string" where
  "iso_day ms = take 10 (toISOString ms)"

end
