(* ===== verification/Host.thy ===== *)
theory Host
  imports JsValue
begin

text \<open>
  What the program calls and does not contain. \<open>decimal.js\<close> is a package: its finite values
  are rationals here, and what it does to them (reading a literal, rounding every arithmetic
  result to its configured precision, powers of ten, plain notation) is a field of the
  parameter \<open>host\<close>. So are the two functions of the standard library whose result the
  language standard leaves to the implementation: \<open>localeCompare\<close> and \<open>Date.parse\<close> on
  arbitrary text. The locales state the documented behaviour the proofs rely on; the
  interpretation at the end discharges it for \<open>decimal.js\<close>'s default configuration, 20
  significant digits rounded half away from zero.
\<close>

section \<open>Decimals\<close>

text \<open>The exponent range of the package (\<open>9e15\<close>) and the sign of zero are not modelled.\<close>

datatype decimal = DFin rat | DInf bool | DNaN

record host =
  localeCompare :: "string \<Rightarrow> string \<Rightarrow> int"
  dateParse :: "string \<Rightarrow> int option"
  decNew :: "jsv \<Rightarrow> decimal option"
  decRound :: "rat \<Rightarrow> rat"
  decPow10 :: "rat \<Rightarrow> rat option"
  decFixed :: "decimal \<Rightarrow> string"

text \<open>Arithmetic on finite decimals: the exact result, rounded.\<close>

definition rplus :: "host \<Rightarrow> rat \<Rightarrow> rat \<Rightarrow> rat" where
  "rplus H a b = decRound H (a + b)"

definition rminus :: "host \<Rightarrow> rat \<Rightarrow> rat \<Rightarrow> rat" where
  "rminus H a b = decRound H (a - b)"

definition rmul :: "host \<Rightarrow> rat \<Rightarrow> rat \<Rightarrow> rat" where
  "rmul H a b = decRound H (a * b)"

definition rdiv :: "host \<Rightarrow> rat \<Rightarrow> rat \<Rightarrow> rat" where
  "rdiv H a b = decRound H (a / b)"

definition fixed :: "host \<Rightarrow> rat \<Rightarrow> string" where
  "fixed H q = decFixed H (DFin q)"

text \<open>The value of a literal when it is finite.\<close>

definition decFinite :: "host \<Rightarrow> jsv \<Rightarrow> rat option" where
  "decFinite H v = (case decNew H v of Some (DFin q) \<Rightarrow> Some q | _ \<Rightarrow> None)"

text \<open>Arithmetic on all decimals, with the special values of IEEE 754.\<close>

fun d_plus :: "host \<Rightarrow> decimal \<Rightarrow> decimal \<Rightarrow> decimal" where
  "d_plus H (DFin a) (DFin b) = DFin (rplus H a b)"
| "d_plus H DNaN _ = DNaN"
| "d_plus H _ DNaN = DNaN"
| "d_plus H (DInf s) (DInf t) = (if s = t then DInf s else DNaN)"
| "d_plus H (DInf s) (DFin b) = DInf s"
| "d_plus H (DFin a) (DInf t) = DInf t"

fun d_mul :: "host \<Rightarrow> decimal \<Rightarrow> decimal \<Rightarrow> decimal" where
  "d_mul H (DFin a) (DFin b) = DFin (rmul H a b)"
| "d_mul H DNaN _ = DNaN"
| "d_mul H _ DNaN = DNaN"
| "d_mul H (DInf s) (DInf t) = DInf (s \<noteq> t)"
| "d_mul H (DInf s) (DFin b) = (if b = 0 then DNaN else DInf (s \<noteq> (b < 0)))"
| "d_mul H (DFin a) (DInf t) = (if a = 0 then DNaN else DInf (t \<noteq> (a < 0)))"

fun d_neg :: "decimal \<Rightarrow> decimal" where
  "d_neg (DFin a) = DFin (- a)"
| "d_neg (DInf s) = DInf (\<not> s)"
| "d_neg DNaN = DNaN"

text \<open>\<open>Decimal.max(x, 0)\<close>; \<open>NaN\<close> stays.\<close>

fun d_max0 :: "decimal \<Rightarrow> decimal" where
  "d_max0 (DFin a) = DFin (max a 0)"
| "d_max0 (DInf s) = (if s then DFin 0 else DInf s)"
| "d_max0 DNaN = DNaN"

section \<open>The documented behaviour\<close>

locale decimal_laws =
  fixes H :: host
  assumes round_zero: "decRound H 0 = 0"
    and round_mono: "x \<le> y \<Longrightarrow> decRound H x \<le> decRound H y"
    and round_idem: "decRound H (decRound H x) = decRound H x"
    and round_neg: "decRound H (- x) = - decRound H x"
    and new_fixed_round: "decNew H (VStr (fixed H (decRound H x))) = Some (DFin (decRound H x))"
    and new_fixed_new: "decNew H v = Some (DFin x) \<Longrightarrow> decNew H (VStr (fixed H x)) = Some (DFin x)"
    and new_zero: "decNew H (VStr ''0'') = Some (DFin 0)"
    and pow10_positive: "decPow10 H d = Some p \<Longrightarrow> 0 < p"
begin

lemma round_nonneg: "0 \<le> x \<Longrightarrow> 0 \<le> decRound H x"
  using round_mono [of 0 x] by (simp add: round_zero)

lemma rplus_nonneg: "0 \<le> a \<Longrightarrow> 0 \<le> b \<Longrightarrow> 0 \<le> rplus H a b"
  by (simp add: rplus_def round_nonneg)

lemma rmul_nonneg: "0 \<le> a \<Longrightarrow> 0 \<le> b \<Longrightarrow> 0 \<le> rmul H a b"
  by (simp add: rmul_def round_nonneg)

lemma rdiv_nonneg: "0 \<le> a \<Longrightarrow> 0 \<le> b \<Longrightarrow> 0 \<le> rdiv H a b"
  by (simp add: rdiv_def round_nonneg)

lemma rmul_mono: "a \<le> b \<Longrightarrow> 0 \<le> c \<Longrightarrow> rmul H a c \<le> rmul H b c"
  by (simp add: rmul_def round_mono mult_right_mono)

lemma rplus_zero: "rplus H a 0 = decRound H a" "rplus H 0 a = decRound H a"
  by (simp_all add: rplus_def)

end

locale collation_laws =
  fixes H :: host
  assumes collate_sym: "localeCompare H a b \<le> 0 \<or> localeCompare H b a \<le> 0"
    and collate_antisym: "localeCompare H a b = 0 \<longleftrightarrow> localeCompare H b a = 0"
    and collate_opp: "localeCompare H a b < 0 \<longleftrightarrow> 0 < localeCompare H b a"
    and collate_refl: "localeCompare H a a = 0"
    and collate_trans: "localeCompare H a b \<le> 0 \<Longrightarrow> localeCompare H b c \<le> 0 \<Longrightarrow> localeCompare H a c \<le> 0"

locale host_laws = decimal_laws H + collation_laws H for H :: host

section \<open>Powers of ten and significant digits\<close>

lemma pow10_powi: "pow10 e = 10 powi e"
  by (simp add: pow10_def power_int_def inverse_eq_divide power_one_over)

lemma pow10_pos [simp]: "0 < pow10 e"
  by (simp add: pow10_powi)

lemma pow10_add: "pow10 (a + b) = pow10 a * pow10 b"
  by (simp add: pow10_powi power_int_add)

lemma pow10_mono: "a \<le> b \<Longrightarrow> pow10 a \<le> pow10 b"
  by (simp add: pow10_powi power_int_increasing)

lemma pow10_less: "a < b \<Longrightarrow> pow10 a < pow10 b"
  by (simp add: pow10_powi power_int_strict_increasing)

lemma pow10_less_iff: "pow10 a < pow10 b \<longleftrightarrow> a < b"
  by (metis linorder_not_le order_less_irrefl pow10_less pow10_mono)

lemma pow10_nat: "pow10 (int n) = 10 ^ n"
  by (simp add: pow10_def)

definition ndigits :: "int \<Rightarrow> int" where
  "ndigits n = int (length (nat_str (nat n)))"

text \<open>The decimal exponent of a positive value: \<open>10 ^ e \<le> x < 10 ^ (e + 1)\<close>.\<close>

definition mag :: "rat \<Rightarrow> int" where
  "mag x = (case quotient_of x of (n, d) \<Rightarrow>
     (let e = ndigits n - ndigits d in if pow10 e \<le> x then e else e - 1))"

definition round_pos :: "rat \<Rightarrow> rat" where
  "round_pos x = (let u = pow10 (mag x - 19) in of_int \<lfloor>x / u + 1 / 2\<rfloor> * u)"

definition round20 :: "rat \<Rightarrow> rat" where
  "round20 x = (if x = 0 then 0 else if 0 < x then round_pos x else - round_pos (- x))"

lemma to_base_bounds:
  "2 \<le> b \<Longrightarrow> 0 < n \<Longrightarrow> b ^ (length (to_base b n) - 1) \<le> n \<and> n < b ^ length (to_base b n)"
proof (induction b n rule: to_base.induct)
  case (1 b n)
  show ?case
  proof (cases "n < b")
    case True
    then show ?thesis using "1.prems" by (simp add: to_base.simps [of b n])
  next
    case False
    define l where "l = length (to_base b (n div b))"
    have l: "0 < l" by (simp add: l_def)
    have "0 < n div b" using False "1.prems" by (simp add: div_greater_zero_iff)
    then have IH: "b ^ (l - 1) \<le> n div b" "n div b < b ^ l"
      using "1.IH" "1.prems" False by (simp_all add: l_def)
    have len: "length (to_base b n) = Suc l"
      using False "1.prems" by (simp add: to_base.simps [of b n] l_def)
    have "b ^ l = b ^ (l - 1) * b" using l by (metis power_minus_mult)
    also have "\<dots> \<le> n div b * b" using IH(1) by simp
    also have "\<dots> \<le> n" by simp
    finally have "b ^ l \<le> n" .
    moreover have "n < b ^ Suc l"
      using IH(2) "1.prems" by (simp add: div_less_iff_less_mult mult.commute)
    ultimately show ?thesis by (simp add: len)
  qed
qed

lemma ndigits_bounds:
  assumes "0 < n"
  shows "pow10 (ndigits n - 1) \<le> of_int n" "of_int n < pow10 (ndigits n)"
proof -
  define l where "l = length (to_base 10 (nat n))"
  have b: "10 ^ (l - 1) \<le> nat n" "nat n < 10 ^ l" and l: "0 < l"
    using to_base_bounds [of 10 "nat n"] assms by (simp_all add: l_def)
  have n: "(of_int n :: rat) = of_nat (nat n)" using assms by simp
  have "ndigits n - 1 = int (l - 1)" using l unfolding ndigits_def nat_str_def l_def by linarith
  then have "pow10 (ndigits n - 1) = of_nat (10 ^ (l - 1))" by (simp add: pow10_nat)
  then show "pow10 (ndigits n - 1) \<le> of_int n" using b(1) by (simp only: n of_nat_le_iff)
  have "pow10 (ndigits n) = of_nat (10 ^ l)"
    by (simp add: ndigits_def nat_str_def l_def pow10_nat)
  then show "of_int n < pow10 (ndigits n)" using b(2) by (simp only: n of_nat_less_iff)
qed

lemma mag_bounds:
  assumes "0 < x"
  shows "pow10 (mag x) \<le> x" "x < pow10 (mag x + 1)"
proof -
  obtain n d where q: "quotient_of x = (n, d)" by (cases "quotient_of x")
  have d: "0 < d" and x: "x = of_int n / of_int d"
    using quotient_of_denom_pos [OF q] quotient_of_div [OF q] by auto
  have n: "0 < n" using assms x d by (simp add: zero_less_divide_iff)
  define e where "e = ndigits n - ndigits d"
  have lo: "pow10 (e - 1) \<le> x"
  proof -
    have "pow10 (e - 1) * of_int d \<le> pow10 (e - 1) * pow10 (ndigits d)"
      using ndigits_bounds(2) [OF d] by (intro mult_left_mono) (auto simp: less_imp_le)
    also have "\<dots> = pow10 (ndigits n - 1)" by (simp add: pow10_add [symmetric] e_def)
    also have "\<dots> \<le> of_int n" by (rule ndigits_bounds(1) [OF n])
    finally show ?thesis using d by (simp add: x field_simps)
  qed
  have hi: "x < pow10 (e + 1)"
  proof -
    have "of_int n < pow10 (ndigits n)" by (rule ndigits_bounds(2) [OF n])
    also have "pow10 (ndigits n) = pow10 (e + 1) * pow10 (ndigits d - 1)"
      by (simp add: pow10_add [symmetric] e_def)
    also have "\<dots> \<le> pow10 (e + 1) * of_int d"
      using ndigits_bounds(1) [OF d] by (intro mult_left_mono) (auto simp: less_imp_le)
    finally show ?thesis using d by (simp add: x field_simps)
  qed
  have m: "mag x = (if pow10 e \<le> x then e else e - 1)" by (simp add: mag_def q e_def Let_def)
  show "pow10 (mag x) \<le> x" "x < pow10 (mag x + 1)" using lo hi by (auto simp: m)
qed

lemma mag_unique: "pow10 e \<le> x \<Longrightarrow> x < pow10 (e + 1) \<Longrightarrow> mag x = e"
proof -
  assume e: "pow10 e \<le> x" "x < pow10 (e + 1)"
  then have x: "0 < x" using pow10_pos [of e] by linarith
  have "pow10 e < pow10 (mag x + 1)" "pow10 (mag x) < pow10 (e + 1)"
    using e mag_bounds [OF x] by linarith+
  then show ?thesis by (simp add: pow10_less_iff)
qed

lemma round_pos_bounds:
  assumes "0 < x"
  shows "pow10 (mag x) \<le> round_pos x" "round_pos x \<le> pow10 (mag x + 1)"
proof -
  define u where "u = pow10 (mag x - 19)"
  have u: "0 < u" by (simp add: u_def)
  have lo: "pow10 (mag x) = of_int (10 ^ 19) * u" and hi: "pow10 (mag x + 1) = of_int (10 ^ 20) * u"
    by (simp_all only: u_def of_int_power of_int_numeral pow10_nat [symmetric] pow10_add [symmetric]) (simp_all add: add.commute)
  have "of_int (10 ^ 19) \<le> x / u" "x / u < of_int (10 ^ 20)"
    using mag_bounds [OF assms] u by (simp_all only: lo hi pos_le_divide_eq pos_divide_less_eq)
  then have "10 ^ 19 \<le> \<lfloor>x / u + 1 / 2\<rfloor>" "\<lfloor>x / u + 1 / 2\<rfloor> \<le> 10 ^ 20"
    by (simp_all add: le_floor_iff floor_le_iff)
  then have "(of_int (10 ^ 19) :: rat) \<le> of_int \<lfloor>x / u + 1 / 2\<rfloor>"
            "(of_int \<lfloor>x / u + 1 / 2\<rfloor> :: rat) \<le> of_int (10 ^ 20)"
    by (simp_all only: of_int_le_iff)
  then show "pow10 (mag x) \<le> round_pos x" "round_pos x \<le> pow10 (mag x + 1)"
    using u unfolding lo hi round_pos_def Let_def u_def [symmetric]
    by (simp_all only: mult_right_mono less_imp_le)
qed

lemma round_pos_mono:
  assumes "0 < x" and "x \<le> y"
  shows "round_pos x \<le> round_pos y"
proof (cases "mag x = mag y")
  case True
  have "\<lfloor>x / pow10 (mag y - 19) + 1 / 2\<rfloor> \<le> \<lfloor>y / pow10 (mag y - 19) + 1 / 2\<rfloor>"
    using assms by (intro floor_mono) (simp add: divide_right_mono less_imp_le)
  then show ?thesis
    by (simp add: round_pos_def Let_def True less_imp_le)
next
  case False
  have y: "0 < y" using assms by simp
  have "pow10 (mag x) < pow10 (mag y + 1)"
    using mag_bounds [OF assms(1)] mag_bounds [OF y] assms(2) by linarith
  then have "mag x + 1 \<le> mag y" using False by (simp add: pow10_less_iff)
  then have "pow10 (mag x + 1) \<le> pow10 (mag y)" by (rule pow10_mono)
  then show ?thesis using round_pos_bounds [OF assms(1)] round_pos_bounds [OF y] by linarith
qed

lemma round_pos_fixpoint:
  assumes "0 < x" and "x = of_int m * pow10 (mag x - 19)"
  shows "round_pos x = x"
proof -
  define u where "u = pow10 (mag x - 19)"
  have u: "0 < u" by (simp add: u_def)
  have x: "x = of_int m * u" using assms(2) by (simp add: u_def)
  have "x / u = of_int m" using u by (simp add: x)
  then have "round_pos x = of_int \<lfloor>(of_int m :: rat) + 1 / 2\<rfloor> * u"
    by (simp add: round_pos_def Let_def u_def [symmetric])
  moreover have "\<lfloor>(of_int m :: rat) + 1 / 2\<rfloor> = m" by (simp add: floor_unique)
  ultimately show ?thesis using x by simp
qed

lemma round_pos_pos: "0 < x \<Longrightarrow> 0 < round_pos x"
  using round_pos_bounds(1) [of x] pow10_pos [of "mag x"] by linarith

lemma round_pos_idem:
  assumes "0 < x"
  shows "round_pos (round_pos x) = round_pos x"
proof (cases "round_pos x = pow10 (mag x + 1)")
  case True
  have "mag (pow10 (mag x + 1)) = mag x + 1" by (rule mag_unique) (simp_all add: pow10_less)
  then have "round_pos x = of_int (10 ^ 19) * pow10 (mag (round_pos x) - 19)"
    by (simp only: True of_int_power of_int_numeral pow10_nat [symmetric] pow10_add [symmetric]) (simp add: add.commute)
  then show ?thesis by (rule round_pos_fixpoint [OF round_pos_pos [OF assms]])
next
  case False
  then have "mag (round_pos x) = mag x"
    using round_pos_bounds [OF assms] by (intro mag_unique) auto
  then have "round_pos x = of_int \<lfloor>x / pow10 (mag x - 19) + 1 / 2\<rfloor> * pow10 (mag (round_pos x) - 19)"
    by (simp add: round_pos_def Let_def)
  then show ?thesis by (rule round_pos_fixpoint [OF round_pos_pos [OF assms]])
qed

lemma round20_mono: "x \<le> y \<Longrightarrow> round20 x \<le> round20 y"
  using round_pos_mono [of x y] round_pos_mono [of "- y" "- x"] round_pos_pos [of y]
    round_pos_pos [of "- x"]
  by (auto simp: round20_def not_less)

lemma round20_neg: "round20 (- x) = - round20 x"
  by (auto simp: round20_def)

lemma round20_idem: "round20 (round20 x) = round20 x"
  using round_pos_idem [of x] round_pos_idem [of "- x"] round_pos_pos [of x] round_pos_pos [of "- x"]
  by (auto simp: round20_def)

lemma pow10_decimal: "decimal_value (of_int m * pow10 e)"
proof (cases "0 \<le> e")
  case True
  then have "of_int m * pow10 e = of_int (m * 10 ^ nat e) / 10 ^ 0" by (simp add: pow10_def)
  then show ?thesis unfolding decimal_value_def by blast
next
  case False
  then have "of_int m * pow10 e = of_int m / 10 ^ nat (- e)" by (simp add: pow10_def)
  then show ?thesis unfolding decimal_value_def by blast
qed

lemma decimal_value_neg: "decimal_value q \<Longrightarrow> decimal_value (- q)"
  unfolding decimal_value_def by (metis minus_divide_left of_int_minus)

lemma decimal_round20: "decimal_value (round20 x)"
  using pow10_decimal [of 0 0]
  by (auto simp: round20_def round_pos_def Let_def intro: pow10_decimal decimal_value_neg)

section \<open>A host: the defaults of the package\<close>

fun str_compare :: "string \<Rightarrow> string \<Rightarrow> int" where
  "str_compare [] [] = 0"
| "str_compare [] (y # ys) = - 1"
| "str_compare (x # xs) [] = 1"
| "str_compare (x # xs) (y # ys) =
     (let a = of_char x :: nat; b = of_char y :: nat in
      if a < b then - 1 else if b < a then 1 else str_compare xs ys)"

lemma str_compare_refl [simp]: "str_compare a a = 0"
  by (induction a) auto

lemma str_compare_opp: "str_compare b a = - str_compare a b"
  by (induction a b rule: str_compare.induct) (auto simp: Let_def)

lemma str_compare_0 [simp]: "str_compare a b = 0 \<longleftrightarrow> a = b"
  by (induction a b rule: str_compare.induct) (auto simp: Let_def)

lemma str_compare_Cons:
  "str_compare (x # xs) (y # ys) \<le> 0 \<longleftrightarrow>
   (of_char x :: nat) < of_char y \<or> (of_char x = (of_char y :: nat) \<and> str_compare xs ys \<le> 0)"
  by (simp only: str_compare.simps Let_def) force

lemma str_compare_trans:
  "str_compare a b \<le> 0 \<Longrightarrow> str_compare b c \<le> 0 \<Longrightarrow> str_compare a c \<le> 0"
proof (induction a b arbitrary: c rule: str_compare.induct)
  case (2 y ys)
  then show ?case by (cases c) simp_all
next
  case (4 x xs y ys)
  then obtain z zs where c: "c = z # zs" by (cases c) simp_all
  consider "(of_char x :: nat) < of_char y \<or> (of_char y :: nat) < of_char z"
    | "of_char x = (of_char y :: nat)" "of_char y = (of_char z :: nat)" "str_compare xs ys \<le> 0" "str_compare ys zs \<le> 0"
    using "4.prems" unfolding c str_compare_Cons by linarith
  then show ?case
  proof cases
    case 1
    then show ?thesis using "4.prems" unfolding c str_compare_Cons by linarith
  next
    case 2
    then have "str_compare xs zs \<le> 0" using "4.IH" by simp
    then show ?thesis using 2 unfolding c str_compare_Cons by simp
  qed
qed simp_all

definition digits2 :: "string \<Rightarrow> int option" where
  "digits2 s = map_option int (of_base 10 s)"

text \<open>The two ISO forms every implementation of \<open>Date.parse\<close> reads.\<close>

definition iso_parse :: "string \<Rightarrow> int option" where
  "iso_parse s =
     (if (length s = 10 \<or> (length s = 24 \<and> s ! 10 = CHR ''T'' \<and> s ! 13 = CHR '':'' \<and>
            s ! 16 = CHR '':'' \<and> s ! 19 = CHR ''.'' \<and> s ! 23 = CHR ''Z'')) \<and>
         s ! 4 = CHR ''-'' \<and> s ! 7 = CHR ''-'' then
        (case (digits2 (take 4 s), digits2 (take 2 (drop 5 s)), digits2 (take 2 (drop 8 s))) of
           (Some y, Some m, Some d) \<Rightarrow>
             if 1 \<le> m \<and> m \<le> 12 \<and> 1 \<le> d \<and> d \<le> 31 then
               (if length s = 10 then Some (days_from_civil y m d * 86400000)
                else case (digits2 (take 2 (drop 11 s)), digits2 (take 2 (drop 14 s)),
                           digits2 (take 2 (drop 17 s)), digits2 (take 3 (drop 20 s))) of
                  (Some h, Some mi, Some sec, Some ms) \<Rightarrow>
                    if h < 24 \<and> mi < 60 \<and> sec < 60
                    then Some (days_from_civil y m d * 86400000 + h * 3600000 + mi * 60000 + sec * 1000 + ms)
                    else None
                | _ \<Rightarrow> None)
             else None
         | _ \<Rightarrow> None)
      else None)"

definition is_decimal :: "rat \<Rightarrow> bool" where
  "is_decimal q \<longleftrightarrow> \<bar>q\<bar> * 10 ^ scale_of q = of_int \<lfloor>\<bar>q\<bar> * 10 ^ scale_of q\<rfloor>"

definition std_new :: "jsv \<Rightarrow> decimal option" where
  "std_new v = (case v of
     VStr s \<Rightarrow> if s = ''NaN'' then Some DNaN
               else if s = ''Infinity'' then Some (DInf False)
               else if s = ''-Infinity'' then Some (DInf True)
               else map_option DFin (dec_read s)
   | VNum JNaN \<Rightarrow> Some DNaN
   | VNum (JInf b) \<Rightarrow> Some (DInf b)
   | VNum (JFin q) \<Rightarrow> if is_decimal q then Some (DFin q) else None
   | _ \<Rightarrow> None)"

definition std_fixed :: "decimal \<Rightarrow> string" where
  "std_fixed d = (case d of DFin q \<Rightarrow> dec_show q | DNaN \<Rightarrow> ''NaN''
     | DInf b \<Rightarrow> if b then ''-Infinity'' else ''Infinity'')"

definition std_pow10 :: "rat \<Rightarrow> rat option" where
  "std_pow10 d = (if is_integer d then Some (pow10 \<lfloor>d\<rfloor>) else None)"

definition std_host :: host where
  "std_host = \<lparr> localeCompare = str_compare, dateParse = iso_parse, decNew = std_new,
     decRound = round20, decPow10 = std_pow10, decFixed = std_fixed \<rparr>"

lemma is_decimal_value: "is_decimal q \<Longrightarrow> decimal_value q"
proof -
  assume "is_decimal q"
  then have "\<bar>q\<bar> = of_int \<lfloor>\<bar>q\<bar> * 10 ^ scale_of q\<rfloor> / 10 ^ scale_of q"
    by (simp add: is_decimal_def field_simps)
  then have "decimal_value \<bar>q\<bar>" unfolding decimal_value_def by blast
  then show ?thesis using decimal_value_neg [of "\<bar>q\<bar>"] by (cases "0 \<le> q") auto
qed

lemma dec_read_abs_value: "dec_read_abs s = Some q \<Longrightarrow> decimal_value q"
proof -
  assume "dec_read_abs s = Some q"
  then obtain n k where "q = of_nat n / 10 ^ k"
    by (auto simp: dec_read_abs_def split: prod.splits option.splits if_splits)
       (metis div_by_1 power_0)+
  then have "q = of_int (int n) / 10 ^ k" by simp
  then show ?thesis unfolding decimal_value_def by blast
qed

lemma dec_read_value: "dec_read s = Some q \<Longrightarrow> decimal_value q"
  by (auto simp: dec_read_def split: list.splits if_splits
      intro: dec_read_abs_value decimal_value_neg)

lemma dec_show_not_special:
  "dec_show q \<noteq> ''NaN''" "dec_show q \<noteq> ''Infinity''" "dec_show q \<noteq> ''-Infinity''"
proof -
  define k m where "k = scale_of q" and "m = nat \<lfloor>\<bar>q\<bar> * 10 ^ k\<rfloor>"
  have "nat_str (m div 10 ^ k) \<noteq> []" by (simp add: nat_str_def)
  then obtain c cs where c: "nat_str (m div 10 ^ k) = c # cs" by (cases "nat_str (m div 10 ^ k)") auto
  then have "(of_char c :: nat) \<in> {48..57}" by (intro of_char_nat_str [of _ "m div 10 ^ k"]) simp
  then have "c \<noteq> CHR ''N''" "c \<noteq> CHR ''I''" "c \<noteq> CHR ''-''" by auto
  moreover have "dec_show q = (if q < 0 then ''-'' else []) @ c # cs @ (if k = 0 then [] else ''.'' @ pad_left k (nat_str (m mod 10 ^ k)))"
    by (simp add: dec_show_def dec_show_nat_def k_def m_def Let_def c [unfolded k_def m_def])
  ultimately show "dec_show q \<noteq> ''NaN''" "dec_show q \<noteq> ''Infinity''" "dec_show q \<noteq> ''-Infinity''"
    by auto
qed

lemma std_new_fixed: "decimal_value q \<Longrightarrow> std_new (VStr (std_fixed (DFin q))) = Some (DFin q)"
  by (simp add: std_new_def std_fixed_def dec_show_not_special dec_read_show)

lemma std_new_decimal: "std_new v = Some (DFin q) \<Longrightarrow> decimal_value q"
  by (auto simp: std_new_def split: jsv.splits jnum.splits if_splits
      intro: dec_read_value is_decimal_value)

interpretation std: host_laws std_host
proof unfold_locales
  fix a b c :: string and x y :: rat and v d p
  show "decRound std_host 0 = 0" by (simp add: std_host_def round20_def)
  show "x \<le> y \<Longrightarrow> decRound std_host x \<le> decRound std_host y" by (simp add: std_host_def round20_mono)
  show "decRound std_host (decRound std_host x) = decRound std_host x" by (simp add: std_host_def round20_idem)
  show "decRound std_host (- x) = - decRound std_host x" by (simp add: std_host_def round20_neg)
  show "decNew std_host (VStr (fixed std_host (decRound std_host x))) = Some (DFin (decRound std_host x))"
    by (simp add: std_host_def fixed_def std_new_fixed decimal_round20)
  show "decNew std_host v = Some (DFin x) \<Longrightarrow> decNew std_host (VStr (fixed std_host x)) = Some (DFin x)"
    using std_new_decimal by (simp add: std_host_def fixed_def std_new_fixed)
  show "decNew std_host (VStr ''0'') = Some (DFin 0)" by (simp add: std_host_def) code_simp
  show "decPow10 std_host d = Some p \<Longrightarrow> 0 < p" by (auto simp: std_host_def std_pow10_def split: if_splits)
  show "localeCompare std_host a b \<le> 0 \<or> localeCompare std_host b a \<le> 0"
    using str_compare_opp [of b a] by (simp add: std_host_def) linarith
  show "(localeCompare std_host a b = 0) = (localeCompare std_host b a = 0)" by (auto simp: std_host_def)
  show "(localeCompare std_host a b < 0) = (0 < localeCompare std_host b a)"
    using str_compare_opp [of b a] by (simp add: std_host_def)
  show "localeCompare std_host a a = 0" by (simp add: std_host_def)
  show "localeCompare std_host a b \<le> 0 \<Longrightarrow> localeCompare std_host b c \<le> 0 \<Longrightarrow> localeCompare std_host a c \<le> 0"
    using str_compare_trans [of a b c] by (simp add: std_host_def)
qed

end
