(* ===== verification/CostBasis.thy ===== *)
theory CostBasis
  imports Host
begin

text \<open>
  The moving-average cost engine, \<open>packages/tax-engine/src/core/cost-basis.ts\<close>: the payload
  readers, the pre-scan that pairs the two legs of a bridge, the reorder pass, the choice of
  the leg that carries a transaction's gas, and the fold itself with its escrow. One
  definition per function of the file, in its order; the fold's branches are definitions of
  their own (\<open>bridge_out_leg\<close>, \<open>bridge_in_leg\<close>, \<open>excluded_leg\<close>, \<open>acquisition_leg\<close>,
  \<open>disposal_leg\<close>), composed by \<open>fold_step\<close>. This theory holds the definitions; what is
  proved of them is in \<open>CostBasis_Order\<close> and \<open>CostBasis_Fold\<close>.
\<close>

section \<open>Data\<close>

datatype direction = IN | OUT

datatype cost_review = disposal_exceeds_holdings | bridge_move_unmatched | gas_unpriced

definition REVIEW_RANK :: "cost_review \<Rightarrow> nat" where
  "REVIEW_RANK r = (case r of disposal_exceeds_holdings \<Rightarrow> 3 | bridge_move_unmatched \<Rightarrow> 2 | gas_unpriced \<Rightarrow> 1)"

definition pickReview :: "cost_review option \<Rightarrow> cost_review option \<Rightarrow> cost_review option" where
  "pickReview a b = (case a of None \<Rightarrow> b | Some x \<Rightarrow>
     (case b of None \<Rightarrow> a | Some y \<Rightarrow> if REVIEW_RANK y \<le> REVIEW_RANK x then a else b))"

datatype occurred = AtDate date | AtText string

record taxable_transaction =
  tx_id :: string
  eventType :: string
  occurredAt :: occurred
  payload :: jobj

record cost_result =
  eventId :: string
  res_direction :: direction
  costBasis :: string
  proceeds :: "string option"
  realizedPnl :: "string option"
  pnlRatio :: "string option"
  excluded :: bool
  excludeReason :: "string option"
  review :: "cost_review option"
  gasFiat :: "string option option"
  bridgeMove :: "direction option"

type_synonym native_prices = "(string, string) jmap"

definition NON_TAXABLE_CLASSES :: "string list" where
  "NON_TAXABLE_CLASSES = [''SPAM'', ''UNKNOWN'', ''INTERNAL_TRANSFER'']"

record asset_state =
  qty :: rat
  avgCost :: rat

section \<open>Reading a payload\<close>

definition assetKeyOf :: "jobj \<Rightarrow> string" where
  "assetKeyOf p =
     (let chainId = coalesce (pget p ''chain_id'') (VStr []);
          assetType = js_String (coalesce (pget p ''asset_type'') (VStr []));
          contract = (if assetType = ''NATIVE'' then ''native''
                      else toLowerCase (js_String (coalesce (pget p ''asset_contract'') (VStr []))));
          tokenId = coalesce (pget p ''token_id'') (VStr [])
      in js_String chainId @ '':'' @ assetType @ '':'' @ contract @ '':'' @ js_String tokenId)"

definition quantityOf :: "host \<Rightarrow> jobj \<Rightarrow> rat option" where
  "quantityOf H p =
     (let raw = pget p ''raw_amount''; decimals = js_Number (coalesce (pget p ''decimals'') (jint 0)) in
      if \<not> str_or_num raw then None
      else case decFinite H raw of
        None \<Rightarrow> None
      | Some amount \<Rightarrow>
          (case num_fin decimals of
             Some d \<Rightarrow> if 0 < d then Some (case decPow10 H d of Some s \<Rightarrow> rdiv H amount s | None \<Rightarrow> 0) else Some amount
           | None \<Rightarrow> Some amount))"

definition fiatOf :: "host \<Rightarrow> jobj \<Rightarrow> rat option" where
  "fiatOf H p = (let raw = pget p ''fiat_value'' in if \<not> str_or_num raw then None else decFinite H raw)"

definition logIndexOf :: "jobj \<Rightarrow> rat" where
  "logIndexOf p = (case num_fin (js_Number (pget p ''log_index'')) of Some q \<Rightarrow> q | None \<Rightarrow> 0)"

definition occurredMs :: "host \<Rightarrow> taxable_transaction \<Rightarrow> int option" where
  "occurredMs H t = (case occurredAt t of AtDate d \<Rightarrow> d | AtText s \<Rightarrow> dateParse H s)"

definition idOf :: "taxable_transaction \<Rightarrow> string" where
  "idOf t = js_String (coalesce (pget (payload t) ''id'') (VStr (tx_id t)))"

definition nonempty_str :: "jsv \<Rightarrow> string option" where
  "nonempty_str v = (case v of VStr s \<Rightarrow> if s = [] then None else Some s | _ \<Rightarrow> None)"

definition bridgeGroupOf :: "jobj \<Rightarrow> string option" where
  "bridgeGroupOf p = (if pget p ''classification'' \<noteq> VStr ''INTERNAL_TRANSFER'' then None
     else nonempty_str (pget p ''bridge_group_id''))"

definition swapGroupOf :: "jobj \<Rightarrow> string option" where
  "swapGroupOf p = nonempty_str (pget p ''group_id'')"

definition gasNativeOf :: "host \<Rightarrow> jobj \<Rightarrow> rat option" where
  "gasNativeOf H p = (let raw = pget p ''gas_fee_native'' in if \<not> str_or_num raw then None else decFinite H raw)"

text \<open>The test \<open>/^\d{4}-\d{2}-\d{2}/\<close>.\<close>

definition all_digits :: "string \<Rightarrow> bool" where
  "all_digits s \<longleftrightarrow> (\<forall>c \<in> set s. digit_in 10 c \<noteq> None)"

definition day_prefix :: "string \<Rightarrow> bool" where
  "day_prefix s \<longleftrightarrow> 10 \<le> length s \<and> all_digits (take 4 s) \<and> s ! 4 = CHR ''-'' \<and>
     all_digits (take 2 (drop 5 s)) \<and> s ! 7 = CHR ''-'' \<and> all_digits (take 2 (drop 8 s))"

definition utcDay :: "host \<Rightarrow> occurred \<Rightarrow> string option" where
  "utcDay H v = (case v of
     AtDate d \<Rightarrow> map_option iso_day d
   | AtText s \<Rightarrow> (let trimmed = trim s in
       if \<not> day_prefix trimmed then None else map_option iso_day (dateParse H trimmed)))"

definition nativePriceKeyOf :: "host \<Rightarrow> taxable_transaction \<Rightarrow> string option" where
  "nativePriceKeyOf H t =
     (let stamp = pget (payload t) ''block_timestamp'';
          stamped = (case stamp of VStr s \<Rightarrow> utcDay H (AtText s) | _ \<Rightarrow> None);
          day = (case stamped of Some d \<Rightarrow> Some d | None \<Rightarrow> utcDay H (occurredAt t))
      in map_option (\<lambda>d. js_String (coalesce (pget (payload t) ''chain_id'') (VStr [])) @ '':'' @ d) day)"

definition exclusionReason :: "host \<Rightarrow> jobj \<Rightarrow> string option" where
  "exclusionReason H p =
     (let classification = js_String (coalesce (pget p ''classification'') (VStr [])) in
      if classification = ''INTERNAL_TRANSFER'' then
        (case nonempty_str (pget p ''bridge_group_id'') of
           Some _ \<Rightarrow> Some ''classification_INTERNAL_TRANSFER''
         | None \<Rightarrow> Some ''internal_transfer_unlinked'')
      else if classification \<in> set NON_TAXABLE_CLASSES then Some (''classification_'' @ classification)
      else if pget p ''price_status'' = VStr ''UNKNOWN'' then Some ''price_unknown''
      else if fiatOf H p = None then Some ''no_fiat_value''
      else None)"

definition positive_qty :: "host \<Rightarrow> jobj \<Rightarrow> bool" where
  "positive_qty H p = (case quantityOf H p of None \<Rightarrow> False | Some q \<Rightarrow> 0 < q)"

definition isTaxableLine :: "host \<Rightarrow> jobj \<Rightarrow> bool" where
  "isTaxableLine H p \<longleftrightarrow> exclusionReason H p = None \<and> positive_qty H p \<and> fiatOf H p \<noteq> None"

definition directionOf :: "jobj \<Rightarrow> direction" where
  "directionOf p = (if pget p ''direction'' = VStr ''IN'' then IN else OUT)"

section \<open>Pairing the legs of a bridge\<close>

record bridge_legs =
  outIds :: "string list"
  inIds :: "string list"
  usable :: bool

record bridge_pair =
  outId :: string
  inId :: string

record bridge_scan =
  scan_pairs :: "(string, bridge_pair) jmap"
  unmatchedOutIds :: "string list"

definition scan_leg :: "host \<Rightarrow> (string, bridge_legs) jmap \<Rightarrow> taxable_transaction \<Rightarrow> (string, bridge_legs) jmap" where
  "scan_leg H groups t = (case bridgeGroupOf (payload t) of
     None \<Rightarrow> groups
   | Some grp \<Rightarrow>
       (let legs = (case mget groups grp of Some l \<Rightarrow> l | None \<Rightarrow> \<lparr>outIds = [], inIds = [], usable = True\<rparr>);
            legs = (if positive_qty H (payload t) then legs else legs\<lparr>usable := False\<rparr>);
            legs = (case directionOf (payload t) of
                      IN \<Rightarrow> legs\<lparr>inIds := inIds legs @ [idOf t]\<rparr>
                    | OUT \<Rightarrow> legs\<lparr>outIds := outIds legs @ [idOf t]\<rparr>)
        in mput grp legs groups))"

definition movable :: "bridge_legs \<Rightarrow> bool" where
  "movable legs \<longleftrightarrow> usable legs \<and> length (outIds legs) = 1 \<and> length (inIds legs) = 1 \<and>
     hd (outIds legs) \<noteq> hd (inIds legs)"

definition scan_group :: "bridge_scan \<Rightarrow> string \<times> bridge_legs \<Rightarrow> bridge_scan" where
  "scan_group s gl = (case gl of (grp, legs) \<Rightarrow>
     if movable legs
     then s\<lparr>scan_pairs := mput grp \<lparr>outId = hd (outIds legs), inId = hd (inIds legs)\<rparr> (scan_pairs s)\<rparr>
     else s\<lparr>unmatchedOutIds := sadd_all (outIds legs) (unmatchedOutIds s)\<rparr>)"

definition scanBridgePairs :: "host \<Rightarrow> taxable_transaction list \<Rightarrow> bridge_scan" where
  "scanBridgePairs H events =
     (let groups = foldl (scan_leg H) [] events
      in foldl scan_group \<lparr>scan_pairs = [], unmatchedOutIds = []\<rparr> groups)"

definition positions :: "taxable_transaction list \<Rightarrow> (string, nat) jmap" where
  "positions ordered = foldl (\<lambda>m (i, t). mput (idOf t) i m) [] (enumerate 0 ordered)"

definition lift_pair :: "taxable_transaction list \<Rightarrow> (string, nat) jmap \<Rightarrow>
    string list \<times> (string, taxable_transaction) jmap \<Rightarrow> bridge_pair \<Rightarrow>
    string list \<times> (string, taxable_transaction) jmap" where
  "lift_pair ordered position lr pr = (case lr of (lifted, reinsertAfter) \<Rightarrow>
     (case (mget position (outId pr), mget position (inId pr)) of
        (Some outAt, Some inAt) \<Rightarrow>
          if outAt \<le> inAt then (lifted, reinsertAfter)
          else (sadd (inId pr) lifted, mput (outId pr) (ordered ! inAt) reinsertAfter)
      | _ \<Rightarrow> (lifted, reinsertAfter)))"

definition reemit :: "string list \<Rightarrow> (string, taxable_transaction) jmap \<Rightarrow> taxable_transaction \<Rightarrow> taxable_transaction list" where
  "reemit lifted reinsertAfter t =
     (if idOf t \<in> set lifted then []
      else t # (case mget reinsertAfter (idOf t) of None \<Rightarrow> [] | Some pending \<Rightarrow> [pending]))"

definition orderBridgeInsAfterOuts ::
    "taxable_transaction list \<Rightarrow> (string, bridge_pair) jmap \<Rightarrow> taxable_transaction list" where
  "orderBridgeInsAfterOuts ordered pairs =
     (if pairs = [] then ordered
      else case foldl (lift_pair ordered (positions ordered)) ([], []) (mvalues pairs) of
        (lifted, reinsertAfter) \<Rightarrow>
          if lifted = [] then ordered else concat (map (reemit lifted reinsertAfter) ordered))"

section \<open>Which leg carries the gas\<close>

record gas_plan =
  targets :: "string list"
  firstIn :: "(string, string) jmap"
  firstOut :: "(string, string) jmap"

definition plan_leg :: "host \<Rightarrow> gas_plan \<Rightarrow> taxable_transaction \<Rightarrow> gas_plan" where
  "plan_leg H g t =
     (if \<not> isTaxableLine H (payload t) then g
      else case swapGroupOf (payload t) of
        None \<Rightarrow> g\<lparr>targets := sadd (idOf t) (targets g)\<rparr>
      | Some grp \<Rightarrow>
          (case directionOf (payload t) of
             IN \<Rightarrow> if mhas (firstIn g) grp then g else g\<lparr>firstIn := mput grp (idOf t) (firstIn g)\<rparr>
           | OUT \<Rightarrow> if mhas (firstOut g) grp then g else g\<lparr>firstOut := mput grp (idOf t) (firstOut g)\<rparr>))"

definition planGasAttribution :: "host \<Rightarrow> taxable_transaction list \<Rightarrow> string list" where
  "planGasAttribution H ordered =
     (let g = foldl (plan_leg H) \<lparr>targets = [], firstIn = [], firstOut = []\<rparr> ordered;
          withIns = sadd_all (mvalues (firstIn g)) (targets g)
      in sadd_all (map snd (filter (\<lambda>(grp, _). \<not> mhas (firstIn g) grp) (firstOut g))) withIns)"

text \<open>The value of the gas (\<open>None\<close> for unknown) and whether it is unpriced.\<close>

definition gasFiatOf :: "host \<Rightarrow> taxable_transaction \<Rightarrow> native_prices \<Rightarrow> rat option \<times> bool" where
  "gasFiatOf H t nativePrices =
     (case gasNativeOf H (payload t) of
        None \<Rightarrow> (Some 0, False)
      | Some gas \<Rightarrow>
          if gas \<le> 0 then (Some 0, False)
          else case (case nativePriceKeyOf H t of None \<Rightarrow> None | Some key \<Rightarrow> mget nativePrices key) of
            None \<Rightarrow> (None, True)
          | Some raw \<Rightarrow>
              (case decFinite H (VStr raw) of
                 None \<Rightarrow> (None, True)
               | Some unit \<Rightarrow> if unit < 0 then (None, True) else (Some (rmul H gas unit), False)))"

section \<open>The fold\<close>

record fold_state =
  cells :: "(string, asset_state) jmap"
  results :: "(string, cost_result) jmap"
  escrow :: "(string, rat \<times> string) jmap"
  unmatched :: "string list"

definition base_result :: "string \<Rightarrow> direction \<Rightarrow> cost_result" where
  "base_result eid dir = \<lparr>eventId = eid, res_direction = dir, costBasis = ''0'', proceeds = None,
     realizedPnl = None, pnlRatio = None, excluded = False, excludeReason = None, review = None,
     gasFiat = None, bridgeMove = None\<rparr>"

definition cell_at :: "(string, asset_state) jmap \<Rightarrow> string \<Rightarrow> asset_state" where
  "cell_at cs key = (case mget cs key of Some c \<Rightarrow> c | None \<Rightarrow> \<lparr>qty = 0, avgCost = 0\<rparr>)"

definition set_cell :: "string \<Rightarrow> rat \<Rightarrow> rat \<Rightarrow> fold_state \<Rightarrow> fold_state" where
  "set_cell key q a st = st\<lparr>cells := mput key \<lparr>qty = q, avgCost = a\<rparr> (cells st)\<rparr>"

definition set_result :: "string \<Rightarrow> cost_result \<Rightarrow> fold_state \<Rightarrow> fold_state" where
  "set_result eid r st = st\<lparr>results := mput eid r (results st)\<rparr>"

definition new_average :: "host \<Rightarrow> asset_state \<Rightarrow> rat \<Rightarrow> rat \<Rightarrow> rat" where
  "new_average H c added newQty =
     (if newQty = 0 then 0 else rdiv H (rplus H (rmul H (qty c) (avgCost c)) added) newQty)"

definition moved_result :: "string \<Rightarrow> direction \<Rightarrow> cost_result" where
  "moved_result eid dir = (base_result eid dir)\<lparr>excluded := True,
     excludeReason := Some ''classification_INTERNAL_TRANSFER''\<rparr>"

definition bridge_out_leg :: "host \<Rightarrow> string \<Rightarrow> string \<Rightarrow> string \<Rightarrow> rat \<Rightarrow> fold_state \<Rightarrow> fold_state" where
  "bridge_out_leg H grp key eid q st =
     (let c = cell_at (cells st) key;
          disposable = min q (qty c);
          st1 = set_cell key (max (rminus H (qty c) q) 0) (avgCost c) st
      in if disposable < q
         then set_result eid ((moved_result eid OUT)\<lparr>review := Some disposal_exceeds_holdings\<rparr>)
                (st1\<lparr>unmatched := sadd eid (unmatched st1)\<rparr>)
         else set_result eid ((moved_result eid OUT)\<lparr>bridgeMove := Some OUT\<rparr>)
                (st1\<lparr>escrow := mput grp (rmul H disposable (avgCost c), eid) (escrow st1)\<rparr>))"

definition bridge_in_leg :: "host \<Rightarrow> string \<Rightarrow> bridge_pair \<Rightarrow> string \<Rightarrow> string \<Rightarrow> rat \<Rightarrow> fold_state \<Rightarrow> fold_state" where
  "bridge_in_leg H grp pr key eid q st =
     (case mget (escrow st) grp of
        None \<Rightarrow> set_result eid (moved_result eid IN) (st\<lparr>unmatched := sadd (outId pr) (unmatched st)\<rparr>)
      | Some (cost, _) \<Rightarrow>
          (let c = cell_at (cells st) key; newQty = rplus H (qty c) q
           in set_result eid ((moved_result eid IN)\<lparr>bridgeMove := Some IN, costBasis := fixed H cost\<rparr>)
                (set_cell key newQty (new_average H c cost newQty)
                  (st\<lparr>escrow := mdel grp (escrow st)\<rparr>))))"

definition bridge_leg :: "host \<Rightarrow> string \<Rightarrow> bridge_pair \<Rightarrow> taxable_transaction \<Rightarrow> fold_state \<Rightarrow> fold_state" where
  "bridge_leg H grp pr t st =
     (case quantityOf H (payload t) of
        None \<Rightarrow> st
      | Some q \<Rightarrow>
          (case directionOf (payload t) of
             OUT \<Rightarrow> bridge_out_leg H grp (assetKeyOf (payload t)) (idOf t) q st
           | IN \<Rightarrow> bridge_in_leg H grp pr (assetKeyOf (payload t)) (idOf t) q st))"

definition excluded_leg :: "host \<Rightarrow> taxable_transaction \<Rightarrow> fold_state \<Rightarrow> fold_state" where
  "excluded_leg H t st =
     (let reason = (case exclusionReason H (payload t) of
                      Some r \<Rightarrow> r
                    | None \<Rightarrow> if positive_qty H (payload t) then ''no_fiat_value'' else ''no_quantity'')
      in set_result (idOf t) ((base_result (idOf t) (directionOf (payload t)))\<lparr>excluded := True, excludeReason := Some reason\<rparr>) st)"

definition acquisition_leg :: "host \<Rightarrow> (rat option \<times> bool) option \<Rightarrow> string \<Rightarrow> string \<Rightarrow> rat \<Rightarrow> rat \<Rightarrow> fold_state \<Rightarrow> fold_state" where
  "acquisition_leg H gas key eid q fiat st =
     (let gasAmount = (case gas of Some (v, _) \<Rightarrow> v | None \<Rightarrow> None);
          gasReview = (case gas of Some (_, True) \<Rightarrow> Some gas_unpriced | _ \<Rightarrow> None);
          c = cell_at (cells st) key;
          acquired = (case gasAmount of None \<Rightarrow> fiat | Some g \<Rightarrow> rplus H fiat g);
          newQty = rplus H (qty c) q
      in set_result eid ((base_result eid IN)\<lparr>gasFiat := map_option (\<lambda>(v, _). map_option (fixed H) v) gas,
             costBasis := fixed H acquired, review := gasReview\<rparr>)
           (set_cell key newQty (new_average H c acquired newQty) st))"

definition disposal_leg :: "host \<Rightarrow> (rat option \<times> bool) option \<Rightarrow> string \<Rightarrow> string \<Rightarrow> rat \<Rightarrow> rat \<Rightarrow> fold_state \<Rightarrow> fold_state" where
  "disposal_leg H gas key eid q fiat st =
     (let gasAmount = (case gas of Some (v, _) \<Rightarrow> v | None \<Rightarrow> None);
          gasReview = (case gas of Some (_, True) \<Rightarrow> Some gas_unpriced | _ \<Rightarrow> None);
          c = cell_at (cells st) key;
          net = (case gasAmount of None \<Rightarrow> fiat | Some g \<Rightarrow> rminus H fiat g);
          disposable = min q (qty c);
          cost = rmul H disposable (avgCost c);
          realized = rminus H net cost;
          ratio = (if 0 < cost then Some (rdiv H realized cost) else None)
      in set_result eid ((base_result eid OUT)\<lparr>gasFiat := map_option (\<lambda>(v, _). map_option (fixed H) v) gas,
             costBasis := fixed H cost, proceeds := Some (fixed H net), realizedPnl := Some (fixed H realized),
             pnlRatio := map_option (fixed H) ratio,
             review := pickReview (if qty c < q then Some disposal_exceeds_holdings else None) gasReview\<rparr>)
           (set_cell key (max (rminus H (qty c) q) 0) (avgCost c) st))"

definition taxable_leg :: "host \<Rightarrow> native_prices option \<Rightarrow> string list \<Rightarrow> taxable_transaction \<Rightarrow> rat \<Rightarrow> rat \<Rightarrow> fold_state \<Rightarrow> fold_state" where
  "taxable_leg H nativePrices gasTargets t q fiat st =
     (let gas = (case nativePrices of
                   None \<Rightarrow> None
                 | Some ps \<Rightarrow> if idOf t \<in> set gasTargets then Some (gasFiatOf H t ps) else None);
          key = assetKeyOf (payload t)
      in case directionOf (payload t) of
           IN \<Rightarrow> acquisition_leg H gas key (idOf t) q fiat st
         | OUT \<Rightarrow> disposal_leg H gas key (idOf t) q fiat st)"

definition fold_step :: "host \<Rightarrow> (string, bridge_pair) jmap \<Rightarrow> native_prices option \<Rightarrow> string list \<Rightarrow>
    fold_state \<Rightarrow> taxable_transaction \<Rightarrow> fold_state" where
  "fold_step H pairs nativePrices gasTargets st t =
     (case (case bridgeGroupOf (payload t) of None \<Rightarrow> None
              | Some g \<Rightarrow> map_option (\<lambda>pr. (g, pr)) (mget pairs g)) of
        Some (g, pr) \<Rightarrow> bridge_leg H g pr t st
      | None \<Rightarrow>
          (case (exclusionReason H (payload t), quantityOf H (payload t), fiatOf H (payload t)) of
             (None, Some q, Some fiat) \<Rightarrow>
               if q \<le> 0 then excluded_leg H t st
               else taxable_leg H nativePrices gasTargets t q fiat st
           | _ \<Rightarrow> excluded_leg H t st))"

definition flag_unmatched :: "(string, cost_result) jmap \<Rightarrow> string \<Rightarrow> (string, cost_result) jmap" where
  "flag_unmatched rs oid = (case mget rs oid of
     None \<Rightarrow> rs
   | Some r \<Rightarrow> mput oid (r\<lparr>review := pickReview (review r) (Some bridge_move_unmatched)\<rparr>) rs)"

text \<open>The comparator of the chronological sort, as \<open>compare(a, b) <= 0\<close>: a difference that
  is zero or \<open>NaN\<close> falls through to the next key.\<close>

definition event_le :: "host \<Rightarrow> taxable_transaction \<Rightarrow> taxable_transaction \<Rightarrow> bool" where
  "event_le H a b =
     (let d1 = (case (occurredMs H a, occurredMs H b) of (Some x, Some y) \<Rightarrow> x - y | _ \<Rightarrow> 0);
          d2 = logIndexOf (payload a) - logIndexOf (payload b)
      in if d1 \<noteq> 0 then d1 < 0 else if d2 \<noteq> 0 then d2 < 0 else localeCompare H (idOf a) (idOf b) \<le> 0)"

definition initial_state :: "string list \<Rightarrow> fold_state" where
  "initial_state outs = \<lparr>cells = [], results = [], escrow = [], unmatched = outs\<rparr>"

definition ordered_events :: "host \<Rightarrow> taxable_transaction list \<Rightarrow> taxable_transaction list" where
  "ordered_events H events =
     orderBridgeInsAfterOuts (sort_by (event_le H) events) (scan_pairs (scanBridgePairs H events))"

definition run_fold :: "host \<Rightarrow> taxable_transaction list \<Rightarrow> native_prices option \<Rightarrow> fold_state" where
  "run_fold H events nativePrices =
     (let scan = scanBridgePairs H events; ordered = ordered_events H events;
          gasTargets = (case nativePrices of None \<Rightarrow> [] | Some _ \<Rightarrow> planGasAttribution H ordered)
      in foldl (fold_step H (scan_pairs scan) nativePrices gasTargets)
           (initial_state (unmatchedOutIds scan)) ordered)"

definition foldCostBasis :: "host \<Rightarrow> taxable_transaction list \<Rightarrow> native_prices option \<Rightarrow>
    (string, cost_result) jmap \<times> (string, asset_state) jmap" where
  "foldCostBasis H events nativePrices =
     (let st = run_fold H events nativePrices;
          flagged = sadd_all (map snd (mvalues (escrow st))) (unmatched st)
      in (foldl flag_unmatched (results st) flagged, cells st))"

definition computeCostBasis :: "host \<Rightarrow> taxable_transaction list \<Rightarrow> native_prices option \<Rightarrow> (string, cost_result) jmap" where
  "computeCostBasis H events nativePrices = fst (foldCostBasis H events nativePrices)"

record holding_cost_basis =
  assetKey :: string
  h_qty :: string
  h_avgCost :: string
  h_totalCost :: string

definition holdingAssetKey :: "jsv \<Rightarrow> string \<Rightarrow> string option \<Rightarrow> string option \<Rightarrow> string" where
  "holdingAssetKey chainId assetType contract tokenId =
     assetKeyOf [(''chain_id'', chainId), (''asset_type'', VStr assetType),
       (''asset_contract'', case contract of Some c \<Rightarrow> VStr c | None \<Rightarrow> VNull),
       (''token_id'', case tokenId of Some i \<Rightarrow> VStr i | None \<Rightarrow> VStr [])]"

definition computeHoldingsCostBasis :: "host \<Rightarrow> taxable_transaction list \<Rightarrow> native_prices option \<Rightarrow> (string, holding_cost_basis) jmap" where
  "computeHoldingsCostBasis H events nativePrices =
     foldl (\<lambda>hs (key, c). if \<not> 0 < qty c then hs
        else mput key \<lparr>assetKey = key, h_qty = fixed H (qty c), h_avgCost = fixed H (avgCost c),
               h_totalCost = fixed H (rmul H (qty c) (avgCost c))\<rparr> hs)
       [] (snd (foldCostBasis H events nativePrices))"

end
