(* ===== verification/TaxRules.thy ===== *)
theory TaxRules
  imports CostBasis
begin

text \<open>
  The country rules and the calculator of the tax engine: \<open>core/rule-catalog.ts\<close>,
  \<open>core/rules.ts\<close>, \<open>core/calculator.ts\<close> and \<open>frontend/rulesets.ts\<close>. Text that is not
  ASCII (labels and messages in Korean) is given by its UTF-8 bytes.
\<close>

definition ko :: "nat list \<Rightarrow> string" where
  "ko bytes = map char_of bytes"

section \<open>The catalog\<close>

record country_rule =
  r_code :: string
  r_label :: string
  r_currency :: string
  r_costBasis :: string
  r_demoPriority :: "nat option"
  r_aggregateAdjustment :: string
  r_rate :: string

definition rule_row :: "string \<Rightarrow> string \<Rightarrow> string \<Rightarrow> string \<Rightarrow> nat option \<Rightarrow> string \<Rightarrow> string \<Rightarrow> country_rule" where
  "rule_row c l cur cb dp aa r = \<lparr>r_code = c, r_label = l, r_currency = cur, r_costBasis = cb,
     r_demoPriority = dp, r_aggregateAdjustment = aa, r_rate = r\<rparr>"

definition countryRuleCatalog :: "country_rule list" where
  "countryRuleCatalog = [
     rule_row ''DE'' (ko [235, 143, 133, 236, 157, 188]) ''EUR'' (''FIFO'') (Some 1) ''offset'' ''0.26375'',
     rule_row ''US'' (ko [235, 175, 184, 234, 181, 173]) ''USD'' (''FIFO'') (Some 2) ''offset'' ''0.24'',
     rule_row ''IN'' (ko [236, 157, 184, 235, 143, 132]) ''INR'' (''FIFO'') (Some 3) ''ignored'' ''0.312'',
     rule_row ''PT'' (ko [237, 143, 172, 235, 165, 180, 237, 136, 172, 234, 176, 136]) ''EUR'' (''FIFO'') None ''offset'' ''0.28'',
     rule_row ''GB'' (ko [236, 152, 129, 234, 181, 173]) ''GBP'' (''SECTION_104'') None ''offset'' ''0.2'',
     rule_row ''AU'' (ko [237, 152, 184, 236, 163, 188]) ''AUD'' (''FIFO'') None ''discount'' ''0.225'',
     rule_row ''FR'' (ko [237, 148, 132, 235, 158, 145, 236, 138, 164]) ''EUR'' (ko [237, 143, 137, 234, 183, 160, 32, 236, 183, 168, 235, 147, 157, 234, 176, 128]) None ''inclusion'' ''0.3'',
     rule_row ''IT'' (ko [236, 157, 180, 237, 131, 136, 235, 166, 172, 236, 149, 132]) ''EUR'' (''LIFO'') None ''offset'' ''0.26'',
     rule_row ''ES'' (ko [236, 138, 164, 237, 142, 152, 236, 157, 184]) ''EUR'' (''FIFO'') None ''offset'' ''0.21'',
     rule_row ''CA'' (ko [236, 186, 144, 235, 130, 152, 235, 139, 164]) ''CAD'' (ko [236, 157, 180, 235, 143, 153, 237, 143, 137, 234, 183, 160, 235, 178, 149]) None ''inclusion'' ''0.25'',
     rule_row ''JP'' (ko [236, 157, 188, 235, 179, 184]) ''JPY'' (ko [236, 180, 157, 237, 143, 137, 234, 183, 160, 235, 178, 149]) None ''offset'' ''0.2'',
     rule_row ''KR'' (ko [235, 140, 128, 237, 149, 156, 235, 175, 188, 234, 181, 173]) ''KRW'' (ko [236, 157, 180, 235, 143, 153, 237, 143, 137, 234, 183, 160, 235, 178, 149]) None ''none'' ''0'']"

definition aliases :: "(string, string) jmap" where
  "aliases = [(''UK'', ''GB'')]"

definition canonicalCountryCode :: "string \<Rightarrow> string option" where
  "canonicalCountryCode country =
     (let canonical = (case mget aliases country of Some c \<Rightarrow> c | None \<Rightarrow> country)
      in if list_ex (\<lambda>rule. r_code rule = canonical) countryRuleCatalog then Some canonical else None)"

definition getCountryRule :: "string \<Rightarrow> country_rule option" where
  "getCountryRule country = (case canonicalCountryCode country of
     None \<Rightarrow> None
   | Some canonical \<Rightarrow> List.find (\<lambda>rule. r_code rule = canonical) countryRuleCatalog)"

datatype supported_country = KR | DE | US

definition country_code :: "supported_country \<Rightarrow> string" where
  "country_code c = (case c of KR \<Rightarrow> ''KR'' | DE \<Rightarrow> ''DE'' | US \<Rightarrow> ''US'')"

text \<open>\<open>rules[country]\<close>: the version and the catalog's row.\<close>

definition rules :: "supported_country \<Rightarrow> string \<times> country_rule" where
  "rules c = (country_code c @ ''-2026.1'', the (getCountryRule (country_code c)))"

definition isSupportedCountry :: "string \<Rightarrow> supported_country option" where
  "isSupportedCountry country = List.find (\<lambda>c. country_code c = country) [KR, DE, US]"

definition getRule :: "supported_country \<Rightarrow> string \<times> country_rule" where
  "getRule c = rules c"

section \<open>The calculator\<close>

definition ESTIMATE_DISCLAIMER :: string where
  "ESTIMATE_DISCLAIMER = ko [235, 179, 184, 32, 234, 178, 176, 234, 179, 188, 235, 138, 148, 32, 236, 167, 128, 234, 176, 145,
       32, 235, 141, 176, 236, 157, 180, 237, 132, 176, 236, 153, 128, 32, 237, 152, 132, 236, 158, 172,
       32, 235, 163, 176, 236, 133, 139, 236, 151, 144, 32, 234, 184, 176, 235, 176, 152, 237, 149, 156,
       32, 236, 182, 148, 236, 160, 149, 236, 185, 152, 236, 157, 180, 235, 169, 176, 32, 236, 132, 184,
       235, 172, 180, 32, 236, 158, 144, 235, 172, 184, 32, 235, 152, 144, 235, 138, 148, 32, 237, 153,
       149, 236, 160, 149, 32, 236, 139, 160, 234, 179, 160, 32, 234, 184, 136, 236, 149, 161, 236, 157,
       180, 32, 236, 149, 132, 235, 139, 153, 235, 139, 136, 235, 139, 164, 46]"

datatype tax_error = UnsupportedCountry string | InvalidDecimal string | InvalidDate

definition amountOf :: "host \<Rightarrow> jobj \<Rightarrow> decimal option" where
  "amountOf H p =
     (let raw = coalesce (coalesce (pget p ''gainLoss'') (pget p ''fiat_value'')) (pget p ''fiatValue'')
      in if \<not> str_or_num raw then None else decNew H raw)"

record calculated_tax_event =
  transactionId :: string
  ct_countryCode :: supported_country
  ruleVersion :: string
  gainLoss :: string

definition taxEventOf :: "host \<Rightarrow> supported_country \<Rightarrow> string option \<Rightarrow> taxable_transaction \<Rightarrow> calculated_tax_event list" where
  "taxEventOf H country version t = (case amountOf H (payload t) of
     None \<Rightarrow> []
   | Some amount \<Rightarrow>
       (let g = (if pget (payload t) ''direction'' = VStr ''IN'' \<and> pget (payload t) ''gainLoss'' = VUndef
                 then d_neg amount else amount)
        in [\<lparr>transactionId = tx_id t, ct_countryCode = country,
             ruleVersion = (case version of Some v \<Rightarrow> v | None \<Rightarrow> fst (rules country)), gainLoss = decFixed H g\<rparr>]))"

definition calculateTaxEvents :: "host \<Rightarrow> taxable_transaction list \<Rightarrow> string \<Rightarrow> string option \<Rightarrow>
    (tax_error, calculated_tax_event list) result" where
  "calculateTaxEvents H transactions countryCode version = (case isSupportedCountry countryCode of
     None \<Rightarrow> Inl (UnsupportedCountry countryCode)
   | Some country \<Rightarrow> Inr (concat (map (taxEventOf H country version) transactions)))"

text \<open>A decimal literal as an operand; an invalid one throws.\<close>

definition d_read :: "host \<Rightarrow> string \<Rightarrow> (tax_error, decimal) result" where
  "d_read H s = (case decNew H (VStr s) of Some d \<Rightarrow> Inr d | None \<Rightarrow> Inl (InvalidDecimal s))"

fun d_sum :: "host \<Rightarrow> decimal \<Rightarrow> string list \<Rightarrow> (tax_error, decimal) result" where
  "d_sum H acc [] = Inr acc"
| "d_sum H acc (s # ss) = rbind (d_read H s) (\<lambda>d. d_sum H (d_plus H acc d) ss)"

record tax_summary =
  totalGain :: string
  estimatedTax :: string
  disclaimer :: string

definition summarize :: "host \<Rightarrow> calculated_tax_event list \<Rightarrow> (tax_error, tax_summary) result" where
  "summarize H events =
     rbind (d_sum H (DFin 0) (map gainLoss events)) (\<lambda>total.
       let rule = snd (rules (case events of [] \<Rightarrow> KR | e # _ \<Rightarrow> ct_countryCode e))
       in rbind (d_read H (r_rate rule)) (\<lambda>rate.
         Inr \<lparr>totalGain = decFixed H total, estimatedTax = decFixed H (d_mul H (d_max0 total) rate),
              disclaimer = ESTIMATE_DISCLAIMER\<rparr>))"

section \<open>The rule sets the front end lists\<close>

definition topics :: "string list" where
  "topics = [''CAPITAL_GAINS'', ''STAKING'', ''AIRDROP'', ''CRYPTO_TO_CRYPTO'', ''DEFI_LP'', ''WRAPPING'', ''LOSS_OFFSET'']"

definition frontendRates :: "(string, string) jmap" where
  "frontendRates = foldl (\<lambda>m rule. mput (r_code rule) (r_rate rule) m) [] countryRuleCatalog"

definition rule_status :: "string \<Rightarrow> string" where
  "rule_status code = (if code = ''KR'' then ''UNDETERMINED'' else ''PARTIAL'')"

definition demo_basis :: "string \<Rightarrow> string" where
  "demo_basis label = label @ ko [32, 118, 49, 32, 235, 141, 176, 235, 170, 168, 32, 235, 163, 176, 236, 133, 139]"

definition listFrontendRuleSets :: "jobj list" where
  "listFrontendRuleSets = map (\<lambda>rule.
     [(''code'', VStr (r_code rule)), (''label'', VStr (r_label rule)), (''currency'', VStr (r_currency rule)),
      (''cost_basis'', VStr (r_costBasis rule)), (''badge_label'', VStr (r_label rule)),
      (''demoPriority'', case r_demoPriority rule of Some n \<Rightarrow> jint (int n) | None \<Rightarrow> VNull),
      (''aggregateAdjustment'', VStr (r_aggregateAdjustment rule)),
      (''profileFields'', VArr (if r_code rule = ''US'' then [VStr ''filingStatus'', VStr ''otherIncome''] else [])),
      (''status'', VStr (rule_status (r_code rule))),
      (''topics'', VArr (map (\<lambda>topic. VObj [(''topic'', VStr topic), (''status'', VStr (rule_status (r_code rule))),
         (''basis'', VStr (demo_basis (r_label rule)))]) topics)),
      (''method'', VStr (r_costBasis rule))]) countryRuleCatalog"

end
