(* ===== verification/CostBasis_Order.thy ===== *)
theory CostBasis_Order
  imports CostBasis
begin

text \<open>
  What the fold of \<open>cost-basis.ts\<close> is run on: which bridge groups become a movable pair, that
  the reorder pass loses and duplicates nothing and puts every paired acquisition after its
  disposal, that the comparator of the chronological sort is consistent, and which legs carry
  gas.
\<close>

section \<open>The pre-scan\<close>

text \<open>The legs of one group, read off the whole input.\<close>

definition legs_of :: "host \<Rightarrow> string \<Rightarrow> taxable_transaction list \<Rightarrow> bridge_legs" where
  "legs_of H g events = \<lparr>
     outIds = map idOf (filter (\<lambda>t. bridgeGroupOf (payload t) = Some g \<and> directionOf (payload t) = OUT) events),
     inIds = map idOf (filter (\<lambda>t. bridgeGroupOf (payload t) = Some g \<and> directionOf (payload t) = IN) events),
     usable = list_all (\<lambda>t. bridgeGroupOf (payload t) = Some g \<longrightarrow> positive_qty H (payload t)) events\<rparr>"

lemma legs_of_empty:
  "\<forall>t\<in>set events. bridgeGroupOf (payload t) \<noteq> Some g \<Longrightarrow>
   legs_of H g events = \<lparr>outIds = [], inIds = [], usable = True\<rparr>"
  by (auto simp: legs_of_def filter_empty_conv list_all_iff)

lemma scan_legs_get:
  "mget (foldl (scan_leg H) [] events) g =
   (if \<exists>t\<in>set events. bridgeGroupOf (payload t) = Some g then Some (legs_of H g events) else None)"
proof (induction events rule: rev_induct)
  case (snoc t events)
  define m where "m = foldl (scan_leg H) [] events"
  have fold: "foldl (scan_leg H) [] (events @ [t]) = scan_leg H m t" by (simp add: m_def)
  show ?case
  proof (cases "bridgeGroupOf (payload t) = Some g")
    case True
    have m: "(case mget m g of Some l \<Rightarrow> l | None \<Rightarrow> \<lparr>outIds = [], inIds = [], usable = True\<rparr>) = legs_of H g events"
      using snoc.IH legs_of_empty [of events g H] by (auto simp: m_def [symmetric])
    have "mget (scan_leg H m t) g = Some (legs_of H g (events @ [t]))"
      using True m by (cases "directionOf (payload t)")
        (auto simp: scan_leg_def map_of_update Let_def legs_of_def)
    then show ?thesis unfolding fold using True by simp
  next
    case False
    then have "legs_of H g (events @ [t]) = legs_of H g events" by (simp add: legs_of_def)
    moreover have "mget (scan_leg H m t) g = mget m g"
      using False by (auto simp: scan_leg_def map_of_update Let_def split: option.splits)
    ultimately show ?thesis unfolding fold using False snoc.IH by (simp add: m_def)
  qed
qed simp

lemma scan_legs_distinct: "distinct (mkeys (foldl (scan_leg H) [] events))"
  by (rule foldl_invariant [where P = "\<lambda>m. distinct (mkeys m)"])
     (auto simp: scan_leg_def Let_def distinct_update split: option.splits)

lemma scan_group_pairs:
  "distinct (mkeys groups) \<Longrightarrow>
   mget (scan_pairs (foldl scan_group s groups)) g =
   (case mget groups g of
      Some legs \<Rightarrow> if movable legs then Some \<lparr>outId = hd (outIds legs), inId = hd (inIds legs)\<rparr> else mget (scan_pairs s) g
    | None \<Rightarrow> mget (scan_pairs s) g)"
proof (induction groups arbitrary: s)
  case (Cons gl groups)
  obtain h legs where gl: "gl = (h, legs)" by (cases gl)
  have "mget groups h = None" using Cons.prems by (simp add: gl map_of_eq_None_iff)
  with Cons show ?case by (auto simp: gl scan_group_def map_of_update split: option.splits)
qed simp

lemma scan_group_unmatched:
  "set (unmatchedOutIds (foldl scan_group s groups)) =
   set (unmatchedOutIds s) \<union> {i. \<exists>g legs. (g, legs) \<in> set groups \<and> \<not> movable legs \<and> i \<in> set (outIds legs)}"
  by (induction groups arbitrary: s) (auto simp: scan_group_def split: prod.splits)

lemma scan_group_distinct:
  "distinct (mkeys (scan_pairs s)) \<Longrightarrow> distinct (mkeys (scan_pairs (foldl scan_group s groups)))"
  by (rule foldl_invariant [where P = "\<lambda>s. distinct (mkeys (scan_pairs s))"])
     (auto simp: scan_group_def distinct_update split: prod.splits)

lemma scan_pairs_distinct: "distinct (mkeys (scan_pairs (scanBridgePairs H events)))"
  by (simp add: scanBridgePairs_def Let_def scan_group_distinct)

text \<open>A group becomes a pair exactly when the input has one outgoing and one incoming leg for
  it, with two ids, and every leg of the group has a positive quantity.\<close>

lemma scan_pairs_get:
  "mget (scan_pairs (scanBridgePairs H events)) g = Some pr \<longleftrightarrow>
   movable (legs_of H g events) \<and>
   outIds (legs_of H g events) = [outId pr] \<and> inIds (legs_of H g events) = [inId pr]"
proof -
  have "mget (scan_pairs (scanBridgePairs H events)) g = Some pr \<longleftrightarrow>
    (\<exists>t\<in>set events. bridgeGroupOf (payload t) = Some g) \<and> movable (legs_of H g events) \<and>
    pr = \<lparr>outId = hd (outIds (legs_of H g events)), inId = hd (inIds (legs_of H g events))\<rparr>"
    by (auto simp: scanBridgePairs_def Let_def scan_group_pairs scan_legs_distinct scan_legs_get)
  moreover have "movable (legs_of H g events) \<Longrightarrow> \<exists>t\<in>set events. bridgeGroupOf (payload t) = Some g"
  proof (rule ccontr)
    assume mv: "movable (legs_of H g events)" and "\<not> (\<exists>t\<in>set events. bridgeGroupOf (payload t) = Some g)"
    then have "legs_of H g events = \<lparr>outIds = [], inIds = [], usable = True\<rparr>"
      by (intro legs_of_empty) auto
    with mv show False by (simp add: movable_def)
  qed
  ultimately show ?thesis
    by (cases pr) (auto simp: movable_def length_Suc_conv)
qed

text \<open>An outgoing leg of a group is unmatched from the start unless its group is a pair.\<close>

lemma scan_unmatched_iff:
  "i \<in> set (unmatchedOutIds (scanBridgePairs H events)) \<longleftrightarrow>
   (\<exists>t\<in>set events. \<exists>g. bridgeGroupOf (payload t) = Some g \<and> directionOf (payload t) = OUT \<and> idOf t = i \<and>
      mget (scan_pairs (scanBridgePairs H events)) g = None)"
proof -
  have in_groups: "(g, legs) \<in> set (foldl (scan_leg H) [] events) \<longleftrightarrow>
      (\<exists>t\<in>set events. bridgeGroupOf (payload t) = Some g) \<and> legs = legs_of H g events" for g legs
    using scan_legs_distinct [of H events] scan_legs_get [of H events g]
    by (metis map_of_eq_Some_iff option.distinct(1) option.inject)
  have pairs: "mget (scan_pairs (scanBridgePairs H events)) g = None \<longleftrightarrow> \<not> movable (legs_of H g events)" for g
    by (auto simp: movable_def scan_pairs_get length_Suc_conv not_Some_eq [symmetric] simp del: not_Some_eq)
       (metis bridge_pair.select_convs)
  show ?thesis
    unfolding pairs by (auto simp: scanBridgePairs_def Let_def scan_group_unmatched in_groups legs_of_def)
qed

section \<open>Well-formed pairs\<close>

text \<open>What the reorder pass and the fold rely on.\<close>

definition wf_pairs :: "taxable_transaction list \<Rightarrow> (string, bridge_pair) jmap \<Rightarrow> bool" where
  "wf_pairs xs pairs \<longleftrightarrow> distinct (mkeys pairs) \<and>
     (\<forall>(g, pr) \<in> set pairs. \<exists>a\<in>set xs. \<exists>b\<in>set xs. idOf a = outId pr \<and> idOf b = inId pr \<and>
        bridgeGroupOf (payload a) = Some g \<and> bridgeGroupOf (payload b) = Some g \<and>
        directionOf (payload a) = OUT \<and> directionOf (payload b) = IN)"

lemma filter_single: "map f (filter P xs) = [y] \<Longrightarrow> \<exists>x\<in>set xs. P x \<and> f x = y"
  by (induction xs) (auto split: if_splits)

lemma wf_scan: "wf_pairs events (scan_pairs (scanBridgePairs H events))"
proof -
  have "\<exists>a\<in>set events. \<exists>b\<in>set events. idOf a = outId pr \<and> idOf b = inId pr \<and>
        bridgeGroupOf (payload a) = Some g \<and> bridgeGroupOf (payload b) = Some g \<and>
        directionOf (payload a) = OUT \<and> directionOf (payload b) = IN"
    if "(g, pr) \<in> set (scan_pairs (scanBridgePairs H events))" for g pr
  proof -
    have "mget (scan_pairs (scanBridgePairs H events)) g = Some pr"
      using that scan_pairs_distinct by (simp add: map_of_eq_Some_iff)
    then have "outIds (legs_of H g events) = [outId pr]" "inIds (legs_of H g events) = [inId pr]"
      by (simp_all add: scan_pairs_get)
    then show ?thesis
      by (auto simp: legs_of_def dest!: filter_single)
  qed
  then show ?thesis by (auto simp: wf_pairs_def scan_pairs_distinct)
qed

lemma wf_pairs_cong: "set xs = set ys \<Longrightarrow> wf_pairs xs pairs = wf_pairs ys pairs"
  by (simp add: wf_pairs_def)

section \<open>The reorder pass\<close>

lemma positions_get:
  "distinct (map idOf xs) \<Longrightarrow>
   mget (positions xs) k = Some i \<longleftrightarrow> i < length xs \<and> idOf (xs ! i) = k"
proof (induction xs arbitrary: i rule: rev_induct)
  case (snoc x xs)
  have p: "positions (xs @ [x]) = mput (idOf x) (length xs) (positions xs)"
    by (simp add: positions_def enumerate_append_eq)
  show ?case
  proof (cases "k = idOf x")
    case True
    have "idOf (xs ! j) \<noteq> idOf x" if "j < length xs" for j
      using snoc.prems that by (auto simp: image_iff) (metis nth_mem)
    then have "i < Suc (length xs) \<and> idOf ((xs @ [x]) ! i) = idOf x \<longleftrightarrow> i = length xs"
      by (cases "i = length xs") (simp_all add: nth_append)
    then show ?thesis using True by (auto simp: p map_of_update)
  next
    case False
    then show ?thesis
      using snoc by (cases "i = length xs") (simp_all add: p map_of_update nth_append less_Suc_eq)
  qed
qed (simp add: positions_def)

definition inverted :: "taxable_transaction list \<Rightarrow> bridge_pair \<Rightarrow> bool" where
  "inverted xs pr \<longleftrightarrow> (\<exists>a b. mget (positions xs) (outId pr) = Some a \<and> mget (positions xs) (inId pr) = Some b \<and> b < a)"

definition in_event :: "taxable_transaction list \<Rightarrow> bridge_pair \<Rightarrow> taxable_transaction" where
  "in_event xs pr = xs ! the (mget (positions xs) (inId pr))"

definition out_event :: "taxable_transaction list \<Rightarrow> bridge_pair \<Rightarrow> taxable_transaction" where
  "out_event xs pr = xs ! the (mget (positions xs) (outId pr))"

lemma lift_pair_step:
  "lift_pair xs (positions xs) (l, r) pr =
   (if inverted xs pr then (sadd (inId pr) l, mput (outId pr) (in_event xs pr) r) else (l, r))"
  by (auto simp: lift_pair_def inverted_def in_event_def split: option.splits)

lemma lift_all:
  assumes "distinct (map outId prs)"
    and "foldl (lift_pair xs (positions xs)) (l, r) prs = (lifted, re)"
  shows "set lifted = set l \<union> inId ` {pr \<in> set prs. inverted xs pr} \<and>
    (\<forall>k. k \<notin> outId ` set prs \<longrightarrow> mget re k = mget r k) \<and>
    (\<forall>pr\<in>set prs. mget re (outId pr) = (if inverted xs pr then Some (in_event xs pr) else mget r (outId pr)))"
  using assms
proof (induction prs arbitrary: l r)
  case (Cons pr prs)
  obtain l' r' where s: "lift_pair xs (positions xs) (l, r) pr = (l', r')" by fastforce
  have IH: "set lifted = set l' \<union> inId ` {pr \<in> set prs. inverted xs pr} \<and>
    (\<forall>k. k \<notin> outId ` set prs \<longrightarrow> mget re k = mget r' k) \<and>
    (\<forall>pr\<in>set prs. mget re (outId pr) = (if inverted xs pr then Some (in_event xs pr) else mget r' (outId pr)))"
    using Cons s by auto
  have fresh: "outId pr \<notin> outId ` set prs" using Cons.prems(1) by auto
  show ?case
  proof (cases "inverted xs pr")
    case True
    then have "l' = sadd (inId pr) l" "r' = mput (outId pr) (in_event xs pr) r" using s by (simp_all add: lift_pair_step)
    with IH True fresh show ?thesis by (auto simp: map_of_update image_iff)
  next
    case False
    then have "l' = l" "r' = r" using s by (simp_all add: lift_pair_step)
    with IH False fresh show ?thesis by auto
  qed
qed simp

text \<open>The events of a pair, named once.\<close>

locale bridge_order =
  fixes xs :: "taxable_transaction list" and pairs :: "(string, bridge_pair) jmap"
  assumes ids: "distinct (map idOf xs)" and wf: "wf_pairs xs pairs"
begin

lemma pair_events:
  assumes "(g, pr) \<in> set pairs"
  obtains a b where "a \<in> set xs" "b \<in> set xs" "idOf a = outId pr" "idOf b = inId pr"
    "bridgeGroupOf (payload a) = Some g" "bridgeGroupOf (payload b) = Some g"
    "directionOf (payload a) = OUT" "directionOf (payload b) = IN"
  using assms wf unfolding wf_pairs_def by fast

lemma same_event: "a \<in> set xs \<Longrightarrow> b \<in> set xs \<Longrightarrow> idOf a = idOf b \<Longrightarrow> a = b"
  using ids by (rule distinct_map_inj_on)

lemma pair_by_out:
  assumes "(g, pr) \<in> set pairs" "(h, pq) \<in> set pairs" "outId pr = outId pq"
  shows "g = h \<and> pr = pq"
proof -
  obtain a where a: "a \<in> set xs" "idOf a = outId pr" "bridgeGroupOf (payload a) = Some g"
    using assms(1) by (rule pair_events)
  obtain c where c: "c \<in> set xs" "idOf c = outId pq" "bridgeGroupOf (payload c) = Some h"
    using assms(2) by (rule pair_events)
  have "a = c" using a c assms(3) by (intro same_event) auto
  then have "g = h" using a c by simp
  moreover have "distinct (mkeys pairs)" using wf by (simp add: wf_pairs_def)
  ultimately show ?thesis using assms(1,2) by (metis eq_key_imp_eq_value)
qed

lemma pair_by_in:
  assumes "(g, pr) \<in> set pairs" "(h, pq) \<in> set pairs" "inId pr = inId pq"
  shows "g = h \<and> pr = pq"
proof -
  obtain a where a: "a \<in> set xs" "idOf a = inId pr" "bridgeGroupOf (payload a) = Some g"
    using assms(1) by (rule pair_events)
  obtain c where c: "c \<in> set xs" "idOf c = inId pq" "bridgeGroupOf (payload c) = Some h"
    using assms(2) by (rule pair_events)
  have "a = c" using a c assms(3) by (intro same_event) auto
  then have "g = h" using a c by simp
  moreover have "distinct (mkeys pairs)" using wf by (simp add: wf_pairs_def)
  ultimately show ?thesis using assms(1,2) by (metis eq_key_imp_eq_value)
qed

lemma out_not_in:
  assumes "(g, pr) \<in> set pairs" "(h, pq) \<in> set pairs"
  shows "outId pr \<noteq> inId pq"
proof
  assume e: "outId pr = inId pq"
  obtain a where a: "a \<in> set xs" "idOf a = outId pr" "directionOf (payload a) = OUT"
    using assms(1) by (rule pair_events)
  obtain c where c: "c \<in> set xs" "idOf c = inId pq" "directionOf (payload c) = IN"
    using assms(2) by (rule pair_events)
  have "a = c" using a c e by (intro same_event) auto
  then show False using a c by simp
qed

lemma out_not_in_values:
  "pr \<in> set (mvalues pairs) \<Longrightarrow> pq \<in> set (mvalues pairs) \<Longrightarrow> outId pr \<noteq> inId pq"
  using out_not_in by auto

lemma pair_by_in_values:
  "pr \<in> set (mvalues pairs) \<Longrightarrow> pq \<in> set (mvalues pairs) \<Longrightarrow> inId pr = inId pq \<Longrightarrow> pr = pq"
  using pair_by_in by auto

lemma distinct_outs: "distinct (map outId (mvalues pairs))"
proof -
  have "distinct pairs" using wf by (auto simp: wf_pairs_def distinct_map)
  moreover have "inj_on (\<lambda>p. outId (snd p)) (set pairs)"
    using pair_by_out by (auto simp: inj_on_def)
  ultimately have "distinct (map (\<lambda>p. outId (snd p)) pairs)" by (simp add: distinct_map)
  then show ?thesis by (simp add: comp_def)
qed

lemma position_of:
  assumes "b \<in> set xs"
  shows "\<exists>i. mget (positions xs) (idOf b) = Some i \<and> xs ! i = b"
  using assms ids by (auto simp: in_set_conv_nth positions_get)

lemma reorder_form:
  obtains lifted re where
    "orderBridgeInsAfterOuts xs pairs = concat (map (reemit lifted re) xs)"
    "set lifted = inId ` {pr \<in> set (mvalues pairs). inverted xs pr}"
    "\<And>k. k \<notin> outId ` set (mvalues pairs) \<Longrightarrow> mget re k = None"
    "\<And>pr. pr \<in> set (mvalues pairs) \<Longrightarrow> mget re (outId pr) = (if inverted xs pr then Some (in_event xs pr) else None)"
proof -
  obtain lifted re where f: "foldl (lift_pair xs (positions xs)) ([], []) (mvalues pairs) = (lifted, re)"
    by fastforce
  note all = lift_all [OF distinct_outs f]
  have 1: "set lifted = inId ` {pr \<in> set (mvalues pairs). inverted xs pr}" using all by simp
  have 2: "mget re k = None" if "k \<notin> outId ` set (mvalues pairs)" for k using all that by simp
  have 3: "mget re (outId pr) = (if inverted xs pr then Some (in_event xs pr) else None)"
    if "pr \<in> set (mvalues pairs)" for pr using all that by auto
  have same: "concat (map (reemit lifted re) xs) = xs" if e: "lifted = []"
  proof -
    have "mget re k = None" for k
      using 1 2 [of k] 3 e by (cases "k \<in> outId ` set (mvalues pairs)") auto
    then have "reemit lifted re = (\<lambda>t. [t])" using e by (auto simp: reemit_def)
    then show ?thesis by simp
  qed
  have "orderBridgeInsAfterOuts xs pairs = concat (map (reemit lifted re) xs)"
  proof (cases "pairs = []")
    case True
    then have "lifted = []" using f by simp
    with True same show ?thesis by (simp add: orderBridgeInsAfterOuts_def)
  next
    case False
    then show ?thesis using f same by (auto simp: orderBridgeInsAfterOuts_def)
  qed
  from this 1 2 3 show ?thesis by (rule that)
qed

lemma pair_event_facts:
  assumes "pr \<in> set (mvalues pairs)"
  shows "out_event xs pr \<in> set xs" "idOf (out_event xs pr) = outId pr"
    "in_event xs pr \<in> set xs" "idOf (in_event xs pr) = inId pr"
    "directionOf (payload (out_event xs pr)) = OUT" "directionOf (payload (in_event xs pr)) = IN"
proof -
  obtain g where "(g, pr) \<in> set pairs" using assms by auto
  then obtain a b where ab: "a \<in> set xs" "b \<in> set xs" "idOf a = outId pr" "idOf b = inId pr"
    "directionOf (payload a) = OUT" "directionOf (payload b) = IN" by (rule pair_events)
  moreover have "out_event xs pr = a" "in_event xs pr = b"
    using position_of [OF ab(1)] position_of [OF ab(2)] ab(3,4)
    by (auto simp: out_event_def in_event_def)
  ultimately show "out_event xs pr \<in> set xs" "idOf (out_event xs pr) = outId pr"
    "in_event xs pr \<in> set xs" "idOf (in_event xs pr) = inId pr"
    "directionOf (payload (out_event xs pr)) = OUT" "directionOf (payload (in_event xs pr)) = IN"
    by simp_all
qed

lemma inj_in_event: "inj_on (in_event xs) (set (mvalues pairs))"
proof (rule inj_onI)
  fix pr pq assume p: "pr \<in> set (mvalues pairs)" "pq \<in> set (mvalues pairs)" "in_event xs pr = in_event xs pq"
  then have "inId pr = inId pq" using pair_event_facts(4) by metis
  then show "pr = pq" using p pair_by_in by auto
qed

lemma inj_out_event: "inj_on (out_event xs) (set (mvalues pairs))"
proof (rule inj_onI)
  fix pr pq assume p: "pr \<in> set (mvalues pairs)" "pq \<in> set (mvalues pairs)" "out_event xs pr = out_event xs pq"
  then have "outId pr = outId pq" using pair_event_facts(2) by metis
  then show "pr = pq" using p pair_by_out by auto
qed

text \<open>Nothing is lost and nothing is duplicated.\<close>

lemma mset_concat_distinct:
  "distinct ys \<Longrightarrow> mset (concat (map f ys)) = (\<Sum>y\<in>set ys. mset (f y))"
  by (induction ys) auto

lemma sum_pending:
  assumes none: "\<And>k. k \<notin> outId ` set (mvalues pairs) \<Longrightarrow> mget re k = None"
    and some: "\<And>pr. pr \<in> set (mvalues pairs) \<Longrightarrow> mget re (outId pr) = (if inverted xs pr then Some (in_event xs pr) else None)"
  shows "(\<Sum>t\<in>set xs. case mget re (idOf t) of None \<Rightarrow> {#} | Some u \<Rightarrow> {#u#}) =
    (\<Sum>t\<in>in_event xs ` {pr \<in> set (mvalues pairs). inverted xs pr}. {#t#})"
    (is "sum ?pend _ = sum _ (_ ` ?P)")
proof -
  have "sum ?pend (set xs) = sum ?pend (out_event xs ` ?P)"
  proof (rule sum.mono_neutral_right)
    show "\<forall>t\<in>set xs - out_event xs ` ?P. ?pend t = {#}"
    proof
      fix t assume t: "t \<in> set xs - out_event xs ` ?P"
      have "mget re (idOf t) = None"
      proof (cases "idOf t \<in> outId ` set (mvalues pairs)")
        case True
        then obtain pr where pr: "pr \<in> set (mvalues pairs)" "idOf t = outId pr" by auto
        then have "out_event xs pr = t"
          using pair_event_facts [OF pr(1)] t by (intro same_event) auto
        then have "\<not> inverted xs pr" using t pr(1) by blast
        then show ?thesis using some [OF pr(1)] pr(2) by simp
      qed (rule none)
      then show "?pend t = {#}" by simp
    qed
  qed (use pair_event_facts in auto)
  also have "\<dots> = (\<Sum>pr\<in>?P. ?pend (out_event xs pr))"
    by (subst sum.reindex [OF inj_on_subset [OF inj_out_event]]) auto
  also have "\<dots> = (\<Sum>pr\<in>?P. {#in_event xs pr#})"
    using pair_event_facts(2) some by (intro sum.cong) auto
  also have "\<dots> = (\<Sum>t\<in>in_event xs ` ?P. {#t#})"
    by (subst sum.reindex [OF inj_on_subset [OF inj_in_event]]) auto
  finally show ?thesis .
qed

lemma reorder_mset: "mset (orderBridgeInsAfterOuts xs pairs) = mset xs"
proof -
  obtain lifted re where form: "orderBridgeInsAfterOuts xs pairs = concat (map (reemit lifted re) xs)"
    and lifted: "set lifted = inId ` {pr \<in> set (mvalues pairs). inverted xs pr}"
    and none: "\<And>k. k \<notin> outId ` set (mvalues pairs) \<Longrightarrow> mget re k = None"
    and some: "\<And>pr. pr \<in> set (mvalues pairs) \<Longrightarrow> mget re (outId pr) = (if inverted xs pr then Some (in_event xs pr) else None)"
    using reorder_form by blast
  define pend where "pend t = (case mget re (idOf t) of None \<Rightarrow> {#} | Some u \<Rightarrow> {#u#})" for t
  define up where "up t \<longleftrightarrow> idOf t \<in> set lifted" for t
  have d: "distinct xs" using ids by (simp add: distinct_map)
  have no_pend: "pend t = {#}" if u: "up t" for t
  proof -
    obtain pq where pq: "pq \<in> set (mvalues pairs)" "idOf t = inId pq"
      using u unfolding up_def lifted by blast
    then have "idOf t \<notin> outId ` set (mvalues pairs)" using out_not_in_values [OF _ pq(1)] by force
    then show ?thesis by (simp add: pend_def none)
  qed
  have emit: "mset (reemit lifted re t) = (if up t then {#} else {#t#}) + pend t" for t
    using no_pend [of t] by (auto simp: reemit_def up_def pend_def split: option.splits)
  have ups: "in_event xs ` {pr \<in> set (mvalues pairs). inverted xs pr} = {t \<in> set xs. up t}"
  proof (intro subset_antisym subsetI)
    fix t assume "t \<in> in_event xs ` {pr \<in> set (mvalues pairs). inverted xs pr}"
    then obtain pr where "pr \<in> set (mvalues pairs)" "inverted xs pr" "t = in_event xs pr" by blast
    then show "t \<in> {t \<in> set xs. up t}"
      using pair_event_facts(3,4) [of pr] by (simp only: up_def lifted mem_Collect_eq) blast
  next
    fix t assume t: "t \<in> {t \<in> set xs. up t}"
    then obtain pr where pr: "pr \<in> set (mvalues pairs)" "inverted xs pr" "idOf t = inId pr"
      unfolding up_def lifted by blast
    then have "t = in_event xs pr" using pair_event_facts(3,4) [of pr] t by (intro same_event) simp_all
    with pr show "t \<in> in_event xs ` {pr \<in> set (mvalues pairs). inverted xs pr}" by blast
  qed
  have keep: "(\<Sum>t\<in>set xs. if up t then {#} else {#t#}) = (\<Sum>t\<in>{t \<in> set xs. \<not> up t}. {#t#})"
    by (simp add: sum.If_cases Int_def conj_commute)
  have "sum pend (set xs) = (\<Sum>t\<in>{t \<in> set xs. up t}. {#t#})"
    using sum_pending [OF none some] unfolding ups pend_def .
  then have "mset (orderBridgeInsAfterOuts xs pairs) = (\<Sum>t\<in>{t \<in> set xs. \<not> up t}. {#t#}) + (\<Sum>t\<in>{t \<in> set xs. up t}. {#t#})"
    by (simp add: form mset_concat_distinct [OF d] emit sum.distrib keep)
  also have "\<dots> = (\<Sum>t\<in>set xs. {#t#})"
    by (subst sum.union_disjoint [symmetric]) (auto intro: sum.cong)
  also have "\<dots> = mset xs" using mset_concat_distinct [OF d, of "\<lambda>t. [t]"] by simp
  finally show ?thesis .
qed

text \<open>In the result the incoming leg of a pair comes after its outgoing leg.\<close>

lemma reorder_out_before_in:
  assumes pr: "pr \<in> set (mvalues pairs)"
  shows "\<exists>us vs ws. orderBridgeInsAfterOuts xs pairs = us @ out_event xs pr # vs @ in_event xs pr # ws"
proof -
  obtain lifted re where form: "orderBridgeInsAfterOuts xs pairs = concat (map (reemit lifted re) xs)"
    and lifted: "set lifted = inId ` {pr \<in> set (mvalues pairs). inverted xs pr}"
    and "\<And>k. k \<notin> outId ` set (mvalues pairs) \<Longrightarrow> mget re k = None"
    and some: "\<And>pr. pr \<in> set (mvalues pairs) \<Longrightarrow> mget re (outId pr) = (if inverted xs pr then Some (in_event xs pr) else None)"
    using reorder_form by blast
  note f = pair_event_facts [OF pr]
  have out_kept: "idOf (out_event xs pr) \<notin> set lifted"
    unfolding lifted f(2) using pr out_not_in_values by blast
  obtain a b where a: "mget (positions xs) (outId pr) = Some a" "xs ! a = out_event xs pr"
    and b: "mget (positions xs) (inId pr) = Some b" "xs ! b = in_event xs pr"
    using position_of [OF f(1)] position_of [OF f(3)] f by auto
  have ab: "a < length xs" "b < length xs" using a b ids by (simp_all add: positions_get)
  have neq: "a \<noteq> b" using a b f by auto
  show ?thesis
  proof (cases "b < a")
    case True
    then have "inverted xs pr" using a b by (auto simp: inverted_def)
    then have e: "reemit lifted re (out_event xs pr) = [out_event xs pr, in_event xs pr]"
      using out_kept some [OF pr] f(2) by (simp add: reemit_def)
    have "xs = take a xs @ out_event xs pr # drop (Suc a) xs" using id_take_nth_drop [OF ab(1)] a(2) by simp
    then have "map (reemit lifted re) xs = map (reemit lifted re) (take a xs) @ reemit lifted re (out_event xs pr) # map (reemit lifted re) (drop (Suc a) xs)"
      by (metis list.simps(9) map_append)
    then have "orderBridgeInsAfterOuts xs pairs = concat (map (reemit lifted re) (take a xs)) @ out_event xs pr # [] @ in_event xs pr # concat (map (reemit lifted re) (drop (Suc a) xs))"
      by (simp add: form e)
    then show ?thesis by blast
  next
    case False
    then have lt: "a < b" using neq by simp
    have "\<not> inverted xs pr" using a b lt by (auto simp: inverted_def)
    then have in_kept: "idOf (in_event xs pr) \<notin> set lifted"
      unfolding lifted f(4) using pr pair_by_in_values by blast
    obtain oe where oe: "reemit lifted re (out_event xs pr) = out_event xs pr # oe"
      using out_kept by (simp add: reemit_def)
    obtain ie where ie: "reemit lifted re (in_event xs pr) = in_event xs pr # ie"
      using in_kept by (simp add: reemit_def)
    define ys zs where "ys = take (b - Suc a) (drop (Suc a) xs)" and "zs = drop (Suc b) xs"
    have i: "Suc a + (b - Suc a) = b" using lt by simp
    have "b - Suc a < length (drop (Suc a) xs)" using lt ab by simp
    note id_take_nth_drop [OF this]
    moreover have "drop (Suc a) xs ! (b - Suc a) = in_event xs pr" using ab i b(2) by (simp only: nth_drop Suc_leI)
    moreover have "drop (Suc (b - Suc a)) (drop (Suc a) xs) = zs" using lt by (simp add: zs_def)
    ultimately have "drop (Suc a) xs = ys @ in_event xs pr # zs" by (simp only: ys_def)
    moreover have "xs = take a xs @ out_event xs pr # drop (Suc a) xs" using id_take_nth_drop [OF ab(1)] a(2) by simp
    ultimately have "xs = take a xs @ out_event xs pr # ys @ in_event xs pr # zs" by simp
    then have "map (reemit lifted re) xs = map (reemit lifted re) (take a xs) @ reemit lifted re (out_event xs pr) # map (reemit lifted re) ys @ reemit lifted re (in_event xs pr) # map (reemit lifted re) zs"
      by (metis list.simps(9) map_append)
    then have "orderBridgeInsAfterOuts xs pairs = concat (map (reemit lifted re) (take a xs)) @ out_event xs pr # (oe @ concat (map (reemit lifted re) ys)) @ in_event xs pr # ie @ concat (map (reemit lifted re) zs)"
      by (simp add: form oe ie)
    then show ?thesis by blast
  qed
qed

end

text \<open>The pass depends on the pairs as a map, not on the order in which groups were met.\<close>

lemma reorder_cong:
  assumes "bridge_order xs pairs" "bridge_order xs pairs'" "set (mvalues pairs) = set (mvalues pairs')"
  shows "orderBridgeInsAfterOuts xs pairs = orderBridgeInsAfterOuts xs pairs'"
proof -
  obtain l r where a: "orderBridgeInsAfterOuts xs pairs = concat (map (reemit l r) xs)"
    "set l = inId ` {pr \<in> set (mvalues pairs). inverted xs pr}"
    "\<And>k. k \<notin> outId ` set (mvalues pairs) \<Longrightarrow> mget r k = None"
    "\<And>pr. pr \<in> set (mvalues pairs) \<Longrightarrow> mget r (outId pr) = (if inverted xs pr then Some (in_event xs pr) else None)"
    using bridge_order.reorder_form [OF assms(1)] by blast
  obtain l' r' where b: "orderBridgeInsAfterOuts xs pairs' = concat (map (reemit l' r') xs)"
    "set l' = inId ` {pr \<in> set (mvalues pairs'). inverted xs pr}"
    "\<And>k. k \<notin> outId ` set (mvalues pairs') \<Longrightarrow> mget r' k = None"
    "\<And>pr. pr \<in> set (mvalues pairs') \<Longrightarrow> mget r' (outId pr) = (if inverted xs pr then Some (in_event xs pr) else None)"
    using bridge_order.reorder_form [OF assms(2)] by blast
  have "mget r k = mget r' k" for k
  proof (cases "k \<in> outId ` set (mvalues pairs)")
    case True
    then obtain pr where pr: "pr \<in> set (mvalues pairs)" "k = outId pr" by blast
    then have "pr \<in> set (mvalues pairs')" using assms(3) by (simp only:)
    then show ?thesis using a(4) [OF pr(1)] b(4) pr(2) by metis
  next
    case False
    then show ?thesis using a(3) [OF False] b(3) [of k] assms(3) by metis
  qed
  moreover have "set l = set l'" unfolding a(2) b(2) assms(3) ..
  ultimately have "reemit l r = reemit l' r'" by (simp add: reemit_def fun_eq_iff)
  then show ?thesis by (simp add: a(1) b(1))
qed

section \<open>Ledgers\<close>

text \<open>A ledger whose events have ids of their own.\<close>

locale distinct_ledger =
  fixes H :: host and events :: "taxable_transaction list"
  assumes distinct_ids: "distinct (map idOf events)"

sublocale distinct_ledger \<subseteq> bo: bridge_order "sort_by (event_le H) events" "scan_pairs (scanBridgePairs H events)"
proof unfold_locales
  show "distinct (map idOf (sort_by (event_le H) events))"
    by (simp add: distinct_map_sort_by distinct_ids)
  show "wf_pairs (sort_by (event_le H) events) (scan_pairs (scanBridgePairs H events))"
    using wf_scan [of events H] wf_pairs_cong [of events "sort_by (event_le H) events"]
    by (simp add: set_sort_by)
qed

context distinct_ledger begin

lemma ordered_mset: "mset (ordered_events H events) = mset events"
  by (simp add: ordered_events_def bo.reorder_mset mset_sort_by)

lemma ordered_set: "set (ordered_events H events) = set events"
  using ordered_mset by (rule mset_eq_setD)

lemma ordered_ids: "distinct (map idOf (ordered_events H events))"
proof -
  have "mset (map idOf (ordered_events H events)) = mset (map idOf events)"
    by (simp add: ordered_mset)
  then show ?thesis using distinct_ids mset_eq_imp_distinct_iff by metis
qed

end

text \<open>The comparator of the sort is consistent on events whose date is valid.\<close>

sublocale collation_laws \<subseteq> ev: consistent_compare "event_le H" "{t. occurredMs H t \<noteq> None}"
proof unfold_locales
  fix x y z
  assume "x \<in> {t. occurredMs H t \<noteq> None}" "y \<in> {t. occurredMs H t \<noteq> None}"
  then obtain a b where ab: "occurredMs H x = Some a" "occurredMs H y = Some b" by auto
  show "event_le H x y \<or> event_le H y x"
    using collate_sym [of "idOf x" "idOf y"] by (auto simp: event_le_def ab Let_def)
  assume "z \<in> {t. occurredMs H t \<noteq> None}" "event_le H x y" "event_le H y z"
  then obtain c where c: "occurredMs H z = Some c" by auto
  show "event_le H x z"
    using \<open>event_le H x y\<close> \<open>event_le H y z\<close> collate_trans [of "idOf x" "idOf y" "idOf z"]
    by (auto simp: event_le_def ab c Let_def split: if_splits)
qed

text \<open>A ledger whose events are all validly dated and whose ids the collation tells apart.\<close>

locale dated_ledger = distinct_ledger H events + collation_laws H
  for H :: host and events :: "taxable_transaction list" +
  assumes dated: "t \<in> set events \<Longrightarrow> occurredMs H t \<noteq> None"
    and separated: "x \<in> set events \<Longrightarrow> y \<in> set events \<Longrightarrow> localeCompare H (idOf x) (idOf y) = 0 \<Longrightarrow> idOf x = idOf y"

sublocale dated_ledger \<subseteq> so: strict_compare "event_le H" "set events"
proof unfold_locales
  fix x y z
  assume x: "x \<in> set events" and y: "y \<in> set events"
  show "event_le H x y \<or> event_le H y x" using ev.le_total [of x y] dated [OF x] dated [OF y] by simp
  show "event_le H x z" if "z \<in> set events" "event_le H x y" "event_le H y z"
    using ev.le_trans [of x y z] dated x y that by simp
  assume le: "event_le H x y" "event_le H y x"
  obtain a b where ab: "occurredMs H x = Some a" "occurredMs H y = Some b"
    using dated [OF x] dated [OF y] by auto
  have "localeCompare H (idOf x) (idOf y) = 0"
    using le collate_opp [of "idOf x" "idOf y"] collate_opp [of "idOf y" "idOf x"]
    by (auto simp: event_le_def ab Let_def split: if_splits)
  then have "idOf x = idOf y" using separated x y by blast
  then show "x = y" using distinct_ids x y by (auto intro: distinct_map_inj_on)
qed

context dated_ledger begin

lemma sorted_events: "sorted_wrt (event_le H) (sort_by (event_le H) events)"
  by (rule so.sorted_sort_by) simp

lemma sort_perm: "mset events' = mset events \<Longrightarrow> sort_by (event_le H) events' = sort_by (event_le H) events"
  using so.sort_by_perm [of events events'] by simp

end

section \<open>The scan does not depend on the input's order\<close>

lemma length_filter_perm: "mset xs = mset ys \<Longrightarrow> length (filter P xs) = length (filter P ys)"
  by (metis mset_filter size_mset)

lemma singleton_perm: "mset xs = mset ys \<Longrightarrow> map f (filter P xs) = [z] \<Longrightarrow> map f (filter P ys) = [z]"
proof -
  assume "mset xs = mset ys" "map f (filter P xs) = [z]"
  then have "mset (map f (filter P ys)) = {#z#}" by (metis mset.simps mset_filter mset_map)
  then show ?thesis by (metis mset_single_iff)
qed

lemma scan_pairs_perm_imp:
  assumes "mset xs = mset ys" and "mget (scan_pairs (scanBridgePairs H xs)) g = Some pr"
  shows "mget (scan_pairs (scanBridgePairs H ys)) g = Some pr"
proof -
  have "list_all P xs = list_all P ys" for P
    using mset_eq_setD [OF assms(1)] by (simp add: list_all_iff)
  moreover have m: "movable (legs_of H g xs)" "outIds (legs_of H g xs) = [outId pr]" "inIds (legs_of H g xs) = [inId pr]"
    using assms(2) by (simp_all add: scan_pairs_get)
  moreover have "outIds (legs_of H g ys) = [outId pr]" "inIds (legs_of H g ys) = [inId pr]"
    using m singleton_perm [OF assms(1)] by (simp_all add: legs_of_def)
  ultimately show ?thesis by (simp add: scan_pairs_get movable_def) (simp add: legs_of_def)
qed

lemma scan_pairs_perm:
  assumes "mset xs = mset ys"
  shows "mget (scan_pairs (scanBridgePairs H xs)) = mget (scan_pairs (scanBridgePairs H ys))"
proof
  fix g
  show "mget (scan_pairs (scanBridgePairs H xs)) g = mget (scan_pairs (scanBridgePairs H ys)) g"
    using scan_pairs_perm_imp [OF assms, of H g] scan_pairs_perm_imp [OF assms [symmetric], of H g]
    by (metis not_Some_eq)
qed

lemma scan_unmatched_perm:
  assumes "mset xs = mset ys"
  shows "set (unmatchedOutIds (scanBridgePairs H xs)) = set (unmatchedOutIds (scanBridgePairs H ys))"
  using mset_eq_setD [OF assms] scan_pairs_perm [OF assms, of H] by (auto simp: scan_unmatched_iff)

lemma values_of_map:
  "distinct (mkeys m) \<Longrightarrow> set (mvalues m) = {v. \<exists>k. mget m k = Some v}"
  by (auto simp: map_of_eq_Some_iff image_iff) force

context dated_ledger begin

lemma ordered_perm:
  assumes "mset events' = mset events"
  shows "ordered_events H events' = ordered_events H events"
proof -
  have "wf_pairs (sort_by (event_le H) events) (scan_pairs (scanBridgePairs H events'))"
    using wf_scan [of events' H] mset_eq_setD [OF assms]
    by (simp add: wf_pairs_def set_sort_by)
  then have "bridge_order (sort_by (event_le H) events) (scan_pairs (scanBridgePairs H events'))"
    using bo.ids by unfold_locales
  moreover have "set (mvalues (scan_pairs (scanBridgePairs H events'))) = set (mvalues (scan_pairs (scanBridgePairs H events)))"
    using scan_pairs_perm [OF assms, of H] by (simp only: values_of_map scan_pairs_distinct)
  ultimately show ?thesis
    unfolding ordered_events_def sort_perm [OF assms]
    using reorder_cong bo.bridge_order_axioms by blast
qed

end

end
