(* ===== verification/CostBasis_Gas.thy ===== *)
theory CostBasis_Gas
  imports CostBasis_Order
begin

text \<open>
  \<open>planGasAttribution\<close>: the legs that carry gas, characterised over the whole ledger. Inside
  a swap group exactly one taxable leg is a target, the first acquisition if there is one and
  the first disposal otherwise; a taxable leg outside every group is its own target; nothing
  else is.
\<close>

definition gas_leg :: "host \<Rightarrow> string \<Rightarrow> direction \<Rightarrow> taxable_transaction \<Rightarrow> bool" where
  "gas_leg H g d t \<longleftrightarrow> isTaxableLine H (payload t) \<and> swapGroupOf (payload t) = Some g \<and> directionOf (payload t) = d"

definition gas_choice :: "host \<Rightarrow> taxable_transaction list \<Rightarrow> string \<Rightarrow> taxable_transaction option" where
  "gas_choice H xs g = (case List.find (gas_leg H g IN) xs of
     Some t \<Rightarrow> Some t | None \<Rightarrow> List.find (gas_leg H g OUT) xs)"

lemma find_append: "List.find P (xs @ ys) = (case List.find P xs of Some t \<Rightarrow> Some t | None \<Rightarrow> List.find P ys)"
  by (induction xs) auto

lemma find_Some: "List.find P xs = Some t \<Longrightarrow> t \<in> set xs \<and> P t"
  by (induction xs) (auto split: if_splits)

lemma find_None: "List.find P xs = None \<longleftrightarrow> (\<forall>t\<in>set xs. \<not> P t)"
  by (induction xs) auto

definition plan_of :: "host \<Rightarrow> taxable_transaction list \<Rightarrow> gas_plan" where
  "plan_of H xs = foldl (plan_leg H) \<lparr>targets = [], firstIn = [], firstOut = []\<rparr> xs"

lemma plan_of_snoc: "plan_of H (xs @ [t]) = plan_leg H (plan_of H xs) t"
  by (simp add: plan_of_def)

lemma plan_first:
  "mget (firstIn (plan_of H xs)) g = map_option idOf (List.find (gas_leg H g IN) xs) \<and>
   mget (firstOut (plan_of H xs)) g = map_option idOf (List.find (gas_leg H g OUT) xs)"
proof (induction xs rule: rev_induct)
  case (snoc t xs)
  show ?case
  proof (cases "isTaxableLine H (payload t) \<and> swapGroupOf (payload t) = Some g")
    case True
    then show ?thesis
      using snoc by (cases "directionOf (payload t)")
        (auto simp: plan_of_snoc plan_leg_def find_append gas_leg_def map_of_update split: option.splits)
  next
    case False
    then have "\<not> gas_leg H g d t" for d by (auto simp: gas_leg_def)
    moreover have "mget (firstIn (plan_leg H p t)) g = mget (firstIn p) g" "mget (firstOut (plan_leg H p t)) g = mget (firstOut p) g" for p
      using False by (auto simp: plan_leg_def map_of_update split: option.splits direction.splits)
    ultimately show ?thesis using snoc by (simp add: plan_of_snoc find_append split: option.splits)
  qed
qed (simp add: plan_of_def)

lemma plan_targets:
  "set (targets (plan_of H xs)) = idOf ` {t \<in> set xs. isTaxableLine H (payload t) \<and> swapGroupOf (payload t) = None}"
proof (induction xs rule: rev_induct)
  case (snoc t xs)
  have "set (targets (plan_leg H p t)) = set (targets p) \<union>
      (if isTaxableLine H (payload t) \<and> swapGroupOf (payload t) = None then {idOf t} else {})" for p
    by (auto simp: plan_leg_def split: option.splits direction.splits)
  with snoc show ?case by (auto simp: plan_of_snoc)
qed (simp add: plan_of_def)

lemma plan_distinct: "distinct (mkeys (firstIn (plan_of H xs))) \<and> distinct (mkeys (firstOut (plan_of H xs)))"
  unfolding plan_of_def
  by (rule foldl_invariant) (auto simp: plan_leg_def distinct_update split: option.splits direction.splits)

lemma gas_choice_Some:
  "gas_choice H xs g = Some t \<longleftrightarrow> List.find (gas_leg H g IN) xs = Some t \<or>
     List.find (gas_leg H g IN) xs = None \<and> List.find (gas_leg H g OUT) xs = Some t"
  by (auto simp: gas_choice_def split: option.splits)

lemma plan_gas_set:
  "set (planGasAttribution H xs) =
   idOf ` {t \<in> set xs. isTaxableLine H (payload t) \<and> swapGroupOf (payload t) = None} \<union>
   {i. \<exists>g t. gas_choice H xs g = Some t \<and> i = idOf t}"
proof -
  have i: "set (mvalues (firstIn (plan_of H xs))) = {i. \<exists>g t. List.find (gas_leg H g IN) xs = Some t \<and> i = idOf t}"
  proof -
    have "set (mvalues (firstIn (plan_of H xs))) = {v. \<exists>k. mget (firstIn (plan_of H xs)) k = Some v}"
      using plan_distinct by (intro values_of_map) simp
    also have "\<dots> = {i. \<exists>g t. List.find (gas_leg H g IN) xs = Some t \<and> i = idOf t}"
      by (auto simp: plan_first)
    finally show ?thesis .
  qed
  have "set (map snd (filter (\<lambda>(g, _). \<not> mhas (firstIn (plan_of H xs)) g) (firstOut (plan_of H xs)))) =
      {i. \<exists>g. (g, i) \<in> set (firstOut (plan_of H xs)) \<and> mget (firstIn (plan_of H xs)) g = None}"
    by force
  also have "\<dots> = {i. \<exists>g t. List.find (gas_leg H g OUT) xs = Some t \<and> i = idOf t \<and> List.find (gas_leg H g IN) xs = None}"
    using plan_distinct [of H xs] by (auto simp: map_of_eq_Some_iff [symmetric] plan_first)
  finally have o: "set (map snd (filter (\<lambda>(g, _). \<not> mhas (firstIn (plan_of H xs)) g) (firstOut (plan_of H xs)))) =
      {i. \<exists>g t. List.find (gas_leg H g OUT) xs = Some t \<and> i = idOf t \<and> List.find (gas_leg H g IN) xs = None}" .
  have "set (planGasAttribution H xs) =
      set (map snd (filter (\<lambda>(g, _). \<not> mhas (firstIn (plan_of H xs)) g) (firstOut (plan_of H xs)))) \<union>
      (set (mvalues (firstIn (plan_of H xs))) \<union> set (targets (plan_of H xs)))"
    by (simp add: planGasAttribution_def plan_of_def [symmetric] Let_def)
  then show ?thesis
    unfolding i o plan_targets gas_choice_Some by blast
qed

lemma gas_choice_leg:
  "gas_choice H xs g = Some t \<Longrightarrow> t \<in> set xs \<and> isTaxableLine H (payload t) \<and> swapGroupOf (payload t) = Some g"
  by (auto simp: gas_choice_def gas_leg_def dest!: find_Some split: option.splits)

lemma gas_choice_exists:
  "t \<in> set xs \<Longrightarrow> isTaxableLine H (payload t) \<Longrightarrow> swapGroupOf (payload t) = Some g \<Longrightarrow> gas_choice H xs g \<noteq> None"
proof -
  assume t: "t \<in> set xs" "isTaxableLine H (payload t)" "swapGroupOf (payload t) = Some g"
  then have "gas_leg H g (directionOf (payload t)) t" by (simp add: gas_leg_def)
  then have "List.find (gas_leg H g (directionOf (payload t))) xs \<noteq> None" using t(1) by (auto simp: find_None)
  then show ?thesis by (cases "directionOf (payload t)") (auto simp: gas_choice_def split: option.splits)
qed

text \<open>Only a taxable line carries gas.\<close>

lemma gas_target_taxable:
  assumes "i \<in> set (planGasAttribution H xs)"
  shows "\<exists>t\<in>set xs. idOf t = i \<and> isTaxableLine H (payload t)"
  using assms by (auto simp: plan_gas_set dest!: gas_choice_leg)

text \<open>In a ledger with distinct ids, a taxable leg of a swap group is a target exactly when it
  is the group's chosen leg.\<close>

lemma gas_target_in_group:
  assumes ids: "distinct (map idOf xs)" and t: "t \<in> set xs" and g: "swapGroupOf (payload t) = Some g"
  shows "idOf t \<in> set (planGasAttribution H xs) \<longleftrightarrow> gas_choice H xs g = Some t"
proof
  assume "idOf t \<in> set (planGasAttribution H xs)"
  then consider u where "u \<in> set xs" "idOf u = idOf t" "swapGroupOf (payload u) = None"
    | h u where "gas_choice H xs h = Some u" "idOf u = idOf t"
    by (auto simp: plan_gas_set)
  then show "gas_choice H xs g = Some t"
  proof cases
    case 1
    then have "u = t" using ids t by (auto intro: distinct_map_inj_on)
    then show ?thesis using 1 g by simp
  next
    case 2
    then have "u = t" using ids t gas_choice_leg [OF 2(1)] by (auto intro: distinct_map_inj_on)
    then show ?thesis using 2 gas_choice_leg [OF 2(1)] g by simp
  qed
next
  assume "gas_choice H xs g = Some t"
  then show "idOf t \<in> set (planGasAttribution H xs)" by (auto simp: plan_gas_set)
qed

end
