(* ===== verification/CostBasis_Fold.thy ===== *)
theory CostBasis_Fold
  imports CostBasis_Gas
begin

text \<open>
  Invariants of the fold of \<open>cost-basis.ts\<close>: which events get a result, the shape of each
  kind of result, non-negative holdings, the life of an escrow entry, and the accounting of
  cost. Each is a fact of one step, lifted over the run; \<open>leg_kind\<close> names the branch a step
  takes and \<open>fold_step_kind\<close> is the case split all of them use.
\<close>

datatype leg_kind = BridgeLeg string bridge_pair | ExcludedLeg | TaxableLeg rat rat

definition kind_of :: "host \<Rightarrow> (string, bridge_pair) jmap \<Rightarrow> taxable_transaction \<Rightarrow> leg_kind" where
  "kind_of H pairs t =
     (case (case bridgeGroupOf (payload t) of None \<Rightarrow> None | Some g \<Rightarrow> map_option (\<lambda>pr. (g, pr)) (mget pairs g)) of
        Some (g, pr) \<Rightarrow> BridgeLeg g pr
      | None \<Rightarrow>
          (case (exclusionReason H (payload t), quantityOf H (payload t), fiatOf H (payload t)) of
             (None, Some q, Some fiat) \<Rightarrow> if q \<le> 0 then ExcludedLeg else TaxableLeg q fiat
           | _ \<Rightarrow> ExcludedLeg))"

lemma fold_step_kind:
  "fold_step H pairs prices tg st t =
   (case kind_of H pairs t of
      BridgeLeg g pr \<Rightarrow> bridge_leg H g pr t st
    | ExcludedLeg \<Rightarrow> excluded_leg H t st
    | TaxableLeg q fiat \<Rightarrow> taxable_leg H prices tg t q fiat st)"
  by (auto simp: fold_step_def kind_of_def split: option.splits)

lemma kind_taxable_pos: "kind_of H pairs t = TaxableLeg q fiat \<Longrightarrow> 0 < q"
  by (auto simp: kind_of_def split: option.splits if_splits)

lemma kind_bridge: "kind_of H pairs t = BridgeLeg g pr \<longleftrightarrow> bridgeGroupOf (payload t) = Some g \<and> mget pairs g = Some pr"
  by (auto simp: kind_of_def split: option.splits if_splits)

lemmas leg_defs = bridge_leg_def bridge_out_leg_def bridge_in_leg_def excluded_leg_def taxable_leg_def
  acquisition_leg_def disposal_leg_def set_result_def set_cell_def Let_def

text \<open>Every leg of a pair has a usable quantity, so the assertion in the bridge branch holds.\<close>

definition pairs_usable :: "host \<Rightarrow> (string, bridge_pair) jmap \<Rightarrow> taxable_transaction \<Rightarrow> bool" where
  "pairs_usable H pairs t \<longleftrightarrow> (\<forall>g. bridgeGroupOf (payload t) = Some g \<longrightarrow> mget pairs g \<noteq> None \<longrightarrow> positive_qty H (payload t))"

lemma scan_pairs_usable:
  assumes "t \<in> set events"
  shows "pairs_usable H (scan_pairs (scanBridgePairs H events)) t"
  using assms by (auto simp: pairs_usable_def scan_pairs_get movable_def legs_of_def list_all_iff)

lemma bridge_quantity:
  assumes "pairs_usable H pairs t" and "kind_of H pairs t = BridgeLeg g pr"
  obtains q where "quantityOf H (payload t) = Some q" "0 < q"
  using assms by (auto simp: pairs_usable_def kind_bridge positive_qty_def split: option.splits)

section \<open>Results\<close>

text \<open>The shape of a result, by kind of line.\<close>

definition result_ok :: "host \<Rightarrow> cost_result \<Rightarrow> bool" where
  "result_ok H r \<longleftrightarrow>
     (if excluded r then proceeds r = None \<and> realizedPnl r = None \<and> pnlRatio r = None \<and> gasFiat r = None \<and> excludeReason r \<noteq> None
      else excludeReason r = None \<and> bridgeMove r = None \<and>
        (case res_direction r of
           IN \<Rightarrow> proceeds r = None \<and> realizedPnl r = None \<and> pnlRatio r = None
         | OUT \<Rightarrow> (\<exists>net cost. proceeds r = Some (fixed H net) \<and> costBasis r = fixed H cost \<and>
             realizedPnl r = Some (fixed H (rminus H net cost)) \<and>
             pnlRatio r = (if 0 < cost then Some (fixed H (rdiv H (rminus H net cost) cost)) else None))))"

lemma result_ok_review [simp]: "result_ok H (r\<lparr>review := v\<rparr>) = result_ok H r"
  by (simp add: result_ok_def split: direction.split)

lemma disposal_result_ok:
  "result_ok H ((base_result i OUT)\<lparr>gasFiat := gf, costBasis := fixed H cost, proceeds := Some (fixed H net),
     realizedPnl := Some (fixed H (rminus H net cost)),
     pnlRatio := map_option (fixed H) (if 0 < cost then Some (rdiv H (rminus H net cost) cost) else None)\<rparr>)"
  by (auto simp: result_ok_def base_result_def)

text \<open>A step writes exactly one result, the event's own.\<close>

definition wrote :: "host \<Rightarrow> taxable_transaction \<Rightarrow> fold_state \<Rightarrow> fold_state \<Rightarrow> bool" where
  "wrote H t st st' \<longleftrightarrow> (\<exists>r. results st' = mput (idOf t) r (results st) \<and> eventId r = idOf t \<and>
     res_direction r = directionOf (payload t) \<and> result_ok H r)"

lemma wrote_set_result:
  "results st' = results st \<Longrightarrow> eventId r = idOf t \<Longrightarrow> res_direction r = directionOf (payload t) \<Longrightarrow>
   result_ok H r \<Longrightarrow> wrote H t st (set_result (idOf t) r st')"
  by (auto simp: wrote_def set_result_def)

lemma moved_result_simps [simp]:
  "eventId (moved_result i d) = i" "res_direction (moved_result i d) = d" "result_ok H (moved_result i d)"
  "result_ok H ((moved_result i d)\<lparr>bridgeMove := m\<rparr>)" "result_ok H ((moved_result i d)\<lparr>bridgeMove := m, costBasis := c\<rparr>)"
  by (simp_all add: moved_result_def base_result_def result_ok_def)

lemma base_result_simps [simp]:
  "eventId (base_result i d) = i" "res_direction (base_result i d) = d"
  "result_ok H ((base_result i d)\<lparr>excluded := True, excludeReason := Some e\<rparr>)"
  "result_ok H ((base_result i IN)\<lparr>gasFiat := gf, costBasis := c\<rparr>)"
  by (simp_all add: base_result_def result_ok_def)

lemma step_wrote:
  assumes "pairs_usable H pairs t"
  shows "wrote H t st (fold_step H pairs prices tg st t)"
proof (cases "kind_of H pairs t")
  case (BridgeLeg g pr)
  with assms obtain q where "quantityOf H (payload t) = Some q" by (rule bridge_quantity)
  then show ?thesis
    by (auto simp: fold_step_kind BridgeLeg bridge_leg_def bridge_out_leg_def bridge_in_leg_def set_cell_def Let_def
        split: direction.split option.split intro!: wrote_set_result)
next
  case ExcludedLeg
  show ?thesis by (auto simp: fold_step_kind ExcludedLeg excluded_leg_def Let_def intro!: wrote_set_result)
next
  case (TaxableLeg q fiat)
  show ?thesis
    by (cases "directionOf (payload t)"; simp only: fold_step_kind TaxableLeg leg_kind.case taxable_leg_def
        acquisition_leg_def disposal_leg_def Let_def direction.case)
       (rule wrote_set_result; simp add: set_cell_def disposal_result_ok split del: if_split)+
qed

lemma step_result_keys:
  assumes "pairs_usable H pairs t"
  shows "fst ` set (results (fold_step H pairs prices tg st t)) = insert (idOf t) (fst ` set (results st))"
  using step_wrote [OF assms, of st prices tg] unfolding wrote_def by (metis fst_set_update)

lemma run_result_keys:
  assumes "\<forall>t\<in>set xs. pairs_usable H pairs t"
  shows "fst ` set (results (foldl (fold_step H pairs prices tg) st xs)) = idOf ` set xs \<union> fst ` set (results st)"
  using assms by (induction xs arbitrary: st) (auto simp: step_result_keys)

definition results_ok :: "host \<Rightarrow> fold_state \<Rightarrow> bool" where
  "results_ok H st \<longleftrightarrow> (\<forall>k r. mget (results st) k = Some r \<longrightarrow> eventId r = k \<and> result_ok H r)"

lemma step_results_ok:
  assumes "pairs_usable H pairs t" "results_ok H st"
  shows "results_ok H (fold_step H pairs prices tg st t)"
  using step_wrote [OF assms(1), of st prices tg] assms(2) by (auto simp: wrote_def results_ok_def map_of_update split: if_splits)

lemma flag_get:
  "mget (flag_unmatched rs i) k =
   (if k = i then map_option (\<lambda>r. r\<lparr>review := pickReview (review r) (Some bridge_move_unmatched)\<rparr>) (mget rs k) else mget rs k)"
  by (auto simp: flag_unmatched_def map_of_update split: option.splits)

lemma flag_all_get:
  "distinct ids \<Longrightarrow> mget (foldl flag_unmatched rs ids) k =
   (if k \<in> set ids then map_option (\<lambda>r. r\<lparr>review := pickReview (review r) (Some bridge_move_unmatched)\<rparr>) (mget rs k) else mget rs k)"
  by (induction ids arbitrary: rs) (auto simp: flag_get)

lemma flag_all_dom: "(mget (foldl flag_unmatched rs ids) k \<noteq> None) = (mget rs k \<noteq> None)"
  by (induction ids arbitrary: rs) (auto simp: flag_get)

text \<open>Properties of a result that flagging for review does not touch pass through to the
  engine's answer.\<close>

lemma step_unmatched_distinct:
  "distinct (unmatched st) \<Longrightarrow> distinct (unmatched (fold_step H pairs prices tg st t))"
  by (auto simp: fold_step_kind leg_defs split: leg_kind.splits option.splits direction.splits)

lemma run_unmatched_distinct: "distinct (unmatched (run_fold H events prices))"
proof -
  have "distinct (unmatchedOutIds (foldl scan_group s gs))" if "distinct (unmatchedOutIds s)" for s gs
    using that by (induction gs arbitrary: s) (auto simp: scan_group_def split: prod.splits)
  then show ?thesis
    unfolding run_fold_def Let_def
    by (intro foldl_invariant [where P = "\<lambda>st. distinct (unmatched st)"])
       (auto simp: initial_state_def scanBridgePairs_def Let_def intro: step_unmatched_distinct)
qed

lemma compute_get:
  "mget (computeCostBasis H events prices) k =
   (let st = run_fold H events prices in
    if k \<in> set (map snd (mvalues (escrow st))) \<union> set (unmatched st)
    then map_option (\<lambda>r. r\<lparr>review := pickReview (review r) (Some bridge_move_unmatched)\<rparr>) (mget (results st) k)
    else mget (results st) k)"
  using run_unmatched_distinct [of H events prices]
  by (simp add: computeCostBasis_def foldCostBasis_def Let_def flag_all_get del: set_map)

section \<open>Frames\<close>

text \<open>What a step leaves alone.\<close>

lemma step_results_frame:
  "k \<noteq> idOf t \<Longrightarrow> mget (results (fold_step H pairs prices tg st t)) k = mget (results st) k"
  by (auto simp: fold_step_kind leg_defs map_of_update split: leg_kind.split option.split direction.split)

lemma run_results_frame:
  "k \<notin> idOf ` set xs \<Longrightarrow> mget (results (foldl (fold_step H pairs prices tg) st xs)) k = mget (results st) k"
  by (induction xs arbitrary: st) (auto simp: step_results_frame)

definition leg_of :: "(string, bridge_pair) jmap \<Rightarrow> string \<Rightarrow> taxable_transaction \<Rightarrow> bool" where
  "leg_of pairs g t \<longleftrightarrow> bridgeGroupOf (payload t) = Some g \<and> mget pairs g \<noteq> None"

lemma step_escrow_frame:
  assumes "\<not> leg_of pairs g t"
  shows "mget (escrow (fold_step H pairs prices tg st t)) g = mget (escrow st) g"
proof (cases "kind_of H pairs t")
  case (BridgeLeg h pr)
  then have "h \<noteq> g" using assms by (auto simp: kind_bridge leg_of_def)
  then show ?thesis
    by (auto simp: fold_step_kind BridgeLeg leg_defs map_of_update map_of_delete_if split: option.split direction.split)
qed (auto simp: fold_step_kind leg_defs split: option.split direction.split)

lemma run_escrow_frame:
  "\<forall>t\<in>set xs. \<not> leg_of pairs g t \<Longrightarrow>
   mget (escrow (foldl (fold_step H pairs prices tg) st xs)) g = mget (escrow st) g"
  by (induction xs arbitrary: st) (auto simp: step_escrow_frame)

text \<open>Where an id joins the set of unmatched sources.\<close>

lemma step_unmatched_source:
  assumes "i \<in> set (unmatched (fold_step H pairs prices tg st t))"
  shows "i \<in> set (unmatched st) \<or>
    (\<exists>g pr. kind_of H pairs t = BridgeLeg g pr \<and>
      (directionOf (payload t) = OUT \<and> i = idOf t \<and> mget (escrow (fold_step H pairs prices tg st t)) g = mget (escrow st) g \<or>
       directionOf (payload t) = IN \<and> i = outId pr \<and> mget (escrow st) g = None))"
  using assms
  by (auto simp: fold_step_kind leg_defs split: leg_kind.splits option.splits direction.splits if_splits)

lemma run_unmatched_source:
  assumes "i \<in> set (unmatched (foldl (fold_step H pairs prices tg) st xs))" "i \<notin> set (unmatched st)"
  shows "\<exists>t\<in>set xs. \<exists>g pr. kind_of H pairs t = BridgeLeg g pr \<and>
    (directionOf (payload t) = OUT \<and> i = idOf t \<or> directionOf (payload t) = IN \<and> i = outId pr)"
  using assms
proof (induction xs arbitrary: st)
  case (Cons t xs)
  show ?case
  proof (cases "i \<in> set (unmatched (fold_step H pairs prices tg st t))")
    case True
    then show ?thesis using step_unmatched_source Cons.prems(2) by fastforce
  next
    case False
    then show ?thesis using Cons by fastforce
  qed
qed simp

section \<open>The two legs of a bridge\<close>

lemma out_step:
  assumes "kind_of H pairs t = BridgeLeg g pr" "directionOf (payload t) = OUT" "quantityOf H (payload t) = Some q"
    and "c = cell_at (cells st) (assetKeyOf (payload t))"
  shows "mget (escrow (fold_step H pairs prices tg st t)) g =
      (if q \<le> qty c then Some (rmul H q (avgCost c), idOf t) else mget (escrow st) g)"
    "mget (results (fold_step H pairs prices tg st t)) (idOf t) =
      Some (if q \<le> qty c then (moved_result (idOf t) OUT)\<lparr>bridgeMove := Some OUT\<rparr>
            else (moved_result (idOf t) OUT)\<lparr>review := Some disposal_exceeds_holdings\<rparr>)"
    "unmatched (fold_step H pairs prices tg st t) =
      (if q \<le> qty c then unmatched st else sadd (idOf t) (unmatched st))"
  using assms by (auto simp: fold_step_kind leg_defs map_of_update min_def)

lemma in_step:
  assumes "kind_of H pairs t = BridgeLeg g pr" "directionOf (payload t) = IN" "quantityOf H (payload t) = Some q"
  shows "mget (escrow (fold_step H pairs prices tg st t)) g = None"
    "mget (results (fold_step H pairs prices tg st t)) (idOf t) =
      Some (case mget (escrow st) g of
              Some (cost, _) \<Rightarrow> (moved_result (idOf t) IN)\<lparr>bridgeMove := Some IN, costBasis := fixed H cost\<rparr>
            | None \<Rightarrow> moved_result (idOf t) IN)"
    "unmatched (fold_step H pairs prices tg st t) =
      (if mget (escrow st) g = None then sadd (outId pr) (unmatched st) else unmatched st)"
  using assms by (auto simp: fold_step_kind leg_defs map_of_update map_of_delete_if split: option.split)

text \<open>A run over a ledger in which every pair is split around its two legs: what the fold
  needs of the order, and what the reorder pass provides.\<close>

definition pair_split :: "(string, bridge_pair) jmap \<Rightarrow> taxable_transaction list \<Rightarrow> string \<Rightarrow> bridge_pair \<Rightarrow>
    taxable_transaction list \<Rightarrow> taxable_transaction \<Rightarrow> taxable_transaction list \<Rightarrow> taxable_transaction \<Rightarrow>
    taxable_transaction list \<Rightarrow> bool" where
  "pair_split pairs xs g pr us out vs inn ws \<longleftrightarrow> xs = us @ out # vs @ inn # ws \<and>
     idOf out = outId pr \<and> idOf inn = inId pr \<and> bridgeGroupOf (payload out) = Some g \<and> bridgeGroupOf (payload inn) = Some g \<and>
     directionOf (payload out) = OUT \<and> directionOf (payload inn) = IN \<and>
     (\<forall>t\<in>set us \<union> set vs \<union> set ws. \<not> leg_of pairs g t)"

locale paired_run =
  fixes H :: host and pairs :: "(string, bridge_pair) jmap" and xs :: "taxable_transaction list"
  assumes run_ids: "distinct (map idOf xs)"
    and usable: "t \<in> set xs \<Longrightarrow> pairs_usable H pairs t"
    and split: "mget pairs g = Some pr \<Longrightarrow> \<exists>us out vs inn ws. pair_split pairs xs g pr us out vs inn ws"
begin

lemma pair_run:
  assumes pr: "mget pairs g = Some pr" and sp: "pair_split pairs xs g pr us out vs inn ws"
    and st: "mget (escrow st) g = None"
    and st0: "st0 = foldl (fold_step H pairs prices tg) st us"
    and fin: "fin = foldl (fold_step H pairs prices tg) st xs"
    and q: "quantityOf H (payload out) = Some q" and c: "c = cell_at (cells st0) (assetKeyOf (payload out))"
  shows "mget (escrow fin) g = None"
    "mget (results fin) (outId pr) =
      Some (if q \<le> qty c then (moved_result (outId pr) OUT)\<lparr>bridgeMove := Some OUT\<rparr>
            else (moved_result (outId pr) OUT)\<lparr>review := Some disposal_exceeds_holdings\<rparr>)"
    "mget (results fin) (inId pr) =
      Some (if q \<le> qty c
            then (moved_result (inId pr) IN)\<lparr>bridgeMove := Some IN, costBasis := fixed H (rmul H q (avgCost c))\<rparr>
            else moved_result (inId pr) IN)"
proof -
  let ?run = "foldl (fold_step H pairs prices tg)"
  note sp' = sp [unfolded pair_split_def]
  define st1 where "st1 = fold_step H pairs prices tg st0 out"
  define st2 where "st2 = ?run st1 vs"
  define st3 where "st3 = fold_step H pairs prices tg st2 inn"
  have fin': "fin = ?run st3 ws" using sp' by (simp add: fin st0 st1_def st2_def st3_def)
  have kout: "kind_of H pairs out = BridgeLeg g pr" and kin: "kind_of H pairs inn = BridgeLeg g pr"
    using sp' pr by (auto simp: kind_bridge)
  obtain qi where qi: "quantityOf H (payload inn) = Some qi"
    using usable [of inn] sp' kin by (auto elim: bridge_quantity)
  have e0: "mget (escrow st0) g = None" using sp' st by (simp add: st0 run_escrow_frame)
  have e2: "mget (escrow st2) g = mget (escrow st1) g" using sp' by (simp add: st2_def run_escrow_frame)
  note out = out_step [OF kout _ q c, of prices tg, folded st1_def]
  note inn = in_step [OF kin _ qi, of prices tg st2, folded st3_def]
  show "mget (escrow fin) g = None" using inn(1) sp' by (simp add: fin' run_escrow_frame)
  have ids: "outId pr \<notin> idOf ` set vs" "outId pr \<notin> idOf ` set ws" "inId pr \<notin> idOf ` set ws" "outId pr \<noteq> inId pr"
    using run_ids sp' by (auto simp: image_iff)
  show "mget (results fin) (outId pr) =
      Some (if q \<le> qty c then (moved_result (outId pr) OUT)\<lparr>bridgeMove := Some OUT\<rparr>
            else (moved_result (outId pr) OUT)\<lparr>review := Some disposal_exceeds_holdings\<rparr>)"
    using out(2) sp' ids by (simp add: fin' run_results_frame st3_def step_results_frame st2_def)
  show "mget (results fin) (inId pr) =
      Some (if q \<le> qty c
            then (moved_result (inId pr) IN)\<lparr>bridgeMove := Some IN, costBasis := fixed H (rmul H q (avgCost c))\<rparr>
            else moved_result (inId pr) IN)"
    using inn(2) out(1) sp' ids e0 e2 by (auto simp: fin' run_results_frame)
qed

lemma unmatched_moved:
  assumes pr: "mget pairs g = Some pr" and sp: "pair_split pairs xs g pr us out vs inn ws"
    and st: "mget (escrow st) g = None" "outId pr \<notin> set (unmatched st)"
    and st0: "st0 = foldl (fold_step H pairs prices tg) st us"
    and q: "quantityOf H (payload out) = Some q" and held: "q \<le> qty (cell_at (cells st0) (assetKeyOf (payload out)))"
  shows "outId pr \<notin> set (unmatched (foldl (fold_step H pairs prices tg) st xs))"
proof -
  let ?run = "foldl (fold_step H pairs prices tg)"
  note sp' = sp [unfolded pair_split_def]
  define st1 where "st1 = fold_step H pairs prices tg st0 out"
  define st2 where "st2 = ?run st1 vs"
  define st3 where "st3 = fold_step H pairs prices tg st2 inn"
  have kout: "kind_of H pairs out = BridgeLeg g pr" and kin: "kind_of H pairs inn = BridgeLeg g pr"
    using sp' pr by (auto simp: kind_bridge)
  obtain qi where qi: "quantityOf H (payload inn) = Some qi"
    using usable [of inn] sp' kin by (auto elim: bridge_quantity)
  have other: "outId pr \<notin> set (unmatched (?run s ys))"
    if ys: "set ys \<subseteq> set xs" "\<forall>t\<in>set ys. \<not> leg_of pairs g t" and s: "outId pr \<notin> set (unmatched s)" for ys s
  proof
    assume "outId pr \<in> set (unmatched (?run s ys))"
    then obtain t h pq where t: "t \<in> set ys" "kind_of H pairs t = BridgeLeg h pq"
      and src: "directionOf (payload t) = OUT \<and> outId pr = idOf t \<or> directionOf (payload t) = IN \<and> outId pr = outId pq"
      using run_unmatched_source s by blast
    have h: "h \<noteq> g" "bridgeGroupOf (payload t) = Some h" "mget pairs h = Some pq"
      using t ys by (auto simp: kind_bridge leg_of_def)
    have "t \<in> set xs" "out \<in> set xs" using t ys sp' by auto
    moreover obtain us' out' vs' inn' ws' where sq: "pair_split pairs xs h pq us' out' vs' inn' ws'"
      using split [OF h(3)] by blast
    then have "out' \<in> set xs" "idOf out' = outId pq" "bridgeGroupOf (payload out') = Some h"
      by (auto simp: pair_split_def)
    ultimately show False
      using src h sp' distinct_map_inj_on [OF run_ids] by (metis option.inject)
  qed
  have "outId pr \<notin> set (unmatched st0)" unfolding st0 using sp' st by (intro other) auto
  then have "outId pr \<notin> set (unmatched st1)"
    using out_step(3) [OF kout _ q refl, of prices tg st0] sp' held by (simp add: st1_def)
  then have "outId pr \<notin> set (unmatched st2)" unfolding st2_def using sp' by (intro other) auto
  moreover have "mget (escrow st2) g \<noteq> None"
    using out_step(1) [OF kout _ q refl, of prices tg st0] sp' held by (simp add: st2_def st1_def run_escrow_frame)
  ultimately have "outId pr \<notin> set (unmatched st3)"
    using in_step(3) [OF kin _ qi, of prices tg st2] sp' by (simp add: st3_def)
  then have "outId pr \<notin> set (unmatched (?run st3 ws))" using sp' by (intro other) auto
  then show ?thesis using sp' by (simp add: st0 st1_def st2_def st3_def)
qed

lemma escrow_drained:
  assumes "escrow st = []"
  shows "escrow (foldl (fold_step H pairs prices tg) st xs) = []"
proof -
  have "mget (escrow (foldl (fold_step H pairs prices tg) st xs)) g = None" for g
  proof (cases "mget pairs g")
    case None
    then show ?thesis using assms by (subst run_escrow_frame) (auto simp: leg_of_def)
  next
    case (Some pr)
    then obtain us out vs inn ws where sp: "pair_split pairs xs g pr us out vs inn ws" using split by blast
    have "kind_of H pairs out = BridgeLeg g pr" "out \<in> set xs" using sp Some by (auto simp: kind_bridge pair_split_def)
    then obtain q where "quantityOf H (payload out) = Some q" using usable by (metis bridge_quantity)
    then show ?thesis using pair_run(1) [OF Some sp _ refl refl _ refl, of st] assms by simp
  qed
  then show ?thesis by (metis last_in_set map_of_eq_None_iff imageI list.map_disc_iff empty_iff set_empty list.set_map)
qed

end

text \<open>The engine's own order is such a run.\<close>

sublocale distinct_ledger \<subseteq> run: paired_run H "scan_pairs (scanBridgePairs H events)" "ordered_events H events"
proof unfold_locales
  show "distinct (map idOf (ordered_events H events))" by (rule ordered_ids)
  show "pairs_usable H (scan_pairs (scanBridgePairs H events)) t" if "t \<in> set (ordered_events H events)" for t
    using that scan_pairs_usable ordered_set by simp
  fix g pr assume pr: "mget (scan_pairs (scanBridgePairs H events)) g = Some pr"
  let ?srt = "sort_by (event_le H) events"
  define out inn where oi: "out = out_event ?srt pr" "inn = in_event ?srt pr"
  have mem: "(g, pr) \<in> set (scan_pairs (scanBridgePairs H events))" using pr by (rule map_of_SomeD)
  then have v: "pr \<in> set (mvalues (scan_pairs (scanBridgePairs H events)))" by force
  obtain us vs ws where o: "ordered_events H events = us @ out # vs @ inn # ws"
    using bo.reorder_out_before_in [OF v] by (auto simp: ordered_events_def oi)
  note f = bo.pair_event_facts [OF v, folded oi]
  have only: "t = out \<or> t = inn" if t: "t \<in> set events" "bridgeGroupOf (payload t) = Some g" for t
  proof -
    have legs: "outIds (legs_of H g events) = [outId pr]" "inIds (legs_of H g events) = [inId pr]"
      using pr by (simp_all add: scan_pairs_get)
    have "idOf t \<in> set (outIds (legs_of H g events)) \<union> set (inIds (legs_of H g events))"
      using t by (cases "directionOf (payload t)") (auto simp: legs_of_def)
    then have "idOf t = idOf out \<or> idOf t = idOf inn" using legs f by auto
    then show ?thesis using t f distinct_map_inj_on [OF distinct_ids] by (auto simp: set_sort_by)
  qed
  have grp: "bridgeGroupOf (payload out) = Some g" "bridgeGroupOf (payload inn) = Some g"
    using bo.pair_events [OF mem] f bo.same_event by metis+
  have d: "distinct (us @ out # vs @ inn # ws)" using ordered_ids o by (metis distinct_map)
  have "set us \<union> set vs \<union> set ws \<subseteq> set events" using o ordered_set by auto
  moreover have "out \<notin> set us \<union> set vs \<union> set ws" "inn \<notin> set us \<union> set vs \<union> set ws" using d by auto
  ultimately have "\<forall>t\<in>set us \<union> set vs \<union> set ws. bridgeGroupOf (payload t) \<noteq> Some g"
    using only by blast
  then have "pair_split (scan_pairs (scanBridgePairs H events)) (ordered_events H events) g pr us out vs inn ws"
    using o f grp by (auto simp: pair_split_def leg_of_def)
  then show "\<exists>us out vs inn ws. pair_split (scan_pairs (scanBridgePairs H events)) (ordered_events H events) g pr us out vs inn ws"
    by blast
qed

section \<open>What the run depends on\<close>

text \<open>The fold reads the pairs by lookup and the unmatched sources as a set.\<close>

definition same_run :: "fold_state \<Rightarrow> fold_state \<Rightarrow> bool" where
  "same_run a b \<longleftrightarrow> cells a = cells b \<and> results a = results b \<and> escrow a = escrow b \<and>
     set (unmatched a) = set (unmatched b)"

lemma step_same_run:
  assumes "same_run a b" "mget pairs = mget pairs'"
  shows "same_run (fold_step H pairs prices tg a t) (fold_step H pairs' prices tg b t)"
proof -
  have "kind_of H pairs t = kind_of H pairs' t" unfolding kind_of_def assms(2) by (rule refl)
  then show ?thesis
    using assms(1)
    by (auto simp: fold_step_kind same_run_def leg_defs split: leg_kind.split option.split direction.split)
qed

lemma run_same_run:
  "same_run a b \<Longrightarrow> mget pairs = mget pairs' \<Longrightarrow>
   same_run (foldl (fold_step H pairs prices tg) a xs) (foldl (fold_step H pairs' prices tg) b xs)"
  by (induction xs arbitrary: a b) (auto simp: step_same_run)

lemma run_fold_perm:
  assumes "mset events' = mset events" "ordered_events H events' = ordered_events H events"
  shows "same_run (run_fold H events' prices) (run_fold H events prices)"
  unfolding run_fold_def Let_def assms(2)
  using scan_pairs_perm [OF assms(1), of H] scan_unmatched_perm [OF assms(1), of H]
  by (intro run_same_run) (auto simp: same_run_def initial_state_def)

lemma compute_perm:
  assumes "same_run (run_fold H events' prices) (run_fold H events prices)"
  shows "mget (computeCostBasis H events' prices) = mget (computeCostBasis H events prices)"
  using assms by (intro ext) (simp add: compute_get same_run_def Let_def)

section \<open>The engine's run\<close>

context distinct_ledger begin

lemma usable_ordered: "\<forall>t\<in>set (ordered_events H events). pairs_usable H (scan_pairs (scanBridgePairs H events)) t"
  using run.usable by blast

lemma engine_escrow: "escrow (run_fold H events prices) = []"
  unfolding run_fold_def Let_def by (rule run.escrow_drained) (simp add: initial_state_def)

lemma engine_results: "results_ok H (run_fold H events prices)"
  unfolding run_fold_def Let_def
proof (rule foldl_invariant)
  show "results_ok H (initial_state outs)" for outs by (simp add: results_ok_def initial_state_def)
qed (use usable_ordered step_results_ok in blast)

lemma engine_keys: "fst ` set (results (run_fold H events prices)) = idOf ` set events"
  unfolding run_fold_def Let_def
  by (subst run_result_keys [OF usable_ordered]) (simp add: initial_state_def ordered_set)

lemma engine_get:
  "mget (computeCostBasis H events prices) k =
   map_option (\<lambda>r. if k \<in> set (unmatched (run_fold H events prices))
      then r\<lparr>review := pickReview (review r) (Some bridge_move_unmatched)\<rparr> else r) (mget (results (run_fold H events prices)) k)"
  by (simp add: compute_get engine_escrow Let_def map_option.id [unfolded id_def])

lemma engine_unmatched_out:
  assumes "i \<in> set (unmatched (run_fold H events prices))"
  shows "\<exists>t\<in>set events. idOf t = i \<and> directionOf (payload t) = OUT"
proof (cases "i \<in> set (unmatchedOutIds (scanBridgePairs H events))")
  case False
  then obtain t g pr where t: "t \<in> set (ordered_events H events)"
    "kind_of H (scan_pairs (scanBridgePairs H events)) t = BridgeLeg g pr"
    "directionOf (payload t) = OUT \<and> i = idOf t \<or> directionOf (payload t) = IN \<and> i = outId pr"
    using run_unmatched_source [of i H _ prices] assms
    unfolding run_fold_def Let_def by (fastforce simp: initial_state_def)
  obtain us out vs inn ws where
    "pair_split (scan_pairs (scanBridgePairs H events)) (ordered_events H events) g pr us out vs inn ws"
    using run.split t(2) by (metis kind_bridge)
  then have "out \<in> set (ordered_events H events)" "idOf out = outId pr" "directionOf (payload out) = OUT"
    by (auto simp: pair_split_def)
  then show ?thesis using t ordered_set by auto
qed (auto simp: scan_unmatched_iff)

lemma engine_pair:
  assumes pr: "mget (scan_pairs (scanBridgePairs H events)) g = Some pr"
  obtains us out vs inn ws st0 q c where
    "pair_split (scan_pairs (scanBridgePairs H events)) (ordered_events H events) g pr us out vs inn ws"
    "st0 = foldl (fold_step H (scan_pairs (scanBridgePairs H events)) prices
       (case prices of None \<Rightarrow> [] | Some _ \<Rightarrow> planGasAttribution H (ordered_events H events)))
       (initial_state (unmatchedOutIds (scanBridgePairs H events))) us"
    "quantityOf H (payload out) = Some q" "c = cell_at (cells st0) (assetKeyOf (payload out))"
    "mget (computeCostBasis H events prices) (outId pr) =
      Some (if q \<le> qty c then (moved_result (outId pr) OUT)\<lparr>bridgeMove := Some OUT\<rparr>
            else (moved_result (outId pr) OUT)\<lparr>review := Some disposal_exceeds_holdings\<rparr>)"
    "mget (computeCostBasis H events prices) (inId pr) =
      Some (if q \<le> qty c
            then (moved_result (inId pr) IN)\<lparr>bridgeMove := Some IN, costBasis := fixed H (rmul H q (avgCost c))\<rparr>
            else moved_result (inId pr) IN)"
proof -
  let ?pairs = "scan_pairs (scanBridgePairs H events)"
  let ?tg = "case prices of None \<Rightarrow> [] | Some _ \<Rightarrow> planGasAttribution H (ordered_events H events)"
  let ?ini = "initial_state (unmatchedOutIds (scanBridgePairs H events))"
  have fin: "run_fold H events prices = foldl (fold_step H ?pairs prices ?tg) ?ini (ordered_events H events)"
    by (simp add: run_fold_def Let_def)
  obtain us out vs inn ws where sp: "pair_split ?pairs (ordered_events H events) g pr us out vs inn ws"
    using run.split [OF pr] by blast
  note sp' = sp [unfolded pair_split_def]
  have mem: "out \<in> set events" "inn \<in> set events" "leg_of ?pairs g out" "leg_of ?pairs g inn"
    using sp' pr ordered_set by (auto simp: leg_of_def)
  have "kind_of H ?pairs out = BridgeLeg g pr" using sp' pr by (simp add: kind_bridge)
  then obtain q where q: "quantityOf H (payload out) = Some q"
    using run.usable [of out] sp' by (auto elim: bridge_quantity)
  define st0 where "st0 = foldl (fold_step H ?pairs prices ?tg) ?ini us"
  define c where "c = cell_at (cells st0) (assetKeyOf (payload out))"
  have e0: "mget (escrow ?ini) g = None" by (simp add: initial_state_def)
  note pair = run.pair_run [OF pr sp e0 st0_def fin q c_def]
  have src: "outId pr \<notin> set (unmatched ?ini)" "inId pr \<notin> set (unmatched (run_fold H events prices))"
  proof -
    show "outId pr \<notin> set (unmatched ?ini)"
      using distinct_map_inj_on [OF distinct_ids] mem sp'
      by (auto simp: initial_state_def scan_unmatched_iff leg_of_def) (metis option.distinct(1) option.inject)
    show "inId pr \<notin> set (unmatched (run_fold H events prices))"
      using engine_unmatched_out [of "inId pr"] distinct_map_inj_on [OF distinct_ids] mem sp' by (metis direction.distinct(1))
  qed
  show thesis
  proof (rule that [OF sp st0_def q c_def])
    show "mget (computeCostBasis H events prices) (inId pr) =
      Some (if q \<le> qty c
            then (moved_result (inId pr) IN)\<lparr>bridgeMove := Some IN, costBasis := fixed H (rmul H q (avgCost c))\<rparr>
            else moved_result (inId pr) IN)"
      using pair(3) src(2) by (simp add: engine_get)
    show "mget (computeCostBasis H events prices) (outId pr) =
      Some (if q \<le> qty c then (moved_result (outId pr) OUT)\<lparr>bridgeMove := Some OUT\<rparr>
            else (moved_result (outId pr) OUT)\<lparr>review := Some disposal_exceeds_holdings\<rparr>)"
      using pair(2) run.unmatched_moved [OF pr sp e0 src(1) st0_def q] 
      by (auto simp: engine_get fin c_def pickReview_def REVIEW_RANK_def moved_result_def base_result_def)
  qed
qed

end

end
