(* ===== verification/CostBasis_Account.thy ===== *)
theory CostBasis_Account
  imports CostBasis_Fold
begin

text \<open>
  The accounting of the fold: quantities never become negative, and cost is conserved. Held
  cost plus cost in flight between the legs of bridges changes by exactly what the results
  report, in every run whose arithmetic needs no rounding (\<open>exact_run\<close>, a computable check
  of the operations each step performs).
\<close>

section \<open>Quantities\<close>

definition qty_ok :: "fold_state \<Rightarrow> bool" where
  "qty_ok st \<longleftrightarrow> (\<forall>k c. mget (cells st) k = Some c \<longrightarrow> 0 \<le> qty c)"

lemma cell_qty_ok: "qty_ok st \<Longrightarrow> 0 \<le> qty (cell_at (cells st) k)"
  by (auto simp: qty_ok_def cell_at_def split: option.split)

lemma qty_ok_set_cell [simp]: "0 \<le> q \<Longrightarrow> qty_ok st \<Longrightarrow> qty_ok (set_cell k q a st)"
  by (auto simp: qty_ok_def set_cell_def map_of_update split: if_splits)

lemma qty_ok_other [simp]:
  "qty_ok (set_result i r st) = qty_ok st" "qty_ok (st\<lparr>escrow := e\<rparr>) = qty_ok st" "qty_ok (st\<lparr>unmatched := u\<rparr>) = qty_ok st"
  by (simp_all add: qty_ok_def set_result_def)

context decimal_laws begin

lemma step_qty_ok:
  assumes "pairs_usable H pairs t" "qty_ok st"
  shows "qty_ok (fold_step H pairs prices tg st t)"
proof (cases "kind_of H pairs t")
  case (BridgeLeg g pr)
  with assms(1) obtain q where "quantityOf H (payload t) = Some q" "0 < q" by (rule bridge_quantity)
  then show ?thesis
    using assms(2)
    by (auto simp: fold_step_kind BridgeLeg bridge_leg_def bridge_out_leg_def bridge_in_leg_def Let_def
        rplus_nonneg cell_qty_ok split: direction.split option.split)
next
  case (TaxableLeg q fiat)
  with kind_taxable_pos have "0 < q" by blast
  then show ?thesis
    using assms(2)
    by (auto simp: fold_step_kind TaxableLeg taxable_leg_def acquisition_leg_def disposal_leg_def Let_def
        rplus_nonneg cell_qty_ok split: direction.split)
qed (auto simp: assms fold_step_kind excluded_leg_def Let_def)

lemma run_qty_ok:
  "\<forall>t\<in>set xs. pairs_usable H pairs t \<Longrightarrow> qty_ok st \<Longrightarrow> qty_ok (foldl (fold_step H pairs prices tg) st xs)"
  by (rule foldl_invariant) (auto intro: step_qty_ok)

end

lemma step_cells_distinct:
  "distinct (mkeys (cells st)) \<Longrightarrow> distinct (mkeys (cells (fold_step H pairs prices tg st t)))"
  by (auto simp: fold_step_kind leg_defs distinct_update split: leg_kind.split option.split direction.split)

lemma run_cells_distinct: "distinct (mkeys (cells (run_fold H events prices)))"
  unfolding run_fold_def Let_def
  by (rule foldl_invariant [where P = "\<lambda>st. distinct (mkeys (cells st))"])
     (auto simp: initial_state_def intro: step_cells_distinct)

lemma holdings_fold:
  "distinct (mkeys cs) \<Longrightarrow> mget (foldl (\<lambda>hs (key, c). if \<not> P c then hs else mput key (f key c) hs) hs0 cs) k =
   (case mget cs k of Some c \<Rightarrow> if P c then Some (f k c) else mget hs0 k | None \<Rightarrow> mget hs0 k)"
proof (induction cs arbitrary: hs0)
  case (Cons e cs)
  obtain a b where e: "e = (a, b)" by (cases e)
  have "mget cs a = None" using Cons.prems e by (simp add: map_of_eq_None_iff)
  then show ?case using Cons e by (cases "k = a") (simp_all add: map_of_update split: option.split)
qed simp

section \<open>Cost held and cost in flight\<close>

definition held_cost :: "(string, asset_state) jmap \<Rightarrow> rat" where
  "held_cost cs = sum_list (map (\<lambda>(_, c). qty c * avgCost c) cs)"

definition in_flight :: "(string, rat \<times> string) jmap \<Rightarrow> rat" where
  "in_flight es = sum_list (map (\<lambda>(_, cost, _). cost) es)"

definition balance :: "fold_state \<Rightarrow> rat" where
  "balance st = held_cost (cells st) + in_flight (escrow st)"

text \<open>What a result reports: the cost a line brought in, or took out.\<close>

definition booked :: "host \<Rightarrow> cost_result \<Rightarrow> rat" where
  "booked H r = (if excluded r then 0
     else case decFinite H (VStr (costBasis r)) of
       None \<Rightarrow> 0
     | Some v \<Rightarrow> (case res_direction r of IN \<Rightarrow> v | OUT \<Rightarrow> - v))"

definition total_booked :: "host \<Rightarrow> (string, cost_result) jmap \<Rightarrow> rat" where
  "total_booked H rs = sum_list (map (\<lambda>(_, r). booked H r) rs)"

lemma held_cost_put:
  "held_cost (mput k c cs) = held_cost cs - qty (cell_at cs k) * avgCost (cell_at cs k) + qty c * avgCost c"
  by (induction cs) (auto simp: held_cost_def cell_at_def)

lemma in_flight_put: "mget es g = None \<Longrightarrow> in_flight (mput g (cost, i) es) = in_flight es + cost"
  by (induction es) (auto simp: in_flight_def split: if_splits)

lemma delete_absent: "mget es g = None \<Longrightarrow> mdel g es = es"
  by (force simp: AList.delete_eq map_of_eq_None_iff filter_id_conv)

lemma in_flight_del:
  "distinct (mkeys es) \<Longrightarrow> mget es g = Some (cost, i) \<Longrightarrow> in_flight (mdel g es) = in_flight es - cost"
proof (induction es)
  case (Cons e es)
  show ?case
  proof (cases "fst e = g")
    case True
    then have "mget es g = None" using Cons.prems by (auto simp: map_of_eq_None_iff)
    then show ?thesis using True Cons.prems by (cases e) (auto simp: in_flight_def delete_absent)
  next
    case False
    then show ?thesis using Cons by (cases e) (auto simp: in_flight_def)
  qed
qed simp

lemma total_booked_put: "mget rs i = None \<Longrightarrow> total_booked H (mput i r rs) = total_booked H rs + booked H r"
  by (induction rs) (auto simp: total_booked_def split: if_splits)

section \<open>Steps that need no rounding\<close>

definition credit_ops :: "asset_state \<Rightarrow> rat \<Rightarrow> rat \<Rightarrow> rat list" where
  "credit_ops c q added = [qty c + q, qty c * avgCost c, qty c * avgCost c + added, (qty c * avgCost c + added) / (qty c + q)]"

definition debit_ops :: "asset_state \<Rightarrow> rat \<Rightarrow> rat list" where
  "debit_ops c q = [qty c - q, min q (qty c) * avgCost c]"

definition acquired_cost :: "host \<Rightarrow> native_prices option \<Rightarrow> string list \<Rightarrow> taxable_transaction \<Rightarrow> rat \<Rightarrow> rat" where
  "acquired_cost H prices tg t fiat =
     (case (case prices of None \<Rightarrow> None | Some ps \<Rightarrow> if idOf t \<in> set tg then Some (gasFiatOf H t ps) else None) of
        Some (Some g, _) \<Rightarrow> rplus H fiat g
      | _ \<Rightarrow> fiat)"

text \<open>The exact results of the operations a step rounds.\<close>

definition step_ops :: "host \<Rightarrow> (string, bridge_pair) jmap \<Rightarrow> native_prices option \<Rightarrow> string list \<Rightarrow> fold_state \<Rightarrow>
    taxable_transaction \<Rightarrow> rat list" where
  "step_ops H pairs prices tg st t =
     (let c = cell_at (cells st) (assetKeyOf (payload t)) in
      case kind_of H pairs t of
        BridgeLeg g pr \<Rightarrow>
          (case (quantityOf H (payload t), directionOf (payload t), mget (escrow st) g) of
             (Some q, OUT, _) \<Rightarrow> debit_ops c q
           | (Some q, IN, Some (cost, _)) \<Rightarrow> credit_ops c q cost
           | _ \<Rightarrow> [])
      | ExcludedLeg \<Rightarrow> []
      | TaxableLeg q fiat \<Rightarrow>
          (case directionOf (payload t) of
             IN \<Rightarrow> credit_ops c q (acquired_cost H prices tg t fiat)
           | OUT \<Rightarrow> debit_ops c q))"

definition exact_step :: "host \<Rightarrow> (string, bridge_pair) jmap \<Rightarrow> native_prices option \<Rightarrow> string list \<Rightarrow> fold_state \<Rightarrow>
    taxable_transaction \<Rightarrow> bool" where
  "exact_step H pairs prices tg st t \<longleftrightarrow> list_all (\<lambda>x. decRound H x = x) (step_ops H pairs prices tg st t)"

fun exact_steps :: "host \<Rightarrow> (string, bridge_pair) jmap \<Rightarrow> native_prices option \<Rightarrow> string list \<Rightarrow> fold_state \<Rightarrow>
    taxable_transaction list \<Rightarrow> bool" where
  "exact_steps H pairs prices tg st [] = True"
| "exact_steps H pairs prices tg st (t # ts) \<longleftrightarrow>
     exact_step H pairs prices tg st t \<and> exact_steps H pairs prices tg (fold_step H pairs prices tg st t) ts"

text \<open>A source leg moves more than the ledger holds: the cost it drops is reported by no result.\<close>

definition short_source :: "cost_result \<Rightarrow> bool" where
  "short_source r \<longleftrightarrow> excluded r \<and> review r = Some disposal_exceeds_holdings"

context decimal_laws begin

lemma credit_exact:
  assumes "list_all (\<lambda>x. decRound H x = x) (credit_ops c q added)" "0 \<le> qty c" "0 < q"
  shows "held_cost (mput k \<lparr>qty = rplus H (qty c) q, avgCost = new_average H c added (rplus H (qty c) q)\<rparr> cs) =
    held_cost cs - qty (cell_at cs k) * avgCost (cell_at cs k) + qty c * avgCost c + added"
proof -
  have "rplus H (qty c) q = qty c + q" "qty c + q \<noteq> 0"
    and "new_average H c added (qty c + q) = (qty c * avgCost c + added) / (qty c + q)"
    using assms by (auto simp: credit_ops_def rplus_def new_average_def rdiv_def rmul_def)
  then show ?thesis by (simp add: held_cost_put)
qed

lemma debit_exact:
  assumes "list_all (\<lambda>x. decRound H x = x) (debit_ops c q)" "c = cell_at cs k" "0 \<le> qty c" "0 < q"
  shows "held_cost (mput k \<lparr>qty = max (rminus H (qty c) q) 0, avgCost = avgCost c\<rparr> cs) =
    held_cost cs - rmul H (min q (qty c)) (avgCost c)"
proof -
  have "rminus H (qty c) q = qty c - q" "rmul H (min q (qty c)) (avgCost c) = min q (qty c) * avgCost c"
    using assms(1) by (simp_all add: debit_ops_def rminus_def rmul_def)
  then have "held_cost (mput k \<lparr>qty = max (rminus H (qty c) q) 0, avgCost = avgCost c\<rparr> cs) =
      held_cost cs - qty c * avgCost c + max (qty c - q) 0 * avgCost c"
    "rmul H (min q (qty c)) (avgCost c) = min q (qty c) * avgCost c"
    by (simp_all add: held_cost_put assms(2))
  then show ?thesis
    by (cases "q \<le> qty c") (simp_all add: max_absorb1 max_absorb2 min_absorb1 min_absorb2 algebra_simps)
qed

lemma booked_acquired:
  assumes "fiatOf H (payload t) = Some fiat" and "\<not> excluded r"
    and "costBasis r = fixed H (acquired_cost H prices tg t fiat)" "res_direction r = IN"
  shows "booked H r = acquired_cost H prices tg t fiat"
proof -
  obtain v where "decNew H v = Some (DFin fiat)"
    using assms(1) by (auto simp: fiatOf_def decFinite_def Let_def split: if_splits option.splits decimal.splits)
  from new_fixed_new [OF this]
  have "decNew H (VStr (fixed H (acquired_cost H prices tg t fiat))) = Some (DFin (acquired_cost H prices tg t fiat))"
    by (auto simp: acquired_cost_def rplus_def new_fixed_round split: option.splits)
  with assms show ?thesis by (simp add: booked_def decFinite_def)
qed

lemma booked_disposed:
  "\<not> excluded r \<Longrightarrow> costBasis r = fixed H (rmul H a b) \<Longrightarrow> res_direction r = OUT \<Longrightarrow> booked H r = - rmul H a b"
  by (simp add: booked_def decFinite_def rmul_def new_fixed_round)

text \<open>One step: the balance moves by what the event's result books.\<close>

lemma step_balance:
  assumes use: "pairs_usable H pairs t" and q0: "qty_ok st" and ex: "exact_step H pairs prices tg st t"
    and fresh: "mget (results st) (idOf t) = None" and de: "distinct (mkeys (escrow st))"
    and src: "\<And>g pr. kind_of H pairs t = BridgeLeg g pr \<Longrightarrow> directionOf (payload t) = OUT \<Longrightarrow> mget (escrow st) g = None"
    and long: "\<And>r. mget (results (fold_step H pairs prices tg st t)) (idOf t) = Some r \<Longrightarrow> \<not> short_source r"
  shows "balance (fold_step H pairs prices tg st t) - balance st =
    total_booked H (results (fold_step H pairs prices tg st t)) - total_booked H (results st)"
proof (cases "kind_of H pairs t")
  case (BridgeLeg g pr)
  define c where "c = cell_at (cells st) (assetKeyOf (payload t))"
  have c0: "0 \<le> qty c" using q0 by (simp add: c_def cell_qty_ok)
  obtain q where q: "quantityOf H (payload t) = Some q" "0 < q" using use BridgeLeg by (rule bridge_quantity)
  have bk: "booked H (moved_result i d) = 0" "booked H ((moved_result i d)\<lparr>bridgeMove := m\<rparr>) = 0"
    "booked H ((moved_result i d)\<lparr>bridgeMove := m, costBasis := b\<rparr>) = 0" for i d m b
    by (simp_all add: booked_def moved_result_def base_result_def)
  show ?thesis
  proof (cases "directionOf (payload t)")
    case OUT
    have held: "q \<le> qty c"
      using long out_step(2) [OF BridgeLeg OUT q(1) c_def, of prices tg]
      by (auto simp: short_source_def moved_result_def base_result_def split: if_splits)
    have ops: "list_all (\<lambda>x. decRound H x = x) (debit_ops c q)"
      using ex by (simp add: exact_step_def step_ops_def BridgeLeg q OUT c_def)
    show ?thesis
      using debit_exact [OF ops c_def c0 q(2)] held src [OF BridgeLeg OUT] fresh
      by (simp add: fold_step_kind BridgeLeg bridge_leg_def q OUT bridge_out_leg_def c_def [symmetric] set_result_def
          set_cell_def balance_def in_flight_put total_booked_put bk)
  next
    case IN
    show ?thesis
    proof (cases "mget (escrow st) g")
      case None
      then show ?thesis
        using fresh by (simp add: fold_step_kind BridgeLeg bridge_leg_def q IN bridge_in_leg_def set_result_def
            balance_def total_booked_put bk)
    next
      case (Some e)
      obtain cost i where e: "e = (cost, i)" by (cases e)
      have ops: "list_all (\<lambda>x. decRound H x = x) (credit_ops c q cost)"
        using ex by (simp add: exact_step_def step_ops_def BridgeLeg q IN c_def Some e)
      show ?thesis
        using credit_exact [OF ops c0 q(2), of "assetKeyOf (payload t)" "cells st"] fresh de Some
        by (simp add: fold_step_kind BridgeLeg bridge_leg_def q IN bridge_in_leg_def c_def [symmetric] set_result_def e
            set_cell_def balance_def in_flight_del total_booked_put bk Let_def)
    qed
  qed
next
  case ExcludedLeg
  then show ?thesis
    using fresh by (simp add: fold_step_kind excluded_leg_def Let_def set_result_def balance_def total_booked_put booked_def)
next
  case (TaxableLeg q fiat)
  define c where "c = cell_at (cells st) (assetKeyOf (payload t))"
  have c0: "0 \<le> qty c" using q0 by (simp add: c_def cell_qty_ok)
  have q: "0 < q" and fiat: "fiatOf H (payload t) = Some fiat"
    using TaxableLeg by (auto simp: kind_of_def split: option.splits if_splits)
  show ?thesis
  proof (cases "directionOf (payload t)")
    case IN
    have ops: "list_all (\<lambda>x. decRound H x = x) (credit_ops c q (acquired_cost H prices tg t fiat))"
      using ex by (simp add: exact_step_def step_ops_def TaxableLeg IN c_def)
    have acq: "(case (case (case prices of None \<Rightarrow> None | Some ps \<Rightarrow> if idOf t \<in> set tg then Some (gasFiatOf H t ps) else None) of
        Some (v, _) \<Rightarrow> v | None \<Rightarrow> None) of None \<Rightarrow> fiat | Some g \<Rightarrow> rplus H fiat g) = acquired_cost H prices tg t fiat"
      by (auto simp: acquired_cost_def split: option.split)
    show ?thesis
      using credit_exact [OF ops c0 q, of "assetKeyOf (payload t)" "cells st"] fresh
      by (simp add: fold_step_kind TaxableLeg taxable_leg_def IN acquisition_leg_def Let_def acq c_def [symmetric]
          set_result_def set_cell_def balance_def total_booked_put booked_acquired [OF fiat] base_result_def)
  next
    case OUT
    have ops: "list_all (\<lambda>x. decRound H x = x) (debit_ops c q)"
      using ex by (simp add: exact_step_def step_ops_def TaxableLeg OUT c_def)
    show ?thesis
      using debit_exact [OF ops c_def c0 q] fresh
      by (simp add: fold_step_kind TaxableLeg taxable_leg_def OUT disposal_leg_def Let_def c_def [symmetric]
          set_result_def set_cell_def balance_def total_booked_put booked_disposed base_result_def)
  qed
qed

end

lemma step_escrow_distinct:
  "distinct (mkeys (escrow st)) \<Longrightarrow> distinct (mkeys (escrow (fold_step H pairs prices tg st t)))"
  by (auto simp: fold_step_kind leg_defs distinct_update distinct_delete split: leg_kind.split option.split direction.split)

lemma run_escrow_distinct:
  "distinct (mkeys (escrow st)) \<Longrightarrow> distinct (mkeys (escrow (foldl (fold_step H pairs prices tg) st xs)))"
  by (rule foldl_invariant [where P = "\<lambda>st. distinct (mkeys (escrow st))"]) (auto intro: step_escrow_distinct)

text \<open>Over a whole run. The run is entered at any prefix of the ledger, so that the step lemma
  applies with what the prefix gives: the event is new, and no earlier event is a leg of its group.\<close>

locale exact_paired_run = paired_run H pairs xs + decimal_laws H
  for H :: host and pairs :: "(string, bridge_pair) jmap" and xs :: "taxable_transaction list"
begin

lemma prefix_no_leg:
  assumes "xs = ys @ t # zs" "kind_of H pairs t = BridgeLeg g pr" "directionOf (payload t) = OUT"
  shows "\<forall>u\<in>set ys. \<not> leg_of pairs g u"
proof -
  have "mget pairs g = Some pr" "bridgeGroupOf (payload t) = Some g" using assms(2) by (auto simp: kind_bridge)
  then obtain us out vs inn ws where sp: "pair_split pairs xs g pr us out vs inn ws" using split by blast
  note sp' = sp [unfolded pair_split_def]
  have "leg_of pairs g t" "t \<noteq> inn" using assms sp' by (auto simp: kind_bridge leg_of_def)
  moreover have "t \<in> set (us @ out # vs @ inn # ws)" using sp' assms(1) by (metis in_set_conv_decomp)
  ultimately have "t = out" using sp' by auto
  moreover have d: "distinct xs" using run_ids by (simp add: distinct_map)
  ultimately have "ys = us"
    using sp' assms(1) by (metis append_Cons_eq_iff distinct_append distinct.simps(2) disjoint_iff list.set_intros(1) not_distinct_conv_prefix)
  then show ?thesis using sp' by auto
qed

lemma balance_run:
  assumes "xs = ys @ zs" "st = foldl (fold_step H pairs prices tg) st0 ys"
    and "escrow st0 = []" "cells st0 = []" "results st0 = []" "exact_steps H pairs prices tg st zs"
    and "\<forall>r. r \<in> set (mvalues (results (foldl (fold_step H pairs prices tg) st0 xs))) \<longrightarrow> \<not> short_source r"
  shows "balance (foldl (fold_step H pairs prices tg) st zs) - balance st =
    total_booked H (results (foldl (fold_step H pairs prices tg) st zs)) - total_booked H (results st)"
  using assms
proof (induction zs arbitrary: ys st)
  case (Cons t zs)
  let ?run = "foldl (fold_step H pairs prices tg)"
  let ?st' = "fold_step H pairs prices tg st t"
  have IH: "balance (?run ?st' zs) - balance ?st' = total_booked H (results (?run ?st' zs)) - total_booked H (results ?st')"
    using Cons.prems by (intro Cons.IH [of "ys @ [t]"]) auto
  have use: "\<forall>u\<in>set xs. pairs_usable H pairs u" using usable by blast
  have nt: "idOf t \<notin> idOf ` set ys" "idOf t \<notin> idOf ` set zs" using run_ids Cons.prems(1) by auto
  have "mget (results st) (idOf t) = None" using nt Cons.prems by (simp add: run_results_frame)
  moreover have "qty_ok st" unfolding Cons.prems(2) using use Cons.prems by (intro run_qty_ok) (auto simp: qty_ok_def)
  moreover have "distinct (mkeys (escrow st))" unfolding Cons.prems(2) using Cons.prems by (intro run_escrow_distinct) auto
  moreover have "mget (escrow st) g = None" if "kind_of H pairs t = BridgeLeg g pr" "directionOf (payload t) = OUT" for g pr
    using prefix_no_leg [OF Cons.prems(1) that] Cons.prems(2,3) by (simp add: run_escrow_frame)
  moreover have "\<not> short_source r" if "mget (results ?st') (idOf t) = Some r" for r
  proof -
    have "mget (results (?run st0 xs)) (idOf t) = Some r"
      using nt that by (simp add: Cons.prems(1,2) run_results_frame)
    then show ?thesis using Cons.prems(7) map_of_Some_in_set by metis
  qed
  ultimately have "balance ?st' - balance st = total_booked H (results ?st') - total_booked H (results st)"
    using use Cons.prems by (intro step_balance) auto
  with IH show ?case by simp
qed simp

lemma cost_conservation:
  assumes "escrow st0 = []" "cells st0 = []" "results st0 = []" "exact_steps H pairs prices tg st0 xs"
    and "fin = foldl (fold_step H pairs prices tg) st0 xs" "\<forall>r. r \<in> set (mvalues (results fin)) \<longrightarrow> \<not> short_source r"
  shows "held_cost (cells fin) = total_booked H (results fin)"
  using balance_run [of "[]" xs st0] assms escrow_drained [OF assms(1)]
  by (simp add: balance_def held_cost_def in_flight_def total_booked_def)

end

text \<open>The engine's run, for any ledger of distinct events.\<close>

context distinct_ledger begin

lemma engine_paired: "paired_run H (scan_pairs (scanBridgePairs H events)) (ordered_events H events)"
  by unfold_locales

lemma engine_exact:
  assumes "decimal_laws H"
  shows "exact_paired_run H (scan_pairs (scanBridgePairs H events)) (ordered_events H events)"
  by (intro exact_paired_run.intro engine_paired assms)

lemma engine_qty_ok:
  assumes "decimal_laws H"
  shows "qty_ok (run_fold H events prices)"
  unfolding run_fold_def Let_def
  by (rule decimal_laws.run_qty_ok [OF assms usable_ordered]) (simp add: qty_ok_def initial_state_def)

end

end
