(* ===== verification/Estimate.thy ===== *)
theory Estimate
  imports TaxRules CostBasis_Account
begin

text \<open>
  The yearly estimate of \<open>frontend/estimate.ts\<close>. It takes the whole history and the result of
  the cost fold over it, applies the tax year's window after the fold, and sorts the events of
  the year into those that count, those whose price is unknown, those that are not taxable and
  those whose cost could not be established.
\<close>

section \<open>Decimals\<close>

fun d_div :: "host \<Rightarrow> decimal \<Rightarrow> decimal \<Rightarrow> decimal" where
  "d_div H (DFin a) (DFin b) = (if b = 0 then (if a = 0 then DNaN else DInf (a < 0)) else DFin (rdiv H a b))"
| "d_div H DNaN _ = DNaN"
| "d_div H _ DNaN = DNaN"
| "d_div H (DInf s) (DInf t) = DNaN"
| "d_div H (DInf s) (DFin b) = DInf (s \<noteq> (b < 0))"
| "d_div H (DFin a) (DInf t) = DFin 0"

text \<open>\<open>Decimal.min(x, 0).abs()\<close>.\<close>

fun d_loss :: "decimal \<Rightarrow> decimal" where
  "d_loss (DFin a) = DFin \<bar>min a 0\<bar>"
| "d_loss (DInf s) = (if s then DInf False else DFin 0)"
| "d_loss DNaN = DNaN"

section \<open>Entries\<close>

record frontend_cost_basis =
  f_eventId :: string
  f_direction :: direction
  f_costBasis :: string
  f_proceeds :: "string option"
  f_realizedPnl :: "string option"
  f_pnlRatio :: "string option"
  f_excluded :: bool
  f_excludeReason :: "string option"
  f_review :: "string option"
  f_gasFiat :: "string option option"
  f_bridgeMove :: "direction option"

definition review_name :: "cost_review \<Rightarrow> string" where
  "review_name r = (case r of disposal_exceeds_holdings \<Rightarrow> ''disposal_exceeds_holdings''
     | bridge_move_unmatched \<Rightarrow> ''bridge_move_unmatched'' | gas_unpriced \<Rightarrow> ''gas_unpriced'')"

text \<open>The structural view of an engine result.\<close>

definition frontend_view :: "cost_result \<Rightarrow> frontend_cost_basis" where
  "frontend_view r = \<lparr>f_eventId = eventId r, f_direction = res_direction r, f_costBasis = costBasis r,
     f_proceeds = proceeds r, f_realizedPnl = realizedPnl r, f_pnlRatio = pnlRatio r, f_excluded = excluded r,
     f_excludeReason = excludeReason r, f_review = map_option review_name (review r), f_gasFiat = gasFiat r,
     f_bridgeMove = bridgeMove r\<rparr>"

definition PRICE_EXCLUDE_REASONS :: "string list" where
  "PRICE_EXCLUDE_REASONS = [''price_unknown'', ''no_fiat_value'', ''no_quantity'']"

definition NON_TAXABLE_EXCLUDE_REASONS :: "string list" where
  "NON_TAXABLE_EXCLUDE_REASONS = [''internal_transfer_unlinked'']"

definition REVIEW_UNRESOLVED_COST :: string where
  "REVIEW_UNRESOLVED_COST = ''disposal_exceeds_holdings''"

definition LIMITATION_MESSAGES :: "(string, string) jmap" where
  "LIMITATION_MESSAGES = [
     (''excluded'', ko [234, 176, 128, 234, 178, 169, 32, 235, 175, 184, 237, 153, 149, 236, 157, 184, 32, 236, 157, 180,
       235, 178, 164, 237, 138, 184, 235, 138, 148, 32, 234, 179, 132, 236, 130, 176, 236, 151, 144, 236,
       132, 156, 32, 236, 160, 156, 236, 153, 184, 237, 150, 136, 236, 138, 181, 235, 139, 136, 235, 139,
       164, 46]),
     (''review'', ko [236, 183, 168, 235, 147, 157, 32, 236, 155, 144, 234, 176, 128, 235, 165, 188, 32, 237, 153, 149,
       236, 157, 184, 237, 149, 160, 32, 236, 136, 152, 32, 236, 151, 134, 235, 138, 148, 32, 236, 178,
       152, 235, 182, 132, 236, 157, 128, 32, 237, 149, 169, 234, 179, 132, 236, 151, 144, 236, 132, 156,
       32, 236, 160, 156, 236, 153, 184, 237, 149, 152, 234, 179, 160, 32, 117, 110, 114, 101, 115, 111,
       108, 118, 101, 100, 80, 114, 111, 99, 101, 101, 100, 115, 235, 161, 156, 32, 235, 179, 180, 234,
       179, 160, 237, 150, 136, 236, 138, 181, 235, 139, 136, 235, 139, 164, 46]),
     (''non_taxable'', ko [236, 138, 164, 237, 140, 184, 194, 183, 235, 175, 184, 235, 182, 132, 235, 165, 152, 194, 183, 235,
       130, 180, 235, 182, 128, 32, 236, 157, 180, 236, 178, 180, 32, 236, 157, 180, 235, 178, 164, 237,
       138, 184, 235, 138, 148, 32, 234, 179, 188, 236, 132, 184, 32, 235, 140, 128, 236, 131, 129, 236,
       157, 180, 32, 236, 149, 132, 235, 139, 136, 235, 175, 128, 235, 161, 156, 32, 236, 160, 156, 236,
       153, 184, 237, 150, 136, 236, 138, 181, 235, 139, 136, 235, 139, 164, 46])]"

definition reason_of :: "frontend_cost_basis \<Rightarrow> string" where
  "reason_of entry = (case f_excludeReason entry of Some r \<Rightarrow> r | None \<Rightarrow> [])"

definition eventIdOf :: "taxable_transaction \<Rightarrow> string" where
  "eventIdOf t = js_String (coalesce (pget (payload t) ''id'') (VStr (tx_id t)))"

definition isPriceExcluded :: "frontend_cost_basis \<Rightarrow> bool" where
  "isPriceExcluded entry \<longleftrightarrow> f_excluded entry \<and> reason_of entry \<in> set PRICE_EXCLUDE_REASONS"

definition isNonTaxableExcluded :: "frontend_cost_basis \<Rightarrow> bool" where
  "isNonTaxableExcluded entry \<longleftrightarrow> f_excluded entry \<and>
     (startsWith (reason_of entry) ''classification_'' \<or> reason_of entry \<in> set NON_TAXABLE_EXCLUDE_REASONS)"

definition isUnresolvedDisposal :: "frontend_cost_basis \<Rightarrow> bool" where
  "isUnresolvedDisposal entry \<longleftrightarrow> \<not> f_excluded entry \<and> f_direction entry = OUT \<and> f_review entry = Some REVIEW_UNRESOLVED_COST"

section \<open>One event's judgment\<close>

record breakdown_row =
  b_proceeds :: string
  b_cost :: string
  b_fee :: string
  b_feeFiat :: "string option"

record tax_judgment =
  j_eventId :: string
  j_at :: string
  j_asset :: string
  j_symbol :: string
  j_quantity :: string
  j_amount :: string
  j_amountKind :: string
  j_group :: string
  j_label :: string
  j_basis :: string
  j_costBasis :: string
  j_realizedPnl :: "string option"
  j_pnlReview :: "string option"
  j_breakdown :: "breakdown_row option"

definition judgmentOf :: "host \<Rightarrow> taxable_transaction \<Rightarrow> decimal \<Rightarrow> frontend_cost_basis \<Rightarrow> string \<Rightarrow> string \<Rightarrow>
    (tax_error, tax_judgment) result" where
  "judgmentOf H t amount entry country countryLabel =
     (let p = payload t; inbound = (pget p ''direction'' = VStr ''IN'') in
      case occurredMs H t of
        None \<Rightarrow> Inl InvalidDate
      | Some ms \<Rightarrow> Inr \<lparr>
          j_eventId = js_String (coalesce (pget p ''id'') (VStr (tx_id t))),
          j_at = toISOString ms,
          j_asset = js_String (coalesce (pget p ''chain_id'') (jint 1)) @ '':'' @ js_String (coalesce (pget p ''asset_contract'') (VStr ''native'')),
          j_symbol = js_String (coalesce (pget p ''symbol'') (VStr (if pget p ''asset_type'' = VStr ''NATIVE'' then ''ETH'' else ''TOKEN''))),
          j_quantity = js_String (coalesce (pget p ''raw_amount'') (VStr ''0'')),
          j_amount = decFixed H amount,
          j_amountKind = (if inbound then ''cost'' else ''gain''),
          j_group = (if country = ''KR'' then ''pending'' else if inbound then ''acquire'' else ''taxable''),
          j_label = (if country = ''KR'' then ko [237, 140, 144, 236, 160, 149, 32, 235, 140, 128, 234, 184, 176]
             else if inbound then ko [236, 183, 168, 235, 147, 157, 32, 194, 183, 32, 236, 155, 144, 234, 176, 128, 32, 234, 184, 176,
       235, 161, 157]
             else ko [234, 179, 188, 236, 132, 184, 32, 235, 140, 128, 236, 131, 129]),
          j_basis = demo_basis countryLabel,
          j_costBasis = f_costBasis entry, j_realizedPnl = f_realizedPnl entry, j_pnlReview = f_review entry,
          j_breakdown = (if inbound then None else Some \<lparr>b_proceeds = decFixed H amount, b_cost = f_costBasis entry,
             b_fee = js_String (coalesce (pget p ''gas_fee_native'') (VStr ''0'')),
             b_feeFiat = (case f_gasFiat entry of Some v \<Rightarrow> v | None \<Rightarrow> None)\<rparr>)\<rparr>)"

section \<open>The estimate\<close>

record scoped_event =
  s_transaction :: taxable_transaction
  s_eventId :: string
  s_amount :: "decimal option"
  s_entry :: "frontend_cost_basis option"

record estimate_tally =
  total :: decimal
  unresolved :: decimal
  known :: "(taxable_transaction \<times> decimal \<times> frontend_cost_basis) list"
  excludedIds :: "string list"
  reviewIds :: "string list"
  nonTaxableIds :: "string list"

definition year_start :: "int \<Rightarrow> string" where
  "year_start y = int_str y @ ''-01-01T00:00:00.000Z''"

text \<open>A comparison with an invalid date is false.\<close>

definition in_year :: "host \<Rightarrow> int \<Rightarrow> taxable_transaction \<Rightarrow> bool" where
  "in_year H y t = (case (occurredMs H t, dateParse H (year_start y), dateParse H (year_start (y + 1))) of
     (Some a, Some f, Some b) \<Rightarrow> f \<le> a \<and> a < b | _ \<Rightarrow> False)"

definition scope_event :: "host \<Rightarrow> (string, frontend_cost_basis) jmap \<Rightarrow> taxable_transaction \<Rightarrow> scoped_event" where
  "scope_event H basis t = \<lparr>s_transaction = t, s_eventId = eventIdOf t, s_amount = amountOf H (payload t),
     s_entry = mget basis (eventIdOf t)\<rparr>"

definition scoped :: "host \<Rightarrow> taxable_transaction list \<Rightarrow> int \<Rightarrow> (string, frontend_cost_basis) jmap \<Rightarrow> scoped_event list" where
  "scoped H transactions taxYear basis = map (scope_event H basis) (filter (in_year H taxYear) transactions)"

definition tally_money :: "host \<Rightarrow> frontend_cost_basis \<Rightarrow> decimal \<times> decimal \<Rightarrow> (tax_error, decimal \<times> decimal) result" where
  "tally_money H entry tu =
     (if isUnresolvedDisposal entry
      then (case f_proceeds entry of
              None \<Rightarrow> Inr tu
            | Some p \<Rightarrow> rbind (d_read H p) (\<lambda>d. Inr (fst tu, d_plus H (snd tu) d)))
      else if \<not> f_excluded entry \<and> f_direction entry = OUT
      then (case f_realizedPnl entry of
              None \<Rightarrow> Inr tu
            | Some p \<Rightarrow> rbind (d_read H p) (\<lambda>d. Inr (d_plus H (fst tu) d, snd tu)))
      else Inr tu)"

definition tally_row :: "host \<Rightarrow> estimate_tally \<Rightarrow> scoped_event \<Rightarrow> (tax_error, estimate_tally) result" where
  "tally_row H s row = (case s_entry row of
     None \<Rightarrow> Inr s
   | Some entry \<Rightarrow>
       rbind (tally_money H entry (total s, unresolved s)) (\<lambda>(t, u). Inr (s\<lparr>
         excludedIds := excludedIds s @ (if isPriceExcluded entry then [s_eventId row] else []),
         nonTaxableIds := nonTaxableIds s @ (if isNonTaxableExcluded entry then [s_eventId row] else []),
         reviewIds := reviewIds s @ (if isUnresolvedDisposal entry then [s_eventId row] else []),
         total := t, unresolved := u,
         known := known s @ (case s_amount row of
            Some amount \<Rightarrow> if f_excluded entry then [] else [(s_transaction row, amount, entry)]
          | None \<Rightarrow> [])\<rparr>)))"

fun tally_rows :: "host \<Rightarrow> estimate_tally \<Rightarrow> scoped_event list \<Rightarrow> (tax_error, estimate_tally) result" where
  "tally_rows H s [] = Inr s"
| "tally_rows H s (row # rows) = rbind (tally_row H s row) (\<lambda>s'. tally_rows H s' rows)"

definition empty_tally :: estimate_tally where
  "empty_tally = \<lparr>total = DFin 0, unresolved = DFin 0, known = [], excludedIds = [], reviewIds = [], nonTaxableIds = []\<rparr>"

fun judgments_of :: "host \<Rightarrow> string \<Rightarrow> string \<Rightarrow> (taxable_transaction \<times> decimal \<times> frontend_cost_basis) list \<Rightarrow>
    (tax_error, tax_judgment list) result" where
  "judgments_of H code lbl [] = Inr []"
| "judgments_of H code lbl ((t, amount, entry) # rest) =
     rbind (judgmentOf H t amount entry code lbl) (\<lambda>j. rbind (judgments_of H code lbl rest) (\<lambda>js. Inr (j # js)))"

record limitation =
  l_kind :: string
  l_message :: string
  l_eventIds :: "string list"

definition limitations_of :: "estimate_tally \<Rightarrow> limitation list" where
  "limitations_of s = map (\<lambda>(kind, ids). \<lparr>l_kind = kind, l_message = the (mget LIMITATION_MESSAGES kind), l_eventIds = ids\<rparr>)
     (filter (\<lambda>(_, ids). ids \<noteq> []) [(''excluded'', excludedIds s), (''review'', reviewIds s), (''non_taxable'', nonTaxableIds s)])"

record estimate =
  e_country :: string
  e_countryLabel :: string
  e_currency :: string
  e_taxYear :: int
  e_from :: string
  e_to :: string
  e_method :: string
  e_status :: string
  e_ratePercent :: string
  taxableGains :: string
  estimatedCharge :: string
  effectiveRatePercent :: string
  unresolvedProceeds :: string
  lossCarryforward :: string
  limitations :: "limitation list"
  openQuestions :: "string list option"
  excludedEventIds :: "string list"
  judgments :: "tax_judgment list"

text \<open>The open question the code lists for Korea is kept as the list of the events it affects; the
  fields of the answer that are constant in the source (\<open>exemptGains\<close>, \<open>incomeTotal\<close>,
  \<open>requiredInputs\<close>, \<open>provenance\<close>, the notes) are left out.\<close>

definition calculateFrontendEstimate :: "host \<Rightarrow> taxable_transaction list \<Rightarrow> string \<Rightarrow> int \<Rightarrow>
    (string, frontend_cost_basis) jmap \<Rightarrow> (tax_error, estimate) result" where
  "calculateFrontendEstimate H transactions country taxYear basis = (case getCountryRule country of
     None \<Rightarrow> Inl (UnsupportedCountry country)
   | Some meta \<Rightarrow>
       rbind (tally_rows H empty_tally (scoped H transactions taxYear basis)) (\<lambda>s.
       rbind (d_read H (r_rate meta)) (\<lambda>rate.
       let taxable = d_max0 (total s);
           charge = d_mul H taxable rate;
           effective = (if taxable = DFin 0 then DFin 0 else d_mul H (d_div H charge taxable) (DFin 100))
       in rbind (judgments_of H (r_code meta) (r_label meta) (known s)) (\<lambda>js.
          Inr \<lparr>e_country = r_code meta, e_countryLabel = r_label meta, e_currency = r_currency meta,
            e_taxYear = taxYear, e_from = year_start taxYear, e_to = year_start (taxYear + 1), e_method = r_costBasis meta,
            e_status = rule_status (r_code meta), e_ratePercent = decFixed H (d_mul H rate (DFin 100)) @ ''%'',
            taxableGains = decFixed H taxable, estimatedCharge = decFixed H charge,
            effectiveRatePercent = decFixed H effective, unresolvedProceeds = decFixed H (unresolved s),
            lossCarryforward = decFixed H (d_loss (total s)), limitations = limitations_of s,
            openQuestions = (if r_code meta = ''KR'' then Some (map j_eventId js) else None),
            excludedEventIds = sadd_all (excludedIds s @ reviewIds s @ nonTaxableIds s) [],
            judgments = js\<rparr>))))"

end
