(* ===== verification/CostBasis_Properties.thy ===== *)
theory CostBasis_Properties
  imports CostBasis_Account
begin

text \<open>
  The properties of the cost engine, each stated on the definitions of \<open>CostBasis\<close> and proved
  from the lemmas of \<open>CostBasis_Order\<close>, \<open>CostBasis_Gas\<close>, \<open>CostBasis_Fold\<close> and
  \<open>CostBasis_Account\<close>. The sample ledger the witnesses run on buys a coin, bridges part of it
  to another chain (its destination leg is stamped earlier than its source), and sells some.
\<close>

section \<open>A sample ledger\<close>

definition leg :: "string \<Rightarrow> int \<Rightarrow> jobj \<Rightarrow> taxable_transaction" where
  "leg i ms p = \<lparr>tx_id = i, eventType = ''CHAIN'', occurredAt = AtDate (Some ms), payload = p\<rparr>"

definition sample_buy :: taxable_transaction where
  "sample_buy = leg ''a'' 1000 [(''direction'', VStr ''IN''), (''classification'', VStr ''TRANSFER''),
     (''raw_amount'', VStr ''10''), (''chain_id'', jint 1), (''asset_type'', VStr ''NATIVE''),
     (''fiat_value'', VStr ''1000''), (''group_id'', VStr ''s''), (''gas_fee_native'', VStr ''2'')]"

definition sample_out :: taxable_transaction where
  "sample_out = leg ''b'' 3000 [(''direction'', VStr ''OUT''), (''classification'', VStr ''INTERNAL_TRANSFER''),
     (''raw_amount'', VStr ''4''), (''chain_id'', jint 1), (''asset_type'', VStr ''NATIVE''), (''bridge_group_id'', VStr ''g'')]"

definition sample_in :: taxable_transaction where
  "sample_in = leg ''c'' 2000 [(''direction'', VStr ''IN''), (''classification'', VStr ''INTERNAL_TRANSFER''),
     (''raw_amount'', VStr ''4''), (''chain_id'', jint 10), (''asset_type'', VStr ''NATIVE''), (''bridge_group_id'', VStr ''g'')]"

definition sample_sell :: taxable_transaction where
  "sample_sell = leg ''d'' 4000 [(''direction'', VStr ''OUT''), (''classification'', VStr ''TRANSFER''),
     (''raw_amount'', VStr ''2''), (''chain_id'', jint 10), (''asset_type'', VStr ''NATIVE''), (''fiat_value'', VStr ''500'')]"

definition sample_ledger :: "taxable_transaction list" where
  "sample_ledger = [sample_sell, sample_in, sample_out, sample_buy]"

lemma sample_ids: "map idOf sample_ledger = [''d'', ''c'', ''b'', ''a'']"
  by code_simp

lemma sample_scan: "scan_pairs (scanBridgePairs std_host sample_ledger) = [(''g'', \<lparr>outId = ''b'', inId = ''c''\<rparr>)]"
  "unmatchedOutIds (scanBridgePairs std_host sample_ledger) = []"
  by code_simp+

lemma sample_ordered: "ordered_events std_host sample_ledger = [sample_buy, sample_out, sample_in, sample_sell]"
  by code_simp

lemma sample_exact:
  "exact_steps std_host (scan_pairs (scanBridgePairs std_host sample_ledger)) None [] (initial_state [])
     [sample_buy, sample_out, sample_in, sample_sell]"
  by code_simp

interpretation sample: dated_ledger std_host sample_ledger
proof unfold_locales
  show "distinct (map idOf sample_ledger)" by (simp add: sample_ids)
  show "occurredMs std_host t \<noteq> None" if "t \<in> set sample_ledger" for t
    using that by (auto simp: sample_ledger_def sample_buy_def sample_out_def sample_in_def sample_sell_def leg_def occurredMs_def)
  show "idOf x = idOf y" if "localeCompare std_host (idOf x) (idOf y) = 0" for x y
    using that by (simp add: std_host_def)
qed

interpretation sample_run: exact_paired_run std_host "scan_pairs (scanBridgePairs std_host sample_ledger)"
    "ordered_events std_host sample_ledger"
  by unfold_locales

section \<open>Properties\<close>


lemma sample_run_fold:
  "run_fold std_host sample_ledger None =
   foldl (fold_step std_host [(''g'', \<lparr>outId = ''b'', inId = ''c''\<rparr>)] None []) (initial_state [])
     [sample_buy, sample_out, sample_in, sample_sell]"
  by (simp add: run_fold_def sample_scan sample_ordered)

lemma sample_long: "list_all (\<lambda>r. \<not> short_source r) (mvalues (results (run_fold std_host sample_ledger None)))"
  unfolding sample_run_fold by code_simp


text \<open>C2. The two legs of a bridge. For every group the scan pairs, the result of the source leg
  and of the destination leg agree: if what the source moves is held when the source is
  reached, both are reported as moves and the destination reports exactly the cost taken off the
  source's asset; otherwise neither moves cost, the destination is credited nothing and the
  source is flagged \<open>disposal_exceeds_holdings\<close>. Neither leg ever reports proceeds or a gain.\<close>

theorem bridge_legs_agree:
  assumes "distinct (map idOf events)" "mget (scan_pairs (scanBridgePairs H events)) g = Some pr"
  shows "\<exists>moved cost. mget (computeCostBasis H events prices) (outId pr) =
      Some (if moved then (moved_result (outId pr) OUT)\<lparr>bridgeMove := Some OUT\<rparr>
            else (moved_result (outId pr) OUT)\<lparr>review := Some disposal_exceeds_holdings\<rparr>) \<and>
    mget (computeCostBasis H events prices) (inId pr) =
      Some (if moved then (moved_result (inId pr) IN)\<lparr>bridgeMove := Some IN, costBasis := fixed H cost\<rparr>
            else moved_result (inId pr) IN) \<and>
    (\<exists>us out vs inn ws. ordered_events H events = us @ out # vs @ inn # ws \<and> idOf out = outId pr \<and> idOf inn = inId pr \<and>
      (\<exists>q c. quantityOf H (payload out) = Some q \<and>
        c = cell_at (cells (foldl (fold_step H (scan_pairs (scanBridgePairs H events)) prices
              (case prices of None \<Rightarrow> [] | Some _ \<Rightarrow> planGasAttribution H (ordered_events H events)))
              (initial_state (unmatchedOutIds (scanBridgePairs H events))) us)) (assetKeyOf (payload out)) \<and>
        (moved \<longleftrightarrow> q \<le> qty c) \<and> (moved \<longrightarrow> cost = rmul H q (avgCost c))))"
proof -
  have "distinct_ledger events" using assms(1) by (simp add: distinct_ledger_def)
  from distinct_ledger.engine_pair [OF this assms(2), of prices]
  obtain us out vs inn ws st0 q c where
    e: "pair_split (scan_pairs (scanBridgePairs H events)) (ordered_events H events) g pr us out vs inn ws"
    "st0 = foldl (fold_step H (scan_pairs (scanBridgePairs H events)) prices
       (case prices of None \<Rightarrow> [] | Some _ \<Rightarrow> planGasAttribution H (ordered_events H events)))
       (initial_state (unmatchedOutIds (scanBridgePairs H events))) us"
    "quantityOf H (payload out) = Some q" "c = cell_at (cells st0) (assetKeyOf (payload out))"
    "mget (computeCostBasis H events prices) (outId pr) =
      Some (if q \<le> qty c then (moved_result (outId pr) OUT)\<lparr>bridgeMove := Some OUT\<rparr>
            else (moved_result (outId pr) OUT)\<lparr>review := Some disposal_exceeds_holdings\<rparr>)"
    "mget (computeCostBasis H events prices) (inId pr) =
      Some (if q \<le> qty c
            then (moved_result (inId pr) IN)\<lparr>bridgeMove := Some IN, costBasis := fixed H (rmul H q (avgCost c))\<rparr>
            else moved_result (inId pr) IN)"
    by blast
  show ?thesis
    by (intro exI [of _ "q \<le> qty c"] exI [of _ "rmul H q (avgCost c)"] conjI e(5,6) exI [of _ us] exI [of _ out]
        exI [of _ vs] exI [of _ inn] exI [of _ ws] exI [of _ q] exI [of _ c])
       (use e in \<open>auto simp: pair_split_def\<close>)
qed

theorem bridge_legs_agree_witness:
  "\<exists>moved cost. mget (computeCostBasis std_host sample_ledger None) ''b'' =
      Some (if moved then (moved_result ''b'' OUT)\<lparr>bridgeMove := Some OUT\<rparr>
            else (moved_result ''b'' OUT)\<lparr>review := Some disposal_exceeds_holdings\<rparr>) \<and>
    mget (computeCostBasis std_host sample_ledger None) ''c'' =
      Some (if moved then (moved_result ''c'' IN)\<lparr>bridgeMove := Some IN, costBasis := fixed std_host cost\<rparr>
            else moved_result ''c'' IN)"
proof -
  have "mget (scan_pairs (scanBridgePairs std_host sample_ledger)) ''g'' = Some \<lparr>outId = ''b'', inId = ''c''\<rparr>"
    by (simp add: sample_scan)
  from bridge_legs_agree [OF sample.distinct_ids this, of None, unfolded bridge_pair.select_convs]
  show ?thesis by (elim exE conjE) (intro exI conjI)
qed

text \<open>C2. Every event gets exactly one result, under its own id, of the right shape: an excluded line
  carries a reason and neither proceeds, gain nor gas; an acquisition has no proceeds; a disposal
  reports proceeds, a gain that is proceeds less cost, and a ratio exactly when its cost is
  positive. No leg is left waiting in the escrow when the ledger ends.\<close>

theorem results_complete:
  assumes "distinct (map idOf events)"
  shows "fst ` set (computeCostBasis H events prices) = idOf ` set events \<and>
    (\<forall>k r. mget (computeCostBasis H events prices) k = Some r \<longrightarrow> eventId r = k \<and> result_ok H r) \<and>
    escrow (run_fold H events prices) = []"
proof -
  have dl: "distinct_ledger events" using assms by (simp add: distinct_ledger_def)
  note get = distinct_ledger.engine_get [OF dl, of H prices]
  have "k \<in> fst ` set (computeCostBasis H events prices) \<longleftrightarrow> k \<in> idOf ` set events" for k
    unfolding distinct_ledger.engine_keys [OF dl, of H prices, symmetric]
    using get [of k] map_of_eq_None_iff [of "computeCostBasis H events prices" k]
      map_of_eq_None_iff [of "results (run_fold H events prices)" k] by (simp only: map_option_is_None) argo
  moreover have "eventId r = k \<and> result_ok H r" if "mget (computeCostBasis H events prices) k = Some r" for k r
    using that distinct_ledger.engine_results [OF dl, of H prices] by (auto simp: get results_ok_def split: if_splits)
  ultimately show ?thesis using distinct_ledger.engine_escrow [OF dl] by blast
qed

theorem results_complete_witness:
  "fst ` set (computeCostBasis std_host sample_ledger None) = idOf ` set sample_ledger \<and>
   escrow (run_fold std_host sample_ledger None) = []"
  by (rule conjI, rule results_complete [OF sample.distinct_ids, THEN conjunct1],
      rule results_complete [OF sample.distinct_ids, THEN conjunct2, THEN conjunct2])

text \<open>C3. The order in which the caller supplies the events does not matter. When the events are
  dated and their ids distinct (also to the collation), any permutation of the input gives every
  event the same result and leaves the same holdings.\<close>

theorem input_order_irrelevant:
  assumes "collation_laws H" "distinct (map idOf events)"
    and "\<forall>t\<in>set events. occurredMs H t \<noteq> None"
    and "\<forall>x\<in>set events. \<forall>y\<in>set events. localeCompare H (idOf x) (idOf y) = 0 \<longrightarrow> idOf x = idOf y"
    and "mset events' = mset events"
  shows "mget (computeCostBasis H events' prices) = mget (computeCostBasis H events prices) \<and>
    computeHoldingsCostBasis H events' prices = computeHoldingsCostBasis H events prices"
proof -
  have "dated_ledger H events"
    using assms by (simp add: dated_ledger_def dated_ledger_axioms_def distinct_ledger_def)
  from run_fold_perm [OF assms(5) dated_ledger.ordered_perm [OF this assms(5)]]
  have "same_run (run_fold H events' prices) (run_fold H events prices)" .
  moreover from this have "cells (run_fold H events' prices) = cells (run_fold H events prices)"
    by (simp add: same_run_def)
  ultimately show ?thesis
    by (simp add: compute_perm computeHoldingsCostBasis_def foldCostBasis_def Let_def)
qed

theorem input_order_irrelevant_witness:
  "mget (computeCostBasis std_host (rev sample_ledger) None) = mget (computeCostBasis std_host sample_ledger None)"
proof (rule input_order_irrelevant [THEN conjunct1])
  show "collation_laws std_host" by (rule std.collation_laws_axioms)
  show "distinct (map idOf sample_ledger)" by (rule sample.distinct_ids)
qed (use sample.dated sample.separated in simp_all)

text \<open>C4. A bridge's destination is folded after its source even when its chain stamped it earlier, and
  the reorder pass that ensures it neither drops nor duplicates an event.\<close>

theorem reorder_correct:
  assumes "distinct (map idOf events)"
  shows "mset (ordered_events H events) = mset events \<and>
    (\<forall>g pr. mget (scan_pairs (scanBridgePairs H events)) g = Some pr \<longrightarrow>
      (\<exists>us out vs inn ws. ordered_events H events = us @ out # vs @ inn # ws \<and> idOf out = outId pr \<and> idOf inn = inId pr \<and>
         directionOf (payload out) = OUT \<and> directionOf (payload inn) = IN))"
proof -
  have dl: "distinct_ledger events" using assms by (simp add: distinct_ledger_def)
  show ?thesis
    using distinct_ledger.ordered_mset [OF dl] paired_run.split [OF distinct_ledger.engine_paired [OF dl]]
    by (fastforce simp: pair_split_def)
qed

theorem reorder_correct_witness:
  "\<exists>us out vs inn ws. ordered_events std_host sample_ledger = us @ out # vs @ inn # ws \<and> idOf out = ''b'' \<and> idOf inn = ''c''"
proof -
  have "mget (scan_pairs (scanBridgePairs std_host sample_ledger)) ''g'' = Some \<lparr>outId = ''b'', inId = ''c''\<rparr>"
    by (simp add: sample_scan)
  with reorder_correct [OF sample.distinct_ids, of std_host] show ?thesis by (metis bridge_pair.select_convs)
qed

text \<open>C5. Each transaction's gas is charged once: of the taxable legs of a swap group exactly one is
  the target, an incoming one whenever the group has one; a taxable line without a group is its
  own target; and a line that is not taxable never is.\<close>

theorem gas_charged_once:
  assumes "distinct (map idOf xs)"
  shows "(\<forall>t\<in>set xs. \<forall>g. isTaxableLine H (payload t) \<and> swapGroupOf (payload t) = Some g \<longrightarrow>
      (\<exists>!u. u \<in> set xs \<and> swapGroupOf (payload u) = Some g \<and> idOf u \<in> set (planGasAttribution H xs))) \<and>
    (\<forall>u\<in>set xs. idOf u \<in> set (planGasAttribution H xs) \<longrightarrow> isTaxableLine H (payload u) \<and>
      (\<forall>v\<in>set xs. swapGroupOf (payload u) \<noteq> None \<and> swapGroupOf (payload v) = swapGroupOf (payload u) \<and>
         isTaxableLine H (payload v) \<and> directionOf (payload v) = IN \<longrightarrow> directionOf (payload u) = IN)) \<and>
    (\<forall>u\<in>set xs. isTaxableLine H (payload u) \<and> swapGroupOf (payload u) = None \<longrightarrow> idOf u \<in> set (planGasAttribution H xs))"
proof (intro conjI ballI allI impI; (elim conjE)?)
  fix t g assume t: "t \<in> set xs" "isTaxableLine H (payload t)" "swapGroupOf (payload t) = Some g"
  obtain u where u: "gas_choice H xs g = Some u" using gas_choice_exists [OF t] by auto
  have "idOf v \<in> set (planGasAttribution H xs) \<longleftrightarrow> v = u" if "v \<in> set xs" "swapGroupOf (payload v) = Some g" for v
    using gas_target_in_group [OF assms that] u by auto
  moreover have "u \<in> set xs" "swapGroupOf (payload u) = Some g" using gas_choice_leg [OF u] by auto
  ultimately show "\<exists>!u. u \<in> set xs \<and> swapGroupOf (payload u) = Some g \<and> idOf u \<in> set (planGasAttribution H xs)"
    by blast
next
  fix u assume u: "u \<in> set xs" "idOf u \<in> set (planGasAttribution H xs)"
  obtain w where "w \<in> set xs" "idOf w = idOf u" "isTaxableLine H (payload w)" using gas_target_taxable [OF u(2)] by blast
  then show "isTaxableLine H (payload u)" using distinct_map_inj_on [OF assms] u by metis
  fix v assume v: "v \<in> set xs" "swapGroupOf (payload u) \<noteq> None" "swapGroupOf (payload v) = swapGroupOf (payload u)"
    "isTaxableLine H (payload v)" "directionOf (payload v) = IN"
  then obtain g where g: "swapGroupOf (payload u) = Some g" by auto
  have "gas_choice H xs g = Some u" using gas_target_in_group [OF assms u(1) g] u(2) by simp
  moreover have "gas_leg H g IN v" using v g by (simp add: gas_leg_def)
  ultimately show "directionOf (payload u) = IN"
    using find_None [of "gas_leg H g IN" xs] find_Some [of "gas_leg H g IN" xs u] v(1)
    by (auto simp: gas_choice_Some gas_leg_def)
next
  fix u assume "u \<in> set xs" "isTaxableLine H (payload u)" "swapGroupOf (payload u) = None"
  then show "idOf u \<in> set (planGasAttribution H xs)" by (auto simp: plan_gas_set)
qed

lemma sample_taxable: "isTaxableLine std_host (payload sample_buy)" "swapGroupOf (payload sample_buy) = Some ''s''"
  by code_simp+

theorem gas_charged_once_witness:
  "\<exists>!u. u \<in> set sample_ledger \<and> swapGroupOf (payload u) = Some ''s'' \<and> idOf u \<in> set (planGasAttribution std_host sample_ledger)"
  using gas_charged_once [OF sample.distinct_ids, THEN conjunct1, of std_host] sample_taxable
  by (auto simp: sample_ledger_def)

text \<open>C6. Holdings never go negative: at the end of any ledger every asset's quantity is at least
  zero, and the holdings the engine publishes are exactly the assets with a positive quantity, each
  under its own key.\<close>

theorem holdings_positive:
  assumes "decimal_laws H" "distinct (map idOf events)"
  shows "(\<forall>k c. mget (snd (foldCostBasis H events prices)) k = Some c \<longrightarrow> 0 \<le> qty c) \<and>
    (\<forall>k h. mget (computeHoldingsCostBasis H events prices) k = Some h \<longleftrightarrow>
      (\<exists>c. mget (snd (foldCostBasis H events prices)) k = Some c \<and> 0 < qty c \<and>
        h = \<lparr>assetKey = k, h_qty = fixed H (qty c), h_avgCost = fixed H (avgCost c),
             h_totalCost = fixed H (rmul H (qty c) (avgCost c))\<rparr>))"
proof -
  have dl: "distinct_ledger events" using assms by (simp add: distinct_ledger_def)
  have cells: "snd (foldCostBasis H events prices) = cells (run_fold H events prices)"
    by (simp add: foldCostBasis_def Let_def)
  have "\<forall>k c. mget (snd (foldCostBasis H events prices)) k = Some c \<longrightarrow> 0 \<le> qty c"
    using distinct_ledger.engine_qty_ok [OF dl assms(1), of prices] by (simp add: cells qty_ok_def)
  moreover have "mget (computeHoldingsCostBasis H events prices) k = Some h \<longleftrightarrow>
      (\<exists>c. mget (snd (foldCostBasis H events prices)) k = Some c \<and> 0 < qty c \<and>
        h = \<lparr>assetKey = k, h_qty = fixed H (qty c), h_avgCost = fixed H (avgCost c),
             h_totalCost = fixed H (rmul H (qty c) (avgCost c))\<rparr>)" for k h
    unfolding cells computeHoldingsCostBasis_def holdings_fold [OF run_cells_distinct [of H events prices]]
    by (auto split: option.splits)
  ultimately show ?thesis by blast
qed

theorem holdings_positive_witness:
  "case mget (snd (foldCostBasis std_host sample_ledger None)) ''10:NATIVE:native:'' of Some c \<Rightarrow> 0 \<le> qty c | None \<Rightarrow> False"
proof -
  have "mget (cells (foldl (fold_step std_host [(''g'', \<lparr>outId = ''b'', inId = ''c''\<rparr>)] None []) (initial_state [])
     [sample_buy, sample_out, sample_in, sample_sell])) ''10:NATIVE:native:'' \<noteq> None"
    by code_simp
  then obtain c where c: "mget (snd (foldCostBasis std_host sample_ledger None)) ''10:NATIVE:native:'' = Some c"
    unfolding not_None_eq by (simp only: foldCostBasis_def Let_def snd_conv sample_run_fold) blast
  from holdings_positive [OF std.decimal_laws_axioms sample.distinct_ids, THEN conjunct1, rule_format, OF c]
  show ?thesis by (simp only: c option.case)
qed

end
