(* ===== verification/Estimate_Properties.thy ===== *)
theory Estimate_Properties
  imports Estimate CostBasis_Properties
begin

text \<open>
  The estimate on top of the cost engine: it always answers for a supported country, its totals
  are the year's realized gains, and every event it leaves out of the totals is reported. The
  lemmas first describe the tally for any readable entries, then show that every result of the
  engine is readable and carries a reason the estimate knows.
\<close>

section \<open>The tally\<close>

definition entry_reads :: "host \<Rightarrow> frontend_cost_basis \<Rightarrow> bool" where
  "entry_reads H e \<longleftrightarrow> (\<forall>p. f_proceeds e = Some p \<longrightarrow> decFinite H (VStr p) \<noteq> None) \<and>
     (\<forall>p. f_realizedPnl e = Some p \<longrightarrow> decFinite H (VStr p) \<noteq> None)"

definition rows_with :: "(frontend_cost_basis \<Rightarrow> bool) \<Rightarrow> scoped_event list \<Rightarrow> scoped_event list" where
  "rows_with P rows = filter (\<lambda>row. case s_entry row of None \<Rightarrow> False | Some e \<Rightarrow> P e) rows"

text \<open>The disposals that count, and the gain each one reports.\<close>

definition counts :: "frontend_cost_basis \<Rightarrow> bool" where
  "counts e \<longleftrightarrow> \<not> isUnresolvedDisposal e \<and> \<not> f_excluded e \<and> f_direction e = OUT \<and> f_realizedPnl e \<noteq> None"

definition row_pnl :: "host \<Rightarrow> scoped_event \<Rightarrow> rat" where
  "row_pnl H row = the (decFinite H (VStr (the (f_realizedPnl (the (s_entry row))))))"

definition row_proceeds :: "host \<Rightarrow> scoped_event \<Rightarrow> rat" where
  "row_proceeds H row = the (decFinite H (VStr (the (f_proceeds (the (s_entry row))))))"

definition row_known :: "scoped_event \<Rightarrow> (taxable_transaction \<times> decimal \<times> frontend_cost_basis) list" where
  "row_known row = (case (s_entry row, s_amount row) of
     (Some e, Some a) \<Rightarrow> if f_excluded e then [] else [(s_transaction row, a, e)] | _ \<Rightarrow> [])"

lemma d_read_finite: "decFinite H (VStr p) = Some v \<Longrightarrow> d_read H p = Inr (DFin v)"
  by (auto simp: d_read_def decFinite_def split: option.splits decimal.splits)

lemma tally_money_value:
  assumes "entry_reads H e"
  shows "tally_money H e (DFin T, DFin U) =
    Inr (DFin (if counts e then rplus H T (the (decFinite H (VStr (the (f_realizedPnl e))))) else T),
         DFin (if isUnresolvedDisposal e \<and> f_proceeds e \<noteq> None
               then rplus H U (the (decFinite H (VStr (the (f_proceeds e))))) else U))"
  using assms
  by (auto simp: tally_money_def counts_def entry_reads_def d_read_finite split: option.splits)

lemma tally_rows_value:
  assumes "\<forall>row\<in>set rows. \<forall>e. s_entry row = Some e \<longrightarrow> entry_reads H e" "total s = DFin T" "unresolved s = DFin U"
  shows "tally_rows H s rows = Inr \<lparr>
    total = DFin (foldl (rplus H) T (map (row_pnl H) (rows_with counts rows))),
    unresolved = DFin (foldl (rplus H) U (map (row_proceeds H) (rows_with (\<lambda>e. isUnresolvedDisposal e \<and> f_proceeds e \<noteq> None) rows))),
    known = known s @ concat (map row_known rows),
    excludedIds = excludedIds s @ map s_eventId (rows_with isPriceExcluded rows),
    reviewIds = reviewIds s @ map s_eventId (rows_with isUnresolvedDisposal rows),
    nonTaxableIds = nonTaxableIds s @ map s_eventId (rows_with isNonTaxableExcluded rows)\<rparr>"
  using assms
proof (induction rows arbitrary: s T U)
  case (Cons row rows)
  show ?case
  proof (cases "s_entry row")
    case None
    then show ?thesis using Cons by (simp add: tally_row_def rows_with_def row_known_def)
  next
    case (Some e)
    then have reads: "entry_reads H e" using Cons.prems by simp
    let ?T = "if counts e then rplus H T (row_pnl H row) else T"
    let ?U = "if isUnresolvedDisposal e \<and> f_proceeds e \<noteq> None then rplus H U (row_proceeds H row) else U"
    let ?s = "s\<lparr>excludedIds := excludedIds s @ (if isPriceExcluded e then [s_eventId row] else []),
         nonTaxableIds := nonTaxableIds s @ (if isNonTaxableExcluded e then [s_eventId row] else []),
         reviewIds := reviewIds s @ (if isUnresolvedDisposal e then [s_eventId row] else []),
         total := DFin ?T, unresolved := DFin ?U, known := known s @ row_known row\<rparr>"
    have "tally_row H s row = Inr ?s"
      unfolding tally_row_def Some option.case Cons.prems(2,3) tally_money_value [OF reads] rbind.simps prod.case
        row_known_def row_pnl_def row_proceeds_def option.sel
      by (cases "s_amount row") simp_all
    moreover have "tally_rows H ?s rows = Inr \<lparr>
      total = DFin (foldl (rplus H) ?T (map (row_pnl H) (rows_with counts rows))),
      unresolved = DFin (foldl (rplus H) ?U (map (row_proceeds H) (rows_with (\<lambda>e. isUnresolvedDisposal e \<and> f_proceeds e \<noteq> None) rows))),
      known = known ?s @ concat (map row_known rows),
      excludedIds = excludedIds ?s @ map s_eventId (rows_with isPriceExcluded rows),
      reviewIds = reviewIds ?s @ map s_eventId (rows_with isUnresolvedDisposal rows),
      nonTaxableIds = nonTaxableIds ?s @ map s_eventId (rows_with isNonTaxableExcluded rows)\<rparr>"
      by (rule Cons.IH) (use Cons.prems in auto)
    ultimately show ?thesis by (simp add: rows_with_def Some)
  qed
qed (simp add: rows_with_def)

section \<open>The engine's results in the estimate\<close>

text \<open>The reasons the engine gives are the ones the estimate sorts by, and no reason is in both
  of its lists.\<close>

definition known_reason :: "string \<Rightarrow> bool" where
  "known_reason r \<longleftrightarrow> r \<in> {''price_unknown'', ''no_fiat_value'', ''no_quantity'', ''internal_transfer_unlinked'',
     ''classification_INTERNAL_TRANSFER'', ''classification_SPAM'', ''classification_UNKNOWN''}"

lemma known_reasons [simp]:
  "known_reason ''price_unknown''" "known_reason ''no_fiat_value''" "known_reason ''no_quantity''"
  "known_reason ''internal_transfer_unlinked''" "known_reason ''classification_INTERNAL_TRANSFER''"
  by (simp_all add: known_reason_def)

lemma known_class: "c \<in> set NON_TAXABLE_CLASSES \<Longrightarrow> known_reason (''classification_'' @ c)"
proof -
  assume "c \<in> set NON_TAXABLE_CLASSES"
  then have "c = ''SPAM'' \<or> c = ''UNKNOWN'' \<or> c = ''INTERNAL_TRANSFER''" by (simp add: NON_TAXABLE_CLASSES_def)
  then show ?thesis by (elim disjE) (simp_all add: known_reason_def)
qed

lemma exclusion_known: "exclusionReason H p = Some r \<Longrightarrow> known_reason r"
  using known_class [of "js_String (coalesce (pget p ''classification'') (VStr []))"]
  unfolding exclusionReason_def Let_def by (simp only: split: if_splits option.splits) (auto simp del: append_Cons append_Nil)

definition readable :: "host \<Rightarrow> cost_result \<Rightarrow> bool" where
  "readable H r \<longleftrightarrow> entry_reads H (frontend_view r) \<and> (excluded r \<longrightarrow> (\<exists>e. excludeReason r = Some e \<and> known_reason e))"

lemma readable_review [simp]: "readable H (r\<lparr>review := v\<rparr>) = readable H r"
  by (simp add: readable_def entry_reads_def frontend_view_def)

lemma readable_moved [simp]:
  "readable H (moved_result i d)" "readable H ((moved_result i d)\<lparr>bridgeMove := m\<rparr>)"
  "readable H ((moved_result i d)\<lparr>bridgeMove := m, costBasis := c\<rparr>)"
  by (simp_all add: readable_def entry_reads_def frontend_view_def moved_result_def base_result_def known_reason_def)

lemma readable_set_result:
  "results st' = results st \<Longrightarrow> readable H r \<Longrightarrow>
   \<exists>r'. results (set_result i r st') = mput i r' (results st) \<and> readable H r'"
  by (auto simp: set_result_def)

context decimal_laws begin

lemma fixed_reads: "decFinite H (VStr (fixed H (decRound H x))) = Some (decRound H x)"
  by (simp add: decFinite_def new_fixed_round)

lemma fiat_reads: "fiatOf H p = Some fiat \<Longrightarrow> decFinite H (VStr (fixed H fiat)) = Some fiat"
  by (auto simp: fiatOf_def decFinite_def Let_def new_fixed_new split: if_splits option.splits decimal.splits)

lemma step_readable:
  assumes use: "pairs_usable H pairs t"
  shows "\<exists>r. results (fold_step H pairs prices tg st t) = mput (idOf t) r (results st) \<and> readable H r"
proof (cases "kind_of H pairs t")
  case (BridgeLeg g pr)
  with use obtain q where "quantityOf H (payload t) = Some q" by (rule bridge_quantity)
  then show ?thesis
    by (auto simp: fold_step_kind BridgeLeg leg_defs split: direction.split option.split)
next
  case ExcludedLeg
  have "readable H ((base_result i d)\<lparr>excluded := True, excludeReason := Some
      (case exclusionReason H (payload t) of Some r \<Rightarrow> r | None \<Rightarrow> if positive_qty H (payload t) then ''no_fiat_value'' else ''no_quantity'')\<rparr>)"
    for i d
    using exclusion_known [of H "payload t"]
    by (auto simp: readable_def entry_reads_def frontend_view_def base_result_def known_reason_def split: option.split)
  then show ?thesis
    unfolding fold_step_kind ExcludedLeg leg_kind.case excluded_leg_def set_result_def Let_def by (intro exI conjI) simp_all
next
  case (TaxableLeg q fiat)
  then have fiat: "decFinite H (VStr (fixed H fiat)) = Some fiat"
    by (intro fiat_reads) (auto simp: kind_of_def split: option.splits if_splits)
  have "readable H ((base_result i IN)\<lparr>gasFiat := gf, costBasis := c\<rparr>)" for i gf c
    by (simp add: readable_def entry_reads_def frontend_view_def base_result_def)
  moreover have "readable H ((base_result i OUT)\<lparr>gasFiat := gf, costBasis := c,
      proceeds := Some (fixed H (case ga of None \<Rightarrow> fiat | Some g \<Rightarrow> rminus H fiat g)),
      realizedPnl := Some (fixed H (rminus H x y)), pnlRatio := pr\<rparr>)" for i gf c ga x y pr
    by (simp add: readable_def entry_reads_def frontend_view_def base_result_def rminus_def fixed_reads fiat split: option.split)
  ultimately show ?thesis
    by (cases "directionOf (payload t)"; simp only: fold_step_kind TaxableLeg leg_kind.case taxable_leg_def
        acquisition_leg_def disposal_leg_def Let_def direction.case)
       (rule readable_set_result; simp add: set_cell_def split del: if_split)+
qed

end

text \<open>What the services hand to the estimate: the engine's results over the whole history.\<close>

definition engine_basis :: "host \<Rightarrow> taxable_transaction list \<Rightarrow> native_prices option \<Rightarrow> (string, frontend_cost_basis) jmap" where
  "engine_basis H events prices = map (\<lambda>(k, r). (k, frontend_view r)) (computeCostBasis H events prices)"

lemma engine_basis_get: "mget (engine_basis H events prices) k = map_option frontend_view (mget (computeCostBasis H events prices) k)"
  by (simp add: engine_basis_def map_of_map)

locale estimate_ledger = distinct_ledger H events + decimal_laws H
  for H :: host and events :: "taxable_transaction list"
begin

lemma engine_readable: "mget (computeCostBasis H events prices) k = Some r \<Longrightarrow> readable H r"
proof -
  have "\<forall>k r. mget (results (run_fold H events prices)) k = Some r \<longrightarrow> readable H r"
    unfolding run_fold_def Let_def
  proof (rule foldl_invariant)
    fix st :: fold_state and t assume "t \<in> set (ordered_events H events)" and st: "\<forall>k r. mget (results st) k = Some r \<longrightarrow> readable H r"
    then have "pairs_usable H (scan_pairs (scanBridgePairs H events)) t" using usable_ordered by blast
    from step_readable [OF this, of prices _ st] st
    show "\<forall>k r. mget (results (fold_step H (scan_pairs (scanBridgePairs H events)) prices
        (case prices of None \<Rightarrow> [] | Some _ \<Rightarrow> planGasAttribution H (ordered_events H events)) st t)) k = Some r \<longrightarrow> readable H r"
      by (metis map_of_update option.inject)
  qed (simp add: initial_state_def)
  moreover assume "mget (computeCostBasis H events prices) k = Some r"
  ultimately show "readable H r" by (auto simp: engine_get split: if_splits)
qed

lemma basis_total:
  assumes "t \<in> set events"
  shows "\<exists>r. mget (computeCostBasis H events prices) (idOf t) = Some r"
proof -
  have "idOf t \<in> fst ` set (results (run_fold H events prices))" using assms by (simp only: engine_keys imageI)
  then have "mget (results (run_fold H events prices)) (idOf t) \<noteq> None" by (simp only: map_of_eq_None_iff) simp
  then show ?thesis by (auto simp: engine_get)
qed

end

text \<open>Every excluded entry of the engine is in exactly one of the two classes.\<close>

lemma reason_sorted:
  assumes "known_reason r"
  shows "(r \<in> set PRICE_EXCLUDE_REASONS) \<noteq> (startsWith r ''classification_'' \<or> r \<in> set NON_TAXABLE_EXCLUDE_REASONS)"
proof -
  have "r = ''price_unknown'' \<or> r = ''no_fiat_value'' \<or> r = ''no_quantity'' \<or> r = ''internal_transfer_unlinked'' \<or>
     r = ''classification_INTERNAL_TRANSFER'' \<or> r = ''classification_SPAM'' \<or> r = ''classification_UNKNOWN''"
    using assms by (simp only: known_reason_def insert_iff empty_iff simp_thms)
  then show ?thesis
    by (elim disjE) (simp_all add: PRICE_EXCLUDE_REASONS_def NON_TAXABLE_EXCLUDE_REASONS_def startsWith_def)
qed

lemma excluded_sorted:
  assumes "readable H r"
  shows "excluded r \<longleftrightarrow> isPriceExcluded (frontend_view r) \<noteq> isNonTaxableExcluded (frontend_view r)"
    "\<not> excluded r \<Longrightarrow> \<not> isPriceExcluded (frontend_view r) \<and> \<not> isNonTaxableExcluded (frontend_view r)"
    "excluded r \<Longrightarrow> \<not> isUnresolvedDisposal (frontend_view r)"
proof -
  have v: "f_excluded (frontend_view r) = excluded r" by (simp add: frontend_view_def)
  show "excluded r \<longleftrightarrow> isPriceExcluded (frontend_view r) \<noteq> isNonTaxableExcluded (frontend_view r)"
  proof (cases "excluded r")
    case True
    then obtain e where "excludeReason r = Some e" "known_reason e" using assms by (auto simp: readable_def)
    then have "reason_of (frontend_view r) = e" by (simp add: reason_of_def frontend_view_def)
    then show ?thesis
      using reason_sorted [OF \<open>known_reason e\<close>] True by (simp only: isPriceExcluded_def isNonTaxableExcluded_def v) blast
  qed (simp add: isPriceExcluded_def isNonTaxableExcluded_def v)
qed (simp_all add: isPriceExcluded_def isNonTaxableExcluded_def isUnresolvedDisposal_def frontend_view_def)

lemma judgments_ok:
  "\<forall>(t, _)\<in>set ks. occurredMs H t \<noteq> None \<Longrightarrow>
   \<exists>js. judgments_of H code lbl ks = Inr js \<and> map j_eventId js = map (idOf \<circ> fst) ks"
proof (induction ks)
  case (Cons k ks)
  obtain t a e where k: "k = (t, a, e)" by (cases k)
  then obtain ms where "occurredMs H t = Some ms" using Cons.prems by auto
  then have "\<exists>j. judgmentOf H t a e code lbl = Inr j \<and> j_eventId j = idOf t"
    by (simp add: judgmentOf_def Let_def idOf_def)
  moreover obtain js where "judgments_of H code lbl ks = Inr js" "map j_eventId js = map (idOf \<circ> fst) ks"
    using Cons by auto
  ultimately show ?case by (auto simp: k)
qed simp

definition entry_of :: "host \<Rightarrow> taxable_transaction list \<Rightarrow> native_prices option \<Rightarrow> taxable_transaction \<Rightarrow> frontend_cost_basis" where
  "entry_of H events prices t = frontend_view (the (mget (computeCostBasis H events prices) (idOf t)))"

definition year_events :: "host \<Rightarrow> taxable_transaction list \<Rightarrow> int \<Rightarrow> taxable_transaction list" where
  "year_events H events y = filter (in_year H y) events"

definition pnl_of :: "host \<Rightarrow> frontend_cost_basis \<Rightarrow> rat" where
  "pnl_of H e = the (decFinite H (VStr (the (f_realizedPnl e))))"

definition year_gain :: "host \<Rightarrow> taxable_transaction list \<Rightarrow> native_prices option \<Rightarrow> int \<Rightarrow> rat" where
  "year_gain H events prices y = foldl (rplus H) 0
     (map (\<lambda>t. pnl_of H (entry_of H events prices t))
       (filter (\<lambda>t. counts (entry_of H events prices t)) (year_events H events y)))"

lemma eventIdOf_idOf: "eventIdOf = idOf"
  by (rule ext) (simp add: eventIdOf_def idOf_def)

lemma filter_map_cong: "(\<And>x. x \<in> set xs \<Longrightarrow> P (f x) = Q x) \<Longrightarrow> filter P (map f xs) = map f (filter Q xs)"
  by (induction xs) auto

context estimate_ledger begin

lemma scope_entry:
  "t \<in> set events \<Longrightarrow> s_entry (scope_event H (engine_basis H events prices) t) = Some (entry_of H events prices t)"
  using basis_total [of t prices] by (auto simp: scope_event_def engine_basis_get eventIdOf_idOf entry_of_def)

lemma entry_readable: "t \<in> set events \<Longrightarrow> \<exists>r. readable H r \<and> entry_of H events prices t = frontend_view r"
  using basis_total [of t prices] engine_readable unfolding entry_of_def by (metis option.sel)

lemma rows_with_scoped:
  "rows_with P (scoped H events y (engine_basis H events prices)) =
   map (scope_event H (engine_basis H events prices)) (filter (\<lambda>t. P (entry_of H events prices t)) (year_events H events y))"
  unfolding rows_with_def scoped_def year_events_def by (rule filter_map_cong) (simp add: scope_entry)

lemma tally_engine:
  obtains U ks where
    "tally_rows H empty_tally (scoped H events y (engine_basis H events prices)) = Inr \<lparr>
       total = DFin (year_gain H events prices y), unresolved = DFin U, known = ks,
       excludedIds = map idOf (filter (\<lambda>t. isPriceExcluded (entry_of H events prices t)) (year_events H events y)),
       reviewIds = map idOf (filter (\<lambda>t. isUnresolvedDisposal (entry_of H events prices t)) (year_events H events y)),
       nonTaxableIds = map idOf (filter (\<lambda>t. isNonTaxableExcluded (entry_of H events prices t)) (year_events H events y))\<rparr>"
    "\<forall>(t, _)\<in>set ks. occurredMs H t \<noteq> None"
proof -
  let ?rows = "scoped H events y (engine_basis H events prices)"
  have mem: "\<exists>t\<in>set events. row = scope_event H (engine_basis H events prices) t \<and> occurredMs H t \<noteq> None" if "row \<in> set ?rows" for row
    using that by (auto simp: scoped_def in_year_def split: option.splits)
  have reads: "\<forall>row\<in>set ?rows. \<forall>e. s_entry row = Some e \<longrightarrow> entry_reads H e"
    using mem scope_entry entry_readable by (metis option.inject readable_def)
  have pnl: "row_pnl H (scope_event H (engine_basis H events prices) t) = pnl_of H (entry_of H events prices t)"
    if "t \<in> set events" for t
    using that by (simp add: row_pnl_def scope_entry pnl_of_def)
  have ids: "s_eventId (scope_event H b t) = idOf t" for b t
    by (simp add: scope_event_def eventIdOf_idOf)
  have tally: "tally_rows H empty_tally ?rows = Inr \<lparr>
    total = DFin (foldl (rplus H) 0 (map (row_pnl H) (rows_with counts ?rows))),
    unresolved = DFin (foldl (rplus H) 0 (map (row_proceeds H) (rows_with (\<lambda>e. isUnresolvedDisposal e \<and> f_proceeds e \<noteq> None) ?rows))),
    known = known empty_tally @ concat (map row_known ?rows),
    excludedIds = excludedIds empty_tally @ map s_eventId (rows_with isPriceExcluded ?rows),
    reviewIds = reviewIds empty_tally @ map s_eventId (rows_with isUnresolvedDisposal ?rows),
    nonTaxableIds = nonTaxableIds empty_tally @ map s_eventId (rows_with isNonTaxableExcluded ?rows)\<rparr>"
    by (rule tally_rows_value [OF reads]) (simp_all add: empty_tally_def)
  have pnls: "map (row_pnl H) (rows_with counts ?rows) =
      map (\<lambda>t. pnl_of H (entry_of H events prices t)) (filter (\<lambda>t. counts (entry_of H events prices t)) (year_events H events y))"
    unfolding rows_with_scoped by (auto simp: pnl year_events_def)
  have gain: "foldl (rplus H) 0 (map (row_pnl H) (rows_with counts ?rows)) = year_gain H events prices y"
    unfolding year_gain_def pnls ..
  have dated: "\<forall>(t, _)\<in>set (concat (map row_known ?rows)). occurredMs H t \<noteq> None"
    using mem by (fastforce simp: row_known_def scope_event_def split: option.splits if_splits)
  have buckets: "map s_eventId (rows_with P ?rows) = map idOf (filter (\<lambda>t. P (entry_of H events prices t)) (year_events H events y))" for P
    unfolding rows_with_scoped by (simp add: ids)
  show thesis
    by (rule that [OF _ dated], unfold tally gain buckets) (simp add: empty_tally_def)
qed

lemma estimate_engine:
  assumes "getCountryRule country = Some meta" "decFinite H (VStr (r_rate meta)) = Some rate"
  obtains e where "calculateFrontendEstimate H events country y (engine_basis H events prices) = Inr e"
    "taxableGains e = fixed H (max (year_gain H events prices y) 0)"
    "lossCarryforward e = fixed H (max (- year_gain H events prices y) 0)"
    "estimatedCharge e = fixed H (rmul H (max (year_gain H events prices y) 0) rate)"
    "excludedEventIds e = sadd_all
       (map idOf (filter (\<lambda>t. isPriceExcluded (entry_of H events prices t)) (year_events H events y)) @
        map idOf (filter (\<lambda>t. isUnresolvedDisposal (entry_of H events prices t)) (year_events H events y)) @
        map idOf (filter (\<lambda>t. isNonTaxableExcluded (entry_of H events prices t)) (year_events H events y))) []"
proof (rule tally_engine [of y prices])
  fix U ks assume t: "tally_rows H empty_tally (scoped H events y (engine_basis H events prices)) = Inr \<lparr>
       total = DFin (year_gain H events prices y), unresolved = DFin U, known = ks,
       excludedIds = map idOf (filter (\<lambda>t. isPriceExcluded (entry_of H events prices t)) (year_events H events y)),
       reviewIds = map idOf (filter (\<lambda>t. isUnresolvedDisposal (entry_of H events prices t)) (year_events H events y)),
       nonTaxableIds = map idOf (filter (\<lambda>t. isNonTaxableExcluded (entry_of H events prices t)) (year_events H events y))\<rparr>"
    "\<forall>(t, _)\<in>set ks. occurredMs H t \<noteq> None"
  obtain js where "judgments_of H (r_code meta) (r_label meta) ks = Inr js" using judgments_ok [OF t(2)] by blast
  moreover have "d_read H (r_rate meta) = Inr (DFin rate)" using assms(2) by (rule d_read_finite)
  moreover have "\<bar>min g 0\<bar> = max (- g) 0" for g :: rat by (simp add: min_def max_def)
  ultimately have calc: "\<exists>e. calculateFrontendEstimate H events country y (engine_basis H events prices) = Inr e \<and>
    taxableGains e = fixed H (max (year_gain H events prices y) 0) \<and>
    lossCarryforward e = fixed H (max (- year_gain H events prices y) 0) \<and>
    estimatedCharge e = fixed H (rmul H (max (year_gain H events prices y) 0) rate) \<and>
    excludedEventIds e = sadd_all
       (map idOf (filter (\<lambda>t. isPriceExcluded (entry_of H events prices t)) (year_events H events y)) @
        map idOf (filter (\<lambda>t. isUnresolvedDisposal (entry_of H events prices t)) (year_events H events y)) @
        map idOf (filter (\<lambda>t. isNonTaxableExcluded (entry_of H events prices t)) (year_events H events y))) []"
    using assms(1) t(1) by (simp add: calculateFrontendEstimate_def fixed_def Let_def)
  then show thesis using that by blast
qed

end

section \<open>Properties\<close>

text \<open>C7. The estimate of a year always answers for a supported country and its figures are those of the
  year's disposals: the taxable gain is the sum of the gains the engine reports for the disposals of
  the year whose cost is known, floored at zero; what falls below zero is the loss carried forward,
  so at most one of the two is positive; and the charge is the taxable gain at the country's rate.\<close>

theorem estimate_totals:
  assumes "decimal_laws H" "distinct (map idOf events)"
    and "getCountryRule country = Some meta" "decFinite H (VStr (r_rate meta)) = Some rate"
  shows "\<exists>e. calculateFrontendEstimate H events country y (engine_basis H events prices) = Inr e \<and>
    taxableGains e = fixed H (max (year_gain H events prices y) 0) \<and>
    lossCarryforward e = fixed H (max (- year_gain H events prices y) 0) \<and>
    estimatedCharge e = fixed H (rmul H (max (year_gain H events prices y) 0) rate)"
proof -
  have el: "estimate_ledger H events" using assms by (simp add: estimate_ledger_def distinct_ledger_def)
  show ?thesis by (rule estimate_ledger.estimate_engine [OF el assms(3,4), of y prices]) blast
qed

text \<open>Whatever the totals leave out is listed. The flat list of excluded events holds exactly the
  year's events that the engine excluded or whose disposal cost is unresolved, each once, and every
  event the engine excluded is in exactly one of the two buckets for exclusions.\<close>

theorem estimate_reports_exclusions:
  assumes "decimal_laws H" "distinct (map idOf events)"
    and "getCountryRule country = Some meta" "decFinite H (VStr (r_rate meta)) = Some rate"
    and "calculateFrontendEstimate H events country y (engine_basis H events prices) = Inr e"
  shows "set (excludedEventIds e) = idOf ` {t \<in> set (year_events H events y).
      f_excluded (entry_of H events prices t) \<or> isUnresolvedDisposal (entry_of H events prices t)} \<and>
    distinct (excludedEventIds e) \<and>
    (\<forall>t\<in>set (year_events H events y). f_excluded (entry_of H events prices t) \<longleftrightarrow>
      isPriceExcluded (entry_of H events prices t) \<noteq> isNonTaxableExcluded (entry_of H events prices t))"
proof -
  have el: "estimate_ledger H events" using assms by (simp add: estimate_ledger_def distinct_ledger_def)
  let ?E = "entry_of H events prices"
  have sorted: "(f_excluded (?E t) \<longleftrightarrow> isPriceExcluded (?E t) \<noteq> isNonTaxableExcluded (?E t)) \<and>
      (f_excluded (?E t) \<longleftrightarrow> isPriceExcluded (?E t) \<or> isNonTaxableExcluded (?E t))"
    if t: "t \<in> set (year_events H events y)" for t
  proof -
    have "t \<in> set events" using t by (simp add: year_events_def)
    then obtain r where r: "readable H r" "?E t = frontend_view r" using estimate_ledger.entry_readable [OF el] by blast
    have "f_excluded (frontend_view r) = excluded r" by (simp add: frontend_view_def)
    then show ?thesis using excluded_sorted(1,2) [OF r(1)] unfolding r(2) by blast
  qed
  obtain e' where e': "calculateFrontendEstimate H events country y (engine_basis H events prices) = Inr e'"
    "excludedEventIds e' = sadd_all
       (map idOf (filter (\<lambda>t. isPriceExcluded (?E t)) (year_events H events y)) @
        map idOf (filter (\<lambda>t. isUnresolvedDisposal (?E t)) (year_events H events y)) @
        map idOf (filter (\<lambda>t. isNonTaxableExcluded (?E t)) (year_events H events y))) []"
    by (rule estimate_ledger.estimate_engine [OF el assms(3,4), of y prices])
  have "e = e'" using assms(5) e'(1) by simp
  then have ids: "set (excludedEventIds e) = idOf ` {t \<in> set (year_events H events y).
      isPriceExcluded (?E t) \<or> isUnresolvedDisposal (?E t) \<or> isNonTaxableExcluded (?E t)}"
    "distinct (excludedEventIds e)"
    using e'(2) by auto
  have "{t \<in> set (year_events H events y). isPriceExcluded (?E t) \<or> isUnresolvedDisposal (?E t) \<or> isNonTaxableExcluded (?E t)} =
      {t \<in> set (year_events H events y). f_excluded (?E t) \<or> isUnresolvedDisposal (?E t)}"
    using sorted by blast
  then show ?thesis using ids sorted by simp
qed

lemma de_rule: "getCountryRule ''DE'' = Some (snd (rules DE))" "decFinite std_host (VStr (r_rate (snd (rules DE)))) = Some (26375 / 100000)"
  by code_simp+

theorem estimate_totals_witness:
  "\<exists>e. calculateFrontendEstimate std_host sample_ledger ''DE'' 1970 (engine_basis std_host sample_ledger None) = Inr e \<and>
    taxableGains e = fixed std_host (max (year_gain std_host sample_ledger None 1970) 0)"
  using estimate_totals [OF std.decimal_laws_axioms sample.distinct_ids de_rule, of 1970 None] by blast

theorem estimate_reports_exclusions_witness:
  "\<exists>e. calculateFrontendEstimate std_host sample_ledger ''DE'' 1970 (engine_basis std_host sample_ledger None) = Inr e \<and>
    set (excludedEventIds e) = idOf ` {t \<in> set (year_events std_host sample_ledger 1970).
      f_excluded (entry_of std_host sample_ledger None t) \<or> isUnresolvedDisposal (entry_of std_host sample_ledger None t)}"
proof -
  have el: "estimate_ledger std_host sample_ledger" by unfold_locales
  obtain e where e: "calculateFrontendEstimate std_host sample_ledger ''DE'' 1970 (engine_basis std_host sample_ledger None) = Inr e"
    by (rule estimate_ledger.estimate_engine [OF el de_rule, of 1970 None])
  show ?thesis
    by (intro exI [of _ e] conjI e estimate_reports_exclusions [OF std.decimal_laws_axioms sample.distinct_ids de_rule e, THEN conjunct1])
qed

interpretation sample_estimate: estimate_ledger std_host sample_ledger
  by unfold_locales

text \<open>The per-country summary: for events whose amounts are finite decimals the summary answers, its
  gain is the sum of the events' gains, and its tax is that gain floored at zero times the rate of the
  first event's country, so a total loss is never taxed.\<close>

theorem summary_totals:
  assumes "\<forall>e\<in>set events. decFinite H (VStr (gainLoss e)) \<noteq> None"
    and "\<forall>c. decFinite H (VStr (r_rate (snd (rules c)))) \<noteq> None"
  shows "\<exists>s rate. summarize H events = Inr s \<and>
    decFinite H (VStr (r_rate (snd (rules (case events of [] \<Rightarrow> KR | e # _ \<Rightarrow> ct_countryCode e))))) = Some rate \<and>
    totalGain s = fixed H (foldl (rplus H) 0 (map (\<lambda>e. the (decFinite H (VStr (gainLoss e)))) events)) \<and>
    estimatedTax s = fixed H (rmul H (max (foldl (rplus H) 0 (map (\<lambda>e. the (decFinite H (VStr (gainLoss e)))) events)) 0) rate)"
proof -
  have sum: "d_sum H (DFin a) ss = Inr (DFin (foldl (rplus H) a (map (\<lambda>s. the (decFinite H (VStr s))) ss)))"
    if "\<forall>s\<in>set ss. decFinite H (VStr s) \<noteq> None" for a ss
    using that by (induction ss arbitrary: a) (auto simp: d_read_finite)
  let ?c = "case events of [] \<Rightarrow> KR | e # _ \<Rightarrow> ct_countryCode e"
  obtain rate where "decFinite H (VStr (r_rate (snd (rules ?c)))) = Some rate" using assms(2) by blast
  then show ?thesis
    using sum [of "map gainLoss events" 0] assms(1) by (simp add: summarize_def Let_def d_read_finite fixed_def comp_def)
qed

definition sample_gains :: "calculated_tax_event list" where
  "sample_gains = [\<lparr>transactionId = ''a'', ct_countryCode = US, ruleVersion = ''v'', gainLoss = ''-3''\<rparr>,
     \<lparr>transactionId = ''b'', ct_countryCode = US, ruleVersion = ''v'', gainLoss = ''10.5''\<rparr>]"

lemma sample_gains_finite: "list_all (\<lambda>e. decFinite std_host (VStr (gainLoss e)) \<noteq> None) sample_gains"
  "decFinite std_host (VStr (r_rate (snd (rules KR)))) \<noteq> None" "decFinite std_host (VStr (r_rate (snd (rules US)))) \<noteq> None"
  by code_simp+

theorem summary_totals_witness:
  "\<exists>s. summarize std_host sample_gains = Inr s \<and>
    totalGain s = fixed std_host (foldl (rplus std_host) 0 (map (\<lambda>e. the (decFinite std_host (VStr (gainLoss e)))) sample_gains))"
proof -
  have "\<forall>c. decFinite std_host (VStr (r_rate (snd (rules c)))) \<noteq> None"
    using sample_gains_finite de_rule(2) by (intro allI) (case_tac c; simp)
  with summary_totals [of sample_gains std_host] sample_gains_finite(1) show ?thesis by (auto simp: list_all_iff)
qed

end
