(* ===== verification/TxRepository.thy ===== *)
theory TxRepository
  imports Host
begin

text \<open>
  The transaction ledger, \<open>indexer/transaction.repository.adapters.ts\<close>: the edit-preserving merge
  of a provider row onto a stored one, the planner of the superseded-row purge, the in-memory
  repository, and the per-user snapshot cache in front of it. A stored row is a record; the
  in-memory store is an insertion-ordered map from storage ids to rows, and the mutation of a
  stored object is a write to that map. \<open>randomUUID\<close> is the parameter \<open>uuid\<close>, given the ids in
  use.
\<close>

section \<open>Rows\<close>

record transaction_record =
  row_id :: string
  bindingId :: string
  txHash :: string
  row_eventType :: string
  chain :: string
  row_payload :: jobj
  row_occurredAt :: int

record indexed_transaction =
  i_txHash :: string
  i_chain :: string
  i_eventType :: string
  i_occurredAt :: int
  i_payload :: jobj

record emitted_leg =
  leg_id :: string
  leg_eventType :: string
  nettedLegIds :: "string list"

section \<open>The edit-preserving merge\<close>

definition isOverridden :: "jobj \<Rightarrow> bool" where
  "isOverridden p \<longleftrightarrow> \<not> nullish (pget p ''user_override'')"

definition mergeSavedPayload :: "jobj \<Rightarrow> jobj \<Rightarrow> jobj" where
  "mergeSavedPayload existing incoming =
     (let merged = pput ''_overrideHistory'' (coalesce (coalesce (pget existing ''_overrideHistory'') (pget incoming ''_overrideHistory'')) (VArr []))
           (pput ''_version'' (coalesce (coalesce (pget existing ''_version'') (pget incoming ''_version'')) (jint 1))
           (pput ''user_override'' (coalesce (pget existing ''user_override'') VNull) incoming))
      in if isOverridden existing
         then pput ''_anchorPayloadHash'' (pget existing ''_anchorPayloadHash'')
               (pput ''classification'' (pget existing ''classification'') merged)
         else merged)"

section \<open>The purge of superseded rows\<close>

record purge_plan =
  deleteIds :: "string list"
  carries :: "(string \<times> jobj) list"
  preserved :: "string list"

definition EMPTY_PURGE :: purge_plan where
  "EMPTY_PURGE = \<lparr>deleteIds = [], carries = [], preserved = []\<rparr>"

definition versionOf :: "jobj \<Rightarrow> jnum" where
  "versionOf p = js_Number (coalesce (pget p ''_version'') (jint 1))"

text \<open>The sign of \<open>x - y\<close>; \<open>NaN\<close> and zero are both falsy.\<close>

definition num_diff_sign :: "jnum \<Rightarrow> jnum \<Rightarrow> int" where
  "num_diff_sign x y = (case (x, y) of
     (JFin a, JFin b) \<Rightarrow> if a < b then - 1 else if b < a then 1 else 0
   | (JInf s, JInf t) \<Rightarrow> if s = t then 0 else if s then - 1 else 1
   | (JInf s, JFin _) \<Rightarrow> if s then - 1 else 1
   | (JFin _, JInf t) \<Rightarrow> if t then 1 else - 1
   | _ \<Rightarrow> 0)"

definition carrier_le :: "host \<Rightarrow> transaction_record \<Rightarrow> transaction_record \<Rightarrow> bool" where
  "carrier_le H a b =
     (let d = num_diff_sign (versionOf (row_payload b)) (versionOf (row_payload a))
      in if d \<noteq> 0 then d < 0 else localeCompare H (row_id a) (row_id b) \<le> 0)"

definition row_label :: "transaction_record \<Rightarrow> string" where
  "row_label row = txHash row @ ''#'' @ row_eventType row"

definition emit_leg :: "(string, string list) jmap \<times> string list \<Rightarrow> emitted_leg \<Rightarrow> (string, string list) jmap \<times> string list" where
  "emit_leg ea leg = (case ea of (emittedTypes, absorbed) \<Rightarrow>
     (mput (leg_id leg) (sadd (leg_eventType leg) (case mget emittedTypes (leg_id leg) of Some types \<Rightarrow> types | None \<Rightarrow> [])) emittedTypes,
      sadd_all (nettedLegIds leg) absorbed))"

record purge_scan =
  survivors :: "(string, transaction_record) jmap"
  staleByLeg :: "(string, transaction_record list) jmap"

definition scan_row :: "(string, string list) jmap \<Rightarrow> string list \<Rightarrow> purge_scan \<Rightarrow> transaction_record \<Rightarrow> purge_scan" where
  "scan_row emittedTypes absorbed s row =
     (case mget emittedTypes (txHash row) of
        Some types \<Rightarrow>
          if row_eventType row \<in> set types
          then (case mget (survivors s) (txHash row) of
                  None \<Rightarrow> s\<lparr>survivors := mput (txHash row) row (survivors s)\<rparr>
                | Some current \<Rightarrow> if str_compare (row_eventType row) (row_eventType current) < 0
                    then s\<lparr>survivors := mput (txHash row) row (survivors s)\<rparr> else s)
          else s\<lparr>staleByLeg := mput (txHash row)
                 ((case mget (staleByLeg s) (txHash row) of Some rs \<Rightarrow> rs | None \<Rightarrow> []) @ [row]) (staleByLeg s)\<rparr>
      | None \<Rightarrow>
          if txHash row \<notin> set absorbed then s
          else s\<lparr>staleByLeg := mput (txHash row)
                 ((case mget (staleByLeg s) (txHash row) of Some rs \<Rightarrow> rs | None \<Rightarrow> []) @ [row]) (staleByLeg s)\<rparr>)"

definition plan_stale :: "host \<Rightarrow> (string, string list) jmap \<Rightarrow> (string, transaction_record) jmap \<Rightarrow> purge_plan \<Rightarrow>
    string \<times> transaction_record list \<Rightarrow> purge_plan" where
  "plan_stale H emittedTypes kept_rows plan ss = (case ss of (storageId, stale) \<Rightarrow>
     (case (mhas emittedTypes storageId, mget kept_rows storageId) of
        (True, None) \<Rightarrow> plan\<lparr>preserved := preserved plan @ map row_label stale\<rparr>
      | (_, survivor) \<Rightarrow>
          (case sort_by (carrier_le H) (filter (\<lambda>row. isOverridden (row_payload row)) stale) of
             [] \<Rightarrow> plan\<lparr>deleteIds := deleteIds plan @ map row_id stale\<rparr>
           | carrier # alsoOverridden \<Rightarrow>
               (let kept = map row_id alsoOverridden; plan = plan\<lparr>preserved := preserved plan @ map row_label alsoOverridden\<rparr>
                in case survivor of
                     Some sv \<Rightarrow> plan\<lparr>carries := carries plan @ [(row_id sv, mergeSavedPayload (row_payload carrier) (row_payload sv))],
                       deleteIds := deleteIds plan @ filter (\<lambda>i. i \<notin> set kept) (map row_id stale)\<rparr>
                   | None \<Rightarrow> plan\<lparr>preserved := preserved plan @ [row_label carrier],
                       deleteIds := deleteIds plan @ filter (\<lambda>i. i \<notin> set (row_id carrier # kept)) (map row_id stale)\<rparr>))))"

definition planSupersededPurge :: "host \<Rightarrow> transaction_record list \<Rightarrow> emitted_leg list \<Rightarrow> purge_plan" where
  "planSupersededPurge H rows emitted =
     (if emitted = [] then EMPTY_PURGE
      else case foldl emit_leg ([], []) emitted of
        (emittedTypes, absorbed) \<Rightarrow>
          (let s = foldl (scan_row emittedTypes absorbed) \<lparr>survivors = [], staleByLeg = []\<rparr> rows
           in foldl (plan_stale H emittedTypes (survivors s)) EMPTY_PURGE (staleByLeg s)))"

section \<open>The in-memory repository\<close>

record mock_repo =
  transactions :: "(string, transaction_record) jmap"
  bindingOwners :: "(string, string) jmap"

definition same_key :: "string \<Rightarrow> indexed_transaction \<Rightarrow> transaction_record \<Rightarrow> bool" where
  "same_key binding item tx \<longleftrightarrow> bindingId tx = binding \<and> txHash tx = i_txHash item \<and> row_eventType tx = i_eventType item"

definition save_item :: "(string list \<Rightarrow> string) \<Rightarrow> string \<Rightarrow> (string, transaction_record) jmap \<times> string list \<Rightarrow>
    indexed_transaction \<Rightarrow> (string, transaction_record) jmap \<times> string list" where
  "save_item uuid binding ts item = (case ts of (txs, stored) \<Rightarrow>
     (case List.find (same_key binding item) (mvalues txs) of
        Some existing \<Rightarrow>
          (mput (row_id existing) (existing\<lparr>row_payload := mergeSavedPayload (row_payload existing) (i_payload item),
             row_occurredAt := i_occurredAt item\<rparr>) txs, stored @ [row_id existing])
      | None \<Rightarrow>
          (let i = uuid (mkeys txs)
           in (mput i \<lparr>row_id = i, bindingId = binding, txHash = i_txHash item, row_eventType = i_eventType item,
                 chain = i_chain item, row_payload = i_payload item, row_occurredAt = i_occurredAt item\<rparr> txs, stored @ [i]))))"

text \<open>The stored objects the call returns are shared with the map, so they are read at the end.\<close>

definition save :: "(string list \<Rightarrow> string) \<Rightarrow> string \<Rightarrow> string \<Rightarrow> indexed_transaction list \<Rightarrow> mock_repo \<Rightarrow>
    mock_repo \<times> transaction_record list" where
  "save uuid binding user items r =
     (case foldl (save_item uuid binding) (transactions r, []) items of
        (txs, stored) \<Rightarrow> (r\<lparr>transactions := txs, bindingOwners := mput binding user (bindingOwners r)\<rparr>,
          map (\<lambda>i. the (mget txs i)) stored))"

definition apply_carry :: "(string, transaction_record) jmap \<Rightarrow> string \<times> jobj \<Rightarrow> (string, transaction_record) jmap" where
  "apply_carry txs carry = (case mget txs (fst carry) of
     Some row \<Rightarrow> mput (fst carry) (row\<lparr>row_payload := snd carry\<rparr>) txs | None \<Rightarrow> txs)"

definition apply_plan :: "purge_plan \<Rightarrow> (string, transaction_record) jmap \<Rightarrow> (string, transaction_record) jmap" where
  "apply_plan plan txs = foldl (\<lambda>m i. mdel i m) (foldl apply_carry txs (carries plan)) (deleteIds plan)"

definition deleteSupersededRows :: "host \<Rightarrow> string \<Rightarrow> emitted_leg list \<Rightarrow> mock_repo \<Rightarrow> mock_repo \<times> (nat \<times> nat \<times> string list)" where
  "deleteSupersededRows H binding emitted r =
     (let plan = planSupersededPurge H (filter (\<lambda>row. bindingId row = binding) (mvalues (transactions r))) emitted
      in (r\<lparr>transactions := apply_plan plan (transactions r)\<rparr>,
          (length (deleteIds plan), length (carries plan), preserved plan)))"

definition deleteAllForBinding :: "string \<Rightarrow> mock_repo \<Rightarrow> mock_repo \<times> nat" where
  "deleteAllForBinding binding r =
     (let ids = map row_id (filter (\<lambda>row. bindingId row = binding) (mvalues (transactions r)))
      in (r\<lparr>transactions := foldl (\<lambda>m i. mdel i m) (transactions r) ids, bindingOwners := mdel binding (bindingOwners r)\<rparr>,
          length ids))"

definition listForUser :: "string \<Rightarrow> mock_repo \<Rightarrow> transaction_record list" where
  "listForUser user r = sort_by (\<lambda>a b. row_occurredAt a \<le> row_occurredAt b)
     (filter (\<lambda>row. mget (bindingOwners r) (bindingId row) = Some user) (mvalues (transactions r)))"

definition findForUser :: "string \<Rightarrow> string \<Rightarrow> mock_repo \<Rightarrow> transaction_record option" where
  "findForUser user i r = List.find (\<lambda>tx. row_id tx = i \<or> pget (row_payload tx) ''id'' = VStr i) (listForUser user r)"

definition updatePayload :: "string \<Rightarrow> string \<Rightarrow> jobj \<Rightarrow> mock_repo \<Rightarrow> mock_repo \<times> transaction_record option" where
  "updatePayload user i p r = (case findForUser user i r of
     None \<Rightarrow> (r, None)
   | Some existing \<Rightarrow>
       (let row = existing\<lparr>row_payload := p\<rparr>
        in (r\<lparr>transactions := mput (row_id existing) row (transactions r)\<rparr>, Some row)))"

section \<open>The snapshot cache\<close>

text \<open>The cache in front of a repository, as the events of its asynchronous calls. A read with no
  fresh snapshot and no load in flight starts a load; the load reads the repository (\<open>LoadReads\<close>)
  and, when its promise settles, stores what it read (\<open>LoadSettles\<close>). A write changes the
  repository (\<open>InnerWrites\<close>) and, when its promise settles, drops the user's snapshot
  (\<open>WriteSettles\<close>). Between the two halves of a call the events of other calls may come.\<close>

definition LEDGER_SNAPSHOT_TTL_MS :: int where
  "LEDGER_SNAPSHOT_TTL_MS = 60000"

record 'r snapshot_cache =
  rows_of :: "string \<Rightarrow> 'r"
  snapshots :: "(string, int \<times> 'r) jmap"
  inflight :: "(string, nat) jmap"
  loads :: "(nat, string \<times> 'r option) jmap"
  next_load :: nat
  clock :: int

datatype 'r cache_event =
    Read string
  | LoadReads nat
  | LoadSettles nat
  | InnerWrites string 'r
  | WriteSettles string
  | Tick nat

definition fresh_snapshot :: "int \<Rightarrow> 'r snapshot_cache \<Rightarrow> string \<Rightarrow> 'r option" where
  "fresh_snapshot ttl s u = (case mget (snapshots s) u of
     Some (stamp, rows) \<Rightarrow> if clock s - stamp < ttl then Some rows else None | None \<Rightarrow> None)"

definition invalidate :: "string \<Rightarrow> 'r snapshot_cache \<Rightarrow> 'r snapshot_cache" where
  "invalidate u s = s\<lparr>snapshots := mdel u (snapshots s)\<rparr>"

text \<open>\<open>loads\<close> holds every load that has not settled: whose it is, and what it has read.\<close>

definition cache_step :: "int \<Rightarrow> 'r snapshot_cache \<Rightarrow> 'r cache_event \<Rightarrow> 'r snapshot_cache" where
  "cache_step ttl s e = (case e of
     Read u \<Rightarrow> if fresh_snapshot ttl s u \<noteq> None \<or> mhas (inflight s) u then s
       else s\<lparr>inflight := mput u (next_load s) (inflight s), loads := mput (next_load s) (u, None) (loads s),
              next_load := Suc (next_load s)\<rparr>
   | LoadReads l \<Rightarrow> (case mget (loads s) l of
       Some (u, None) \<Rightarrow> s\<lparr>loads := mput l (u, Some (rows_of s u)) (loads s)\<rparr> | _ \<Rightarrow> s)
   | LoadSettles l \<Rightarrow> (case mget (loads s) l of
       Some (u, Some rows) \<Rightarrow>
         (let s = s\<lparr>loads := mdel l (loads s),
                    snapshots := mput u (clock s, rows) (snapshots s)\<rparr>
          in if mget (inflight s) u = Some l then s\<lparr>inflight := mdel u (inflight s)\<rparr> else s)
     | _ \<Rightarrow> s)
   | InnerWrites u rows \<Rightarrow> s\<lparr>rows_of := (rows_of s)(u := rows)\<rparr>
   | WriteSettles u \<Rightarrow> invalidate u s
   | Tick d \<Rightarrow> s\<lparr>clock := clock s + int d\<rparr>)"

definition cache_run :: "int \<Rightarrow> 'r snapshot_cache \<Rightarrow> 'r cache_event list \<Rightarrow> 'r snapshot_cache" where
  "cache_run ttl s es = foldl (cache_step ttl) s es"

end
