(* ===== verification/SpamFilter.thy ===== *)
theory SpamFilter
  imports JsValue
begin

text \<open>
  The spam and dust detection of inbound transfers, \<open>indexer/spam-filter.ts\<close>. Asset types are the
  strings of the source. The length test of a symbol counts bytes here and UTF-16 units there; a
  symbol on which the two differ has a byte outside printable ASCII, which the next test rejects.
\<close>

definition SPAM_CONTRACT_DENYLIST :: "string list" where
  "SPAM_CONTRACT_DENYLIST = map toLowerCase [
     ''0x4283aa1d82a592853269a495751de36443c1f689'',
     ''0x09ff1d86683687f944dfda018c7870a869499481'',
     ''0x248e1aaffcf66930d22f6bcc3e3b560d64c92678'',
     ''0x93e58aa4d8f8f9cfb02ca3d1fa5332d55006252c'']"

definition CONTRACT_ALLOWLIST :: "string list" where
  "CONTRACT_ALLOWLIST = map toLowerCase [
     ''0xa0b86991c6218b36c1d19d4a2e9eb0ce3606eb48'',
     ''0x833589fcd6edb6e08f4c7c32d4f71b54bda02913'',
     ''0xaf88d065e77c8cc2239327c5edb3a432268e5831'',
     ''0x0b2c639c533813f4aa9d7837caf62653d097ff85'',
     ''0xc2132d05d31c914a87c6611c10748aeb04b58e8f'']"

definition NATIVE_IMPERSONATION_SYMBOLS :: "string list" where
  "NATIVE_IMPERSONATION_SYMBOLS = [''ETH'']"

definition isNativeImpersonation :: "string \<Rightarrow> string \<Rightarrow> bool" where
  "isNativeImpersonation assetType symbol \<longleftrightarrow> assetType = ''ERC20'' \<and> toUpperCase (trim symbol) \<in> set NATIVE_IMPERSONATION_SYMBOLS"

definition printable :: "char \<Rightarrow> bool" where
  "printable c = (let n = of_char c :: nat in 33 \<le> n \<and> n \<le> 126)"

definition word_char :: "char \<Rightarrow> bool" where
  "word_char c = (let n = of_char c :: nat in (48 \<le> n \<and> n \<le> 57) \<or> (65 \<le> n \<and> n \<le> 90) \<or> (97 \<le> n \<and> n \<le> 122) \<or> n = 95)"

text \<open>The alternatives of the pattern, and the word boundary after one: the last character it matched and
  the next one differ in being word characters, the end of the text counting as none.\<close>

definition LINK_TOKENS :: "string list" where
  "LINK_TOKENS = [''http:'', ''https:'', ''www.'', ''/'', ''@''] @
     map (\<lambda>d. CHR ''.'' # d) [''io'', ''live'', ''xyz'', ''com'', ''net'', ''org'', ''app'', ''fi'', ''finance'', ''claim'', ''gift'',
       ''vip'', ''top'', ''site'']"

definition boundary_after :: "char \<Rightarrow> string \<Rightarrow> bool" where
  "boundary_after c rest \<longleftrightarrow> word_char c \<noteq> (case rest of [] \<Rightarrow> False | d # _ \<Rightarrow> word_char d)"

definition token_here :: "string \<Rightarrow> string \<Rightarrow> bool" where
  "token_here s tok \<longleftrightarrow> startsWith (toLowerCase s) tok \<and> boundary_after (last tok) (drop (length tok) s)"

fun tails :: "'a list \<Rightarrow> 'a list list" where
  "tails [] = [[]]"
| "tails (x # xs) = (x # xs) # tails xs"

definition looks_like_link :: "string \<Rightarrow> bool" where
  "looks_like_link s \<longleftrightarrow> list_ex (\<lambda>t. list_ex (token_here t) LINK_TOKENS) (tails s)"

definition isWeaponizedSymbol :: "string \<Rightarrow> bool" where
  "isWeaponizedSymbol symbol =
     (let value = trim symbol in
      if value = [] then True
      else if length value > 11 then True
      else if \<not> list_all printable value then True
      else looks_like_link value)"

definition isInboundSpam :: "string \<Rightarrow> string \<Rightarrow> string option \<Rightarrow> bool" where
  "isInboundSpam assetType symbol assetContract =
     (let contract = (case assetContract of None \<Rightarrow> [] | Some c \<Rightarrow> toLowerCase c) in
      if contract \<noteq> [] \<and> contract \<in> set CONTRACT_ALLOWLIST then False
      else if contract \<noteq> [] \<and> contract \<in> set SPAM_CONTRACT_DENYLIST then True
      else if assetType = ''ERC721'' \<or> assetType = ''ERC1155'' then True
      else if assetType = ''ERC20'' \<and> isWeaponizedSymbol symbol then True
      else isNativeImpersonation assetType symbol)"

section \<open>Facts\<close>

lemma allowlisted_not_spam: "toLowerCase c \<in> set CONTRACT_ALLOWLIST \<Longrightarrow> \<not> isInboundSpam ty s (Some c)"
proof -
  assume a: "toLowerCase c \<in> set CONTRACT_ALLOWLIST"
  moreover have "[] \<notin> set CONTRACT_ALLOWLIST" by code_simp
  ultimately have "toLowerCase c \<noteq> []" by metis
  then show ?thesis using a by (simp add: isInboundSpam_def)
qed

lemma native_never_spam:
  "contract = None \<or> contract = Some [] \<Longrightarrow> \<not> isInboundSpam ''NATIVE'' s contract"
  by (auto simp: isInboundSpam_def isNativeImpersonation_def toLowerCase_def Let_def)

text \<open>A short alphanumeric ticker is never weaponized.\<close>

lemma clean_ticker:
  assumes "trim s \<noteq> []" "length (trim s) \<le> 11" "list_all word_char (trim s)"
  shows "\<not> isWeaponizedSymbol s"
proof -
  have p: "word_char c \<Longrightarrow> printable c" for c by (auto simp: word_char_def printable_def Let_def)
  have tl: "t \<in> set (tails xs) \<Longrightarrow> set t \<subseteq> set xs" for t and xs :: string
    by (induction xs) auto
  have bad: "\<exists>c\<in>set tok. \<not> word_char c \<and> lower_char c = c" if "tok \<in> set LINK_TOKENS" for tok
  proof -
    have "list_all (list_ex (\<lambda>c. \<not> word_char c \<and> lower_char c = c)) LINK_TOKENS" by code_simp
    then show ?thesis using that by (auto simp: list_all_iff list_ex_iff)
  qed
  have low: "word_char c \<Longrightarrow> word_char (lower_char c)" for c
    by (auto simp: word_char_def lower_char_def Let_def)
  have "\<not> token_here t tok" if "t \<in> set (tails (trim s))" "tok \<in> set LINK_TOKENS" for t tok
  proof
    assume "token_here t tok"
    then have "set tok \<subseteq> set (toLowerCase t)"
      unfolding token_here_def startsWith_def by (metis set_take_subset)
    then have "list_all word_char tok"
      using tl [OF that(1)] assms(3) low by (fastforce simp: toLowerCase_def list_all_iff)
    then show False using bad [OF that(2)] by (auto simp: list_all_iff)
  qed
  then have "\<not> looks_like_link (trim s)" by (auto simp: looks_like_link_def list_ex_iff)
  then show ?thesis using assms p by (auto simp: isWeaponizedSymbol_def Let_def list_all_iff)
qed

end
