(* ===== verification/ChainRegistry.thy ===== *)
theory ChainRegistry
  imports JsValue
begin

text \<open>
  The two static tables of the indexer: the supported chains (\<open>indexer/chain-registry.ts\<close>) and the known
  bridge contracts with their labels (\<open>indexer/bridge-registry.ts\<close>).
\<close>

section \<open>Chains\<close>

datatype native_source = AlchemyDebug | BalanceDiff

record chain_entry =
  chainId :: int
  network :: string
  nativeSymbol :: string
  nativeDecimals :: nat
  supportedCategories :: "string list"
  nativeSources :: "native_source list"
  wrappedNativeContract :: "string option"

definition FULL :: "string list" where
  "FULL = [''external'', ''internal'', ''erc20'', ''erc721'', ''erc1155'']"

definition NO_INTERNAL :: "string list" where
  "NO_INTERNAL = [''external'', ''erc20'', ''erc721'', ''erc1155'']"

definition NO_RECOVERY :: "native_source list" where
  "NO_RECOVERY = []"

definition TRACE_THEN_BALANCE :: "native_source list" where
  "TRACE_THEN_BALANCE = [AlchemyDebug, BalanceDiff]"

definition CHAIN_REGISTRY :: "chain_entry list" where
  "CHAIN_REGISTRY = [
     \<lparr>chainId = 1, network = ''eth-mainnet'', nativeSymbol = ''ETH'', nativeDecimals = 18, supportedCategories = FULL,
       nativeSources = NO_RECOVERY, wrappedNativeContract = Some ''0xc02aaa39b223fe8d0a0e5c4f27ead9083c756cc2''\<rparr>,
     \<lparr>chainId = 8453, network = ''base-mainnet'', nativeSymbol = ''ETH'', nativeDecimals = 18, supportedCategories = FULL,
       nativeSources = NO_RECOVERY, wrappedNativeContract = Some ''0x4200000000000000000000000000000000000006''\<rparr>,
     \<lparr>chainId = 42161, network = ''arb-mainnet'', nativeSymbol = ''ETH'', nativeDecimals = 18, supportedCategories = NO_INTERNAL,
       nativeSources = TRACE_THEN_BALANCE, wrappedNativeContract = Some ''0x82af49447d8a07e3bd95bd0d56f35241523fbab1''\<rparr>,
     \<lparr>chainId = 10, network = ''opt-mainnet'', nativeSymbol = ''ETH'', nativeDecimals = 18, supportedCategories = NO_INTERNAL,
       nativeSources = TRACE_THEN_BALANCE, wrappedNativeContract = Some ''0x4200000000000000000000000000000000000006''\<rparr>,
     \<lparr>chainId = 137, network = ''polygon-mainnet'', nativeSymbol = ''POL'', nativeDecimals = 18, supportedCategories = FULL,
       nativeSources = NO_RECOVERY, wrappedNativeContract = Some ''0x0d500b1d8e8ef31e21c99d1db9a6444d3adf1270''\<rparr>]"

definition SUPPORTED_CHAIN_IDS :: "int list" where
  "SUPPORTED_CHAIN_IDS = map chainId CHAIN_REGISTRY"

definition nativeSymbolOf :: "int \<Rightarrow> string option" where
  "nativeSymbolOf c = map_option nativeSymbol (List.find (\<lambda>e. chainId e = c) CHAIN_REGISTRY)"

section \<open>Bridge contracts\<close>

type_synonym labeled_address = "string \<times> string"

definition CROSS_CHAIN_AGGREGATORS :: "labeled_address list" where
  "CROSS_CHAIN_AGGREGATORS = [
     (''0x1231deb6f5749ef6ce6943a275a1d3e7486f4eae'', ''LI.FI Diamond''),
     (''0x89c6340b1a1f4b25d36cd8b063d49045caf3f818'', ''LI.FI Permit2 Proxy''),
     (''0x74f665be90ffcd9ce9dca68cb5875570b711ceca'', ''Owlto Finance: EVM Maker''),
     (''0x4cd00e387622c35bddb9b4c962c136462338bc31'', ''Relay: Depository''),
     (''0x87a26566dbb3bf206634c1792a96ff4989e3f56e'', ''Mayan: Forwarder'')]"

definition OWLTO_BRIDGE_CORE_ADDRESS :: "(int, string) jmap" where
  "OWLTO_BRIDGE_CORE_ADDRESS = [
     (1, ''0x0e83ded9f80e1c92549615d96842f5cb64a08762''),
     (10, ''0x0e83ded9f80e1c92549615d96842f5cb64a08762''),
     (42161, ''0x0e83ded9f80e1c92549615d96842f5cb64a08762'')]"

definition OWLTO_BRIDGE_CORE :: "(int, labeled_address) jmap" where
  "OWLTO_BRIDGE_CORE = map (\<lambda>(c, a). (c, a, ''Owlto Finance: Bridge-Core'')) OWLTO_BRIDGE_CORE_ADDRESS"

definition ETHEREUM_ONLY_AGGREGATORS :: "labeled_address list" where
  "ETHEREUM_ONLY_AGGREGATORS = [(''0xc38e4e6a15593f908255214653d3d947ca1c2338'', ''Mayan: Swift'')]"

definition OP_STACK_L2_BRIDGE :: string where
  "OP_STACK_L2_BRIDGE = ''0x4200000000000000000000000000000000000010''"

definition OP_L2_STANDARD_BRIDGE :: labeled_address where
  "OP_L2_STANDARD_BRIDGE = (OP_STACK_L2_BRIDGE, ''Optimism: L2StandardBridge'')"

definition BASE_L2_STANDARD_BRIDGE :: labeled_address where
  "BASE_L2_STANDARD_BRIDGE = (OP_STACK_L2_BRIDGE, ''Base: L2StandardBridge'')"

definition ACROSS_SPOKE_POOL_ADDRESS :: "(int, string) jmap" where
  "ACROSS_SPOKE_POOL_ADDRESS = [
     (1, ''0x5c7bcd6e7de5423a257d81b442095a1a6ced35c5''),
     (10, ''0x6f26bf09b1c792e3228e5467807a900a503c0281''),
     (8453, ''0x09aea4b2242abc8bb4bb78d537a67a245a7bec64''),
     (42161, ''0xe35e9842fceaca96570b734083f4a58e8f7c5f2a''),
     (137, ''0x9295ee1d8c5b022be115a2ad3c30c72e34e7f096'')]"

definition ACROSS_SPOKE_POOL :: "(int, labeled_address) jmap" where
  "ACROSS_SPOKE_POOL = map (\<lambda>(c, a). (c, a, ''Across: SpokePool'')) ACROSS_SPOKE_POOL_ADDRESS"

definition STARGATE_POOLS :: "(int, labeled_address list) jmap" where
  "STARGATE_POOLS = [
     (1, [(''0x77b2043768d28e9c9ab44e1abfc95944bce57931'', ''Stargate: Pool (Native)''),
          (''0xc026395860db2d07ee33e05fe50ed7bd583189c7'', ''Stargate: Pool (USDC)''),
          (''0x933597a323eb81cae705c5bc29985172fd5a3973'', ''Stargate: Pool (USDT)'')]),
     (10, [(''0xe8cdf27acd73a434d661c84887215f7598e7d0d3'', ''Stargate: Pool (Native)''),
           (''0xce8cca271ebc0533920c83d39f417ed6a0abb7d0'', ''Stargate: Pool (USDC)''),
           (''0x19cfce47ed54a88614648dc3f19a5980097007dd'', ''Stargate: Pool (USDT)'')]),
     (8453, [(''0xdc181bd607330aeebef6ea62e03e5e1fb4b6f7c7'', ''Stargate: Pool (Native)''),
             (''0x27a16dc786820b16e5c9028b75b99f6f604b5d26'', ''Stargate: Pool (USDC)'')]),
     (42161, [(''0xa45b5130f36cdca45667738e2a258ab09f4a5f7f'', ''Stargate: Pool (Native)''),
              (''0xe8cdf27acd73a434d661c84887215f7598e7d0d3'', ''Stargate: Pool (USDC)''),
              (''0xce8cca271ebc0533920c83d39f417ed6a0abb7d0'', ''Stargate: Pool (USDT)'')]),
     (137, [(''0x9aa02d4fae7f58b8e8f34c66e756cc734dac7fe4'', ''Stargate: Pool (USDC)''),
            (''0xd47b03ee6d86cf251ee7860fb2acf9f91b9fd4d7'', ''Stargate: Pool (USDT)'')])]"

definition OFFICIAL_L1_BRIDGES :: "labeled_address list" where
  "OFFICIAL_L1_BRIDGES = [
     (''0x99c9fc46f92e8a1c0dec1b1747d010903e884be1'', ''Optimism: L1StandardBridge''),
     (''0xeb9bf100225c214efc3e7c651ebbadcf85177607'', ''Optimism: L1StandardBridge (legacy)''),
     (''0x3154cf16ccdb4c6d922629664174b904d80f2c35'', ''Base: L1StandardBridge''),
     (''0x4dbd4fc535ac27206064b68ffcf827b0a60bab3f'', ''Arbitrum: Delayed Inbox''),
     (''0xa0c68c638235ee32657e8f720a23cec1bfc77c77'', ''Polygon PoS: RootChainManager''),
     (''0x40ec5b33f54e0e8a33a975908c5ba1c14e5bbbdf'', ''Polygon PoS: ERC20 Predicate'')]"

definition ARBITRUM_NATIVE_GATEWAYS :: "labeled_address list" where
  "ARBITRUM_NATIVE_GATEWAYS = [
     (''0x0000000000000000000000000000000000000064'', ''Arbitrum: ArbSys''),
     (''0x5288c571fd7ad117bea99bf60fe0846c4e84f933'', ''Arbitrum: L2 Gateway Router''),
     (''0x09e9222e96e7b4ae2a407b98d48e330053351eee'', ''Arbitrum: L2 ERC20 Gateway''),
     (''0x096760f208390250649e3e8763348e783aef5562'', ''Arbitrum: L2 Custom Gateway''),
     (''0x6c411ad3e74de3e7bd422b94a27770f5b86c623b'', ''Arbitrum: L2 WETH Gateway'')]"

definition POLYGON_NATIVE_BRIDGE :: "labeled_address list" where
  "POLYGON_NATIVE_BRIDGE = [(''0xa6fa4fb5f76172d178d61b04b0ecd319c5d1c0aa'', ''Polygon PoS: ChildChainManager'')]"

definition chainEntries :: "int \<Rightarrow> labeled_address list \<Rightarrow> labeled_address list" where
  "chainEntries c canonical =
     canonical @ CROSS_CHAIN_AGGREGATORS
     @ (if c = 1 then ETHEREUM_ONLY_AGGREGATORS else [])
     @ (case mget ACROSS_SPOKE_POOL c of Some across \<Rightarrow> [across] | None \<Rightarrow> [])
     @ (case mget OWLTO_BRIDGE_CORE c of Some owlto \<Rightarrow> [owlto] | None \<Rightarrow> [])
     @ (case mget STARGATE_POOLS c of Some pools \<Rightarrow> pools | None \<Rightarrow> [])"

definition chainBridges :: "int \<Rightarrow> labeled_address list \<Rightarrow> string list" where
  "chainBridges c canonical = map (\<lambda>e. toLowerCase (fst e)) (chainEntries c canonical)"

definition chainLabels :: "int \<Rightarrow> labeled_address list \<Rightarrow> (string, string) jmap" where
  "chainLabels c canonical = foldl (\<lambda>labels e. mput (toLowerCase (fst e)) (snd e) labels) [] (chainEntries c canonical)"

definition BRIDGE_CANONICAL :: "(int, labeled_address list) jmap" where
  "BRIDGE_CANONICAL = [(1, OFFICIAL_L1_BRIDGES), (10, [OP_L2_STANDARD_BRIDGE]), (8453, [BASE_L2_STANDARD_BRIDGE]),
     (42161, ARBITRUM_NATIVE_GATEWAYS), (137, POLYGON_NATIVE_BRIDGE)]"

definition BRIDGE_CONTRACTS :: "(int, string list) jmap" where
  "BRIDGE_CONTRACTS = map (\<lambda>(c, canonical). (c, chainBridges c canonical)) BRIDGE_CANONICAL"

definition BRIDGE_LABELS :: "(int, (string, string) jmap) jmap" where
  "BRIDGE_LABELS = map (\<lambda>(c, canonical). (c, chainLabels c canonical)) BRIDGE_CANONICAL"

definition isBridgeContract :: "int \<Rightarrow> string \<Rightarrow> bool" where
  "isBridgeContract c address = (case mget BRIDGE_CONTRACTS c of
     None \<Rightarrow> False | Some contracts \<Rightarrow> toLowerCase address \<in> set contracts)"

definition bridgeContractLabel :: "int \<Rightarrow> string \<Rightarrow> string option" where
  "bridgeContractLabel c address = (case mget BRIDGE_LABELS c of
     None \<Rightarrow> None | Some labels \<Rightarrow> mget labels (toLowerCase address))"

definition BRIDGE_REVIEW_CONFIDENCE :: rat where
  "BRIDGE_REVIEW_CONFIDENCE = 4 / 10"

section \<open>Facts\<close>

text \<open>The label table and the contract set never drift apart.\<close>

lemma chain_labels_keys: "fst ` set (chainLabels c canonical) = set (chainBridges c canonical)"
proof -
  have "fst ` set (foldl (\<lambda>labels e. mput (toLowerCase (fst e)) (snd e) labels) m es) =
      fst ` set m \<union> (\<lambda>e. toLowerCase (fst e)) ` set es" for m and es :: "labeled_address list"
    by (induction es arbitrary: m) (auto simp: fst_set_update)
  then show ?thesis by (simp add: chainLabels_def chainBridges_def)
qed

lemma labeled_iff_bridge: "bridgeContractLabel c a \<noteq> None \<longleftrightarrow> isBridgeContract c a"
proof -
  have m: "map_of (map (\<lambda>(c, can). (c, f c can)) xs) c = map_option (f c) (map_of xs c)"
    for f :: "int \<Rightarrow> labeled_address list \<Rightarrow> 'a" and xs
    by (induction xs) auto
  show ?thesis
  proof (cases "map_of BRIDGE_CANONICAL c")
    case None
    then show ?thesis
      by (simp only: bridgeContractLabel_def isBridgeContract_def BRIDGE_CONTRACTS_def BRIDGE_LABELS_def m) simp
  next
    case (Some can)
    have "map_of (chainLabels c can) x \<noteq> None \<longleftrightarrow> x \<in> set (chainBridges c can)" for x
      by (simp add: map_of_eq_None_iff chain_labels_keys)
    then show ?thesis
      by (simp only: bridgeContractLabel_def isBridgeContract_def BRIDGE_CONTRACTS_def BRIDGE_LABELS_def m Some) simp
  qed
qed

end
