(* ===== verification/NativeRecovery.thy ===== *)
theory NativeRecovery
  imports JsValue
begin

text \<open>
  The pure half of the recovery of native movements: the balance difference around a transaction
  (\<open>indexer/native-balance-diff.ts\<close>) and the call-frame tree of a trace (\<open>indexer/native-trace.ts\<close>).
  The requests themselves are in \<open>ChainScan\<close>.
\<close>

section \<open>Quantities\<close>

definition hex_digits :: "string \<Rightarrow> bool" where
  "hex_digits s \<longleftrightarrow> s \<noteq> [] \<and> list_all (\<lambda>c. digit_in 16 c \<noteq> None) s"

text \<open>\<open>/^0x[0-9a-fA-F]+$/\<close> and then \<open>BigInt\<close>.\<close>

definition parseHexQuantity :: "jsv \<Rightarrow> nat option" where
  "parseHexQuantity v = (case v of
     VStr s \<Rightarrow> if startsWith s ''0x'' \<and> hex_digits (drop 2 s) then of_base 16 (drop 2 s) else None
   | _ \<Rightarrow> None)"

definition optionalHexQuantity :: "jsv \<Rightarrow> nat option" where
  "optionalHexQuantity v = (if nullish v then Some 0 else parseHexQuantity v)"

definition hex_quantity :: "nat \<Rightarrow> string" where
  "hex_quantity n = ''0x'' @ to_base 16 n"

section \<open>Balance difference\<close>

record receipt_facts =
  blockNumber :: nat
  succeeded :: bool
  gasUsed :: nat
  effectiveGasPrice :: "nat option"
  surcharges :: nat

record transaction_facts =
  tf_from :: string
  tf_to :: "string option"
  tf_value :: nat
  gasPrice :: "nat option"

definition js_fields :: "jsv \<Rightarrow> jobj option" where
  "js_fields v = (case v of VObj p \<Rightarrow> Some p | VArr vs \<Rightarrow> Some [] | _ \<Rightarrow> None)"

definition parseReceiptFacts :: "jsv \<Rightarrow> receipt_facts option" where
  "parseReceiptFacts res = (case js_fields res of
     None \<Rightarrow> None
   | Some r \<Rightarrow>
       (case (parseHexQuantity (pget r ''blockNumber''), parseHexQuantity (pget r ''gasUsed''), parseHexQuantity (pget r ''status'')) of
          (Some b, Some g, Some status) \<Rightarrow>
            (let price = pget r ''effectiveGasPrice''; effective = (if nullish price then None else parseHexQuantity price) in
             if \<not> nullish price \<and> effective = None then None
             else (case (optionalHexQuantity (pget r ''l1Fee''), optionalHexQuantity (pget r ''operatorFee'')) of
                (Some l1Fee, Some operatorFee) \<Rightarrow>
                  Some \<lparr>blockNumber = b, succeeded = (status = 1), gasUsed = g, effectiveGasPrice = effective, surcharges = l1Fee + operatorFee\<rparr>
              | _ \<Rightarrow> None))
        | _ \<Rightarrow> None))"

definition parseTransactionFacts :: "jsv \<Rightarrow> transaction_facts option" where
  "parseTransactionFacts res = (case js_fields res of
     None \<Rightarrow> None
   | Some r \<Rightarrow>
       (case (str_of (pget r ''from''), parseHexQuantity (pget r ''value'')) of
          (Some from, Some val) \<Rightarrow>
            (let to = pget r ''to''; price = pget r ''gasPrice'' in
             if \<not> nullish to \<and> str_of to = None then None
             else Some \<lparr>tf_from = from, tf_to = (if nullish to then None else str_of to), tf_value = val,
                    gasPrice = (if nullish price then None else parseHexQuantity price)\<rparr>)
        | _ \<Rightarrow> None))"

definition totalFeePaid :: "receipt_facts \<Rightarrow> transaction_facts \<Rightarrow> nat option" where
  "totalFeePaid receipt tx =
     (case (case effectiveGasPrice receipt of None \<Rightarrow> gasPrice tx | Some p \<Rightarrow> Some p) of
        None \<Rightarrow> None | Some price \<Rightarrow> Some (gasUsed receipt * price + surcharges receipt))"

definition internalNativeDelta :: "string \<Rightarrow> transaction_facts \<Rightarrow> nat \<Rightarrow> nat \<Rightarrow> nat \<Rightarrow> int" where
  "internalNativeDelta wallet tx feePaid balanceBefore balanceAfter =
     (let target = toLowerCase wallet; from = toLowerCase (tf_from tx); to = map_option toLowerCase (tf_to tx);
          delta = int balanceAfter - int balanceBefore;
          delta = (if from = target then delta + (int feePaid + int (tf_value tx)) else delta)
      in if to = Some target then delta - int (tf_value tx) else delta)"

datatype leg_direction = DirIn | DirOut

definition nativeLegFromDelta :: "int \<Rightarrow> (leg_direction \<times> string) option" where
  "nativeLegFromDelta delta = (if delta = 0 then None
     else let magnitude = nat (if 0 < delta then delta else - delta)
          in Some (if 0 < delta then DirIn else DirOut, hex_quantity magnitude))"

definition selectUnambiguousCandidates :: "('a \<Rightarrow> nat) \<Rightarrow> 'a list \<Rightarrow> 'a list \<times> nat list" where
  "selectUnambiguousCandidates blockOf candidates =
     (let byBlock = foldl (group_add blockOf) [] candidates
      in (concat (map (\<lambda>(b, bucket). if length bucket = 1 then [hd bucket] else []) byBlock),
          concat (map (\<lambda>(b, bucket). if length bucket = 1 then [] else [b]) byBlock)))"

section \<open>Call frames\<close>

record trace_transfer =
  tt_path :: string
  tt_from :: string
  tt_to :: string
  tt_hexValue :: string

definition VALUE_MOVING_TYPES :: "string list" where
  "VALUE_MOVING_TYPES = [''CALL'', ''CALLCODE'', ''CREATE'', ''CREATE2'', ''SELFDESTRUCT'']"

text \<open>The messages that say a method is not available: the two alternatives of the pattern.\<close>

fun find_sub :: "string \<Rightarrow> string \<Rightarrow> string option" where
  "find_sub p [] = (if p = [] then Some [] else None)"
| "find_sub p (c # s) = (if startsWith (c # s) p then Some (drop (length p) (c # s)) else find_sub p s)"

definition line_rest :: "string \<Rightarrow> string" where
  "line_rest s = takeWhile (\<lambda>c. c \<noteq> CHR 0x0A \<and> c \<noteq> CHR 0x0D) s"

fun tier_gated :: "string \<Rightarrow> bool" where
  "tier_gated [] = False"
| "tier_gated (c # s) =
     (startsWith (c # s) ''not available on the '' \<and> find_sub '' tier'' (line_rest (drop 21 (c # s))) \<noteq> None \<or> tier_gated s)"

definition capability_message :: "string \<Rightarrow> bool" where
  "capability_message s = (let t = toLowerCase s in
     tier_gated t \<or> find_sub ''method not found'' t \<noteq> None \<or> find_sub ''method not supported'' t \<noteq> None)"

definition isTraceCapabilityError :: "jsv \<Rightarrow> jsv \<Rightarrow> bool" where
  "isTraceCapabilityError code message =
     (if code = jint (- 32600) \<or> code = jint (- 32601) then True
      else case str_of message of None \<Rightarrow> False | Some text \<Rightarrow> capability_message text)"

definition isCallFrame :: "jsv \<Rightarrow> bool" where
  "isCallFrame v = (case v of VObj p \<Rightarrow> is_str (pget p ''type'') | _ \<Rightarrow> False)"

definition frame_reverted :: "jobj \<Rightarrow> bool" where
  "frame_reverted f \<longleftrightarrow> \<not> nullish (pget f ''error'') \<and> pget f ''error'' \<noteq> VStr []"

definition emit_frame :: "string \<Rightarrow> jobj \<Rightarrow> nat list \<Rightarrow> trace_transfer list" where
  "emit_frame target f path =
     (if path = [] then []
      else case (parseHexQuantity (pget f ''value''), str_of (pget f ''from''), str_of (pget f ''to'')) of
        (Some val, Some from, Some to) \<Rightarrow>
          if toUpperCase (case str_of (pget f ''type'') of Some s \<Rightarrow> s | None \<Rightarrow> []) \<in> set VALUE_MOVING_TYPES \<and> 0 < val \<and>
             (toLowerCase from = target \<or> toLowerCase to = target)
          then [\<lparr>tt_path = join ''_'' (map nat_str path), tt_from = toLowerCase from, tt_to = toLowerCase to, tt_hexValue = hex_quantity val\<rparr>]
          else []
      | _ \<Rightarrow> [])"

definition frame_calls :: "jobj \<Rightarrow> jsv list" where
  "frame_calls f = (case pget f ''calls'' of VArr vs \<Rightarrow> vs | _ \<Rightarrow> [])"

lemma frame_calls_size: "child \<in> set (frame_calls f) \<Longrightarrow> size child < Suc (size_list (size_prod (\<lambda>_. 0) size) f)"
proof -
  assume c: "child \<in> set (frame_calls f)"
  obtain vs where vs: "pget f ''calls'' = VArr vs" "child \<in> set vs"
    using c by (cases "pget f ''calls''") (auto simp: frame_calls_def)
  then have "(''calls'', VArr vs) \<in> set f"
    by (auto simp: pget_def split: option.splits dest: map_of_SomeD)
  then have "size_prod (\<lambda>_. 0) size (''calls'', VArr vs) \<le> size_list (size_prod (\<lambda>_. 0) size) f"
    by (rule size_list_estimation') simp
  moreover have "size child \<le> size_list size vs" using vs(2) by (rule size_list_estimation') simp
  ultimately show ?thesis by simp
qed

text \<open>\<open>visit\<close>: the transfers of a frame and, left to right, of its calls; nothing inside a reverted frame.\<close>

function visit :: "string \<Rightarrow> nat list \<Rightarrow> jsv \<Rightarrow> trace_transfer list" where
  "visit target path (VObj f) = (if frame_reverted f then []
     else emit_frame target f path @
       concat (map (\<lambda>(i, child). if isCallFrame child then visit target (path @ [i]) child else [])
         (zip [0..<length (frame_calls f)] (frame_calls f))))"
| "visit target path VUndef = []"
| "visit target path VNull = []"
| "visit target path (VBool b) = []"
| "visit target path (VNum n) = []"
| "visit target path (VStr s) = []"
| "visit target path (VArr vs) = []"
  by pat_completeness auto
termination
  by (relation "measure (\<lambda>(_, _, v). size v)") (auto dest!: set_zip_rightD frame_calls_size)

definition extractNativeTransfers :: "jsv \<Rightarrow> string \<Rightarrow> trace_transfer list" where
  "extractNativeTransfers tr wallet = (if isCallFrame tr then visit (toLowerCase wallet) [] tr else [])"

fun first_frame :: "jsv list \<Rightarrow> jsv option" where
  "first_frame [] = None"
| "first_frame (item # items) =
     (if isCallFrame item then Some item
      else let wrapped = (case item of VObj p \<Rightarrow> pget p ''value'' | _ \<Rightarrow> VUndef)
           in if isCallFrame wrapped then Some wrapped else first_frame items)"

definition unwrapTraceResult :: "jsv \<Rightarrow> jsv option" where
  "unwrapTraceResult res = (if isCallFrame res then Some res else case res of VArr items \<Rightarrow> first_frame items | _ \<Rightarrow> None)"

end
