(* ===== verification/Normalize.thy ===== *)
theory Normalize
  imports TxRepository SpamFilter ChainRegistry NativeRecovery "HOL-Library.Word"
begin

text \<open>
  The normalization of one chain's raw transfers into ledger rows: the pure methods of
  \<open>indexer/indexer.adapters.ts\<close> (\<open>normalizeChain\<close> and what it calls). A raw transfer is an
  object of the provider, read field by field; an error (\<open>ChainIncompleteError\<close>, or the
  \<open>SyntaxError\<close> of \<open>BigInt\<close>) is an \<open>Inl\<close> and withholds the whole chain.
\<close>

unbundle bit_operations_syntax

section \<open>Reading a transfer\<close>

text \<open>\<open>v?.k\<close> on an arbitrary value.\<close>

definition js_get :: "jsv \<Rightarrow> string \<Rightarrow> jsv" where
  "js_get v k = (case v of VObj p \<Rightarrow> pget p k | _ \<Rightarrow> VUndef)"

fun rmap :: "('a \<Rightarrow> ('e, 'b) result) \<Rightarrow> 'a list \<Rightarrow> ('e, 'b list) result" where
  "rmap f [] = Inr []"
| "rmap f (x # xs) = rbind (f x) (\<lambda>y. rbind (rmap f xs) (\<lambda>ys. Inr (y # ys)))"

definition SWAP_CONFIDENCE :: rat where "SWAP_CONFIDENCE = 6 / 10"

definition ZERO_ADDRESS :: string where
  "ZERO_ADDRESS = ''0x0000000000000000000000000000000000000000''"

record normalized_leg =
  pureHash :: string
  storageTxHash :: string
  leg_occurredAt :: int
  leg_dir :: leg_direction
  isSelf :: bool
  assetKey :: string
  leg_payload :: jobj

definition parseRawAmount :: "jsv \<Rightarrow> (string, string) result" where
  "parseRawAmount v = (case str_of v of
     None \<Rightarrow> Inl ''transfer amount missing''
   | Some raw \<Rightarrow> if trim raw = [] then Inl ''transfer amount missing''
       else case string_to_bigint raw of None \<Rightarrow> Inl ''transfer amount unparseable'' | Some n \<Rightarrow> Inr (int_str n))"

definition normalizeTokenId :: "jsv \<Rightarrow> string option" where
  "normalizeTokenId v = (case str_of v of
     None \<Rightarrow> None
   | Some raw \<Rightarrow> (let trimmed = trim raw in
       if trimmed = [] then None
       else if startsWith (toLowerCase trimmed) ''0x''
       then (case string_to_bigint trimmed of Some n \<Rightarrow> Some (int_str n) | None \<Rightarrow> Some trimmed)
       else Some trimmed))"

text \<open>\<open>/:log:(\d+)$/\<close>: the digits at the end, when \<open>:log:\<close> comes before them.\<close>

definition log_suffix :: "string \<Rightarrow> string option" where
  "log_suffix s = (let ds = rev (takeWhile (\<lambda>c. digit_in 10 c \<noteq> None) (rev s));
       pre = take (length s - length ds) s
     in if ds \<noteq> [] \<and> drop (length pre - 5) pre = '':log:'' \<and> 5 \<le> length pre then Some ds else None)"

definition MAX_SAFE_INTEGER :: nat where "MAX_SAFE_INTEGER = 2 ^ 53 - 1"

definition fnv_step :: "32 word \<Rightarrow> char \<Rightarrow> 32 word" where
  "fnv_step h c = (h XOR of_nat (of_char c)) * 0x01000193"

definition deriveLogIndex :: "string \<Rightarrow> (string, nat) result" where
  "deriveLogIndex uniqueId = (case log_suffix uniqueId of
     Some ds \<Rightarrow> (case of_base 10 ds of
         Some n \<Rightarrow> if n \<le> MAX_SAFE_INTEGER then Inr n else Inl ''transfer has non-safe-integer log index''
       | None \<Rightarrow> Inl ''transfer has non-safe-integer log index'')
   | None \<Rightarrow> Inr (unat (foldl fnv_step 0x811c9dc5 uniqueId)))"

text \<open>\<open>Number.parseInt(s, 16)\<close>: leading blanks, a sign, an optional \<open>0x\<close>, then the longest run of digits.\<close>

definition parse_int16 :: "string \<Rightarrow> int option" where
  "parse_int16 s = (let t = dropWhile is_space s;
       neg = (t \<noteq> [] \<and> hd t = CHR ''-'');
       t = (if t \<noteq> [] \<and> (hd t = CHR ''-'' \<or> hd t = CHR ''+'') then tl t else t);
       t = (if startsWith (toLowerCase t) ''0x'' then drop 2 t else t);
       ds = takeWhile (\<lambda>c. digit_in 16 c \<noteq> None) t
     in map_option (\<lambda>n. if neg then - int n else int n) (of_base 16 ds))"

definition dir_str :: "leg_direction \<Rightarrow> string" where
  "dir_str d = (case d of DirIn \<Rightarrow> ''IN'' | DirOut \<Rightarrow> ''OUT'')"

definition str_or_null :: "string option \<Rightarrow> jsv" where
  "str_or_null v = (case v of Some s \<Rightarrow> VStr s | None \<Rightarrow> VNull)"

section \<open>One transfer\<close>

definition wallet_side :: "string \<Rightarrow> string option \<Rightarrow> string option \<Rightarrow> (string, leg_direction \<times> bool) result" where
  "wallet_side wallet from to =
     (if from = Some wallet \<and> to = Some wallet then Inr (DirOut, True)
      else if to = Some wallet then Inr (DirIn, False)
      else if from = Some wallet then Inr (DirOut, False)
      else Inl ''transfer matches neither wallet side'')"

definition asset_type_of :: "string option \<Rightarrow> (string, string) result" where
  "asset_type_of category =
     (if category = Some ''erc20'' then Inr ''ERC20'' else if category = Some ''erc721'' then Inr ''ERC721''
      else if category = Some ''erc1155'' then Inr ''ERC1155''
      else if category = Some ''external'' \<or> category = Some ''internal'' then Inr ''NATIVE''
      else Inl ''transfer has unknown category'')"

definition decimals_of :: "chain_entry \<Rightarrow> string \<Rightarrow> jsv \<Rightarrow> int" where
  "decimals_of entry assetType rawContract =
     (if assetType = ''NATIVE'' then int (nativeDecimals entry)
      else if assetType = ''ERC20'' then
        (case str_of (js_get rawContract ''decimal'') of
           Some d \<Rightarrow> if d = [] then 18 else (case parse_int16 d of Some n \<Rightarrow> n | None \<Rightarrow> 18)
         | None \<Rightarrow> 18)
      else 0)"

definition asset_key :: "chain_entry \<Rightarrow> string \<Rightarrow> string option \<Rightarrow> string option \<Rightarrow> string" where
  "asset_key entry assetType assetContract tokenId =
     join '':'' [int_str (chainId entry), assetType,
       (if assetType = ''NATIVE'' then ''native'' else toLowerCase (case assetContract of Some c \<Rightarrow> c | None \<Rightarrow> [])),
       (case tokenId of Some t \<Rightarrow> t | None \<Rightarrow> [])]"

record leg_template =
  lt_pureHash :: string
  lt_occurredAt :: int
  lt_dir :: leg_direction
  lt_self :: bool
  lt_assetType :: string
  lt_contract :: "string option"
  lt_decimals :: int
  lt_counterparty :: string
  lt_logIndex :: nat
  lt_symbol :: string
  lt_nativeSource :: "string option"

definition makeLeg :: "chain_entry \<Rightarrow> string \<Rightarrow> leg_template \<Rightarrow> string \<Rightarrow> string \<Rightarrow> string option \<Rightarrow> normalized_leg" where
  "makeLeg entry address t storage rawAmount tokenId =
     \<lparr>pureHash = lt_pureHash t, storageTxHash = storage, leg_occurredAt = lt_occurredAt t, leg_dir = lt_dir t, isSelf = lt_self t,
      assetKey = asset_key entry (lt_assetType t) (lt_contract t) tokenId,
      leg_payload = [(''id'', VStr storage), (''tx_hash'', VStr (lt_pureHash t)), (''chain_id'', jint (chainId entry)),
        (''log_index'', jint (int (lt_logIndex t))), (''block_timestamp'', VStr (toISOString (lt_occurredAt t))),
        (''wallet_address'', VStr address), (''direction'', VStr (dir_str (lt_dir t))), (''asset_type'', VStr (lt_assetType t)),
        (''asset_contract'', str_or_null (lt_contract t)), (''token_id'', str_or_null tokenId), (''decimals'', jint (lt_decimals t)),
        (''raw_amount'', VStr rawAmount), (''counterparty'', VStr (lt_counterparty t)), (''gas_fee_native'', VStr ''0''),
        (''classification'', VStr ''UNKNOWN''), (''confidence'', jint 0), (''user_override'', VNull), (''price_status'', VStr ''UNKNOWN''),
        (''fiat_value'', VNull), (''fiat_currency'', VStr ''KRW''), (''symbol'', VStr (lt_symbol t))] @
        (case lt_nativeSource t of None \<Rightarrow> [] | Some src \<Rightarrow> [(''native_source'', VStr src)]) @
        [(''_version'', jint 1), (''_overrideHistory'', VArr [])]\<rparr>"

definition leg_template_of :: "host \<Rightarrow> chain_entry \<Rightarrow> string \<Rightarrow> string \<Rightarrow> jsv \<Rightarrow> (string, leg_template) result" where
  "leg_template_of H entry wallet uniqueId transfer =
     (let hash = (case str_of (js_get transfer ''hash'') of Some h \<Rightarrow> toLowerCase (trim h) | None \<Rightarrow> []) in
      if hash = [] then Inl ''transfer missing hash''
      else case (case str_of (js_get (js_get transfer ''metadata'') ''blockTimestamp'') of None \<Rightarrow> None | Some ts \<Rightarrow> dateParse H ts) of
        None \<Rightarrow> Inl ''transfer missing/invalid blockTimestamp''
      | Some at_ms \<Rightarrow>
        rbind (wallet_side wallet (map_option toLowerCase (str_of (js_get transfer ''from'')))
                 (map_option toLowerCase (str_of (js_get transfer ''to'')))) (\<lambda>(dir, self).
        rbind (asset_type_of (str_of (js_get transfer ''category''))) (\<lambda>assetType.
        let rawContract = js_get transfer ''rawContract''; address = str_of (js_get rawContract ''address'') in
        if assetType \<noteq> ''NATIVE'' \<and> (case address of None \<Rightarrow> True | Some a \<Rightarrow> trim a = [])
        then Inl ''token transfer missing rawContract.address''
        else rbind (deriveLogIndex uniqueId) (\<lambda>logIndex.
          Inr \<lparr>lt_pureHash = hash, lt_occurredAt = at_ms, lt_dir = dir, lt_self = self, lt_assetType = assetType,
            lt_contract = (if assetType = ''NATIVE'' then None else address),
            lt_decimals = decimals_of entry assetType rawContract,
            lt_counterparty = (case str_of (js_get transfer (if dir = DirIn then ''from'' else ''to'')) of Some a \<Rightarrow> a | None \<Rightarrow> ZERO_ADDRESS),
            lt_logIndex = logIndex,
            lt_symbol = (case str_of (js_get transfer ''asset'') of Some s \<Rightarrow> s
               | None \<Rightarrow> if assetType = ''NATIVE'' then nativeSymbol entry else ''UNKNOWN''),
            lt_nativeSource = str_of (js_get transfer ''nativeSource'')\<rparr>))))"

definition storage_key :: "chain_entry \<Rightarrow> string \<Rightarrow> string" where
  "storage_key entry uniqueId = int_str (chainId entry) @ '':'' @ uniqueId"

definition erc1155_leg :: "chain_entry \<Rightarrow> string \<Rightarrow> string \<Rightarrow> leg_template \<Rightarrow> nat \<times> jsv \<Rightarrow> (string, normalized_leg) result" where
  "erc1155_leg entry address uniqueId t item = rbind (parseRawAmount (js_get (snd item) ''value'')) (\<lambda>amount.
     Inr (makeLeg entry address t (storage_key entry uniqueId @ '':'' @ nat_str (fst item)) amount
       (normalizeTokenId (js_get (snd item) ''tokenId''))))"

definition normalizeTransfer :: "host \<Rightarrow> chain_entry \<Rightarrow> string \<Rightarrow> string \<Rightarrow> string \<Rightarrow> jsv \<Rightarrow> (string, normalized_leg list) result" where
  "normalizeTransfer H entry address wallet uniqueId transfer =
     rbind (leg_template_of H entry wallet uniqueId transfer) (\<lambda>t.
     if lt_assetType t = ''ERC1155'' then
       (let items = (case js_get transfer ''erc1155Metadata'' of VArr xs \<Rightarrow> xs | _ \<Rightarrow> []) in
        if items = [] then Inl ''erc1155 transfer missing metadata''
        else rmap (erc1155_leg entry address uniqueId t) (zip [0..<length items] items))
     else if lt_assetType t = ''ERC721'' then
       Inr [makeLeg entry address t (storage_key entry uniqueId) ''1''
         (normalizeTokenId (coalesce (js_get transfer ''tokenId'') (js_get transfer ''erc721TokenId'')))]
     else rbind (parseRawAmount (js_get (js_get transfer ''rawContract'') ''value'')) (\<lambda>amount.
       Inr [makeLeg entry address t (storage_key entry uniqueId) amount None]))"

section \<open>Rows\<close>

definition leg_str :: "normalized_leg \<Rightarrow> string \<Rightarrow> string" where
  "leg_str leg k = js_String (pget (leg_payload leg) k)"

definition leg_contract :: "normalized_leg \<Rightarrow> string option" where
  "leg_contract leg = str_of (pget (leg_payload leg) ''asset_contract'')"

definition isForgedLeg :: "normalized_leg \<Rightarrow> bool" where
  "isForgedLeg leg =
     (if isSelf leg then False
      else if pget (leg_payload leg) ''asset_type'' = VStr ''NATIVE'' then False
      else (let contract = (case leg_contract leg of None \<Rightarrow> [] | Some c \<Rightarrow> toLowerCase c);
                symbol = js_String (coalesce (pget (leg_payload leg) ''symbol'') (VStr [])) in
        if contract \<noteq> [] \<and> contract \<in> set CONTRACT_ALLOWLIST then False
        else if contract \<noteq> [] \<and> contract \<in> set SPAM_CONTRACT_DENYLIST then True
        else if leg_dir leg = DirOut \<and> trim symbol = [] then False
        else if isNativeImpersonation (leg_str leg ''asset_type'') symbol then True
        else isWeaponizedSymbol symbol))"

text \<open>The display fields a known bridge counterparty adds, spread last into the payload.\<close>

definition bridge_fields :: "bool \<Rightarrow> string option \<Rightarrow> jobj" where
  "bridge_fields suspected label =
     (if suspected then [(''bridge_suspected'', VBool True)] else []) @
     (case label of Some l \<Rightarrow> [(''counterparty_label'', VStr l)] | None \<Rightarrow> [])"

definition buildLeg :: "chain_entry \<Rightarrow> normalized_leg \<Rightarrow> string \<Rightarrow> rat \<Rightarrow> indexed_transaction" where
  "buildLeg entry leg classification confidence =
     (let eventType = (if classification = ''EXCHANGE'' then ''swap'' else if leg_dir leg = DirIn then ''transfer_in'' else ''transfer_out'');
          counterparty = leg_str leg ''counterparty'';
          suspected = (\<not> isSelf leg \<and> isBridgeContract (chainId entry) counterparty);
          label = (if isSelf leg then None else bridgeContractLabel (chainId entry) counterparty);
          final = (if suspected then min confidence BRIDGE_REVIEW_CONFIDENCE else confidence)
      in \<lparr>i_txHash = storageTxHash leg, i_chain = int_str (chainId entry), i_eventType = eventType, i_occurredAt = leg_occurredAt leg,
          i_payload = pspread (pput ''confidence'' (VNum (JFin final)) (pput ''classification'' (VStr classification) (leg_payload leg)))
            (bridge_fields suspected label)\<rparr>)"

definition leg_amount :: "normalized_leg \<Rightarrow> (string, int) result" where
  "leg_amount leg = (case string_to_bigint (leg_str leg ''raw_amount'') of None \<Rightarrow> Inl ''SyntaxError'' | Some n \<Rightarrow> Inr n)"

fun total_amount :: "normalized_leg list \<Rightarrow> (string, int) result" where
  "total_amount [] = Inr 0"
| "total_amount (leg # legs) = rbind (leg_amount leg) (\<lambda>a. rbind (total_amount legs) (\<lambda>b. Inr (a + b)))"

record swap_side =
  side_legs :: "normalized_leg list"
  netting :: "(int \<times> string list) option"

definition buildSwapSide :: "chain_entry \<Rightarrow> normalized_leg list \<Rightarrow> string \<Rightarrow> string \<Rightarrow> (int \<times> string list) option \<Rightarrow>
    (string, indexed_transaction) result" where
  "buildSwapSide entry sideLegs classification groupId nt =
     rbind (case nt of Some (amount, _) \<Rightarrow> Inr amount | None \<Rightarrow> total_amount sideLegs) (\<lambda>totalRaw.
     let representative = hd sideLegs;
         suspected = list_ex (\<lambda>leg. isBridgeContract (chainId entry) (leg_str leg ''counterparty'')) sideLegs;
         label = bridgeContractLabel (chainId entry) (leg_str representative ''counterparty'');
         confidence = (if suspected then min SWAP_CONFIDENCE BRIDGE_REVIEW_CONFIDENCE else SWAP_CONFIDENCE)
     in Inr \<lparr>i_txHash = storageTxHash representative, i_chain = int_str (chainId entry),
          i_eventType = (if classification = ''EXCHANGE'' then ''swap'' else ''transfer_in''),
          i_occurredAt = leg_occurredAt representative,
          i_payload = pspread (pput ''group_id'' (VStr groupId) (pput ''confidence'' (VNum (JFin confidence))
              (pput ''classification'' (VStr classification) (pput ''raw_amount'' (VStr (int_str totalRaw)) (leg_payload representative)))))
            ((if classification = ''RECEIVE'' then [(''income_kind'', VNull)] else []) @
             (case nt of Some (_, absorbed) \<Rightarrow> [(''netted_leg_ids'', VArr (map VStr absorbed))] | None \<Rightarrow> []) @
             bridge_fields suspected label)\<rparr>)"

definition assets_of :: "normalized_leg list \<Rightarrow> string list" where
  "assets_of legs = remdups (map assetKey legs)"

text \<open>\<open>net(single, mixed)\<close>: the netted side and its counter side, if the two sides have the shape.\<close>

definition net_sides :: "normalized_leg list \<Rightarrow> normalized_leg list \<Rightarrow> (string, (swap_side \<times> swap_side) option) result" where
  "net_sides single mixed =
     (if single = [] \<or> mixed = [] then Inr None
      else if length (assets_of single) \<noteq> 1 \<or> length (assets_of mixed) \<noteq> 2 then Inr None
      else (let shared = hd (assets_of single) in
        if shared \<notin> set (assets_of mixed) then Inr None
        else (let residual = filter (\<lambda>leg. assetKey leg = shared) mixed in
          rbind (total_amount single) (\<lambda>s. rbind (total_amount residual) (\<lambda>r.
            if s - r \<le> 0 then Inr None
            else Inr (Some (\<lparr>side_legs = single, netting = Some (s - r, map (\<lambda>leg. leg_str leg ''id'') residual)\<rparr>,
              \<lparr>side_legs = filter (\<lambda>leg. assetKey leg \<noteq> shared) mixed, netting = None\<rparr>)))))))"

text \<open>The out side and the in side of a swap wearing a residual leg.\<close>

definition netSameAssetResidual :: "normalized_leg list \<Rightarrow> normalized_leg list \<Rightarrow> (string, (swap_side \<times> swap_side) option) result" where
  "netSameAssetResidual inLegs outLegs =
     rbind (net_sides outLegs inLegs) (\<lambda>residualInbound. case residualInbound of
       Some (netted, counter) \<Rightarrow> Inr (Some (netted, counter))
     | None \<Rightarrow> rbind (net_sides inLegs outLegs) (\<lambda>residualOutbound. case residualOutbound of
         Some (netted, counter) \<Rightarrow> Inr (Some (counter, netted))
       | None \<Rightarrow> Inr None))"

definition plain_row :: "chain_entry \<Rightarrow> bool \<Rightarrow> normalized_leg \<Rightarrow> indexed_transaction" where
  "plain_row entry ambiguousMix leg =
     (if isSelf leg then buildLeg entry leg ''INTERNAL_TRANSFER'' (9 / 10)
      else if ambiguousMix then buildLeg entry leg ''UNKNOWN'' (3 / 10)
      else if leg_dir leg = DirIn then
        (if isInboundSpam (leg_str leg ''asset_type'') (leg_str leg ''symbol'') (leg_contract leg)
         then buildLeg entry leg ''SPAM'' 0 else buildLeg entry leg ''RECEIVE'' (9 / 10))
      else buildLeg entry leg ''SEND'' (9 / 10))"

definition swap_rows :: "chain_entry \<Rightarrow> string \<Rightarrow> swap_side \<Rightarrow> swap_side \<Rightarrow> indexed_transaction list \<Rightarrow> (string, indexed_transaction list) result" where
  "swap_rows entry groupId outSide inSide spamRows =
     rbind (buildSwapSide entry (side_legs outSide) ''EXCHANGE'' groupId (netting outSide)) (\<lambda>ro.
     rbind (buildSwapSide entry (side_legs inSide) ''RECEIVE'' groupId (netting inSide)) (\<lambda>ri. Inr (ro # ri # spamRows)))"

definition swapLike :: "normalized_leg list \<Rightarrow> normalized_leg list \<Rightarrow> bool" where
  "swapLike inLegs outLegs \<longleftrightarrow> inLegs \<noteq> [] \<and> outLegs \<noteq> [] \<and> length (assets_of inLegs) = 1 \<and> length (assets_of outLegs) = 1 \<and>
     hd (assets_of inLegs) \<noteq> hd (assets_of outLegs)"

definition group_id_of :: "chain_entry \<Rightarrow> normalized_leg list \<Rightarrow> string" where
  "group_id_of entry outLegs = int_str (chainId entry) @ '':'' @ pureHash (hd outLegs)"

definition classifyGroup :: "chain_entry \<Rightarrow> normalized_leg list \<Rightarrow> (string, indexed_transaction list) result" where
  "classifyGroup entry legs =
     (let real = filter (\<lambda>leg. \<not> isForgedLeg leg) legs;
          spamRows = map (\<lambda>leg. buildLeg entry leg ''SPAM'' 0) (filter isForgedLeg legs);
          inLegs = filter (\<lambda>leg. \<not> isSelf leg \<and> leg_dir leg = DirIn) real;
          outLegs = filter (\<lambda>leg. \<not> isSelf leg \<and> leg_dir leg = DirOut) real
      in if swapLike inLegs outLegs
         then swap_rows entry (group_id_of entry outLegs) \<lparr>side_legs = outLegs, netting = None\<rparr> \<lparr>side_legs = inLegs, netting = None\<rparr> spamRows
         else rbind (netSameAssetResidual inLegs outLegs) (\<lambda>residual. case residual of
           Some (outSide, inSide) \<Rightarrow> swap_rows entry (group_id_of entry outLegs) outSide inSide spamRows
         | None \<Rightarrow> Inr (map (plain_row entry (inLegs \<noteq> [] \<and> outLegs \<noteq> [])) real @ spamRows)))"

section \<open>A chain\<close>

definition unique_id :: "jsv \<Rightarrow> string" where
  "unique_id transfer = (case str_of (js_get transfer ''uniqueId'') of Some i \<Rightarrow> trim i | None \<Rightarrow> [])"

fun by_unique_id :: "(string, jsv) jmap \<Rightarrow> jsv list \<Rightarrow> (string, (string, jsv) jmap) result" where
  "by_unique_id m [] = Inr m"
| "by_unique_id m (t # ts) =
     (if unique_id t = [] then Inl ''transfer missing uniqueId''
      else by_unique_id (if mhas m (unique_id t) then m else mput (unique_id t) t m) ts)"

definition normalizeChain :: "host \<Rightarrow> chain_entry \<Rightarrow> string \<Rightarrow> string \<Rightarrow> jsv list \<Rightarrow> jsv list \<Rightarrow> jsv list \<Rightarrow>
    (string, indexed_transaction list) result" where
  "normalizeChain H entry address wallet inbound outbound traced =
     rbind (by_unique_id [] (inbound @ outbound @ traced)) (\<lambda>byUniqueId.
     rbind (rmap (\<lambda>(uniqueId, transfer). normalizeTransfer H entry address wallet uniqueId transfer) byUniqueId) (\<lambda>legs.
     let groups = foldl (group_add pureHash) [] (concat legs) in
     rbind (rmap (classifyGroup entry) (mvalues groups)) (\<lambda>rows. Inr (concat rows))))"

end
