(* ===== verification/Normalize_Properties.thy ===== *)
theory Normalize_Properties
  imports Normalize
begin

text \<open>
  What normalization guarantees of a chain's rows: the flow of every asset is what the transfers moved
  (collapsing and netting lose and invent nothing), the rows have the shape the rest of the program relies
  on, and the derived log index is a safe integer.
\<close>

section \<open>Integers as strings\<close>

lemma digit_not_space: "d < 36 \<Longrightarrow> \<not> is_space (digit_char d)"
  by (simp add: is_space_def of_char_digit Let_def)

lemma trim_plain:
  assumes "\<forall>c\<in>set s. \<not> is_space c"
  shows "trim s = s"
proof -
  have "dropWhile is_space xs = xs" if "set xs \<subseteq> set s" for xs
    using that assms by (cases xs) auto
  from this [of s] this [of "rev s"] show ?thesis by (simp add: trim_def)
qed

lemma nat_str_plain: "c \<in> set (nat_str n) \<Longrightarrow> \<not> is_space c"
  using set_to_base [of 10 n] by (auto simp: nat_str_def digit_not_space)

lemma nat_str_head: "nat_str n = c # s \<Longrightarrow> 48 \<le> (of_char c :: nat) \<and> (of_char c :: nat) \<le> 57"
  using of_char_nat_str [of c n] by simp

lemma nat_str_not_empty: "nat_str n \<noteq> []"
  by (simp add: nat_str_def)

lemma read_prefixed_nat_str: "read_prefixed (nat_str n) = None"
proof -
  have "lower_char x = x" if "x \<in> set (nat_str n)" for x
    using of_char_nat_str [OF that] by (simp add: lower_char_def Let_def)
  moreover have "x \<noteq> CHR ''x'' \<and> x \<noteq> CHR ''o'' \<and> x \<noteq> CHR ''b''" if "x \<in> set (nat_str n)" for x
    using of_char_nat_str [OF that] by auto
  ultimately show ?thesis by (auto simp: read_prefixed_def split: list.splits)
qed

lemma bigint_int_str [simp]: "string_to_bigint (int_str i) = Some i"
proof -
  have plain: "\<forall>c\<in>set (int_str i). \<not> is_space c"
    using nat_str_plain by (auto simp: int_str_def is_space_def)
  have t: "trim (int_str i) = int_str i" by (rule trim_plain [OF plain])
  have base: "of_base 10 (nat_str n) = Some n" for n by (simp add: nat_str_def)
  show ?thesis
  proof (cases "i < 0")
    case True
    then have s: "int_str i = CHR ''-'' # nat_str (nat (- i))" by (simp add: int_str_def)
    have "read_prefixed (CHR ''-'' # ds) = None" for ds by (auto simp: read_prefixed_def split: list.splits)
    then show ?thesis using True t by (simp add: string_to_bigint_def s Let_def base)
  next
    case False
    then have s: "int_str i = nat_str (nat i)" by (simp add: int_str_def)
    obtain c cs where c: "nat_str (nat i) = c # cs" using nat_str_not_empty by (cases "nat_str (nat i)") auto
    have "c \<noteq> CHR ''-''" "c \<noteq> CHR ''+''" using nat_str_head [OF c] by auto
    then show ?thesis
      using False t base [of "nat i"] read_prefixed_nat_str [of "nat i"] by (simp add: string_to_bigint_def s c Let_def)
  qed
qed

section \<open>Spread\<close>

lemma pget_pspread_Cons [simp]: "pspread p ((k, v) # q) = pspread (pput k v p) q"
  "pspread p [] = p"
  by (simp_all add: pspread_def)

lemma pget_pspread: "k \<notin> fst ` set q \<Longrightarrow> pget (pspread p q) k = pget p k"
  by (induction q arbitrary: p) auto

lemma bridge_fields_keys: "fst ` set (bridge_fields s l) \<subseteq> {''bridge_suspected'', ''counterparty_label''}"
  by (auto simp: bridge_fields_def split: option.splits)

text \<open>The keys that building a row leaves as the leg has them.\<close>

definition row_fields :: "string list" where
  "row_fields = [''id'', ''tx_hash'', ''chain_id'', ''direction'', ''asset_type'', ''asset_contract'', ''token_id'', ''decimals'', ''user_override'',
     ''price_status'', ''fiat_value'', ''counterparty'', ''symbol'', ''wallet_address'', ''log_index'', ''_version'', ''_overrideHistory'']"

lemma build_leg_get:
  "pget (i_payload (buildLeg entry leg c conf)) ''classification'' = VStr c"
  "k \<in> set row_fields \<or> k = ''raw_amount'' \<Longrightarrow> pget (i_payload (buildLeg entry leg c conf)) k = pget (leg_payload leg) k"
proof -
  have n: "k \<notin> fst ` set (bridge_fields s l)" if "k \<notin> {''bridge_suspected'', ''counterparty_label''}" for s l k
    using bridge_fields_keys [of s l] that by auto
  show "pget (i_payload (buildLeg entry leg c conf)) ''classification'' = VStr c"
    by (simp add: buildLeg_def Let_def pget_pspread n)
  show "pget (i_payload (buildLeg entry leg c conf)) k = pget (leg_payload leg) k" if "k \<in> set row_fields \<or> k = ''raw_amount''"
    using that by (auto simp: buildLeg_def Let_def pget_pspread n row_fields_def)
qed

definition swap_keys :: "string set" where
  "swap_keys = {''income_kind'', ''netted_leg_ids'', ''bridge_suspected'', ''counterparty_label''}"

lemma swap_side_get:
  assumes "buildSwapSide entry legs c g nt = Inr row"
  shows "pget (i_payload row) ''classification'' = VStr c" "pget (i_payload row) ''group_id'' = VStr g"
    "\<exists>amt. (case nt of Some (a, _) \<Rightarrow> Inr a | None \<Rightarrow> total_amount legs) = Inr amt \<and> pget (i_payload row) ''raw_amount'' = VStr (int_str amt)"
    "\<And>k. k \<in> set row_fields \<Longrightarrow> pget (i_payload row) k = pget (leg_payload (hd legs)) k"
    "i_eventType row = (if c = ''EXCHANGE'' then ''swap'' else ''transfer_in'')" "i_chain row = int_str (chainId entry)"
    "i_txHash row = storageTxHash (hd legs)"
proof -
  obtain amt where amt: "(case nt of Some (a, _) \<Rightarrow> Inr a | None \<Rightarrow> total_amount legs) = Inr amt"
    using assms by (auto simp: buildSwapSide_def)
  let ?extra = "(if c = ''RECEIVE'' then [(''income_kind'', VNull)] else []) @
     (case nt of Some (_, absorbed) \<Rightarrow> [(''netted_leg_ids'', VArr (map VStr absorbed))] | None \<Rightarrow> []) @
     bridge_fields (list_ex (\<lambda>leg. isBridgeContract (chainId entry) (leg_str leg ''counterparty'')) legs)
       (bridgeContractLabel (chainId entry) (leg_str (hd legs) ''counterparty''))"
  have keys: "fst ` set ?extra \<subseteq> swap_keys"
    using bridge_fields_keys by (auto simp: swap_keys_def split: option.splits)
  have row: "i_payload row = pspread (pput ''group_id'' (VStr g) (pput ''confidence''
        (VNum (JFin (if list_ex (\<lambda>leg. isBridgeContract (chainId entry) (leg_str leg ''counterparty'')) legs
          then min SWAP_CONFIDENCE BRIDGE_REVIEW_CONFIDENCE else SWAP_CONFIDENCE)))
        (pput ''classification'' (VStr c) (pput ''raw_amount'' (VStr (int_str amt)) (leg_payload (hd legs)))))) ?extra"
    using assms amt by (auto simp: buildSwapSide_def Let_def)
  have get: "pget (pspread p ?extra) k = pget p k" if "k \<notin> swap_keys" for p k
    by (rule pget_pspread) (use keys that in blast)
  show "pget (i_payload row) ''classification'' = VStr c" "pget (i_payload row) ''group_id'' = VStr g"
    by (simp_all add: row get swap_keys_def del: append.simps)
  show "\<exists>amt. (case nt of Some (a, _) \<Rightarrow> Inr a | None \<Rightarrow> total_amount legs) = Inr amt \<and> pget (i_payload row) ''raw_amount'' = VStr (int_str amt)"
    using amt by (simp add: row get swap_keys_def del: append.simps)
  show "pget (i_payload row) k = pget (leg_payload (hd legs)) k" if k: "k \<in> set row_fields" for k
  proof -
    have "k \<notin> swap_keys" "k \<noteq> ''group_id''" "k \<noteq> ''confidence''" "k \<noteq> ''classification''" "k \<noteq> ''raw_amount''"
      using k by (auto simp: row_fields_def swap_keys_def)
    then show ?thesis by (simp add: row get del: append.simps)
  qed
  show "i_eventType row = (if c = ''EXCHANGE'' then ''swap'' else ''transfer_in'')" "i_chain row = int_str (chainId entry)"
    "i_txHash row = storageTxHash (hd legs)"
    using assms by (auto simp: buildSwapSide_def Let_def)
qed

section \<open>Flow\<close>

definition payload_asset :: "chain_entry \<Rightarrow> jobj \<Rightarrow> string" where
  "payload_asset entry p = asset_key entry (js_String (pget p ''asset_type'')) (str_of (pget p ''asset_contract'')) (str_of (pget p ''token_id''))"

definition leg_ok :: "chain_entry \<Rightarrow> normalized_leg \<Rightarrow> bool" where
  "leg_ok entry leg \<longleftrightarrow> assetKey leg = payload_asset entry (leg_payload leg) \<and>
     pget (leg_payload leg) ''direction'' = VStr (dir_str (leg_dir leg)) \<and> (\<exists>n. leg_amount leg = Inr n)"

definition signed_by :: "leg_direction \<Rightarrow> int \<Rightarrow> int" where
  "signed_by d n = (case d of DirIn \<Rightarrow> n | DirOut \<Rightarrow> - n)"

definition payload_amount :: "jobj \<Rightarrow> int" where
  "payload_amount p = (case string_to_bigint (js_String (pget p ''raw_amount'')) of Some n \<Rightarrow> n | None \<Rightarrow> 0)"

text \<open>What a leg, and a row, moves of an asset; a self transfer moves nothing.\<close>

definition leg_flow :: "string \<Rightarrow> normalized_leg \<Rightarrow> int" where
  "leg_flow a leg = (if isSelf leg \<or> assetKey leg \<noteq> a then 0 else signed_by (leg_dir leg) (payload_amount (leg_payload leg)))"

definition row_flow :: "chain_entry \<Rightarrow> string \<Rightarrow> indexed_transaction \<Rightarrow> int" where
  "row_flow entry a row = (let p = i_payload row in
     if pget p ''classification'' = VStr ''INTERNAL_TRANSFER'' \<or> payload_asset entry p \<noteq> a then 0
     else signed_by (if pget p ''direction'' = VStr ''IN'' then DirIn else DirOut) (payload_amount p))"

lemma dir_str_eq [simp]: "dir_str d = ''IN'' \<longleftrightarrow> d = DirIn"
  by (cases d) (simp_all add: dir_str_def)

lemma signed_by_dir: "signed_by (if d = DirIn then DirIn else DirOut) n = signed_by d n"
  by (cases d) simp_all

lemma sum_split: "(\<Sum>x\<leftarrow>xs. f x) = (\<Sum>x\<leftarrow>filter P xs. f x) + (\<Sum>x\<leftarrow>filter (\<lambda>x. \<not> P x) xs. f x :: int)"
  by (induction xs) auto

lemma payload_asset_row: "payload_asset entry (i_payload (buildLeg entry leg c conf)) = payload_asset entry (leg_payload leg)"
  by (simp add: payload_asset_def build_leg_get row_fields_def)

lemma build_leg_flow:
  assumes "leg_ok entry leg" "(c = ''INTERNAL_TRANSFER'') = isSelf leg"
  shows "row_flow entry a (buildLeg entry leg c conf) = leg_flow a leg"
proof -
  show ?thesis
    using assms unfolding row_flow_def Let_def payload_asset_row
    by (simp add: build_leg_get row_fields_def leg_flow_def leg_ok_def payload_amount_def signed_by_dir del: if_split)
qed

lemma total_side:
  assumes "total_amount legs = Inr n" "\<forall>leg\<in>set legs. leg_ok entry leg \<and> \<not> isSelf leg \<and> leg_dir leg = d \<and> assetKey leg = s"
  shows "(\<Sum>leg\<leftarrow>legs. leg_flow a leg) = (if s = a then signed_by d n else 0)"
  using assms
proof (induction legs arbitrary: n)
  case Nil
  then show ?case by (cases d) (auto simp: signed_by_def)
next
  case (Cons leg legs)
  from Cons.prems obtain x m where x: "leg_amount leg = Inr x" "total_amount legs = Inr m" "n = x + m" by auto
  have "payload_amount (leg_payload leg) = x"
    using x(1) by (auto simp: leg_amount_def leg_str_def payload_amount_def split: option.splits)
  with Cons x show ?case by (cases d) (auto simp: leg_flow_def signed_by_def)
qed

lemma total_ok: "\<forall>leg\<in>set legs. leg_ok entry leg \<Longrightarrow> \<exists>n. total_amount legs = Inr n"
  by (induction legs) (auto simp: leg_ok_def)

lemma other_asset_flow: "\<forall>leg\<in>set legs. assetKey leg \<noteq> a \<Longrightarrow> (\<Sum>leg\<leftarrow>legs. leg_flow a leg) = 0"
  by (induction legs) (auto simp: leg_flow_def)

lemma one_asset:
  assumes "length (assets_of legs) = 1" "leg \<in> set legs"
  shows "assetKey leg = hd (assets_of legs)"
proof -
  obtain s where "assets_of legs = [s]" using assms(1) by (auto simp: length_Suc_conv)
  moreover have "assetKey leg \<in> set (assets_of legs)" using assms(2) by (simp add: assets_of_def)
  ultimately show ?thesis by simp
qed

lemma swap_row_flow:
  assumes "buildSwapSide entry legs c g nt = Inr row" "legs \<noteq> []" "leg_ok entry (hd legs)" "c \<noteq> ''INTERNAL_TRANSFER''"
    and "(case nt of Some (x, _) \<Rightarrow> Inr x | None \<Rightarrow> total_amount legs) = Inr n"
  shows "row_flow entry a row = (if assetKey (hd legs) = a then signed_by (leg_dir (hd legs)) n else 0)"
proof -
  note get = swap_side_get [OF assms(1)]
  obtain m where m: "(case nt of Some (x, _) \<Rightarrow> Inr x | None \<Rightarrow> total_amount legs) = Inr m"
    "pget (i_payload row) ''raw_amount'' = VStr (int_str m)" using get(3) by blast
  then have amt: "payload_amount (i_payload row) = n" using assms(5) by (simp add: payload_amount_def)
  have asset: "payload_asset entry (i_payload row) = assetKey (hd legs)"
    using assms(3) by (simp add: payload_asset_def get(4) row_fields_def leg_ok_def)
  have dir: "pget (i_payload row) ''direction'' = VStr (dir_str (leg_dir (hd legs)))"
    using assms(3) by (simp add: get(4) row_fields_def leg_ok_def)
  show ?thesis using assms(4) by (simp add: row_flow_def Let_def get(1) amt asset dir signed_by_dir)
qed

text \<open>A side without netting carries the flow of its legs.\<close>

lemma swap_side_flow:
  assumes "buildSwapSide entry legs c g None = Inr row" "legs \<noteq> []" "c \<noteq> ''INTERNAL_TRANSFER''"
    and side: "\<forall>leg\<in>set legs. leg_ok entry leg \<and> \<not> isSelf leg \<and> leg_dir leg = d \<and> assetKey leg = s"
  shows "row_flow entry a row = (\<Sum>leg\<leftarrow>legs. leg_flow a leg)"
proof -
  obtain n where n: "total_amount legs = Inr n" using total_ok [of legs entry] side by blast
  have h: "hd legs \<in> set legs" using assms(2) by simp
  have "row_flow entry a row = (if assetKey (hd legs) = a then signed_by (leg_dir (hd legs)) n else 0)"
    by (rule swap_row_flow [OF assms(1,2) _ assms(3)]) (use side h n in auto)
  also have "\<dots> = (if s = a then signed_by d n else 0)" using side h by simp
  also have "\<dots> = (\<Sum>leg\<leftarrow>legs. leg_flow a leg)" using total_side [OF n side] by simp
  finally show ?thesis .
qed

lemma net_sides_shape:
  assumes "net_sides single mixed = Inr (Some (netted, counter))"
  obtains shared x y where "single \<noteq> []" "mixed \<noteq> []" "length (assets_of single) = 1" "length (assets_of mixed) = 2"
    "shared = hd (assets_of single)" "shared \<in> set (assets_of mixed)"
    "total_amount single = Inr x" "total_amount (filter (\<lambda>leg. assetKey leg = shared) mixed) = Inr y" "0 < x - y"
    "netted = \<lparr>side_legs = single, netting = Some (x - y, map (\<lambda>leg. leg_str leg ''id'') (filter (\<lambda>leg. assetKey leg = shared) mixed))\<rparr>"
    "counter = \<lparr>side_legs = filter (\<lambda>leg. assetKey leg \<noteq> shared) mixed, netting = None\<rparr>"
  using assms by (auto simp: net_sides_def Let_def split: if_splits)

lemma counter_asset:
  assumes "length (assets_of mixed) = 2" "shared \<in> set (assets_of mixed)"
  obtains other where "filter (\<lambda>leg. assetKey leg \<noteq> shared) mixed \<noteq> []"
    "\<forall>leg\<in>set (filter (\<lambda>leg. assetKey leg \<noteq> shared) mixed). assetKey leg = other" "other \<noteq> shared"
proof -
  have d: "distinct (assets_of mixed)" by (simp add: assets_of_def)
  obtain u v where uv: "assets_of mixed = [u, v]" using assms(1) by (auto simp: length_Suc_conv numeral_2_eq_2)
  have keys: "assetKey ` set mixed = {u, v}" using arg_cong [OF uv, of set] by (simp add: assets_of_def)
  define other where "other = (if shared = u then v else u)"
  have o: "other \<noteq> shared" "{u, v} = {shared, other}" using assms(2) d by (auto simp: uv other_def)
  obtain leg where "leg \<in> set mixed" "assetKey leg = other" using keys o(2) by (metis image_iff insertCI)
  then have "filter (\<lambda>leg. assetKey leg \<noteq> shared) mixed \<noteq> []" using o(1) by (auto simp: filter_empty_conv)
  moreover have "\<forall>leg\<in>set (filter (\<lambda>leg. assetKey leg \<noteq> shared) mixed). assetKey leg = other"
    using keys o by auto
  ultimately show thesis using o(1) by (rule that)
qed

text \<open>A netted pair of sides carries the flow of all the legs it was made of.\<close>

lemma net_sides_flow:
  assumes net: "net_sides single mixed = Inr (Some (netted, counter))"
    and single: "\<forall>leg\<in>set single. leg_ok entry leg \<and> \<not> isSelf leg \<and> leg_dir leg = d"
    and mixed: "\<forall>leg\<in>set mixed. leg_ok entry leg \<and> \<not> isSelf leg \<and> leg_dir leg = d'" and opp: "d \<noteq> d'"
    and rn: "buildSwapSide entry (side_legs netted) c g (netting netted) = Inr row_n" "c \<noteq> ''INTERNAL_TRANSFER''"
    and rc: "buildSwapSide entry (side_legs counter) c' g' (netting counter) = Inr row_c" "c' \<noteq> ''INTERNAL_TRANSFER''"
  shows "row_flow entry a row_n + row_flow entry a row_c = (\<Sum>leg\<leftarrow>single. leg_flow a leg) + (\<Sum>leg\<leftarrow>mixed. leg_flow a leg)"
proof -
  obtain shared x y where s: "single \<noteq> []" "mixed \<noteq> []" "length (assets_of single) = 1" "length (assets_of mixed) = 2"
    "shared = hd (assets_of single)" "shared \<in> set (assets_of mixed)"
    "total_amount single = Inr x" "total_amount (filter (\<lambda>leg. assetKey leg = shared) mixed) = Inr y" "0 < x - y"
    "netted = \<lparr>side_legs = single, netting = Some (x - y, map (\<lambda>leg. leg_str leg ''id'') (filter (\<lambda>leg. assetKey leg = shared) mixed))\<rparr>"
    "counter = \<lparr>side_legs = filter (\<lambda>leg. assetKey leg \<noteq> shared) mixed, netting = None\<rparr>"
    by (rule net_sides_shape [OF net])
  let ?res = "filter (\<lambda>leg. assetKey leg = shared) mixed" and ?ctr = "filter (\<lambda>leg. assetKey leg \<noteq> shared) mixed"
  obtain other where o: "?ctr \<noteq> []" "\<forall>leg\<in>set ?ctr. assetKey leg = other" "other \<noteq> shared" by (rule counter_asset [OF s(4,6)])
  have one: "\<forall>leg\<in>set single. leg_ok entry leg \<and> \<not> isSelf leg \<and> leg_dir leg = d \<and> assetKey leg = shared"
    using single one_asset [OF s(3)] s(5) by simp
  have h: "hd single \<in> set single" using s(1) by simp
  have "row_flow entry a row_n = (if assetKey (hd single) = a then signed_by (leg_dir (hd single)) (x - y) else 0)"
  proof (rule swap_row_flow)
    show "buildSwapSide entry single c g (netting netted) = Inr row_n" using rn(1) by (simp add: s(10))
    show "(case netting netted of Some (x, _) \<Rightarrow> Inr x | None \<Rightarrow> total_amount single) = Inr (x - y)" by (simp add: s(10))
    show "leg_ok entry (hd single)" using one h by blast
  qed (rule s(1) rn(2))+
  also have "\<dots> = (if shared = a then signed_by d (x - y) else 0)" using one h by simp
  finally have n: "row_flow entry a row_n = (if shared = a then signed_by d (x - y) else 0)" .
  have ctr: "row_flow entry a row_c = (\<Sum>leg\<leftarrow>?ctr. leg_flow a leg)"
  proof (rule swap_side_flow [where d = d' and s = other])
    show "buildSwapSide entry ?ctr c' g' None = Inr row_c" using rc(1) by (simp add: s(11))
    show "\<forall>leg\<in>set ?ctr. leg_ok entry leg \<and> \<not> isSelf leg \<and> leg_dir leg = d' \<and> assetKey leg = other"
      using mixed o(2) by simp
  qed (rule o(1) rc(2))+
  have "(\<Sum>leg\<leftarrow>single. leg_flow a leg) = (if shared = a then signed_by d x else 0)" by (rule total_side [OF s(7) one])
  moreover have "(\<Sum>leg\<leftarrow>?res. leg_flow a leg) = (if shared = a then signed_by d' y else 0)"
    by (rule total_side [OF s(8)]) (use mixed in auto)
  moreover have "signed_by d (x - y) = signed_by d x + signed_by d' y"
    using opp by (cases d; cases d') (simp_all add: signed_by_def)
  ultimately show ?thesis
    unfolding n ctr sum_split [of "leg_flow a" mixed "\<lambda>leg. assetKey leg = shared"] by simp
qed

section \<open>A group\<close>

lemma forged_not_self: "isForgedLeg leg \<Longrightarrow> \<not> isSelf leg"
  by (auto simp: isForgedLeg_def)

lemma spam_rows_flow:
  "\<forall>leg\<in>set legs. leg_ok entry leg \<Longrightarrow>
   (\<Sum>row\<leftarrow>map (\<lambda>leg. buildLeg entry leg ''SPAM'' 0) (filter isForgedLeg legs). row_flow entry a row) = (\<Sum>leg\<leftarrow>filter isForgedLeg legs. leg_flow a leg)"
proof (induction legs)
  case (Cons leg legs)
  have "row_flow entry a (buildLeg entry leg ''SPAM'' 0) = leg_flow a leg" if "isForgedLeg leg"
    using Cons.prems forged_not_self [OF that] by (intro build_leg_flow) simp_all
  with Cons show ?case by simp
qed simp

lemma plain_row_flow: "leg_ok entry leg \<Longrightarrow> row_flow entry a (plain_row entry mix leg) = leg_flow a leg"
  by (simp add: plain_row_def build_leg_flow)

lemma plain_rows_flow: "\<forall>leg\<in>set legs. leg_ok entry leg \<Longrightarrow>
   (\<Sum>row\<leftarrow>map (plain_row entry mix) legs. row_flow entry a row) = (\<Sum>leg\<leftarrow>legs. leg_flow a leg)"
  by (induction legs) (simp_all add: plain_row_flow)

lemma self_flow: "(\<Sum>leg\<leftarrow>filter isSelf legs. leg_flow a leg) = 0"
  by (induction legs) (simp_all add: leg_flow_def)

lemma in_out_flow:
  "(\<Sum>leg\<leftarrow>legs. leg_flow a leg) = (\<Sum>leg\<leftarrow>filter (\<lambda>leg. \<not> isSelf leg \<and> leg_dir leg = DirIn) legs. leg_flow a leg) +
     (\<Sum>leg\<leftarrow>filter (\<lambda>leg. \<not> isSelf leg \<and> leg_dir leg = DirOut) legs. leg_flow a leg)"
proof (induction legs)
  case (Cons leg legs)
  then show ?case by (cases "isSelf leg"; cases "leg_dir leg") (simp_all add: leg_flow_def)
qed simp

lemma residual_cases:
  assumes "netSameAssetResidual inLegs outLegs = Inr (Some (outSide, inSide))"
  shows "net_sides outLegs inLegs = Inr (Some (outSide, inSide)) \<or> net_sides inLegs outLegs = Inr (Some (inSide, outSide))"
  using assms by (auto simp: netSameAssetResidual_def split: option.splits)

lemma swap_rows_parts:
  assumes "swap_rows entry g outSide inSide spam = Inr rows"
  obtains ro ri where "buildSwapSide entry (side_legs outSide) ''EXCHANGE'' g (netting outSide) = Inr ro"
    "buildSwapSide entry (side_legs inSide) ''RECEIVE'' g (netting inSide) = Inr ri" "rows = ro # ri # spam"
  using assms by (auto simp: swap_rows_def)

definition real_in :: "normalized_leg list \<Rightarrow> normalized_leg list" where
  "real_in legs = filter (\<lambda>leg. \<not> isSelf leg \<and> leg_dir leg = DirIn) (filter (\<lambda>leg. \<not> isForgedLeg leg) legs)"

definition real_out :: "normalized_leg list \<Rightarrow> normalized_leg list" where
  "real_out legs = filter (\<lambda>leg. \<not> isSelf leg \<and> leg_dir leg = DirOut) (filter (\<lambda>leg. \<not> isForgedLeg leg) legs)"

definition spam_rows :: "chain_entry \<Rightarrow> normalized_leg list \<Rightarrow> indexed_transaction list" where
  "spam_rows entry legs = map (\<lambda>leg. buildLeg entry leg ''SPAM'' 0) (filter isForgedLeg legs)"

lemma classify_unfold: "classifyGroup entry legs =
    (if swapLike (real_in legs) (real_out legs)
     then swap_rows entry (group_id_of entry (real_out legs)) \<lparr>side_legs = real_out legs, netting = None\<rparr>
       \<lparr>side_legs = real_in legs, netting = None\<rparr> (spam_rows entry legs)
     else rbind (netSameAssetResidual (real_in legs) (real_out legs)) (\<lambda>residual. case residual of
           Some (outSide, inSide) \<Rightarrow> swap_rows entry (group_id_of entry (real_out legs)) outSide inSide (spam_rows entry legs)
         | None \<Rightarrow> Inr (map (plain_row entry (real_in legs \<noteq> [] \<and> real_out legs \<noteq> [])) (filter (\<lambda>leg. \<not> isForgedLeg leg) legs) @
             spam_rows entry legs)))"
  by (simp only: classifyGroup_def Let_def real_in_def real_out_def spam_rows_def)

lemma classify_cases:
  assumes "classifyGroup entry legs = Inr rows"
  obtains "swapLike (real_in legs) (real_out legs)"
      "swap_rows entry (group_id_of entry (real_out legs)) \<lparr>side_legs = real_out legs, netting = None\<rparr>
        \<lparr>side_legs = real_in legs, netting = None\<rparr> (spam_rows entry legs) = Inr rows"
  | outSide inSide where "netSameAssetResidual (real_in legs) (real_out legs) = Inr (Some (outSide, inSide))"
      "swap_rows entry (group_id_of entry (real_out legs)) outSide inSide (spam_rows entry legs) = Inr rows"
  | "rows = map (plain_row entry (real_in legs \<noteq> [] \<and> real_out legs \<noteq> [])) (filter (\<lambda>leg. \<not> isForgedLeg leg) legs) @ spam_rows entry legs"
proof (cases "swapLike (real_in legs) (real_out legs)")
  case True
  then show ?thesis using that(1) assms by (simp only: classify_unfold if_True)
next
  case False
  with assms obtain residual where r: "netSameAssetResidual (real_in legs) (real_out legs) = Inr residual"
    "(case residual of
         Some (outSide, inSide) \<Rightarrow> swap_rows entry (group_id_of entry (real_out legs)) outSide inSide (spam_rows entry legs)
       | None \<Rightarrow> Inr (map (plain_row entry (real_in legs \<noteq> [] \<and> real_out legs \<noteq> [])) (filter (\<lambda>leg. \<not> isForgedLeg leg) legs) @
           spam_rows entry legs)) = Inr rows"
    by (simp only: classify_unfold if_False rbind_Inr) blast
  show ?thesis
  proof (cases residual)
    case None
    then show ?thesis using r(2) that(3) by simp
  next
    case (Some sides)
    obtain outSide inSide where "sides = (outSide, inSide)" by (cases sides)
    then show ?thesis using r Some that(2) [of outSide inSide] by simp
  qed
qed

lemma classify_flow:
  assumes "classifyGroup entry legs = Inr rows" and ok: "\<forall>leg\<in>set legs. leg_ok entry leg"
  shows "(\<Sum>row\<leftarrow>rows. row_flow entry a row) = (\<Sum>leg\<leftarrow>legs. leg_flow a leg)"
proof -
  let ?real = "filter (\<lambda>leg. \<not> isForgedLeg leg) legs"
  have spam: "(\<Sum>row\<leftarrow>spam_rows entry legs. row_flow entry a row) = (\<Sum>leg\<leftarrow>filter isForgedLeg legs. leg_flow a leg)"
    unfolding spam_rows_def by (rule spam_rows_flow [OF ok])
  have all: "(\<Sum>leg\<leftarrow>legs. leg_flow a leg) = (\<Sum>leg\<leftarrow>filter isForgedLeg legs. leg_flow a leg) + (\<Sum>leg\<leftarrow>?real. leg_flow a leg)"
    by (rule sum_split)
  have real: "(\<Sum>leg\<leftarrow>?real. leg_flow a leg) = (\<Sum>leg\<leftarrow>real_in legs. leg_flow a leg) + (\<Sum>leg\<leftarrow>real_out legs. leg_flow a leg)"
    unfolding real_in_def real_out_def by (rule in_out_flow)
  have i: "\<forall>leg\<in>set (real_in legs). leg_ok entry leg \<and> \<not> isSelf leg \<and> leg_dir leg = DirIn"
    and u: "\<forall>leg\<in>set (real_out legs). leg_ok entry leg \<and> \<not> isSelf leg \<and> leg_dir leg = DirOut"
    using ok by (simp_all add: real_in_def real_out_def)
  from assms(1) show ?thesis
  proof (rule classify_cases)
    assume sl: "swapLike (real_in legs) (real_out legs)" and rows: "swap_rows entry (group_id_of entry (real_out legs))
      \<lparr>side_legs = real_out legs, netting = None\<rparr> \<lparr>side_legs = real_in legs, netting = None\<rparr> (spam_rows entry legs) = Inr rows"
    obtain ro ri where r: "buildSwapSide entry (real_out legs) ''EXCHANGE'' (group_id_of entry (real_out legs)) None = Inr ro"
      "buildSwapSide entry (real_in legs) ''RECEIVE'' (group_id_of entry (real_out legs)) None = Inr ri" "rows = ro # ri # spam_rows entry legs"
      using rows by (rule swap_rows_parts) simp
    have "row_flow entry a ro = (\<Sum>leg\<leftarrow>real_out legs. leg_flow a leg)"
      by (rule swap_side_flow [OF r(1), where d = DirOut and s = "hd (assets_of (real_out legs))"])
        (use sl u one_asset in \<open>simp_all add: swapLike_def\<close>)
    moreover have "row_flow entry a ri = (\<Sum>leg\<leftarrow>real_in legs. leg_flow a leg)"
      by (rule swap_side_flow [OF r(2), where d = DirIn and s = "hd (assets_of (real_in legs))"])
        (use sl i one_asset in \<open>simp_all add: swapLike_def\<close>)
    ultimately show ?thesis using spam all real by (simp add: r(3))
  next
    fix outSide inSide
    assume n: "netSameAssetResidual (real_in legs) (real_out legs) = Inr (Some (outSide, inSide))"
      and rows: "swap_rows entry (group_id_of entry (real_out legs)) outSide inSide (spam_rows entry legs) = Inr rows"
    obtain ro ri where r: "buildSwapSide entry (side_legs outSide) ''EXCHANGE'' (group_id_of entry (real_out legs)) (netting outSide) = Inr ro"
      "buildSwapSide entry (side_legs inSide) ''RECEIVE'' (group_id_of entry (real_out legs)) (netting inSide) = Inr ri"
      "rows = ro # ri # spam_rows entry legs"
      using rows by (rule swap_rows_parts)
    have "row_flow entry a ro + row_flow entry a ri = (\<Sum>leg\<leftarrow>real_out legs. leg_flow a leg) + (\<Sum>leg\<leftarrow>real_in legs. leg_flow a leg)"
      using residual_cases [OF n]
    proof
      assume n: "net_sides (real_out legs) (real_in legs) = Inr (Some (outSide, inSide))"
      show ?thesis by (rule net_sides_flow [OF n u i _ r(1) _ r(2)]) simp_all
    next
      assume n: "net_sides (real_in legs) (real_out legs) = Inr (Some (inSide, outSide))"
      have "row_flow entry a ri + row_flow entry a ro = (\<Sum>leg\<leftarrow>real_in legs. leg_flow a leg) + (\<Sum>leg\<leftarrow>real_out legs. leg_flow a leg)"
        by (rule net_sides_flow [OF n i u _ r(2) _ r(1)]) simp_all
      then show ?thesis by simp
    qed
    then show ?thesis using spam all real by (simp add: r(3))
  next
    assume "rows = map (plain_row entry (real_in legs \<noteq> [] \<and> real_out legs \<noteq> [])) ?real @ spam_rows entry legs"
    moreover have "(\<Sum>row\<leftarrow>map (plain_row entry (real_in legs \<noteq> [] \<and> real_out legs \<noteq> [])) ?real. row_flow entry a row) =
        (\<Sum>leg\<leftarrow>?real. leg_flow a leg)"
      by (rule plain_rows_flow) (use ok in simp)
    ultimately show ?thesis using spam all by simp
  qed
qed

section \<open>From transfers to rows\<close>

lemma rmap_mem: "rmap f xs = Inr ys \<Longrightarrow> y \<in> set ys \<Longrightarrow> \<exists>x\<in>set xs. f x = Inr y"
  by (induction xs arbitrary: ys) auto

lemma rmap_sum:
  assumes "rmap f xs = Inr ys" "\<And>x y. x \<in> set xs \<Longrightarrow> f x = Inr y \<Longrightarrow> g y = h x"
  shows "(\<Sum>y\<leftarrow>ys. g y) = (\<Sum>x\<leftarrow>xs. h x :: int)"
  using assms by (induction xs arbitrary: ys) auto

lemma rmap_total: "(\<forall>x\<in>set xs. \<exists>y. f x = Inr y) \<Longrightarrow> \<exists>ys. rmap f xs = Inr ys"
  by (induction xs) auto

lemma raw_amount_form: "parseRawAmount v = Inr s \<Longrightarrow> \<exists>n. s = int_str n"
  by (auto simp: parseRawAmount_def split: option.splits if_splits)

text \<open>The fields of a fresh leg.\<close>

lemma make_leg_get:
  "pget (leg_payload (makeLeg entry address t storage amount token)) ''id'' = VStr storage"
  "pget (leg_payload (makeLeg entry address t storage amount token)) ''chain_id'' = jint (chainId entry)"
  "pget (leg_payload (makeLeg entry address t storage amount token)) ''direction'' = VStr (dir_str (lt_dir t))"
  "pget (leg_payload (makeLeg entry address t storage amount token)) ''asset_type'' = VStr (lt_assetType t)"
  "pget (leg_payload (makeLeg entry address t storage amount token)) ''asset_contract'' = str_or_null (lt_contract t)"
  "pget (leg_payload (makeLeg entry address t storage amount token)) ''token_id'' = str_or_null token"
  "pget (leg_payload (makeLeg entry address t storage amount token)) ''raw_amount'' = VStr amount"
  "pget (leg_payload (makeLeg entry address t storage amount token)) ''user_override'' = VNull"
  "pget (leg_payload (makeLeg entry address t storage amount token)) ''price_status'' = VStr ''UNKNOWN''"
  by (simp_all add: makeLeg_def pget_def)

lemma str_of_or_null [simp]: "str_of (str_or_null v) = v"
  by (simp add: str_of_def str_or_null_def split: option.splits)

text \<open>What every leg the normalizer makes satisfies.\<close>

definition fresh_leg :: "chain_entry \<Rightarrow> normalized_leg \<Rightarrow> bool" where
  "fresh_leg entry leg \<longleftrightarrow> leg_ok entry leg \<and> pget (leg_payload leg) ''id'' = VStr (storageTxHash leg) \<and>
     pget (leg_payload leg) ''chain_id'' = jint (chainId entry) \<and> (\<exists>n. pget (leg_payload leg) ''raw_amount'' = VStr (int_str n)) \<and>
     pget (leg_payload leg) ''user_override'' = VNull \<and> pget (leg_payload leg) ''price_status'' = VStr ''UNKNOWN'' \<and>
     (isSelf leg \<longrightarrow> leg_dir leg = DirOut)"

lemma make_leg_fresh:
  assumes "lt_self t \<longrightarrow> lt_dir t = DirOut"
  shows "fresh_leg entry (makeLeg entry address t storage (int_str n) token)"
proof -
  have "leg_amount (makeLeg entry address t storage (int_str n) token) = Inr n"
    by (simp add: leg_amount_def leg_str_def make_leg_get)
  moreover have "assetKey (makeLeg entry address t storage (int_str n) token) =
      payload_asset entry (leg_payload (makeLeg entry address t storage (int_str n) token))"
    by (simp add: payload_asset_def make_leg_get) (simp add: makeLeg_def)
  moreover have "leg_dir (makeLeg entry address t storage (int_str n) token) = lt_dir t"
    "isSelf (makeLeg entry address t storage (int_str n) token) = lt_self t"
    "storageTxHash (makeLeg entry address t storage (int_str n) token) = storage" by (simp_all add: makeLeg_def)
  moreover have "\<exists>m. VStr (int_str n) = VStr (int_str m)" by blast
  ultimately show ?thesis using assms by (simp only: fresh_leg_def leg_ok_def make_leg_get) simp
qed

lemma template_self: "leg_template_of H entry wallet u transfer = Inr t \<Longrightarrow> lt_self t \<longrightarrow> lt_dir t = DirOut"
  by (auto simp: leg_template_of_def wallet_side_def Let_def split: if_splits option.splits)

lemma transfer_legs_fresh:
  assumes "normalizeTransfer H entry address wallet u transfer = Inr legs" "leg \<in> set legs"
  shows "fresh_leg entry leg"
proof -
  obtain t where t: "leg_template_of H entry wallet u transfer = Inr t"
    using assms(1) by (auto simp: normalizeTransfer_def)
  note self = template_self [OF t]
  let ?items = "case js_get transfer ''erc1155Metadata'' of VArr xs \<Rightarrow> xs | _ \<Rightarrow> []"
  have one: "''1'' = int_str 1" by code_simp
  consider "rmap (erc1155_leg entry address u t) (zip [0..<length ?items] ?items) = Inr legs"
    | tok where "legs = [makeLeg entry address t (storage_key entry u) ''1'' tok]"
    | amt where "parseRawAmount (js_get (js_get transfer ''rawContract'') ''value'') = Inr amt"
        "legs = [makeLeg entry address t (storage_key entry u) amt None]"
    using assms(1) by (auto simp: normalizeTransfer_def t Let_def split: if_splits)
  then show ?thesis
  proof cases
    case 1
    obtain item where "erc1155_leg entry address u t item = Inr leg" using rmap_mem [OF 1 assms(2)] by blast
    then show ?thesis using make_leg_fresh [OF self] raw_amount_form by (fastforce simp: erc1155_leg_def)
  next
    case 2
    then show ?thesis using assms(2) make_leg_fresh [OF self, of entry address "storage_key entry u" 1] by (simp add: one)
  next
    case 3
    then show ?thesis using assms(2) make_leg_fresh [OF self] raw_amount_form [OF 3(1)] by auto
  qed
qed

lemma fresh_ok: "fresh_leg entry leg \<Longrightarrow> leg_ok entry leg"
  by (simp add: fresh_leg_def)

lemma group_legs_fresh:
  assumes "\<forall>leg\<in>set legs. fresh_leg entry leg" "bucket \<in> set (mvalues (foldl (group_add pureHash) [] legs))" "leg \<in> set bucket"
  shows "fresh_leg entry leg"
  using assms unfolding group_values by auto

lemma sum_concat: "(\<Sum>x\<leftarrow>concat xss. f x) = (\<Sum>xs\<leftarrow>xss. \<Sum>x\<leftarrow>xs. f x :: int)"
  by (induction xss) auto

lemma sum_mset_list: "mset xs = mset ys \<Longrightarrow> (\<Sum>x\<leftarrow>xs. f x) = (\<Sum>y\<leftarrow>ys. f y :: int)"
  by (metis mset_map sum_mset_sum_list)

lemma chain_parts:
  assumes "normalizeChain H entry address wallet inbound outbound traced = Inr rows"
  obtains m legss rowss where "by_unique_id [] (inbound @ outbound @ traced) = Inr m"
    "rmap (\<lambda>(u, t). normalizeTransfer H entry address wallet u t) m = Inr legss"
    "rmap (classifyGroup entry) (mvalues (foldl (group_add pureHash) [] (concat legss))) = Inr rowss" "rows = concat rowss"
  using assms by (auto simp: normalizeChain_def Let_def)

lemma chain_legs_fresh:
  assumes "rmap (\<lambda>(u, t). normalizeTransfer H entry address wallet u t) m = Inr legss" "leg \<in> set (concat legss)"
  shows "fresh_leg entry leg"
proof -
  obtain legs where "legs \<in> set legss" "leg \<in> set legs" using assms(2) by auto
  then show ?thesis using rmap_mem [OF assms(1)] transfer_legs_fresh by fastforce
qed

lemma chain_groups:
  assumes "rmap (\<lambda>(u, t). normalizeTransfer H entry address wallet u t) m = Inr legss"
    and "bucket \<in> set (mvalues (foldl (group_add pureHash) [] (concat legss)))"
  shows "\<forall>leg\<in>set bucket. fresh_leg entry leg" "bucket \<noteq> []"
proof -
  show "\<forall>leg\<in>set bucket. fresh_leg entry leg"
    using group_legs_fresh [OF _ assms(2)] chain_legs_fresh [OF assms(1)] by blast
  obtain x where "x \<in> set (concat legss)" "bucket = filter (\<lambda>y. pureHash y = pureHash x) (concat legss)"
    using assms(2) unfolding group_values by auto
  then show "bucket \<noteq> []" by (auto simp: filter_empty_conv)
qed

text \<open>The shape of a row.\<close>

definition CLASSIFICATIONS :: "string list" where
  "CLASSIFICATIONS = [''RECEIVE'', ''SEND'', ''EXCHANGE'', ''INTERNAL_TRANSFER'', ''UNKNOWN'', ''SPAM'']"

definition row_ok :: "chain_entry \<Rightarrow> indexed_transaction \<Rightarrow> bool" where
  "row_ok entry row \<longleftrightarrow> (let p = i_payload row in
     pget p ''id'' = VStr (i_txHash row) \<and> i_chain row = int_str (chainId entry) \<and> pget p ''chain_id'' = jint (chainId entry) \<and>
     pget p ''user_override'' = VNull \<and> pget p ''price_status'' = VStr ''UNKNOWN'' \<and>
     (\<exists>n. pget p ''raw_amount'' = VStr (int_str n)) \<and>
     (\<exists>c\<in>set CLASSIFICATIONS. pget p ''classification'' = VStr c \<and>
        i_eventType row = (if c = ''EXCHANGE'' then ''swap'' else if pget p ''direction'' = VStr ''IN'' then ''transfer_in'' else ''transfer_out'')) \<and>
     (\<exists>q. pget p ''confidence'' = VNum (JFin q) \<and> 0 \<le> q \<and> q \<le> 9 / 10))"

lemma dir_val_eq [simp]: "VStr (dir_str d) = VStr ''IN'' \<longleftrightarrow> d = DirIn"
  by (cases d) (simp_all add: dir_str_def)

lemma build_leg_ok:
  assumes "fresh_leg entry leg" "c \<in> set CLASSIFICATIONS" "0 \<le> q" "q \<le> 9 / 10"
  shows "row_ok entry (buildLeg entry leg c q)"
proof -
  have t: "i_txHash (buildLeg entry leg c q) = storageTxHash leg" "i_chain (buildLeg entry leg c q) = int_str (chainId entry)"
    "i_eventType (buildLeg entry leg c q) = (if c = ''EXCHANGE'' then ''swap'' else if leg_dir leg = DirIn then ''transfer_in'' else ''transfer_out'')"
    by (simp_all add: buildLeg_def Let_def)
  have n: "k \<notin> fst ` set (bridge_fields s l)" if "k \<notin> {''bridge_suspected'', ''counterparty_label''}" for s l k
    using bridge_fields_keys [of s l] that by auto
  have conf: "pget (i_payload (buildLeg entry leg c q)) ''confidence'' = VNum (JFin q') \<and> 0 \<le> q' \<and> q' \<le> 9 / 10"
    if "q' = (if \<not> isSelf leg \<and> isBridgeContract (chainId entry) (leg_str leg ''counterparty'') then min q BRIDGE_REVIEW_CONFIDENCE else q)" for q'
    using assms(3,4) that by (simp add: buildLeg_def Let_def pget_pspread n BRIDGE_REVIEW_CONFIDENCE_def min_def)
  have cls: "\<exists>c'\<in>set CLASSIFICATIONS. VStr c = VStr c' \<and>
      (if c = ''EXCHANGE'' then ''swap'' else if leg_dir leg = DirIn then ''transfer_in'' else ''transfer_out'') =
      (if c' = ''EXCHANGE'' then ''swap'' else if leg_dir leg = DirIn then ''transfer_in'' else ''transfer_out'')"
    using assms(2) by blast
  have f: "pget (leg_payload leg) ''direction'' = VStr (dir_str (leg_dir leg))" "pget (leg_payload leg) ''id'' = VStr (storageTxHash leg)"
    "pget (leg_payload leg) ''chain_id'' = jint (chainId entry)" "pget (leg_payload leg) ''user_override'' = VNull"
    "pget (leg_payload leg) ''price_status'' = VStr ''UNKNOWN''" using assms(1) by (simp_all add: fresh_leg_def leg_ok_def)
  have amt: "\<exists>n. pget (i_payload (buildLeg entry leg c q)) ''raw_amount'' = VStr (int_str n)"
    using assms(1) by (simp add: fresh_leg_def build_leg_get)
  have cls': "\<exists>c'\<in>set CLASSIFICATIONS. pget (i_payload (buildLeg entry leg c q)) ''classification'' = VStr c' \<and>
      i_eventType (buildLeg entry leg c q) = (if c' = ''EXCHANGE'' then ''swap''
        else if pget (i_payload (buildLeg entry leg c q)) ''direction'' = VStr ''IN'' then ''transfer_in'' else ''transfer_out'')"
    using cls by (simp only: build_leg_get(1) t(3) build_leg_get(2) [of "''direction''"] row_fields_def list.set insert_iff f dir_val_eq simp_thms)
  have q: "\<exists>q'. pget (i_payload (buildLeg entry leg c q)) ''confidence'' = VNum (JFin q') \<and> 0 \<le> q' \<and> q' \<le> 9 / 10"
    using conf [OF refl] by blast
  show ?thesis
    unfolding row_ok_def Let_def using amt cls' q by (simp add: build_leg_get(2) row_fields_def f t(1,2))
qed

lemma plain_row_ok: "fresh_leg entry leg \<Longrightarrow> row_ok entry (plain_row entry mix leg)"
  unfolding plain_row_def by (auto intro!: build_leg_ok simp: CLASSIFICATIONS_def)

lemma swap_side_ok:
  assumes "buildSwapSide entry legs c g nt = Inr row" "fresh_leg entry (hd legs)"
    and "c = ''EXCHANGE'' \<and> leg_dir (hd legs) = DirOut \<or> c = ''RECEIVE'' \<and> leg_dir (hd legs) = DirIn"
  shows "row_ok entry row"
proof -
  note get = swap_side_get [OF assms(1)]
  have conf: "\<exists>q. pget (i_payload row) ''confidence'' = VNum (JFin q) \<and> 0 \<le> q \<and> q \<le> 9 / 10"
  proof -
    let ?q = "if list_ex (\<lambda>leg. isBridgeContract (chainId entry) (leg_str leg ''counterparty'')) legs
        then min SWAP_CONFIDENCE BRIDGE_REVIEW_CONFIDENCE else SWAP_CONFIDENCE"
    let ?extra = "(if c = ''RECEIVE'' then [(''income_kind'', VNull)] else []) @
     (case nt of Some (_, absorbed) \<Rightarrow> [(''netted_leg_ids'', VArr (map VStr absorbed))] | None \<Rightarrow> []) @
     bridge_fields (list_ex (\<lambda>leg. isBridgeContract (chainId entry) (leg_str leg ''counterparty'')) legs)
       (bridgeContractLabel (chainId entry) (leg_str (hd legs) ''counterparty''))"
    have "''confidence'' \<notin> fst ` set ?extra"
      using bridge_fields_keys by (auto split: option.splits)
    then have "pget (i_payload row) ''confidence'' = VNum (JFin ?q)"
      using assms(1) by (auto simp: buildSwapSide_def Let_def pget_pspread simp del: append.simps)
    moreover have "0 \<le> ?q \<and> ?q \<le> 9 / 10" by (simp add: SWAP_CONFIDENCE_def BRIDGE_REVIEW_CONFIDENCE_def)
    ultimately show ?thesis by blast
  qed
  have amt: "\<exists>n. pget (i_payload row) ''raw_amount'' = VStr (int_str n)" using get(3) by blast
  have f: "pget (leg_payload (hd legs)) ''direction'' = VStr (dir_str (leg_dir (hd legs)))" "pget (leg_payload (hd legs)) ''id'' = VStr (storageTxHash (hd legs))"
    "pget (leg_payload (hd legs)) ''chain_id'' = jint (chainId entry)" "pget (leg_payload (hd legs)) ''user_override'' = VNull"
    "pget (leg_payload (hd legs)) ''price_status'' = VStr ''UNKNOWN''" using assms(2) by (simp_all add: fresh_leg_def leg_ok_def)
  have cls: "\<exists>c'\<in>set CLASSIFICATIONS. pget (i_payload row) ''classification'' = VStr c' \<and>
      i_eventType row = (if c' = ''EXCHANGE'' then ''swap'' else if pget (i_payload row) ''direction'' = VStr ''IN'' then ''transfer_in'' else ''transfer_out'')"
    using assms(3) by (auto simp: get(1,4,5) row_fields_def f CLASSIFICATIONS_def)
  show ?thesis
    unfolding row_ok_def Let_def using conf amt cls by (simp add: get(4,6,7) row_fields_def f)
qed

lemma hd_side: "\<forall>leg\<in>set legs. P leg \<Longrightarrow> legs \<noteq> [] \<Longrightarrow> P (hd legs)"
  by simp

lemma net_sides_hd:
  assumes "net_sides single mixed = Inr (Some (netted, counter))"
  shows "side_legs netted \<noteq> [] \<and> set (side_legs netted) \<subseteq> set single" "side_legs counter \<noteq> [] \<and> set (side_legs counter) \<subseteq> set mixed"
proof -
  obtain shared x y where s: "single \<noteq> []" "length (assets_of mixed) = 2" "shared \<in> set (assets_of mixed)"
    "netted = \<lparr>side_legs = single, netting = Some (x - y, map (\<lambda>leg. leg_str leg ''id'') (filter (\<lambda>leg. assetKey leg = shared) mixed))\<rparr>"
    "counter = \<lparr>side_legs = filter (\<lambda>leg. assetKey leg \<noteq> shared) mixed, netting = None\<rparr>"
    by (rule net_sides_shape [OF assms]) blast
  show "side_legs netted \<noteq> [] \<and> set (side_legs netted) \<subseteq> set single" by (simp add: s)
  obtain other where "filter (\<lambda>leg. assetKey leg \<noteq> shared) mixed \<noteq> []" by (rule counter_asset [OF s(2,3)]) blast
  then show "side_legs counter \<noteq> [] \<and> set (side_legs counter) \<subseteq> set mixed" unfolding s(5) by (simp only: swap_side.simps) force
qed

lemma classify_rows_ok:
  assumes "classifyGroup entry legs = Inr rows" and fresh: "\<forall>leg\<in>set legs. fresh_leg entry leg" and "row \<in> set rows"
  shows "row_ok entry row"
proof -
  have spam: "row_ok entry row" if "row \<in> set (spam_rows entry legs)" for row
    using that fresh by (auto simp: spam_rows_def CLASSIFICATIONS_def intro!: build_leg_ok)
  have i: "\<forall>leg\<in>set (real_in legs). fresh_leg entry leg \<and> leg_dir leg = DirIn"
    and u: "\<forall>leg\<in>set (real_out legs). fresh_leg entry leg \<and> leg_dir leg = DirOut"
    using fresh by (simp_all add: real_in_def real_out_def)
  have swap: "row_ok entry row" if rows: "swap_rows entry g outSide inSide (spam_rows entry legs) = Inr rows"
    and "side_legs outSide \<noteq> [] \<and> set (side_legs outSide) \<subseteq> set (real_out legs)"
    and "side_legs inSide \<noteq> [] \<and> set (side_legs inSide) \<subseteq> set (real_in legs)" for g outSide inSide
  proof -
    obtain ro ri where r: "buildSwapSide entry (side_legs outSide) ''EXCHANGE'' g (netting outSide) = Inr ro"
      "buildSwapSide entry (side_legs inSide) ''RECEIVE'' g (netting inSide) = Inr ri" "rows = ro # ri # spam_rows entry legs"
      using rows by (rule swap_rows_parts)
    have ho: "fresh_leg entry (hd (side_legs outSide)) \<and> leg_dir (hd (side_legs outSide)) = DirOut"
      and hi: "fresh_leg entry (hd (side_legs inSide)) \<and> leg_dir (hd (side_legs inSide)) = DirIn"
      using that(2,3) i u hd_in_set by blast+
    have "row_ok entry ro" by (rule swap_side_ok [OF r(1)]) (use ho in simp_all)
    moreover have "row_ok entry ri" by (rule swap_side_ok [OF r(2)]) (use hi in simp_all)
    ultimately show ?thesis using assms(3) spam by (auto simp: r(3))
  qed
  from assms(1) show ?thesis
  proof (rule classify_cases)
    assume sl: "swapLike (real_in legs) (real_out legs)" and rows: "swap_rows entry (group_id_of entry (real_out legs))
      \<lparr>side_legs = real_out legs, netting = None\<rparr> \<lparr>side_legs = real_in legs, netting = None\<rparr> (spam_rows entry legs) = Inr rows"
    have "real_in legs \<noteq> []" "real_out legs \<noteq> []" using sl by (simp_all add: swapLike_def)
    then show ?thesis by (intro swap [OF rows]) simp_all
  next
    fix outSide inSide
    assume n: "netSameAssetResidual (real_in legs) (real_out legs) = Inr (Some (outSide, inSide))"
      and rows: "swap_rows entry (group_id_of entry (real_out legs)) outSide inSide (spam_rows entry legs) = Inr rows"
    from residual_cases [OF n] show ?thesis
    proof
      assume "net_sides (real_out legs) (real_in legs) = Inr (Some (outSide, inSide))"
      from net_sides_hd [OF this] show ?thesis by (rule swap [OF rows])
    next
      assume "net_sides (real_in legs) (real_out legs) = Inr (Some (inSide, outSide))"
      from net_sides_hd [OF this] show ?thesis by (intro swap [OF rows])
    qed
  next
    assume "rows = map (plain_row entry (real_in legs \<noteq> [] \<and> real_out legs \<noteq> [])) (filter (\<lambda>leg. \<not> isForgedLeg leg) legs) @ spam_rows entry legs"
    then show ?thesis using assms(3) spam fresh by (auto intro!: plain_row_ok)
  qed
qed

section \<open>The log index\<close>

lemma digits_only_nat_str: "takeWhile (\<lambda>c. digit_in 10 c \<noteq> None) (rev (nat_str k) @ CHR '':'' # r) = rev (nat_str k)"
proof -
  have "digit_in 10 c \<noteq> None" if "c \<in> set (nat_str k)" for c
    using that set_to_base [of 10 k] by (auto simp: nat_str_def)
  moreover have "digit_in 10 (CHR '':'') = None" by code_simp
  ultimately show ?thesis by (simp add: takeWhile_append)
qed

lemma log_suffix_nat: "log_suffix (pre @ '':log:'' @ nat_str k) = Some (nat_str k)"
proof -
  have "rev (pre @ '':log:'' @ nat_str k) = rev (nat_str k) @ CHR '':'' # rev (pre @ '':log'')" by simp
  then have ds: "rev (takeWhile (\<lambda>c. digit_in 10 c \<noteq> None) (rev (pre @ '':log:'' @ nat_str k))) = nat_str k"
    by (simp only: digits_only_nat_str rev_rev_ident)
  show ?thesis
    unfolding log_suffix_def Let_def ds using nat_str_not_empty [of k] by simp
qed

section \<open>Properties\<close>

text \<open>C9. Normalization neither loses nor invents an amount. When a chain normalizes, the net flow of every
  asset over the rows it writes (summed sides of a swap, a residual netted away and spam rows included) is
  the net flow over the transfers it was given, each counted once; a self transfer moves nothing.\<close>

theorem normalize_conserves_flow:
  assumes "normalizeChain H entry address wallet inbound outbound traced = Inr rows"
  shows "\<exists>m legss. by_unique_id [] (inbound @ outbound @ traced) = Inr m \<and>
    rmap (\<lambda>(u, t). normalizeTransfer H entry address wallet u t) m = Inr legss \<and>
    (\<forall>a. (\<Sum>row\<leftarrow>rows. row_flow entry a row) = (\<Sum>leg\<leftarrow>concat legss. leg_flow a leg))"
proof -
  obtain m legss rowss where p: "by_unique_id [] (inbound @ outbound @ traced) = Inr m"
    "rmap (\<lambda>(u, t). normalizeTransfer H entry address wallet u t) m = Inr legss"
    "rmap (classifyGroup entry) (mvalues (foldl (group_add pureHash) [] (concat legss))) = Inr rowss" "rows = concat rowss"
    by (rule chain_parts [OF assms])
  let ?buckets = "mvalues (foldl (group_add pureHash) [] (concat legss))"
  have "(\<Sum>row\<leftarrow>rows. row_flow entry a row) = (\<Sum>leg\<leftarrow>concat legss. leg_flow a leg)" for a
  proof -
    have "(\<Sum>row\<leftarrow>rows. row_flow entry a row) = (\<Sum>rs\<leftarrow>rowss. \<Sum>row\<leftarrow>rs. row_flow entry a row)"
      by (simp only: p(4) sum_concat)
    also have "\<dots> = (\<Sum>bucket\<leftarrow>?buckets. \<Sum>leg\<leftarrow>bucket. leg_flow a leg)"
    proof (rule rmap_sum [OF p(3)])
      fix bucket rs assume b: "bucket \<in> set ?buckets" "classifyGroup entry bucket = Inr rs"
      show "(\<Sum>row\<leftarrow>rs. row_flow entry a row) = (\<Sum>leg\<leftarrow>bucket. leg_flow a leg)"
        by (rule classify_flow [OF b(2)]) (use chain_groups(1) [OF p(2) b(1)] fresh_ok in blast)
    qed
    also have "\<dots> = (\<Sum>leg\<leftarrow>concat ?buckets. leg_flow a leg)" by (simp only: sum_concat)
    also have "\<dots> = (\<Sum>leg\<leftarrow>concat legss. leg_flow a leg)" by (rule sum_mset_list [OF group_mset])
    finally show ?thesis .
  qed
  then show ?thesis using p(1,2) by blast
qed

definition sample_transfer :: "string \<Rightarrow> string \<Rightarrow> string \<Rightarrow> string \<Rightarrow> string \<Rightarrow> string \<Rightarrow> jsv" where
  "sample_transfer i category from to contract amount = VObj [(''uniqueId'', VStr i), (''hash'', VStr ''0xAb''), (''category'', VStr category),
     (''from'', VStr from), (''to'', VStr to), (''asset'', VStr ''USDC''),
     (''rawContract'', VObj [(''value'', VStr amount), (''address'', VStr contract), (''decimal'', VStr ''0x6'')]),
     (''metadata'', VObj [(''blockTimestamp'', VStr ''2025-01-01T00:00:00.000Z'')])]"

definition sample_chain :: "(string, indexed_transaction list) result" where
  "sample_chain = normalizeChain std_host (hd CHAIN_REGISTRY) ''0xW'' ''0xw''
     [sample_transfer ''a'' ''external'' ''0xr'' ''0xw'' [] ''0x10'', sample_transfer ''b'' ''erc20'' ''0xr'' ''0xw'' ''0xT'' ''0x2'']
     [sample_transfer ''c:log:3'' ''erc20'' ''0xW'' ''0xr'' ''0xT'' ''0x64'', sample_transfer ''c:log:3'' ''erc20'' ''0xW'' ''0xr'' ''0xT'' ''0x64''] []"

definition sample_rows :: "indexed_transaction list" where
  "sample_rows = (case sample_chain of Inr rows \<Rightarrow> rows | Inl _ \<Rightarrow> [])"

lemma sample_chain_rows: "sample_chain = Inr sample_rows"
proof -
  have "\<not> isl sample_chain" by code_simp
  then obtain rows where rows: "sample_chain = Inr rows" by (metis isl_def sum.exhaust)
  show ?thesis unfolding sample_rows_def rows sum.case ..
qed

theorem normalize_conserves_flow_witness:
  "map (\<lambda>row. (i_eventType row, pget (i_payload row) ''raw_amount'')) sample_rows = [(''swap'', VStr ''98''), (''transfer_in'', VStr ''16'')] \<and>
   (\<exists>legss. (\<Sum>row\<leftarrow>sample_rows. row_flow (hd CHAIN_REGISTRY) ''1:ERC20:0xt:'' row) = (\<Sum>leg\<leftarrow>concat legss. leg_flow ''1:ERC20:0xt:'' leg) \<and>
      length legss = 3)"
proof -
  obtain m legss where m: "by_unique_id [] ([sample_transfer ''a'' ''external'' ''0xr'' ''0xw'' [] ''0x10'', sample_transfer ''b'' ''erc20'' ''0xr'' ''0xw'' ''0xT'' ''0x2''] @
      [sample_transfer ''c:log:3'' ''erc20'' ''0xW'' ''0xr'' ''0xT'' ''0x64'', sample_transfer ''c:log:3'' ''erc20'' ''0xW'' ''0xr'' ''0xT'' ''0x64''] @ []) = Inr m"
    "rmap (\<lambda>(u, t). normalizeTransfer std_host (hd CHAIN_REGISTRY) ''0xW'' ''0xw'' u t) m = Inr legss"
    "\<forall>a. (\<Sum>row\<leftarrow>sample_rows. row_flow (hd CHAIN_REGISTRY) a row) = (\<Sum>leg\<leftarrow>concat legss. leg_flow a leg)"
    using normalize_conserves_flow [OF sample_chain_rows [unfolded sample_chain_def]] by blast
  have "length m = 3"
    using m(1) by (simp add: unique_id_def js_get_def sample_transfer_def pget_def str_of_def trim_def is_space_def) auto
  moreover have "length ys = length xs" if "rmap f xs = Inr ys" for f xs and ys :: "normalized_leg list list"
    using that by (induction xs arbitrary: ys) auto
  ultimately have "length legss = 3" using m(2) by metis
  moreover have "map (\<lambda>row. (i_eventType row, pget (i_payload row) ''raw_amount'')) sample_rows = [(''swap'', VStr ''98''), (''transfer_in'', VStr ''16'')]"
    by code_simp
  ultimately show ?thesis using m(3) by blast
qed



text \<open>The derived log index is a safe integer. A transfer id that ends in a log position gives that position back;
  any other id gives a 32-bit hash; a position beyond the safe integers withholds the chain.\<close>

theorem log_index_safe:
  "(case deriveLogIndex u of Inl _ \<Rightarrow> log_suffix u \<noteq> None | Inr n \<Rightarrow> n \<le> MAX_SAFE_INTEGER \<and> (log_suffix u = None \<longrightarrow> n < 2 ^ 32)) \<and>
   deriveLogIndex (pre @ '':log:'' @ nat_str k) =
     (if k \<le> MAX_SAFE_INTEGER then Inr k else Inl ''transfer has non-safe-integer log index'')"
proof
  have w: "unat (foldl fnv_step 0x811c9dc5 u) < 2 ^ 32"
    using unsigned_less [of "foldl fnv_step 0x811c9dc5 u", where 'a = nat] by simp
  then have "unat (foldl fnv_step 0x811c9dc5 u) \<le> MAX_SAFE_INTEGER" by (simp add: MAX_SAFE_INTEGER_def)
  with w show "case deriveLogIndex u of Inl _ \<Rightarrow> log_suffix u \<noteq> None | Inr n \<Rightarrow> n \<le> MAX_SAFE_INTEGER \<and> (log_suffix u = None \<longrightarrow> n < 2 ^ 32)"
    by (simp add: deriveLogIndex_def split: option.splits)
  have "of_base 10 (nat_str k) = Some k" by (simp add: nat_str_def)
  then show "deriveLogIndex (pre @ '':log:'' @ nat_str k) =
     (if k \<le> MAX_SAFE_INTEGER then Inr k else Inl ''transfer has non-safe-integer log index'')"
    by (simp add: deriveLogIndex_def log_suffix_nat del: append.simps append_Cons)
qed

theorem log_index_safe_witness:
  "(case deriveLogIndex ''0xab:internal:1'' of Inl _ \<Rightarrow> False | Inr n \<Rightarrow> n \<le> MAX_SAFE_INTEGER)"
proof -
  have n: "log_suffix ''0xab:internal:1'' = None" by code_simp
  show ?thesis using log_index_safe [THEN conjunct1, of "''0xab:internal:1''"] n by (simp split: sum.splits)
qed

end
