(* ===== verification/Rpc.thy ===== *)
theory Rpc
  imports Normalize
begin

text \<open>
  The requests of \<open>indexer/indexer.adapters.ts\<close> to the node provider. The provider is not in the repository: its answer to
  the \<open>k\<close>-th attempt of a request is the parameter \<open>fetch\<close>, on which nothing is assumed. A request that
  never settles (a connection the host neither answers nor drops) is outside the model.
\<close>

section \<open>The environment\<close>

record response =
  rs_status :: nat
  rs_json :: "jsv option"
  rs_retryAfter :: jsv

record rpc_request =
  rq_url :: string
  rq_method :: string
  rq_params :: jsv

record rpc_env =
  fetch :: "rpc_request \<Rightarrow> nat \<Rightarrow> (string, response) result"
  retryBase :: jsv
  apiKey :: string
  settles :: "string \<Rightarrow> nat \<Rightarrow> nat"
  clock :: nat

datatype chain_error = ChainIncomplete string | NativeSourceUnavailable string | ArchiveDepth string

fun chain_message :: "chain_error \<Rightarrow> string" where
  "chain_message (ChainIncomplete m) = m"
| "chain_message (NativeSourceUnavailable m) = m"
| "chain_message (ArchiveDepth m) = m"

text \<open>A value used as a condition.\<close>

definition js_truthy :: "jsv \<Rightarrow> bool" where
  "js_truthy v = (case v of VUndef \<Rightarrow> False | VNull \<Rightarrow> False | VBool b \<Rightarrow> b | VStr s \<Rightarrow> s \<noteq> []
     | VNum n \<Rightarrow> n \<noteq> JNaN \<and> n \<noteq> JFin 0 | VArr _ \<Rightarrow> True | VObj _ \<Rightarrow> True)"

definition rs_ok :: "response \<Rightarrow> bool" where
  "rs_ok r \<longleftrightarrow> 200 \<le> rs_status r \<and> rs_status r \<le> 299"

definition RATE_LIMIT_RETRIES :: nat where "RATE_LIMIT_RETRIES = 6"
definition DEFAULT_RETRY_BASE_MS :: rat where "DEFAULT_RETRY_BASE_MS = 500"
definition MAX_RETRY_DELAY_MS :: rat where "MAX_RETRY_DELAY_MS = 10000"
definition RETRYABLE_STATUSES :: "nat list" where "RETRYABLE_STATUSES = [429, 502, 503, 504]"
definition MAX_PAGES :: nat where "MAX_PAGES = 100"

section \<open>One request\<close>

definition carriesRpcError :: "response \<Rightarrow> bool" where
  "carriesRpcError r = (case rs_json r of None \<Rightarrow> False
     | Some body \<Rightarrow> (case js_get body ''error'' of VObj _ \<Rightarrow> True | VArr _ \<Rightarrow> True | _ \<Rightarrow> False))"

definition base_delay :: "rpc_env \<Rightarrow> rat" where
  "base_delay env = (case num_fin (js_Number (retryBase env)) of
     Some n \<Rightarrow> if 0 \<le> n \<and> retryBase env \<noteq> VUndef then n else DEFAULT_RETRY_BASE_MS
   | None \<Rightarrow> DEFAULT_RETRY_BASE_MS)"

definition retry_delay :: "rpc_env \<Rightarrow> response \<Rightarrow> nat \<Rightarrow> rat" where
  "retry_delay env r attempt =
     (let backoff = min (base_delay env * 2 ^ attempt) MAX_RETRY_DELAY_MS in
      case num_fin (js_Number (rs_retryAfter r)) of
        Some n \<Rightarrow> if 0 < n then n * 1000 else backoff
      | None \<Rightarrow> backoff)"

definition final_answer :: "response \<Rightarrow> nat \<Rightarrow> bool" where
  "final_answer r attempt \<longleftrightarrow> rs_status r \<notin> set RETRYABLE_STATUSES \<or> RATE_LIMIT_RETRIES \<le> attempt \<or>
     rs_status r \<noteq> 429 \<and> carriesRpcError r"

text \<open>The delays it waited and the answer.\<close>

function rpc_attempt :: "rpc_env \<Rightarrow> rpc_request \<Rightarrow> nat \<Rightarrow> rat list \<times> (string, response) result" where
  "rpc_attempt env req attempt = (case fetch env req attempt of
     Inl e \<Rightarrow> ([], Inl e)
   | Inr r \<Rightarrow> if final_answer r attempt then ([], Inr r)
       else let (ds, answer) = rpc_attempt env req (attempt + 1) in (retry_delay env r attempt # ds, answer))"
  by pat_completeness auto
termination
  by (relation "measure (\<lambda>(_, _, attempt). RATE_LIMIT_RETRIES - attempt)") (auto simp: final_answer_def)

declare rpc_attempt.simps [simp del]

definition rpcPost :: "rpc_env \<Rightarrow> rpc_request \<Rightarrow> (chain_error, response) result" where
  "rpcPost env req = (case snd (rpc_attempt env req 0) of Inl e \<Rightarrow> Inl (ChainIncomplete e) | Inr r \<Rightarrow> Inr r)"

section \<open>The head of a chain\<close>

definition chain_url :: "rpc_env \<Rightarrow> chain_entry \<Rightarrow> string" where
  "chain_url env entry = ''https://'' @ network entry @ ''.g.alchemy.com/v2/'' @ apiKey env"

definition body_of :: "response \<Rightarrow> (chain_error, jsv) result" where
  "body_of r = (case rs_json r of None \<Rightarrow> Inl (ChainIncomplete ''SyntaxError'') | Some body \<Rightarrow> Inr body)"

definition rpc_message :: "jsv \<Rightarrow> string" where
  "rpc_message err = js_String (coalesce (js_get err ''message'') (VStr ''unknown''))"

definition head_of :: "chain_entry \<Rightarrow> response \<Rightarrow> (chain_error, nat) result" where
  "head_of entry r =
     (if \<not> rs_ok r then Inl (ChainIncomplete (network entry @ '' head HTTP '' @ nat_str (rs_status r)))
      else rbind (body_of r) (\<lambda>body.
        if js_truthy (js_get body ''error'') then Inl (ChainIncomplete (network entry @ '' head RPC error: '' @ rpc_message (js_get body ''error'')))
        else if nullish body then Inl (ChainIncomplete ''TypeError'')
        else case parseHexQuantity (js_get body ''result'') of
          None \<Rightarrow> Inl (ChainIncomplete (network entry @ '' malformed head '' @ js_String (js_get body ''result'')))
        | Some head \<Rightarrow> if MAX_SAFE_INTEGER < head then Inl (ChainIncomplete (network entry @ '' unsafe head '' @ js_String (js_get body ''result'')))
            else Inr head))"

definition fetchChainHead :: "rpc_env \<Rightarrow> chain_entry \<Rightarrow> (chain_error, nat) result" where
  "fetchChainHead env entry =
     rbind (rpcPost env \<lparr>rq_url = chain_url env entry, rq_method = ''eth_blockNumber'', rq_params = VArr []\<rparr>) (head_of entry)"

section \<open>The pages of one direction\<close>

definition page_params :: "chain_entry \<Rightarrow> string \<times> string \<Rightarrow> string option \<Rightarrow> string \<Rightarrow> string option \<Rightarrow> jsv" where
  "page_params entry selector fromBlock toBlock pageKey = VArr [VObj (
     [(fst selector, VStr (snd selector)), (''category'', VArr (map VStr (supportedCategories entry))), (''withMetadata'', VBool True),
      (''excludeZeroValue'', VBool True), (''maxCount'', VStr ''0x3e8''), (''order'', VStr ''asc''), (''toBlock'', VStr toBlock)] @
     (case fromBlock of Some b \<Rightarrow> [(''fromBlock'', VStr b)] | None \<Rightarrow> []) @
     (case pageKey of Some k \<Rightarrow> [(''pageKey'', VStr k)] | None \<Rightarrow> []))]"

definition page_request :: "rpc_env \<Rightarrow> chain_entry \<Rightarrow> string \<times> string \<Rightarrow> string option \<Rightarrow> string \<Rightarrow> string option \<Rightarrow> rpc_request" where
  "page_request env entry selector fromBlock toBlock pageKey =
     \<lparr>rq_url = chain_url env entry, rq_method = ''alchemy_getAssetTransfers'', rq_params = page_params entry selector fromBlock toBlock pageKey\<rparr>"

text \<open>The transfers of a page and the key that came with them.\<close>

definition page_of :: "chain_entry \<Rightarrow> response \<Rightarrow> (chain_error, jsv list \<times> jsv) result" where
  "page_of entry r =
     (if \<not> rs_ok r then Inl (ChainIncomplete (network entry @ '' HTTP '' @ nat_str (rs_status r)))
      else rbind (body_of r) (\<lambda>body.
        if js_truthy (js_get body ''error'') then Inl (ChainIncomplete (network entry @ '' RPC error: '' @ rpc_message (js_get body ''error'')))
        else case js_get body ''result'' of
          VObj result \<Rightarrow>
            (case pget result ''transfers'' of
               VArr transfers \<Rightarrow> Inr (transfers, pget result ''pageKey'')
             | _ \<Rightarrow> Inl (ChainIncomplete (network entry @ '' malformed response: transfers not an array'')))
        | VArr _ \<Rightarrow> Inl (ChainIncomplete (network entry @ '' malformed response: transfers not an array''))
        | _ \<Rightarrow> Inl (ChainIncomplete (network entry @ '' malformed response: missing result''))))"

text \<open>What the key says: the page was the last one, or the key of the next one.\<close>

definition next_key :: "chain_entry \<Rightarrow> string list \<Rightarrow> jsv \<Rightarrow> (chain_error, string option) result" where
  "next_key entry seenPageKeys key =
     (if nullish key \<or> key = VStr [] then Inr None
      else case str_of key of
        None \<Rightarrow> Inl (ChainIncomplete (network entry @ '' malformed response: non-string pageKey''))
      | Some k \<Rightarrow> if k \<in> set seenPageKeys then Inl (ChainIncomplete (network entry @ '' repeated pageKey (incomplete)'')) else Inr (Some k))"

definition fetch_page :: "rpc_env \<Rightarrow> chain_entry \<Rightarrow> string \<times> string \<Rightarrow> string option \<Rightarrow> string \<Rightarrow> string option \<Rightarrow> (chain_error, jsv list \<times> jsv) result" where
  "fetch_page env entry selector fromBlock toBlock pageKey =
     rbind (rpcPost env (page_request env entry selector fromBlock toBlock pageKey)) (page_of entry)"

function direction_pages :: "rpc_env \<Rightarrow> chain_entry \<Rightarrow> string \<times> string \<Rightarrow> string option \<Rightarrow> string \<Rightarrow> nat \<Rightarrow> string option \<Rightarrow> string list \<Rightarrow>
    jsv list \<Rightarrow> (chain_error, jsv list) result" where
  "direction_pages env entry selector fromBlock toBlock page pageKey seenPageKeys collected =
     (if MAX_PAGES \<le> page then Inl (ChainIncomplete (network entry @ '' pagination exceeded 100 pages (truncated)''))
      else case fetch_page env entry selector fromBlock toBlock pageKey of
        Inl e \<Rightarrow> Inl e
      | Inr (transfers, key) \<Rightarrow>
          (case next_key entry seenPageKeys key of
             Inl e \<Rightarrow> Inl e
           | Inr None \<Rightarrow> Inr (collected @ transfers)
           | Inr (Some k) \<Rightarrow> direction_pages env entry selector fromBlock toBlock (page + 1) (Some k) (seenPageKeys @ [k]) (collected @ transfers)))"
  by pat_completeness auto
termination
  by (relation "measure (\<lambda>(_, _, _, _, _, page, _, _, _). MAX_PAGES - page)") auto

declare direction_pages.simps [simp del]

definition fetchDirection :: "rpc_env \<Rightarrow> chain_entry \<Rightarrow> string \<times> string \<Rightarrow> string option \<Rightarrow> string \<Rightarrow> (chain_error, jsv list) result" where
  "fetchDirection env entry selector fromBlock toBlock = direction_pages env entry selector fromBlock toBlock 0 None [] []"

end
