(* ===== verification/Pool.thy ===== *)
theory Pool
  imports Prelude
begin

text \<open>
  \<open>mapWithConcurrency\<close> of \<open>indexer/indexer.adapters.ts\<close>: a pool of workers over a list. A worker takes the next
  index, starts the work on it, waits, stores the result at that index and goes on. Between two waits a worker
  runs alone, so an execution is the order in which the pending works settle; that order is the parameter
  \<open>order\<close> (at step \<open>k\<close> the pending work number \<open>order k\<close> settles). \<open>start\<close> is what a work reads
  of the shared variables before it first waits, \<open>finish\<close> what it does once its requests have settled.
\<close>

section \<open>The pool\<close>

record ('s, 'm, 'b) pool =
  shared :: 's
  pending :: "(nat \<times> 'm) list"
  next_item :: nat
  results :: "'b option list"

definition refill :: "('s \<Rightarrow> 'a \<Rightarrow> 'm) \<Rightarrow> 'a list \<Rightarrow> ('s, 'm, 'b) pool \<Rightarrow> ('s, 'm, 'b) pool" where
  "refill start items p = (if next_item p < length items
     then p\<lparr>pending := pending p @ [(next_item p, start (shared p) (items ! next_item p))], next_item := next_item p + 1\<rparr>
     else p)"

definition pool_begin :: "nat \<Rightarrow> ('s \<Rightarrow> 'a \<Rightarrow> 'm) \<Rightarrow> 'a list \<Rightarrow> 's \<Rightarrow> ('s, 'm, 'b) pool" where
  "pool_begin limit start items s =
     (refill start items ^^ min limit (length items)) \<lparr>shared = s, pending = [], next_item = 0, results = replicate (length items) None\<rparr>"

definition take_out :: "nat \<Rightarrow> 'c list \<Rightarrow> 'c list" where
  "take_out i xs = take i xs @ drop (Suc i) xs"

definition settle_index :: "nat \<Rightarrow> ('s, 'm, 'b) pool \<Rightarrow> nat" where
  "settle_index k p = k mod length (pending p)"

lemma take_out_length: "i < length xs \<Longrightarrow> length (take_out i xs) = length xs - 1"
  by (simp add: take_out_def)

lemma set_take_out: "set (take_out i xs) \<subseteq> set xs"
  using set_take_subset set_drop_subset by (fastforce simp: take_out_def)

lemma settle_index_less: "pending p \<noteq> [] \<Longrightarrow> settle_index k p < length (pending p)"
  by (simp add: settle_index_def)

lemma refill_measure:
  "length items - next_item (refill start items p) + length (pending (refill start items p)) = length items - next_item p + length (pending p)"
  by (auto simp: refill_def)

lemma settle_measure:
  assumes "pending p \<noteq> []"
  shows "length (take_out (settle_index k p) (pending p)) < length (pending p)"
  using settle_index_less [OF assms, of k] assms by (simp add: take_out_length)

function pool_run :: "('s \<Rightarrow> 'a \<Rightarrow> 'm) \<Rightarrow> ('s \<Rightarrow> 'a \<Rightarrow> 'm \<Rightarrow> 's \<times> ('e, 'b) result) \<Rightarrow> 'a list \<Rightarrow> (nat \<Rightarrow> nat) \<Rightarrow> nat \<Rightarrow>
    ('s, 'm, 'b) pool \<Rightarrow> 's \<times> ('e, 'b option list) result" where
  "pool_run start finish items order k p =
     (if pending p = [] then (shared p, Inr (results p))
      else let i = settle_index (order k) p; (index, m) = pending p ! i in
        (case finish (shared p) (items ! index) m of
           (s, Inl e) \<Rightarrow> (s, Inl e)
         | (s, Inr b) \<Rightarrow> pool_run start finish items order (k + 1)
             (refill start items (p\<lparr>shared := s, pending := take_out i (pending p), results := (results p)[index := Some b]\<rparr>))))"
  by pat_completeness auto
termination
  by (relation "measure (\<lambda>(_, _, items, _, _, p). length items - next_item p + length (pending p))")
    (simp_all add: refill_measure settle_measure)

declare pool_run.simps [simp del]

definition mapWithConcurrency :: "(nat \<Rightarrow> nat) \<Rightarrow> nat \<Rightarrow> ('s \<Rightarrow> 'a \<Rightarrow> 'm) \<Rightarrow> ('s \<Rightarrow> 'a \<Rightarrow> 'm \<Rightarrow> 's \<times> ('e, 'b) result) \<Rightarrow>
    's \<Rightarrow> 'a list \<Rightarrow> 's \<times> ('e, 'b list) result" where
  "mapWithConcurrency order limit start finish s items =
     (case pool_run start finish items order 0 (pool_begin limit start items s) of
        (s', Inl e) \<Rightarrow> (s', Inl e)
      | (s', Inr rs) \<Rightarrow> (s', Inr (case those rs of Some bs \<Rightarrow> bs | None \<Rightarrow> [])))"

section \<open>The contract of a work\<close>

text \<open>\<open>Dec s x m\<close> and \<open>Res s x b\<close> are what is known of a pending work and of a stored result while the shared
  variables are \<open>s\<close>; a finishing work keeps both for the others.\<close>

locale pool_work =
  fixes start :: "'s \<Rightarrow> 'a \<Rightarrow> 'm" and finish :: "'s \<Rightarrow> 'a \<Rightarrow> 'm \<Rightarrow> 's \<times> ('e, 'b) result"
    and Dom :: "'a \<Rightarrow> bool" and Inv :: "'s \<Rightarrow> bool" and Dec :: "'s \<Rightarrow> 'a \<Rightarrow> 'm \<Rightarrow> bool" and Res :: "'s \<Rightarrow> 'a \<Rightarrow> 'b \<Rightarrow> bool" and Err :: "'e \<Rightarrow> bool"
  assumes start_ok: "Inv s \<Longrightarrow> Dom x \<Longrightarrow> Dec s x (start s x)"
    and finish_ok: "Inv s \<Longrightarrow> Dec s x m \<Longrightarrow> finish s x m = (s', Inr b) \<Longrightarrow> Inv s' \<and> Res s' x b"
    and finish_err: "Inv s \<Longrightarrow> Dec s x m \<Longrightarrow> finish s x m = (s', Inl e) \<Longrightarrow> Inv s' \<and> Err e"
    and dec_stable: "Inv s \<Longrightarrow> Dec s x m \<Longrightarrow> finish s x m = (s', Inr b) \<Longrightarrow> Dec s y n \<Longrightarrow> Dec s' y n"
    and res_stable: "Inv s \<Longrightarrow> Dec s x m \<Longrightarrow> finish s x m = (s', Inr b) \<Longrightarrow> Res s y c \<Longrightarrow> Res s' y c"
begin

text \<open>The invariant of a pool: an index is pending once, stored with its result, or still to come.\<close>

definition pool_ok :: "nat \<Rightarrow> 'a list \<Rightarrow> ('s, 'm, 'b) pool \<Rightarrow> bool" where
  "pool_ok limit items p \<longleftrightarrow> list_all Dom items \<and> Inv (shared p) \<and> distinct (map fst (pending p)) \<and> length (results p) = length items \<and>
     next_item p \<le> length items \<and> length (pending p) \<le> limit \<and>
     (\<forall>im \<in> set (pending p). fst im < next_item p \<and> Dec (shared p) (items ! fst im) (snd im)) \<and>
     (\<forall>j < next_item p. j \<notin> fst ` set (pending p) \<longrightarrow> (\<exists>b. results p ! j = Some b \<and> Res (shared p) (items ! j) b))"

lemma refill_ok:
  assumes ok: "pool_ok limit items p" and room: "length (pending p) < limit"
  shows "pool_ok limit items (refill start items p)"
proof (cases "next_item p < length items")
  case True
  have "next_item p \<notin> fst ` set (pending p)" using ok by (auto simp: pool_ok_def)
  then have "distinct (map fst (pending p @ [(next_item p, start (shared p) (items ! next_item p))]))"
    using ok by (simp add: pool_ok_def)
  moreover have "Dec (shared p) (items ! next_item p) (start (shared p) (items ! next_item p))"
    using ok True by (simp add: pool_ok_def start_ok list_all_length)
  ultimately show ?thesis
    using ok room True unfolding pool_ok_def refill_def by (auto simp: less_Suc_eq image_Un)
next
  case False
  then show ?thesis using ok by (simp add: refill_def)
qed

lemma take_out_distinct:
  assumes "i < length xs" "distinct (map fst xs)"
  shows "distinct (map fst (take_out i xs))" "fst ` set (take_out i xs) = fst ` set xs - {fst (xs ! i)}"
proof -
  have xs: "xs = take i xs @ xs ! i # drop (Suc i) xs" using assms(1) by (rule id_take_nth_drop)
  have d: "distinct (map fst (take i xs @ xs ! i # drop (Suc i) xs))" using assms(2) xs by metis
  show "distinct (map fst (take_out i xs))" using d by (auto simp: take_out_def)
  have "fst ` set xs = fst ` set (take i xs @ xs ! i # drop (Suc i) xs)" using xs by metis
  then show "fst ` set (take_out i xs) = fst ` set xs - {fst (xs ! i)}"
    using d by (auto simp: take_out_def image_Un)
qed

lemma settle_ok:
  assumes ok: "pool_ok limit items p" and i: "i < length (pending p)" and m: "pending p ! i = (index, m)"
    and fin: "finish (shared p) (items ! index) m = (s, Inr b)"
  shows "pool_ok limit items (p\<lparr>shared := s, pending := take_out i (pending p), results := (results p)[index := Some b]\<rparr>)"
    and "length (take_out i (pending p)) < limit"
proof -
  have mem: "(index, m) \<in> set (pending p)" using i m by (metis nth_mem)
  have inv: "Inv (shared p)" and dec: "Dec (shared p) (items ! index) m" and less: "index < next_item p"
    using ok mem by (auto simp: pool_ok_def)
  have new: "Inv s" "Res s (items ! index) b" using finish_ok [OF inv dec fin] by auto
  have "distinct (map fst (pending p))" using ok by (simp add: pool_ok_def)
  note d = take_out_distinct [OF i this]
  have "length (pending p) \<le> limit" using ok by (simp add: pool_ok_def)
  then show "length (take_out i (pending p)) < limit" using i by (simp add: take_out_length)
  have "Dec s (items ! fst im) (snd im) \<and> fst im < next_item p" if "im \<in> set (take_out i (pending p))" for im
    using that ok set_take_out [of i "pending p"] dec_stable [OF inv dec fin] by (auto simp: pool_ok_def)
  moreover have "\<exists>c. (results p)[index := Some b] ! j = Some c \<and> Res s (items ! j) c"
    if "j < next_item p" "j \<notin> fst ` set (take_out i (pending p))" for j
  proof (cases "j = index")
    case True
    then show ?thesis using new ok less by (auto simp: pool_ok_def)
  next
    case False
    then have "j \<notin> fst ` set (pending p)" using that(2) d(2) m by auto
    then show ?thesis using that(1) ok False res_stable [OF inv dec fin] by (fastforce simp: pool_ok_def)
  qed
  ultimately show "pool_ok limit items (p\<lparr>shared := s, pending := take_out i (pending p), results := (results p)[index := Some b]\<rparr>)"
    using ok d(1) new(1) i unfolding pool_ok_def by (auto simp: take_out_length)
qed

text \<open>One settled work and the refill after it, and so the whole run.\<close>

definition pool_open :: "nat \<Rightarrow> 'a list \<Rightarrow> ('s, 'm, 'b) pool \<Rightarrow> bool" where
  "pool_open limit items p \<longleftrightarrow> pool_ok limit items p \<and> (next_item p < length items \<longrightarrow> pending p \<noteq> [])"

lemma refill_open: "pool_ok limit items p \<Longrightarrow> length (pending p) < limit \<Longrightarrow> pool_open limit items (refill start items p)"
  using refill_ok [of limit items p] by (auto simp: pool_open_def refill_def)

definition run_ok :: "'a list \<Rightarrow> 's \<times> ('e, 'b option list) result \<Rightarrow> bool" where
  "run_ok items r \<longleftrightarrow> Inv (fst r) \<and>
     (case snd r of Inl e \<Rightarrow> Err e
      | Inr rs \<Rightarrow> length rs = length items \<and> (\<forall>j < length items. \<exists>b. rs ! j = Some b \<and> Res (fst r) (items ! j) b))"

lemma pool_run_ok:
  "pool_open limit items p \<Longrightarrow> run_ok items (pool_run start finish items order k p)"
proof (induction "length items - next_item p + length (pending p)" arbitrary: p k rule: less_induct)
  case less
  show ?case
  proof (cases "pending p = []")
    case True
    then have "next_item p = length items" using less.prems by (auto simp: pool_open_def pool_ok_def)
    then show ?thesis using less.prems True by (subst pool_run.simps) (auto simp: run_ok_def pool_open_def pool_ok_def)
  next
    case False
    define i where "i = settle_index (order k) p"
    have i: "i < length (pending p)" using False by (simp add: i_def settle_index_less)
    obtain index m where m: "pending p ! i = (index, m)" by (cases "pending p ! i") auto
    obtain s r where fin: "finish (shared p) (items ! index) m = (s, r)" by (cases "finish (shared p) (items ! index) m") auto
    have ok: "pool_ok limit items p" using less.prems by (simp add: pool_open_def)
    have inv: "Inv (shared p)" "Dec (shared p) (items ! index) m"
      using ok nth_mem [OF i] m by (auto simp: pool_ok_def)
    show ?thesis
    proof (cases r)
      case (Inl e)
      then have "pool_run start finish items order k p = (s, Inl e)"
        using False fin m by (subst pool_run.simps) (simp add: i_def Let_def)
      then show ?thesis using finish_err [OF inv] fin Inl by (simp add: run_ok_def)
    next
      case (Inr b)
      define q where "q = refill start items (p\<lparr>shared := s, pending := take_out i (pending p), results := (results p)[index := Some b]\<rparr>)"
      have q: "pool_open limit items q"
        using settle_ok [OF ok i m] fin Inr unfolding q_def by (intro refill_open) simp_all
      have "length items - next_item q + length (pending q) < length items - next_item p + length (pending p)"
        unfolding q_def using settle_measure [OF False] by (simp add: refill_measure i_def)
      then have "run_ok items (pool_run start finish items order (k + 1) q)" using less.hyps q by blast
      moreover have "pool_run start finish items order k p = pool_run start finish items order (k + 1) q"
        using False fin m Inr by (subst pool_run.simps) (simp add: i_def q_def Let_def)
      ultimately show ?thesis by simp
    qed
  qed
qed

lemma pool_begin_ok:
  assumes "Inv s" "0 < limit" "list_all Dom items"
  shows "pool_open limit items (pool_begin limit start items s)"
proof -
  define p0 :: "('s, 'm, 'b) pool" where "p0 = \<lparr>shared = s, pending = [], next_item = 0, results = replicate (length items) None\<rparr>"
  have "pool_ok limit items ((refill start items ^^ j) p0) \<and> length (pending ((refill start items ^^ j) p0)) = j \<and>
      next_item ((refill start items ^^ j) p0) = j" if "j \<le> min limit (length items)" for j
    using that
  proof (induction j)
    case 0
    show ?case using assms(1,3) by (simp add: p0_def pool_ok_def)
  next
    case (Suc j)
    define q where "q = (refill start items ^^ j) p0"
    have q: "pool_ok limit items q" "length (pending q) = j" "next_item q = j" "j < limit" "j < length items"
      using Suc by (simp_all add: q_def)
    have "pool_ok limit items (refill start items q)" using refill_ok q by simp
    moreover have "length (pending (refill start items q)) = Suc j" "next_item (refill start items q) = Suc j"
      using q by (simp_all add: refill_def)
    ultimately show ?case by (simp add: q_def)
  qed
  from this [of "min limit (length items)"] show ?thesis
    using assms(2) unfolding pool_begin_def p0_def [symmetric] pool_open_def by (cases items) auto
qed

lemma those_nth: "length rs = n \<Longrightarrow> \<forall>j < n. \<exists>b. rs ! j = Some b \<and> P j b \<Longrightarrow> \<exists>bs. those rs = Some bs \<and> length bs = n \<and> (\<forall>j < n. P j (bs ! j))"
proof (induction rs arbitrary: n P)
  case Nil
  then show ?case by simp
next
  case (Cons r rs)
  obtain n' where n: "n = Suc n'" "length rs = n'" using Cons.prems(1) by auto
  obtain b where b: "r = Some b" "P 0 b" using Cons.prems(2) n by auto
  have "\<forall>j < n'. \<exists>b. rs ! j = Some b \<and> P (Suc j) b" using Cons.prems(2) n by auto
  then obtain bs where bs: "those rs = Some bs" "length bs = n'" "\<forall>j < n'. P (Suc j) (bs ! j)"
    using Cons.IH [OF n(2), of "\<lambda>j. P (Suc j)"] by auto
  have "\<forall>j < n. P j ((b # bs) ! j)"
  proof (intro allI impI)
    fix j assume "j < n"
    then show "P j ((b # bs) ! j)" using b(2) bs(3) n(1) by (cases j) auto
  qed
  then show ?case using b(1) bs(1,2) n by auto
qed

text \<open>What a caller knows of the results.\<close>

lemma pool_results:
  assumes "Inv s" "0 < limit" "list_all Dom items" "mapWithConcurrency order limit start finish s items = (s', Inr bs)"
  shows "Inv s'" "list_all2 (Res s') items bs"
proof -
  obtain rs where run: "pool_run start finish items order 0 (pool_begin limit start items s) = (s', Inr rs)"
    and bs: "bs = (case those rs of Some bs \<Rightarrow> bs | None \<Rightarrow> [])"
    using assms(4) by (auto simp: mapWithConcurrency_def split: prod.splits sum.splits)
  have r: "run_ok items (s', Inr rs)"
    using pool_run_ok [OF pool_begin_ok [OF assms(1-3)]] run by metis
  then show "Inv s'" by (simp add: run_ok_def)
  have "length rs = length items" "\<forall>j < length items. \<exists>b. rs ! j = Some b \<and> Res s' (items ! j) b"
    using r by (simp_all add: run_ok_def)
  from those_nth [OF this] show "list_all2 (Res s') items bs"
    by (auto simp: bs list_all2_conv_all_nth)
qed

lemma pool_error:
  assumes "Inv s" "0 < limit" "list_all Dom items" "mapWithConcurrency order limit start finish s items = (s', Inl e)"
  shows "Inv s'" "Err e"
proof -
  have "pool_run start finish items order 0 (pool_begin limit start items s) = (s', Inl e)"
    using assms(4) by (auto simp: mapWithConcurrency_def split: prod.splits sum.splits)
  then have "run_ok items (s', Inl e)"
    using pool_run_ok [OF pool_begin_ok [OF assms(1-3)]] by metis
  then show "Inv s'" "Err e" by (simp_all add: run_ok_def)
qed

end

section \<open>Works without shared variables\<close>

definition no_start :: "unit \<Rightarrow> 'a \<Rightarrow> unit" where
  "no_start s x = ()"

definition plain_work :: "('a \<Rightarrow> ('e, 'b) result) \<Rightarrow> unit \<Rightarrow> 'a \<Rightarrow> unit \<Rightarrow> unit \<times> ('e, 'b) result" where
  "plain_work work s x m = ((), work x)"

definition plain_map :: "(nat \<Rightarrow> nat) \<Rightarrow> nat \<Rightarrow> ('a \<Rightarrow> ('e, 'b) result) \<Rightarrow> 'a list \<Rightarrow> ('e, 'b list) result" where
  "plain_map order limit work items = snd (mapWithConcurrency order limit no_start (plain_work work) () items)"

interpretation plain: pool_work no_start "plain_work work" "\<lambda>x. x \<in> set xs" "\<lambda>_. True" "\<lambda>_ x _. x \<in> set xs"
    "\<lambda>_ x b. work x = Inr b" "\<lambda>e. \<exists>x \<in> set xs. work x = Inl e" for work xs
  by unfold_locales (auto simp: plain_work_def)

lemma plain_map_Inr: "0 < limit \<Longrightarrow> plain_map order limit work items = Inr bs \<Longrightarrow> list_all2 (\<lambda>x b. work x = Inr b) items bs"
  using plain.pool_results(2) [where xs = items and items = items and limit = limit and order = order and work = work and bs = bs and s' = "()"]
  by (simp add: plain_map_def list_all_iff prod_eq_iff)

lemma plain_map_Inl: "0 < limit \<Longrightarrow> plain_map order limit work items = Inl e \<Longrightarrow> \<exists>x \<in> set items. work x = Inl e"
  using plain.pool_error(2) [where xs = items and items = items and limit = limit and order = order and work = work and e = e and s' = "()"]
  by (simp add: plain_map_def list_all_iff prod_eq_iff)

lemma plain_map_ok:
  assumes "0 < limit" "\<And>x. x \<in> set items \<Longrightarrow> work x = Inr (f x)"
  shows "plain_map order limit work items = Inr (map f items)"
proof (cases "plain_map order limit work items")
  case (Inl e)
  then show ?thesis using plain_map_Inl [OF assms(1) Inl] assms(2) by auto
next
  case (Inr bs)
  have "list_all2 (\<lambda>x b. work x = Inr b) items bs" by (rule plain_map_Inr [OF assms(1) Inr])
  then have "bs = map f items" using assms(2) by (induction rule: list_all2_induct) auto
  then show ?thesis using Inr by simp
qed

text \<open>The pool gives the results in the order of the items whatever the order in which the works settle, and
  fails exactly when a work fails, with the error of one of those.\<close>

theorem pool_order_irrelevant:
  assumes "0 < limit"
  shows "case plain_map order limit work items of
     Inr bs \<Rightarrow> map work items = map Inr bs
   | Inl e \<Rightarrow> Inl e \<in> work ` set items"
proof (cases "plain_map order limit work items")
  case (Inl e)
  then show ?thesis using plain_map_Inl [OF assms Inl] by (auto intro: rev_image_eqI)
next
  case (Inr bs)
  have "list_all2 (\<lambda>x b. work x = Inr b) items bs" by (rule plain_map_Inr [OF assms Inr])
  then have "map work items = map Inr bs" by (induction rule: list_all2_induct) auto
  then show ?thesis using Inr by simp
qed

definition halve :: "nat \<Rightarrow> (nat, nat) result" where
  "halve n = (if even n then Inr (n div 2) else Inl n)"

theorem pool_order_irrelevant_witness:
  "plain_map (\<lambda>k. k + 1) 2 halve [2, 4, 6] = Inr [1, 2, 3] \<and> plain_map (\<lambda>k. 1) 2 halve [3, 5] = Inl 5 \<and>
   (case plain_map (\<lambda>k. k + 1) 2 halve [2, 4, 6] of
     Inr bs \<Rightarrow> map halve [2, 4, 6] = map Inr bs
   | Inl e \<Rightarrow> Inl e \<in> halve ` set [2, 4, 6])"
proof (intro conjI)
  show "plain_map (\<lambda>k. k + 1) 2 halve [2, 4, 6] = Inr [1, 2, 3]" by code_simp
  show "plain_map (\<lambda>k. 1) 2 halve [3, 5] = Inl 5" by code_simp
qed (rule pool_order_irrelevant, simp)

end
