(* ===== verification/ChainScan.thy ===== *)
theory ChainScan
  imports Rpc Pool
begin

text \<open>
  The scan of a wallet (\<open>AlchemyAdapter\<close> of \<open>indexer/indexer.adapters.ts\<close>): the native sources of a chain and
  how one steps aside for the next, the scan of one chain, and the concurrent scan of all. The memory of the
  sources that are not available to the key (\<open>nativeSourceBlockedUntil\<close>) is passed as a map, the clock is read
  once per scan, and the caller's callbacks act on a state of its own.
\<close>

section \<open>Candidates for a recovery\<close>

definition lower_hex :: "char \<Rightarrow> bool" where
  "lower_hex c \<longleftrightarrow> digit_in 16 c \<noteq> None \<and> lower_char c = c"

definition canonical_hash :: "string \<Rightarrow> bool" where
  "canonical_hash h \<longleftrightarrow> startsWith h ''0x'' \<and> length h = 66 \<and> list_all lower_hex (drop 2 h)"

definition worth_recovery :: "string \<Rightarrow> jsv \<Rightarrow> bool" where
  "worth_recovery wallet t = (let category = str_of (js_get t ''category'') in
     category \<in> {Some ''erc20'', Some ''erc721'', Some ''erc1155''} \<or>
     category = Some ''external'' \<and> map_option toLowerCase (str_of (js_get t ''from'')) = Some wallet)"

definition transfer_hash :: "jsv \<Rightarrow> string" where
  "transfer_hash t = (case str_of (js_get t ''hash'') of Some h \<Rightarrow> toLowerCase (trim h) | None \<Rightarrow> [])"

definition transfer_time :: "host \<Rightarrow> jsv \<Rightarrow> string option" where
  "transfer_time H t = (case str_of (js_get (js_get t ''metadata'') ''blockTimestamp'') of
     None \<Rightarrow> None | Some ts \<Rightarrow> if dateParse H ts = None then None else Some ts)"

fun nativeCandidates :: "host \<Rightarrow> string \<Rightarrow> (string, string) jmap \<Rightarrow> jsv list \<Rightarrow> (chain_error, (string, string) jmap) result" where
  "nativeCandidates H wallet candidates [] = Inr candidates"
| "nativeCandidates H wallet candidates (t # ts) =
     (if nullish t then Inl (ChainIncomplete ''TypeError'')
      else nativeCandidates H wallet
        (if worth_recovery wallet t \<and> canonical_hash (transfer_hash t) \<and> \<not> mhas candidates (transfer_hash t)
         then (case transfer_time H t of Some ts \<Rightarrow> mput (transfer_hash t) ts candidates | None \<Rightarrow> candidates)
         else candidates) ts)"

section \<open>Reads that may not be available\<close>

definition lenient_body :: "response \<Rightarrow> jsv" where
  "lenient_body r = (case rs_json r of Some body \<Rightarrow> body | None \<Rightarrow> VNull)"

definition unavailable_message :: "jsv \<Rightarrow> string" where
  "unavailable_message err = (case str_of (js_get err ''message'') of Some m \<Rightarrow> m | None \<Rightarrow> ''code '' @ js_String (js_get err ''code''))"

definition error_text :: "jsv \<Rightarrow> string \<Rightarrow> string" where
  "error_text err fallback = (case str_of (js_get err ''message'') of Some m \<Rightarrow> m | None \<Rightarrow> fallback)"

definition ARCHIVE_DEPTH_RPC_CODE :: int where "ARCHIVE_DEPTH_RPC_CODE = -32001"

definition trace_answer :: "chain_entry \<Rightarrow> string \<Rightarrow> response \<Rightarrow> (chain_error, jsv) result" where
  "trace_answer entry hash r =
     (let body = lenient_body r; err = js_get body ''error'' in
      if js_truthy err \<and> isTraceCapabilityError (js_get err ''code'') (js_get err ''message'') then Inl (NativeSourceUnavailable (unavailable_message err))
      else if \<not> rs_ok r then Inl (ChainIncomplete (network entry @ '' trace HTTP '' @ nat_str (rs_status r) @ '' for '' @ hash))
      else if js_truthy err then Inl (ChainIncomplete (network entry @ '' trace RPC error for '' @ hash @ '': '' @ error_text err ''unknown''))
      else case unwrapTraceResult (js_get body ''result'') of
        None \<Rightarrow> Inl (ChainIncomplete (network entry @ '' malformed trace for '' @ hash))
      | Some frame \<Rightarrow> Inr frame)"

definition fetchCallTrace :: "rpc_env \<Rightarrow> chain_entry \<Rightarrow> string \<Rightarrow> (chain_error, jsv) result" where
  "fetchCallTrace env entry hash =
     rbind (rpcPost env \<lparr>rq_url = chain_url env entry, rq_method = ''debug_traceTransaction'',
         rq_params = VArr [VStr hash, VObj [(''tracer'', VStr ''callTracer''), (''tracerConfig'', VObj [(''onlyTopCall'', VBool False)])]]\<rparr>)
       (trace_answer entry hash)"

definition read_answer :: "chain_entry \<Rightarrow> string \<Rightarrow> response \<Rightarrow> (chain_error, jsv) result" where
  "read_answer entry meth r =
     (let body = lenient_body r; err = js_get body ''error'' in
      if js_truthy err \<and> isTraceCapabilityError (js_get err ''code'') (js_get err ''message'') then Inl (NativeSourceUnavailable (unavailable_message err))
      else if rs_status r = 503 \<and> js_truthy err \<and> js_Number (js_get err ''code'') = JFin (of_int ARCHIVE_DEPTH_RPC_CODE) then
        Inl (ArchiveDepth (network entry @ '' '' @ meth @ '': '' @ error_text err ''unable to complete request'' @ '' (HTTP 503, -32001)''))
      else if \<not> rs_ok r then Inl (ChainIncomplete (network entry @ '' '' @ meth @ '' HTTP '' @ nat_str (rs_status r)))
      else if js_truthy err then Inl (ChainIncomplete (network entry @ '' '' @ meth @ '' RPC error: '' @ error_text err ''unknown''))
      else Inr (js_get body ''result''))"

definition nativeRpcRead :: "rpc_env \<Rightarrow> chain_entry \<Rightarrow> string \<Rightarrow> jsv list \<Rightarrow> (chain_error, jsv) result" where
  "nativeRpcRead env entry meth params =
     rbind (rpcPost env \<lparr>rq_url = chain_url env entry, rq_method = meth, rq_params = VArr params\<rparr>) (read_answer entry meth)"

definition fetchNativeBalance :: "rpc_env \<Rightarrow> chain_entry \<Rightarrow> string \<Rightarrow> nat \<Rightarrow> (chain_error, nat) result" where
  "fetchNativeBalance env entry wallet block =
     rbind (nativeRpcRead env entry ''eth_getBalance'' [VStr wallet, VStr (hex_quantity block)])
       (\<lambda>raw. case parseHexQuantity raw of
          None \<Rightarrow> Inl (ChainIncomplete (network entry @ '' malformed balance at block '' @ nat_str block))
        | Some balance \<Rightarrow> Inr balance)"

section \<open>The memory of unavailable sources\<close>

definition NATIVE_SOURCE_REPROBE_MS :: nat where "NATIVE_SOURCE_REPROBE_MS = 6 * 60 * 60 * 1000"

fun source_name :: "native_source \<Rightarrow> string" where
  "source_name AlchemyDebug = ''alchemy-debug''"
| "source_name BalanceDiff = ''balance-diff''"

type_synonym blocked_sources = "(string, nat) jmap"

definition source_key :: "chain_entry \<Rightarrow> native_source \<Rightarrow> string" where
  "source_key entry source = network entry @ '':'' @ source_name source"

definition isSourceUnavailable :: "nat \<Rightarrow> chain_entry \<Rightarrow> native_source \<Rightarrow> blocked_sources \<Rightarrow> bool \<times> blocked_sources" where
  "isSourceUnavailable now entry source blocked = (case mget blocked (source_key entry source) of
     None \<Rightarrow> (False, blocked)
   | Some until \<Rightarrow> if until \<le> now then (False, mdel (source_key entry source) blocked) else (True, blocked))"

definition markSourceUnavailable :: "nat \<Rightarrow> chain_entry \<Rightarrow> native_source \<Rightarrow> blocked_sources \<Rightarrow> blocked_sources" where
  "markSourceUnavailable now entry source blocked = mput (source_key entry source) (now + NATIVE_SOURCE_REPROBE_MS) blocked"

section \<open>The trace source\<close>

definition TRACE_CONCURRENCY :: nat where "TRACE_CONCURRENCY = 4"
definition BALANCE_DIFF_CONCURRENCY :: nat where "BALANCE_DIFF_CONCURRENCY = 3"
definition CHAIN_CONCURRENCY :: nat where "CHAIN_CONCURRENCY = 3"

definition native_transfer :: "chain_entry \<Rightarrow> string \<Rightarrow> string \<Rightarrow> string \<Rightarrow> string \<Rightarrow> string \<Rightarrow> string \<Rightarrow> jobj \<Rightarrow> jsv" where
  "native_transfer entry hash timestamp uniqueId from to hexValue extra = VObj (
     [(''uniqueId'', VStr uniqueId), (''category'', VStr ''internal''), (''from'', VStr from), (''to'', VStr to),
      (''asset'', VStr (nativeSymbol entry)), (''hash'', VStr hash),
      (''rawContract'', VObj [(''value'', VStr hexValue), (''address'', VNull), (''decimal'', VNull)]),
      (''metadata'', VObj [(''blockTimestamp'', VStr timestamp)])] @ extra)"

definition traced_leg :: "chain_entry \<Rightarrow> string \<Rightarrow> string \<Rightarrow> trace_transfer \<Rightarrow> jsv" where
  "traced_leg entry hash timestamp movement =
     native_transfer entry hash timestamp (hash @ '':internal:'' @ tt_path movement) (tt_from movement) (tt_to movement) (tt_hexValue movement) []"

definition trace_start :: "string option \<Rightarrow> string \<times> string \<Rightarrow> bool" where
  "trace_start message candidate \<longleftrightarrow> message \<noteq> None"

definition trace_finish :: "rpc_env \<Rightarrow> chain_entry \<Rightarrow> string \<Rightarrow> string option \<Rightarrow> string \<times> string \<Rightarrow> bool \<Rightarrow>
    string option \<times> (chain_error, jsv list) result" where
  "trace_finish env entry wallet message candidate skip =
     (if skip then (message, Inr [])
      else case fetchCallTrace env entry (fst candidate) of
        Inl (NativeSourceUnavailable m) \<Rightarrow> (Some m, Inr [])
      | Inl e \<Rightarrow> (message, Inl e)
      | Inr frame \<Rightarrow> (message, Inr (map (traced_leg entry (fst candidate) (snd candidate)) (extractNativeTransfers frame wallet))))"

definition fetchNativeTraceLegs :: "rpc_env \<Rightarrow> chain_entry \<Rightarrow> string \<Rightarrow> (string, string) jmap \<Rightarrow> blocked_sources \<Rightarrow>
    blocked_sources \<times> (chain_error, jsv list option) result" where
  "fetchNativeTraceLegs env entry wallet candidates blocked =
     (case mapWithConcurrency (settles env (network entry @ '':trace'')) TRACE_CONCURRENCY trace_start (trace_finish env entry wallet) None candidates of
        (_, Inl e) \<Rightarrow> (blocked, Inl e)
      | (Some _, Inr _) \<Rightarrow> (markSourceUnavailable (clock env) entry AlchemyDebug blocked, Inr None)
      | (None, Inr legs) \<Rightarrow> (blocked, Inr (Some (concat legs))))"

section \<open>The balance source\<close>

type_synonym balance_candidate = "string \<times> string \<times> receipt_facts"

definition receipt_work :: "rpc_env \<Rightarrow> chain_entry \<Rightarrow> string \<times> string \<Rightarrow> (chain_error, balance_candidate option) result" where
  "receipt_work env entry = (\<lambda>(hash, timestamp).
     case nativeRpcRead env entry ''eth_getTransactionReceipt'' [VStr hash] of
       Inl (ArchiveDepth _) \<Rightarrow> Inr None
     | Inl e \<Rightarrow> Inl e
     | Inr raw \<Rightarrow> (case parseReceiptFacts raw of
         None \<Rightarrow> Inl (ChainIncomplete (network entry @ '' unusable receipt for '' @ hash))
       | Some receipt \<Rightarrow> Inr (Some (hash, timestamp, receipt))))"

definition balance_leg :: "chain_entry \<Rightarrow> string \<Rightarrow> balance_candidate \<Rightarrow> string option \<Rightarrow> leg_direction \<times> string \<Rightarrow> jsv" where
  "balance_leg entry wallet candidate contract leg =
     (let counterparty = (case contract of None \<Rightarrow> ZERO_ADDRESS | Some c \<Rightarrow> if toLowerCase c = wallet then ZERO_ADDRESS else c)
      in native_transfer entry (fst candidate) (fst (snd candidate)) (fst candidate @ '':balance:0'')
           (if fst leg = DirIn then counterparty else wallet) (if fst leg = DirIn then wallet else counterparty) (snd leg)
           [(''nativeSource'', VStr ''balance-diff'')])"

definition recoverBalanceDiffLeg :: "rpc_env \<Rightarrow> chain_entry \<Rightarrow> string \<Rightarrow> balance_candidate \<Rightarrow> (chain_error, jsv option) result" where
  "recoverBalanceDiffLeg env entry wallet candidate = (case candidate of (hash, timestamp, receipt) \<Rightarrow>
     if blockNumber receipt = 0 then Inr None
     else rbind (nativeRpcRead env entry ''eth_getTransactionByHash'' [VStr hash]) (\<lambda>raw.
       case parseTransactionFacts raw of
         None \<Rightarrow> Inl (ChainIncomplete (network entry @ '' unusable transaction '' @ hash))
       | Some tx \<Rightarrow>
           (let feePaid = totalFeePaid receipt tx in
            if feePaid = None \<and> toLowerCase (tf_from tx) = wallet then Inr None
            else rbind (plain_map (settles env hash) 2 (fetchNativeBalance env entry wallet) [blockNumber receipt - 1, blockNumber receipt]) (\<lambda>balances.
              Inr (map_option (balance_leg entry wallet candidate (tf_to tx))
                (nativeLegFromDelta (internalNativeDelta wallet tx (case feePaid of Some f \<Rightarrow> f | None \<Rightarrow> 0) (balances ! 0) (balances ! 1))))))))"

definition balance_work :: "rpc_env \<Rightarrow> chain_entry \<Rightarrow> string \<Rightarrow> balance_candidate \<Rightarrow> (chain_error, jsv option) result" where
  "balance_work env entry wallet candidate = (case recoverBalanceDiffLeg env entry wallet candidate of
     Inl (ArchiveDepth _) \<Rightarrow> Inr None
   | r \<Rightarrow> r)"

definition somes :: "'a option list \<Rightarrow> 'a list" where
  "somes xs = concat (map (\<lambda>x. case x of Some y \<Rightarrow> [y] | None \<Rightarrow> []) xs)"

text \<open>The candidates a leg is recovered for: those that succeeded, alone among them in their block.\<close>

definition usable_candidates :: "balance_candidate option list \<Rightarrow> balance_candidate list" where
  "usable_candidates withReceipts =
     fst (selectUnambiguousCandidates (\<lambda>c. blockNumber (snd (snd c))) (filter (\<lambda>c. succeeded (snd (snd c))) (somes withReceipts)))"

definition balance_legs :: "rpc_env \<Rightarrow> chain_entry \<Rightarrow> string \<Rightarrow> (string, string) jmap \<Rightarrow> (chain_error, jsv list) result" where
  "balance_legs env entry wallet candidates =
     rbind (plain_map (settles env (network entry @ '':receipts'')) BALANCE_DIFF_CONCURRENCY (receipt_work env entry) candidates) (\<lambda>withReceipts.
     rbind (plain_map (settles env (network entry @ '':balances'')) BALANCE_DIFF_CONCURRENCY (balance_work env entry wallet) (usable_candidates withReceipts)) (\<lambda>legs.
     Inr (somes legs)))"

definition fetchBalanceDiffLegs :: "rpc_env \<Rightarrow> chain_entry \<Rightarrow> string \<Rightarrow> (string, string) jmap \<Rightarrow> blocked_sources \<Rightarrow>
    blocked_sources \<times> (chain_error, jsv list option) result" where
  "fetchBalanceDiffLegs env entry wallet candidates blocked = (case balance_legs env entry wallet candidates of
     Inl (NativeSourceUnavailable _) \<Rightarrow> (markSourceUnavailable (clock env) entry BalanceDiff blocked, Inr None)
   | Inl e \<Rightarrow> (blocked, Inl e)
   | Inr legs \<Rightarrow> (blocked, Inr (Some legs)))"

section \<open>The native legs of a chain\<close>

definition source_legs :: "rpc_env \<Rightarrow> chain_entry \<Rightarrow> string \<Rightarrow> (string, string) jmap \<Rightarrow> native_source \<Rightarrow> blocked_sources \<Rightarrow>
    blocked_sources \<times> (chain_error, jsv list option) result" where
  "source_legs env entry wallet candidates source blocked = (case source of
     AlchemyDebug \<Rightarrow> fetchNativeTraceLegs env entry wallet candidates blocked
   | BalanceDiff \<Rightarrow> fetchBalanceDiffLegs env entry wallet candidates blocked)"

fun try_sources :: "rpc_env \<Rightarrow> chain_entry \<Rightarrow> string \<Rightarrow> (string, string) jmap \<Rightarrow> native_source list \<Rightarrow> blocked_sources \<Rightarrow>
    blocked_sources \<times> (chain_error, jsv list) result" where
  "try_sources env entry wallet candidates [] blocked = (blocked, Inr [])"
| "try_sources env entry wallet candidates (source # rest) blocked =
     (case isSourceUnavailable (clock env) entry source blocked of
        (True, blocked) \<Rightarrow> try_sources env entry wallet candidates rest blocked
      | (False, blocked) \<Rightarrow>
          (case source_legs env entry wallet candidates source blocked of
             (blocked, Inl e) \<Rightarrow> (blocked, Inl e)
           | (blocked, Inr (Some legs)) \<Rightarrow> (blocked, Inr legs)
           | (blocked, Inr None) \<Rightarrow> try_sources env entry wallet candidates rest blocked))"

definition recoverNativeLegs :: "host \<Rightarrow> rpc_env \<Rightarrow> chain_entry \<Rightarrow> string \<Rightarrow> jsv list \<Rightarrow> blocked_sources \<Rightarrow>
    blocked_sources \<times> (chain_error, jsv list) result" where
  "recoverNativeLegs H env entry wallet observed blocked =
     (if nativeSources entry = [] then (blocked, Inr [])
      else case nativeCandidates H wallet [] observed of
        Inl e \<Rightarrow> (blocked, Inl e)
      | Inr candidates \<Rightarrow> if candidates = [] then (blocked, Inr [])
          else try_sources env entry wallet candidates (nativeSources entry) blocked)"

section \<open>One chain, and all of them\<close>

definition scan_ranges :: "rpc_env \<Rightarrow> string \<Rightarrow> (int, nat) jmap \<Rightarrow> chain_entry \<Rightarrow> (chain_error, nat \<times> jsv list \<times> jsv list) result" where
  "scan_ranges env address since entry =
     rbind (fetchChainHead env entry) (\<lambda>head.
     let toBlock = hex_quantity head; fromBlock = map_option hex_quantity (mget since (chainId entry)) in
     rbind (fetchDirection env entry (''toAddress'', address) fromBlock toBlock) (\<lambda>inbound.
     rbind (fetchDirection env entry (''fromAddress'', address) fromBlock toBlock) (\<lambda>outbound.
     Inr (head, inbound, outbound))))"

definition as_incomplete :: "(string, 'a) result \<Rightarrow> (chain_error, 'a) result" where
  "as_incomplete r = (case r of Inl m \<Rightarrow> Inl (ChainIncomplete m) | Inr x \<Rightarrow> Inr x)"

definition scan_chain :: "host \<Rightarrow> rpc_env \<Rightarrow> string \<Rightarrow> (int, nat) jmap \<Rightarrow> chain_entry \<Rightarrow> blocked_sources \<Rightarrow>
    blocked_sources \<times> (chain_error, nat \<times> indexed_transaction list) result" where
  "scan_chain H env address since entry blocked = (case scan_ranges env address since entry of
     Inl e \<Rightarrow> (blocked, Inl e)
   | Inr (head, inbound, outbound) \<Rightarrow>
       (case recoverNativeLegs H env entry (toLowerCase address) (inbound @ outbound) blocked of
          (blocked, Inl e) \<Rightarrow> (blocked, Inl e)
        | (blocked, Inr traced) \<Rightarrow>
            (blocked, rbind (as_incomplete (normalizeChain H entry address (toLowerCase address) inbound outbound traced)) (\<lambda>rows. Inr (head, rows)))))"

record 's scan_hooks =
  onChain :: "int \<Rightarrow> nat \<Rightarrow> indexed_transaction list \<Rightarrow> 's \<Rightarrow> 's \<times> string option"
  onChainError :: "int \<Rightarrow> string \<Rightarrow> 's \<Rightarrow> 's"

record chain_scan_result =
  transactions :: "indexed_transaction list"
  chainHeads :: "(int, nat) jmap"

type_synonym chain_outcome = "chain_entry \<times> (chain_error, nat \<times> indexed_transaction list) result"

definition scan_start :: "blocked_sources \<times> 's \<Rightarrow> chain_entry \<Rightarrow> unit" where
  "scan_start st entry = ()"

definition scan_finish :: "host \<Rightarrow> rpc_env \<Rightarrow> 's scan_hooks \<Rightarrow> string \<Rightarrow> (int, nat) jmap \<Rightarrow> blocked_sources \<times> 's \<Rightarrow> chain_entry \<Rightarrow> unit \<Rightarrow>
    (blocked_sources \<times> 's) \<times> (chain_error, chain_outcome) result" where
  "scan_finish H env hooks address since st entry _ =
     (case scan_chain H env address since entry (fst st) of
        (blocked, Inl e) \<Rightarrow> ((blocked, onChainError hooks (chainId entry) (chain_message e) (snd st)), Inr (entry, Inl e))
      | (blocked, Inr (head, rows)) \<Rightarrow>
          (case onChain hooks (chainId entry) head rows (snd st) of
             (s, None) \<Rightarrow> ((blocked, s), Inr (entry, Inr (head, rows)))
           | (s, Some m) \<Rightarrow> ((blocked, onChainError hooks (chainId entry) m s), Inr (entry, Inl (ChainIncomplete m)))))"

definition add_outcome :: "chain_scan_result \<Rightarrow> chain_outcome \<Rightarrow> chain_scan_result" where
  "add_outcome r outcome = (case outcome of
     (entry, Inl e) \<Rightarrow> r
   | (entry, Inr (head, rows)) \<Rightarrow>
       r\<lparr>transactions := transactions r @ rows, chainHeads := mput (chainId entry) head (chainHeads r)\<rparr>)"

definition collect_outcomes :: "chain_outcome list \<Rightarrow> (http_error, chain_scan_result) result" where
  "collect_outcomes outcomes =
     (let r = foldl add_outcome \<lparr>transactions = [], chainHeads = []\<rparr> outcomes in
      if chainHeads r = [] then Inl (HttpError 503 ''Alchemy sync observed no chain'') else Inr r)"

definition fetchTransactions :: "host \<Rightarrow> rpc_env \<Rightarrow> 's scan_hooks \<Rightarrow> string \<Rightarrow> (int, nat) jmap \<Rightarrow> blocked_sources \<times> 's \<Rightarrow>
    (blocked_sources \<times> 's) \<times> (http_error, chain_scan_result) result" where
  "fetchTransactions H env hooks address since st =
     (if apiKey env = [] then (st, Inl (HttpError 503 ''Alchemy real adapter requires ALCHEMY_API_KEY.''))
      else case mapWithConcurrency (settles env ''chains'') CHAIN_CONCURRENCY scan_start (scan_finish H env hooks address since) st CHAIN_REGISTRY of
        (st', Inl e) \<Rightarrow> (st', Inl (HttpError 500 (chain_message e)))
      | (st', Inr outcomes) \<Rightarrow> (st', collect_outcomes outcomes))"

end
