(* ===== verification/SyncProgress.thy ===== *)
theory SyncProgress
  imports JsValue
begin

text \<open>
  The progress of a synchronisation (\<open>indexer/sync-progress.ts\<close>). The tracker keeps one object per wallet and
  chain, reached both from the list it shows and from an index by key; the objects are a list here and a
  reference is a position in it. What it hands to its listener is recorded in the order it was handed over.
\<close>

section \<open>The tracker\<close>

datatype sync_phase = Pending | Fetching | Tracing | Pricing | Saving | Done | Failed

record chain_progress =
  cp_chainId :: int
  cp_phase :: sync_phase
  cp_fetched :: nat
  cp_traced :: "(nat \<times> nat) option"
  cp_saved :: nat
  cp_message :: "string option"

record binding_progress =
  bp_bindingId :: string
  bp_walletAddress :: string
  bp_chains :: "nat list"

record progress_snapshot =
  ps_bindings :: "(string \<times> string \<times> chain_progress list) list"
  ps_updatedAt :: int

record tracker =
  entries :: "chain_progress list"
  bindings :: "binding_progress list"
  key_index :: "(string, nat) jmap"
  lastEmittedAt :: "int option"
  emitted :: "progress_snapshot list"
  listening :: bool

definition PROGRESS_MIN_INTERVAL_MS :: int where "PROGRESS_MIN_INTERVAL_MS = 250"

definition trimMessage :: "string \<Rightarrow> string" where
  "trimMessage message = take 200 message"

definition progress_key :: "string \<Rightarrow> int \<Rightarrow> string" where
  "progress_key bindingId chain = bindingId @ '':'' @ int_str chain"

definition pending_entry :: "int \<Rightarrow> chain_progress" where
  "pending_entry chain = \<lparr>cp_chainId = chain, cp_phase = Pending, cp_fetched = 0, cp_traced = None, cp_saved = 0, cp_message = None\<rparr>"

definition snapshot :: "int \<Rightarrow> tracker \<Rightarrow> progress_snapshot" where
  "snapshot now t = \<lparr>ps_bindings = map (\<lambda>b. (bp_bindingId b, bp_walletAddress b, map (\<lambda>a. entries t ! a) (bp_chains b))) (bindings t),
     ps_updatedAt = now\<rparr>"

definition publish :: "int \<Rightarrow> bool \<Rightarrow> tracker \<Rightarrow> tracker" where
  "publish now force t =
     (if \<not> listening t then t
      else if \<not> force \<and> (case lastEmittedAt t of None \<Rightarrow> False | Some l \<Rightarrow> now - l < PROGRESS_MIN_INTERVAL_MS) then t
      else t\<lparr>lastEmittedAt := Some now, emitted := emitted t @ [snapshot now t]\<rparr>)"

section \<open>Starting and looking up\<close>

definition register_chain :: "string \<Rightarrow> tracker \<times> nat list \<Rightarrow> int \<Rightarrow> tracker \<times> nat list" where
  "register_chain bindingId = (\<lambda>(t, addrs) chain.
     (t\<lparr>entries := entries t @ [pending_entry chain], key_index := mput (progress_key bindingId chain) (length (entries t)) (key_index t)\<rparr>,
      addrs @ [length (entries t)]))"

definition register_binding :: "int list \<Rightarrow> tracker \<Rightarrow> string \<times> string \<Rightarrow> tracker" where
  "register_binding chainIds t b = (case foldl (register_chain (fst b)) (t, []) chainIds of
     (t', addrs) \<Rightarrow> t'\<lparr>bindings := bindings t' @ [\<lparr>bp_bindingId = fst b, bp_walletAddress = snd b, bp_chains = addrs\<rparr>]\<rparr>)"

definition new_tracker :: "int \<Rightarrow> bool \<Rightarrow> (string \<times> string) list \<Rightarrow> int list \<Rightarrow> tracker" where
  "new_tracker now listens bs chainIds = publish now True
     (foldl (register_binding chainIds) \<lparr>entries = [], bindings = [], key_index = [], lastEmittedAt = None, emitted = [], listening = listens\<rparr> bs)"

text \<open>\<open>entry\<close>: an unregistered pair is created on the fly and shown when its wallet is in the list.\<close>

fun attach_chain :: "string \<Rightarrow> nat \<Rightarrow> binding_progress list \<Rightarrow> binding_progress list" where
  "attach_chain bindingId a [] = []"
| "attach_chain bindingId a (b # bs) =
     (if bp_bindingId b = bindingId then b\<lparr>bp_chains := bp_chains b @ [a]\<rparr> # bs else b # attach_chain bindingId a bs)"

definition entry_at :: "string \<Rightarrow> int \<Rightarrow> tracker \<Rightarrow> nat \<times> tracker" where
  "entry_at bindingId chain t = (case mget (key_index t) (progress_key bindingId chain) of
     Some a \<Rightarrow> (a, t)
   | None \<Rightarrow> (length (entries t),
       t\<lparr>entries := entries t @ [pending_entry chain], bindings := attach_chain bindingId (length (entries t)) (bindings t),
         key_index := mput (progress_key bindingId chain) (length (entries t)) (key_index t)\<rparr>))"

section \<open>The handle\<close>

definition terminal :: "chain_progress \<Rightarrow> bool" where
  "terminal e \<longleftrightarrow> cp_phase e = Done \<or> cp_phase e = Failed"

definition set_entry :: "int \<Rightarrow> nat \<Rightarrow> (chain_progress \<Rightarrow> chain_progress) \<Rightarrow> bool \<Rightarrow> tracker \<Rightarrow> tracker" where
  "set_entry now a patch phaseChanged t = publish now phaseChanged (t\<lparr>entries := (entries t)[a := patch (entries t ! a)]\<rparr>)"

datatype progress_call =
    CallScanning sync_phase nat "(nat \<times> nat) option"
  | CallPricing nat
  | CallSaving nat
  | CallDone nat
  | CallFail string

fun handle_call :: "int \<Rightarrow> nat \<Rightarrow> progress_call \<Rightarrow> tracker \<Rightarrow> tracker" where
  "handle_call now a (CallScanning phase fetched traced) t =
     (if terminal (entries t ! a) then t
      else set_entry now a (\<lambda>e. e\<lparr>cp_phase := phase, cp_fetched := fetched, cp_traced := (if traced = None then cp_traced e else traced)\<rparr>)
        (cp_phase (entries t ! a) \<noteq> phase) t)"
| "handle_call now a (CallPricing fetched) t =
     (if terminal (entries t ! a) then t else set_entry now a (\<lambda>e. e\<lparr>cp_phase := Pricing, cp_fetched := fetched\<rparr>) True t)"
| "handle_call now a (CallSaving saved) t =
     (if terminal (entries t ! a) then t
      else set_entry now a (\<lambda>e. e\<lparr>cp_phase := Saving, cp_saved := saved\<rparr>) (cp_phase (entries t ! a) \<noteq> Saving) t)"
| "handle_call now a (CallDone rows) t = set_entry now a (\<lambda>e. e\<lparr>cp_phase := Done, cp_fetched := rows, cp_saved := rows\<rparr>) True t"
| "handle_call now a (CallFail message) t =
     (if terminal (entries t ! a) then t else set_entry now a (\<lambda>e. e\<lparr>cp_phase := Failed, cp_message := Some (trimMessage message)\<rparr>) True t)"

text \<open>One use of \<open>chain(bindingId, chainId)\<close>: look the entry up, then call its handle.\<close>

definition progress_call_on :: "int \<Rightarrow> string \<Rightarrow> int \<Rightarrow> progress_call \<Rightarrow> tracker \<Rightarrow> tracker" where
  "progress_call_on now bindingId chain call t = (case entry_at bindingId chain t of (a, t') \<Rightarrow> handle_call now a call t')"

type_synonym timed_call = "int \<times> string \<times> int \<times> progress_call"

definition run_calls :: "timed_call list \<Rightarrow> tracker \<Rightarrow> tracker" where
  "run_calls calls t = foldl (\<lambda>t (now, b, c, call). progress_call_on now b c call t) t calls"

end
