(* ===== verification/IndexerSync.thy ===== *)
theory IndexerSync
  imports ChainScan SyncProgress
begin

text \<open>
  The synchronisation of a user (\<open>indexer/indexer.service.ts\<close>) and the per-chain cursors
  (\<open>indexer/sync-cursor.repository.adapters.ts\<close>). The services it calls are a record of operations on a world
  \<open>'w\<close>; an operation that may reject returns the message. The persistence of a chain, which the code puts on
  one queue, runs at the point where the scan hands the chain over. Progress calls from inside the scan
  (\<open>onProgress\<close>) and the timing wrapper \<open>measureOperation\<close> are left out.
\<close>

section \<open>Cursors\<close>

record chain_cursor =
  cur_chainId :: int
  lastSyncedBlock :: nat
  rulesVersion :: nat

type_synonym cursor_store = "(string, chain_cursor) jmap"

definition cursor_key :: "string \<Rightarrow> int \<Rightarrow> string" where
  "cursor_key bid c = bid @ '':'' @ int_str c"

definition listForBinding :: "string \<Rightarrow> cursor_store \<Rightarrow> chain_cursor list" where
  "listForBinding bid m = map snd (filter (\<lambda>(key, _). startsWith key (bid @ '':'')) m)"

definition advance :: "string \<Rightarrow> int \<Rightarrow> nat \<Rightarrow> nat \<Rightarrow> cursor_store \<Rightarrow> cursor_store" where
  "advance bid c head rules m = (let key = cursor_key bid c in
     case mget m key of
       None \<Rightarrow> mput key \<lparr>cur_chainId = c, lastSyncedBlock = head, rulesVersion = rules\<rparr> m
     | Some e \<Rightarrow> mput key (e\<lparr>lastSyncedBlock := (if lastSyncedBlock e < head then head else lastSyncedBlock e),
         rulesVersion := max (rulesVersion e) rules\<rparr>) m)"

definition deleteForBinding :: "string \<Rightarrow> cursor_store \<Rightarrow> cursor_store" where
  "deleteForBinding bid m = filter (\<lambda>(key, _). \<not> startsWith key (bid @ '':'')) m"

definition NORMALIZATION_RULES_VERSION :: nat where "NORMALIZATION_RULES_VERSION = 1"

section \<open>State and services\<close>

record binding_record =
  b_id :: string
  b_walletAddress :: string
  b_verifiedAt :: "int option"
  b_initialSyncedAt :: "int option"

record skip_entry =
  sk_bindingId :: string
  sk_chainId :: "int option"
  sk_code :: string
  sk_message :: "string option"

record sync_result =
  sr_bindings :: nat
  sr_fetched :: nat
  sr_normalized :: nat
  sr_chains :: "(int \<times> nat) list"
  sr_skipped :: "skip_entry list"

record 'w sync_state =
  world :: 'w
  progress :: tracker
  skipped :: "skip_entry list"
  fetched :: nat
  normalized :: nat
  byChain :: "(int, nat) jmap"
  persisted :: "int list"

type_synonym 'w effect = "'w \<Rightarrow> 'w \<times> string option"

record 'w services =
  findAllByUser :: "string \<Rightarrow> 'w \<Rightarrow> binding_record list"
  cursorsOf :: "string \<Rightarrow> 'w \<Rightarrow> (string, chain_cursor list) result"
  scan :: "'w sync_state scan_hooks \<Rightarrow> string \<Rightarrow> (int, nat) jmap \<Rightarrow> 'w sync_state \<Rightarrow> 'w sync_state \<times> (http_error, chain_scan_result) result"
  spotPrices :: "indexed_transaction list \<Rightarrow> 'w \<Rightarrow> 'w \<times> indexed_transaction list \<times> string option"
  historicalPrices :: "indexed_transaction list \<Rightarrow> 'w \<Rightarrow> 'w \<times> indexed_transaction list \<times> string option"
  anchorHash :: "indexed_transaction \<Rightarrow> string"
  saveRows :: "string \<Rightarrow> string \<Rightarrow> indexed_transaction list \<Rightarrow> 'w \<Rightarrow> 'w \<times> nat list \<times> (string, transaction_record list) result"
  purgeRows :: "string \<Rightarrow> string \<Rightarrow> emitted_leg list \<Rightarrow> 'w effect"
  advanceCursor :: "string \<Rightarrow> int \<Rightarrow> nat \<Rightarrow> nat \<Rightarrow> 'w effect"
  anchorStatus :: "string \<Rightarrow> 'w \<Rightarrow> (string, string option) result"
  submitAnchor :: "string \<Rightarrow> 'w effect"
  markAnchorFailed :: "string \<Rightarrow> 'w effect"
  markInitialSynced :: "string \<Rightarrow> 'w effect"
  linkOwn :: "string \<Rightarrow> 'w effect"
  linkBridge :: "string \<Rightarrow> 'w effect"
  clockOf :: "'w \<Rightarrow> int"

definition sync_sanitize :: "string \<Rightarrow> string option" where
  "sync_sanitize message = (if message = [] then None else Some (take 200 message))"

definition skip :: "string \<Rightarrow> int option \<Rightarrow> string \<Rightarrow> string option \<Rightarrow> 'w sync_state \<Rightarrow> 'w sync_state" where
  "skip bid c code message st = st\<lparr>skipped := skipped st @ [\<lparr>sk_bindingId = bid, sk_chainId = c, sk_code = code, sk_message = message\<rparr>]\<rparr>"

definition report :: "'w services \<Rightarrow> binding_record \<Rightarrow> int \<Rightarrow> progress_call \<Rightarrow> 'w sync_state \<Rightarrow> 'w sync_state" where
  "report S b c call st = st\<lparr>progress := progress_call_on (clockOf S (world st)) (b_id b) c call (progress st)\<rparr>"

text \<open>A step whose rejection only leaves a diagnostic.\<close>

definition guarded :: "string \<Rightarrow> string \<Rightarrow> 'w effect \<Rightarrow> 'w sync_state \<Rightarrow> 'w sync_state" where
  "guarded bid code eff st = (case eff (world st) of
     (w, None) \<Rightarrow> st\<lparr>world := w\<rparr>
   | (w, Some message) \<Rightarrow> skip bid None code (sync_sanitize message) (st\<lparr>world := w\<rparr>))"

section \<open>One chain\<close>

definition enriched :: "(indexed_transaction list \<Rightarrow> 'w \<Rightarrow> 'w \<times> indexed_transaction list \<times> string option) \<Rightarrow> string \<Rightarrow> string \<Rightarrow>
    indexed_transaction list \<Rightarrow> 'w sync_state \<Rightarrow> indexed_transaction list \<times> 'w sync_state" where
  "enriched enrich bid code rows st = (case enrich rows (world st) of
     (w, rows', None) \<Rightarrow> (rows', st\<lparr>world := w\<rparr>)
   | (w, rows', Some message) \<Rightarrow> (rows', skip bid None code (sync_sanitize message) (st\<lparr>world := w\<rparr>)))"

definition with_anchor_hash :: "'w services \<Rightarrow> indexed_transaction \<Rightarrow> indexed_transaction" where
  "with_anchor_hash S item = item\<lparr>i_payload := pput ''_anchorPayloadHash'' (VStr (anchorHash S item)) (i_payload item)\<rparr>"

definition emitted_of :: "transaction_record \<Rightarrow> emitted_leg" where
  "emitted_of row = \<lparr>leg_id = txHash row, leg_eventType = row_eventType row,
     nettedLegIds = (case pget (row_payload row) ''netted_leg_ids'' of VArr vs \<Rightarrow> map js_String vs | _ \<Rightarrow> [])\<rparr>"

text \<open>One event's anchor: submitted unless one is already there and has not failed; a rejection marks it failed.\<close>

definition anchor_row :: "'w services \<Rightarrow> string \<Rightarrow> 'w sync_state \<Rightarrow> transaction_record \<Rightarrow> 'w sync_state" where
  "anchor_row S bid st row =
     (let payloadHash = js_String (pget (row_payload row) ''_anchorPayloadHash'');
          rejected = (\<lambda>st message. skip bid None ''anchor_enqueue_failed'' (sync_sanitize message)
            (guarded bid ''anchor_mark_failed'' (markAnchorFailed S payloadHash) st))
      in case anchorStatus S payloadHash (world st) of
           Inl message \<Rightarrow> rejected st message
         | Inr existing \<Rightarrow>
             if existing \<noteq> None \<and> existing \<noteq> Some ''failed'' then st
             else (case submitAnchor S payloadHash (world st) of
               (w, None) \<Rightarrow> st\<lparr>world := w\<rparr>
             | (w, Some message) \<Rightarrow> rejected (st\<lparr>world := w\<rparr>) message))"

definition anchorStored :: "'w services \<Rightarrow> string \<Rightarrow> transaction_record list \<Rightarrow> 'w sync_state \<Rightarrow> 'w sync_state" where
  "anchorStored S bid stored st = foldl (anchor_row S bid) st stored"

definition persist_failed :: "'w services \<Rightarrow> binding_record \<Rightarrow> int \<Rightarrow> string \<Rightarrow> 'w sync_state \<Rightarrow> 'w sync_state" where
  "persist_failed S b c message st =
     report S b c (CallFail (case sync_sanitize message of Some m \<Rightarrow> m | None \<Rightarrow> ''chain persist failed''))
       (skip (b_id b) (Some c) ''chain_incomplete'' (sync_sanitize message) st)"

definition count_fetched :: "int \<Rightarrow> nat \<Rightarrow> 'w sync_state \<Rightarrow> 'w sync_state" where
  "count_fetched c n st = st\<lparr>fetched := fetched st + n,
     byChain := mput c ((case mget (byChain st) c of Some k \<Rightarrow> k | None \<Rightarrow> 0) + n) (byChain st)\<rparr>"

text \<open>From the saved rows to the cursor and the anchors.\<close>

definition finish_chain :: "'w services \<Rightarrow> string \<Rightarrow> binding_record \<Rightarrow> int \<Rightarrow> nat \<Rightarrow> transaction_record list \<Rightarrow> 'w sync_state \<Rightarrow> 'w sync_state" where
  "finish_chain S userId b c head stored st =
     (let st = st\<lparr>normalized := normalized st + length stored\<rparr>;
          st = guarded (b_id b) ''superseded_purge_failed'' (purgeRows S (b_id b) userId (map emitted_of stored)) st
      in case advanceCursor S (b_id b) c head NORMALIZATION_RULES_VERSION (world st) of
           (w, Some message) \<Rightarrow> persist_failed S b c message (st\<lparr>world := w\<rparr>)
         | (w, None) \<Rightarrow>
             (let st = st\<lparr>world := w\<rparr>; st = (if b_verifiedAt b \<noteq> None then anchorStored S (b_id b) stored st else st)
              in report S b c (CallDone (length stored)) st))"

definition persistChain :: "'w services \<Rightarrow> string \<Rightarrow> binding_record \<Rightarrow> int \<Rightarrow> nat \<Rightarrow> indexed_transaction list \<Rightarrow> 'w sync_state \<Rightarrow> 'w sync_state" where
  "persistChain S userId b c head rows st =
     (let st = report S b c (CallPricing (length rows)) (count_fetched c (length rows) st);
          (rows, st) = enriched (spotPrices S) (b_id b) ''price_enrichment_failed'' rows st;
          (rows, st) = enriched (historicalPrices S) (b_id b) ''historical_price_enrichment_failed'' rows st;
          st = report S b c (CallSaving 0) st
      in case saveRows S (b_id b) userId (map (with_anchor_hash S) rows) (world st) of
           (w, saves, outcome) \<Rightarrow>
             (let st = foldl (\<lambda>st n. report S b c (CallSaving n) st) (st\<lparr>world := w\<rparr>) saves
              in case outcome of
                   Inl message \<Rightarrow> persist_failed S b c message st
                 | Inr stored \<Rightarrow> finish_chain S userId b c head stored st))"

section \<open>One wallet\<close>

definition since_of :: "chain_cursor list \<Rightarrow> (int, nat) jmap" where
  "since_of cursors = foldl (\<lambda>m e. if rulesVersion e < NORMALIZATION_RULES_VERSION then m else mput (cur_chainId e) (lastSyncedBlock e) m) [] cursors"

definition sync_hooks :: "'w services \<Rightarrow> string \<Rightarrow> binding_record \<Rightarrow> 'w sync_state scan_hooks" where
  "sync_hooks S userId b = \<lparr>
     onChain = (\<lambda>c head rows st. (persistChain S userId b c head rows (st\<lparr>persisted := persisted st @ [c]\<rparr>), None)),
     onChainError = (\<lambda>c message st. report S b c (CallFail message) st)\<rparr>"

text \<open>What the scan did not hand over: the rest of its result, or a chain that was not completely observed.\<close>

definition persist_rest :: "'w services \<Rightarrow> string \<Rightarrow> binding_record \<Rightarrow> chain_scan_result \<Rightarrow> 'w sync_state \<Rightarrow> int \<Rightarrow> 'w sync_state" where
  "persist_rest S userId b r st c =
     (if c \<in> set (persisted st) then st
      else case mget (chainHeads r) c of
        None \<Rightarrow> report S b c (CallFail ''chain incomplete'') (skip (b_id b) (Some c) ''chain_incomplete'' None st)
      | Some head \<Rightarrow> persistChain S userId b c head
          (filter (\<lambda>row. js_Number (VStr (i_chain row)) = JFin (of_int c)) (chain_scan_result.transactions r)) st)"

definition binding_failed :: "'w services \<Rightarrow> binding_record \<Rightarrow> string \<Rightarrow> 'w sync_state \<Rightarrow> 'w sync_state" where
  "binding_failed S b message st =
     foldl (\<lambda>st c. report S b c (CallFail (case sync_sanitize message of Some m \<Rightarrow> m | None \<Rightarrow> ''binding unavailable'')) st)
       (skip (b_id b) None ''binding_unavailable'' (sync_sanitize message) st) SUPPORTED_CHAIN_IDS"

definition sync_binding :: "'w services \<Rightarrow> string \<Rightarrow> 'w sync_state \<times> bool \<Rightarrow> binding_record \<Rightarrow> 'w sync_state \<times> bool" where
  "sync_binding S userId = (\<lambda>(st, allFailed) b.
     case cursorsOf S (b_id b) (world st) of
       Inl message \<Rightarrow> (binding_failed S b message st, allFailed)
     | Inr cursors \<Rightarrow>
         (case scan S (sync_hooks S userId b) (b_walletAddress b) (since_of cursors) (st\<lparr>persisted := []\<rparr>) of
            (st, Inl e) \<Rightarrow> (binding_failed S b (code_of e) st, allFailed)
          | (st, Inr r) \<Rightarrow>
              (let st = foldl (persist_rest S userId b r) st SUPPORTED_CHAIN_IDS
               in if b_initialSyncedAt b \<noteq> None then (st, False)
                  else (case markInitialSynced S (b_id b) (world st) of
                    (w, None) \<Rightarrow> (st\<lparr>world := w\<rparr>, False)
                  | (w, Some message) \<Rightarrow> (binding_failed S b message (st\<lparr>world := w\<rparr>), allFailed)))))"

section \<open>The run\<close>

definition first_state :: "'w services \<Rightarrow> bool \<Rightarrow> binding_record list \<Rightarrow> 'w \<Rightarrow> 'w sync_state" where
  "first_state S listens bs w = \<lparr>world = w,
     progress = new_tracker (clockOf S w) listens (map (\<lambda>b. (b_id b, b_walletAddress b)) bs) SUPPORTED_CHAIN_IDS,
     skipped = [], fetched = 0, normalized = 0, byChain = [], persisted = []\<rparr>"

text \<open>The two linking passes share one guard: the second does not run when the first rejects.\<close>

definition link_passes :: "'w services \<Rightarrow> string \<Rightarrow> 'w effect" where
  "link_passes S userId w = (case linkOwn S userId w of
     (w, Some message) \<Rightarrow> (w, Some message)
   | (w, None) \<Rightarrow> linkBridge S userId w)"

definition chain_counts :: "(int, nat) jmap \<Rightarrow> (int \<times> nat) list" where
  "chain_counts m = map (\<lambda>c. (c, case mget m c of Some n \<Rightarrow> n | None \<Rightarrow> 0)) SUPPORTED_CHAIN_IDS"

definition runSyncWork :: "'w services \<Rightarrow> string \<Rightarrow> bool \<Rightarrow> binding_record list \<Rightarrow> 'w \<Rightarrow> 'w sync_state \<times> (http_error, sync_result) result" where
  "runSyncWork S userId listens bs w =
     (case foldl (sync_binding S userId) (first_state S listens bs w, True) bs of
        (st, allFailed) \<Rightarrow>
          if allFailed \<and> bs \<noteq> [] then (st, Inl (HttpError 503 ''Sync failed for all wallets''))
          else (let st = guarded (case bs of b # _ \<Rightarrow> b_id b | [] \<Rightarrow> []) ''bridge_linking_failed'' (link_passes S userId) st
                in (st, Inr \<lparr>sr_bindings = length bs, sr_fetched = fetched st, sr_normalized = normalized st,
                      sr_chains = chain_counts (byChain st), sr_skipped = skipped st\<rparr>)))"

text \<open>\<open>sync\<close>: the wallets that were never synchronised come first, each group in the repository's order.\<close>

definition walk_order :: "binding_record list \<Rightarrow> binding_record list" where
  "walk_order bs = filter (\<lambda>b. b_initialSyncedAt b = None) bs @ filter (\<lambda>b. b_initialSyncedAt b \<noteq> None) bs"

definition sync :: "'w services \<Rightarrow> string \<Rightarrow> bool \<Rightarrow> 'w \<Rightarrow> 'w \<times> (http_error, sync_result) result" where
  "sync S userId listens w = (let bs = findAllByUser S userId w in
     if bs = [] then (w, Inl (HttpError 404 ''A bound wallet is required before sync.''))
     else case runSyncWork S userId listens (walk_order bs) w of (st, r) \<Rightarrow> (world st, r))"

definition ensureInitialSync :: "'w services \<Rightarrow> string \<Rightarrow> 'w \<Rightarrow> 'w \<times> (http_error, sync_result option) result" where
  "ensureInitialSync S userId w = (let incomplete = filter (\<lambda>b. b_initialSyncedAt b = None) (findAllByUser S userId w) in
     if incomplete = [] then (w, Inr None)
     else case runSyncWork S userId False incomplete w of
       (st, Inl e) \<Rightarrow> (world st, Inl e)
     | (st, Inr r) \<Rightarrow> (world st, Inr (Some r)))"

section \<open>Sharing a run in flight\<close>

text \<open>The results of a first import and of the forced run that waited for it, added up.\<close>

definition skip_key :: "skip_entry \<Rightarrow> string" where
  "skip_key e = sk_bindingId e @ '':'' @ (case sk_chainId e of Some c \<Rightarrow> int_str c | None \<Rightarrow> []) @ '':'' @ sk_code e"

definition add_count :: "(int, nat) jmap \<Rightarrow> int \<times> nat \<Rightarrow> (int, nat) jmap" where
  "add_count m e = mput (fst e) ((case mget m (fst e) of Some n \<Rightarrow> n | None \<Rightarrow> 0) + snd e) m"

definition add_skip :: "string list \<times> skip_entry list \<Rightarrow> skip_entry \<Rightarrow> string list \<times> skip_entry list" where
  "add_skip = (\<lambda>(seen, out) e. if skip_key e \<in> set seen then (seen, out) else (seen @ [skip_key e], out @ [e]))"

definition mergeSyncResults :: "sync_result \<Rightarrow> sync_result \<Rightarrow> sync_result" where
  "mergeSyncResults first rest = \<lparr>sr_bindings = sr_bindings rest, sr_fetched = sr_fetched first + sr_fetched rest,
     sr_normalized = sr_normalized first + sr_normalized rest,
     sr_chains = chain_counts (foldl add_count (foldl add_count [] (sr_chains first)) (sr_chains rest)),
     sr_skipped = snd (foldl add_skip ([], []) (sr_skipped first @ sr_skipped rest))\<rparr>"

end
