(* ===== verification/SyncJob.thy ===== *)
theory SyncJob
  imports IndexerSync
begin

text \<open>
  Asynchronous synchronisation jobs: the in-memory store (\<open>indexer/sync-job.ts\<close>), the runner and the service of the
  HTTP boundary (\<open>indexer/sync-job.service.ts\<close>). Dates are epoch milliseconds; the result, the error and the
  progress of a job are kept as the code keeps them. The clock is an argument of each operation.
\<close>

section \<open>Records\<close>

datatype job_status = Queued | Running | JobDone | JobFailed

record job_error =
  je_code :: string
  je_message :: string

record job_record =
  j_id :: string
  j_userId :: string
  j_status :: job_status
  j_createdAt :: int
  j_updatedAt :: int
  j_result :: "sync_result option"
  j_error :: "job_error option"
  j_progress :: "progress_snapshot option"

record job_store =
  jobs :: "(string, job_record) jmap"
  job_counter :: nat

definition FINISHED :: "job_status list" where "FINISHED = [JobDone, JobFailed]"
definition FINISHED_TTL_MS :: int where "FINISHED_TTL_MS = 60 * 60 * 1000"
definition MAX_RECORDS :: nat where "MAX_RECORDS = 1000"

definition finished :: "job_record \<Rightarrow> bool" where
  "finished job \<longleftrightarrow> j_status job \<in> set FINISHED"

section \<open>The store\<close>

text \<open>The oldest records go until at most \<open>MAX_RECORDS\<close> are left.\<close>

definition prune :: "int \<Rightarrow> job_store \<Rightarrow> job_store" where
  "prune now st = (let kept = filter (\<lambda>(_, job). \<not> (finished job \<and> j_updatedAt job < now - FINISHED_TTL_MS)) (jobs st)
     in st\<lparr>jobs := drop (length kept - MAX_RECORDS) kept\<rparr>)"

definition job_id :: "int \<Rightarrow> nat \<Rightarrow> string" where
  "job_id now n = ''sync-'' @ (if now < 0 then CHR ''-'' # to_base 36 (nat (- now)) else to_base 36 (nat now)) @ ''-'' @ to_base 36 n"

definition create_job :: "int \<Rightarrow> string \<Rightarrow> job_store \<Rightarrow> job_store \<times> job_record" where
  "create_job now userId st =
     (let st = prune now st; n = job_counter st + 1;
          job = \<lparr>j_id = job_id now n, j_userId = userId, j_status = Queued, j_createdAt = now, j_updatedAt = now,
            j_result = None, j_error = None, j_progress = None\<rparr>
      in (\<lparr>jobs = mput (j_id job) job (jobs st), job_counter = n\<rparr>, job))"

definition findActiveForUser :: "string \<Rightarrow> job_store \<Rightarrow> job_record option" where
  "findActiveForUser userId st = List.find (\<lambda>job. j_userId job = userId \<and> \<not> finished job) (mvalues (jobs st))"

datatype job_patch =
    PatchRunning
  | PatchProgress progress_snapshot
  | PatchDone sync_result
  | PatchFailed job_error

fun apply_patch :: "job_patch \<Rightarrow> job_record \<Rightarrow> job_record" where
  "apply_patch PatchRunning job = job\<lparr>j_status := Running\<rparr>"
| "apply_patch (PatchProgress p) job = job\<lparr>j_progress := Some p\<rparr>"
| "apply_patch (PatchDone r) job = job\<lparr>j_status := JobDone, j_result := Some r\<rparr>"
| "apply_patch (PatchFailed e) job = job\<lparr>j_status := JobFailed, j_error := Some e\<rparr>"

definition update_job :: "int \<Rightarrow> string \<Rightarrow> job_patch \<Rightarrow> job_store \<Rightarrow> (string, job_store) result" where
  "update_job now i patch st = (case mget (jobs st) i of
     None \<Rightarrow> Inl (''Unknown sync job '' @ i)
   | Some current \<Rightarrow> Inr (st\<lparr>jobs := mput i ((apply_patch patch current)\<lparr>j_updatedAt := now\<rparr>) (jobs st)\<rparr>))"

section \<open>The runner\<close>

definition job_sanitize :: "string \<Rightarrow> string" where
  "job_sanitize message = (if message \<noteq> [] then take 200 message else ''Sync failed.'')"

text \<open>What a run of \<open>sync\<close> throws: an HTTP exception with its status, the code of its body if it has one and its
  message, or another error.\<close>

datatype thrown = HttpException nat "string option" string | OtherError "string option"

fun toSyncJobError :: "thrown \<Rightarrow> job_error" where
  "toSyncJobError (HttpException status code message) =
     \<lparr>je_code = (case code of Some c \<Rightarrow> c | None \<Rightarrow>
         if 500 \<le> status then ''sync_unavailable'' else if status = 404 then ''not_found'' else ''sync_rejected''),
      je_message = job_sanitize message\<rparr>"
| "toSyncJobError (OtherError message) =
     \<lparr>je_code = ''sync_failed'', je_message = (case message of Some m \<Rightarrow> job_sanitize m | None \<Rightarrow> job_sanitize [])\<rparr>"

text \<open>A progress report the store has no record for is dropped.\<close>

definition report_progress :: "string \<Rightarrow> job_store \<Rightarrow> int \<times> progress_snapshot \<Rightarrow> job_store" where
  "report_progress i st p = (case update_job (fst p) i (PatchProgress (snd p)) st of Inr st' \<Rightarrow> st' | Inl _ \<Rightarrow> st)"

definition finish_job :: "int \<Rightarrow> string \<Rightarrow> (thrown, sync_result) result \<Rightarrow> job_store \<Rightarrow> (string, job_store) result" where
  "finish_job now i outcome st = (case outcome of
     Inl e \<Rightarrow> update_job now i (PatchFailed (toSyncJobError e)) st
   | Inr r \<Rightarrow> (case update_job now i (PatchDone r) st of
       Inr st' \<Rightarrow> Inr st'
     | Inl m \<Rightarrow> update_job now i (PatchFailed (toSyncJobError (OtherError (Some m)))) st))"

text \<open>\<open>SyncJobRunner.run\<close>: the reports of the run and how it ended; the error of a vanished record at the end is the
  rejection of the promise.\<close>

definition run_job :: "int \<Rightarrow> int \<Rightarrow> string \<Rightarrow> (int \<times> progress_snapshot) list \<Rightarrow> (thrown, sync_result) result \<Rightarrow> job_store \<Rightarrow> job_store \<times> string option" where
  "run_job started ended i reports outcome st =
     (case update_job started i PatchRunning st of
        Inl _ \<Rightarrow> (st, None)
      | Inr st \<Rightarrow>
          (let st = foldl (report_progress i) st reports in
           case finish_job ended i outcome st of Inr st \<Rightarrow> (st, None) | Inl m \<Rightarrow> (st, Some m)))"

section \<open>The service\<close>

text \<open>\<open>enqueue\<close>: the answer of the dispatcher is \<open>None\<close>, or the message it rejected with.\<close>

definition enqueue :: "int \<Rightarrow> nat \<Rightarrow> string option \<Rightarrow> string \<Rightarrow> job_store \<Rightarrow> job_store \<times> (http_error, job_record) result" where
  "enqueue now bindingCount dispatched userId st =
     (if bindingCount = 0 then (st, Inl (HttpError 404 ''A bound wallet is required before sync.''))
      else case findActiveForUser userId st of
        Some active \<Rightarrow> (st, Inr active)
      | None \<Rightarrow> (case create_job now userId st of (st, job) \<Rightarrow>
          (case dispatched of
             None \<Rightarrow> (st, Inr job)
           | Some message \<Rightarrow>
               (let e = \<lparr>je_code = ''enqueue_failed'', je_message = job_sanitize message\<rparr> in
                case update_job now (j_id job) (PatchFailed e) st of
                  Inr st' \<Rightarrow> (st', Inr (case mget (jobs st') (j_id job) of Some j \<Rightarrow> j | None \<Rightarrow> job))
                | Inl m \<Rightarrow> (st, Inl (HttpError 500 m))))))"

definition job_status_of :: "string \<Rightarrow> string \<Rightarrow> job_store \<Rightarrow> (http_error, job_record) result" where
  "job_status_of userId i st = (case mget (jobs st) i of
     None \<Rightarrow> Inl (HttpError 404 ''Sync job not found.'')
   | Some job \<Rightarrow> if j_userId job \<noteq> userId then Inl (HttpError 404 ''Sync job not found.'') else Inr job)"

record job_dto =
  jobId :: string
  status :: job_status
  createdAt :: string
  updatedAt :: string
  dto_result :: "sync_result option"
  dto_error :: "job_error option"
  dto_progress :: "progress_snapshot option"

definition toSyncJobDto :: "job_record \<Rightarrow> job_dto" where
  "toSyncJobDto job = \<lparr>jobId = j_id job, status = j_status job, createdAt = toISOString (j_createdAt job),
     updatedAt = toISOString (j_updatedAt job), dto_result = j_result job, dto_error = j_error job, dto_progress = j_progress job\<rparr>"

section \<open>The jobs of a process\<close>

text \<open>The events of a process: a request, a run that starts, reports, and ends. The dispatcher starts a job once,
  while it is queued.\<close>

datatype job_event =
    Enqueues int string "string option"
  | Starts int string
  | Reports int string progress_snapshot
  | Ends int string "(thrown, sync_result) result"

definition has_status :: "job_store \<Rightarrow> string \<Rightarrow> job_status \<Rightarrow> bool" where
  "has_status st i s = (case mget (jobs st) i of None \<Rightarrow> False | Some job \<Rightarrow> j_status job = s)"

inductive job_step :: "job_store \<Rightarrow> job_event \<Rightarrow> job_store \<Rightarrow> bool" where
  enqueues: "enqueue now (Suc n) dispatched u st = (st', r) \<Longrightarrow> job_step st (Enqueues now u dispatched) st'"
| starts: "has_status st i Queued \<Longrightarrow> update_job now i PatchRunning st = Inr st' \<Longrightarrow> job_step st (Starts now i) st'"
| reports: "has_status st i Running \<or> mget (jobs st) i = None \<Longrightarrow> job_step st (Reports now i p) (report_progress i st (now, p))"
| ends: "has_status st i Running \<Longrightarrow> finish_job now i outcome st = Inr st' \<Longrightarrow> job_step st (Ends now i outcome) st'"

inductive_cases job_stepE: "job_step st e st'"

inductive jobs_reachable :: "job_store \<Rightarrow> bool" where
  no_jobs: "jobs_reachable \<lparr>jobs = [], job_counter = 0\<rparr>"
| job_steps: "jobs_reachable st \<Longrightarrow> job_step st e st' \<Longrightarrow> jobs_reachable st'"

end
