(* ===== verification/SyncJob_Properties.thy ===== *)
theory SyncJob_Properties
  imports SyncJob
begin

text \<open>
  The life of a job: what every reachable store satisfies, which transitions a step can make, and that a run
  that starts ends in a finished job.
\<close>

section \<open>Job ids\<close>

lemma job_id_counter: "job_id t n = job_id t' n' \<Longrightarrow> n = n'"
proof -
  assume eq: "job_id t n = job_id t' n'"
  have last: "takeWhile (\<lambda>c. c \<noteq> CHR ''-'') (rev (job_id t n)) = rev (to_base 36 n)" for t n
  proof -
    have "c \<noteq> CHR ''-''" if "c \<in> set (to_base 36 n)" for c
    proof -
      have "c \<in> digit_char ` {..<36}" by (rule subsetD [OF set_to_base that]) simp_all
      then obtain d where "d < 36" "c = digit_char d" by auto
      then have "(of_char c :: nat) \<noteq> 45" by (simp add: of_char_digit)
      then show ?thesis by auto
    qed
    then have "\<forall>c \<in> set (rev (to_base 36 n)). c \<noteq> CHR ''-''" by auto
    then have tw: "takeWhile (\<lambda>c. c \<noteq> CHR ''-'') (rev (to_base 36 n) @ CHR ''-'' # zs) = rev (to_base 36 n)" for zs
      by (simp add: takeWhile_append)
    have "rev (job_id t n) = rev (to_base 36 n) @ CHR ''-'' # rev (''sync-'' @ (if t < 0 then CHR ''-'' # to_base 36 (nat (- t)) else to_base 36 (nat t)))"
      by (simp add: job_id_def)
    then show ?thesis using tw by metis
  qed
  have "to_base 36 n = to_base 36 n'" using last [of t n] last [of t' n'] eq by simp
  then show "n = n'" using to_base_inj [of 36 n n'] by simp
qed

section \<open>The invariant\<close>

definition job_ok :: "string \<Rightarrow> job_record \<Rightarrow> bool" where
  "job_ok i job \<longleftrightarrow> j_id job = i \<and> (j_status job = JobDone \<longleftrightarrow> j_result job \<noteq> None) \<and> (j_status job = JobFailed \<longleftrightarrow> j_error job \<noteq> None)"

definition active_jobs :: "string \<Rightarrow> job_store \<Rightarrow> job_record list" where
  "active_jobs u st = filter (\<lambda>job. j_userId job = u \<and> \<not> finished job) (mvalues (jobs st))"

definition jobs_ok :: "job_store \<Rightarrow> bool" where
  "jobs_ok st \<longleftrightarrow> distinct (mkeys (jobs st)) \<and> (\<forall>(i, job) \<in> set (jobs st). job_ok i job \<and> (\<exists>t n. i = job_id t n \<and> n \<le> job_counter st)) \<and>
     (\<forall>u. length (active_jobs u st) \<le> 1) \<and> length (jobs st) \<le> Suc MAX_RECORDS"

lemma length_filter_sub: "length (filter P (map snd (filter Q m))) \<le> length (filter P (map snd m))"
  by (induction m) auto

lemma length_filter_drop: "length (filter P (map snd (drop k m))) \<le> length (filter P (map snd m))"
proof -
  have "map snd m = map snd (take k m) @ map snd (drop k m)" by (metis append_take_drop_id map_append)
  then show ?thesis by (metis filter_append length_append le_add2)
qed

lemma prune_subset: "set (jobs (prune now st)) \<subseteq> set (jobs st)"
  using set_drop_subset by (fastforce simp: prune_def Let_def)

lemma prune_ok:
  assumes "jobs_ok st"
  shows "jobs_ok (prune now st)" "length (jobs (prune now st)) \<le> MAX_RECORDS" "job_counter (prune now st) = job_counter st"
    "findActiveForUser u st = None \<Longrightarrow> findActiveForUser u (prune now st) = None"
proof -
  let ?Q = "\<lambda>(_ :: string, job). \<not> (finished job \<and> j_updatedAt job < now - FINISHED_TTL_MS)"
  let ?kept = "filter ?Q (jobs st)"
  have j: "jobs (prune now st) = drop (length ?kept - MAX_RECORDS) ?kept" by (simp add: prune_def Let_def)
  show len: "length (jobs (prune now st)) \<le> MAX_RECORDS" by (simp add: j)
  show c: "job_counter (prune now st) = job_counter st" by (simp add: prune_def Let_def)
  have "distinct (mkeys ?kept)" using assms by (simp add: jobs_ok_def distinct_map_filter)
  then have d: "distinct (mkeys (jobs (prune now st)))" by (simp add: j drop_map [symmetric])
  have "length (active_jobs u (prune now st)) \<le> 1" for u
    using length_filter_sub [of _ ?Q "jobs st"] length_filter_drop [of _ "length ?kept - MAX_RECORDS" ?kept] assms
    unfolding active_jobs_def j jobs_ok_def by (meson order_trans)
  then show "jobs_ok (prune now st)"
    using d len prune_subset [of now st] assms c unfolding jobs_ok_def by fastforce
  show "findActiveForUser u st = None \<Longrightarrow> findActiveForUser u (prune now st) = None"
    using prune_subset [of now st] by (fastforce simp: findActiveForUser_def find_None_iff)
qed

text \<open>Replacing a job by one that is no more active keeps the count of active ones.\<close>

lemma active_update:
  assumes "distinct (mkeys m)" "mget m i = Some job"
    and "P job' \<Longrightarrow> P job"
  shows "length (filter P (mvalues (mput i job' m))) \<le> length (filter P (mvalues m))"
  using assms by (induction m) (auto split: if_splits)

lemma active_insert:
  "mget m i = None \<Longrightarrow> length (filter P (mvalues (mput i job m))) \<le> length (filter P (mvalues m)) + (if P job then 1 else 0)"
  by (induction m) (auto split: if_splits)

lemma length_mput: "length (mput i v m) \<le> Suc (length m)"
  by (induction m) auto

lemma length_mput_same: "mget m i \<noteq> None \<Longrightarrow> length (mput i v m) = length m"
  by (induction m) (auto split: if_splits)

lemma find_active_none: "findActiveForUser u st = None \<longleftrightarrow> active_jobs u st = []"
  by (auto simp: findActiveForUser_def active_jobs_def find_None_iff filter_empty_conv)

text \<open>A patch that is allowed on the job it is applied to.\<close>

definition patch_ok :: "job_patch \<Rightarrow> job_record \<Rightarrow> bool" where
  "patch_ok patch job = (case patch of PatchRunning \<Rightarrow> j_status job = Queued | PatchProgress _ \<Rightarrow> True
     | PatchDone _ \<Rightarrow> j_status job = Running | PatchFailed _ \<Rightarrow> j_status job = Running \<or> j_status job = Queued)"

lemma patched_ok:
  assumes "job_ok i job" "patch_ok patch job"
  shows "job_ok i ((apply_patch patch job)\<lparr>j_updatedAt := now\<rparr>)" "j_userId ((apply_patch patch job)\<lparr>j_updatedAt := now\<rparr>) = j_userId job"
    "\<not> finished ((apply_patch patch job)\<lparr>j_updatedAt := now\<rparr>) \<Longrightarrow> \<not> finished job"
  using assms by (cases patch; auto simp: job_ok_def patch_ok_def finished_def FINISHED_def)+

lemma update_parts:
  assumes "update_job now i patch st = Inr st'"
  obtains job where "mget (jobs st) i = Some job" "jobs st' = mput i ((apply_patch patch job)\<lparr>j_updatedAt := now\<rparr>) (jobs st)"
    "job_counter st' = job_counter st"
  using assms by (auto simp: update_job_def split: option.splits)

lemma update_ok:
  assumes ok: "jobs_ok st" and upd: "update_job now i patch st = Inr st'" and p: "\<And>job. mget (jobs st) i = Some job \<Longrightarrow> patch_ok patch job"
  shows "jobs_ok st'"
proof -
  obtain job where job: "mget (jobs st) i = Some job" "jobs st' = mput i ((apply_patch patch job)\<lparr>j_updatedAt := now\<rparr>) (jobs st)"
    "job_counter st' = job_counter st" by (rule update_parts [OF upd])
  let ?new = "(apply_patch patch job)\<lparr>j_updatedAt := now\<rparr>"
  have d: "distinct (mkeys (jobs st))" using ok by (simp add: jobs_ok_def)
  have old: "job_ok i job" "\<exists>t n. i = job_id t n \<and> n \<le> job_counter st"
    using map_of_SomeD [OF job(1)] ok by (auto simp: jobs_ok_def)
  note new = patched_ok [OF old(1) p [OF job(1)]]
  have "length (active_jobs u st') \<le> 1" for u
    using active_update [OF d job(1), of "\<lambda>job. j_userId job = u \<and> \<not> finished job" ?new] new(2,3) ok
    unfolding active_jobs_def job(2) jobs_ok_def by (metis (no_types, lifting) order_trans)
  moreover have "\<forall>(k, v) \<in> set (jobs st'). job_ok k v \<and> (\<exists>t n. k = job_id t n \<and> n \<le> job_counter st')"
    using ok new(1) old(2) set_update_subset [of i ?new "jobs st"] unfolding job(2,3) jobs_ok_def by fastforce
  moreover have "length (jobs st') \<le> Suc MAX_RECORDS"
    using ok job(1) by (simp add: job(2) length_mput_same jobs_ok_def)
  ultimately show ?thesis using d by (simp add: jobs_ok_def job(2) distinct_update)
qed

lemma create_ok:
  assumes ok: "jobs_ok st" and none: "findActiveForUser u st = None" and c: "create_job now u st = (st', job)"
  shows "jobs_ok st'" "mget (jobs st') (j_id job) = Some job" "j_status job = Queued" "mget (jobs st) (j_id job) = None"
proof -
  let ?p = "prune now st"
  have job: "job = \<lparr>j_id = job_id now (job_counter st + 1), j_userId = u, j_status = Queued, j_createdAt = now, j_updatedAt = now,
      j_result = None, j_error = None, j_progress = None\<rparr>" and st': "st' = \<lparr>jobs = mput (j_id job) job (jobs ?p), job_counter = job_counter st + 1\<rparr>"
    using c prune_ok(3) [OF ok, of now] by (auto simp: create_job_def Let_def)
  show "mget (jobs st') (j_id job) = Some job" "j_status job = Queued" by (simp_all add: st' job update_conv')
  have fresh: "mget (jobs s) (j_id job) = None" if "set (jobs s) \<subseteq> set (jobs st)" for s :: job_store
  proof (rule ccontr)
    assume "mget (jobs s) (j_id job) \<noteq> None"
    then obtain v where "mget (jobs s) (j_id job) = Some v" by auto
    then have "(j_id job, v) \<in> set (jobs st)" using that map_of_SomeD by fastforce
    then obtain t n where "j_id job = job_id t n" "n \<le> job_counter st" using ok by (auto simp: jobs_ok_def)
    then show False using job_id_counter [of now "job_counter st + 1" t n] by (simp add: job)
  qed
  show "mget (jobs st) (j_id job) = None" by (rule fresh) simp
  have new: "mget (jobs ?p) (j_id job) = None" by (rule fresh) (rule prune_subset)
  note p = prune_ok [OF ok, where now = now]
  have "length (active_jobs v st') \<le> 1" for v
  proof -
    have "length (active_jobs v st') \<le> length (active_jobs v ?p) + (if j_userId job = v \<and> \<not> finished job then 1 else 0)"
      unfolding active_jobs_def st' using active_insert [OF new, of "\<lambda>job. j_userId job = v \<and> \<not> finished job" job] by simp
    moreover have "length (active_jobs v ?p) = 0" if "v = u" using p(4) [OF none] that by (simp add: find_active_none)
    moreover have "length (active_jobs v ?p) \<le> 1" using p(1) by (simp add: jobs_ok_def)
    ultimately show ?thesis by (auto simp: job split: if_splits)
  qed
  moreover have "\<forall>(k, v) \<in> set (jobs st'). job_ok k v \<and> (\<exists>t n. k = job_id t n \<and> n \<le> job_counter st')"
  proof -
    have "\<forall>(k, v) \<in> set (jobs ?p). job_ok k v \<and> (\<exists>t n. k = job_id t n \<and> n \<le> job_counter st')"
      using p(1,3) by (fastforce simp: jobs_ok_def st')
    moreover have "job_ok (j_id job) job" "\<exists>t n. j_id job = job_id t n \<and> n \<le> job_counter st'"
      by (auto simp: job_ok_def job st')
    ultimately have "\<forall>(k, v) \<in> insert (j_id job, job) (set (jobs ?p)). job_ok k v \<and> (\<exists>t n. k = job_id t n \<and> n \<le> job_counter st')" by simp
    moreover have "set (jobs st') \<subseteq> insert (j_id job, job) (set (jobs ?p))" by (simp add: st' set_update_subset)
    ultimately show ?thesis by (meson subsetD)
  qed
  moreover have "length (jobs st') \<le> Suc MAX_RECORDS" using p(2) length_mput [of "j_id job" job "jobs ?p"] by (simp add: st')
  moreover have "distinct (mkeys (jobs st'))" using p(1) by (simp add: st' jobs_ok_def distinct_update)
  ultimately show "jobs_ok st'" by (simp add: jobs_ok_def)
qed

text \<open>How a status can change in one step.\<close>

definition status_next :: "job_status \<Rightarrow> job_status \<Rightarrow> bool" where
  "status_next s t \<longleftrightarrow> s = t \<or> (s = Queued \<and> t = Running) \<or> (s = Running \<and> (t = JobDone \<or> t = JobFailed))"

lemma update_status:
  assumes "update_job now i patch st = Inr st'" "mget (jobs st) k = Some job" "mget (jobs st') k = Some job'"
  shows "j_status job' = (if k = i then j_status (apply_patch patch job) else j_status job)"
  using assms by (auto elim!: update_parts simp: update_conv' split: if_splits)

lemma report_is_update: "report_progress i st (now, p) = st \<or> update_job now i (PatchProgress p) st = Inr (report_progress i st (now, p))"
  by (auto simp: report_progress_def split: sum.splits)

lemma finish_is_update:
  assumes "finish_job now i outcome st = Inr st'"
  obtains patch where "update_job now i patch st = Inr st'" "(\<exists>r. patch = PatchDone r) \<or> (\<exists>e. patch = PatchFailed e)"
  using assms by (auto simp: finish_job_def split: sum.splits)

lemma enqueue_parts:
  assumes "enqueue now (Suc n) dispatched u st = (st', r)"
  obtains "st' = st"
  | st1 job where "findActiveForUser u st = None" "create_job now u st = (st1, job)"
      "st' = st1 \<or> (\<exists>e. update_job now (j_id job) (PatchFailed e) st1 = Inr st')"
  using assms by (auto simp: enqueue_def Let_def split: option.splits prod.splits sum.splits)

lemma step_ok: "job_step st e st' \<Longrightarrow> jobs_ok st \<Longrightarrow> jobs_ok st'"
proof (induction rule: job_step.induct)
  case (enqueues now n dispatched u st st' r)
  from enqueues(1) show ?case
  proof (cases rule: enqueue_parts)
    case 1
    then show ?thesis using enqueues.prems by simp
  next
    case (2 st1 job)
    note c = create_ok [OF enqueues.prems 2(1,2)]
    from 2(3) show ?thesis
    proof
      assume "st' = st1"
      then show ?thesis using c(1) by simp
    next
      assume "\<exists>e. update_job now (j_id job) (PatchFailed e) st1 = Inr st'"
      then obtain e where e: "update_job now (j_id job) (PatchFailed e) st1 = Inr st'" ..
      show ?thesis by (rule update_ok [OF c(1) e]) (use c(2,3) in \<open>simp add: patch_ok_def\<close>)
    qed
  qed
next
  case (starts st i now st')
  show ?case by (rule update_ok [OF starts.prems starts(2)]) (use starts(1) in \<open>simp add: patch_ok_def has_status_def\<close>)
next
  case (reports st i now p)
  show ?case
    using report_is_update [of i st now p] reports.prems update_ok [of st now i "PatchProgress p" "report_progress i st (now, p)"]
    by (auto simp: patch_ok_def)
next
  case (ends st i now outcome st')
  from ends(2) obtain patch where u: "update_job now i patch st = Inr st'" "(\<exists>r. patch = PatchDone r) \<or> (\<exists>e. patch = PatchFailed e)"
    by (rule finish_is_update)
  show ?case by (rule update_ok [OF ends.prems u(1)]) (use ends(1) u(2) in \<open>auto simp: patch_ok_def has_status_def\<close>)
qed

lemma reachable_ok: "jobs_reachable st \<Longrightarrow> jobs_ok st"
proof (induction rule: jobs_reachable.induct)
  case no_jobs
  show ?case by (simp add: jobs_ok_def active_jobs_def)
next
  case (job_steps st e st')
  then show ?case using step_ok by blast
qed

section \<open>Properties\<close>


definition one_job :: job_store where
  "one_job = fst (enqueue 0 1 None ''u'' \<lparr>jobs = [], job_counter = 0\<rparr>)"

lemma one_job_reachable: "jobs_reachable one_job"
proof -
  have "job_step \<lparr>jobs = [], job_counter = 0\<rparr> (Enqueues 0 ''u'' None) one_job"
    by (rule job_step.enqueues [of 0 0 None "''u''" _ _ "snd (enqueue 0 1 None ''u'' \<lparr>jobs = [], job_counter = 0\<rparr>)"]) (simp add: one_job_def)
  then show ?thesis by (rule job_steps [OF no_jobs])
qed


text \<open>C22. A run that finds its record ends. Whatever progress it reports and however the synchronisation ends, its job is
  done with the result or failed with the code and message of the error, and no other job changes.\<close>

theorem run_job_finishes:
  assumes "mget (jobs st) i = Some job"
  shows "\<exists>st' job'. run_job started ended i reports outcome st = (st', None) \<and> mget (jobs st') i = Some job' \<and> finished job' \<and>
    (case outcome of Inr r \<Rightarrow> j_status job' = JobDone \<and> j_result job' = Some r
       | Inl e \<Rightarrow> j_status job' = JobFailed \<and> j_error job' = Some (toSyncJobError e)) \<and>
    (\<forall>k. k \<noteq> i \<longrightarrow> mget (jobs st') k = mget (jobs st) k)"
proof -
  have upd: "\<exists>s' j'. update_job t i patch s = Inr s' \<and> mget (jobs s') i = Some j' \<and> j' = (apply_patch patch j)\<lparr>j_updatedAt := t\<rparr> \<and>
      (\<forall>k. k \<noteq> i \<longrightarrow> mget (jobs s') k = mget (jobs s) k)" if "mget (jobs s) i = Some j" for t patch and s :: job_store and j
    using that by (simp add: update_job_def update_conv')
  obtain st1 j1 where s1: "update_job started i PatchRunning st = Inr st1" "mget (jobs st1) i = Some j1"
      "\<forall>k. k \<noteq> i \<longrightarrow> mget (jobs st1) k = mget (jobs st) k"
    using upd [OF assms, of started PatchRunning] by blast
  have "\<exists>j2. mget (jobs (foldl (report_progress i) st1 reports)) i = Some j2 \<and>
      (\<forall>k. k \<noteq> i \<longrightarrow> mget (jobs (foldl (report_progress i) st1 reports)) k = mget (jobs st) k)"
  proof (rule foldl_invariant [where P = "\<lambda>s :: job_store. \<exists>j2. mget (jobs s) i = Some j2 \<and> (\<forall>k. k \<noteq> i \<longrightarrow> mget (jobs s) k = mget (jobs st) k)"])
    show "\<exists>j2. mget (jobs st1) i = Some j2 \<and> (\<forall>k. k \<noteq> i \<longrightarrow> mget (jobs st1) k = mget (jobs st) k)" using s1 by blast
  next
    fix s :: job_store and p assume "\<exists>j2. mget (jobs s) i = Some j2 \<and> (\<forall>k. k \<noteq> i \<longrightarrow> mget (jobs s) k = mget (jobs st) k)"
    then show "\<exists>j2. mget (jobs (report_progress i s p)) i = Some j2 \<and> (\<forall>k. k \<noteq> i \<longrightarrow> mget (jobs (report_progress i s p)) k = mget (jobs st) k)"
      by (auto simp: report_progress_def update_job_def update_conv')
  qed
  then obtain st2 j2 where s2: "foldl (report_progress i) st1 reports = st2" "mget (jobs st2) i = Some j2"
      "\<forall>k. k \<noteq> i \<longrightarrow> mget (jobs st2) k = mget (jobs st) k" by blast
  show ?thesis
  proof (cases outcome)
    case (Inl e)
    obtain st3 j3 where s3: "update_job ended i (PatchFailed (toSyncJobError e)) st2 = Inr st3" "mget (jobs st3) i = Some j3"
        "j3 = (apply_patch (PatchFailed (toSyncJobError e)) j2)\<lparr>j_updatedAt := ended\<rparr>" "\<forall>k. k \<noteq> i \<longrightarrow> mget (jobs st3) k = mget (jobs st2) k"
      using upd [OF s2(2), of ended "PatchFailed (toSyncJobError e)"] by blast
    have "run_job started ended i reports outcome st = (st3, None)"
      using s1(1) s2(1) s3(1) Inl by (simp add: run_job_def finish_job_def)
    then show ?thesis using s3 s2(3) Inl by (intro exI [of _ st3] exI [of _ j3]) (simp add: finished_def FINISHED_def)
  next
    case (Inr r)
    obtain st3 j3 where s3: "update_job ended i (PatchDone r) st2 = Inr st3" "mget (jobs st3) i = Some j3"
        "j3 = (apply_patch (PatchDone r) j2)\<lparr>j_updatedAt := ended\<rparr>" "\<forall>k. k \<noteq> i \<longrightarrow> mget (jobs st3) k = mget (jobs st2) k"
      using upd [OF s2(2), of ended "PatchDone r"] by blast
    have "run_job started ended i reports outcome st = (st3, None)"
      using s1(1) s2(1) s3(1) Inr by (simp add: run_job_def finish_job_def)
    then show ?thesis using s3 s2(3) Inr by (intro exI [of _ st3] exI [of _ j3]) (simp add: finished_def FINISHED_def)
  qed
qed

theorem run_job_finishes_witness:
  "\<exists>st' job'. run_job 1 2 ''j'' [] (Inl (OtherError (Some ''boom''))) \<lparr>jobs = [(''j'', \<lparr>j_id = ''j'', j_userId = ''u'', j_status = Queued,
      j_createdAt = 0, j_updatedAt = 0, j_result = None, j_error = None, j_progress = None\<rparr>)], job_counter = 1\<rparr> = (st', None) \<and>
    mget (jobs st') ''j'' = Some job' \<and> j_error job' = Some \<lparr>je_code = ''sync_failed'', je_message = ''boom''\<rparr>"
  using run_job_finishes [of "\<lparr>jobs = [(''j'', \<lparr>j_id = ''j'', j_userId = ''u'', j_status = Queued,
      j_createdAt = 0, j_updatedAt = 0, j_result = None, j_error = None, j_progress = None\<rparr>)], job_counter = 1\<rparr>" "''j''" _ 1 2 "[]"
      "Inl (OtherError (Some ''boom''))"]
  by (auto simp: job_sanitize_def)

end
