(* ===== verification/Linking.thy ===== *)
theory Linking
  imports TxRepository
begin

text \<open>
  The two passes that recognise a user's own moves in the stored ledger:
  \<open>indexer/own-wallet-linking.service.ts\<close> (a transfer between two bound wallets, and the undoing of
  it when a wallet is unbound) and \<open>indexer/bridge-linking.service.ts\<close> (a transfer out on one chain
  and in on another). Both read a snapshot of the user's rows and write payloads back through the
  transaction repository, which is a parameter: a \<open>writer\<close> takes the id the pass addresses the row
  by, and \<open>None\<close> is a write that throws. A pass returns the store it leaves and how many rows (or
  pairs) it reports as written.
\<close>

type_synonym 's writer = "string \<Rightarrow> jobj \<Rightarrow> 's \<Rightarrow> 's option"

definition OWN_TRANSFER_GROUP_PREFIX :: string where
  "OWN_TRANSFER_GROUP_PREFIX = ''own:''"

definition isOwnTransferGroup :: "jsv \<Rightarrow> bool" where
  "isOwnTransferGroup v = (case v of VStr s \<Rightarrow> startsWith s OWN_TRANSFER_GROUP_PREFIX | _ \<Rightarrow> False)"

definition LINK_CONFIDENCE :: jsv where
  "LINK_CONFIDENCE = VNum (JFin (9 / 10))"

definition lower :: "jsv \<Rightarrow> string option" where
  "lower v = (case v of VStr s \<Rightarrow> if trim s = [] then None else Some (toLowerCase (trim s)) | _ \<Rightarrow> None)"

definition str_or_empty :: "jobj \<Rightarrow> string \<Rightarrow> string" where
  "str_or_empty p k = js_String (coalesce (pget p k) (VStr []))"

section \<open>Own wallets\<close>

definition ownAssetKeyOf :: "jobj \<Rightarrow> string" where
  "ownAssetKeyOf p =
     (let assetType = str_or_empty p ''asset_type'';
          contract = (if assetType = ''NATIVE'' then ''native'' else toLowerCase (str_or_empty p ''asset_contract''))
      in assetType @ '':'' @ contract @ '':'' @ str_or_empty p ''token_id'')"

definition isOwnMove :: "string list \<Rightarrow> transaction_record \<Rightarrow> bool" where
  "isOwnMove bound leg =
     (let p = row_payload leg in
      if \<not> nullish (pget p ''user_override'') then False
      else if \<not> nullish (pget p ''group_id'') then False
      else if pget p ''direction'' \<noteq> VStr ''IN'' \<and> pget p ''direction'' \<noteq> VStr ''OUT'' then False
      else case (lower (pget p ''wallet_address''), lower (pget p ''counterparty'')) of
        (Some wallet, Some counterparty) \<Rightarrow> wallet \<noteq> counterparty \<and> wallet \<in> set bound \<and> counterparty \<in> set bound
      | _ \<Rightarrow> False)"

definition slotOf :: "jobj \<Rightarrow> string" where
  "slotOf p = (case js_Number (pget p ''log_index'') of JFin q \<Rightarrow> num_str (JFin q) | _ \<Rightarrow> ownAssetKeyOf p)"

definition sorted_pair :: "string \<Rightarrow> string \<Rightarrow> string" where
  "sorted_pair a b = (if str_compare a b \<le> 0 then join ''~'' [a, b] else join ''~'' [b, a])"

definition or_empty :: "string option \<Rightarrow> string" where
  "or_empty v = (case v of Some s \<Rightarrow> s | None \<Rightarrow> [])"

definition transferKey :: "transaction_record \<Rightarrow> string" where
  "transferKey leg =
     (let p = row_payload leg;
          pair = sorted_pair (or_empty (lower (pget p ''wallet_address''))) (or_empty (lower (pget p ''counterparty'')))
      in join ''|'' [str_or_empty p ''chain_id'', str_or_empty p ''tx_hash'', slotOf p, ownAssetKeyOf p,
           str_or_empty p ''raw_amount'', pair])"

definition groupIdOf :: "transaction_record \<Rightarrow> string" where
  "groupIdOf leg = (let p = row_payload leg in
     OWN_TRANSFER_GROUP_PREFIX @ str_or_empty p ''chain_id'' @ '':'' @ str_or_empty p ''tx_hash'' @ '':'' @ slotOf p)"

definition opt_str :: "string option \<Rightarrow> jsv" where
  "opt_str v = (case v of Some s \<Rightarrow> VStr s | None \<Rightarrow> VNull)"

text \<open>\<open>apply\<close>: the payload to write, or \<open>None\<close> when the leg is settled already.\<close>

definition own_settled :: "jobj \<Rightarrow> string option \<Rightarrow> bool" where
  "own_settled p groupId \<longleftrightarrow> pget p ''classification'' = VStr ''INTERNAL_TRANSFER'' \<and>
     coalesce (pget p ''bridge_group_id'') VNull = opt_str groupId \<and>
     coalesce (pget p ''bridge_dest_chain_id'') VNull = VNull \<and> pget p ''confidence'' = LINK_CONFIDENCE"

definition own_payload :: "jobj \<Rightarrow> string option \<Rightarrow> jobj" where
  "own_payload p groupId = pput ''bridge_dest_chain_id'' VNull (pput ''bridge_group_id'' (opt_str groupId)
     (pput ''confidence'' LINK_CONFIDENCE (pput ''classification'' (VStr ''INTERNAL_TRANSFER'') p)))"

definition own_apply :: "'s writer \<Rightarrow> string option \<Rightarrow> 's \<times> nat \<Rightarrow> transaction_record \<Rightarrow> 's \<times> nat" where
  "own_apply upd groupId sc leg =
     (if own_settled (row_payload leg) groupId then sc
      else case upd (row_id leg) (own_payload (row_payload leg) groupId) (fst sc) of
        None \<Rightarrow> sc
      | Some s \<Rightarrow> (s, Suc (snd sc)))"

definition add_to_bucket :: "(string, transaction_record list) jmap \<Rightarrow> transaction_record \<Rightarrow> (string, transaction_record list) jmap" where
  "add_to_bucket = group_add transferKey"

definition has_direction :: "string \<Rightarrow> transaction_record \<Rightarrow> bool" where
  "has_direction d leg \<longleftrightarrow> pget (row_payload leg) ''direction'' = VStr d"

definition bucket_group :: "transaction_record list \<Rightarrow> string option" where
  "bucket_group bucket = (case (filter (has_direction ''OUT'') bucket, filter (has_direction ''IN'') bucket) of
     ([out], [inn]) \<Rightarrow> if row_id out \<noteq> row_id inn then Some (groupIdOf out) else None
   | _ \<Rightarrow> None)"

definition link_bucket :: "'s writer \<Rightarrow> 's \<times> nat \<Rightarrow> transaction_record list \<Rightarrow> 's \<times> nat" where
  "link_bucket upd sc bucket = foldl (own_apply upd (bucket_group bucket)) sc bucket"

definition boundSet :: "string list \<Rightarrow> string list" where
  "boundSet addresses = concat (map (\<lambda>a. case lower (VStr a) of Some s \<Rightarrow> [s] | None \<Rightarrow> []) addresses)"

definition linkOwnWallets :: "'s writer \<Rightarrow> string list \<Rightarrow> transaction_record list \<Rightarrow> 's \<Rightarrow> 's \<times> nat" where
  "linkOwnWallets upd addresses all s =
     (let bound = boundSet addresses; legs = filter (isOwnMove bound) all in
      if bound = [] \<or> legs = [] then (s, 0)
      else foldl (link_bucket upd) (s, 0) (mvalues (foldl add_to_bucket [] legs)))"

definition unlinkable :: "string \<Rightarrow> jobj \<Rightarrow> bool" where
  "unlinkable removed p \<longleftrightarrow> nullish (pget p ''user_override'') \<and> pget p ''classification'' = VStr ''INTERNAL_TRANSFER'' \<and>
     lower (pget p ''counterparty'') = Some removed \<and>
     (coalesce (pget p ''bridge_group_id'') VNull = VNull \<or> isOwnTransferGroup (pget p ''bridge_group_id''))"

definition unlinked_payload :: "jobj \<Rightarrow> jobj" where
  "unlinked_payload p =
     (let classification = (if pget p ''direction'' = VStr ''OUT'' then ''SEND''
                            else if pget p ''direction'' = VStr ''IN'' then ''RECEIVE'' else ''UNKNOWN'')
      in pput ''bridge_dest_chain_id'' VNull (pput ''bridge_group_id'' VNull (pput ''classification'' (VStr classification) p)))"

definition unlink_leg :: "'s writer \<Rightarrow> string \<Rightarrow> 's \<times> nat \<Rightarrow> transaction_record \<Rightarrow> 's \<times> nat" where
  "unlink_leg upd removed sc leg =
     (if \<not> unlinkable removed (row_payload leg) then sc
      else case upd (row_id leg) (unlinked_payload (row_payload leg)) (fst sc) of
        None \<Rightarrow> sc | Some s \<Rightarrow> (s, Suc (snd sc)))"

definition unlinkCounterparty :: "'s writer \<Rightarrow> string \<Rightarrow> transaction_record list \<Rightarrow> 's \<Rightarrow> 's \<times> nat" where
  "unlinkCounterparty upd removedAddress all s = (case lower (VStr removedAddress) of
     None \<Rightarrow> (s, 0) | Some removed \<Rightarrow> foldl (unlink_leg upd removed) (s, 0) all)"

section \<open>Bridges\<close>

definition LINK_WINDOW_MS :: int where
  "LINK_WINDOW_MS = 6 * 60 * 60 * 1000"

definition FEE_LOWER :: int where "FEE_LOWER = 800"

definition FEE_UPPER :: int where "FEE_UPPER = 1005"

definition FEE_SCALE :: int where "FEE_SCALE = 1000"

definition WETH_CONTRACTS :: "(string, string) jmap" where
  "WETH_CONTRACTS = [
     (''1'', ''0xc02aaa39b223fe8d0a0e5c4f27ead9083c756cc2''),
     (''10'', ''0x4200000000000000000000000000000000000006''),
     (''8453'', ''0x4200000000000000000000000000000000000006''),
     (''42161'', ''0x82af49447d8a07e3bd95bd0d56f35241523fbab1''),
     (''137'', ''0x7ceb23fd6bc0add59e62ac25578270cff1b9f619'')]"

definition CANONICAL_ERC20 :: "(string, string) jmap" where
  "CANONICAL_ERC20 = [
     (''1:0xa0b86991c6218b36c1d19d4a2e9eb0ce3606eb48'', ''USDC''),
     (''10:0x0b2c639c533813f4aa9d7837caf62653d097ff85'', ''USDC''),
     (''8453:0x833589fcd6edb6e08f4c7c32d4f71b54bda02913'', ''USDC''),
     (''42161:0xaf88d065e77c8cc2239327c5edb3a432268e5831'', ''USDC''),
     (''137:0x3c499c542cef5e3811e1192ce70d8cc03d5c3359'', ''USDC''),
     (''1:0xdac17f958d2ee523a2206206994597c13d831ec7'', ''USDT''),
     (''10:0x94b008aa00579c1307b0ef2c499ad98a8ce58e58'', ''USDT''),
     (''42161:0xfd086bc7cd5c481dcc9c85ebe478a1c0b69fcbb9'', ''USDT''),
     (''137:0xc2132d05d31c914a87c6611c10748aeb04b58e8f'', ''USDT'')]"

definition USD_STABLE_KEYS :: "string list" where
  "USD_STABLE_KEYS = [''token:USDC'', ''token:USDT'']"

datatype link_kind = Transfer | Swap

definition OUT_CLASSIFICATION :: "link_kind \<Rightarrow> string" where
  "OUT_CLASSIFICATION k = (case k of Transfer \<Rightarrow> ''INTERNAL_TRANSFER'' | Swap \<Rightarrow> ''EXCHANGE'')"

definition IN_CLASSIFICATION :: "link_kind \<Rightarrow> string" where
  "IN_CLASSIFICATION k = (case k of Transfer \<Rightarrow> ''INTERNAL_TRANSFER'' | Swap \<Rightarrow> ''RECEIVE'')"

definition isBridgeOutCandidate :: "transaction_record \<Rightarrow> bool" where
  "isBridgeOutCandidate leg \<longleftrightarrow> (let p = row_payload leg in
     pget p ''bridge_suspected'' = VBool True \<and> pget p ''direction'' = VStr ''OUT'' \<and> nullish (pget p ''user_override'') \<and>
     nullish (pget p ''group_id'') \<and> \<not> isOwnTransferGroup (pget p ''bridge_group_id''))"

definition isLinkableIn :: "transaction_record \<Rightarrow> bool" where
  "isLinkableIn leg \<longleftrightarrow> (let p = row_payload leg in
     nullish (pget p ''user_override'') \<and> nullish (pget p ''group_id'') \<and> \<not> isOwnTransferGroup (pget p ''bridge_group_id''))"

definition canonicalAssetKey :: "jobj \<Rightarrow> string option" where
  "canonicalAssetKey p =
     (let chainId = num_str (js_Number (pget p ''chain_id'')) in
      if pget p ''asset_type'' = VStr ''NATIVE'' then
        (case pget p ''symbol'' of
           VStr s \<Rightarrow> if toUpperCase s = [] then None else Some (''native:'' @ toUpperCase s) | _ \<Rightarrow> None)
      else if pget p ''asset_type'' = VStr ''ERC20'' then
        (case pget p ''asset_contract'' of
           VStr c \<Rightarrow> (let contract = toLowerCase c in
             if mget WETH_CONTRACTS chainId = Some contract then Some ''native:ETH''
             else map_option (\<lambda>s. ''token:'' @ s) (mget CANONICAL_ERC20 (chainId @ '':'' @ contract)))
         | _ \<Rightarrow> None)
      else None)"

definition linkKind :: "jobj \<Rightarrow> jobj \<Rightarrow> link_kind option" where
  "linkKind out inn = (case (canonicalAssetKey out, canonicalAssetKey inn) of
     (Some a, Some b) \<Rightarrow> if a = b then Some Transfer
       else if a \<in> set USD_STABLE_KEYS \<and> b \<in> set USD_STABLE_KEYS then Some Swap else None
   | _ \<Rightarrow> None)"

definition withinWindow :: "int \<Rightarrow> int \<Rightarrow> bool" where
  "withinWindow outAt inAt \<longleftrightarrow> 0 \<le> inAt - outAt \<and> inAt - outAt \<le> LINK_WINDOW_MS"

definition bridge_toBigInt :: "jsv \<Rightarrow> int option" where
  "bridge_toBigInt v = (if str_or_num v then js_BigInt v else None)"

text \<open>\<open>10n ** BigInt(Math.max(0, Number(v) || 0))\<close>; a fractional or infinite exponent throws.\<close>

definition decimal_scale :: "jsv \<Rightarrow> (string, int) result" where
  "decimal_scale v = (case js_Number v of
     JNaN \<Rightarrow> Inr 1
   | JInf neg \<Rightarrow> if neg then Inr 1 else Inl ''RangeError''
   | JFin q \<Rightarrow> if q \<le> 0 then Inr 1 else if is_integer q then Inr (10 ^ nat \<lfloor>q\<rfloor>) else Inl ''RangeError'')"

definition amountWithinFeeBand :: "jobj \<Rightarrow> jobj \<Rightarrow> (string, bool) result" where
  "amountWithinFeeBand out inn =
     (case (bridge_toBigInt (pget out ''raw_amount''), bridge_toBigInt (pget inn ''raw_amount'')) of
        (Some outRaw, Some inRaw) \<Rightarrow>
          if outRaw \<le> 0 \<or> inRaw < 0 then Inr False
          else rbind (decimal_scale (pget out ''decimals'')) (\<lambda>outDec.
               rbind (decimal_scale (pget inn ''decimals'')) (\<lambda>inDec.
               let a = inRaw * outDec; b = outRaw * inDec
               in Inr (b * FEE_LOWER \<le> a * FEE_SCALE \<and> a * FEE_SCALE \<le> b * FEE_UPPER)))
      | _ \<Rightarrow> Inr False)"

definition num_eq :: "jnum \<Rightarrow> jnum \<Rightarrow> bool" where
  "num_eq a b \<longleftrightarrow> a = b \<and> a \<noteq> JNaN"

definition payload_id :: "transaction_record \<Rightarrow> string" where
  "payload_id leg = js_String (pget (row_payload leg) ''id'')"

definition pairKind :: "transaction_record \<Rightarrow> transaction_record \<Rightarrow> (string, link_kind option) result" where
  "pairKind out inn =
     (if payload_id inn = payload_id out then Inr None
      else if num_eq (js_Number (pget (row_payload inn) ''chain_id'')) (js_Number (pget (row_payload out) ''chain_id'')) then Inr None
      else case linkKind (row_payload out) (row_payload inn) of
        None \<Rightarrow> Inr None
      | Some kind \<Rightarrow>
          if \<not> withinWindow (row_occurredAt out) (row_occurredAt inn) then Inr None
          else rbind (amountWithinFeeBand (row_payload out) (row_payload inn)) (\<lambda>ok. Inr (if ok then Some kind else None)))"

fun matches_of :: "transaction_record \<Rightarrow> transaction_record list \<Rightarrow> (string, (transaction_record \<times> link_kind) list) result" where
  "matches_of out [] = Inr []"
| "matches_of out (inn # ins) = rbind (pairKind out inn) (\<lambda>k. rbind (matches_of out ins) (\<lambda>ms.
     Inr (case k of Some kind \<Rightarrow> (inn, kind) # ms | None \<Rightarrow> ms)))"

record bridge_graph =
  eligibleInsByOut :: "(string, (transaction_record \<times> link_kind) list) jmap"
  eligibleOutCountByIn :: "(string, nat) jmap"

definition count_in :: "(string, nat) jmap \<Rightarrow> transaction_record \<times> link_kind \<Rightarrow> (string, nat) jmap" where
  "count_in m mt = mput (payload_id (fst mt)) ((case mget m (payload_id (fst mt)) of Some n \<Rightarrow> n | None \<Rightarrow> 0) + 1) m"

fun build_graph :: "transaction_record list \<Rightarrow> bridge_graph \<Rightarrow> transaction_record list \<Rightarrow> (string, bridge_graph) result" where
  "build_graph ins g [] = Inr g"
| "build_graph ins g (out # outs) = rbind (matches_of out ins) (\<lambda>ms.
     build_graph ins \<lparr>eligibleInsByOut = mput (payload_id out) ms (eligibleInsByOut g),
       eligibleOutCountByIn = foldl count_in (eligibleOutCountByIn g) ms\<rparr> outs)"

definition bridge_linked :: "jobj \<Rightarrow> string \<Rightarrow> string \<Rightarrow> jnum option \<Rightarrow> bool" where
  "bridge_linked p groupId classification dest \<longleftrightarrow> pget p ''classification'' = VStr classification \<and>
     pget p ''bridge_group_id'' = VStr groupId \<and> pget p ''confidence'' = LINK_CONFIDENCE \<and>
     (case dest of None \<Rightarrow> True | Some d \<Rightarrow> d \<noteq> JNaN \<and> pget p ''bridge_dest_chain_id'' = VNum d)"

definition bridge_payload :: "jobj \<Rightarrow> string \<Rightarrow> string \<Rightarrow> jnum option \<Rightarrow> jobj" where
  "bridge_payload p groupId classification dest =
     (let q = pput ''bridge_group_id'' (VStr groupId) (pput ''confidence'' LINK_CONFIDENCE (pput ''classification'' (VStr classification) p))
      in case dest of None \<Rightarrow> q | Some d \<Rightarrow> pput ''bridge_dest_chain_id'' (VNum d) q)"

definition applyLink :: "'s writer \<Rightarrow> transaction_record \<Rightarrow> string \<Rightarrow> string \<Rightarrow> jnum option \<Rightarrow> 's \<Rightarrow> bool \<times> 's option" where
  "applyLink upd leg groupId classification dest s =
     (if bridge_linked (row_payload leg) groupId classification dest then (False, Some s)
      else (True, upd (payload_id leg) (bridge_payload (row_payload leg) groupId classification dest) s))"

definition bridgeGroupId :: "transaction_record \<Rightarrow> string" where
  "bridgeGroupId out = ''bridge:'' @ js_String (pget (row_payload out) ''chain_id'') @ '':'' @ js_String (pget (row_payload out) ''tx_hash'')"

text \<open>The pair of an OUT, when the edge is isolated on both sides.\<close>

definition isolated_pair :: "bridge_graph \<Rightarrow> transaction_record \<Rightarrow> (transaction_record \<times> link_kind) option" where
  "isolated_pair g out = (case (case mget (eligibleInsByOut g) (payload_id out) of Some ms \<Rightarrow> ms | None \<Rightarrow> []) of
     [(inn, kind)] \<Rightarrow> if mget (eligibleOutCountByIn g) (payload_id inn) = Some 1 then Some (inn, kind) else None
   | _ \<Rightarrow> None)"

definition link_out :: "'s writer \<Rightarrow> bridge_graph \<Rightarrow> 's \<times> nat \<Rightarrow> transaction_record \<Rightarrow> 's \<times> nat" where
  "link_out upd g sc out = (case isolated_pair g out of
     None \<Rightarrow> sc
   | Some (inn, kind) \<Rightarrow>
       (case applyLink upd out (bridgeGroupId out) (OUT_CLASSIFICATION kind) (Some (js_Number (pget (row_payload inn) ''chain_id''))) (fst sc) of
          (_, None) \<Rightarrow> sc
        | (outChanged, Some s1) \<Rightarrow>
            (case applyLink upd inn (bridgeGroupId out) (IN_CLASSIFICATION kind) None s1 of
               (_, None) \<Rightarrow> (s1, snd sc)
             | (inChanged, Some s2) \<Rightarrow> (s2, if outChanged \<or> inChanged then Suc (snd sc) else snd sc))))"

definition out_le :: "host \<Rightarrow> transaction_record \<Rightarrow> transaction_record \<Rightarrow> bool" where
  "out_le H a b \<longleftrightarrow> (if row_occurredAt a \<noteq> row_occurredAt b then row_occurredAt a < row_occurredAt b
     else localeCompare H (payload_id a) (payload_id b) \<le> 0)"

definition bridge_outs :: "host \<Rightarrow> transaction_record list \<Rightarrow> transaction_record list" where
  "bridge_outs H all = sort_by (out_le H) (filter isBridgeOutCandidate all)"

definition bridge_ins :: "transaction_record list \<Rightarrow> transaction_record list" where
  "bridge_ins all = filter (\<lambda>leg. has_direction ''IN'' leg \<and> isLinkableIn leg) all"

definition linkBridges :: "host \<Rightarrow> 's writer \<Rightarrow> transaction_record list \<Rightarrow> 's \<Rightarrow> (string, 's \<times> nat) result" where
  "linkBridges H upd all s =
     rbind (build_graph (bridge_ins all) \<lparr>eligibleInsByOut = [], eligibleOutCountByIn = []\<rparr> (bridge_outs H all)) (\<lambda>g.
       Inr (foldl (link_out upd g) (s, 0) (bridge_outs H all)))"

end
