(* ===== verification/TxRepository_Properties.thy ===== *)
theory TxRepository_Properties
  imports TxRepository
begin

text \<open>
  What the ledger repository promises: the merge keeps user edits and is idempotent; a purge
  deletes only rows a re-emitted leg has superseded and never drops a user edit that its plan
  does not carry forward; an upsert keeps one row per key; and a cached read is the repository's
  state as long as no write overtakes a load.
\<close>

section \<open>The merge\<close>

lemma coalesce_VNull_nullish [simp]: "nullish (coalesce v VNull) = nullish v"
  by (cases v) (auto simp: coalesce_def nullish_def)

lemma coalesce_twice [simp]: "coalesce (coalesce a b) b = coalesce a b"
  by (simp add: coalesce_def)

lemma coalesce_solid: "\<not> nullish a \<Longrightarrow> coalesce a b = a"
  by (simp add: coalesce_def)

lemma not_nullish_coalesce: "\<not> nullish b \<Longrightarrow> \<not> nullish (coalesce a b)"
  by (simp add: coalesce_def)

lemma solid_values [simp]: "\<not> nullish (jint i)" "\<not> nullish (VArr vs)" "\<not> nullish (VStr s)" "\<not> nullish (VNum n)" "\<not> nullish (VBool t)" "\<not> nullish (VObj q)"
  "nullish VNull" "nullish VUndef"
  by (simp_all add: nullish_def jint_def)

definition merge_keys :: "string list" where
  "merge_keys = [''user_override'', ''_version'', ''_overrideHistory'', ''classification'', ''_anchorPayloadHash'']"

lemma merge_get:
  "pget (mergeSavedPayload e i) k =
   (if k = ''user_override'' then coalesce (pget e k) VNull
    else if k = ''_version'' then coalesce (coalesce (pget e k) (pget i k)) (jint 1)
    else if k = ''_overrideHistory'' then coalesce (coalesce (pget e k) (pget i k)) (VArr [])
    else if isOverridden e \<and> (k = ''classification'' \<or> k = ''_anchorPayloadHash'') then pget e k
    else pget i k)"
  by (simp add: mergeSavedPayload_def Let_def)

lemma isOverridden_merge [simp]: "isOverridden (mergeSavedPayload e i) = isOverridden e"
  by (simp add: isOverridden_def merge_get)

lemma merge_again: "pget (mergeSavedPayload (mergeSavedPayload e i) i) k = pget (mergeSavedPayload e i) k"
proof -
  have s: "coalesce (coalesce (coalesce a b) c) b = coalesce (coalesce a b) c" if "\<not> nullish c" for a b c
    using that not_nullish_coalesce [OF that, of "coalesce a b"] by (simp add: coalesce_solid)
  have t: "coalesce (coalesce (coalesce (coalesce a b) c) b) c = coalesce (coalesce a b) c" if "\<not> nullish c" for a b c
    using that by (simp add: s)
  have u: "coalesce (coalesce v VNull) VNull = coalesce v VNull" for v by simp
  show ?thesis by (simp add: merge_get [of "mergeSavedPayload e i"] merge_get [of e] t u)
qed

section \<open>The purge\<close>

text \<open>The leg identities a pass emitted, and the ones it absorbed.\<close>

definition emits :: "emitted_leg list \<Rightarrow> string \<Rightarrow> string \<Rightarrow> bool" where
  "emits emitted i ty \<longleftrightarrow> (\<exists>leg\<in>set emitted. leg_id leg = i \<and> leg_eventType leg = ty)"

definition absorbs :: "emitted_leg list \<Rightarrow> string \<Rightarrow> bool" where
  "absorbs emitted i \<longleftrightarrow> (\<exists>leg\<in>set emitted. i \<in> set (nettedLegIds leg))"

lemma emit_fold:
  assumes "foldl emit_leg ([], []) emitted = (et, ab)"
  shows "(mget et i = None \<longleftrightarrow> (\<forall>leg\<in>set emitted. leg_id leg \<noteq> i)) \<and>
    (\<forall>types. mget et i = Some types \<longrightarrow> set types = {ty. emits emitted i ty}) \<and> set ab = {j. absorbs emitted j}"
  using assms
proof (induction emitted arbitrary: et ab rule: rev_induct)
  case (snoc leg emitted)
  obtain et0 ab0 where p: "foldl emit_leg ([], []) emitted = (et0, ab0)" by fastforce
  note IH = snoc.IH [OF p]
  have emit: "emit_leg (et0, ab0) leg = (et, ab)" using snoc.prems p by simp
  have "et = mput (leg_id leg) (sadd (leg_eventType leg) (case mget et0 (leg_id leg) of Some types \<Rightarrow> types | None \<Rightarrow> [])) et0"
    "ab = sadd_all (nettedLegIds leg) ab0"
    using emit by (auto simp: emit_leg_def)
  then show ?case using IH by (auto simp: map_of_update emits_def absorbs_def split: option.split)
qed (auto simp: emits_def absorbs_def)

text \<open>A row the pass has superseded.\<close>

definition superseded :: "emitted_leg list \<Rightarrow> transaction_record \<Rightarrow> bool" where
  "superseded emitted row \<longleftrightarrow> \<not> emits emitted (txHash row) (row_eventType row) \<and>
     ((\<exists>ty. emits emitted (txHash row) ty) \<or> absorbs emitted (txHash row))"

definition is_survivor :: "emitted_leg list \<Rightarrow> transaction_record \<Rightarrow> bool" where
  "is_survivor emitted row \<longleftrightarrow> emits emitted (txHash row) (row_eventType row)"

lemma scan_rows:
  assumes "foldl emit_leg ([], []) emitted = (et, ab)"
    and "s = foldl (scan_row et ab) \<lparr>survivors = [], staleByLeg = []\<rparr> rows"
  shows "(\<forall>sv. mget (survivors s) i = Some sv \<longrightarrow> sv \<in> set rows \<and> txHash sv = i \<and> is_survivor emitted sv) \<and>
    (mget (survivors s) i = None \<longrightarrow> (\<forall>row\<in>set rows. txHash row = i \<longrightarrow> \<not> is_survivor emitted row)) \<and>
    mget (staleByLeg s) i = (let rs = filter (\<lambda>row. superseded emitted row \<and> txHash row = i) rows in if rs = [] then None else Some rs)"
  using assms(2)
proof (induction rows arbitrary: s rule: rev_induct)
  case (snoc row rows)
  define s0 where "s0 = foldl (scan_row et ab) \<lparr>survivors = [], staleByLeg = []\<rparr> rows"
  note IH = snoc.IH [OF s0_def]
  have s: "s = scan_row et ab s0 row" using snoc.prems by (simp add: s0_def)
  note ef = emit_fold [OF assms(1)]
  show ?case
  proof (cases "is_survivor emitted row")
    case True
    then obtain types where t: "mget et (txHash row) = Some types" "row_eventType row \<in> set types"
      using ef [of "txHash row"] by (cases "mget et (txHash row)") (auto simp: is_survivor_def emits_def)
    have ns: "\<not> superseded emitted row" using True by (simp add: superseded_def is_survivor_def)
    have st: "staleByLeg s = staleByLeg s0"
      and sv: "survivors s = survivors s0 \<and> mget (survivors s0) (txHash row) \<noteq> None \<or>
        survivors s = mput (txHash row) row (survivors s0)"
      using t by (auto simp: s scan_row_def split: option.split)
    show ?thesis
    proof (intro conjI)
      show "\<forall>sv. mget (survivors s) i = Some sv \<longrightarrow> sv \<in> set (rows @ [row]) \<and> txHash sv = i \<and> is_survivor emitted sv"
        using sv IH True by (auto simp: map_of_update split: if_splits)
      show "mget (survivors s) i = None \<longrightarrow> (\<forall>row'\<in>set (rows @ [row]). txHash row' = i \<longrightarrow> \<not> is_survivor emitted row')"
        using sv IH by (auto simp: map_of_update split: if_splits)
    qed (use IH ns st in simp)
  next
    case False
    have sup: "superseded emitted row \<longleftrightarrow> mget et (txHash row) \<noteq> None \<or> txHash row \<in> set ab"
      using ef [of "txHash row"] False
      by (cases "mget et (txHash row)") (auto simp: is_survivor_def superseded_def emits_def)
    have nt: "row_eventType row \<notin> set types" if "mget et (txHash row) = Some types" for types
      using ef [of "txHash row"] that False by (auto simp: is_survivor_def)
    show ?thesis
    proof (cases "superseded emitted row")
      case True
      then have "s = s0\<lparr>staleByLeg := mput (txHash row)
          ((case mget (staleByLeg s0) (txHash row) of Some rs \<Rightarrow> rs | None \<Rightarrow> []) @ [row]) (staleByLeg s0)\<rparr>"
        using sup nt by (auto simp: s scan_row_def split: option.split)
      then show ?thesis using IH False True by (auto simp: map_of_update Let_def)
    next
      case no: False
      then have "s = s0" using sup by (simp add: s scan_row_def)
      then show ?thesis using IH False no by (auto simp: Let_def)
    qed
  qed
qed simp

lemma stale_distinct:
  "distinct (mkeys (staleByLeg s)) \<Longrightarrow> distinct (mkeys (staleByLeg (foldl (scan_row et ab) s rows)))"
  by (rule foldl_invariant [where P = "\<lambda>s. distinct (mkeys (staleByLeg s))"])
     (auto simp: scan_row_def distinct_update split: option.split)

text \<open>What one leg's stale rows contribute to the plan.\<close>

definition leg_plan :: "host \<Rightarrow> (string, string list) jmap \<Rightarrow> (string, transaction_record) jmap \<Rightarrow> string \<times> transaction_record list \<Rightarrow> purge_plan" where
  "leg_plan H et sv ss = plan_stale H et sv EMPTY_PURGE ss"

lemma plan_stale_adds:
  "deleteIds (plan_stale H et sv plan ss) = deleteIds plan @ deleteIds (leg_plan H et sv ss)"
  "carries (plan_stale H et sv plan ss) = carries plan @ carries (leg_plan H et sv ss)"
  "preserved (plan_stale H et sv plan ss) = preserved plan @ preserved (leg_plan H et sv ss)"
  by (auto simp: leg_plan_def plan_stale_def EMPTY_PURGE_def Let_def split: prod.split bool.split option.split list.split)

lemma plan_fold:
  "set (deleteIds (foldl (plan_stale H et sv) plan sss)) = set (deleteIds plan) \<union> (\<Union>ss\<in>set sss. set (deleteIds (leg_plan H et sv ss)))"
  "set (carries (foldl (plan_stale H et sv) plan sss)) = set (carries plan) \<union> (\<Union>ss\<in>set sss. set (carries (leg_plan H et sv ss)))"
  "set (preserved (foldl (plan_stale H et sv) plan sss)) = set (preserved plan) \<union> (\<Union>ss\<in>set sss. set (preserved (leg_plan H et sv ss)))"
  by (induction sss arbitrary: plan) (auto simp: plan_stale_adds)

lemma leg_plan_delete:
  assumes "distinct (map row_id stale)" "row \<in> set stale"
  shows "row_id row \<in> set (deleteIds (leg_plan H et sv (i, stale))) \<longleftrightarrow>
    \<not> (mhas et i \<and> mget sv i = None) \<and>
    (isOverridden (row_payload row) \<longrightarrow> (\<exists>s rest. mget sv i = Some s \<and>
       sort_by (carrier_le H) (filter (\<lambda>row. isOverridden (row_payload row)) stale) = row # rest))"
proof -
  define ov where "ov = sort_by (carrier_le H) (filter (\<lambda>row. isOverridden (row_payload row)) stale)"
  have set_ov: "set ov = {r \<in> set stale. isOverridden (row_payload r)}" by (auto simp: ov_def set_sort_by)
  have d_ov: "distinct (map row_id ov)"
    using assms(1) by (simp add: ov_def distinct_map_sort_by distinct_map_filter)
  have inj: "r = row" if "r \<in> set stale" "row_id r = row_id row" for r
    using distinct_map_inj_on [OF assms(1) that(1) assms(2) that(2)] .
  show ?thesis
  proof (cases ov)
    case Nil
    then have "\<not> isOverridden (row_payload row)" using set_ov assms(2) by auto
    then show ?thesis
      using assms(2) Nil by (auto simp: leg_plan_def plan_stale_def EMPTY_PURGE_def ov_def [symmetric] split: option.split bool.split)
  next
    case (Cons c rest)
    have c: "c \<in> set stale" "isOverridden (row_payload c)" "row_id c \<notin> row_id ` set rest"
      using set_ov d_ov Cons by auto
    have rest: "row_id row \<in> row_id ` set rest \<longleftrightarrow> isOverridden (row_payload row) \<and> row \<noteq> c"
    proof
      assume "row_id row \<in> row_id ` set rest"
      then obtain r where "r \<in> set rest" "row_id r = row_id row" by auto
      moreover have "r \<in> set stale" "isOverridden (row_payload r)" using calculation set_ov Cons by auto
      ultimately show "isOverridden (row_payload row) \<and> row \<noteq> c" using inj c(3) by (metis image_eqI)
    next
      assume "isOverridden (row_payload row) \<and> row \<noteq> c"
      then have "row \<in> set rest" using set_ov Cons assms(2) by auto
      then show "row_id row \<in> row_id ` set rest" by simp
    qed
    have same: "row_id row = row_id c \<longleftrightarrow> row = c" using inj [OF c(1)] by metis
    show ?thesis
      using assms(2) Cons rest c same
      by (cases "mget sv i"; cases "mget et i")
         (auto simp: leg_plan_def plan_stale_def EMPTY_PURGE_def ov_def [symmetric] Let_def)
  qed
qed

lemma leg_plan_deletes: "set (deleteIds (leg_plan H et sv (i, stale))) \<subseteq> row_id ` set stale"
  by (auto simp: leg_plan_def plan_stale_def EMPTY_PURGE_def Let_def split: bool.split option.split list.split)

lemma leg_plan_carries:
  "carries (leg_plan H et sv (i, stale)) =
   (case (mget sv i, sort_by (carrier_le H) (filter (\<lambda>row. isOverridden (row_payload row)) stale)) of
      (Some s, c # _) \<Rightarrow> [(row_id s, mergeSavedPayload (row_payload c) (row_payload s))] | _ \<Rightarrow> [])"
  by (auto simp: leg_plan_def plan_stale_def EMPTY_PURGE_def Let_def split: bool.split option.split list.split)

lemma leg_plan_preserved:
  assumes "row \<in> set stale" "isOverridden (row_payload row)" "distinct (map row_id stale)"
    "row_id row \<notin> set (deleteIds (leg_plan H et sv (i, stale)))"
  shows "row_label row \<in> set (preserved (leg_plan H et sv (i, stale)))"
proof -
  define ov where "ov = sort_by (carrier_le H) (filter (\<lambda>row. isOverridden (row_payload row)) stale)"
  have "row \<in> set ov" using assms by (simp add: ov_def set_sort_by)
  then obtain c rest where ov: "ov = c # rest" "row = c \<or> row \<in> set rest" by (cases ov) auto
  show ?thesis
  proof (cases "mhas et i \<and> mget sv i = None")
    case True
    then show ?thesis using assms(1) by (auto simp: leg_plan_def plan_stale_def EMPTY_PURGE_def)
  next
    case False
    then have "\<not> (\<exists>s. mget sv i = Some s \<and> row = c)"
      using assms(4) leg_plan_delete [OF assms(3,1), of H et sv i] assms(2) ov(1) by (auto simp: ov_def)
    then show ?thesis
      using False ov by (cases "mget sv i"; cases "mget et i")
        (auto simp: leg_plan_def plan_stale_def EMPTY_PURGE_def ov_def [symmetric] Let_def)
  qed
qed

locale purge_input =
  fixes H :: host and rows :: "transaction_record list" and emitted :: "emitted_leg list"
  assumes ids: "distinct (map row_id rows)"
begin

abbreviation "plan \<equiv> planSupersededPurge H rows emitted"

definition stale_of :: "string \<Rightarrow> transaction_record list" where
  "stale_of i = filter (\<lambda>row. superseded emitted row \<and> txHash row = i) rows"

lemma stale_of_ids: "distinct (map row_id (stale_of i))"
  using ids by (simp add: stale_of_def distinct_map_filter)

text \<open>The plan, leg by leg.\<close>

lemma plan_form:
  obtains et sv where
    "\<And>i. mhas et i \<longleftrightarrow> (\<exists>ty. emits emitted i ty)"
    "\<And>i s. mget sv i = Some s \<Longrightarrow> s \<in> set rows \<and> txHash s = i \<and> is_survivor emitted s"
    "\<And>i row. mget sv i = None \<Longrightarrow> row \<in> set rows \<Longrightarrow> txHash row = i \<Longrightarrow> \<not> is_survivor emitted row"
    "set (deleteIds plan) = (\<Union>i\<in>{i. stale_of i \<noteq> []}. set (deleteIds (leg_plan H et sv (i, stale_of i))))"
    "set (carries plan) = (\<Union>i\<in>{i. stale_of i \<noteq> []}. set (carries (leg_plan H et sv (i, stale_of i))))"
    "set (preserved plan) = (\<Union>i\<in>{i. stale_of i \<noteq> []}. set (preserved (leg_plan H et sv (i, stale_of i))))"
proof (cases "emitted = []")
  case True
  have "stale_of i = []" for i unfolding stale_of_def superseded_def emits_def absorbs_def using True by simp
  moreover have "plan = EMPTY_PURGE" using True by (simp add: planSupersededPurge_def)
  ultimately show thesis
    using True by (intro that [of "[]" "[]"]) (auto simp: emits_def is_survivor_def EMPTY_PURGE_def)
next
  case False
  obtain et ab where e: "foldl emit_leg ([], []) emitted = (et, ab)" by fastforce
  define s where "s = foldl (scan_row et ab) \<lparr>survivors = [], staleByLeg = []\<rparr> rows"
  note sc = scan_rows [OF e s_def]
  have p: "plan = foldl (plan_stale H et (survivors s)) EMPTY_PURGE (staleByLeg s)"
    using False e by (simp add: planSupersededPurge_def s_def Let_def)
  have d: "distinct (mkeys (staleByLeg s))" unfolding s_def by (rule stale_distinct) simp
  have entries: "set (staleByLeg s) = (\<lambda>i. (i, stale_of i)) ` {i. stale_of i \<noteq> []}"
  proof -
    have "(i, rs) \<in> set (staleByLeg s) \<longleftrightarrow> stale_of i \<noteq> [] \<and> rs = stale_of i" for i rs
      using sc [of i] map_of_eq_Some_iff [OF d, of i rs] by (auto simp: stale_of_def Let_def split: if_splits)
    then show ?thesis by auto
  qed
  show thesis
  proof (rule that [of et "survivors s"])
    show "mhas et i \<longleftrightarrow> (\<exists>ty. emits emitted i ty)" for i
      using emit_fold [OF e, of i] by (auto simp: emits_def)
    show "mget (survivors s) i = Some sv \<Longrightarrow> sv \<in> set rows \<and> txHash sv = i \<and> is_survivor emitted sv" for i sv
      using sc by blast
    show "mget (survivors s) i = None \<Longrightarrow> row \<in> set rows \<Longrightarrow> txHash row = i \<Longrightarrow> \<not> is_survivor emitted row" for i row
      using sc by blast
  qed (unfold p plan_fold entries, simp_all add: EMPTY_PURGE_def)
qed

lemma stale_of_mem: "row \<in> set (stale_of i) \<longleftrightarrow> row \<in> set rows \<and> superseded emitted row \<and> txHash row = i"
  by (auto simp: stale_of_def)

lemma delete_source:
  assumes "row \<in> set rows" "row_id row \<in> set (deleteIds (leg_plan H et sv (i, stale_of i)))"
  shows "row \<in> set (stale_of i)"
proof -
  obtain r where "r \<in> set (stale_of i)" "row_id r = row_id row" using assms(2) leg_plan_deletes by (metis imageE subsetD)
  moreover have "r \<in> set rows" using calculation(1) by (simp add: stale_of_mem)
  ultimately show ?thesis using distinct_map_inj_on [OF ids _ assms(1)] by metis
qed

lemma purge_safe:
  assumes row: "row \<in> set rows" and del: "row_id row \<in> set (deleteIds plan)"
  shows "superseded emitted row"
    and "(\<exists>ty. emits emitted (txHash row) ty) \<longrightarrow> (\<exists>sv\<in>set rows. is_survivor emitted sv \<and> txHash sv = txHash row)"
    and "isOverridden (row_payload row) \<longrightarrow> (\<exists>sv\<in>set rows. is_survivor emitted sv \<and> txHash sv = txHash row \<and>
      (row_id sv, mergeSavedPayload (row_payload row) (row_payload sv)) \<in> set (carries plan))"
proof -
  obtain et sv where f:
    "\<And>i. mhas et i \<longleftrightarrow> (\<exists>ty. emits emitted i ty)"
    "\<And>i s. mget sv i = Some s \<Longrightarrow> s \<in> set rows \<and> txHash s = i \<and> is_survivor emitted s"
    "set (deleteIds plan) = (\<Union>i\<in>{i. stale_of i \<noteq> []}. set (deleteIds (leg_plan H et sv (i, stale_of i))))"
    "set (carries plan) = (\<Union>i\<in>{i. stale_of i \<noteq> []}. set (carries (leg_plan H et sv (i, stale_of i))))"
    by (rule plan_form) blast
  obtain i where i: "stale_of i \<noteq> []" "row_id row \<in> set (deleteIds (leg_plan H et sv (i, stale_of i)))"
    using del unfolding f(3) by blast
  have mem: "row \<in> set (stale_of i)" using delete_source [OF row i(2)] .
  then show "superseded emitted row" by (simp add: stale_of_mem)
  have hash: "txHash row = i" using mem by (simp add: stale_of_mem)
  note d = leg_plan_delete [OF stale_of_ids mem, THEN iffD1, OF i(2)]
  show "(\<exists>ty. emits emitted (txHash row) ty) \<longrightarrow> (\<exists>sv\<in>set rows. is_survivor emitted sv \<and> txHash sv = txHash row)"
  proof
    assume "\<exists>ty. emits emitted (txHash row) ty"
    then obtain s where "mget sv i = Some s" using d f(1) [of i] hash by blast
    then show "\<exists>sv\<in>set rows. is_survivor emitted sv \<and> txHash sv = txHash row" using f(2) hash by blast
  qed
  show "isOverridden (row_payload row) \<longrightarrow> (\<exists>sv\<in>set rows. is_survivor emitted sv \<and> txHash sv = txHash row \<and>
      (row_id sv, mergeSavedPayload (row_payload row) (row_payload sv)) \<in> set (carries plan))"
  proof
    assume "isOverridden (row_payload row)"
    then obtain s rest where s: "mget sv i = Some s"
      "sort_by (carrier_le H) (filter (\<lambda>row. isOverridden (row_payload row)) (stale_of i)) = row # rest"
      using d by blast
    have "carries (leg_plan H et sv (i, stale_of i)) = [(row_id s, mergeSavedPayload (row_payload row) (row_payload s))]"
      by (simp add: leg_plan_carries s)
    then have c: "(row_id s, mergeSavedPayload (row_payload row) (row_payload s)) \<in> set (carries plan)"
      unfolding f(4) using i(1) by force
    show "\<exists>sv\<in>set rows. is_survivor emitted sv \<and> txHash sv = txHash row \<and>
      (row_id sv, mergeSavedPayload (row_payload row) (row_payload sv)) \<in> set (carries plan)"
      by (rule bexI [of _ s]) (use f(2) [OF s(1)] hash c in simp_all)
  qed
qed

lemma carry_source:
  assumes "(rid, p) \<in> set (carries plan)"
  obtains s row where "s \<in> set rows" "row_id s = rid" "is_survivor emitted s" "row \<in> set rows" "txHash row = txHash s"
    "p = mergeSavedPayload (row_payload row) (row_payload s)" "\<And>p'. (rid, p') \<in> set (carries plan) \<Longrightarrow> p' = p"
proof -
  obtain et sv where f:
    "\<And>i s. mget sv i = Some s \<Longrightarrow> s \<in> set rows \<and> txHash s = i \<and> is_survivor emitted s"
    "set (carries plan) = (\<Union>i\<in>{i. stale_of i \<noteq> []}. set (carries (leg_plan H et sv (i, stale_of i))))"
    by (rule plan_form) blast
  have one: "\<exists>i s c rest. mget sv i = Some s \<and> row_id s = rid \<and> p = mergeSavedPayload (row_payload c) (row_payload s) \<and>
      sort_by (carrier_le H) (filter (\<lambda>row. isOverridden (row_payload row)) (stale_of i)) = c # rest"
    if "(rid, p) \<in> set (carries plan)" for p
  proof -
    from that obtain i where "(rid, p) \<in> set (carries (leg_plan H et sv (i, stale_of i)))" unfolding f(2) by blast
    then obtain s c rest where "mget sv i = Some s" "row_id s = rid" "p = mergeSavedPayload (row_payload c) (row_payload s)"
      "sort_by (carrier_le H) (filter (\<lambda>row. isOverridden (row_payload row)) (stale_of i)) = c # rest"
      by (cases "mget sv i"; cases "sort_by (carrier_le H) (filter (\<lambda>row. isOverridden (row_payload row)) (stale_of i))")
         (auto simp: leg_plan_carries)
    then show ?thesis by blast
  qed
  obtain i s c rest where s: "mget sv i = Some s" "row_id s = rid" "p = mergeSavedPayload (row_payload c) (row_payload s)"
    "sort_by (carrier_le H) (filter (\<lambda>row. isOverridden (row_payload row)) (stale_of i)) = c # rest"
    using one [OF assms] by blast
  have "c \<in> set (c # rest)" by simp
  then have "c \<in> set (stale_of i)" unfolding s(4) [symmetric] by (simp add: set_sort_by)
  moreover have "p' = p" if q: "(rid, p') \<in> set (carries plan)" for p'
  proof -
    obtain j s' c' rest' where s': "mget sv j = Some s'" "row_id s' = rid" "p' = mergeSavedPayload (row_payload c') (row_payload s')"
      "sort_by (carrier_le H) (filter (\<lambda>row. isOverridden (row_payload row)) (stale_of j)) = c' # rest'"
      using one [OF q] by blast
    have "s' = s" using distinct_map_inj_on [OF ids] f(1) [OF s(1)] f(1) [OF s'(1)] s(2) s'(2) by metis
    then have "j = i" using f(1) [OF s(1)] f(1) [OF s'(1)] by simp
    then show ?thesis using s s' \<open>s' = s\<close> by simp
  qed
  ultimately show thesis using that [of s c] s(2,3) f(1) [OF s(1)] by (simp add: stale_of_mem)
qed

lemma purge_reports:
  assumes row: "row \<in> set rows" "superseded emitted row" "isOverridden (row_payload row)"
    and kept: "row_id row \<notin> set (deleteIds plan)"
  shows "row_label row \<in> set (preserved plan)"
proof -
  obtain et sv where f:
    "set (deleteIds plan) = (\<Union>i\<in>{i. stale_of i \<noteq> []}. set (deleteIds (leg_plan H et sv (i, stale_of i))))"
    "set (preserved plan) = (\<Union>i\<in>{i. stale_of i \<noteq> []}. set (preserved (leg_plan H et sv (i, stale_of i))))"
    by (rule plan_form) blast
  have mem: "row \<in> set (stale_of (txHash row))" using row by (simp add: stale_of_mem)
  then have ne: "stale_of (txHash row) \<noteq> []" by auto
  then have "row_id row \<notin> set (deleteIds (leg_plan H et sv (txHash row, stale_of (txHash row))))" using kept f(1) by blast
  from leg_plan_preserved [OF mem row(3) stale_of_ids this] show ?thesis unfolding f(2) using ne by blast
qed

end

section \<open>Executing the plan\<close>

lemma carry_fold:
  "mget (foldl apply_carry txs cs) k = None \<longleftrightarrow> mget txs k = None"
  "mget txs k = Some row \<Longrightarrow> \<exists>p. mget (foldl apply_carry txs cs) k = Some (row\<lparr>row_payload := p\<rparr>) \<and>
     (p = row_payload row \<and> (\<forall>q. (k, q) \<notin> set cs) \<or> (k, p) \<in> set cs)"
proof -
  show "mget (foldl apply_carry txs cs) k = None \<longleftrightarrow> mget txs k = None"
    by (induction cs arbitrary: txs) (auto simp: apply_carry_def map_of_update split: option.split)
  show "mget txs k = Some row \<Longrightarrow> \<exists>p. mget (foldl apply_carry txs cs) k = Some (row\<lparr>row_payload := p\<rparr>) \<and>
     (p = row_payload row \<and> (\<forall>q. (k, q) \<notin> set cs) \<or> (k, p) \<in> set cs)"
  proof (induction cs rule: rev_induct)
    case (snoc c cs)
    define m where "m = foldl apply_carry txs cs"
    obtain p where p: "mget m k = Some (row\<lparr>row_payload := p\<rparr>)"
      "p = row_payload row \<and> (\<forall>q. (k, q) \<notin> set cs) \<or> (k, p) \<in> set cs" using snoc unfolding m_def by blast
    have f: "foldl apply_carry txs (cs @ [c]) = apply_carry m c" by (simp add: m_def)
    show ?case
    proof (cases "fst c = k")
      case True
      then show ?thesis using p unfolding f by (intro exI [of _ "snd c"]) (auto simp: apply_carry_def map_of_update)
    next
      case False
      then show ?thesis using p unfolding f
        by (intro exI [of _ p]) (auto simp: apply_carry_def map_of_update split: option.split)
    qed
  qed simp
qed

lemma delete_fold: "mget (foldl (\<lambda>m i. mdel i m) m ks) k = (if k \<in> set ks then None else mget m k)"
  by (induction ks arbitrary: m) (auto simp: map_of_delete_if)

text \<open>The store's invariant: every row is stored under its own id, once, and no two rows of the
  store have the same upsert key.\<close>

definition row_key :: "transaction_record \<Rightarrow> string \<times> string \<times> string" where
  "row_key row = (bindingId row, txHash row, row_eventType row)"

definition wf_store :: "(string, transaction_record) jmap \<Rightarrow> bool" where
  "wf_store txs \<longleftrightarrow> distinct (mkeys txs) \<and> (\<forall>(k, row)\<in>set txs. row_id row = k) \<and> distinct (map row_key (mvalues txs))"

lemma wf_store_ids: "wf_store txs \<Longrightarrow> distinct (map row_id (mvalues txs))"
proof -
  assume wf: "wf_store txs"
  have "map row_id (mvalues txs) = mkeys txs"
    using wf by (auto simp: wf_store_def comp_def intro!: map_cong)
  moreover have "distinct (mkeys txs)" using wf by (simp add: wf_store_def)
  ultimately show ?thesis by (simp only:)
qed

lemma wf_store_get: "wf_store txs \<Longrightarrow> row \<in> set (mvalues txs) \<longleftrightarrow> mget txs (row_id row) = Some row"
proof
  assume wf: "wf_store txs" and "row \<in> set (mvalues txs)"
  then obtain k where k: "(k, row) \<in> set txs" by auto
  then have "row_id row = k" using wf by (auto simp: wf_store_def)
  then show "mget txs (row_id row) = Some row" using k wf by (simp add: wf_store_def)
qed (rule map_of_Some_in_set)

text \<open>When no row the pass re-emitted carries an edit of its own, no edit is lost: each overridden
  row of the binding is still there unchanged, or its leg's surviving row carries its edit.\<close>

lemma edits_survive_plan:
  assumes wf: "wf_store txs" and rows: "rows = filter (\<lambda>row. bindingId row = b) (mvalues txs)"
    and clean: "\<forall>row\<in>set rows. is_survivor emitted row \<longrightarrow> \<not> isOverridden (row_payload row)"
    and row: "row \<in> set rows" "isOverridden (row_payload row)"
  shows "\<exists>row'. row' \<in> set (mvalues (apply_plan (planSupersededPurge H rows emitted) txs)) \<and> txHash row' = txHash row \<and>
    bindingId row' = b \<and> pget (row_payload row') ''user_override'' = pget (row_payload row) ''user_override''"
proof -
  have "distinct (map row_id rows)" using wf_store_ids [OF wf] by (simp add: rows distinct_map_filter)
  then have pin: "purge_input rows" by (rule purge_input.intro)
  let ?plan = "planSupersededPurge H rows emitted"
  let ?mid = "foldl apply_carry txs (carries ?plan)"
  have get: "mget txs (row_id r) = Some r" if "r \<in> set rows" for r
    using that wf_store_get [OF wf] by (simp add: rows)
  have after: "mget (apply_plan ?plan txs) k = (if k \<in> set (deleteIds ?plan) then None else mget ?mid k)" for k
    by (simp add: apply_plan_def delete_fold)
  have result: "\<exists>r'. r' \<in> set (mvalues (apply_plan ?plan txs)) \<and> txHash r' = txHash r \<and> bindingId r' = b \<and> row_payload r' = p"
    if r: "r \<in> set rows" "row_id r \<notin> set (deleteIds ?plan)" "mget ?mid (row_id r) = Some (r\<lparr>row_payload := p\<rparr>)" for r p
  proof -
    have "mget (apply_plan ?plan txs) (row_id r) = Some (r\<lparr>row_payload := p\<rparr>)" using r by (simp add: after)
    then have "r\<lparr>row_payload := p\<rparr> \<in> set (mvalues (apply_plan ?plan txs))" by (rule map_of_Some_in_set)
    then show ?thesis using r(1) by (intro exI [of _ "r\<lparr>row_payload := p\<rparr>"]) (simp add: rows)
  qed
  show ?thesis
  proof (cases "row_id row \<in> set (deleteIds ?plan)")
    case True
    from purge_input.purge_safe(3) [OF pin row(1) True] row(2)
    obtain sv where sv: "sv \<in> set rows" "is_survivor emitted sv" "txHash sv = txHash row"
      "(row_id sv, mergeSavedPayload (row_payload row) (row_payload sv)) \<in> set (carries ?plan)" by blast
    have "row_id sv \<notin> set (deleteIds ?plan)"
      using purge_input.purge_safe(1) [OF pin sv(1)] sv(2) by (auto simp: superseded_def is_survivor_def)
    moreover obtain p where p: "mget ?mid (row_id sv) = Some (sv\<lparr>row_payload := p\<rparr>)"
      "p = row_payload sv \<and> (\<forall>q. (row_id sv, q) \<notin> set (carries ?plan)) \<or> (row_id sv, p) \<in> set (carries ?plan)"
      using carry_fold(2) [OF get [OF sv(1)]] by blast
    moreover have "p = mergeSavedPayload (row_payload row) (row_payload sv)"
    proof -
      have "(row_id sv, p) \<in> set (carries ?plan)" using p(2) sv(4) by blast
      then show ?thesis using purge_input.carry_source [OF pin sv(4)] by metis
    qed
    ultimately obtain r' where "r' \<in> set (mvalues (apply_plan ?plan txs))" "txHash r' = txHash sv" "bindingId r' = b"
      "row_payload r' = mergeSavedPayload (row_payload row) (row_payload sv)" using result [OF sv(1)] by metis
    then show ?thesis
      using sv(3) row(2) by (intro exI [of _ r']) (simp add: merge_get isOverridden_def coalesce_solid)
  next
    case False
    obtain p where p: "mget ?mid (row_id row) = Some (row\<lparr>row_payload := p\<rparr>)"
      "p = row_payload row \<and> (\<forall>q. (row_id row, q) \<notin> set (carries ?plan)) \<or> (row_id row, p) \<in> set (carries ?plan)"
      using carry_fold(2) [OF get [OF row(1)]] by blast
    have "(row_id row, p) \<notin> set (carries ?plan)"
    proof
      assume "(row_id row, p) \<in> set (carries ?plan)"
      then obtain s where "s \<in> set rows" "row_id s = row_id row" "is_survivor emitted s"
        by (rule purge_input.carry_source [OF pin])
      then show False
        using distinct_map_inj_on [OF purge_input.ids [OF pin] _ row(1)] clean row(2) by metis
    qed
    then show ?thesis using result [OF row(1) False p(1)] p(2) by metis
  qed
qed

section \<open>The upsert\<close>

text \<open>A random identifier is one that is not in use.\<close>

locale uuid_supply =
  fixes uuid :: "string list \<Rightarrow> string"
  assumes uuid_fresh: "uuid ks \<notin> set ks"

lemma find_first: "List.find P xs = Some x \<Longrightarrow> x \<in> set xs \<and> P x"
  by (induction xs) (auto split: if_splits)

lemma find_none: "List.find P xs = None \<longleftrightarrow> (\<forall>x\<in>set xs. \<not> P x)"
  by (induction xs) auto

lemma map_update_same:
  "distinct (mkeys m) \<Longrightarrow> mget m k = Some v \<Longrightarrow> f w = f v \<Longrightarrow> map f (mvalues (mput k w m)) = map f (mvalues m)"
  by (induction m) (auto split: if_splits)

lemma map_update_new: "mget m k = None \<Longrightarrow> mput k w m = m @ [(k, w)]"
  by (induction m) (auto split: if_splits)

context uuid_supply begin

lemma save_item_wf:
  assumes "wf_store txs" "save_item uuid b (txs, stored) item = (txs', stored')"
  shows "wf_store txs' \<and> (\<exists>i row. stored' = stored @ [i] \<and> mget txs' i = Some row \<and> same_key b item row \<and> row_occurredAt row = i_occurredAt item \<and>
      (\<forall>k. k \<noteq> i \<longrightarrow> mget txs' k = mget txs k) \<and>
      row_payload row = (case mget txs i of Some old \<Rightarrow> mergeSavedPayload (row_payload old) (i_payload item) | None \<Rightarrow> i_payload item) \<and>
      (\<forall>old. mget txs i = Some old \<longrightarrow> row_key row = row_key old))"
proof (cases "List.find (same_key b item) (mvalues txs)")
  case (Some old)
  define row where "row = old\<lparr>row_payload := mergeSavedPayload (row_payload old) (i_payload item), row_occurredAt := i_occurredAt item\<rparr>"
  have old: "old \<in> set (mvalues txs)" "same_key b item old" using find_first [OF Some] by auto
  then have g: "mget txs (row_id old) = Some old" using wf_store_get [OF assms(1)] by blast
  have t: "txs' = mput (row_id old) row txs" "stored' = stored @ [row_id old]"
    using assms(2) Some by (auto simp: save_item_def row_def)
  have "map row_key (mvalues txs') = map row_key (mvalues txs)"
    unfolding t using assms(1) g by (intro map_update_same) (auto simp: wf_store_def row_key_def row_def)
  moreover have "\<forall>(k, r)\<in>set txs'. row_id r = k"
    unfolding t using assms(1) set_update_subset [of "row_id old" row txs] by (fastforce simp: wf_store_def row_def)
  moreover have "distinct (mkeys txs')"
    unfolding t using assms(1) by (intro distinct_update) (simp add: wf_store_def)
  ultimately have "wf_store txs'" using assms(1) by (simp only: wf_store_def)
  moreover have "same_key b item row" "row_key row = row_key old" using old(2) by (simp_all add: same_key_def row_def row_key_def)
  ultimately show ?thesis
    using t g by (intro conjI exI [of _ "row_id old"] exI [of _ row]) (auto simp: map_of_update row_def)
next
  case None
  define i where "i = uuid (mkeys txs)"
  define row where "row = \<lparr>row_id = i, bindingId = b, txHash = i_txHash item, row_eventType = i_eventType item,
                 chain = i_chain item, row_payload = i_payload item, row_occurredAt = i_occurredAt item\<rparr>"
  have t: "txs' = mput i row txs" "stored' = stored @ [i]"
    using assms(2) None by (auto simp: save_item_def row_def i_def Let_def)
  have i: "mget txs i = None" using uuid_fresh [of "mkeys txs"] by (simp add: i_def map_of_eq_None_iff)
  have app: "txs' = txs @ [(i, row)]" unfolding t by (rule map_update_new [OF i])
  have "row_key row \<notin> set (map row_key (mvalues txs))"
    using None by (auto simp: find_none same_key_def row_key_def row_def)
  moreover have "i \<notin> set (mkeys txs)" unfolding i_def by (rule uuid_fresh)
  ultimately have "wf_store txs'" using assms(1) unfolding app by (auto simp: wf_store_def row_def)
  moreover have "same_key b item row" by (simp add: same_key_def row_def)
  ultimately show ?thesis
    using t i by (intro conjI exI [of _ i] exI [of _ row]) (auto simp: map_of_update row_def)
qed

lemma save_wf:
  assumes "wf_store (transactions r)"
  shows "wf_store (transactions (fst (save uuid b u items r)))"
proof -
  have "wf_store (fst (foldl (save_item uuid b) (transactions r, []) items))"
  proof (rule foldl_invariant [where P = "\<lambda>ts. wf_store (fst ts)"])
    fix ts :: "(string, transaction_record) jmap \<times> string list" and item assume "wf_store (fst ts)"
    then show "wf_store (fst (save_item uuid b ts item))"
      using save_item_wf [of "fst ts" b "snd ts" item] by (cases "save_item uuid b ts item") auto
  qed (simp add: assms)
  then show ?thesis by (auto simp: save_def split: prod.split)
qed

text \<open>A row present before the upsert keeps its edit, whichever items come.\<close>

lemma save_keeps_edits:
  assumes "wf_store (transactions r)" "mget (transactions r) k = Some old" "isOverridden (row_payload old)"
  shows "\<exists>new. mget (transactions (fst (save uuid b u items r))) k = Some new \<and> row_key new = row_key old \<and>
    pget (row_payload new) ''user_override'' = pget (row_payload old) ''user_override'' \<and>
    pget (row_payload new) ''classification'' = pget (row_payload old) ''classification''"
proof -
  define Q where "Q ts \<longleftrightarrow> wf_store (fst ts) \<and> (\<exists>new. mget (fst ts) k = Some new \<and> row_key new = row_key old \<and> isOverridden (row_payload new) \<and>
    pget (row_payload new) ''user_override'' = pget (row_payload old) ''user_override'' \<and>
    pget (row_payload new) ''classification'' = pget (row_payload old) ''classification'')" for ts :: "(string, transaction_record) jmap \<times> string list"
  have "Q (foldl (save_item uuid b) (transactions r, []) items)"
  proof (rule foldl_invariant)
    show "Q (transactions r, [])" using assms by (auto simp: Q_def)
    fix ts :: "(string, transaction_record) jmap \<times> string list" and item assume Q: "Q ts"
    then obtain new where new: "wf_store (fst ts)" "mget (fst ts) k = Some new" "row_key new = row_key old" "isOverridden (row_payload new)"
      "pget (row_payload new) ''user_override'' = pget (row_payload old) ''user_override''"
      "pget (row_payload new) ''classification'' = pget (row_payload old) ''classification''" by (auto simp: Q_def)
    obtain txs' stored' where s: "save_item uuid b ts item = (txs', stored')" by fastforce
    then have "save_item uuid b (fst ts, snd ts) item = (txs', stored')" by simp
    from save_item_wf [OF new(1) this] obtain i row where i: "wf_store txs'" "mget txs' i = Some row"
      "\<forall>k. k \<noteq> i \<longrightarrow> mget txs' k = mget (fst ts) k"
      "row_payload row = (case mget (fst ts) i of Some old \<Rightarrow> mergeSavedPayload (row_payload old) (i_payload item) | None \<Rightarrow> i_payload item)"
      "\<forall>old. mget (fst ts) i = Some old \<longrightarrow> row_key row = row_key old" by blast
    show "Q (save_item uuid b ts item)"
    proof (cases "k = i")
      case True
      then show ?thesis
        using i new by (auto simp: Q_def s merge_get isOverridden_def coalesce_solid)
    next
      case False
      then show ?thesis using i(1,3) new by (auto simp: Q_def s)
    qed
  qed
  then show ?thesis by (auto simp: Q_def save_def split: prod.split)
qed

end

section \<open>The cache\<close>

text \<open>A run is \<open>orderly\<close> when no write overtakes a load of the same user that has already read.\<close>

fun orderly :: "int \<Rightarrow> 'r snapshot_cache \<Rightarrow> 'r cache_event list \<Rightarrow> bool" where
  "orderly ttl s [] = True"
| "orderly ttl s (e # es) \<longleftrightarrow>
     (case e of InnerWrites u _ \<Rightarrow> \<forall>(l, v, r)\<in>set (loads s). v = u \<longrightarrow> r = None | _ \<Rightarrow> True) \<and> orderly ttl (cache_step ttl s e) es"

definition cache_ok :: "(string \<Rightarrow> bool) \<Rightarrow> 'r snapshot_cache \<Rightarrow> bool" where
  "cache_ok dirty s \<longleftrightarrow> (\<forall>l u r. mget (loads s) l = Some (u, Some r) \<longrightarrow> r = rows_of s u) \<and>
     (\<forall>u t r. \<not> dirty u \<longrightarrow> mget (snapshots s) u = Some (t, r) \<longrightarrow> r = rows_of s u) \<and>
     (\<forall>l. mget (loads s) l \<noteq> None \<longrightarrow> l < next_load s)"

text \<open>How the set of users with a write in progress evolves: the last write's settling clears it.\<close>

definition dirty_step :: "(string \<Rightarrow> bool) \<Rightarrow> 'r cache_event \<Rightarrow> string \<Rightarrow> bool" where
  "dirty_step dirty e = (case e of InnerWrites u _ \<Rightarrow> dirty(u := True) | WriteSettles u \<Rightarrow> dirty(u := False) | _ \<Rightarrow> dirty)"

lemma cache_ok_inflight: "cache_ok dirty (s\<lparr>inflight := i\<rparr>) = cache_ok dirty s"
  by (simp add: cache_ok_def)

lemma cache_step_ok:
  assumes ok: "cache_ok dirty s"
    and guard: "\<And>u r. e = InnerWrites u r \<Longrightarrow> \<forall>(l, v, r)\<in>set (loads s). v = u \<longrightarrow> r = None"
  shows "cache_ok (dirty_step dirty e) (cache_step ttl s e)"
proof (cases e)
  case (Read u)
  have "mget (loads s) (next_load s) = None"
    using ok unfolding cache_ok_def by (metis less_irrefl)
  then show ?thesis
    using ok Read by (auto simp: cache_ok_def cache_step_def dirty_step_def map_of_update less_Suc_eq)
next
  case (LoadReads l)
  then show ?thesis
    using ok by (auto simp: cache_ok_def cache_step_def dirty_step_def map_of_update split: option.split)
next
  case (LoadSettles l)
  show ?thesis
  proof (cases "mget (loads s) l")
    case (Some ur)
    obtain u r where ur: "ur = (u, r)" by (cases ur)
    show ?thesis
    proof (cases r)
      case None
      then show ?thesis using ok Some ur LoadSettles by (simp add: cache_step_def dirty_step_def)
    next
      case r: (Some rows)
      have rows: "rows = rows_of s u" using ok Some ur r unfolding cache_ok_def by metis
      define s1 where "s1 = s\<lparr>loads := mdel l (loads s), snapshots := mput u (clock s, rows) (snapshots s)\<rparr>"
      have "cache_ok dirty s1"
        using ok rows by (auto simp: cache_ok_def s1_def map_of_update map_of_delete_if split: if_splits)
      moreover have "cache_step ttl s (LoadSettles l) =
          (if mget (inflight s) u = Some l then s1\<lparr>inflight := mdel u (inflight s)\<rparr> else s1)"
        by (simp add: cache_step_def Some ur r s1_def Let_def)
      ultimately show ?thesis unfolding LoadSettles dirty_step_def by (simp add: cache_ok_inflight)
    qed
  qed (use ok LoadSettles in \<open>simp add: cache_step_def dirty_step_def\<close>)
next
  case (InnerWrites u r)
  have "v \<noteq> u" if "mget (loads s) l = Some (v, Some q)" for l v q
    using guard [OF InnerWrites] map_of_SomeD [OF that] by blast
  then show ?thesis
    using ok InnerWrites by (auto simp: cache_ok_def cache_step_def dirty_step_def split: if_splits)
next
  case (WriteSettles u)
  then show ?thesis
    using ok by (auto simp: cache_ok_def cache_step_def dirty_step_def invalidate_def map_of_delete_if split: if_splits)
next
  case (Tick d)
  then show ?thesis using ok by (simp add: cache_ok_def cache_step_def dirty_step_def)
qed

lemma cache_run_ok:
  "cache_ok dirty s \<Longrightarrow> orderly ttl s es \<Longrightarrow> cache_ok (foldl dirty_step dirty es) (cache_run ttl s es)"
proof (induction es arbitrary: dirty s)
  case (Cons e es)
  have "cache_ok (dirty_step dirty e) (cache_step ttl s e)"
    using Cons.prems by (intro cache_step_ok) (auto split: cache_event.splits)
  then show ?case using Cons by (simp add: cache_run_def)
qed (simp add: cache_run_def)

section \<open>Samples\<close>

definition first_free :: "string list \<Rightarrow> string" where
  "first_free ks = concat ks @ ''x''"

lemma length_concat_mem: "k \<in> set ks \<Longrightarrow> length k \<le> length (concat ks)"
  by (induction ks) auto

interpretation free: uuid_supply first_free
proof
  fix ks :: "string list"
  show "first_free ks \<notin> set ks"
  proof
    assume "first_free ks \<in> set ks"
    then have "length (first_free ks) \<le> length (concat ks)" by (rule length_concat_mem)
    then show False by (simp add: first_free_def)
  qed
qed

definition stored_row :: "string \<Rightarrow> string \<Rightarrow> string \<Rightarrow> jobj \<Rightarrow> transaction_record" where
  "stored_row i h ty p = \<lparr>row_id = i, bindingId = ''w'', txHash = h, row_eventType = ty, chain = ''1'', row_payload = p, row_occurredAt = 5\<rparr>"

text \<open>A leg that moved from \<open>transfer_out\<close> to \<open>swap\<close>: the stale row carries the user's edit.\<close>

definition moved_old :: transaction_record where
  "moved_old = stored_row ''r1'' ''1:a'' ''transfer_out'' [(''user_override'', VStr ''SEND''), (''classification'', VStr ''SEND''), (''_version'', jint 2)]"

definition moved_new :: transaction_record where
  "moved_new = stored_row ''r2'' ''1:a'' ''swap'' [(''classification'', VStr ''EXCHANGE'')]"

definition moved_emitted :: "emitted_leg list" where
  "moved_emitted = [\<lparr>leg_id = ''1:a'', leg_eventType = ''swap'', nettedLegIds = []\<rparr>]"

text \<open>The same, but the surviving row has an edit of its own, made later.\<close>

definition edited_new :: transaction_record where
  "edited_new = stored_row ''r2'' ''1:a'' ''swap'' [(''user_override'', VStr ''EXCHANGE''), (''classification'', VStr ''EXCHANGE''), (''_version'', jint 7)]"

interpretation moved: purge_input std_host "[moved_old, moved_new]" moved_emitted
  by unfold_locales (simp add: moved_old_def moved_new_def stored_row_def)

definition sample_repo :: mock_repo where
  "sample_repo = \<lparr>transactions = [(''r1'', moved_old), (''r2'', moved_new)], bindingOwners = [(''w'', ''u'')]\<rparr>"

definition empty_cache :: "(string \<Rightarrow> 'r) \<Rightarrow> 'r snapshot_cache" where
  "empty_cache db = \<lparr>rows_of = db, snapshots = [], inflight = [], loads = [], next_load = 0, clock = 0\<rparr>"

definition orderly_run :: "nat cache_event list" where
  "orderly_run = [Read ''u'', LoadReads 0, LoadSettles 0, InnerWrites ''u'' 2, WriteSettles ''u'', Read ''u'', LoadReads 1, LoadSettles 1]"

definition overtaking_run :: "nat cache_event list" where
  "overtaking_run = [Read ''u'', LoadReads 0, InnerWrites ''u'' 2, WriteSettles ''u'', LoadSettles 0]"

section \<open>Properties\<close>





text \<open>C17. Executing the plan loses no edit, provided no row the pass re-emitted under its own type carries
  one: after \<open>deleteSupersededRows\<close> every overridden row of the binding is found again, unchanged or as the
  surviving row of the same leg, with the same override.\<close>

theorem purge_keeps_edits:
  assumes "wf_store (transactions r)"
    and "\<forall>row\<in>set (mvalues (transactions r)). bindingId row = b \<and> is_survivor emitted row \<longrightarrow> \<not> isOverridden (row_payload row)"
    and "row \<in> set (mvalues (transactions r))" "bindingId row = b" "isOverridden (row_payload row)"
  shows "\<exists>row'. row' \<in> set (mvalues (transactions (fst (deleteSupersededRows H b emitted r)))) \<and> txHash row' = txHash row \<and>
    bindingId row' = b \<and> pget (row_payload row') ''user_override'' = pget (row_payload row) ''user_override''"
  using edits_survive_plan [OF assms(1) refl, of b emitted row H] assms(2-)
  by (simp add: deleteSupersededRows_def Let_def)

theorem purge_keeps_edits_witness:
  "\<exists>row'. row' \<in> set (mvalues (transactions (fst (deleteSupersededRows std_host ''w'' moved_emitted sample_repo)))) \<and>
    txHash row' = txHash moved_old \<and> bindingId row' = ''w'' \<and>
    pget (row_payload row') ''user_override'' = pget (row_payload moved_old) ''user_override''"
proof (rule purge_keeps_edits)
  show "wf_store (transactions sample_repo)"
    by (simp add: wf_store_def sample_repo_def moved_old_def moved_new_def stored_row_def row_key_def)
  show "\<forall>row\<in>set (mvalues (transactions sample_repo)). bindingId row = ''w'' \<and> is_survivor moved_emitted row \<longrightarrow> \<not> isOverridden (row_payload row)"
    by (simp add: sample_repo_def is_survivor_def emits_def moved_emitted_def moved_old_def moved_new_def stored_row_def isOverridden_def pget_def)
  show "moved_old \<in> set (mvalues (transactions sample_repo))" by (simp add: sample_repo_def)
  show "bindingId moved_old = ''w''" "isOverridden (row_payload moved_old)" by code_simp+
qed

text \<open>Without that proviso the purge does lose an edit. When both the stale row and the row its leg
  moved to carry a user edit, the plan overwrites the survivor's edit with the older one, deletes the stale
  row, and reports nothing.\<close>

theorem purge_loses_survivor_edit:
  "planSupersededPurge std_host [moved_old, edited_new] moved_emitted =
     \<lparr>deleteIds = [''r1''], carries = [(''r2'', mergeSavedPayload (row_payload moved_old) (row_payload edited_new))], preserved = []\<rparr> \<and>
   pget (row_payload edited_new) ''user_override'' = VStr ''EXCHANGE'' \<and>
   pget (mergeSavedPayload (row_payload moved_old) (row_payload edited_new)) ''user_override'' = VStr ''SEND'' \<and>
   num_diff_sign (versionOf (row_payload moved_old)) (versionOf (row_payload edited_new)) < 0"
  by (intro conjI) code_simp+

text \<open>An upsert keeps the store consistent (each row under its own id, one row per binding, leg and
  type) and keeps every edit: a row that carried an override before a save carries the same override and
  classification after it.\<close>

theorem upsert_consistent:
  assumes "uuid_supply uuid" "wf_store (transactions r)"
  shows "wf_store (transactions (fst (save uuid b u items r))) \<and>
    (\<forall>k old. mget (transactions r) k = Some old \<and> isOverridden (row_payload old) \<longrightarrow>
      (\<exists>new. mget (transactions (fst (save uuid b u items r))) k = Some new \<and> row_key new = row_key old \<and>
        pget (row_payload new) ''user_override'' = pget (row_payload old) ''user_override'' \<and>
        pget (row_payload new) ''classification'' = pget (row_payload old) ''classification''))"
  using uuid_supply.save_wf [OF assms] uuid_supply.save_keeps_edits [OF assms] by blast

theorem upsert_consistent_witness:
  "wf_store (transactions (fst (save first_free ''w'' ''u''
     [\<lparr>i_txHash = ''1:a'', i_chain = ''1'', i_eventType = ''swap'', i_occurredAt = 9, i_payload = []\<rparr>] sample_repo)))"
proof (rule upsert_consistent [THEN conjunct1])
  show "uuid_supply first_free" by (rule free.uuid_supply_axioms)
  show "wf_store (transactions sample_repo)"
    by (simp add: wf_store_def sample_repo_def moved_old_def moved_new_def stored_row_def row_key_def)
qed

text \<open>C16. The snapshot cache refines the repository as long as no write overtakes a load that has already
  read: after any such run from an empty cache, a fresh snapshot of a user with no write in progress is
  exactly the repository's rows of that user.\<close>

theorem cache_serves_current_rows:
  assumes "orderly ttl (empty_cache db) es" "fresh_snapshot ttl (cache_run ttl (empty_cache db) es) u = Some rows"
    and "\<not> foldl dirty_step (\<lambda>_. False) es u"
  shows "rows = rows_of (cache_run ttl (empty_cache db) es) u"
proof -
  have "cache_ok (\<lambda>_. False) (empty_cache db)" by (simp add: cache_ok_def empty_cache_def)
  from cache_run_ok [OF this assms(1)] assms(2,3) show ?thesis
    by (auto simp: cache_ok_def fresh_snapshot_def split: option.splits if_splits)
qed

theorem cache_serves_current_rows_witness:
  "2 = rows_of (cache_run 60000 (empty_cache (\<lambda>_. 1)) orderly_run) ''u''"
  by (rule cache_serves_current_rows)
     (simp_all add: orderly_run_def empty_cache_def cache_step_def cache_run_def fresh_snapshot_def invalidate_def dirty_step_def)

text \<open>When a write overtakes a load, the cache serves stale rows: the load read before the write, the
  write settled and dropped the snapshot, and then the load stored what it had read. The next read, well
  after the write, is answered from it.\<close>

theorem cache_serves_stale_rows:
  "(let s = cache_run LEDGER_SNAPSHOT_TTL_MS (empty_cache (\<lambda>_. 1)) overtaking_run in
    fresh_snapshot LEDGER_SNAPSHOT_TTL_MS s ''u'' = Some 1 \<and> rows_of s ''u'' = 2 \<and>
    foldl dirty_step (\<lambda>_. False) overtaking_run ''u'' = False)"
  by (simp add: overtaking_run_def empty_cache_def cache_step_def cache_run_def fresh_snapshot_def invalidate_def
      dirty_step_def LEDGER_SNAPSHOT_TTL_MS_def Let_def)

end
