(* ===== verification/Linking_Properties.thy ===== *)
theory Linking_Properties
  imports Linking TxRepository_Properties CostBasis
begin

text \<open>
  What the two linking passes guarantee. The interface of the transaction repository a pass needs is
  the locale \<open>ledger_writer\<close>; the in-memory repository provides it (interpretation \<open>mock\<close>). Inside it
  a pass that writes each of its legs at most once is described by the rows it leaves (\<open>write_fold\<close>),
  and the two passes are instances of that.
\<close>

section \<open>Writing through the repository\<close>

definition set_payload :: "string \<Rightarrow> jobj \<Rightarrow> transaction_record \<Rightarrow> transaction_record" where
  "set_payload i p x = (if row_id x = i then x\<lparr>row_payload := p\<rparr> else x)"

definition addresses :: "string \<Rightarrow> transaction_record \<Rightarrow> bool" where
  "addresses i x \<longleftrightarrow> row_id x = i \<or> pget (row_payload x) ''id'' = VStr i"

text \<open>The id \<open>i\<close> addresses exactly the row \<open>r\<close>.\<close>

definition names_only :: "transaction_record list \<Rightarrow> string \<Rightarrow> transaction_record \<Rightarrow> bool" where
  "names_only xs i r \<longleftrightarrow> (\<forall>x\<in>set xs. addresses i x \<longleftrightarrow> x = r)"

locale ledger_writer =
  fixes upd :: "'s writer" and rows :: "'s \<Rightarrow> transaction_record list" and ok :: "'s \<Rightarrow> bool"
  assumes rows_distinct: "ok s \<Longrightarrow> distinct (map row_id (rows s))"
    and write_ok: "ok s \<Longrightarrow> upd i p s = Some s' \<Longrightarrow> ok s'"
    and write_rows: "ok s \<Longrightarrow> upd i p s = Some s' \<Longrightarrow> r \<in> set (rows s) \<Longrightarrow> names_only (rows s) i r \<Longrightarrow>
      rows s' = map (set_payload (row_id r) p) (rows s)"

text \<open>One step of a pass: the payload it wants for the leg, if any, written at the leg's address.\<close>

definition write_leg :: "'s writer \<Rightarrow> (transaction_record \<Rightarrow> string) \<Rightarrow> (transaction_record \<Rightarrow> jobj option) \<Rightarrow>
    's \<times> nat \<Rightarrow> transaction_record \<Rightarrow> 's \<times> nat" where
  "write_leg upd addr f sc leg = (case f leg of None \<Rightarrow> sc
     | Some p \<Rightarrow> (case upd (addr leg) p (fst sc) of None \<Rightarrow> sc | Some s \<Rightarrow> (s, Suc (snd sc))))"

definition rewritten :: "(transaction_record \<Rightarrow> jobj option) \<Rightarrow> transaction_record \<Rightarrow> transaction_record" where
  "rewritten f x = (case f x of None \<Rightarrow> x | Some p \<Rightarrow> x\<lparr>row_payload := p\<rparr>)"

definition keeps_id :: "(transaction_record \<Rightarrow> jobj option) \<Rightarrow> bool" where
  "keeps_id f \<longleftrightarrow> (\<forall>x p. f x = Some p \<longrightarrow> pget p ''id'' = pget (row_payload x) ''id'')"

lemma rewritten_same [simp]:
  "row_id (rewritten f x) = row_id x" "row_occurredAt (rewritten f x) = row_occurredAt x"
  "bindingId (rewritten f x) = bindingId x" "txHash (rewritten f x) = txHash x"
  "row_eventType (rewritten f x) = row_eventType x"
  by (simp_all add: rewritten_def split: option.splits)

lemma addresses_rewritten: "keeps_id f \<Longrightarrow> addresses i (rewritten f x) = addresses i x"
  by (auto simp: addresses_def rewritten_def keeps_id_def split: option.splits)

text \<open>The rows after the legs in \<open>W\<close> have been rewritten.\<close>

definition rewrite_set :: "(transaction_record \<Rightarrow> jobj option) \<Rightarrow> transaction_record set \<Rightarrow> transaction_record \<Rightarrow> transaction_record" where
  "rewrite_set f W x = (if x \<in> W then rewritten f x else x)"

lemma rewrite_set_id [simp]: "row_id (rewrite_set f W x) = row_id x"
  by (simp add: rewrite_set_def)

context ledger_writer
begin

definition never_fails :: bool where
  "never_fails \<longleftrightarrow> (\<forall>s i p. ok s \<longrightarrow> upd i p s \<noteq> None)"

lemma row_inj: "ok s \<Longrightarrow> x \<in> set (rows s) \<Longrightarrow> y \<in> set (rows s) \<Longrightarrow> row_id x = row_id y \<Longrightarrow> x = y"
  by (rule distinct_map_inj_on [OF rows_distinct])

lemma write_one:
  assumes "ok s0" "ok s" and rows: "rows s = map (rewrite_set f W) (rows s0)"
    and leg: "leg \<in> set (rows s0)" "leg \<notin> W" "f leg = Some p" and keep: "keeps_id f"
    and addr: "names_only (rows s0) (addr leg) leg" and upd: "upd (addr leg) p s = Some s'"
  shows "rows s' = map (rewrite_set f (insert leg W)) (rows s0)"
proof -
  have same: "rewrite_set f W leg = leg" using leg(2) by (simp add: rewrite_set_def)
  have mem: "leg \<in> set (rows s)" using leg(1) same by (force simp: rows)
  have "names_only (rows s) (addr leg) leg"
    unfolding names_only_def rows
  proof clarsimp
    fix x assume x: "x \<in> set (rows s0)"
    have "addresses (addr leg) (rewrite_set f W x) = addresses (addr leg) x"
      using addresses_rewritten [OF keep] by (simp add: rewrite_set_def)
    also have "\<dots> \<longleftrightarrow> x = leg" using addr x by (simp add: names_only_def)
    also have "\<dots> \<longleftrightarrow> rewrite_set f W x = leg"
      using row_inj [OF assms(1) x leg(1)] same by (metis rewrite_set_id)
    finally show "addresses (addr leg) (rewrite_set f W x) \<longleftrightarrow> rewrite_set f W x = leg" .
  qed
  from write_rows [OF assms(2) upd mem this]
  have "rows s' = map (\<lambda>x. set_payload (row_id leg) p (rewrite_set f W x)) (rows s0)" by (simp add: rows)
  also have "\<dots> = map (rewrite_set f (insert leg W)) (rows s0)"
  proof (rule map_cong)
    fix x assume x: "x \<in> set (rows s0)"
    then have "row_id x = row_id leg \<longleftrightarrow> x = leg" using row_inj [OF assms(1) x leg(1)] by blast
    then show "set_payload (row_id leg) p (rewrite_set f W x) = rewrite_set f (insert leg W) x"
    proof (cases "x = leg")
      case True
      then show ?thesis using leg(2,3) by (simp add: set_payload_def rewrite_set_def rewritten_def)
    next
      case False
      then have "set_payload (row_id leg) p (rewrite_set f W x) = rewrite_set f W x"
        using \<open>row_id x = row_id leg \<longleftrightarrow> x = leg\<close> by (simp add: set_payload_def)
      then show ?thesis using False by (simp add: rewrite_set_def)
    qed
  qed simp
  finally show ?thesis .
qed

text \<open>A fold that writes distinct legs of a snapshot leaves the snapshot with some of the wanted
  payloads written, all of them when no write fails, and counts them.\<close>

lemma write_fold:
  assumes "ok s0" "set legs \<subseteq> set (rows s0)" "distinct legs" "keeps_id f"
    and "\<And>leg. leg \<in> set legs \<Longrightarrow> names_only (rows s0) (addr leg) leg"
  obtains W where "W \<subseteq> {leg \<in> set legs. f leg \<noteq> None}"
    "ok (fst (foldl (write_leg upd addr f) (s0, 0) legs))"
    "rows (fst (foldl (write_leg upd addr f) (s0, 0) legs)) = map (rewrite_set f W) (rows s0)"
    "snd (foldl (write_leg upd addr f) (s0, 0) legs) = card W"
    "never_fails \<Longrightarrow> W = {leg \<in> set legs. f leg \<noteq> None}"
    "W = {} \<Longrightarrow> fst (foldl (write_leg upd addr f) (s0, 0) legs) = s0"
  using assms(2,3,5)
proof (induction legs arbitrary: thesis rule: rev_induct)
  case Nil
  show ?case by (rule Nil.prems(1) [of "{}"]) (simp_all add: rewrite_set_def assms(1))
next
  case (snoc leg legs)
  from snoc.IH snoc.prems(2-) obtain W where W: "W \<subseteq> {leg \<in> set legs. f leg \<noteq> None}"
    "ok (fst (foldl (write_leg upd addr f) (s0, 0) legs))"
    "rows (fst (foldl (write_leg upd addr f) (s0, 0) legs)) = map (rewrite_set f W) (rows s0)"
    "snd (foldl (write_leg upd addr f) (s0, 0) legs) = card W"
    "never_fails \<Longrightarrow> W = {leg \<in> set legs. f leg \<noteq> None}"
    "W = {} \<Longrightarrow> fst (foldl (write_leg upd addr f) (s0, 0) legs) = s0" by auto
  let ?sc = "foldl (write_leg upd addr f) (s0, 0) legs"
  have fresh: "leg \<notin> W" using W(1) snoc.prems(3) by auto
  show ?case
  proof (cases "f leg")
    case None
    then have step: "write_leg upd addr f ?sc leg = ?sc" by (simp add: write_leg_def)
    show ?thesis by (rule snoc.prems(1) [of W]) (use None W in \<open>auto simp: step\<close>)
  next
    case (Some p)
    show ?thesis
    proof (cases "upd (addr leg) p (fst ?sc)")
      case None
      then have step: "write_leg upd addr f ?sc leg = ?sc" by (simp add: write_leg_def Some)
      have "\<not> never_fails" using None W(2) by (auto simp: never_fails_def)
      then show ?thesis using snoc.prems(1) [of W] W step by auto
    next
      case upd: (Some s')
      then have step: "write_leg upd addr f ?sc leg = (s', Suc (snd ?sc))" by (simp add: write_leg_def Some)
      have "rows s' = map (rewrite_set f (insert leg W)) (rows s0)"
        by (rule write_one [OF assms(1) W(2,3) _ fresh Some assms(4), of addr]) (use upd snoc.prems in auto)
      moreover have "finite W" using W(1) by (rule finite_subset) simp
      ultimately show ?thesis
        using snoc.prems(1) [of "insert leg W"] W Some fresh write_ok [OF W(2) upd]
        by (auto simp: step)
    qed
  qed
qed

end

section \<open>The in-memory repository is a ledger writer\<close>

definition mock_writer :: "string \<Rightarrow> mock_repo writer" where
  "mock_writer u i p r = Some (fst (updatePayload u i p r))"

lemma mput_values:
  assumes "distinct (mkeys m)" "mget m k = Some old"
  shows "mvalues (mput k v m) = map (\<lambda>(k', w). if k' = k then v else w) m"
  using assms by (induction m) (auto simp: map_idI rev_image_eqI split: if_splits)

interpretation mock: ledger_writer "mock_writer u" "listForUser u" "\<lambda>r. wf_store (transactions r)" for u
proof unfold_locales
  fix r r' :: mock_repo and i p
  show "distinct (map row_id (listForUser u r))" if "wf_store (transactions r)"
    using wf_store_ids [OF that] by (simp add: listForUser_def distinct_map_sort_by distinct_map_filter)
  assume wf: "wf_store (transactions r)" and upd: "mock_writer u i p r = Some r'"
  have r': "r' = fst (updatePayload u i p r)" using upd by (simp add: mock_writer_def)
  have stored: "mget (transactions r) (row_id x) = Some x" if "findForUser u i r = Some x" for x
  proof -
    have "x \<in> set (listForUser u r)" using find_first that unfolding findForUser_def by metis
    then show ?thesis using wf_store_get [OF wf] by (auto simp: listForUser_def set_sort_by)
  qed
  have put: "mvalues (mput (row_id x) (x\<lparr>row_payload := p\<rparr>) (transactions r)) = map (set_payload (row_id x) p) (mvalues (transactions r))"
    if "mget (transactions r) (row_id x) = Some x" for x
  proof -
    have d: "distinct (mkeys (transactions r))" and own: "(k, w) \<in> set (transactions r) \<Longrightarrow> row_id w = k" for k w
      using wf by (auto simp: wf_store_def)
    have "(case kw of (k', w) \<Rightarrow> if k' = row_id x then x\<lparr>row_payload := p\<rparr> else w) = set_payload (row_id x) p (snd kw)"
      if "kw \<in> set (transactions r)" for kw
    proof -
      have "snd kw = x" if "fst kw = row_id x"
        using \<open>mget (transactions r) (row_id x) = Some x\<close> d \<open>kw \<in> _\<close> that by (metis map_of_eq_Some_iff option.inject prod.collapse)
      then show ?thesis using own \<open>kw \<in> _\<close> by (cases kw) (auto simp: set_payload_def)
    qed
    then show ?thesis unfolding mput_values [OF d that] by simp
  qed
  show "wf_store (transactions r')"
  proof (cases "findForUser u i r")
    case (Some x)
    have "distinct (map row_key (map (set_payload (row_id x) p) (mvalues (transactions r))))"
    proof -
      have "map row_key (map (set_payload (row_id x) p) (mvalues (transactions r))) = map row_key (mvalues (transactions r))"
        by (simp add: set_payload_def row_key_def comp_def)
      then show ?thesis using wf by (simp only: wf_store_def)
    qed
    moreover have "transactions r' = mput (row_id x) (x\<lparr>row_payload := p\<rparr>) (transactions r)"
      by (simp add: r' updatePayload_def Some Let_def)
    ultimately show ?thesis
      using wf put [OF stored [OF Some]] set_update_subset [of "row_id x" "x\<lparr>row_payload := p\<rparr>" "transactions r"]
      by (auto simp: wf_store_def distinct_update)
  qed (simp add: r' updatePayload_def wf)
  fix x assume x: "x \<in> set (listForUser u r)" and only: "names_only (listForUser u r) i x"
  have "findForUser u i r = Some x"
  proof (cases "findForUser u i r")
    case None
    then show ?thesis using x only by (auto simp: findForUser_def find_none names_only_def addresses_def)
  next
    case (Some y)
    then have "y \<in> set (listForUser u r) \<and> addresses i y"
      using find_first [of _ "listForUser u r" y] unfolding findForUser_def addresses_def by blast
    then have "y = x" using only unfolding names_only_def by blast
    then show ?thesis using Some by simp
  qed
  then have "transactions r' = mput (row_id x) (x\<lparr>row_payload := p\<rparr>) (transactions r)" "bindingOwners r' = bindingOwners r"
    and v: "mvalues (mput (row_id x) (x\<lparr>row_payload := p\<rparr>) (transactions r)) = map (set_payload (row_id x) p) (mvalues (transactions r))"
    using put [OF stored] by (simp_all add: r' updatePayload_def Let_def)
  moreover have "row_occurredAt (set_payload (row_id x) p y) = row_occurredAt y" "bindingId (set_payload (row_id x) p y) = bindingId y" for y
    by (simp_all add: set_payload_def)
  ultimately show "listForUser u r' = map (set_payload (row_id x) p) (listForUser u r)"
    unfolding listForUser_def by (simp only: filter_map comp_def sort_by_map)
qed

section \<open>Own wallets\<close>

lemma own_settled_payload: "own_settled (own_payload p g) g"
  by (simp add: own_settled_def own_payload_def opt_str_def coalesce_def nullish_def split: option.splits)

lemma own_payload_get:
  "k \<notin> {''classification'', ''confidence'', ''bridge_group_id'', ''bridge_dest_chain_id''} \<Longrightarrow>
   pget (own_payload p g) k = pget p k"
  by (simp add: own_payload_def)

lemma own_payload_slot: "ownAssetKeyOf (own_payload p g) = ownAssetKeyOf p" "slotOf (own_payload p g) = slotOf p"
proof -
  show a: "ownAssetKeyOf (own_payload p g) = ownAssetKeyOf p"
    by (simp add: ownAssetKeyOf_def str_or_empty_def own_payload_get Let_def)
  show "slotOf (own_payload p g) = slotOf p" by (simp add: slotOf_def a own_payload_get split: jnum.splits)
qed

lemma own_payload_keeps:
  assumes "row_payload leg' = own_payload (row_payload leg) g"
  shows "isOwnMove bound leg' = isOwnMove bound leg" "transferKey leg' = transferKey leg"
    "groupIdOf leg' = groupIdOf leg" "has_direction d leg' = has_direction d leg"
  by (simp_all add: isOwnMove_def transferKey_def groupIdOf_def own_payload_slot str_or_empty_def
      has_direction_def assms own_payload_get Let_def)

text \<open>What the pass wants written for a leg, given all rows.\<close>

definition bucket_of :: "string list \<Rightarrow> transaction_record list \<Rightarrow> transaction_record \<Rightarrow> transaction_record list" where
  "bucket_of bound all leg = filter (\<lambda>y. transferKey y = transferKey leg) (filter (isOwnMove bound) all)"

definition own_target :: "string list \<Rightarrow> transaction_record list \<Rightarrow> transaction_record \<Rightarrow> jobj option" where
  "own_target as all leg = (let bound = boundSet as; g = bucket_group (bucket_of bound all leg) in
     if isOwnMove bound leg \<and> \<not> own_settled (row_payload leg) g then Some (own_payload (row_payload leg) g) else None)"

lemma own_target_cases:
  obtains "own_target as all leg = None"
  | g where "own_target as all leg = Some (own_payload (row_payload leg) g)"
      "g = bucket_group (bucket_of (boundSet as) all leg)" "isOwnMove (boundSet as) leg"
  by (cases "isOwnMove (boundSet as) leg \<and> \<not> own_settled (row_payload leg) (bucket_group (bucket_of (boundSet as) all leg))")
    (simp_all add: own_target_def Let_def)

lemma own_target_keeps_id: "keeps_id (own_target as all)"
  by (auto simp: keeps_id_def own_target_def Let_def own_payload_get split: if_splits)

lemma rewritten_own:
  "isOwnMove bound (rewritten (own_target as all) leg) = isOwnMove bound leg"
  "transferKey (rewritten (own_target as all) leg) = transferKey leg"
  "groupIdOf (rewritten (own_target as all) leg) = groupIdOf leg"
  "has_direction d (rewritten (own_target as all) leg) = has_direction d leg"
proof -
  have "rewritten (own_target as all) leg = leg \<or> (\<exists>g. row_payload (rewritten (own_target as all) leg) = own_payload (row_payload leg) g)"
    by (rule own_target_cases [of as all leg]) (auto simp: rewritten_def)
  then show "isOwnMove bound (rewritten (own_target as all) leg) = isOwnMove bound leg"
    "transferKey (rewritten (own_target as all) leg) = transferKey leg"
    "groupIdOf (rewritten (own_target as all) leg) = groupIdOf leg"
    "has_direction d (rewritten (own_target as all) leg) = has_direction d leg"
    by (elim disjE exE; simp add: own_payload_keeps)+
qed

lemma own_bucket_again:
  assumes "all' = map (rewritten (own_target as all)) all"
  shows "bucket_group (bucket_of bound all' (rewritten (own_target as all) leg)) = bucket_group (bucket_of bound all leg)"
proof -
  let ?r = "rewritten (own_target as all)"
  have "bucket_of bound all' (?r leg) = map ?r (bucket_of bound all leg)"
    by (simp add: bucket_of_def assms filter_map comp_def rewritten_own)
  then show ?thesis
    by (simp add: bucket_group_def filter_map comp_def rewritten_own split: list.splits)
       (auto simp: rewritten_own split: list.splits)
qed

lemma own_target_again:
  assumes "all' = map (rewritten (own_target as all)) all"
  shows "own_target as all' (rewritten (own_target as all) leg) = None"
proof (cases "isOwnMove (boundSet as) leg")
  case True
  let ?g = "bucket_group (bucket_of (boundSet as) all leg)"
  have "own_settled (row_payload (rewritten (own_target as all) leg)) ?g"
    using True by (simp add: rewritten_def own_target_def Let_def own_settled_payload)
  then show ?thesis by (simp add: own_target_def [of as all'] own_bucket_again [OF assms] Let_def)
qed (simp add: own_target_def [of as all'] rewritten_own Let_def)

lemma own_fold:
  assumes "\<And>leg. leg \<in> set bucket \<Longrightarrow> f leg = (if own_settled (row_payload leg) g then None else Some (own_payload (row_payload leg) g))"
  shows "foldl (own_apply upd g) sc bucket = foldl (write_leg upd row_id f) sc bucket"
  using assms by (intro foldl_cong) (auto simp: own_apply_def write_leg_def)

lemma link_buckets:
  assumes "\<And>b leg. b \<in> set bs \<Longrightarrow> leg \<in> set b \<Longrightarrow>
      f leg = (if own_settled (row_payload leg) (bucket_group b) then None else Some (own_payload (row_payload leg) (bucket_group b)))"
  shows "foldl (link_bucket upd) sc bs = foldl (write_leg upd row_id f) sc (concat bs)"
  using assms
proof (induction bs arbitrary: sc)
  case (Cons b bs)
  have "link_bucket upd sc b = foldl (write_leg upd row_id f) sc b"
    unfolding link_bucket_def by (rule own_fold) (use Cons.prems in auto)
  moreover have "foldl (link_bucket upd) sc' bs = foldl (write_leg upd row_id f) sc' (concat bs)" for sc'
    by (rule Cons.IH) (use Cons.prems in auto)
  ultimately show ?case by simp
qed simp

lemma link_own_fold:
  obtains legs where "linkOwnWallets upd as all s = foldl (write_leg upd row_id (own_target as all)) (s, 0) legs"
    "mset legs = mset (filter (isOwnMove (boundSet as)) all)"
proof (cases "boundSet as = [] \<or> filter (isOwnMove (boundSet as)) all = []")
  case True
  have "filter (isOwnMove (boundSet as)) all = []"
    using True by (auto simp: filter_empty_conv isOwnMove_def Let_def split: option.splits)
  with True show thesis by (intro that [of "[]"]) (simp_all add: linkOwnWallets_def Let_def)
next
  case False
  let ?legs = "filter (isOwnMove (boundSet as)) all" and ?m = "foldl (group_add transferKey) [] (filter (isOwnMove (boundSet as)) all)"
  have "foldl (link_bucket upd) (s, 0) (mvalues ?m) = foldl (write_leg upd row_id (own_target as all)) (s, 0) (concat (mvalues ?m))"
  proof (rule link_buckets)
    fix b leg assume "b \<in> set (mvalues ?m)" and leg: "leg \<in> set b"
    then obtain x where b: "b = filter (\<lambda>y. transferKey y = transferKey x) ?legs" unfolding group_values by auto
    then have "b = bucket_of (boundSet as) all leg" "isOwnMove (boundSet as) leg" using leg by (auto simp: bucket_of_def)
    then show "own_target as all leg = (if own_settled (row_payload leg) (bucket_group b) then None
        else Some (own_payload (row_payload leg) (bucket_group b)))"
      by (simp add: own_target_def Let_def)
  qed
  with False group_mset [of transferKey ?legs] show thesis
    by (intro that [of "concat (mvalues ?m)"]) (simp_all add: linkOwnWallets_def Let_def add_to_bucket_def)
qed

context ledger_writer
begin

text \<open>The pass writes exactly its targets, some of them when writes fail, all of them when none does.\<close>

lemma own_link_rows:
  assumes "ok s" and "\<And>leg. leg \<in> set (rows s) \<Longrightarrow> isOwnMove (boundSet as) leg \<Longrightarrow> names_only (rows s) (row_id leg) leg"
  obtains W where "W \<subseteq> {leg \<in> set (rows s). own_target as (rows s) leg \<noteq> None}"
    "ok (fst (linkOwnWallets upd as (rows s) s))"
    "rows (fst (linkOwnWallets upd as (rows s) s)) = map (rewrite_set (own_target as (rows s)) W) (rows s)"
    "snd (linkOwnWallets upd as (rows s) s) = card W"
    "never_fails \<Longrightarrow> W = {leg \<in> set (rows s). own_target as (rows s) leg \<noteq> None}"
    "W = {} \<Longrightarrow> fst (linkOwnWallets upd as (rows s) s) = s"
proof -
  obtain legs where f: "linkOwnWallets upd as (rows s) s = foldl (write_leg upd row_id (own_target as (rows s))) (s, 0) legs"
    and m: "mset legs = mset (filter (isOwnMove (boundSet as)) (rows s))" by (rule link_own_fold)
  have set: "set legs = {leg \<in> set (rows s). isOwnMove (boundSet as) leg}"
    using m by (metis set_filter set_mset_mset)
  have "distinct (rows s)" using rows_distinct [OF assms(1)] by (simp add: distinct_map)
  then have "distinct legs" using mset_eq_imp_distinct_iff [OF m] by simp
  have same: "{leg \<in> set legs. own_target as (rows s) leg \<noteq> None} = {leg \<in> set (rows s). own_target as (rows s) leg \<noteq> None}"
    by (auto simp: set own_target_def Let_def)
  from write_fold [OF assms(1) _ \<open>distinct legs\<close> own_target_keeps_id [of as "rows s"], of row_id] assms(2)
  obtain W where "W \<subseteq> {leg \<in> set legs. own_target as (rows s) leg \<noteq> None}"
    "ok (fst (linkOwnWallets upd as (rows s) s))"
    "rows (fst (linkOwnWallets upd as (rows s) s)) = map (rewrite_set (own_target as (rows s)) W) (rows s)"
    "snd (linkOwnWallets upd as (rows s) s) = card W"
    "never_fails \<Longrightarrow> W = {leg \<in> set legs. own_target as (rows s) leg \<noteq> None}"
    "W = {} \<Longrightarrow> fst (linkOwnWallets upd as (rows s) s) = s"
    unfolding f set by (smt (verit) mem_Collect_eq subsetI)
  then show thesis unfolding same by (rule that)
qed

end

text \<open>Undoing the moves of a wallet that was unbound.\<close>

definition unlink_target :: "string \<Rightarrow> transaction_record \<Rightarrow> jobj option" where
  "unlink_target removed leg = (if unlinkable removed (row_payload leg) then Some (unlinked_payload (row_payload leg)) else None)"

lemma unlink_leg_write: "unlink_leg upd removed = write_leg upd row_id (unlink_target removed)"
  by (intro ext) (simp add: unlink_leg_def write_leg_def unlink_target_def)

lemma unlinked_payload_get:
  "k \<notin> {''classification'', ''bridge_group_id'', ''bridge_dest_chain_id''} \<Longrightarrow> pget (unlinked_payload p) k = pget p k"
  by (simp add: unlinked_payload_def Let_def)

lemma unlinked_classification:
  "pget (unlinked_payload p) ''classification'' =
     VStr (if pget p ''direction'' = VStr ''OUT'' then ''SEND'' else if pget p ''direction'' = VStr ''IN'' then ''RECEIVE'' else ''UNKNOWN'')"
  "pget (unlinked_payload p) ''bridge_group_id'' = VNull"
  by (simp_all add: unlinked_payload_def Let_def)

lemma unlink_target_keeps_id: "keeps_id (unlink_target removed)"
  by (auto simp: keeps_id_def unlink_target_def unlinked_payload_get)

lemma unlink_settles: "\<not> unlinkable removed (row_payload (rewritten (unlink_target removed) leg))"
  by (simp add: rewritten_def unlink_target_def) (simp add: unlinkable_def unlinked_classification)

lemma rewrite_all:
  "W = {x \<in> set xs. f x \<noteq> None} \<Longrightarrow> map (rewrite_set f W) xs = map (rewritten f) xs"
  by (auto simp: rewrite_set_def rewritten_def)

context ledger_writer
begin

lemma unlink_rows:
  assumes "ok s" "never_fails"
    and "\<And>leg. leg \<in> set (rows s) \<Longrightarrow> unlinkable removed (row_payload leg) \<Longrightarrow> names_only (rows s) (row_id leg) leg"
  shows "rows (fst (foldl (unlink_leg upd removed) (s, 0) (rows s))) = map (rewritten (unlink_target removed)) (rows s)"
    "snd (foldl (unlink_leg upd removed) (s, 0) (rows s)) = card {leg \<in> set (rows s). unlinkable removed (row_payload leg)}"
proof -
  let ?f = "unlink_target removed"
  let ?legs = "filter (\<lambda>leg. unlinkable removed (row_payload leg)) (rows s)"
  have skip: "foldl (write_leg upd row_id ?f) sc xs = foldl (write_leg upd row_id ?f) sc (filter (\<lambda>leg. unlinkable removed (row_payload leg)) xs)" for sc xs
    by (induction xs arbitrary: sc) (simp_all add: write_leg_def [of _ _ ?f] unlink_target_def)
  have d: "distinct ?legs" using rows_distinct [OF assms(1)] by (simp add: distinct_map)
  obtain W where W: "rows (fst (foldl (write_leg upd row_id ?f) (s, 0) ?legs)) = map (rewrite_set ?f W) (rows s)"
    "snd (foldl (write_leg upd row_id ?f) (s, 0) ?legs) = card W" "W = {leg \<in> set ?legs. ?f leg \<noteq> None}"
    by (rule write_fold [OF assms(1) _ d unlink_target_keeps_id [of removed], of row_id]) (use assms(2,3) in auto)
  have W': "W = {leg \<in> set (rows s). ?f leg \<noteq> None}" by (auto simp: W(3) unlink_target_def)
  show "rows (fst (foldl (unlink_leg upd removed) (s, 0) (rows s))) = map (rewritten ?f) (rows s)"
    unfolding unlink_leg_write skip [of "(s, 0)" "rows s"] W(1) by (rule rewrite_all [OF W'])
  have "{leg \<in> set (rows s). ?f leg \<noteq> None} = {leg \<in> set (rows s). unlinkable removed (row_payload leg)}"
    by (auto simp: unlink_target_def)
  then show "snd (foldl (unlink_leg upd removed) (s, 0) (rows s)) = card {leg \<in> set (rows s). unlinkable removed (row_payload leg)}"
    unfolding unlink_leg_write skip [of "(s, 0)" "rows s"] W(2) by (simp add: W')
qed

end

lemma mock_never_fails: "mock.never_fails u"
  by (simp add: mock.never_fails_def mock_writer_def)

lemma names_only_rewritten:
  assumes keep: "keeps_id f" and only: "names_only xs (row_id leg) leg" and leg: "leg \<in> set xs"
    and d: "distinct (map row_id xs)"
  shows "names_only (map (rewritten f) xs) (row_id leg) (rewritten f leg)"
  unfolding names_only_def
proof clarsimp
  fix x assume x: "x \<in> set xs"
  have "addresses (row_id leg) (rewritten f x) \<longleftrightarrow> x = leg"
    using only x by (simp add: addresses_rewritten [OF keep] names_only_def)
  also have "\<dots> \<longleftrightarrow> rewritten f x = rewritten f leg"
    using distinct_map_inj_on [OF d x leg] rewritten_same(1) by metis
  finally show "addresses (row_id leg) (rewritten f x) \<longleftrightarrow> rewritten f x = rewritten f leg" .
qed

section \<open>Properties of the own-wallet pass\<close>

definition own_leg :: "string \<Rightarrow> string \<Rightarrow> string \<Rightarrow> string \<Rightarrow> jobj \<Rightarrow> transaction_record" where
  "own_leg i w cp dir extra = \<lparr>row_id = i, bindingId = w, txHash = i, row_eventType = ''transfer'', chain = ''1'',
     row_payload = extra @ [(''id'', VStr ''0x1:log:7''), (''chain_id'', jint 1), (''tx_hash'', VStr ''0x1''), (''log_index'', jint 7),
       (''asset_type'', VStr ''NATIVE''), (''raw_amount'', VStr ''5''), (''wallet_address'', VStr w), (''counterparty'', VStr cp),
       (''direction'', VStr dir), (''classification'', VStr ''SEND'')], row_occurredAt = 5\<rparr>"

definition own_repo :: mock_repo where
  "own_repo = \<lparr>transactions = [(''r1'', own_leg ''r1'' ''0xa'' ''0xb'' ''OUT'' []), (''r2'', own_leg ''r2'' ''0xb'' ''0xa'' ''IN'' []),
      (''r3'', own_leg ''r3'' ''0xb'' ''0xa'' ''IN'' [(''user_override'', VStr ''RECEIVE'')])],
     bindingOwners = [(''0xa'', ''u''), (''0xb'', ''u'')]\<rparr>"

text \<open>C15. The own-wallet pass does exactly what its rule says, on the whole ledger at once: a row that is a
  move between two bound wallets gets the internal-transfer payload with the key of its transfer, every
  other row (a user-edited one above all) is left as it is, the count is the number of rows that changed,
  and a second run writes nothing. It holds when no payload id of a row equals the storage id of another.\<close>

theorem own_links_correct:
  assumes "wf_store (transactions r)"
    and "\<forall>leg\<in>set (listForUser u r). names_only (listForUser u r) (row_id leg) leg"
  shows "listForUser u (fst (linkOwnWallets (mock_writer u) as (listForUser u r) r)) =
      map (rewritten (own_target as (listForUser u r))) (listForUser u r) \<and>
    snd (linkOwnWallets (mock_writer u) as (listForUser u r) r) = card {leg \<in> set (listForUser u r). own_target as (listForUser u r) leg \<noteq> None} \<and>
    linkOwnWallets (mock_writer u) as (listForUser u (fst (linkOwnWallets (mock_writer u) as (listForUser u r) r)))
      (fst (linkOwnWallets (mock_writer u) as (listForUser u r) r)) =
      (fst (linkOwnWallets (mock_writer u) as (listForUser u r) r), 0)"
proof -
  let ?L = "listForUser u r" and ?r = "fst (linkOwnWallets (mock_writer u) as (listForUser u r) r)"
  obtain W where W: "wf_store (transactions ?r)" "listForUser u ?r = map (rewrite_set (own_target as ?L) W) ?L"
    "snd (linkOwnWallets (mock_writer u) as ?L r) = card W" "W = {leg \<in> set ?L. own_target as ?L leg \<noteq> None}"
    by (rule mock.own_link_rows [OF assms(1), where as = as and u = u]) (use assms(2) mock_never_fails in auto)
  have after: "listForUser u ?r = map (rewritten (own_target as ?L)) ?L" using W(2) rewrite_all [OF W(4)] by simp
  have "names_only (listForUser u ?r) (row_id leg) leg" if leg: "leg \<in> set (listForUser u ?r)" for leg
  proof -
    obtain x where x: "x \<in> set ?L" "leg = rewritten (own_target as ?L) x" using leg unfolding after by auto
    show ?thesis
      using names_only_rewritten [OF own_target_keeps_id assms(2) [rule_format, OF x(1)] x(1) mock.rows_distinct [OF assms(1)]]
      by (simp add: after x(2))
  qed
  note names = this
  obtain V where V: "V \<subseteq> {leg \<in> set (listForUser u ?r). own_target as (listForUser u ?r) leg \<noteq> None}"
    "snd (linkOwnWallets (mock_writer u) as (listForUser u ?r) ?r) = card V"
    "V = {} \<Longrightarrow> fst (linkOwnWallets (mock_writer u) as (listForUser u ?r) ?r) = ?r"
    by (rule mock.own_link_rows [OF W(1), where as = as and u = u]) (use names in auto)
  have "V = {}" using V(1) own_target_again [OF after] by (auto simp: after)
  then have "linkOwnWallets (mock_writer u) as (listForUser u ?r) ?r = (?r, 0)"
    using V(2,3) by (simp add: prod_eq_iff)
  then show ?thesis using after W(3,4) by simp
qed

lemma own_repo_ok:
  "wf_store (transactions own_repo)"
  "\<forall>leg\<in>set (listForUser ''u'' own_repo). names_only (listForUser ''u'' own_repo) (row_id leg) leg"
proof -
  show "wf_store (transactions own_repo)"
    by (simp add: wf_store_def own_repo_def own_leg_def row_key_def)
  have L: "listForUser ''u'' own_repo = [own_leg ''r1'' ''0xa'' ''0xb'' ''OUT'' [], own_leg ''r2'' ''0xb'' ''0xa'' ''IN'' [],
      own_leg ''r3'' ''0xb'' ''0xa'' ''IN'' [(''user_override'', VStr ''RECEIVE'')]]"
    by (simp add: listForUser_def own_repo_def own_leg_def sort_by_def)
  show "\<forall>leg\<in>set (listForUser ''u'' own_repo). names_only (listForUser ''u'' own_repo) (row_id leg) leg"
    unfolding L by (simp add: names_only_def addresses_def own_leg_def pget_def)
qed

theorem own_links_correct_witness:
  "snd (linkOwnWallets (mock_writer ''u'') [''0xA '', ''0xb''] (listForUser ''u'' own_repo) own_repo) = 2"
proof -
  have "snd (linkOwnWallets (mock_writer ''u'') [''0xA '', ''0xb''] (listForUser ''u'' own_repo) own_repo) =
      card {leg \<in> set (listForUser ''u'' own_repo). own_target [''0xA '', ''0xb''] (listForUser ''u'' own_repo) leg \<noteq> None}"
    using own_links_correct [OF own_repo_ok, of "[''0xA '', ''0xb'']"] by (rule conjunct2 [THEN conjunct1])
  also have "{leg \<in> set (listForUser ''u'' own_repo). own_target [''0xA '', ''0xb''] (listForUser ''u'' own_repo) leg \<noteq> None} =
      set (filter (\<lambda>leg. own_target [''0xA '', ''0xb''] (listForUser ''u'' own_repo) leg \<noteq> None) (listForUser ''u'' own_repo))"
    by simp
  also have "card \<dots> = length (remdups (filter (\<lambda>leg. own_target [''0xA '', ''0xb''] (listForUser ''u'' own_repo) leg \<noteq> None) (listForUser ''u'' own_repo)))"
    by (rule card_set)
  also have "\<dots> = 2" by code_simp
  finally show ?thesis .
qed

text \<open>A pairing key is given to exactly two rows of opposite direction. When the pass gives a leg a
  group, the rows of its transfer are one OUT and one IN, stored under different ids; they carry the same
  chain, transaction, slot, asset and amount, and they get the same group.\<close>

theorem own_pair_exact:
  assumes "leg \<in> set all" "isOwnMove (boundSet as) leg" "bucket_group (bucket_of (boundSet as) all leg) = Some g"
  shows "\<exists>out inn. filter (has_direction ''OUT'') (bucket_of (boundSet as) all leg) = [out] \<and>
    filter (has_direction ''IN'') (bucket_of (boundSet as) all leg) = [inn] \<and> row_id out \<noteq> row_id inn \<and>
    transferKey out = transferKey inn \<and> g = groupIdOf out \<and> (leg = out \<or> leg = inn) \<and> isOwnTransferGroup (VStr g)"
proof -
  obtain out inn where p: "filter (has_direction ''OUT'') (bucket_of (boundSet as) all leg) = [out]"
    "filter (has_direction ''IN'') (bucket_of (boundSet as) all leg) = [inn]" "row_id out \<noteq> row_id inn" "g = groupIdOf out"
    using assms(3) unfolding bucket_group_def by (auto split: list.splits if_splits)
  have mem: "out \<in> set (bucket_of (boundSet as) all leg)" "inn \<in> set (bucket_of (boundSet as) all leg)"
    using p(1,2) by (metis filter_is_subset list.set_intros(1) subsetD)+
  have dir: "has_direction ''OUT'' leg \<or> has_direction ''IN'' leg"
    using assms(2) by (auto simp: isOwnMove_def has_direction_def Let_def split: if_splits)
  have "leg \<in> set (bucket_of (boundSet as) all leg)" using assms(1,2) by (simp add: bucket_of_def)
  then have "leg \<in> set [out] \<or> leg \<in> set [inn]" using dir unfolding p(1,2) [symmetric] by auto
  moreover have "transferKey out = transferKey inn" using mem by (simp add: bucket_of_def)
  moreover have "isOwnTransferGroup (VStr g)"
    by (simp add: p(4) groupIdOf_def isOwnTransferGroup_def startsWith_def Let_def)
  ultimately show ?thesis using p by (intro exI [of _ out] exI [of _ inn]) simp
qed

theorem own_pair_exact_witness:
  "\<exists>out inn. filter (has_direction ''OUT'') (bucket_of (boundSet [''0xA '', ''0xb'']) (listForUser ''u'' own_repo)
      (own_leg ''r1'' ''0xa'' ''0xb'' ''OUT'' [])) = [out] \<and> row_id out \<noteq> row_id inn \<and> transferKey out = transferKey inn"
proof -
  have "own_leg ''r1'' ''0xa'' ''0xb'' ''OUT'' [] \<in> set (listForUser ''u'' own_repo)"
    by (simp add: listForUser_def own_repo_def own_leg_def sort_by_def)
  moreover have "isOwnMove (boundSet [''0xA '', ''0xb'']) (own_leg ''r1'' ''0xa'' ''0xb'' ''OUT'' [])" by code_simp
  moreover have "bucket_group (bucket_of (boundSet [''0xA '', ''0xb'']) (listForUser ''u'' own_repo) (own_leg ''r1'' ''0xa'' ''0xb'' ''OUT'' [])) =
      Some ''own:1:0x1:7''" by code_simp
  ultimately show ?thesis using own_pair_exact [of "own_leg ''r1'' ''0xa'' ''0xb'' ''OUT'' []"] by blast
qed

text \<open>Unbinding a wallet undoes its moves completely. After the undo no row is left that claims an internal
  transfer with the removed address on the strength of this pass; the rows it undid are booked by their
  direction again and have no pairing key, and every other row, user-edited ones included, is unchanged.\<close>

theorem own_unlink_complete:
  assumes "wf_store (transactions r)" "lower (VStr a) = Some removed"
    and "\<forall>leg\<in>set (listForUser u r). names_only (listForUser u r) (row_id leg) leg"
  shows "listForUser u (fst (unlinkCounterparty (mock_writer u) a (listForUser u r) r)) =
      map (\<lambda>leg. if unlinkable removed (row_payload leg) then leg\<lparr>row_payload := unlinked_payload (row_payload leg)\<rparr> else leg) (listForUser u r) \<and>
    snd (unlinkCounterparty (mock_writer u) a (listForUser u r) r) = card {leg \<in> set (listForUser u r). unlinkable removed (row_payload leg)} \<and>
    list_all (\<lambda>leg. \<not> unlinkable removed (row_payload leg)) (listForUser u (fst (unlinkCounterparty (mock_writer u) a (listForUser u r) r)))"
proof -
  have run: "unlinkCounterparty (mock_writer u) a (listForUser u r) r =
      foldl (unlink_leg (mock_writer u) removed) (r, 0) (listForUser u r)"
    by (simp add: unlinkCounterparty_def assms(2))
  have f: "rewritten (unlink_target removed) leg =
      (if unlinkable removed (row_payload leg) then leg\<lparr>row_payload := unlinked_payload (row_payload leg)\<rparr> else leg)" for leg
    by (simp add: rewritten_def unlink_target_def)
  note rows = mock.unlink_rows [OF assms(1) mock_never_fails, of u removed]
  have all: "list_all (\<lambda>leg. \<not> unlinkable removed (row_payload leg)) (map (rewritten (unlink_target removed)) (listForUser u r))"
    by (simp add: list_all_iff unlink_settles)
  show ?thesis
    unfolding run f [symmetric] using rows assms(3) all by simp
qed

definition linked_repo :: mock_repo where
  "linked_repo = \<lparr>transactions = [(''r1'', own_leg ''r1'' ''0xa'' ''0xb'' ''OUT'' [(''classification'', VStr ''INTERNAL_TRANSFER'')]),
      (''r3'', own_leg ''r3'' ''0xa'' ''0xb'' ''IN'' [(''user_override'', VStr ''INTERNAL_TRANSFER''), (''classification'', VStr ''INTERNAL_TRANSFER'')])],
     bindingOwners = [(''0xa'', ''u'')]\<rparr>"

theorem own_unlink_complete_witness:
  "snd (unlinkCounterparty (mock_writer ''u'') '' 0xB'' (listForUser ''u'' linked_repo) linked_repo) = 1"
proof -
  have wf: "wf_store (transactions linked_repo)"
    by (simp add: wf_store_def linked_repo_def own_leg_def row_key_def)
  have L: "listForUser ''u'' linked_repo = map snd (transactions linked_repo)"
    by (simp add: listForUser_def linked_repo_def own_leg_def sort_by_def)
  have n: "\<forall>leg\<in>set (listForUser ''u'' linked_repo). names_only (listForUser ''u'' linked_repo) (row_id leg) leg"
    unfolding L by (simp add: names_only_def addresses_def own_leg_def linked_repo_def pget_def)
  have l: "lower (VStr '' 0xB'') = Some ''0xb''" by code_simp
  have "card {leg \<in> set (listForUser ''u'' linked_repo). unlinkable ''0xb'' (row_payload leg)} =
      card (set (filter (\<lambda>leg. unlinkable ''0xb'' (row_payload leg)) (listForUser ''u'' linked_repo)))" by simp
  also have "\<dots> = length (remdups (filter (\<lambda>leg. unlinkable ''0xb'' (row_payload leg)) (listForUser ''u'' linked_repo)))"
    by (rule card_set)
  also have "\<dots> = 1" by code_simp
  finally have "card {leg \<in> set (listForUser ''u'' linked_repo). unlinkable ''0xb'' (row_payload leg)} = 1" .
  with own_unlink_complete [OF wf l n, THEN conjunct2, THEN conjunct1] show ?thesis by simp
qed

section \<open>Bridges\<close>

definition edge :: "transaction_record \<Rightarrow> transaction_record \<Rightarrow> link_kind \<Rightarrow> bool" where
  "edge out inn k \<longleftrightarrow> pairKind out inn = Inr (Some k)"

definition edges_of :: "transaction_record \<Rightarrow> transaction_record list \<Rightarrow> (transaction_record \<times> link_kind) list" where
  "edges_of out ins = concat (map (\<lambda>inn. case pairKind out inn of Inr (Some k) \<Rightarrow> [(inn, k)] | _ \<Rightarrow> []) ins)"

lemma edges_of_mem: "(inn, k) \<in> set (edges_of out ins) \<longleftrightarrow> inn \<in> set ins \<and> edge out inn k"
  by (auto simp: edges_of_def edge_def split: sum.splits option.splits)

lemma matches_edges: "matches_of out ins = Inr ms \<Longrightarrow> ms = edges_of out ins"
  by (induction ins arbitrary: ms) (auto simp: edges_of_def split: option.splits)

lemma matches_total: "(\<exists>ms. matches_of out ins = Inr ms) \<longleftrightarrow> (\<forall>inn\<in>set ins. \<exists>k. pairKind out inn = Inr k)"
  by (induction ins) auto

lemma graph_total: "(\<exists>g'. build_graph ins g outs = Inr g') \<longleftrightarrow> (\<forall>out\<in>set outs. \<forall>inn\<in>set ins. \<exists>k. pairKind out inn = Inr k)"
proof (induction outs arbitrary: g)
  case (Cons out outs)
  have "(\<exists>g'. build_graph ins g (out # outs) = Inr g') \<longleftrightarrow>
    (\<exists>ms. matches_of out ins = Inr ms) \<and> (\<forall>out\<in>set outs. \<forall>inn\<in>set ins. \<exists>k. pairKind out inn = Inr k)"
    using Cons.IH by auto
  then show ?case unfolding matches_total by auto
qed simp

text \<open>How often an IN leg's id is counted.\<close>

definition tally_in :: "string \<Rightarrow> (transaction_record \<times> link_kind) list \<Rightarrow> nat" where
  "tally_in i ms = length (filter (\<lambda>m. payload_id (fst m) = i) ms)"

definition get0 :: "(string, nat) jmap \<Rightarrow> string \<Rightarrow> nat" where
  "get0 m i = (case mget m i of Some n \<Rightarrow> n | None \<Rightarrow> 0)"

lemma get0_count_in: "get0 (count_in m x) i = get0 m i + (if payload_id (fst x) = i then 1 else 0)"
  by (simp add: count_in_def get0_def map_of_update split: option.splits)

lemma count_fold: "get0 (foldl count_in m ms) i = get0 m i + tally_in i ms"
  by (induction ms rule: rev_induct) (simp_all add: tally_in_def get0_count_in)

lemma graph_counts:
  "build_graph ins g outs = Inr g' \<Longrightarrow>
   get0 (eligibleOutCountByIn g') i = get0 (eligibleOutCountByIn g) i + (\<Sum>out\<leftarrow>outs. tally_in i (edges_of out ins))"
proof (induction outs arbitrary: g)
  case (Cons out outs)
  then obtain ms where m: "matches_of out ins = Inr ms" by auto
  note e = matches_edges [OF m]
  from Cons.prems m have "build_graph ins \<lparr>eligibleInsByOut = mput (payload_id out) ms (eligibleInsByOut g),
       eligibleOutCountByIn = foldl count_in (eligibleOutCountByIn g) ms\<rparr> outs = Inr g'" by auto
  from Cons.IH [OF this] show ?case by (simp add: count_fold e)
qed simp

lemma graph_edges:
  "build_graph ins g outs = Inr g' \<Longrightarrow> distinct (map payload_id outs) \<Longrightarrow>
   (\<forall>out\<in>set outs. mget (eligibleInsByOut g') (payload_id out) = Some (edges_of out ins)) \<and>
   (\<forall>i. i \<notin> payload_id ` set outs \<longrightarrow> mget (eligibleInsByOut g') i = mget (eligibleInsByOut g) i)"
proof (induction outs arbitrary: g)
  case (Cons out outs)
  then obtain ms where m: "matches_of out ins = Inr ms" by auto
  note e = matches_edges [OF m]
  from Cons.prems m have "build_graph ins \<lparr>eligibleInsByOut = mput (payload_id out) ms (eligibleInsByOut g),
       eligibleOutCountByIn = foldl count_in (eligibleOutCountByIn g) ms\<rparr> outs = Inr g'" "distinct (map payload_id outs)" by auto
  from Cons.IH [OF this] Cons.prems(2) show ?case by (auto simp: e map_of_update)
qed simp

definition empty_graph :: bridge_graph where
  "empty_graph = \<lparr>eligibleInsByOut = [], eligibleOutCountByIn = []\<rparr>"

lemma sum_list_one:
  assumes "(\<Sum>x\<leftarrow>xs. f x) = (1::nat)" "a \<in> set xs" "b \<in> set xs" "0 < f a" "0 < f b"
  shows "a = b"
proof (rule ccontr)
  assume "a \<noteq> b"
  obtain ys zs where xs: "xs = ys @ a # zs" using assms(2) by (meson split_list)
  then have "b \<in> set (ys @ zs)" using assms(3) \<open>a \<noteq> b\<close> by auto
  then have "f b \<le> (\<Sum>x\<leftarrow>ys @ zs. f x)" by (intro member_le_sum_list) auto
  then show False using assms(1,4,5) xs by simp
qed

lemma isolated_edge:
  assumes "build_graph ins empty_graph outs = Inr g" "distinct (map payload_id outs)" "out \<in> set outs"
    and "isolated_pair g out = Some (inn, k)"
  shows "inn \<in> set ins" "edge out inn k"
    "\<And>inn' k'. inn' \<in> set ins \<Longrightarrow> edge out inn' k' \<Longrightarrow> inn' = inn"
    "\<And>out' inn' k'. out' \<in> set outs \<Longrightarrow> inn' \<in> set ins \<Longrightarrow> payload_id inn' = payload_id inn \<Longrightarrow> edge out' inn' k' \<Longrightarrow> out' = out"
proof -
  have e: "edges_of out ins = [(inn, k)]" and c: "mget (eligibleOutCountByIn g) (payload_id inn) = Some 1"
    using assms(4) graph_edges [OF assms(1,2), THEN conjunct1] assms(3)
    by (auto simp: isolated_pair_def split: list.splits if_splits)
  show "inn \<in> set ins" "edge out inn k" using edges_of_mem [of inn k out ins] by (simp_all add: e)
  show "inn' = inn" if "inn' \<in> set ins" "edge out inn' k'" for inn' k'
    using edges_of_mem [of inn' k' out ins] that by (simp add: e)
  have s: "(\<Sum>out\<leftarrow>outs. tally_in (payload_id inn) (edges_of out ins)) = 1"
    using graph_counts [OF assms(1), of "payload_id inn"] c by (simp add: get0_def empty_graph_def)
  have pos: "0 < tally_in (payload_id inn) (edges_of out' ins)"
    if "inn' \<in> set ins" "payload_id inn' = payload_id inn" "edge out' inn' k'" for out' inn' k'
    using edges_of_mem [of inn' k' out' ins] that by (force simp: tally_in_def filter_empty_conv)
  show "out' = out" if "out' \<in> set outs" "inn' \<in> set ins" "payload_id inn' = payload_id inn" "edge out' inn' k'" for out' inn' k'
    using sum_list_one [OF s that(1) assms(3) pos [OF that(2-4)]] pos [OF \<open>inn \<in> set ins\<close> refl \<open>edge out inn k\<close>] by blast
qed

text \<open>The fee band, as amounts in whole units.\<close>

definition unit_amount :: "jobj \<Rightarrow> rat option" where
  "unit_amount p = (case (bridge_toBigInt (pget p ''raw_amount''), decimal_scale (pget p ''decimals'')) of
     (Some raw, Inr scale) \<Rightarrow> Some (of_int raw / of_int scale) | _ \<Rightarrow> None)"

lemma decimal_scale_pos: "decimal_scale v = Inr s \<Longrightarrow> 0 < s"
  by (auto simp: decimal_scale_def split: jnum.splits if_splits)

lemma fee_band:
  assumes "amountWithinFeeBand out inn = Inr True"
  obtains sent received where "unit_amount out = Some sent" "unit_amount inn = Some received" "0 < sent"
    "8 / 10 * sent \<le> received" "received \<le> 1005 / 1000 * sent"
proof -
  obtain o_raw i_raw where raw: "bridge_toBigInt (pget out ''raw_amount'') = Some o_raw"
    "bridge_toBigInt (pget inn ''raw_amount'') = Some i_raw" "0 < o_raw"
    using assms by (auto simp: amountWithinFeeBand_def split: option.splits if_splits)
  obtain o_s i_s where sc: "decimal_scale (pget out ''decimals'') = Inr o_s" "decimal_scale (pget inn ''decimals'') = Inr i_s"
    and le: "o_raw * i_s * FEE_LOWER \<le> i_raw * o_s * FEE_SCALE" "i_raw * o_s * FEE_SCALE \<le> o_raw * i_s * FEE_UPPER"
    using assms raw by (auto simp: amountWithinFeeBand_def Let_def split: if_splits)
  note pos = decimal_scale_pos [OF sc(1)] decimal_scale_pos [OF sc(2)]
  have "(of_int (o_raw * i_s * 800) :: rat) \<le> of_int (i_raw * o_s * 1000)"
    "(of_int (i_raw * o_s * 1000) :: rat) \<le> of_int (o_raw * i_s * 1005)"
    using le unfolding FEE_LOWER_def FEE_UPPER_def FEE_SCALE_def by (simp_all only: of_int_le_iff)
  then have band: "8 / 10 * (of_int o_raw / of_int o_s) \<le> (of_int i_raw / of_int i_s :: rat)"
    "(of_int i_raw / of_int i_s :: rat) \<le> 1005 / 1000 * (of_int o_raw / of_int o_s)"
    using pos by (simp_all add: field_simps)
  show thesis
  proof (rule that)
    show "unit_amount out = Some (of_int o_raw / of_int o_s)" "unit_amount inn = Some (of_int i_raw / of_int i_s)"
      by (simp_all add: unit_amount_def raw sc)
    show "(0 :: rat) < of_int o_raw / of_int o_s" using raw(3) pos by simp
  qed (rule band)+
qed

lemma edge_facts:
  assumes "edge out inn k"
  shows "payload_id inn \<noteq> payload_id out"
    "\<not> num_eq (js_Number (pget (row_payload inn) ''chain_id'')) (js_Number (pget (row_payload out) ''chain_id''))"
    "linkKind (row_payload out) (row_payload inn) = Some k" "withinWindow (row_occurredAt out) (row_occurredAt inn)"
    "amountWithinFeeBand (row_payload out) (row_payload inn) = Inr True"
  using assms by (auto simp: edge_def pairKind_def split: if_splits option.splits)

text \<open>The two legs of an isolated pair and what each gets.\<close>

definition pair_legs :: "bridge_graph \<Rightarrow> transaction_record \<Rightarrow> transaction_record list" where
  "pair_legs g out = (case isolated_pair g out of None \<Rightarrow> [] | Some (inn, k) \<Rightarrow> [out, inn])"

definition unless_linked :: "transaction_record \<Rightarrow> string \<Rightarrow> string \<Rightarrow> jnum option \<Rightarrow> jobj option" where
  "unless_linked leg groupId c dest =
     (if bridge_linked (row_payload leg) groupId c dest then None else Some (bridge_payload (row_payload leg) groupId c dest))"

definition pair_targets :: "bridge_graph \<Rightarrow> transaction_record \<Rightarrow> (transaction_record \<times> jobj option) list" where
  "pair_targets g out = (case isolated_pair g out of None \<Rightarrow> []
     | Some (inn, k) \<Rightarrow> [(out, unless_linked out (bridgeGroupId out) (OUT_CLASSIFICATION k) (Some (js_Number (pget (row_payload inn) ''chain_id'')))),
         (inn, unless_linked inn (bridgeGroupId out) (IN_CLASSIFICATION k) None)])"

definition bridge_target :: "bridge_graph \<Rightarrow> transaction_record list \<Rightarrow> transaction_record \<Rightarrow> jobj option" where
  "bridge_target g outs leg = (case map_of (concat (map (pair_targets g) outs)) leg of Some p \<Rightarrow> p | None \<Rightarrow> None)"

lemma pair_targets_legs: "map fst (pair_targets g out) = pair_legs g out"
  by (simp add: pair_targets_def pair_legs_def split: option.splits prod.splits)

lemma target_legs: "map fst (concat (map (pair_targets g) outs)) = concat (map (pair_legs g) outs)"
  by (induction outs) (simp_all add: pair_targets_legs)

lemma bridge_target_mem:
  assumes "distinct (concat (map (pair_legs g) outs))" "out \<in> set outs" "(leg, p) \<in> set (pair_targets g out)"
  shows "bridge_target g outs leg = p"
proof -
  have "map_of (concat (map (pair_targets g) outs)) leg = Some p"
    by (rule map_of_is_SomeI) (use assms in \<open>auto simp del: map_concat simp: target_legs\<close>)
  then show ?thesis by (simp add: bridge_target_def)
qed

lemma bridge_target_only: "bridge_target g outs leg \<noteq> None \<Longrightarrow> leg \<in> set (concat (map (pair_legs g) outs))"
  unfolding target_legs [symmetric] bridge_target_def set_map
  by (auto split: option.splits dest!: map_of_SomeD intro!: image_eqI [of leg fst])

lemma unless_linked_id: "unless_linked leg gr c d = Some p \<Longrightarrow> pget p ''id'' = pget (row_payload leg) ''id''"
  by (auto simp: unless_linked_def bridge_payload_def Let_def split: if_splits option.splits)

lemma bridge_target_keeps_id: "keeps_id (bridge_target g outs)"
  unfolding keeps_id_def
proof (intro allI impI)
  fix leg p assume "bridge_target g outs leg = Some p"
  then have "(leg, Some p) \<in> set (concat (map (pair_targets g) outs))"
    by (auto simp: bridge_target_def split: option.splits dest!: map_of_SomeD)
  then show "pget p ''id'' = pget (row_payload leg) ''id''"
    by (auto simp: pair_targets_def unless_linked_id split: option.splits)
qed

lemma distinct_concat_map:
  assumes "distinct xs" "\<And>x. x \<in> set xs \<Longrightarrow> distinct (h x)"
    and "\<And>x y z. x \<in> set xs \<Longrightarrow> y \<in> set xs \<Longrightarrow> z \<in> set (h x) \<Longrightarrow> z \<in> set (h y) \<Longrightarrow> x = y"
  shows "distinct (concat (map h xs))"
  using assms
proof (induction xs)
  case (Cons x xs)
  have "distinct (concat (map h xs))" by (rule Cons.IH) (use Cons.prems in auto)
  moreover have "set (h x) \<inter> set (concat (map h xs)) = {}"
    using Cons.prems(1) Cons.prems(3) [of x] by (fastforce)
  ultimately show ?case using Cons.prems(2) by simp
qed simp

lemma bridge_legs_direction:
  "out \<in> set (bridge_outs H all) \<Longrightarrow> has_direction ''OUT'' out \<and> \<not> isOverridden (row_payload out) \<and> out \<in> set all"
  "inn \<in> set (bridge_ins all) \<Longrightarrow> has_direction ''IN'' inn \<and> \<not> isOverridden (row_payload inn) \<and> inn \<in> set all"
  by (auto simp: bridge_outs_def bridge_ins_def isBridgeOutCandidate_def isLinkableIn_def has_direction_def isOverridden_def
      Let_def set_sort_by)

lemma direction_disjoint: "has_direction ''OUT'' leg \<Longrightarrow> \<not> has_direction ''IN'' leg"
  by (simp add: has_direction_def)

locale bridge_input =
  fixes H :: host and all :: "transaction_record list" and g :: bridge_graph
  assumes rows_once: "distinct all"
    and by_payload_id: "leg \<in> set (bridge_outs H all) \<union> set (bridge_ins all) \<Longrightarrow> names_only all (payload_id leg) leg"
    and graph: "build_graph (bridge_ins all) empty_graph (bridge_outs H all) = Inr g"
begin

abbreviation "outs \<equiv> bridge_outs H all"

abbreviation "ins \<equiv> bridge_ins all"

lemma payload_ids: "a \<in> set outs \<union> set ins \<Longrightarrow> b \<in> set outs \<union> set ins \<Longrightarrow> payload_id a = payload_id b \<Longrightarrow> a = b"
  using by_payload_id [of a] by_payload_id [of b] bridge_legs_direction by (metis Un_iff names_only_def)

lemma outs_distinct: "distinct outs" "distinct (map payload_id outs)"
proof -
  show d: "distinct outs"
    using rows_once by (metis bridge_outs_def distinct_filter mset_eq_imp_distinct_iff mset_sort_by)
  show "distinct (map payload_id outs)" using d payload_ids by (auto simp: distinct_map inj_on_def)
qed

lemmas isolated = isolated_edge [OF graph outs_distinct(2)]

lemma legs_distinct: "distinct (concat (map (pair_legs g) outs))"
proof (rule distinct_concat_map [OF outs_distinct(1)])
  fix out assume out: "out \<in> set outs"
  show "distinct (pair_legs g out)"
  proof (cases "isolated_pair g out")
    case (Some ik)
    then obtain inn k where ik: "isolated_pair g out = Some (inn, k)" by (cases ik) simp
    have "has_direction ''OUT'' out" "has_direction ''IN'' inn"
      using bridge_legs_direction(1) [OF out] bridge_legs_direction(2) [OF isolated(1) [OF out ik]] by simp_all
    then have "out \<noteq> inn" using direction_disjoint by auto
    then show ?thesis by (simp add: pair_legs_def ik)
  qed (simp add: pair_legs_def)
next
  fix a b z assume ab: "a \<in> set outs" "b \<in> set outs" and z: "z \<in> set (pair_legs g a)" "z \<in> set (pair_legs g b)"
  have two: "\<exists>inn k. isolated_pair g out = Some (inn, k) \<and> (z = out \<or> z = inn)" if "z \<in> set (pair_legs g out)" for out
    using that by (cases "isolated_pair g out") (auto simp: pair_legs_def)
  obtain ia ka ib kb where i: "isolated_pair g a = Some (ia, ka)" "isolated_pair g b = Some (ib, kb)" "z = a \<or> z = ia" "z = b \<or> z = ib"
    using two [OF z(1)] two [OF z(2)] by (elim exE conjE)
  note ia = isolated(1,2) [OF ab(1) i(1)] and ib = isolated(1,2) [OF ab(2) i(2)]
  have "has_direction ''OUT'' a" "has_direction ''OUT'' b" "has_direction ''IN'' ia" "has_direction ''IN'' ib"
    using bridge_legs_direction(1) [OF ab(1)] bridge_legs_direction(1) [OF ab(2)]
      bridge_legs_direction(2) [OF ia(1)] bridge_legs_direction(2) [OF ib(1)] by simp_all
  then have "a \<noteq> ib" "b \<noteq> ia" using direction_disjoint by auto
  then have "a = b \<or> ia = ib" using i(3,4) by blast
  then show "a = b"
  proof
    assume "ia = ib"
    then have "payload_id ia = payload_id ib" by simp
    then show "a = b" by (rule isolated(4) [OF ab(2) i(2) ab(1) ia(1) _ ia(2)])
  qed
qed

lemma pair_leg_of: "leg \<in> set (concat (map (pair_legs g) outs)) \<Longrightarrow> leg \<in> set outs \<union> set ins"
  by (auto simp: pair_legs_def split: option.splits dest: isolated(1) [OF _ sym])

lemma untouched: "isOverridden (row_payload leg) \<Longrightarrow> bridge_target g outs leg = None"
  using bridge_target_only pair_leg_of bridge_legs_direction by (metis Un_iff)

end

text \<open>With a writer that does not fail, linking one pair writes its two legs.\<close>

lemma apply_link_write:
  assumes "f leg = unless_linked leg gr c d"
    and "upd (payload_id leg) (bridge_payload (row_payload leg) gr c d) s \<noteq> None"
  shows "snd (applyLink upd leg gr c d s) = Some (fst (write_leg upd payload_id f (s, n) leg))"
  using assms by (auto simp: applyLink_def write_leg_def unless_linked_def)

lemma write_leg_fst: "fst (foldl (write_leg upd addr f) sc legs) = fst (foldl (write_leg upd addr f) (fst sc, 0) legs)"
proof (induction legs arbitrary: sc)
  case (Cons leg legs)
  have "fst (write_leg upd addr f sc leg) = fst (write_leg upd addr f (fst sc, 0) leg)"
    by (simp add: write_leg_def split: option.splits)
  then show ?case using Cons.IH [of "write_leg upd addr f sc leg"] Cons.IH [of "write_leg upd addr f (fst sc, 0) leg"] by simp
qed simp

context bridge_input
begin

lemma link_out_writes:
  assumes out: "out \<in> set outs" and total: "\<And>s i p. upd i p s \<noteq> None"
  shows "fst (link_out upd g sc out) = fst (foldl (write_leg upd payload_id (bridge_target g outs)) sc (pair_legs g out))"
proof (cases "isolated_pair g out")
  case (Some ik)
  then obtain inn k where ik: "isolated_pair g out = Some (inn, k)" by (cases ik) simp
  let ?f = "bridge_target g outs" and ?gr = "bridgeGroupId out" and ?d = "Some (js_Number (pget (row_payload inn) ''chain_id''))"
  have t: "?f out = unless_linked out ?gr (OUT_CLASSIFICATION k) ?d" "?f inn = unless_linked inn ?gr (IN_CLASSIFICATION k) None"
    by (rule bridge_target_mem [OF legs_distinct out]; simp add: pair_targets_def ik)+
  define s1 where "s1 = fst (write_leg upd payload_id ?f sc out)"
  have a1: "snd (applyLink upd out ?gr (OUT_CLASSIFICATION k) ?d (fst sc)) = Some s1"
    using apply_link_write [where f = ?f and n = "snd sc", OF t(1), of upd "fst sc"] total by (simp add: s1_def)
  have a2: "snd (applyLink upd inn ?gr (IN_CLASSIFICATION k) None s1) = Some (fst (write_leg upd payload_id ?f (s1, 0) inn))"
    by (rule apply_link_write [where f = ?f, OF t(2)]) (rule total)
  have "fst (link_out upd g sc out) = fst (write_leg upd payload_id ?f (s1, 0) inn)"
  proof -
    obtain b1 where b1: "applyLink upd out ?gr (OUT_CLASSIFICATION k) ?d (fst sc) = (b1, Some s1)" using a1 by (metis prod.collapse)
    obtain b2 where b2: "applyLink upd inn ?gr (IN_CLASSIFICATION k) None s1 = (b2, Some (fst (write_leg upd payload_id ?f (s1, 0) inn)))"
      using a2 by (metis prod.collapse)
    show ?thesis by (simp add: link_out_def ik b1 b2)
  qed
  also have "\<dots> = fst (foldl (write_leg upd payload_id ?f) sc (pair_legs g out))"
    using write_leg_fst [of upd payload_id ?f "write_leg upd payload_id ?f sc out" "[inn]"]
    by (simp add: pair_legs_def ik s1_def)
  finally show ?thesis .
qed (simp add: link_out_def pair_legs_def)

lemma link_outs_writes:
  assumes total: "\<And>s i p. upd i p s \<noteq> None" and "set os \<subseteq> set outs"
  shows "fst (foldl (link_out upd g) sc os) = fst (foldl (write_leg upd payload_id (bridge_target g outs)) sc (concat (map (pair_legs g) os)))"
  using assms(2)
proof (induction os arbitrary: sc)
  case (Cons out os)
  let ?w = "write_leg upd payload_id (bridge_target g outs)"
  have "fst (foldl (link_out upd g) (link_out upd g sc out) os) = fst (foldl ?w (link_out upd g sc out) (concat (map (pair_legs g) os)))"
    using Cons by simp
  also have "\<dots> = fst (foldl ?w (foldl ?w sc (pair_legs g out)) (concat (map (pair_legs g) os)))"
    using link_out_writes [of out upd sc] Cons.prems total write_leg_fst by (metis list.set_intros(1) subsetD)
  finally show ?case by simp
qed simp

lemma run: "linkBridges H upd all s = Inr (foldl (link_out upd g) (s, 0) outs)"
  using graph by (simp add: linkBridges_def empty_graph_def)

end

lemma bridge_rows:
  assumes "ledger_writer upd rows ok" "ok s" "\<And>s i p. upd i p s \<noteq> None" "bridge_input H (rows s) g"
  obtains s' n where "linkBridges H upd (rows s) s = Inr (s', n)" "ok s'"
    "rows s' = map (rewritten (bridge_target g (bridge_outs H (rows s)))) (rows s)"
proof -
  let ?outs = "bridge_outs H (rows s)" and ?legs = "concat (map (pair_legs g) (bridge_outs H (rows s)))"
  let ?f = "bridge_target g ?outs"
  note legs = bridge_input.pair_leg_of [OF assms(4)] and d = bridge_input.legs_distinct [OF assms(4)]
  have sub: "set ?legs \<subseteq> set (rows s)" using legs bridge_legs_direction by blast
  have names: "names_only (rows s) (payload_id leg) leg" if "leg \<in> set ?legs" for leg
    by (rule bridge_input.by_payload_id [OF assms(4) legs [OF that]])
  obtain W where W: "ok (fst (foldl (write_leg upd payload_id ?f) (s, 0) ?legs))"
    "rows (fst (foldl (write_leg upd payload_id ?f) (s, 0) ?legs)) = map (rewrite_set ?f W) (rows s)"
    "W = {leg \<in> set ?legs. ?f leg \<noteq> None}"
    by (rule ledger_writer.write_fold [OF assms(1,2) sub d bridge_target_keeps_id [of g ?outs] names])
      (use assms(3) in \<open>auto simp: ledger_writer.never_fails_def [OF assms(1)]\<close>)
  have "W = {leg \<in> set (rows s). ?f leg \<noteq> None}" using W(3) bridge_target_only [of g ?outs] sub by auto
  from rewrite_all [OF this]
  have r: "rows (fst (foldl (write_leg upd payload_id ?f) (s, 0) ?legs)) = map (rewritten ?f) (rows s)" using W(2) by simp
  have e: "fst (foldl (link_out upd g) (s, 0) ?outs) = fst (foldl (write_leg upd payload_id ?f) (s, 0) ?legs)"
    by (rule bridge_input.link_outs_writes [OF assms(4,3)]) simp
  have "linkBridges H upd (rows s) s =
      Inr (fst (foldl (write_leg upd payload_id ?f) (s, 0) ?legs), snd (foldl (link_out upd g) (s, 0) ?outs))"
    unfolding bridge_input.run [OF assms(4)] e [symmetric] by simp
  then show thesis using W(1) r by (rule that)
qed

section \<open>Properties of the bridge pass\<close>

definition bridge_leg_row :: "string \<Rightarrow> string \<Rightarrow> int \<Rightarrow> string \<Rightarrow> int \<Rightarrow> string \<Rightarrow> jobj \<Rightarrow> transaction_record" where
  "bridge_leg_row i pid ch dir t raw extra = \<lparr>row_id = i, bindingId = ''w'', txHash = i, row_eventType = ''transfer'', chain = int_str ch,
     row_payload = extra @ [(''id'', VStr pid), (''chain_id'', jint ch), (''tx_hash'', VStr i), (''asset_type'', VStr ''NATIVE''),
       (''symbol'', VStr ''ETH''), (''decimals'', jint 18), (''raw_amount'', VStr raw), (''direction'', VStr dir),
       (''bridge_suspected'', VBool True), (''classification'', VStr ''SEND'')], row_occurredAt = t\<rparr>"

definition bridge_out_row :: transaction_record where
  "bridge_out_row = bridge_leg_row ''r1'' ''p1'' 1 ''OUT'' 5 ''1000'' []"

definition bridge_in_row :: transaction_record where
  "bridge_in_row = bridge_leg_row ''r2'' ''p2'' 10 ''IN'' 9 ''990'' []"

definition sample_graph :: bridge_graph where
  "sample_graph = \<lparr>eligibleInsByOut = [(''p1'', [(bridge_in_row, Transfer)])], eligibleOutCountByIn = [(''p2'', 1)]\<rparr>"

definition bridge_repo :: mock_repo where
  "bridge_repo = \<lparr>transactions = [(''r1'', bridge_out_row), (''r2'', bridge_in_row)], bindingOwners = [(''w'', ''u'')]\<rparr>"

lemma bridge_sample:
  "listForUser ''u'' bridge_repo = [bridge_out_row, bridge_in_row]"
  "bridge_outs H [bridge_out_row, bridge_in_row] = [bridge_out_row]"
  "bridge_ins [bridge_out_row, bridge_in_row] = [bridge_in_row]"
  "build_graph [bridge_in_row] empty_graph [bridge_out_row] = Inr sample_graph"
  "isolated_pair sample_graph bridge_out_row = Some (bridge_in_row, Transfer)"
proof -
  show "listForUser ''u'' bridge_repo = [bridge_out_row, bridge_in_row]"
    by (simp add: listForUser_def bridge_repo_def bridge_out_row_def bridge_in_row_def bridge_leg_row_def sort_by_def)
  have c: "isBridgeOutCandidate bridge_out_row" "\<not> isBridgeOutCandidate bridge_in_row" by code_simp+
  then show "bridge_outs H [bridge_out_row, bridge_in_row] = [bridge_out_row]" by (simp add: bridge_outs_def sort_by_def)
  have "\<not> has_direction ''IN'' bridge_out_row" "has_direction ''IN'' bridge_in_row" "isLinkableIn bridge_in_row" by code_simp+
  then show "bridge_ins [bridge_out_row, bridge_in_row] = [bridge_in_row]" by (simp add: bridge_ins_def)
  have k: "pairKind bridge_out_row bridge_in_row = Inr (Some Transfer)" by code_simp
  have p: "payload_id bridge_out_row = ''p1''" "payload_id bridge_in_row = ''p2''" by code_simp+
  show "build_graph [bridge_in_row] empty_graph [bridge_out_row] = Inr sample_graph"
    by (simp add: k p empty_graph_def sample_graph_def count_in_def)
  show "isolated_pair sample_graph bridge_out_row = Some (bridge_in_row, Transfer)" by code_simp
qed

lemma bridge_sample_names: "\<forall>leg\<in>set [bridge_out_row, bridge_in_row]. names_only [bridge_out_row, bridge_in_row] (payload_id leg) leg"
proof -
  have p: "payload_id bridge_out_row = ''p1''" "payload_id bridge_in_row = ''p2''" by code_simp+
  show ?thesis
    by (simp add: p) (simp add: names_only_def addresses_def bridge_out_row_def bridge_in_row_def bridge_leg_row_def pget_def)
qed

interpretation sample_bridge: bridge_input std_host "[bridge_out_row, bridge_in_row]" sample_graph
proof (rule bridge_input.intro)
  show "distinct [bridge_out_row, bridge_in_row]" by (simp add: bridge_out_row_def bridge_in_row_def bridge_leg_row_def)
  show "names_only [bridge_out_row, bridge_in_row] (payload_id leg) leg"
    if "leg \<in> set (bridge_outs std_host [bridge_out_row, bridge_in_row]) \<union> set (bridge_ins [bridge_out_row, bridge_in_row])" for leg
    using that bridge_sample_names unfolding bridge_sample by (metis UnE list.set_intros set_ConsD empty_iff empty_set)
  show "build_graph (bridge_ins [bridge_out_row, bridge_in_row]) empty_graph (bridge_outs std_host [bridge_out_row, bridge_in_row]) = Inr sample_graph"
    by (simp only: bridge_sample)
qed

text \<open>A bridge is only ever recognised between one OUT and one IN that prove it. When the graph of
  eligible pairs makes an edge isolated, its OUT is a suspected, unedited, ungrouped leg, its IN an unedited
  one; they lie on different chains, resolve to the same canonical asset or to two canonical dollar coins,
  the IN comes within six hours after the OUT and brings between 80 and 100.5 per cent of the amount; and
  no other leg of the ledger is eligible for either of them.\<close>

theorem bridge_pairs_sound:
  assumes "build_graph (bridge_ins all) empty_graph (bridge_outs H all) = Inr g" "distinct (map payload_id (bridge_outs H all))"
    and "out \<in> set (bridge_outs H all)" "isolated_pair g out = Some (inn, k)"
  shows "out \<in> set all \<and> inn \<in> set all \<and> isBridgeOutCandidate out \<and> has_direction ''IN'' inn \<and> isLinkableIn inn \<and>
    \<not> num_eq (js_Number (pget (row_payload inn) ''chain_id'')) (js_Number (pget (row_payload out) ''chain_id'')) \<and>
    linkKind (row_payload out) (row_payload inn) = Some k \<and>
    row_occurredAt out \<le> row_occurredAt inn \<and> row_occurredAt inn \<le> row_occurredAt out + LINK_WINDOW_MS \<and>
    (\<exists>sent received. unit_amount (row_payload out) = Some sent \<and> unit_amount (row_payload inn) = Some received \<and>
      0 < sent \<and> 8 / 10 * sent \<le> received \<and> received \<le> 1005 / 1000 * sent) \<and>
    (\<forall>inn'\<in>set (bridge_ins all). \<forall>k'. edge out inn' k' \<longrightarrow> inn' = inn) \<and>
    (\<forall>out'\<in>set (bridge_outs H all). \<forall>k'. edge out' inn k' \<longrightarrow> out' = out)"
proof -
  note iso = isolated_edge [OF assms]
  note e = edge_facts [OF iso(2)]
  have o: "out \<in> set all" "isBridgeOutCandidate out" using assms(3) by (auto simp: bridge_outs_def set_sort_by)
  have i: "inn \<in> set all" "has_direction ''IN'' inn" "isLinkableIn inn" using iso(1) by (auto simp: bridge_ins_def)
  obtain sent received where "unit_amount (row_payload out) = Some sent" "unit_amount (row_payload inn) = Some received"
    "0 < sent" "8 / 10 * sent \<le> received" "received \<le> 1005 / 1000 * sent" by (rule fee_band [OF e(5)])
  then have band: "\<exists>sent received. unit_amount (row_payload out) = Some sent \<and> unit_amount (row_payload inn) = Some received \<and>
      0 < sent \<and> 8 / 10 * sent \<le> received \<and> received \<le> 1005 / 1000 * sent" by blast
  have w: "row_occurredAt out \<le> row_occurredAt inn" "row_occurredAt inn \<le> row_occurredAt out + LINK_WINDOW_MS"
    using e(4) by (simp_all add: withinWindow_def)
  show ?thesis
    using o i e(2,3) band w iso(3) iso(4) [OF _ iso(1) refl] by blast
qed

theorem bridge_pairs_sound_witness:
  "linkKind (row_payload bridge_out_row) (row_payload bridge_in_row) = Some Transfer \<and>
   row_occurredAt bridge_in_row \<le> row_occurredAt bridge_out_row + LINK_WINDOW_MS"
proof -
  have "build_graph (bridge_ins [bridge_out_row, bridge_in_row]) empty_graph (bridge_outs std_host [bridge_out_row, bridge_in_row]) = Inr sample_graph"
    by (simp only: bridge_sample)
  moreover have "distinct (map payload_id (bridge_outs std_host [bridge_out_row, bridge_in_row]))"
    "bridge_out_row \<in> set (bridge_outs std_host [bridge_out_row, bridge_in_row])" by (simp_all add: bridge_sample)
  ultimately show ?thesis
    using bridge_pairs_sound [OF _ _ _ bridge_sample(5), of "[bridge_out_row, bridge_in_row]" std_host] by blast
qed





text \<open>What a linked pair means to the cost engine. Two legs carrying the transfer payloads of one group
  are a bridge pair of the engine, so their cost moves from the one to the other; two legs linked as a swap
  of stable coins are not, so the disposal stays taxable, although they carry the same group.\<close>

theorem linked_pair_cost:
  assumes "payload tout = bridge_payload pout grp (OUT_CLASSIFICATION k) d" "payload tin = bridge_payload pin grp (IN_CLASSIFICATION k) None"
    and "grp \<noteq> []" "directionOf pout = OUT" "directionOf pin = IN" "positive_qty H pout" "positive_qty H pin"
    and "idOf tout \<noteq> idOf tin"
  shows "scanBridgePairs H [tout, tin] = (case k of
      Transfer \<Rightarrow> \<lparr>scan_pairs = [(grp, \<lparr>outId = idOf tout, inId = idOf tin\<rparr>)], unmatchedOutIds = []\<rparr>
    | Swap \<Rightarrow> \<lparr>scan_pairs = [], unmatchedOutIds = []\<rparr>)"
proof -
  have get: "pget (bridge_payload p g c d) key = pget p key"
    if "key \<notin> {''classification'', ''confidence'', ''bridge_group_id'', ''bridge_dest_chain_id''}" for p g c d key
    using that by (simp add: bridge_payload_def Let_def split: option.splits)
  have cls: "pget (bridge_payload p g c d) ''classification'' = VStr c" "pget (bridge_payload p g c d) ''bridge_group_id'' = VStr g" for p g c d
    by (simp_all add: bridge_payload_def Let_def split: option.splits)
  have q: "directionOf (bridge_payload p g c d) = directionOf p" "positive_qty H (bridge_payload p g c d) = positive_qty H p" for p g c d
    by (simp_all add: directionOf_def positive_qty_def quantityOf_def get Let_def)
  show ?thesis
    using assms(3-) by (cases k)
      (simp_all add: scanBridgePairs_def scan_leg_def [of H] assms(1,2) q bridgeGroupOf_def cls nonempty_str_def OUT_CLASSIFICATION_def
        IN_CLASSIFICATION_def scan_group_def movable_def Let_def)
qed

definition linked_tx :: "string \<Rightarrow> string \<Rightarrow> transaction_record \<Rightarrow> taxable_transaction" where
  "linked_tx i c leg = \<lparr>tx_id = i, eventType = ''transfer'', occurredAt = AtText [],
     payload = bridge_payload (pput ''decimals'' (jint 0) (row_payload leg)) ''g'' c None\<rparr>"

theorem linked_pair_cost_witness:
  "scanBridgePairs std_host [linked_tx ''a'' ''INTERNAL_TRANSFER'' bridge_out_row, linked_tx ''b'' ''INTERNAL_TRANSFER'' bridge_in_row] =
    \<lparr>scan_pairs = [(''g'', \<lparr>outId = ''p1'', inId = ''p2''\<rparr>)], unmatchedOutIds = []\<rparr>"
proof -
  let ?p = "\<lambda>leg. pput ''decimals'' (jint 0) (row_payload leg)"
  have pay: "payload (linked_tx ''a'' ''INTERNAL_TRANSFER'' bridge_out_row) = bridge_payload (?p bridge_out_row) ''g'' (OUT_CLASSIFICATION Transfer) None"
    "payload (linked_tx ''b'' ''INTERNAL_TRANSFER'' bridge_in_row) = bridge_payload (?p bridge_in_row) ''g'' (IN_CLASSIFICATION Transfer) None"
    by (simp_all add: linked_tx_def OUT_CLASSIFICATION_def IN_CLASSIFICATION_def)
  have side: "''g'' \<noteq> []" "directionOf (?p bridge_out_row) = OUT" "directionOf (?p bridge_in_row) = IN"
    "positive_qty std_host (?p bridge_out_row)" "positive_qty std_host (?p bridge_in_row)"
    "idOf (linked_tx ''a'' ''INTERNAL_TRANSFER'' bridge_out_row) \<noteq> idOf (linked_tx ''b'' ''INTERNAL_TRANSFER'' bridge_in_row)"
    by code_simp+
  have ids: "idOf (linked_tx ''a'' ''INTERNAL_TRANSFER'' bridge_out_row) = ''p1''" "idOf (linked_tx ''b'' ''INTERNAL_TRANSFER'' bridge_in_row) = ''p2''"
    by code_simp+
  show ?thesis using linked_pair_cost [OF pay side] by (simp add: ids)
qed

definition shared_repo :: mock_repo where
  "shared_repo = \<lparr>transactions = [(''r1'', bridge_out_row),
      (''r0'', bridge_leg_row ''r0'' ''p2'' 10 ''OUT'' 9 ''990'' [(''user_override'', VStr ''SEND'')]), (''r2'', bridge_in_row)],
     bindingOwners = [(''w'', ''u'')]\<rparr>"

text \<open>Addressing a row by its payload id can destroy a user's edit. Two rows of one transfer, in two wallets
  of the user, share the payload id; the first was edited by the user. The bridge pass links the second, but
  the write lands on the first: its payload, override included, is replaced by the other row's, and the row
  that was to be linked is unchanged.\<close>

theorem bridge_overwrites_edit:
  "pget (row_payload (the (mget (transactions shared_repo) ''r0''))) ''user_override'' = VStr ''SEND'' \<and>
   (case linkBridges std_host (mock_writer ''u'') (listForUser ''u'' shared_repo) shared_repo of
      Inl _ \<Rightarrow> False
    | Inr (r', _) \<Rightarrow> pget (row_payload (the (mget (transactions r') ''r0''))) ''user_override'' = VUndef \<and>
        pget (row_payload (the (mget (transactions r') ''r0''))) ''direction'' = VStr ''IN'' \<and>
        mget (transactions r') ''r2'' = Some bridge_in_row)"
  by code_simp

end
