(* ===== verification/SyncWorld.thy ===== *)
theory SyncWorld
  imports IndexerSync Linking_Properties
begin

text \<open>
  The services of a synchronisation put together as \<open>indexer.module.ts\<close> does without a database: the real scan, the
  in-memory transaction and cursor repositories, and the two linking passes. Prices and anchors, which the
  module takes from services outside this development, do nothing here.
\<close>

record sync_world =
  ledger :: mock_repo
  cursorRows :: cursor_store
  sources :: blocked_sources
  wallets :: "(string, binding_record list) jmap"

definition world_cursor :: "sync_world \<Rightarrow> string \<Rightarrow> int \<Rightarrow> chain_cursor option" where
  "world_cursor w b c = mget (cursorRows w) (cursor_key b c)"

definition adapter_scan :: "host \<Rightarrow> rpc_env \<Rightarrow> sync_world sync_state scan_hooks \<Rightarrow> string \<Rightarrow> (int, nat) jmap \<Rightarrow> sync_world sync_state \<Rightarrow>
    sync_world sync_state \<times> (http_error, chain_scan_result) result" where
  "adapter_scan H env hooks wallet since st = (case fetchTransactions H env hooks wallet since (sources (world st), st) of
     ((blocked, st'), r) \<Rightarrow> (st'\<lparr>world := (world st')\<lparr>sources := blocked\<rparr>\<rparr>, r))"

definition memory_services :: "host \<Rightarrow> rpc_env \<Rightarrow> (string list \<Rightarrow> string) \<Rightarrow> (indexed_transaction \<Rightarrow> string) \<Rightarrow> sync_world services" where
  "memory_services H env uuid hash = \<lparr>
     findAllByUser = (\<lambda>u w. case mget (wallets w) u of Some bs \<Rightarrow> bs | None \<Rightarrow> []),
     cursorsOf = (\<lambda>b w. Inr (listForBinding b (cursorRows w))),
     scan = adapter_scan H env,
     spotPrices = (\<lambda>rows w. (w, rows, None)),
     historicalPrices = (\<lambda>rows w. (w, rows, None)),
     anchorHash = hash,
     saveRows = (\<lambda>b u rows w. case save uuid b u rows (ledger w) of (r, stored) \<Rightarrow> (w\<lparr>ledger := r\<rparr>, [length stored], Inr stored)),
     purgeRows = (\<lambda>b u legs w. (w\<lparr>ledger := fst (deleteSupersededRows H b legs (ledger w))\<rparr>, None)),
     advanceCursor = (\<lambda>b c head rules w. (w\<lparr>cursorRows := advance b c head rules (cursorRows w)\<rparr>, None)),
     anchorStatus = (\<lambda>h w. Inr (Some ''anchored'')),
     submitAnchor = (\<lambda>h w. (w, None)),
     markAnchorFailed = (\<lambda>h w. (w, None)),
     markInitialSynced = (\<lambda>b w. (w, None)),
     linkOwn = (\<lambda>u w. (w\<lparr>ledger := fst (linkOwnWallets (mock_writer u)
         (map b_walletAddress (case mget (wallets w) u of Some bs \<Rightarrow> bs | None \<Rightarrow> [])) (listForUser u (ledger w)) (ledger w))\<rparr>, None)),
     linkBridge = (\<lambda>u w. case linkBridges H (mock_writer u) (listForUser u (ledger w)) (ledger w) of
         Inl m \<Rightarrow> (w, Some m) | Inr (r, n) \<Rightarrow> (w\<lparr>ledger := r\<rparr>, None)),
     clockOf = (\<lambda>w. 0)\<rparr>"

end
