(* ===== verification/SyncProgress_Properties.thy ===== *)
theory SyncProgress_Properties
  imports SyncProgress
begin

text \<open>
  What a viewer can rely on: a finished chain stays finished, and the snapshot last handed over shows the phase of
  every chain as it is now, although updates of the counters alone are throttled.
\<close>

section \<open>Shape of a tracker\<close>

definition tracker_ok :: "tracker \<Rightarrow> bool" where
  "tracker_ok t \<longleftrightarrow> (\<forall>b \<in> set (bindings t). \<forall>a \<in> set (bp_chains b). a < length (entries t)) \<and>
     (\<forall>k a. mget (key_index t) k = Some a \<longrightarrow> a < length (entries t))"

definition phases_of :: "progress_snapshot \<Rightarrow> (string \<times> sync_phase list) list" where
  "phases_of s = map (\<lambda>(b, _, cs). (b, map cp_phase cs)) (ps_bindings s)"

definition phases_now :: "tracker \<Rightarrow> (string \<times> sync_phase list) list" where
  "phases_now t = phases_of (snapshot 0 t)"

text \<open>The last snapshot handed over is up to date in its phases.\<close>

definition published :: "tracker \<Rightarrow> bool" where
  "published t \<longleftrightarrow> listening t \<longrightarrow> emitted t \<noteq> [] \<and> phases_of (last (emitted t)) = phases_now t"

lemma phases_snapshot: "phases_of (snapshot now t) = phases_now t"
  by (simp add: phases_of_def phases_now_def snapshot_def)

lemma publish_frame:
  "entries (publish now force t) = entries t" "bindings (publish now force t) = bindings t" "key_index (publish now force t) = key_index t"
  "listening (publish now force t) = listening t" "phases_now (publish now force t) = phases_now t"
  by (simp_all add: publish_def phases_now_def phases_of_def snapshot_def)

lemma publish_forced: "published (publish now True t)"
  using phases_snapshot [of now t] by (simp add: published_def publish_def phases_now_def snapshot_def phases_of_def)

lemma publish_keeps: "published t \<Longrightarrow> published (publish now force t)"
  using publish_forced [of now t] by (cases force) (auto simp: publish_def published_def phases_now_def phases_of_def snapshot_def)

lemma set_entry_frame:
  "entries (set_entry now a patch changed t) = (entries t)[a := patch (entries t ! a)]" "bindings (set_entry now a patch changed t) = bindings t"
  "key_index (set_entry now a patch changed t) = key_index t" "listening (set_entry now a patch changed t) = listening t"
  by (simp_all add: set_entry_def publish_frame)

lemma phases_unchanged:
  assumes "tracker_ok t" "cp_phase e = cp_phase (entries t ! a)"
  shows "phases_now (t\<lparr>entries := (entries t)[a := e]\<rparr>) = phases_now t"
proof -
  have "cp_phase ((entries t)[a := e] ! i) = cp_phase (entries t ! i)" if "i < length (entries t)" for i
    using that assms(2) by (cases "i = a") auto
  then show ?thesis using assms(1) by (auto simp: phases_now_def phases_of_def snapshot_def tracker_ok_def)
qed

lemma set_entry_published:
  assumes "tracker_ok t" "published t" "\<not> changed \<Longrightarrow> cp_phase (patch (entries t ! a)) = cp_phase (entries t ! a)"
  shows "published (set_entry now a patch changed t)"
proof (cases changed)
  case True
  then show ?thesis by (simp add: set_entry_def publish_forced)
next
  case False
  have "phases_now (t\<lparr>entries := (entries t)[a := patch (entries t ! a)]\<rparr>) = phases_now t"
    by (rule phases_unchanged [OF assms(1,3)]) (rule False)
  then have "published (t\<lparr>entries := (entries t)[a := patch (entries t ! a)]\<rparr>)"
    using assms(2) by (simp add: published_def)
  then show ?thesis by (simp add: set_entry_def publish_keeps)
qed

lemma set_entry_ok: "tracker_ok t \<Longrightarrow> tracker_ok (set_entry now a patch changed t)"
  by (simp add: tracker_ok_def set_entry_frame)

lemma handle_call_frame:
  "key_index (handle_call now a call t) = key_index t" "length (entries (handle_call now a call t)) = length (entries t)"
  by (cases call; simp add: set_entry_frame)+

lemma handle_call_ok: "tracker_ok t \<Longrightarrow> tracker_ok (handle_call now a call t)"
  by (cases call) (simp_all add: set_entry_ok)

lemma handle_call_published: "tracker_ok t \<Longrightarrow> published t \<Longrightarrow> published (handle_call now a call t)"
  by (cases call) (auto intro!: set_entry_published)

section \<open>Registration\<close>

definition has_key :: "tracker \<Rightarrow> string \<Rightarrow> int \<Rightarrow> bool" where
  "has_key t b c \<longleftrightarrow> mget (key_index t) (progress_key b c) \<noteq> None"

lemma register_chain_step:
  "register_chain b (t, addrs) c = (t\<lparr>entries := entries t @ [pending_entry c],
      key_index := mput (progress_key b c) (length (entries t)) (key_index t)\<rparr>, addrs @ [length (entries t)])"
  by (simp add: register_chain_def)

lemma register_chains:
  assumes "tracker_ok t" "\<forall>a \<in> set addrs. a < length (entries t)" "foldl (register_chain b) (t, addrs) cs = (t', addrs')"
  shows "tracker_ok t'" "\<forall>a \<in> set addrs'. a < length (entries t')" "bindings t' = bindings t" "c \<in> set cs \<or> has_key t b c \<Longrightarrow> has_key t' b c"
    "has_key t x y \<Longrightarrow> has_key t' x y" "listening t' = listening t"
proof -
  let ?P = "\<lambda>s. tracker_ok (fst s) \<and> (\<forall>a \<in> set (snd s). a < length (entries (fst s))) \<and> bindings (fst s) = bindings t \<and>
      (\<forall>x y. has_key t x y \<longrightarrow> has_key (fst s) x y) \<and> listening (fst s) = listening t"
  have "?P (foldl (register_chain b) (t, addrs) cs) \<and> (\<forall>c. c \<in> set cs \<longrightarrow> has_key (fst (foldl (register_chain b) (t, addrs) cs)) b c)"
  proof (induction cs rule: rev_induct)
    case Nil
    then show ?case using assms(1,2) by simp
  next
    case (snoc c cs)
    obtain t1 as1 where s: "foldl (register_chain b) (t, addrs) cs = (t1, as1)" by fastforce
    then show ?case using snoc.IH
      by (auto simp: register_chain_step tracker_ok_def has_key_def update_conv' less_Suc_eq split: if_splits)
  qed
  then show "tracker_ok t'" "\<forall>a \<in> set addrs'. a < length (entries t')" "bindings t' = bindings t" "c \<in> set cs \<or> has_key t b c \<Longrightarrow> has_key t' b c"
    "has_key t x y \<Longrightarrow> has_key t' x y" "listening t' = listening t"
    using assms(3) by auto
qed

lemma register_binding_ok:
  assumes "tracker_ok t"
  shows "tracker_ok (register_binding cs t b)" "c \<in> set cs \<Longrightarrow> has_key (register_binding cs t b) (fst b) c"
    "has_key t x y \<Longrightarrow> has_key (register_binding cs t b) x y" "listening (register_binding cs t b) = listening t"
proof -
  obtain t' addrs where f: "foldl (register_chain (fst b)) (t, []) cs = (t', addrs)" by fastforce
  have reg: "register_binding cs t b = t'\<lparr>bindings := bindings t' @ [\<lparr>bp_bindingId = fst b, bp_walletAddress = snd b, bp_chains = addrs\<rparr>]\<rparr>"
    by (simp add: register_binding_def f)
  note r = register_chains [OF assms _ f]
  show "tracker_ok (register_binding cs t b)" using r(1,2) by (auto simp: reg tracker_ok_def)
  show "c \<in> set cs \<Longrightarrow> has_key (register_binding cs t b) (fst b) c" using r(4) by (simp add: reg has_key_def)
  show "has_key t x y \<Longrightarrow> has_key (register_binding cs t b) x y" using r(5) by (simp add: reg has_key_def)
  show "listening (register_binding cs t b) = listening t" using r(6) by (simp add: reg)
qed

lemma new_tracker_ok:
  "tracker_ok (new_tracker now listens bs cs)" "published (new_tracker now listens bs cs)"
  "b \<in> set bs \<Longrightarrow> c \<in> set cs \<Longrightarrow> has_key (new_tracker now listens bs cs) (fst b) c"
proof -
  let ?t0 = "\<lparr>entries = [], bindings = [], key_index = [], lastEmittedAt = None, emitted = [], listening = listens\<rparr>"
  have "tracker_ok (foldl (register_binding cs) ?t0 bs) \<and> (\<forall>b \<in> set bs. \<forall>c \<in> set cs. has_key (foldl (register_binding cs) ?t0 bs) (fst b) c)"
  proof (induction bs rule: rev_induct)
    case Nil
    show ?case by (simp add: tracker_ok_def)
  next
    case (snoc b bs)
    then show ?case using register_binding_ok by auto
  qed
  then show "tracker_ok (new_tracker now listens bs cs)" "b \<in> set bs \<Longrightarrow> c \<in> set cs \<Longrightarrow> has_key (new_tracker now listens bs cs) (fst b) c"
    by (auto simp: new_tracker_def tracker_ok_def has_key_def publish_frame)
  show "published (new_tracker now listens bs cs)" by (simp add: new_tracker_def publish_forced)
qed

section \<open>Calls\<close>

lemma registered_call:
  "has_key t b c \<Longrightarrow> \<exists>a. mget (key_index t) (progress_key b c) = Some a \<and> progress_call_on now b c call t = handle_call now a call t"
  by (auto simp: has_key_def progress_call_on_def entry_at_def)

lemma call_ok:
  assumes "has_key t b c" "tracker_ok t" "published t"
  shows "tracker_ok (progress_call_on now b c call t)" "published (progress_call_on now b c call t)"
    "has_key t x y \<Longrightarrow> has_key (progress_call_on now b c call t) x y"
  using registered_call [OF assms(1), of now call] assms(2,3)
  by (auto simp: handle_call_ok handle_call_published has_key_def handle_call_frame)

text \<open>An entry that ended: only a later \<open>done\<close> touches it.\<close>

definition stays :: "chain_progress \<Rightarrow> chain_progress \<Rightarrow> bool" where
  "stays e e' \<longleftrightarrow> (terminal e \<longrightarrow> terminal e' \<and> cp_message e' = cp_message e \<and> (cp_phase e = Done \<longrightarrow> cp_phase e' = Done))"

lemma stays_trans: "stays e f \<Longrightarrow> stays f g \<Longrightarrow> stays e g"
  by (auto simp: stays_def)

lemma stays_refl: "stays e e"
  by (simp add: stays_def)

lemma handle_call_stays: "i < length (entries t) \<Longrightarrow> stays (entries t ! i) (entries (handle_call now a call t) ! i)"
  by (cases call; cases "a = i") (auto simp: stays_def set_entry_frame terminal_def nth_list_update)

lemma entry_at_frame:
  assumes "entry_at b c t = (a, t')"
  shows "i < length (entries t) \<Longrightarrow> entries t' ! i = entries t ! i" "length (entries t) \<le> length (entries t')"
  using assms by (auto simp: entry_at_def nth_append split: option.splits)

lemma call_stays:
  assumes "i < length (entries t)"
  shows "stays (entries t ! i) (entries (progress_call_on now b c call t) ! i)" "length (entries t) \<le> length (entries (progress_call_on now b c call t))"
proof -
  obtain a t' where e: "entry_at b c t = (a, t')" by fastforce
  note f = entry_at_frame [OF e]
  have "i < length (entries t')" using f(2) assms by simp
  from handle_call_stays [OF this, of now a call] show "stays (entries t ! i) (entries (progress_call_on now b c call t) ! i)"
    using f(1) [OF assms] by (simp add: progress_call_on_def e)
  show "length (entries t) \<le> length (entries (progress_call_on now b c call t))"
    using f(2) by (simp add: progress_call_on_def e handle_call_frame)
qed

lemma run_calls_snoc: "run_calls (calls @ [(now, b, c, call)]) t = progress_call_on now b c call (run_calls calls t)"
  by (simp add: run_calls_def)

lemma run_calls_stays:
  "i < length (entries t) \<Longrightarrow> stays (entries t ! i) (entries (run_calls calls t) ! i) \<and> length (entries t) \<le> length (entries (run_calls calls t))"
proof (induction calls rule: rev_induct)
  case Nil
  then show ?case by (simp add: run_calls_def stays_refl)
next
  case (snoc x calls)
  obtain now b c call where x: "x = (now, b, c, call)" by (cases x) auto
  have ih: "stays (entries t ! i) (entries (run_calls calls t) ! i)" "i < length (entries (run_calls calls t))"
    using snoc by auto
  show ?case using call_stays [OF ih(2), of now b c call] ih(1) snoc stays_trans unfolding x run_calls_snoc by (meson order_trans)
qed

text \<open>Started for a list of wallets and chains and called in any way on them, the tracker has always handed over a
  snapshot whose phases are the current ones; throttling only ever delays counters. An entry that ended stays
  ended whatever is called later: a done chain stays done and a failed one keeps its first message.\<close>

theorem progress_shown:
  assumes "\<forall>(now, b, c, call) \<in> set calls. b \<in> fst ` set bs \<and> c \<in> set cs"
  shows "published (run_calls calls (new_tracker start listens bs cs)) \<and>
    (\<forall>more i. i < length (entries (run_calls calls (new_tracker start listens bs cs))) \<longrightarrow>
      stays (entries (run_calls calls (new_tracker start listens bs cs)) ! i)
        (entries (run_calls more (run_calls calls (new_tracker start listens bs cs))) ! i))"
proof -
  have "tracker_ok (run_calls calls (new_tracker start listens bs cs)) \<and> published (run_calls calls (new_tracker start listens bs cs)) \<and>
      (\<forall>b \<in> set bs. \<forall>c \<in> set cs. has_key (run_calls calls (new_tracker start listens bs cs)) (fst b) c)"
    using assms
  proof (induction calls rule: rev_induct)
    case Nil
    show ?case using new_tracker_ok by (auto simp: run_calls_def)
  next
    case (snoc x calls)
    obtain now b c call where x: "x = (now, b, c, call)" by (cases x) auto
    let ?t = "run_calls calls (new_tracker start listens bs cs)"
    have ih: "tracker_ok ?t" "published ?t" "\<forall>b \<in> set bs. \<forall>c \<in> set cs. has_key ?t (fst b) c"
      using snoc by auto
    have "has_key ?t b c" using ih(3) snoc.prems x by fastforce
    note step = call_ok [OF this ih(1,2), where now = now and call = call]
    show ?case unfolding x run_calls_snoc using step ih(3) by blast
  qed
  then show ?thesis using run_calls_stays by blast
qed

theorem progress_shown_witness:
  "map cp_phase (entries (run_calls [(10, ''b'', 1, CallScanning Fetching 3 None), (20, ''b'', 1, CallFail ''late''), (30, ''b'', 1, CallPricing 3)]
      (new_tracker 0 True [(''b'', ''0xw'')] [1, 10]))) = [Failed, Pending] \<and>
   published (run_calls [(10, ''b'', 1, CallScanning Fetching 3 None), (20, ''b'', 1, CallFail ''late''), (30, ''b'', 1, CallPricing 3)]
      (new_tracker 0 True [(''b'', ''0xw'')] [1, 10]))"
proof
  show "map cp_phase (entries (run_calls [(10, ''b'', 1, CallScanning Fetching 3 None), (20, ''b'', 1, CallFail ''late''), (30, ''b'', 1, CallPricing 3)]
      (new_tracker 0 True [(''b'', ''0xw'')] [1, 10]))) = [Failed, Pending]" by code_simp
  show "published (run_calls [(10, ''b'', 1, CallScanning Fetching 3 None), (20, ''b'', 1, CallFail ''late''), (30, ''b'', 1, CallPricing 3)]
      (new_tracker 0 True [(''b'', ''0xw'')] [1, 10]))"
    by (rule progress_shown [THEN conjunct1]) simp
qed

end
