(* ===== verification/NativeRecovery_Properties.thy ===== *)
theory NativeRecovery_Properties
  imports NativeRecovery
begin

text \<open>
  What the two native sources recover: the trace walk emits exactly the transfers of the frames that
  took effect, under ids that identify the frame; the balance difference is the internal movement when
  the transaction is the only one that touched the wallet in its block.
\<close>

section \<open>Hexadecimal quantities\<close>

lemma hex_digits_to_base: "hex_digits (to_base 16 n)"
  using set_to_base [of 16 n] by (fastforce simp: hex_digits_def list_all_iff)

lemma parse_hex_quantity [simp]: "parseHexQuantity (VStr (hex_quantity n)) = Some n"
  by (simp add: parseHexQuantity_def hex_quantity_def startsWith_def hex_digits_to_base)

section \<open>Frame paths\<close>

lemma nat_str_no_sep: "CHR ''_'' \<notin> set (nat_str n)"
proof
  assume "CHR ''_'' \<in> set (nat_str n)"
  then obtain d where d: "d < 10" "CHR ''_'' = digit_char d"
    using set_to_base [of 10 n] by (auto simp: nat_str_def)
  have "list_all (\<lambda>d. CHR ''_'' \<noteq> digit_char d) [0..<10]" by code_simp
  then show False using d by (auto simp: list_all_iff)
qed

lemma nat_str_nonempty: "nat_str n \<noteq> []"
  by (simp add: nat_str_def)

lemma append_sep_inj: "x \<notin> set a \<Longrightarrow> x \<notin> set b \<Longrightarrow> a @ x # r = b @ x # s \<Longrightarrow> a = b \<and> r = s"
proof (induction a arbitrary: b)
  case (Cons c a)
  then show ?case by (cases b) auto
next
  case Nil
  then show ?case by (cases b) auto
qed

lemma path_inj: "join ''_'' (map nat_str p) = join ''_'' (map nat_str q) \<Longrightarrow> p = q"
proof (induction p arbitrary: q)
  case Nil
  then show ?case
    using nat_str_nonempty by (cases q rule: remdups_adj.cases) (auto, metis append_is_Nil_conv)
next
  case (Cons a p)
  note sep = nat_str_no_sep [of a]
  show ?case
  proof (cases q)
    case Nil
    then show ?thesis using Cons.prems nat_str_nonempty [of a] by (cases p) auto
  next
    case q: (Cons b q')
    note sepb = nat_str_no_sep [of b]
    show ?thesis
    proof (cases p)
      case Nil
      then show ?thesis
        using Cons.prems q sep by (cases q') (auto simp: append_eq_Cons_conv)
    next
      case p: (Cons a' p')
      show ?thesis
      proof (cases q')
        case Nil
        have "CHR ''_'' \<in> set (join ''_'' (map nat_str (a # p)))" by (simp add: p)
        then show ?thesis using Cons.prems q Nil sepb by simp
      next
        case q': (Cons b' r)
        have "nat_str a @ CHR ''_'' # join ''_'' (map nat_str p) = nat_str b @ CHR ''_'' # join ''_'' (map nat_str q')"
          using Cons.prems by (simp add: q p q')
        from append_sep_inj [OF sep sepb this] have "nat_str a = nat_str b" "join ''_'' (map nat_str p) = join ''_'' (map nat_str q')" by auto
        then show ?thesis using Cons.IH [of q'] q by auto
      qed
    qed
  qed
qed

section \<open>Live frames\<close>

text \<open>The frames of a trace that took effect, by their path from the root.\<close>

inductive live :: "jsv \<Rightarrow> nat list \<Rightarrow> jobj \<Rightarrow> bool" for tr where
  top: "tr = VObj f \<Longrightarrow> isCallFrame tr \<Longrightarrow> \<not> frame_reverted f \<Longrightarrow> live tr [] f"
| child: "live tr path f \<Longrightarrow> i < length (frame_calls f) \<Longrightarrow> frame_calls f ! i = VObj g \<Longrightarrow> isCallFrame (VObj g) \<Longrightarrow>
    \<not> frame_reverted g \<Longrightarrow> live tr (path @ [i]) g"

inductive_cases live_root: "live tr [] f"

inductive_cases live_step: "live tr (path @ [i]) g"

lemma live_shift: "live (VObj g) q h \<Longrightarrow> live tr path f \<Longrightarrow> i < length (frame_calls f) \<Longrightarrow> frame_calls f ! i = VObj g \<Longrightarrow>
    live tr (path @ i # q) h"
proof (induction rule: live.induct)
  case (top f')
  then show ?case by (auto intro: live.child)
next
  case (child p f' j g')
  then show ?case using live.child [of tr "path @ i # p" f' j g'] by simp
qed

lemma live_unfold: "live (VObj f) p h \<longleftrightarrow> isCallFrame (VObj f) \<and> \<not> frame_reverted f \<and>
    (p = [] \<and> h = f \<or> (\<exists>i q g. p = i # q \<and> i < length (frame_calls f) \<and> frame_calls f ! i = VObj g \<and> live (VObj g) q h))"
  (is "?l \<longleftrightarrow> ?r")
proof
  assume ?l
  then show ?r
  proof (induction rule: live.induct)
    case (top f')
    then show ?case by simp
  next
    case (child p f' j g')
    then have ok: "isCallFrame (VObj f)" "\<not> frame_reverted f" by auto
    from child.IH show ?case
    proof (elim conjE disjE exE)
      assume "p = []" "f' = f"
      then show ?thesis
        using child.hyps ok by (intro conjI disjI2 exI [of _ j] exI [of _ "[]"] exI [of _ g']) (auto intro: live.top)
    next
      fix i q g assume "p = i # q" "i < length (frame_calls f)" "frame_calls f ! i = VObj g" "live (VObj g) q f'"
      then show ?thesis
        using child.hyps ok live.child [of "VObj g" q f' j g']
        by (intro conjI disjI2 exI [of _ i] exI [of _ "q @ [j]"] exI [of _ g]) auto
    qed
  qed
next
  assume r: ?r
  then have "live (VObj f) [] f" by (auto intro: live.top)
  with r show ?l using live_shift [where tr = "VObj f" and path = "[]" and f = f] by auto
qed

lemma visit_live:
  "isCallFrame v \<Longrightarrow> set (visit target path v) = {t. \<exists>p f. live v p f \<and> t \<in> set (emit_frame target f (path @ p))}"
proof (induction target path v rule: visit.induct)
  case (1 target path f)
  show ?case
  proof (cases "frame_reverted f")
    case True
    then show ?thesis using live_unfold [of f] by auto
  next
    case False
    have kids: "(i, c) \<in> set (zip [0..<length (frame_calls f)] (frame_calls f)) \<longleftrightarrow> i < length (frame_calls f) \<and> c = frame_calls f ! i" for i c
      unfolding in_set_zip by (auto intro: exI [of _ i])
    have frames: "isCallFrame c \<Longrightarrow> \<exists>g. c = VObj g" for c by (cases c) (auto simp: isCallFrame_def)
    have below: "set (visit target (path @ [i]) c) = {t. \<exists>p g. live c p g \<and> t \<in> set (emit_frame target g ((path @ [i]) @ p))}"
      if "(i, c) \<in> set (zip [0..<length (frame_calls f)] (frame_calls f))" "isCallFrame c" for i c
      using "1.IH" [OF False that(1) refl that(2) that(2)] by simp
    have "set (visit target path (VObj f)) = set (emit_frame target f path) \<union>
        (\<Union>(i, c)\<in>set (zip [0..<length (frame_calls f)] (frame_calls f)).
           if isCallFrame c then set (visit target (path @ [i]) c) else {})"
      using False by (auto split: if_splits)
    also have "\<dots> = set (emit_frame target f path) \<union>
        {t. \<exists>i g p h. i < length (frame_calls f) \<and> frame_calls f ! i = VObj g \<and> live (VObj g) p h \<and> t \<in> set (emit_frame target h (path @ i # p))}"
    proof -
      have "t \<in> (\<Union>(i, c)\<in>set (zip [0..<length (frame_calls f)] (frame_calls f)). if isCallFrame c then set (visit target (path @ [i]) c) else {}) \<longleftrightarrow>
         (\<exists>i g p h. i < length (frame_calls f) \<and> frame_calls f ! i = VObj g \<and> live (VObj g) p h \<and> t \<in> set (emit_frame target h (path @ i # p)))"
        (is "?a \<longleftrightarrow> ?b") for t
      proof
        assume ?a
        then obtain i c where ic: "(i, c) \<in> set (zip [0..<length (frame_calls f)] (frame_calls f))" "isCallFrame c"
          "t \<in> set (visit target (path @ [i]) c)" by (auto split: if_splits)
        obtain g where "c = VObj g" using frames [OF ic(2)] by blast
        then have "frame_calls f ! i = VObj g" "i < length (frame_calls f)" using ic(1) kids by auto
        moreover obtain p h where "live (VObj g) p h" "t \<in> set (emit_frame target h (path @ i # p))"
          using ic(3) below [OF ic(1,2)] \<open>c = VObj g\<close> by auto
        ultimately show ?b by blast
      next
        assume ?b
        then obtain i g p h where b: "i < length (frame_calls f)" "frame_calls f ! i = VObj g" "live (VObj g) p h"
          "t \<in> set (emit_frame target h (path @ i # p))" by blast
        have z: "(i, VObj g) \<in> set (zip [0..<length (frame_calls f)] (frame_calls f))" using b(1,2) kids by metis
        have c: "isCallFrame (VObj g)" using b(3) live_unfold by blast
        show ?a using z c below [OF z c] b(3,4) by force
      qed
      then show ?thesis by (intro arg_cong2 [where f = "(\<union>)"] refl set_eqI) (simp only: mem_Collect_eq)
    qed
    also have "\<dots> = {t. \<exists>p h. live (VObj f) p h \<and> t \<in> set (emit_frame target h (path @ p))}"
    proof -
      have u: "live (VObj f) p h \<longleftrightarrow> p = [] \<and> h = f \<or>
          (\<exists>i q g. p = i # q \<and> i < length (frame_calls f) \<and> frame_calls f ! i = VObj g \<and> live (VObj g) q h)" for p h
        using live_unfold [of f p h] "1.prems" False by blast
      have "t \<in> set (emit_frame target f path) \<or>
          (\<exists>i g p h. i < length (frame_calls f) \<and> frame_calls f ! i = VObj g \<and> live (VObj g) p h \<and> t \<in> set (emit_frame target h (path @ i # p))) \<longleftrightarrow>
          (\<exists>p h. live (VObj f) p h \<and> t \<in> set (emit_frame target h (path @ p)))" (is "?a \<longleftrightarrow> ?b") for t
      proof
        assume ?a
        then show ?b
        proof (elim disjE exE conjE)
          assume "t \<in> set (emit_frame target f path)"
          then show ?b using u [of "[]" f] by (intro exI [of _ "[]"] exI [of _ f]) simp
        next
          fix i g p h assume "i < length (frame_calls f)" "frame_calls f ! i = VObj g" "live (VObj g) p h"
            "t \<in> set (emit_frame target h (path @ i # p))"
          then show ?b using u [of "i # p" h] by (intro exI [of _ "i # p"] exI [of _ h]) blast
        qed
      next
        assume ?b
        then obtain p h where b: "live (VObj f) p h" "t \<in> set (emit_frame target h (path @ p))" by blast
        from b(1) [unfolded u] show ?a
          using b(2) by (elim disjE exE conjE) (simp, blast)
      qed
      then show ?thesis by blast
    qed
    finally show ?thesis .
  qed
qed (auto simp: isCallFrame_def)

text \<open>The walk emits each frame at most once, so the paths are the ids of the transfers.\<close>

lemma emit_path: "t \<in> set (emit_frame target f path) \<Longrightarrow> path \<noteq> [] \<and> tt_path t = join ''_'' (map nat_str path)"
  by (auto simp: emit_frame_def split: if_splits option.splits)

lemma emit_single: "length (emit_frame target f path) \<le> 1"
  by (auto simp: emit_frame_def split: option.splits)

lemma distinct_concat_indexed:
  assumes "\<And>i. i < length xs \<Longrightarrow> distinct (h i (xs ! i))"
    and "\<And>i j x. i < length xs \<Longrightarrow> j < length xs \<Longrightarrow> i \<noteq> j \<Longrightarrow> x \<in> set (h i (xs ! i)) \<Longrightarrow> x \<notin> set (h j (xs ! j))"
  shows "distinct (concat (map (\<lambda>(i, x). h i x) (zip [0..<length xs] xs)))"
  using assms
proof (induction xs rule: rev_induct)
  case (snoc x xs)
  have z: "zip [0..<length (xs @ [x])] (xs @ [x]) = zip [0..<length xs] xs @ [(length xs, x)]"
    by simp
  have "distinct (concat (map (\<lambda>(i, x). h i x) (zip [0..<length xs] xs)))"
  proof (rule snoc.IH)
    show "distinct (h i (xs ! i))" if "i < length xs" for i
      using snoc.prems(1) [of i] that by (simp add: nth_append)
    show "y \<notin> set (h j (xs ! j))" if "i < length xs" "j < length xs" "i \<noteq> j" "y \<in> set (h i (xs ! i))" for i j y
      using snoc.prems(2) [of i j y] that by (simp add: nth_append)
  qed
  moreover have "distinct (h (length xs) x)" using snoc.prems(1) [of "length xs"] by simp
  moreover have "y \<notin> set (h (length xs) x)" if "i < length xs" "y \<in> set (h i (xs ! i))" for i y
    using snoc.prems(2) [of i "length xs" y] that by (simp add: nth_append)
  ultimately show ?case unfolding z by (auto simp: in_set_zip)
qed simp

lemma visit_distinct: "distinct (map tt_path (visit target path v)) \<and>
    (\<forall>t\<in>set (visit target path v). \<exists>p. tt_path t = join ''_'' (map nat_str (path @ p)))"
proof (induction target path v rule: visit.induct)
  case (1 target path f)
  show ?case
  proof (cases "frame_reverted f")
    case False
    let ?cs = "frame_calls f"
    let ?h = "\<lambda>i c. if isCallFrame c then visit target (path @ [i]) c else []"
    have ih: "distinct (map tt_path (?h i (?cs ! i)))"
      "\<And>t. t \<in> set (?h i (?cs ! i)) \<Longrightarrow> \<exists>p. tt_path t = join ''_'' (map nat_str (path @ i # p))" if i: "i < length ?cs" for i
    proof -
      have z: "(i, ?cs ! i) \<in> set (zip [0..<length ?cs] ?cs)" unfolding in_set_zip using i by (auto intro: exI [of _ i])
      note h = "1.IH" [OF False z refl]
      show "distinct (map tt_path (?h i (?cs ! i)))" using h by simp
      show "\<exists>p. tt_path t = join ''_'' (map nat_str (path @ i # p))" if "t \<in> set (?h i (?cs ! i))" for t
        using h that by (auto split: if_splits)
    qed
    have kids: "distinct (concat (map (\<lambda>(i, c). map tt_path (?h i c)) (zip [0..<length ?cs] ?cs)))"
    proof (rule distinct_concat_indexed)
      show "distinct (map tt_path (?h i (?cs ! i)))" if "i < length ?cs" for i using ih(1) [OF that] .
      show "x \<notin> set (map tt_path (?h j (?cs ! j)))"
        if ij: "i < length ?cs" "j < length ?cs" "i \<noteq> j" "x \<in> set (map tt_path (?h i (?cs ! i)))" for i j x
      proof
        assume "x \<in> set (map tt_path (?h j (?cs ! j)))"
        with ih(2) [OF ij(1)] ih(2) [OF ij(2)] ij(4)
        obtain p q where "join ''_'' (map nat_str (path @ i # p)) = join ''_'' (map nat_str (path @ j # q))" by (auto, metis)
        then have "path @ i # p = path @ j # q" by (rule path_inj)
        then show False using ij(3) by simp
      qed
    qed
    have k2: "t \<in> set (concat (map (\<lambda>(i, c). ?h i c) (zip [0..<length ?cs] ?cs))) \<Longrightarrow>
        \<exists>i p. tt_path t = join ''_'' (map nat_str (path @ i # p))" for t
      using ih(2) by (auto simp: in_set_zip split: if_splits) (metis)+
    have v: "visit target path (VObj f) = emit_frame target f path @ concat (map (\<lambda>(i, c). ?h i c) (zip [0..<length ?cs] ?cs))"
      using False by simp
    have m: "map tt_path (concat (map (\<lambda>(i, c). ?h i c) (zip [0..<length ?cs] ?cs))) =
        concat (map (\<lambda>(i, c). map tt_path (?h i c)) (zip [0..<length ?cs] ?cs))"
      by (simp add: map_concat comp_def) (rule arg_cong [where f = concat], rule map_cong, auto)
    have "distinct (map tt_path (emit_frame target f path))"
      using emit_single [of target f path] by (cases "emit_frame target f path") auto
    moreover have "tt_path a \<noteq> tt_path b" if "a \<in> set (emit_frame target f path)"
      "b \<in> set (concat (map (\<lambda>(i, c). ?h i c) (zip [0..<length ?cs] ?cs)))" for a b
    proof
      assume "tt_path a = tt_path b"
      with emit_path [OF that(1)] k2 [OF that(2)] obtain i p where
        "join ''_'' (map nat_str path) = join ''_'' (map nat_str (path @ i # p))" by auto
      then have "path = path @ i # p" by (rule path_inj)
      then show False by simp
    qed
    ultimately have "distinct (map tt_path (visit target path (VObj f)))"
      using kids unfolding v map_append distinct_append m [symmetric] set_map by blast
    moreover have "\<exists>p. tt_path t = join ''_'' (map nat_str (path @ p))" if "t \<in> set (visit target path (VObj f))" for t
    proof -
      from that consider "t \<in> set (emit_frame target f path)"
        | "t \<in> set (concat (map (\<lambda>(i, c). ?h i c) (zip [0..<length ?cs] ?cs)))" unfolding v set_append by blast
      then show ?thesis
      proof cases
        case 1
        then have "tt_path t = join ''_'' (map nat_str (path @ []))" using emit_path [OF 1] by simp
        then show ?thesis by (rule exI)
      next
        case 2
        then show ?thesis using k2 by blast
      qed
    qed
    ultimately show ?thesis by blast
  qed simp
qed simp_all

section \<open>Properties\<close>


definition sample_trace :: jsv where
  "sample_trace = VObj [(''type'', VStr ''CALL''), (''calls'', VArr [
     VObj [(''type'', VStr ''DELEGATECALL''), (''value'', VStr ''0x5''), (''from'', VStr ''0xr''), (''to'', VStr ''0xW''), (''calls'', VArr [
       VObj [(''type'', VStr ''CALL''), (''value'', VStr ''0xa''), (''from'', VStr ''0xr''), (''to'', VStr ''0xW'')]])],
     VObj [(''type'', VStr ''CALL''), (''error'', VStr ''reverted''), (''value'', VStr ''0x5''), (''from'', VStr ''0xr''), (''to'', VStr ''0xW'')]])]"


text \<open>C20. The balance difference is exact when its premise holds. If everything that moved the wallet's native
  balance over the block is this transaction's fee and value and its internal calls, the recovered delta is
  the net of the internal calls; there is a leg exactly when that net is not zero, it points the right way,
  and its printed amount reads back as the magnitude.\<close>

theorem balance_diff_exact:
  assumes "int after = int before + internal
      + (if map_option toLowerCase (tf_to tx) = Some (toLowerCase wallet) then int (tf_value tx) else 0)
      - (if toLowerCase (tf_from tx) = toLowerCase wallet then int fee + int (tf_value tx) else 0)"
  shows "internalNativeDelta wallet tx fee before after = internal \<and>
    (case nativeLegFromDelta (internalNativeDelta wallet tx fee before after) of
       None \<Rightarrow> internal = 0
     | Some (d, hex) \<Rightarrow> d = (if 0 < internal then DirIn else DirOut) \<and> internal \<noteq> 0 \<and>
         parseHexQuantity (VStr hex) = Some (nat \<bar>internal\<bar>))"
proof -
  define A where "A \<longleftrightarrow> map_option toLowerCase (tf_to tx) = Some (toLowerCase wallet)"
  define B where "B \<longleftrightarrow> toLowerCase (tf_from tx) = toLowerCase wallet"
  have d: "internalNativeDelta wallet tx fee before after = internal"
    using assms unfolding internalNativeDelta_def Let_def A_def [symmetric] B_def [symmetric] by (cases A; cases B) simp_all
  then show ?thesis by (simp add: nativeLegFromDelta_def Let_def)
qed

theorem balance_diff_exact_witness:
  "nativeLegFromDelta (internalNativeDelta ''0xW'' \<lparr>tf_from = ''0xw'', tf_to = Some ''0xr'', tf_value = 7, gasPrice = None\<rparr> 3 100 120) =
    Some (DirIn, ''0x1e'') \<and>
   internalNativeDelta ''0xW'' \<lparr>tf_from = ''0xw'', tf_to = Some ''0xr'', tf_value = 7, gasPrice = None\<rparr> 3 100 120 = 30"
proof -
  let ?tx = "\<lparr>tf_from = ''0xw'', tf_to = Some ''0xr'', tf_value = 7, gasPrice = None\<rparr>"
  have "int 120 = int 100 + 30 + (if map_option toLowerCase (tf_to ?tx) = Some (toLowerCase ''0xW'') then int (tf_value ?tx) else 0)
      - (if toLowerCase (tf_from ?tx) = toLowerCase ''0xW'' then int 3 + int (tf_value ?tx) else 0)" by code_simp
  from balance_diff_exact [OF this, THEN conjunct1]
  have "internalNativeDelta ''0xW'' ?tx 3 100 120 = 30" .
  moreover have "nativeLegFromDelta 30 = Some (DirIn, ''0x1e'')" by code_simp
  ultimately show ?thesis by simp
qed

text \<open>A balance difference is only attributed to a transaction that is alone in its block. The candidates
  kept are exactly those no other candidate shares a block with, each once, and the blocks reported are exactly
  the ones that hold several.\<close>

theorem candidates_unambiguous:
  "set (fst (selectUnambiguousCandidates blockOf cs)) = {c \<in> set cs. filter (\<lambda>d. blockOf d = blockOf c) cs = [c]} \<and>
   distinct (map blockOf (fst (selectUnambiguousCandidates blockOf cs))) \<and>
   set (snd (selectUnambiguousCandidates blockOf cs)) = {b. length (filter (\<lambda>d. blockOf d = b) cs) > 1}"
proof -
  let ?m = "foldl (group_add blockOf) [] cs"
  have mem: "(b, bucket) \<in> set ?m \<longleftrightarrow> bucket = filter (\<lambda>d. blockOf d = b) cs \<and> bucket \<noteq> []" for b bucket
    using map_of_eq_Some_iff [OF group_distinct, of blockOf cs b bucket] by (auto simp: group_get Let_def split: if_splits)
  have one: "c \<in> set (fst (selectUnambiguousCandidates blockOf cs)) \<longleftrightarrow> c \<in> set cs \<and> filter (\<lambda>d. blockOf d = blockOf c) cs = [c]" for c
  proof -
    have "c \<in> set (fst (selectUnambiguousCandidates blockOf cs)) \<longleftrightarrow> (\<exists>b bucket. (b, bucket) \<in> set ?m \<and> length bucket = 1 \<and> c = hd bucket)"
      by (force simp: selectUnambiguousCandidates_def Let_def split: if_splits)
    also have "\<dots> \<longleftrightarrow> (\<exists>b. filter (\<lambda>d. blockOf d = b) cs = [c])"
    proof
      assume "\<exists>b bucket. (b, bucket) \<in> set ?m \<and> length bucket = 1 \<and> c = hd bucket"
      then show "\<exists>b. filter (\<lambda>d. blockOf d = b) cs = [c]" by (auto simp: mem length_Suc_conv)
    next
      assume "\<exists>b. filter (\<lambda>d. blockOf d = b) cs = [c]"
      then obtain b where "filter (\<lambda>d. blockOf d = b) cs = [c]" ..
      then show "\<exists>b bucket. (b, bucket) \<in> set ?m \<and> length bucket = 1 \<and> c = hd bucket"
        by (intro exI [of _ b] exI [of _ "[c]"]) (simp add: mem)
    qed
    also have "\<dots> \<longleftrightarrow> c \<in> set cs \<and> filter (\<lambda>d. blockOf d = blockOf c) cs = [c]"
    proof
      assume "\<exists>b. filter (\<lambda>d. blockOf d = b) cs = [c]"
      then obtain b where b: "filter (\<lambda>d. blockOf d = b) cs = [c]" ..
      then have "c \<in> set (filter (\<lambda>d. blockOf d = b) cs)" by simp
      then have "c \<in> set cs" "blockOf c = b" unfolding set_filter by blast+
      then show "c \<in> set cs \<and> filter (\<lambda>d. blockOf d = blockOf c) cs = [c]" using b by simp
    qed blast
    finally show ?thesis .
  qed
  have dist: "distinct (map blockOf (concat (map (\<lambda>(b, bucket). if length bucket = 1 then [hd bucket] else []) xs)))"
    if "distinct (map fst xs)" "\<And>b bucket. (b, bucket) \<in> set xs \<Longrightarrow> bucket = filter (\<lambda>d. blockOf d = b) cs" for xs
    using that
  proof (induction xs)
    case (Cons x xs)
    obtain b bucket where x: "x = (b, bucket)" by fastforce
    have hd_block: "blockOf (hd bk) = k" if "(k, bk) \<in> set (x # xs)" "length bk = 1" for k bk
    proof -
      have "bk = filter (\<lambda>d. blockOf d = k) cs" using Cons.prems(2) that(1) by blast
      moreover have "hd bk \<in> set bk" using that(2) by (cases bk) auto
      ultimately have "hd bk \<in> {d \<in> set cs. blockOf d = k}" by simp
      then show ?thesis by blast
    qed
    have "distinct (map blockOf (concat (map (\<lambda>(b, bucket). if length bucket = 1 then [hd bucket] else []) xs)))"
      by (rule Cons.IH) (use Cons.prems in auto)
    moreover have "b \<notin> set (map blockOf (concat (map (\<lambda>(b, bucket). if length bucket = 1 then [hd bucket] else []) xs)))"
      using Cons.prems(1) hd_block x by (force split: if_splits)
    ultimately show ?case using hd_block [of b bucket] x by auto
  qed simp
  have amb: "set (snd (selectUnambiguousCandidates blockOf cs)) = {b. length (filter (\<lambda>d. blockOf d = b) cs) > 1}"
  proof -
    have "b \<in> set (snd (selectUnambiguousCandidates blockOf cs)) \<longleftrightarrow> (\<exists>bucket. (b, bucket) \<in> set ?m \<and> length bucket \<noteq> 1)" for b
      by (force simp: selectUnambiguousCandidates_def Let_def split: if_splits)
    moreover have "(\<exists>bucket. (b, bucket) \<in> set ?m \<and> length bucket \<noteq> 1) \<longleftrightarrow> length (filter (\<lambda>d. blockOf d = b) cs) > 1" for b
      unfolding mem by (cases "filter (\<lambda>d. blockOf d = b) cs") auto
    ultimately show ?thesis by blast
  qed
  have "distinct (map blockOf (fst (selectUnambiguousCandidates blockOf cs)))"
    unfolding selectUnambiguousCandidates_def Let_def fst_conv by (rule dist) (use mem in auto)
  with one amb show ?thesis by blast
qed

end
