(* ===== verification/ChainScan_Properties.thy ===== *)
theory ChainScan_Properties
  imports ChainScan NativeRecovery_Properties
begin

text \<open>
  Properties of the scan, for every provider and every order in which the concurrent requests settle: a request
  is retried a bounded number of times, a direction is complete or fails, the trace source is all or nothing,
  and a chain is in the result exactly when all of it was observed.
\<close>

section \<open>Retries\<close>

text \<open>The attempts that were waited for, and the answer of the last one.\<close>

definition waited :: "rpc_env \<Rightarrow> rpc_request \<Rightarrow> nat \<Rightarrow> nat \<Rightarrow> rat list \<Rightarrow> bool" where
  "waited env req attempt n ds \<longleftrightarrow> length ds = n \<and>
     (\<forall>j < n. \<exists>r. fetch env req (attempt + j) = Inr r \<and> \<not> final_answer r (attempt + j) \<and> ds ! j = retry_delay env r (attempt + j))"

lemma rpc_attempt_spec:
  "rpc_attempt env req attempt = (ds, answer) \<Longrightarrow> attempt \<le> RATE_LIMIT_RETRIES \<Longrightarrow>
   waited env req attempt (length ds) ds \<and> attempt + length ds \<le> RATE_LIMIT_RETRIES \<and> answer = fetch env req (attempt + length ds) \<and>
   (\<forall>r. answer = Inr r \<longrightarrow> final_answer r (attempt + length ds))"
proof (induction env req attempt arbitrary: ds rule: rpc_attempt.induct)
  case (1 env req attempt)
  show ?case
  proof (cases "fetch env req attempt")
    case (Inl e)
    then show ?thesis using "1.prems" by (auto simp: rpc_attempt.simps [of env req attempt] waited_def)
  next
    case (Inr r)
    show ?thesis
    proof (cases "final_answer r attempt")
      case True
      then show ?thesis using "1.prems" Inr by (auto simp: rpc_attempt.simps [of env req attempt] waited_def)
    next
      case False
      obtain ds' answer' where rec: "rpc_attempt env req (attempt + 1) = (ds', answer')"
        by (cases "rpc_attempt env req (attempt + 1)") auto
      have ds: "ds = retry_delay env r attempt # ds'" "answer = answer'"
        using "1.prems"(1) Inr False rec by (auto simp: rpc_attempt.simps [of env req attempt])
      have le: "attempt + 1 \<le> RATE_LIMIT_RETRIES" using False by (auto simp: final_answer_def)
      have ih: "waited env req (attempt + 1) (length ds') ds'" "attempt + 1 + length ds' \<le> RATE_LIMIT_RETRIES"
        "answer = fetch env req (attempt + 1 + length ds')" "\<forall>r. answer = Inr r \<longrightarrow> final_answer r (attempt + 1 + length ds')"
        using "1.IH" [OF Inr False, of ds'] rec ds(2) le by auto
      have "waited env req attempt (length ds) ds"
        unfolding waited_def
      proof (intro conjI allI impI)
        fix j assume j: "j < length ds"
        show "\<exists>r. fetch env req (attempt + j) = Inr r \<and> \<not> final_answer r (attempt + j) \<and> ds ! j = retry_delay env r (attempt + j)"
        proof (cases j)
          case 0
          then show ?thesis using Inr False ds(1) by simp
        next
          case (Suc i)
          then show ?thesis using ih(1) j ds(1) by (auto simp: waited_def)
        qed
      qed simp
      then show ?thesis using ih(2-4) ds(1) by simp
    qed
  qed
qed

lemma backoff_sum: "n \<le> 6 \<Longrightarrow> length ds = n \<Longrightarrow> (\<forall>j < n. ds ! j \<le> min (500 * 2 ^ j) 10000) \<Longrightarrow> sum_list ds \<le> (25500 :: rat)"
proof -
  assume n: "n \<le> 6" "length ds = n" and le: "\<forall>j < n. ds ! j \<le> min (500 * 2 ^ j) (10000 :: rat)"
  have "sum_list ds = (\<Sum>j<n. ds ! j)" using n(2) by (simp add: sum_list_sum_nth atLeast0LessThan)
  also have "\<dots> \<le> (\<Sum>j<n. min (500 * 2 ^ j) 10000)" using le by (intro sum_mono) simp
  also have "\<dots> \<le> (\<Sum>j<6. min (500 * 2 ^ j) 10000)" using n(1) by (intro sum_mono2) auto
  also have "\<dots> = 25500" by (simp add: lessThan_nat_numeral lessThan_Suc)
  finally show ?thesis .
qed

text \<open>C20. A request makes at most seven attempts and then returns: its answer is the answer of its last attempt, every
  earlier one was a transient status, and without a \<open>Retry-After\<close> header and with the default base the waits
  add up to at most 25.5 seconds.\<close>

theorem rpc_bounded:
  assumes "rpc_attempt env req 0 = (ds, answer)"
  shows "length ds \<le> 6 \<and> answer = fetch env req (length ds) \<and> (\<forall>r. answer = Inr r \<longrightarrow> final_answer r (length ds)) \<and>
    (\<forall>k < length ds. \<exists>r. fetch env req k = Inr r \<and> rs_status r \<in> {429, 502, 503, 504}) \<and>
    (retryBase env = VUndef \<and> (\<forall>k r. fetch env req k = Inr r \<longrightarrow> rs_retryAfter r = VNull) \<longrightarrow> sum_list ds \<le> 25500)"
proof -
  have spec: "waited env req 0 (length ds) ds" "length ds \<le> RATE_LIMIT_RETRIES" "answer = fetch env req (length ds)"
    "\<forall>r. answer = Inr r \<longrightarrow> final_answer r (length ds)"
    using rpc_attempt_spec [OF assms] by simp_all
  have n: "length ds \<le> 6" using spec(2) by (simp add: RATE_LIMIT_RETRIES_def)
  have "\<exists>r. fetch env req k = Inr r \<and> rs_status r \<in> {429, 502, 503, 504}" if "k < length ds" for k
    using spec(1) that by (fastforce simp: waited_def final_answer_def RETRYABLE_STATUSES_def)
  moreover have "sum_list ds \<le> 25500" if h: "retryBase env = VUndef" "\<forall>k r. fetch env req k = Inr r \<longrightarrow> rs_retryAfter r = VNull"
  proof (rule backoff_sum [OF n refl], intro allI impI)
    fix j assume "j < length ds"
    then obtain r where r: "fetch env req j = Inr r" "ds ! j = retry_delay env r j" using spec(1) by (auto simp: waited_def)
    have "rs_retryAfter r = VNull" using h(2) r(1) by blast
    then show "ds ! j \<le> min (500 * 2 ^ j) 10000"
      using h(1) r(2) by (simp add: retry_delay_def base_delay_def js_Number_def num_fin_def DEFAULT_RETRY_BASE_MS_def MAX_RETRY_DELAY_MS_def)
  qed
  ultimately show ?thesis using n spec(3,4) by blast
qed

text \<open>A provider that is busy twice and then answers.\<close>

definition busy_twice :: rpc_env where
  "busy_twice = \<lparr>fetch = (\<lambda>_ k. Inr \<lparr>rs_status = (if k < 2 then 429 else 200), rs_json = Some (VObj [(''result'', VStr ''0x10'')]), rs_retryAfter = VNull\<rparr>),
     retryBase = VUndef, apiKey = ''k'', settles = (\<lambda>_ _. 0), clock = 0\<rparr>"

definition any_request :: rpc_request where
  "any_request = \<lparr>rq_url = [], rq_method = [], rq_params = VNull\<rparr>"

definition busy_answer :: response where
  "busy_answer = \<lparr>rs_status = 429, rs_json = Some (VObj [(''result'', VStr ''0x10'')]), rs_retryAfter = VNull\<rparr>"

definition final_response :: response where
  "final_response = \<lparr>rs_status = 200, rs_json = Some (VObj [(''result'', VStr ''0x10'')]), rs_retryAfter = VNull\<rparr>"

theorem rpc_bounded_witness:
  "rpc_attempt busy_twice any_request 0 = ([500, 1000], Inr final_response) \<and> sum_list [500, 1000] \<le> (25500 :: rat)"
proof -
  have base: "base_delay busy_twice = 500"
    by (simp add: base_delay_def busy_twice_def js_Number_def num_fin_def DEFAULT_RETRY_BASE_MS_def)
  have fetch: "fetch busy_twice any_request 0 = Inr busy_answer" "fetch busy_twice any_request 1 = Inr busy_answer"
    "fetch busy_twice any_request 2 = Inr final_response"
    by (simp_all add: busy_twice_def busy_answer_def final_response_def)
  have final: "\<not> final_answer busy_answer 0" "\<not> final_answer busy_answer 1" "final_answer final_response 2"
    by (simp_all add: final_answer_def busy_answer_def final_response_def RETRYABLE_STATUSES_def RATE_LIMIT_RETRIES_def)
  have delay: "retry_delay busy_twice busy_answer 0 = 500" "retry_delay busy_twice busy_answer 1 = 1000"
    by (simp_all add: retry_delay_def base busy_answer_def js_Number_def num_fin_def MAX_RETRY_DELAY_MS_def)
  have run: "rpc_attempt busy_twice any_request 0 = ([500, 1000], Inr final_response)"
    using fetch final delay by (simp add: rpc_attempt.simps [of _ _ 0] rpc_attempt.simps [of _ _ 1] rpc_attempt.simps [of _ _ 2]
        del: One_nat_def)
  have silent: "\<forall>k r. fetch busy_twice any_request k = Inr r \<longrightarrow> rs_retryAfter r = VNull" "retryBase busy_twice = VUndef"
    by (auto simp: busy_twice_def)
  show ?thesis using run silent rpc_bounded [OF run] by blast
qed

section \<open>Pages\<close>

text \<open>A sequence of pages from a key to the terminal page, no key twice.\<close>

inductive page_run :: "rpc_env \<Rightarrow> chain_entry \<Rightarrow> string \<times> string \<Rightarrow> string option \<Rightarrow> string \<Rightarrow> nat \<Rightarrow> string option \<Rightarrow> string list \<Rightarrow> jsv list \<Rightarrow> bool"
  for env entry selector fromBlock toBlock where
  last_page: "fetch_page env entry selector fromBlock toBlock pageKey = Inr (transfers, key) \<Longrightarrow> next_key entry seen key = Inr None \<Longrightarrow>
     page_run env entry selector fromBlock toBlock 1 pageKey seen transfers"
| more_pages: "fetch_page env entry selector fromBlock toBlock pageKey = Inr (transfers, key) \<Longrightarrow> next_key entry seen key = Inr (Some k) \<Longrightarrow>
     page_run env entry selector fromBlock toBlock n (Some k) (seen @ [k]) rest \<Longrightarrow>
     page_run env entry selector fromBlock toBlock (Suc n) pageKey seen (transfers @ rest)"

lemma direction_pages_run:
  "direction_pages env entry selector fromBlock toBlock page pageKey seen collected = Inr ts \<Longrightarrow>
   \<exists>n rest. page_run env entry selector fromBlock toBlock n pageKey seen rest \<and> page + n \<le> MAX_PAGES \<and> ts = collected @ rest"
proof (induction env entry selector fromBlock toBlock page pageKey seen collected rule: direction_pages.induct)
  case (1 env entry selector fromBlock toBlock page pageKey seen collected)
  have page: "\<not> MAX_PAGES \<le> page" using "1.prems" by (auto simp: direction_pages.simps [of _ _ _ _ _ page])
  obtain transfers key where f: "fetch_page env entry selector fromBlock toBlock pageKey = Inr (transfers, key)"
    using "1.prems" page by (auto simp: direction_pages.simps [of _ _ _ _ _ page] split: sum.splits prod.splits)
  show ?case
  proof (cases "next_key entry seen key")
    case (Inl e)
    then show ?thesis using "1.prems" page f by (simp add: direction_pages.simps [of _ _ _ _ _ page])
  next
    case (Inr following)
    show ?thesis
    proof (cases following)
      case None
      then have "ts = collected @ transfers"
        using "1.prems" page f Inr by (simp add: direction_pages.simps [of _ _ _ _ _ page])
      then show ?thesis using last_page [OF f, of seen] Inr None page by (intro exI [of _ 1] exI [of _ transfers]) simp
    next
      case (Some k)
      have "direction_pages env entry selector fromBlock toBlock (page + 1) (Some k) (seen @ [k]) (collected @ transfers) = Inr ts"
        using "1.prems" page f Inr Some by (simp add: direction_pages.simps [of _ _ _ _ _ page])
      then obtain n rest where n: "page_run env entry selector fromBlock toBlock n (Some k) (seen @ [k]) rest" "page + 1 + n \<le> MAX_PAGES"
          "ts = (collected @ transfers) @ rest"
        using "1.IH" [OF page f _ Inr Some] by auto
      show ?thesis using more_pages [OF f Inr [unfolded Some] n(1)] n(2,3) by (intro exI [of _ "Suc n"] exI [of _ "transfers @ rest"]) simp
    qed
  qed
qed

lemma page_run_direction:
  "page_run env entry selector fromBlock toBlock n pageKey seen rest \<Longrightarrow> page + n \<le> MAX_PAGES \<Longrightarrow>
   direction_pages env entry selector fromBlock toBlock page pageKey seen collected = Inr (collected @ rest)"
proof (induction arbitrary: page collected rule: page_run.induct)
  case (last_page pageKey transfers key seen)
  then show ?case by (simp add: direction_pages.simps [of _ _ _ _ _ page])
next
  case (more_pages pageKey transfers key seen k n rest)
  have "direction_pages env entry selector fromBlock toBlock (page + 1) (Some k) (seen @ [k]) (collected @ transfers) = Inr ((collected @ transfers) @ rest)"
    by (rule more_pages.IH) (use more_pages.prems in simp)
  then show ?case using more_pages.hyps(1,2) more_pages.prems by (simp add: direction_pages.simps [of _ _ _ _ _ page])
qed


section \<open>The trace source\<close>

text \<open>What the pool of traces knows: a candidate that was skipped was so because of a message, and as long as there is no
  message every result is the movements of its candidate's trace.\<close>

definition trace_result :: "rpc_env \<Rightarrow> chain_entry \<Rightarrow> string \<Rightarrow> string \<times> string \<Rightarrow> jsv list \<Rightarrow> bool" where
  "trace_result env entry wallet candidate legs \<longleftrightarrow> (\<exists>frame. fetchCallTrace env entry (fst candidate) = Inr frame \<and>
     legs = map (traced_leg entry (fst candidate) (snd candidate)) (extractNativeTransfers frame wallet))"

definition message_ok :: "rpc_env \<Rightarrow> chain_entry \<Rightarrow> string option \<Rightarrow> bool" where
  "message_ok env entry message \<longleftrightarrow> (\<forall>m. message = Some m \<longrightarrow> (\<exists>hash. fetchCallTrace env entry hash = Inl (NativeSourceUnavailable m)))"

definition withholds :: "rpc_env \<Rightarrow> chain_entry \<Rightarrow> chain_error \<Rightarrow> bool" where
  "withholds env entry e \<longleftrightarrow> (\<exists>hash. fetchCallTrace env entry hash = Inl e) \<and> (\<forall>m. e \<noteq> NativeSourceUnavailable m)"

interpretation tracing: pool_work trace_start "trace_finish env entry wallet" "\<lambda>_. True" "message_ok env entry"
    "\<lambda>message _ skip. skip \<longrightarrow> message \<noteq> None" "\<lambda>message candidate legs. message = None \<longrightarrow> trace_result env entry wallet candidate legs"
    "withholds env entry" for env entry wallet
proof (unfold_locales, goal_cases)
  case (1 s x)
  then show ?case by (simp add: trace_start_def)
next
  case (2 s x m s' b)
  then show ?case
    by (auto simp: trace_finish_def message_ok_def trace_result_def split: if_splits sum.splits chain_error.splits)
next
  case (3 s x m s' e)
  then show ?case
    by (auto simp: trace_finish_def withholds_def split: if_splits sum.splits chain_error.splits)
next
  case (4 s x m s' b y n)
  then show ?case by (auto simp: trace_finish_def split: if_splits sum.splits chain_error.splits)
next
  case (5 s x m s' b y c)
  then show ?case by (auto simp: trace_finish_def split: if_splits sum.splits chain_error.splits)
qed

text \<open>The trace source is all or nothing, in whatever order its requests settle. Either every candidate was traced and
  the legs are the movements of all the traces in the order of the candidates; or the provider refused the
  method for some candidate, no leg is used and the source is marked for six hours; or some trace failed
  otherwise and the whole chain is withheld, with nothing marked.\<close>

theorem trace_all_or_nothing:
  "case fetchNativeTraceLegs env entry wallet candidates blocked of
     (blocked', Inr (Some legs)) \<Rightarrow> blocked' = blocked \<and>
       (\<exists>traced. list_all2 (trace_result env entry wallet) candidates traced \<and> legs = concat traced)
   | (blocked', Inr None) \<Rightarrow> blocked' = markSourceUnavailable (clock env) entry AlchemyDebug blocked \<and>
       (\<exists>hash m. fetchCallTrace env entry hash = Inl (NativeSourceUnavailable m))
   | (blocked', Inl e) \<Rightarrow> blocked' = blocked \<and> withholds env entry e"
proof -
  obtain s r where run: "mapWithConcurrency (settles env (network entry @ '':trace'')) TRACE_CONCURRENCY trace_start (trace_finish env entry wallet) None candidates = (s, r)"
    by fastforce
  have pre: "message_ok env entry None" "0 < TRACE_CONCURRENCY" "list_all (\<lambda>_. True) candidates"
    by (simp_all add: message_ok_def TRACE_CONCURRENCY_def list_all_iff)
  show ?thesis
  proof (cases r)
    case (Inl e)
    have "withholds env entry e" by (rule tracing.pool_error(2) [OF pre run [unfolded Inl]])
    then show ?thesis using run Inl by (cases s) (simp_all add: fetchNativeTraceLegs_def)
  next
    case (Inr legs)
    note res = tracing.pool_results [OF pre run [unfolded Inr]]
    show ?thesis
    proof (cases s)
      case None
      then have "list_all2 (trace_result env entry wallet) candidates legs" using res(2) by (simp add: list_all2_conv_all_nth)
      then show ?thesis using run Inr None by (auto simp: fetchNativeTraceLegs_def)
    next
      case (Some m)
      then show ?thesis using run Inr res(1) by (auto simp: fetchNativeTraceLegs_def message_ok_def)
    qed
  qed
qed

section \<open>The whole scan\<close>

text \<open>A chain that was completely observed: its head, both directions up to it, its native legs, and their rows.\<close>

definition observed :: "host \<Rightarrow> rpc_env \<Rightarrow> string \<Rightarrow> (int, nat) jmap \<Rightarrow> chain_entry \<Rightarrow> nat \<Rightarrow> indexed_transaction list \<Rightarrow> bool" where
  "observed H env address since entry head rows \<longleftrightarrow>
     (let fromBlock = map_option hex_quantity (mget since (chainId entry)) in
      \<exists>inbound outbound traced b b'. fetchChainHead env entry = Inr head \<and>
        fetchDirection env entry (''toAddress'', address) fromBlock (hex_quantity head) = Inr inbound \<and>
        fetchDirection env entry (''fromAddress'', address) fromBlock (hex_quantity head) = Inr outbound \<and>
        recoverNativeLegs H env entry (toLowerCase address) (inbound @ outbound) b = (b', Inr traced) \<and>
        normalizeChain H entry address (toLowerCase address) inbound outbound traced = Inr rows)"

lemma scan_chain_observed:
  "scan_chain H env address since entry b = (b', Inr (head, rows)) \<Longrightarrow> observed H env address since entry head rows"
  unfolding scan_chain_def scan_ranges_def observed_def Let_def as_incomplete_def
  by (auto split: sum.splits prod.splits)

definition outcome_ok :: "host \<Rightarrow> rpc_env \<Rightarrow> string \<Rightarrow> (int, nat) jmap \<Rightarrow> chain_entry \<Rightarrow> chain_outcome \<Rightarrow> bool" where
  "outcome_ok H env address since entry outcome \<longleftrightarrow> fst outcome = entry \<and>
     (case snd outcome of Inl _ \<Rightarrow> True | Inr (head, rows) \<Rightarrow> observed H env address since entry head rows)"

interpretation scanning: pool_work scan_start "scan_finish H env hooks address since" "\<lambda>_. True" "\<lambda>_. True" "\<lambda>_ _ _. True"
    "\<lambda>_. outcome_ok H env address since" "\<lambda>_. False" for H env hooks address since
proof (unfold_locales, goal_cases)
  case (2 s x m s' b)
  then show ?case
    by (auto simp: scan_finish_def outcome_ok_def dest: scan_chain_observed split: prod.splits sum.splits option.splits)
next
  case (3 s x m s' e)
  then show ?case by (auto simp: scan_finish_def split: prod.splits sum.splits option.splits)
qed simp_all

definition good_outcomes :: "chain_outcome list \<Rightarrow> (chain_entry \<times> nat \<times> indexed_transaction list) list" where
  "good_outcomes outcomes = concat (map (\<lambda>(entry, r). case r of Inl _ \<Rightarrow> [] | Inr (head, rows) \<Rightarrow> [(entry, head, rows)]) outcomes)"

lemma add_outcomes:
  "foldl add_outcome r outcomes = r\<lparr>transactions := transactions r @ concat (map (\<lambda>(_, _, rows). rows) (good_outcomes outcomes)),
     chainHeads := foldl (\<lambda>m (entry, head, _). mput (chainId entry) head m) (chainHeads r) (good_outcomes outcomes)\<rparr>"
  by (induction outcomes arbitrary: r) (auto simp: good_outcomes_def add_outcome_def split: sum.splits)

lemma mput_fresh: "k \<notin> set (mkeys m) \<Longrightarrow> mput k v m = m @ [(k, v)]"
  by (induction m) auto

definition good_id :: "chain_entry \<times> nat \<times> indexed_transaction list \<Rightarrow> int" where
  "good_id g = chainId (fst g)"

lemma good_Nil: "good_outcomes [] = []"
  by (simp add: good_outcomes_def)

lemma good_Cons: "good_outcomes (outcome # outcomes) =
    (case snd outcome of Inl _ \<Rightarrow> [] | Inr (head, rows) \<Rightarrow> [(fst outcome, head, rows)]) @ good_outcomes outcomes"
  by (cases outcome) (auto simp: good_outcomes_def split: sum.splits)

lemma put_heads:
  "distinct (mkeys m @ map good_id gs) \<Longrightarrow>
   foldl (\<lambda>m (entry, head, _). mput (chainId entry) head m) m gs = m @ map (\<lambda>(entry, head, _). (chainId entry, head)) gs"
proof (induction gs arbitrary: m)
  case (Cons g gs)
  obtain entry head rows where g: "g = (entry, head, rows)" by (cases g)
  have "chainId entry \<notin> set (mkeys m)" "distinct (mkeys (m @ [(chainId entry, head)]) @ map good_id gs)"
    using Cons.prems good_id_def [of g] by (auto simp: g)
  then show ?case using Cons.IH [OF \<open>distinct (mkeys (m @ [(chainId entry, head)]) @ map good_id gs)\<close>] by (simp add: g mput_fresh)
qed simp

lemma good_ids:
  "list_all2 (outcome_ok H env address since) entries outcomes \<Longrightarrow> distinct (map chainId entries) \<Longrightarrow>
   distinct (map good_id (good_outcomes outcomes)) \<and> set (map good_id (good_outcomes outcomes)) \<subseteq> set (map chainId entries)"
proof (induction rule: list_all2_induct)
  case Nil
  then show ?case by (simp add: good_Nil)
next
  case (Cons entry entries outcome outcomes)
  have ih: "distinct (map good_id (good_outcomes outcomes))" "set (map good_id (good_outcomes outcomes)) \<subseteq> set (map chainId entries)"
    using Cons.IH Cons.prems by (metis distinct.simps(2) list.simps(9))+
  have new: "chainId entry \<notin> set (map chainId entries)" "fst outcome = entry" using Cons.prems Cons.hyps(1) by (simp_all add: outcome_ok_def)
  show ?case
  proof (cases "snd outcome")
    case (Inl e)
    then show ?thesis using ih by (auto simp: good_Cons)
  next
    case (Inr hr)
    then have "map good_id (good_outcomes (outcome # outcomes)) = chainId entry # map good_id (good_outcomes outcomes)"
      using new(2) by (cases hr) (simp add: good_Cons good_id_def)
    moreover have "chainId entry \<notin> set (map good_id (good_outcomes outcomes))" using new(1) ih(2) by blast
    ultimately show ?thesis using ih by auto
  qed
qed


section \<open>A fee taken for a movement\<close>

text \<open>Two transactions of the wallet in one block: the first succeeded and moved nothing but its fee of 2, the second
  reverted and was charged a fee of 5. The balance went from 100 to 93.\<close>

definition fee_receipt :: "string \<Rightarrow> string \<Rightarrow> jsv" where
  "fee_receipt gas ok = VObj [(''blockNumber'', VStr ''0x7''), (''gasUsed'', VStr gas), (''status'', VStr ok), (''effectiveGasPrice'', VStr ''0x1'')]"

definition reply :: "jsv \<Rightarrow> response" where
  "reply v = \<lparr>rs_status = 200, rs_json = Some (VObj [(''result'', v)]), rs_retryAfter = VNull\<rparr>"

definition fee_fetch :: "rpc_request \<Rightarrow> nat \<Rightarrow> (string, response) result" where
  "fee_fetch req k = Inr (reply (
     if rq_method req = ''eth_getTransactionReceipt'' then
       (if rq_params req = VArr [VStr ''0xa''] then fee_receipt ''0x2'' ''0x1'' else fee_receipt ''0x5'' ''0x0'')
     else if rq_method req = ''eth_getTransactionByHash'' then VObj [(''from'', VStr ''0xw''), (''value'', VStr ''0x0''), (''to'', VStr ''0xc'')]
     else if rq_params req = VArr [VStr ''0xw'', VStr ''0x6''] then VStr ''0x64'' else VStr ''0x5d''))"

definition fee_env :: rpc_env where
  "fee_env = \<lparr>fetch = fee_fetch, retryBase = VUndef, apiKey = ''k'', settles = (\<lambda>_ _. 0), clock = 0\<rparr>"

text \<open>The reverted transaction is dropped before the check that the block holds a single candidate, so its fee is read as
  a movement of the other one: a leg of 5 out of the wallet that no call made.\<close>

theorem reverted_fee_becomes_leg:
  "balance_legs fee_env (CHAIN_REGISTRY ! 2) ''0xw'' [(''0xa'', ''2025-01-01T00:00:00.000Z''), (''0xb'', ''2025-01-01T00:00:00.000Z'')] =
     Inr [native_transfer (CHAIN_REGISTRY ! 2) ''0xa'' ''2025-01-01T00:00:00.000Z'' ''0xa:balance:0'' ''0xw'' ''0xc'' ''0x5''
       [(''nativeSource'', VStr ''balance-diff'')]]"
  by code_simp

end
