(* ===== verification/IndexerSync_Properties.thy ===== *)
theory IndexerSync_Properties
  imports SyncWorld SyncProgress_Properties ChainScan_Properties Linking_Properties
begin

text \<open>
  What a synchronisation guarantees, stated over the contract of the services it calls (the locale \<open>sync_services\<close>):
  every chain of every wallet ends, and a cursor only moves over a range that was completely observed and whose
  rows were saved. The contract is then discharged for the real scan and the in-memory repositories.
\<close>

section \<open>The contract\<close>

text \<open>A property of the state that the callbacks of a scan keep; \<open>view\<close> is what the caller sees of the world.\<close>

definition hook_closed :: "('w \<Rightarrow> 'v) \<Rightarrow> (int \<Rightarrow> nat \<Rightarrow> indexed_transaction list \<Rightarrow> bool) \<Rightarrow> 'w sync_state scan_hooks \<Rightarrow> ('w sync_state \<Rightarrow> bool) \<Rightarrow> bool" where
  "hook_closed view seen hooks P \<longleftrightarrow>
     (\<forall>c head rows s. seen c head rows \<longrightarrow> P s \<longrightarrow> P (fst (onChain hooks c head rows s))) \<and>
     (\<forall>c message s. P s \<longrightarrow> P (onChainError hooks c message s)) \<and>
     (\<forall>s w. P s \<longrightarrow> view w = view (world s) \<longrightarrow> P (s\<lparr>world := w\<rparr>))"

definition advanced :: "int \<Rightarrow> nat \<Rightarrow> nat \<Rightarrow> chain_cursor option \<Rightarrow> chain_cursor option" where
  "advanced c head rules old = (case old of
     None \<Rightarrow> Some \<lparr>cur_chainId = c, lastSyncedBlock = head, rulesVersion = rules\<rparr>
   | Some e \<Rightarrow> Some (e\<lparr>lastSyncedBlock := (if lastSyncedBlock e < head then head else lastSyncedBlock e), rulesVersion := max (rulesVersion e) rules\<rparr>))"

locale sync_services =
  fixes S :: "'w services" and cur :: "'w \<Rightarrow> string \<Rightarrow> int \<Rightarrow> chain_cursor option"
    and seen :: "string \<Rightarrow> (int, nat) jmap \<Rightarrow> int \<Rightarrow> nat \<Rightarrow> indexed_transaction list \<Rightarrow> bool"
  assumes scan_keeps: "hook_closed cur (seen wallet since) hooks P \<Longrightarrow> P st \<Longrightarrow> scan S hooks wallet since st = (st', r) \<Longrightarrow> P st'"
    and scan_heads: "scan S hooks wallet since st = (st', Inr res) \<Longrightarrow> mget (chainHeads res) c = Some head \<Longrightarrow>
      (\<And>head rows s. Q (fst (onChain hooks c head rows s))) \<Longrightarrow> hook_closed cur (seen wallet since) hooks Q \<Longrightarrow> Q st'"
    and spot_cur: "cur (fst (spotPrices S rows w)) = cur w"
    and historical_cur: "cur (fst (historicalPrices S rows w)) = cur w"
    and save_cur: "cur (fst (saveRows S b u rows w)) = cur w"
    and purge_cur: "cur (fst (purgeRows S b u legs w)) = cur w"
    and submit_cur: "cur (fst (submitAnchor S h w)) = cur w"
    and mark_cur: "cur (fst (markAnchorFailed S h w)) = cur w"
    and initial_cur: "cur (fst (markInitialSynced S b w)) = cur w"
    and own_cur: "cur (fst (linkOwn S u w)) = cur w"
    and bridge_cur: "cur (fst (linkBridge S u w)) = cur w"
    and advance_cur: "advanceCursor S b c head rules w = (w', None) \<Longrightarrow> cur w' = (cur w)(b := (cur w b)(c := advanced c head rules (cur w b c)))"
    and advance_failed_cur: "advanceCursor S b c head rules w = (w', Some m) \<Longrightarrow> cur w' = cur w"

section \<open>Progress only moves forward\<close>

definition term_at :: "tracker \<Rightarrow> string \<Rightarrow> int \<Rightarrow> bool" where
  "term_at t b c \<longleftrightarrow> (\<exists>a. mget (key_index t) (progress_key b c) = Some a \<and> a < length (entries t) \<and> terminal (entries t ! a))"

definition forward :: "tracker \<Rightarrow> tracker \<Rightarrow> bool" where
  "forward t t' \<longleftrightarrow> (tracker_ok t \<longrightarrow> tracker_ok t') \<and> (\<forall>b c. term_at t b c \<longrightarrow> term_at t' b c)"

lemma forward_refl: "forward t t"
  by (simp add: forward_def)

lemma forward_trans: "forward s t \<Longrightarrow> forward t u \<Longrightarrow> forward s u"
  by (auto simp: forward_def)

lemma attach_in_range:
  "\<forall>b \<in> set bs. \<forall>a \<in> set (bp_chains b). a < n \<Longrightarrow> \<forall>b \<in> set (attach_chain bid n bs). \<forall>a \<in> set (bp_chains b). a < Suc n"
proof (induction bs)
  case (Cons x bs)
  then show ?case by (auto simp: less_Suc_eq)
qed simp

lemma entry_at_ok:
  assumes "tracker_ok t" "entry_at b c t = (a, t')"
  shows "tracker_ok t'" "mget (key_index t') (progress_key b c) = Some a" "a < length (entries t')"
    "mget (key_index t) k = Some i \<Longrightarrow> mget (key_index t') k = Some i"
proof -
  show "mget (key_index t') (progress_key b c) = Some a" using assms(2) by (auto simp: entry_at_def update_conv' split: option.splits)
  show "mget (key_index t) k = Some i \<Longrightarrow> mget (key_index t') k = Some i"
    using assms(2) by (auto simp: entry_at_def update_conv' split: option.splits)
  show ok: "tracker_ok t'"
    using assms attach_in_range [of "bindings t" "length (entries t)" b]
    by (auto simp: entry_at_def tracker_ok_def update_conv' less_Suc_eq split: option.splits if_splits)
  show "a < length (entries t')" using ok \<open>mget (key_index t') (progress_key b c) = Some a\<close> by (simp add: tracker_ok_def)
qed

lemma call_forward:
  assumes "tracker_ok t"
  shows "forward t (progress_call_on now b c call t)"
proof -
  obtain a t' where e: "entry_at b c t = (a, t')" by fastforce
  note ok = entry_at_ok [OF assms e]
  have "term_at (progress_call_on now b c call t) x y" if at: "term_at t x y" for x y
  proof -
    obtain i where i: "mget (key_index t) (progress_key x y) = Some i" "i < length (entries t)" "terminal (entries t ! i)"
      using at by (auto simp: term_at_def)
    have "terminal (entries (progress_call_on now b c call t) ! i)" "i < length (entries (progress_call_on now b c call t))"
      using call_stays [OF i(2), of now b c call] i(2,3) by (auto simp: stays_def)
    moreover have "mget (key_index (progress_call_on now b c call t)) (progress_key x y) = Some i"
      using ok(4) [OF i(1)] by (simp add: progress_call_on_def e handle_call_frame)
    ultimately show ?thesis by (auto simp: term_at_def)
  qed
  then show ?thesis using handle_call_ok [OF ok(1), of now a call] by (simp add: forward_def progress_call_on_def e)
qed

lemma call_ends:
  assumes "tracker_ok t" "(\<exists>n. call = CallDone n) \<or> (\<exists>m. call = CallFail m)"
  shows "term_at (progress_call_on now b c call t) b c"
proof -
  obtain a t' where e: "entry_at b c t = (a, t')" by fastforce
  note ok = entry_at_ok [OF assms(1) e]
  have "terminal (entries (handle_call now a call t') ! a)"
    using assms(2) ok(3) by (auto simp: set_entry_frame terminal_def split: if_splits)
  then show ?thesis using ok(2,3) by (simp add: term_at_def progress_call_on_def e handle_call_frame)
qed

text \<open>The tracker after each step of the service.\<close>

definition moves :: "'w sync_state \<Rightarrow> 'w sync_state \<Rightarrow> bool" where
  "moves s s' \<longleftrightarrow> (tracker_ok (progress s) \<longrightarrow> forward (progress s) (progress s'))"

lemma moves_refl: "moves s s"
  by (simp add: moves_def forward_refl)

lemma moves_same: "progress s' = progress s \<Longrightarrow> moves s s'"
  by (simp add: moves_def forward_refl)

lemma moves_trans: "moves s t \<Longrightarrow> moves t u \<Longrightarrow> moves s u"
  unfolding moves_def by (meson forward_def forward_trans)

lemma moves_ok: "moves s s' \<Longrightarrow> tracker_ok (progress s) \<Longrightarrow> tracker_ok (progress s')"
  by (simp add: moves_def forward_def)

lemma moves_term: "moves s s' \<Longrightarrow> tracker_ok (progress s) \<Longrightarrow> term_at (progress s) b c \<Longrightarrow> term_at (progress s') b c"
  by (simp add: moves_def forward_def)

lemma moves_report: "moves s (report S b c call s)"
  by (simp add: moves_def report_def call_forward)

lemma report_ends: "tracker_ok (progress s) \<Longrightarrow> (\<exists>n. call = CallDone n) \<or> (\<exists>m. call = CallFail m) \<Longrightarrow> term_at (progress (report S b c call s)) (b_id b) c"
  by (simp add: report_def call_ends)

lemma progress_same [simp]:
  "progress (skip bid k code message s) = progress s" "progress (guarded bid code eff s) = progress s"
  "progress (count_fetched c n s) = progress s" "progress (snd (enriched enrich bid code rows s)) = progress s"
  by (simp_all add: skip_def guarded_def count_fetched_def enriched_def split: prod.splits option.splits)

lemma anchor_row_same [simp]: "progress (anchor_row S bid s row) = progress s"
  by (simp add: anchor_row_def Let_def split: sum.splits prod.splits option.splits)

lemma anchorStored_same [simp]: "progress (anchorStored S bid rows s) = progress s"
  unfolding anchorStored_def by (induction rows arbitrary: s) simp_all

lemma moves_saves: "moves s (foldl (\<lambda>st n. report S b c (CallSaving n) st) s saves)"
  by (induction saves arbitrary: s) (auto intro: moves_refl moves_trans moves_report)

lemma moves_failed: "moves s (persist_failed S b c message s)"
  unfolding persist_failed_def by (rule moves_trans [OF moves_same moves_report]) simp

lemma persist_failed_ends: "tracker_ok (progress s) \<Longrightarrow> term_at (progress (persist_failed S b c message s)) (b_id b) c"
  unfolding persist_failed_def by (rule report_ends) auto

lemma moves_after: "progress s' = progress s \<Longrightarrow> moves s (report S b c call s')" "progress s' = progress s \<Longrightarrow> moves s (persist_failed S b c m s')"
  by (rule moves_trans [OF moves_same moves_report] moves_trans [OF moves_same moves_failed]; assumption)+

lemma finish_chain_moves: "moves s (finish_chain S u b c head stored s)"
proof -
  let ?s = "guarded (b_id b) ''superseded_purge_failed'' (purgeRows S (b_id b) u (map emitted_of stored)) (s\<lparr>normalized := normalized s + length stored\<rparr>)"
  obtain w m where adv: "advanceCursor S (b_id b) c head NORMALIZATION_RULES_VERSION (world ?s) = (w, m)" by fastforce
  show ?thesis
    by (cases m) (auto simp: finish_chain_def Let_def adv intro!: moves_after)
qed

lemma finish_chain_ends:
  assumes "tracker_ok (progress s)"
  shows "term_at (progress (finish_chain S u b c head stored s)) (b_id b) c"
proof -
  let ?s = "guarded (b_id b) ''superseded_purge_failed'' (purgeRows S (b_id b) u (map emitted_of stored)) (s\<lparr>normalized := normalized s + length stored\<rparr>)"
  obtain w m where adv: "advanceCursor S (b_id b) c head NORMALIZATION_RULES_VERSION (world ?s) = (w, m)" by fastforce
  show ?thesis
    by (cases m) (simp_all add: finish_chain_def Let_def adv report_ends persist_failed_ends assms)
qed

text \<open>The parts of a persistence: the state and rows that reach the save, and what follows it.\<close>

definition prepared :: "'w services \<Rightarrow> binding_record \<Rightarrow> int \<Rightarrow> indexed_transaction list \<Rightarrow> 'w sync_state \<Rightarrow> indexed_transaction list \<times> 'w sync_state" where
  "prepared S b c rows st =
     (let (rows, st) = enriched (spotPrices S) (b_id b) ''price_enrichment_failed'' rows (report S b c (CallPricing (length rows)) (count_fetched c (length rows) st));
          (rows, st) = enriched (historicalPrices S) (b_id b) ''historical_price_enrichment_failed'' rows st
      in (map (with_anchor_hash S) rows, report S b c (CallSaving 0) st))"

definition after_save :: "'w services \<Rightarrow> string \<Rightarrow> binding_record \<Rightarrow> int \<Rightarrow> nat \<Rightarrow> 'w sync_state \<Rightarrow> 'w \<times> nat list \<times> (string, transaction_record list) result \<Rightarrow> 'w sync_state" where
  "after_save S u b c head st saved = (case saved of (w, saves, outcome) \<Rightarrow>
     (let st = foldl (\<lambda>st n. report S b c (CallSaving n) st) (st\<lparr>world := w\<rparr>) saves
      in case outcome of Inl message \<Rightarrow> persist_failed S b c message st | Inr stored \<Rightarrow> finish_chain S u b c head stored st))"

lemma persistChain_parts:
  "persistChain S u b c head rows st = (case prepared S b c rows st of (hashed, st1) \<Rightarrow>
     after_save S u b c head st1 (saveRows S (b_id b) u hashed (world st1)))"
  by (simp add: persistChain_def prepared_def after_save_def Let_def split: prod.splits)

lemma prepared_moves: "moves s (snd (prepared S b c rows s))"
proof -
  let ?s1 = "report S b c (CallPricing (length rows)) (count_fetched c (length rows) s)"
  obtain rows2 s2 where e1: "enriched (spotPrices S) (b_id b) ''price_enrichment_failed'' rows ?s1 = (rows2, s2)" by fastforce
  obtain rows3 s3 where e2: "enriched (historicalPrices S) (b_id b) ''historical_price_enrichment_failed'' rows2 s2 = (rows3, s3)" by fastforce
  have 1: "moves s ?s1" by (rule moves_trans [OF moves_same moves_report]) simp
  have 2: "moves ?s1 s2" by (rule moves_same) (metis e1 progress_same(4) snd_conv)
  have 3: "moves s2 s3" by (rule moves_same) (metis e2 progress_same(4) snd_conv)
  show ?thesis using moves_trans [OF moves_trans [OF moves_trans [OF 1 2] 3] moves_report]
    by (simp add: prepared_def e1 e2)
qed

lemma after_save_moves: "moves s (after_save S u b c head s saved)"
proof -
  obtain w saves outcome where saved: "saved = (w, saves, outcome)" by (cases saved) auto
  let ?s = "foldl (\<lambda>st n. report S b c (CallSaving n) st) (s\<lparr>world := w\<rparr>) saves"
  have s: "moves s ?s" by (rule moves_trans [OF moves_same moves_saves]) simp
  show ?thesis
    by (cases outcome) (simp_all add: after_save_def saved Let_def moves_trans [OF s moves_failed] moves_trans [OF s finish_chain_moves])
qed

lemma after_save_ends:
  assumes "tracker_ok (progress s)"
  shows "term_at (progress (after_save S u b c head s saved)) (b_id b) c"
proof -
  obtain w saves outcome where saved: "saved = (w, saves, outcome)" by (cases saved) auto
  let ?s = "foldl (\<lambda>st n. report S b c (CallSaving n) st) (s\<lparr>world := w\<rparr>) saves"
  have "moves s ?s" by (rule moves_trans [OF moves_same moves_saves]) simp
  then have "tracker_ok (progress ?s)" using assms by (rule moves_ok)
  then show ?thesis by (cases outcome) (simp_all add: after_save_def saved Let_def persist_failed_ends finish_chain_ends)
qed

lemma persistChain_moves: "moves s (persistChain S u b c head rows s)"
  unfolding persistChain_parts using moves_trans [OF prepared_moves after_save_moves]
  by (metis (no_types, lifting) case_prod_unfold)

lemma persistChain_ends:
  assumes "tracker_ok (progress s)"
  shows "term_at (progress (persistChain S u b c head rows s)) (b_id b) c"
  unfolding persistChain_parts using after_save_ends [OF moves_ok [OF prepared_moves assms]]
  by (metis (no_types, lifting) case_prod_unfold)

lemma binding_failed_moves: "moves s (binding_failed S b message s)"
proof -
  have "moves s (foldl (\<lambda>st c. report S b c call st) s cs)" for s :: "'a sync_state" and call cs
    by (induction cs arbitrary: s) (auto intro: moves_refl moves_trans moves_report)
  then show ?thesis unfolding binding_failed_def by (rule moves_trans [OF moves_same, rotated]) simp
qed

lemma binding_failed_ends:
  assumes "tracker_ok (progress s)" "c \<in> set SUPPORTED_CHAIN_IDS"
  shows "term_at (progress (binding_failed S b message s)) (b_id b) c"
proof -
  have *: "moves s (foldl (\<lambda>st c. report S b c (CallFail m) st) s cs) \<and>
      (c \<in> set cs \<longrightarrow> term_at (progress (foldl (\<lambda>st c. report S b c (CallFail m) st) s cs)) (b_id b) c)"
    if "tracker_ok (progress s)" for s :: "'a sync_state" and m cs
    using that
  proof (induction cs rule: rev_induct)
    case Nil
    show ?case by (simp add: moves_refl)
  next
    case (snoc x cs)
    let ?s = "foldl (\<lambda>st c. report S b c (CallFail m) st) s cs"
    have ok: "tracker_ok (progress ?s)" using snoc by (blast intro: moves_ok)
    have "term_at (progress (report S b x (CallFail m) ?s)) (b_id b) x" by (rule report_ends [OF ok]) blast
    then show ?case using snoc moves_term [OF moves_report ok] moves_trans [OF _ moves_report] by auto
  qed
  show ?thesis unfolding binding_failed_def using * assms by simp
qed

section \<open>Cursors\<close>

text \<open>Where a new head of a cursor may come from: a chain of the wallet, completely observed from the cursors the run read,
  whose enriched rows were saved.\<close>

definition proven_head :: "'w services \<Rightarrow> (string \<Rightarrow> (int, nat) jmap \<Rightarrow> int \<Rightarrow> nat \<Rightarrow> indexed_transaction list \<Rightarrow> bool) \<Rightarrow> string \<Rightarrow>
    binding_record \<Rightarrow> int \<Rightarrow> nat \<Rightarrow> bool" where
  "proven_head S seen u b c head \<longleftrightarrow> (\<exists>w0 cursors rows s w saves stored. cursorsOf S (b_id b) w0 = Inr cursors \<and>
     seen (b_walletAddress b) (since_of cursors) c head rows \<and>
     saveRows S (b_id b) u (fst (prepared S b c rows s)) (world (snd (prepared S b c rows s))) = (w, saves, Inr stored))"

type_synonym cursor_view = "string \<Rightarrow> int \<Rightarrow> chain_cursor option"

definition sound :: "(string \<Rightarrow> int \<Rightarrow> nat \<Rightarrow> bool) \<Rightarrow> cursor_view \<Rightarrow> cursor_view \<Rightarrow> bool" where
  "sound origin v v' \<longleftrightarrow> (\<forall>b c. v' b c = v b c \<or> (\<exists>e. v' b c = Some e \<and> (\<forall>e0. v b c = Some e0 \<longrightarrow> lastSyncedBlock e0 \<le> lastSyncedBlock e) \<and>
     ((\<exists>e0. v b c = Some e0 \<and> lastSyncedBlock e = lastSyncedBlock e0) \<or> origin b c (lastSyncedBlock e))))"

lemma sound_refl: "sound origin v v"
  by (simp add: sound_def)

lemma advanced_cases:
  assumes "advanced c head rules old = Some e"
  shows "(\<forall>e0. old = Some e0 \<longrightarrow> lastSyncedBlock e0 \<le> lastSyncedBlock e) \<and>
    ((\<exists>e0. old = Some e0 \<and> lastSyncedBlock e = lastSyncedBlock e0) \<or> lastSyncedBlock e = head)"
  using assms by (auto simp: advanced_def split: option.splits if_splits)

lemma sound_step:
  assumes v: "sound origin v v'" and origin: "origin b c head"
  shows "sound origin v (v'(b := (v' b)(c := advanced c head rules (v' b c))))"
  unfolding sound_def
proof (intro allI)
  fix x y
  let ?v'' = "v'(b := (v' b)(c := advanced c head rules (v' b c)))"
  show "?v'' x y = v x y \<or> (\<exists>e. ?v'' x y = Some e \<and> (\<forall>e0. v x y = Some e0 \<longrightarrow> lastSyncedBlock e0 \<le> lastSyncedBlock e) \<and>
     ((\<exists>e0. v x y = Some e0 \<and> lastSyncedBlock e = lastSyncedBlock e0) \<or> origin x y (lastSyncedBlock e)))"
  proof (cases "x = b \<and> y = c")
    case False
    then have "?v'' x y = v' x y" by auto
    then show ?thesis using v unfolding sound_def by auto
  next
    case True
    obtain e where e: "advanced c head rules (v' b c) = Some e" by (cases "v' b c") (simp_all add: advanced_def)
    have new: "?v'' x y = Some e" using True e by simp
    note a = advanced_cases [OF e]
    have old: "v' b c = v b c \<or> (\<exists>e. v' b c = Some e \<and> (\<forall>e0. v b c = Some e0 \<longrightarrow> lastSyncedBlock e0 \<le> lastSyncedBlock e) \<and>
       ((\<exists>e0. v b c = Some e0 \<and> lastSyncedBlock e = lastSyncedBlock e0) \<or> origin b c (lastSyncedBlock e)))"
      using v unfolding sound_def by blast
    have "(\<forall>e0. v b c = Some e0 \<longrightarrow> lastSyncedBlock e0 \<le> lastSyncedBlock e) \<and>
       ((\<exists>e0. v b c = Some e0 \<and> lastSyncedBlock e = lastSyncedBlock e0) \<or> origin b c (lastSyncedBlock e))"
      using old
    proof
      assume "v' b c = v b c"
      then show ?thesis using a origin by auto
    next
      assume "\<exists>e. v' b c = Some e \<and> (\<forall>e0. v b c = Some e0 \<longrightarrow> lastSyncedBlock e0 \<le> lastSyncedBlock e) \<and>
       ((\<exists>e0. v b c = Some e0 \<and> lastSyncedBlock e = lastSyncedBlock e0) \<or> origin b c (lastSyncedBlock e))"
      then obtain e1 where e1: "v' b c = Some e1" "\<forall>e0. v b c = Some e0 \<longrightarrow> lastSyncedBlock e0 \<le> lastSyncedBlock e1"
        "(\<exists>e0. v b c = Some e0 \<and> lastSyncedBlock e1 = lastSyncedBlock e0) \<or> origin b c (lastSyncedBlock e1)" by blast
      have "lastSyncedBlock e1 \<le> lastSyncedBlock e" "lastSyncedBlock e = lastSyncedBlock e1 \<or> lastSyncedBlock e = head" using a e1(1) by auto
      then show ?thesis using e1(2,3) origin by (auto intro: order_trans)
    qed
    then show ?thesis using new True by auto
  qed
qed

context sync_services begin

abbreviation view :: "'w sync_state \<Rightarrow> cursor_view" where
  "view s \<equiv> cur (world s)"

lemma view_same [simp]:
  "cur (world (skip bid k code message s)) = view s" "cur (world (report S b c call s)) = view s" "cur (world (count_fetched c n s)) = view s"
  by (simp_all add: skip_def report_def count_fetched_def)

lemma view_guarded: "(\<And>w. cur (fst (eff w)) = cur w) \<Longrightarrow> view (guarded bid code eff s) = view s"
  by (simp add: guarded_def split: prod.splits option.splits) (metis fst_conv)

lemma view_enriched: "(\<And>rows w. cur (fst (enrich rows w)) = cur w) \<Longrightarrow> view (snd (enriched enrich bid code rows s)) = view s"
  by (simp add: enriched_def split: prod.splits option.splits) (metis fst_conv)

lemma view_anchor_row: "view (anchor_row S bid s row) = view s"
proof -
  have g: "cur (world (guarded bid code (markAnchorFailed S h) s)) = view s" for code h s by (rule view_guarded) (rule mark_cur)
  define h where "h = js_String (pget (row_payload row) ''_anchorPayloadHash'')"
  obtain w m where sub: "submitAnchor S h (world s) = (w, m)" by fastforce
  have w: "cur w = view s" using submit_cur [of h "world s"] sub by simp
  show ?thesis
  proof (cases "anchorStatus S h (world s)")
    case (Inl message)
    then show ?thesis by (simp add: anchor_row_def h_def [symmetric] g)
  next
    case (Inr existing)
    then show ?thesis using w by (cases m) (simp_all add: anchor_row_def h_def [symmetric] g sub)
  qed
qed

lemma view_anchorStored: "view (anchorStored S bid rows s) = view s"
  unfolding anchorStored_def by (induction rows arbitrary: s) (simp_all add: view_anchor_row)

lemma view_saves: "view (foldl (\<lambda>st n. report S b c (CallSaving n) st) s saves) = view s"
  by (induction saves arbitrary: s) simp_all

lemma view_persist_failed: "view (persist_failed S b c m s) = view s"
  by (simp add: persist_failed_def)

lemma view_finish_chain:
  "view (finish_chain S u b c head stored s) = view s \<or>
   view (finish_chain S u b c head stored s) = (view s)(b_id b := (view s (b_id b))(c := advanced c head NORMALIZATION_RULES_VERSION (view s (b_id b) c)))"
proof -
  let ?s = "guarded (b_id b) ''superseded_purge_failed'' (purgeRows S (b_id b) u (map emitted_of stored)) (s\<lparr>normalized := normalized s + length stored\<rparr>)"
  have s: "view ?s = view s" using view_guarded [OF purge_cur] by simp
  obtain w m where adv: "advanceCursor S (b_id b) c head NORMALIZATION_RULES_VERSION (world ?s) = (w, m)" by fastforce
  show ?thesis
  proof (cases m)
    case None
    have "cur w = (view s)(b_id b := (view s (b_id b))(c := advanced c head NORMALIZATION_RULES_VERSION (view s (b_id b) c)))"
      using advance_cur [OF adv [unfolded None]] s by simp
    then show ?thesis by (simp add: finish_chain_def Let_def adv None view_anchorStored)
  next
    case (Some message)
    have "cur w = view s" using advance_failed_cur [OF adv [unfolded Some]] s by simp
    then show ?thesis by (simp add: finish_chain_def Let_def adv Some view_persist_failed)
  qed
qed

lemma view_prepared: "view (snd (prepared S b c rows s)) = view s"
proof -
  let ?s1 = "report S b c (CallPricing (length rows)) (count_fetched c (length rows) s)"
  obtain rows2 s2 where e1: "enriched (spotPrices S) (b_id b) ''price_enrichment_failed'' rows ?s1 = (rows2, s2)" by fastforce
  obtain rows3 s3 where e2: "enriched (historicalPrices S) (b_id b) ''historical_price_enrichment_failed'' rows2 s2 = (rows3, s3)" by fastforce
  have "view (snd (enriched (spotPrices S) (b_id b) ''price_enrichment_failed'' rows ?s1)) = view ?s1" by (rule view_enriched) (rule spot_cur)
  moreover have "view (snd (enriched (historicalPrices S) (b_id b) ''historical_price_enrichment_failed'' rows2 s2)) = view s2"
    by (rule view_enriched) (rule historical_cur)
  ultimately show ?thesis by (simp add: prepared_def e1 e2)
qed

text \<open>A persistence leaves the cursors alone, or it saved its rows and advanced its own.\<close>

lemma view_persistChain:
  "view (persistChain S u b c head rows s) = view s \<or>
   (\<exists>w saves stored. saveRows S (b_id b) u (fst (prepared S b c rows s)) (world (snd (prepared S b c rows s))) = (w, saves, Inr stored)) \<and>
     view (persistChain S u b c head rows s) = (view s)(b_id b := (view s (b_id b))(c := advanced c head NORMALIZATION_RULES_VERSION (view s (b_id b) c)))"
proof -
  obtain hashed s1 where p: "prepared S b c rows s = (hashed, s1)" by fastforce
  have s1: "view s1 = view s" using view_prepared [of b c rows s] p by simp
  obtain w saves outcome where save: "saveRows S (b_id b) u hashed (world s1) = (w, saves, outcome)" by (metis prod_cases3)
  let ?s = "foldl (\<lambda>st n. report S b c (CallSaving n) st) (s1\<lparr>world := w\<rparr>) saves"
  have s: "view ?s = view s" using save_cur [of "b_id b" u hashed "world s1"] save s1 by (simp add: view_saves)
  show ?thesis
  proof (cases outcome)
    case (Inl message)
    then show ?thesis using s by (simp add: persistChain_parts p after_save_def save view_persist_failed)
  next
    case (Inr stored)
    then show ?thesis using view_finish_chain [of u b c head stored ?s] s by (auto simp: persistChain_parts p after_save_def save)
  qed
qed

lemma sound_persist:
  assumes "sound origin v (view s)" "\<And>w saves stored. saveRows S (b_id b) u (fst (prepared S b c rows s)) (world (snd (prepared S b c rows s))) = (w, saves, Inr stored) \<Longrightarrow> origin (b_id b) c head"
  shows "sound origin v (view (persistChain S u b c head rows s))"
  using view_persistChain [of u b c head rows s] assms(1) sound_step [OF assms(1), of "b_id b" c head NORMALIZATION_RULES_VERSION] assms(2) by metis

lemma view_binding_failed: "view (binding_failed S b m s) = view s"
proof -
  have "view (foldl (\<lambda>st c. report S b c call st) s cs) = view s" for call s cs by (induction cs arbitrary: s) simp_all
  then show ?thesis by (simp add: binding_failed_def)
qed

end

section \<open>A wallet and the run\<close>

lemma persisted_same [simp]:
  "persisted (skip bid k code message s) = persisted s" "persisted (guarded bid code eff s) = persisted s" "persisted (report S b c call s) = persisted s"
  "persisted (count_fetched c n s) = persisted s" "persisted (snd (enriched enrich bid code rows s)) = persisted s"
  by (simp_all add: skip_def guarded_def count_fetched_def enriched_def report_def split: prod.splits option.splits)

lemma anchorStored_persisted [simp]: "persisted (anchorStored S bid rows s) = persisted s"
proof -
  have "persisted (anchor_row S bid s row) = persisted s" for row s
    by (simp add: anchor_row_def Let_def split: sum.splits prod.splits option.splits)
  then show ?thesis unfolding anchorStored_def by (induction rows arbitrary: s) simp_all
qed

lemma saves_persisted [simp]: "persisted (foldl (\<lambda>st n. report S b c (CallSaving n) st) s saves) = persisted s"
  by (induction saves arbitrary: s) simp_all

lemma finish_persisted [simp]: "persisted (finish_chain S u b c head stored s) = persisted s"
  by (simp add: finish_chain_def Let_def persist_failed_def split: prod.splits option.splits)

lemma prepared_persisted: "persisted (snd (prepared S b c rows s)) = persisted s"
proof -
  let ?s1 = "report S b c (CallPricing (length rows)) (count_fetched c (length rows) s)"
  obtain rows2 s2 where e1: "enriched (spotPrices S) (b_id b) ''price_enrichment_failed'' rows ?s1 = (rows2, s2)" by fastforce
  obtain rows3 s3 where e2: "enriched (historicalPrices S) (b_id b) ''historical_price_enrichment_failed'' rows2 s2 = (rows3, s3)" by fastforce
  have "persisted s2 = persisted s" using persisted_same(5) [of "spotPrices S" "b_id b" "''price_enrichment_failed''" rows ?s1] e1 by simp
  moreover have "persisted s3 = persisted s2"
    using persisted_same(5) [of "historicalPrices S" "b_id b" "''historical_price_enrichment_failed''" rows2 s2] e2 by simp
  ultimately show ?thesis by (simp add: prepared_def e1 e2)
qed

lemma persistChain_persisted [simp]: "persisted (persistChain S u b c head rows s) = persisted s"
proof -
  obtain hashed s1 where p: "prepared S b c rows s = (hashed, s1)" by fastforce
  obtain w saves outcome where save: "saveRows S (b_id b) u hashed (world s1) = (w, saves, outcome)" by (metis prod_cases3)
  have "persisted s1 = persisted s" using prepared_persisted [of S b c rows s] p by simp
  then show ?thesis by (cases outcome) (simp_all add: persistChain_parts p after_save_def save persist_failed_def)
qed

definition ended :: "binding_record \<Rightarrow> int list \<Rightarrow> 'w sync_state \<Rightarrow> bool" where
  "ended b cs s \<longleftrightarrow> (\<forall>c \<in> set cs. term_at (progress s) (b_id b) c)"

text \<open>What the callbacks keep: progress moves on, and a chain that was handed over has ended.\<close>

definition handed :: "'w sync_state \<Rightarrow> binding_record \<Rightarrow> 'w sync_state \<Rightarrow> bool" where
  "handed s0 b s \<longleftrightarrow> moves s0 s \<and> tracker_ok (progress s) \<and> ended b (persisted s) s"

lemma handed_step:
  assumes "handed s0 b s" "moves s s'" "persisted s' = persisted s"
  shows "handed s0 b s'"
  using assms moves_ok [OF assms(2)] moves_term [OF assms(2)] moves_trans [of s0 s s'] by (auto simp: handed_def ended_def)

lemma handed_persist:
  assumes "handed s0 b s"
  shows "handed s0 b (persistChain S u b c head rows (s\<lparr>persisted := persisted s @ [c]\<rparr>))"
proof -
  let ?s = "s\<lparr>persisted := persisted s @ [c]\<rparr>"
  let ?t = "persistChain S u b c head rows ?s"
  have ok: "tracker_ok (progress ?s)" using assms by (simp add: handed_def)
  have m: "moves s ?t" by (rule moves_trans [OF moves_same persistChain_moves]) simp
  have "term_at (progress ?t) (b_id b) x" if "x \<in> set (persisted s) \<or> x = c" for x
    using that persistChain_ends [OF ok, where b = b and c = c and u = u and head = head and rows = rows and S = S] moves_term [OF m] assms by (auto simp: handed_def ended_def)
  then show ?thesis using m assms moves_trans [of s0 s ?t] moves_ok [OF m] by (auto simp: handed_def ended_def)
qed

lemma handed_closed: "hook_closed view seen (sync_hooks S u b) (handed s0 b)"
  unfolding hook_closed_def sync_hooks_def
proof (intro conjI allI impI)
  fix c head rows s assume "handed s0 b s"
  then show "handed s0 b (fst (onChain \<lparr>onChain = (\<lambda>c head rows st. (persistChain S u b c head rows (st\<lparr>persisted := persisted st @ [c]\<rparr>), None)),
     onChainError = (\<lambda>c message st. report S b c (CallFail message) st)\<rparr> c head rows s))" by (simp add: handed_persist)
next
  fix c message s assume "handed s0 b s"
  then show "handed s0 b (onChainError \<lparr>onChain = (\<lambda>c head rows st. (persistChain S u b c head rows (st\<lparr>persisted := persisted st @ [c]\<rparr>), None)),
     onChainError = (\<lambda>c message st. report S b c (CallFail message) st)\<rparr> c message s)"
    using handed_step [OF _ moves_report] by simp
next
  fix s w assume "handed s0 b s"
  then show "handed s0 b (s\<lparr>world := w\<rparr>)" by (rule handed_step) (simp_all add: moves_same)
qed

lemma persist_rest_moves: "moves s (persist_rest S u b r s c)" "persisted (persist_rest S u b r s c) = persisted s"
  "tracker_ok (progress s) \<Longrightarrow> ended b (persisted s) s \<Longrightarrow> term_at (progress (persist_rest S u b r s c)) (b_id b) c"
  by (auto simp: persist_rest_def ended_def moves_refl persistChain_moves persistChain_ends report_ends intro!: moves_after split: option.splits)

lemma rest_ends:
  assumes "tracker_ok (progress s)" "ended b (persisted s) s"
  shows "moves s (foldl (persist_rest S u b r) s cs) \<and> ended b cs (foldl (persist_rest S u b r) s cs) \<and>
    persisted (foldl (persist_rest S u b r) s cs) = persisted s"
proof (induction cs rule: rev_induct)
  case Nil
  show ?case by (simp add: moves_refl ended_def)
next
  case (snoc c cs)
  let ?t = "foldl (persist_rest S u b r) s cs"
  have ok: "tracker_ok (progress ?t)" using snoc assms(1) by (blast intro: moves_ok)
  have e: "ended b (persisted ?t) ?t" using snoc assms moves_term [of s ?t] by (auto simp: ended_def)
  note p = persist_rest_moves(1,2) [where s = ?t and S = S and u = u and b = b and r = r and c = c]
  have q: "term_at (progress (persist_rest S u b r ?t c)) (b_id b) c" by (rule persist_rest_moves(3) [OF ok e])
  have "ended b cs (persist_rest S u b r ?t c)" using snoc moves_term [OF p(1) ok] by (auto simp: ended_def)
  then show ?case using snoc p(2) q moves_trans [OF _ p(1)] by (auto simp: ended_def)
qed

context sync_services begin

lemma binding_ends:
  assumes ok: "tracker_ok (progress st)" and run: "sync_binding S u (st, f) b = (st', f')"
  shows "moves st st' \<and> ended b SUPPORTED_CHAIN_IDS st'"
proof -
  have failed: "moves st (binding_failed S b m s) \<and> ended b SUPPORTED_CHAIN_IDS (binding_failed S b m s)" if "moves st s" for s m
    using moves_trans [OF that binding_failed_moves] binding_failed_ends [OF moves_ok [OF that ok]] by (simp add: ended_def)
  show ?thesis
  proof (cases "cursorsOf S (b_id b) (world st)")
    case (Inl m)
    then show ?thesis using run failed [OF moves_refl, of m] by (auto simp: sync_binding_def)
  next
    case (Inr cursors)
    obtain s r where scan: "scan S (sync_hooks S u b) (b_walletAddress b) (since_of cursors) (st\<lparr>persisted := []\<rparr>) = (s, r)" by fastforce
    have "handed st b (st\<lparr>persisted := []\<rparr>)" using ok by (simp add: handed_def ended_def moves_same)
    then have h: "handed st b s" by (rule scan_keeps [OF handed_closed _ scan])
    then have s: "moves st s" "tracker_ok (progress s)" "ended b (persisted s) s" by (simp_all add: handed_def)
    show ?thesis
    proof (cases r)
      case (Inl e)
      then show ?thesis using run Inr scan failed [OF s(1), of "code_of e"] by (auto simp: sync_binding_def)
    next
      case (Inr res)
      let ?t = "foldl (persist_rest S u b res) s SUPPORTED_CHAIN_IDS"
      have t: "moves st ?t" "ended b SUPPORTED_CHAIN_IDS ?t" using rest_ends [OF s(2,3)] moves_trans [OF s(1)] by blast+
      obtain w m where mark: "markInitialSynced S (b_id b) (world ?t) = (w, m)" by fastforce
      have tw: "moves st (?t\<lparr>world := w\<rparr>)" by (rule moves_trans [OF t(1) moves_same]) simp
      show ?thesis
        using run Inr \<open>cursorsOf S (b_id b) (world st) = Inr cursors\<close> scan t failed [OF tw]
        by (cases "b_initialSyncedAt b"; cases m) (auto simp: sync_binding_def mark Let_def ended_def intro: moves_trans [OF _ moves_same])
    qed
  qed
qed

lemma bindings_end:
  assumes "tracker_ok (progress st)" "foldl (sync_binding S u) (st, f) bs = (st', f')"
  shows "moves st st' \<and> (\<forall>b \<in> set bs. ended b SUPPORTED_CHAIN_IDS st')"
  using assms(2)
proof (induction bs arbitrary: st' f' rule: rev_induct)
  case Nil
  then show ?case by (simp add: moves_refl)
next
  case (snoc b bs)
  obtain s g where s: "foldl (sync_binding S u) (st, f) bs = (s, g)" by fastforce
  note ih = snoc.IH [OF s]
  have ok: "tracker_ok (progress s)" using ih assms(1) by (blast intro: moves_ok)
  have step: "moves s st' \<and> ended b SUPPORTED_CHAIN_IDS st'" using binding_ends [OF ok] snoc.prems s by simp
  then have "ended x SUPPORTED_CHAIN_IDS st'" if "x \<in> set bs" for x
    using ih that moves_term [of s st'] ok by (auto simp: ended_def)
  then show ?case using step ih moves_trans by auto
qed

end

context sync_services begin

lemma sound_closed:
  assumes "cursorsOf S (b_id b) w0 = Inr cursors" "\<And>c head. proven_head S seen u b c head \<Longrightarrow> origin (b_id b) c head"
  shows "hook_closed cur (seen (b_walletAddress b) (since_of cursors)) (sync_hooks S u b) (\<lambda>s. sound origin v (view s))"
  unfolding hook_closed_def sync_hooks_def
proof (intro conjI allI impI)
  fix c head rows s assume sn: "seen (b_walletAddress b) (since_of cursors) c head rows" and s: "sound origin v (view s)"
  have "sound origin v (view (persistChain S u b c head rows (s\<lparr>persisted := persisted s @ [c]\<rparr>)))"
  proof (rule sound_persist)
    show "sound origin v (view (s\<lparr>persisted := persisted s @ [c]\<rparr>))" using s by simp
  next
    fix w saves stored
    assume "saveRows S (b_id b) u (fst (prepared S b c rows (s\<lparr>persisted := persisted s @ [c]\<rparr>)))
      (world (snd (prepared S b c rows (s\<lparr>persisted := persisted s @ [c]\<rparr>)))) = (w, saves, Inr stored)"
    then have "proven_head S seen u b c head" unfolding proven_head_def using assms(1) sn by blast
    then show "origin (b_id b) c head" by (rule assms(2))
  qed
  then show "sound origin v (view (fst (onChain \<lparr>onChain = (\<lambda>c head rows st. (persistChain S u b c head rows (st\<lparr>persisted := persisted st @ [c]\<rparr>), None)),
     onChainError = (\<lambda>c message st. report S b c (CallFail message) st)\<rparr> c head rows s)))" by simp
qed simp_all

lemma heads_handed:
  assumes "scan S (sync_hooks S u b) wallet since st = (s, Inr res)" "mget (chainHeads res) c = Some head"
  shows "c \<in> set (persisted s)"
proof (rule scan_heads [OF assms, where Q = "\<lambda>s. c \<in> set (persisted s)"])
  show "c \<in> set (persisted (fst (onChain (sync_hooks S u b) c head rows s)))" for head rows s by (simp add: sync_hooks_def)
  show "hook_closed cur (seen wallet since) (sync_hooks S u b) (\<lambda>s. c \<in> set (persisted s))"
    by (auto simp: hook_closed_def sync_hooks_def)
qed

lemma rest_view:
  assumes "\<And>c head. mget (chainHeads res) c = Some head \<Longrightarrow> c \<in> set (persisted s)"
  shows "view (foldl (persist_rest S u b res) s cs) = view s \<and> persisted (foldl (persist_rest S u b res) s cs) = persisted s"
proof (induction cs rule: rev_induct)
  case Nil
  then show ?case by simp
next
  case (snoc c cs)
  then show ?case using assms by (auto simp: persist_rest_def split: option.splits)
qed

lemma binding_sound:
  assumes run: "sync_binding S u (st, f) b = (st', f')" and st: "sound origin v (view st)"
    and origin: "\<And>c head. proven_head S seen u b c head \<Longrightarrow> origin (b_id b) c head"
  shows "sound origin v (view st')"
proof (cases "cursorsOf S (b_id b) (world st)")
  case (Inl m)
  then have "st' = binding_failed S b m st" using run by (simp add: sync_binding_def)
  then show ?thesis using st by (simp add: view_binding_failed)
next
  case (Inr cursors)
  obtain s r where scan: "scan S (sync_hooks S u b) (b_walletAddress b) (since_of cursors) (st\<lparr>persisted := []\<rparr>) = (s, r)" by fastforce
  have s: "sound origin v (view s)"
    by (rule scan_keeps [OF sound_closed [where origin = origin, OF Inr origin] _ scan]) (use st in simp_all)
  show ?thesis
  proof (cases r)
    case (Inl e)
    then have "st' = binding_failed S b (code_of e) s" using run Inr scan by (simp add: sync_binding_def)
    then show ?thesis using s by (simp add: view_binding_failed)
  next
    case (Inr res)
    let ?t = "foldl (persist_rest S u b res) s SUPPORTED_CHAIN_IDS"
    have handed: "c \<in> set (persisted s)" if "mget (chainHeads res) c = Some head" for c head
      by (rule heads_handed [OF scan [unfolded Inr] that])
    have t: "view ?t = view s" by (rule rest_view [THEN conjunct1]) (rule handed)
    obtain w m where mark: "markInitialSynced S (b_id b) (world ?t) = (w, m)" by fastforce
    have w: "cur w = view s" using initial_cur [of "b_id b" "world ?t"] mark t by simp
    have "view st' = view s"
      using run \<open>cursorsOf S (b_id b) (world st) = Inr cursors\<close> scan Inr t w
      by (cases "b_initialSyncedAt b"; cases m) (auto simp: sync_binding_def mark Let_def view_binding_failed)
    then show ?thesis using s by simp
  qed
qed

lemma run_sound:
  assumes "foldl (sync_binding S u) (st, f) bs = (st', f')"
  shows "sound (\<lambda>b c head. \<exists>bd \<in> set bs. b_id bd = b \<and> proven_head S seen u bd c head) (view st) (view st')"
proof -
  have "sound (\<lambda>b c head. \<exists>bd \<in> set xs. b_id bd = b \<and> proven_head S seen u bd c head) (view st) (view s)"
    if "foldl (sync_binding S u) (st, f) ys = (s, g)" "set ys \<subseteq> set xs" for s g xs ys
    using that
  proof (induction ys arbitrary: s g rule: rev_induct)
    case Nil
    then show ?case by (simp add: sound_refl)
  next
    case (snoc b ys)
    obtain s1 g1 where s1: "foldl (sync_binding S u) (st, f) ys = (s1, g1)" by fastforce
    have "sync_binding S u (s1, g1) b = (s, g)" using snoc.prems(1) s1 by simp
    then show ?case
    proof (rule binding_sound)
      show "sound (\<lambda>b c head. \<exists>bd \<in> set xs. b_id bd = b \<and> proven_head S seen u bd c head) (view st) (view s1)"
        using snoc.IH [OF s1] snoc.prems(2) by simp
    qed (use snoc.prems(2) in auto)
  qed
  from this [OF assms] show ?thesis by blast
qed

lemma link_passes_cur: "cur (fst (link_passes S u w)) = cur w"
  using own_cur [of u w] bridge_cur by (auto simp: link_passes_def split: prod.splits option.splits)

end

text \<open>C26. A synchronisation moves a cursor only forward, and only to a head it has proved: one up to which a chain of that
  wallet was completely observed, starting from the cursors that were read, and whose rows were saved. Any failure in
  between leaves the cursor where it was.\<close>

theorem cursors_sound:
  assumes "sync_services S cur seen" "runSyncWork S u listens bs w = (st, r)"
  shows "sound (\<lambda>b c head. \<exists>bd \<in> set bs. b_id bd = b \<and> proven_head S seen u bd c head) (cur w) (cur (world st))"
proof -
  obtain s allFailed where s: "foldl (sync_binding S u) (first_state S listens bs w, True) bs = (s, allFailed)" by fastforce
  have run: "sound (\<lambda>b c head. \<exists>bd \<in> set bs. b_id bd = b \<and> proven_head S seen u bd c head) (cur w) (cur (world s))"
    using sync_services.run_sound [OF assms(1) s] by (simp add: first_state_def)
  have "cur (world (guarded bid code (link_passes S u) s)) = cur (world s)" for bid code
    by (rule sync_services.view_guarded [OF assms(1)]) (rule sync_services.link_passes_cur [OF assms(1)])
  then show ?thesis using assms(2) s run by (auto simp: runSyncWork_def Let_def split: if_splits)
qed

text \<open>C27. A synchronisation ends every chain. Whatever fails on the way, when the run is over each supported chain of each
  wallet it was started for is shown as done or failed.\<close>

theorem sync_ends_all:
  assumes "sync_services S cur seen" "runSyncWork S u listens bs w = (st, r)"
  shows "\<forall>b \<in> set bs. \<forall>c \<in> set SUPPORTED_CHAIN_IDS. term_at (progress st) (b_id b) c"
proof -
  obtain s allFailed where s: "foldl (sync_binding S u) (first_state S listens bs w, True) bs = (s, allFailed)" by fastforce
  have "tracker_ok (progress (first_state S listens bs w))" by (simp add: first_state_def new_tracker_ok)
  from sync_services.bindings_end [OF assms(1) this s]
  have "\<forall>b \<in> set bs. \<forall>c \<in> set SUPPORTED_CHAIN_IDS. term_at (progress s) (b_id b) c" by (simp add: ended_def)
  moreover have "progress st = progress s"
    using assms(2) s by (auto simp: runSyncWork_def Let_def split: if_splits)
  ultimately show ?thesis by simp
qed

section \<open>The contract on the real scan and the in-memory repositories\<close>

lemma int_str_inj: "int_str i = int_str j \<Longrightarrow> i = j"
proof -
  have digit: "c \<noteq> CHR ''-''" if "c \<in> set (nat_str n)" for c n
    using of_char_nat_str [OF that] by auto
  have head: "nat_str n \<noteq> CHR ''-'' # s" for n s
    using digit [of "CHR ''-''" n] by auto
  assume "int_str i = int_str j"
  then show "i = j" by (auto simp: int_str_def head head [symmetric] split: if_splits)
qed

lemma cursor_key_inj: "cursor_key b c = cursor_key b' c' \<longleftrightarrow> b = b' \<and> c = c'"
proof
  assume eq: "cursor_key b c = cursor_key b' c'"
  have "CHR '':'' \<notin> set (nat_str n)" for n using of_char_nat_str [of "CHR '':''" n] by auto
  then have plain: "\<forall>x \<in> set (rev (int_str c)). x \<noteq> CHR '':''" for c
    by (auto simp: int_str_def)
  have take: "takeWhile (\<lambda>x. x \<noteq> CHR '':'') (rev (cursor_key b c)) = rev (int_str c)" for b c
    using plain [of c] by (simp add: cursor_key_def takeWhile_append)
  have "int_str c = int_str c'" using take [of b c] take [of b' c'] eq by simp
  then have "c = c'" by (rule int_str_inj)
  then show "b = b' \<and> c = c'" using eq by (simp add: cursor_key_def)
qed simp

text \<open>A property the callbacks keep is kept by the concurrent scan: it is the invariant of its pool.\<close>

lemma scan_pool:
  assumes closed: "\<And>c head rows s. \<exists>entry. chainId entry = c \<and> observed H env wallet since entry head rows \<Longrightarrow> P s \<Longrightarrow> P (fst (onChain hooks c head rows s))"
    and error: "\<And>c m s. P s \<Longrightarrow> P (onChainError hooks c m s)"
  shows "pool_work scan_start (scan_finish H env hooks wallet since) (\<lambda>_. True) (\<lambda>st. P (snd st)) (\<lambda>_ _ _. True)
    (\<lambda>_ _ _. True) (\<lambda>_. False)"
proof (unfold_locales, goal_cases)
  case (2 s x m s' b)
  obtain blocked r where scan: "scan_chain H env wallet since x (fst s) = (blocked, r)" by fastforce
  show ?case
  proof (cases r)
    case (Inl e)
    then show ?thesis using 2 scan error by (auto simp: scan_finish_def)
  next
    case (Inr hr)
    obtain head rows where hr: "hr = (head, rows)" by (cases hr)
    have "observed H env wallet since x head rows" using scan_chain_observed scan Inr hr by metis
    then have p: "P (fst (onChain hooks (chainId x) head rows (snd s)))" using closed 2(1) by blast
    obtain t m' where t: "onChain hooks (chainId x) head rows (snd s) = (t, m')" by fastforce
    show ?thesis using 2 scan Inr hr p t error by (cases m') (auto simp: scan_finish_def)
  qed
next
  case (3 s x m s' e)
  then show ?case by (auto simp: scan_finish_def split: prod.splits sum.splits option.splits)
qed simp_all

definition scan_seen :: "host \<Rightarrow> rpc_env \<Rightarrow> string \<Rightarrow> (int, nat) jmap \<Rightarrow> int \<Rightarrow> nat \<Rightarrow> indexed_transaction list \<Rightarrow> bool" where
  "scan_seen H env wallet since c head rows \<longleftrightarrow> (\<exists>entry. chainId entry = c \<and> observed H env wallet since entry head rows)"

lemma chain_pool: "0 < CHAIN_CONCURRENCY" "list_all (\<lambda>_. True) CHAIN_REGISTRY"
  by (simp_all add: CHAIN_CONCURRENCY_def list_all_iff)

lemma adapter_keeps:
  assumes closed: "hook_closed world_cursor (scan_seen H env wallet since) hooks P" and P: "P st"
    and run: "adapter_scan H env hooks wallet since st = (st', r)"
  shows "P st'"
proof -
  obtain blocked t where f: "fetchTransactions H env hooks wallet since (sources (world st), st) = ((blocked, t), r)"
    and st': "st' = t\<lparr>world := (world t)\<lparr>sources := blocked\<rparr>\<rparr>"
    using run by (auto simp: adapter_scan_def split: prod.splits)
  have pool: "pool_work scan_start (scan_finish H env hooks wallet since) (\<lambda>_. True) (\<lambda>st. P (snd st)) (\<lambda>_ _ _. True) (\<lambda>_ _ _. True) (\<lambda>_. False)"
    by (rule scan_pool) (use closed in \<open>auto simp: hook_closed_def scan_seen_def\<close>)
  have "P t"
  proof (cases "apiKey env = []")
    case True
    then show ?thesis using f P by (simp add: fetchTransactions_def)
  next
    case False
    obtain q where q: "mapWithConcurrency (settles env ''chains'') CHAIN_CONCURRENCY scan_start (scan_finish H env hooks wallet since)
        (sources (world st), st) CHAIN_REGISTRY = ((blocked, t), q)"
      using f False by (auto simp: fetchTransactions_def split: prod.splits sum.splits)
    show ?thesis
    proof (cases q)
      case (Inl e)
      then show ?thesis using pool_work.pool_error(2) [OF pool _ chain_pool q [unfolded Inl]] P by simp
    next
      case (Inr outcomes)
      then show ?thesis using pool_work.pool_results(1) [OF pool _ chain_pool q [unfolded Inr]] P by simp
    qed
  qed
  moreover have "world_cursor ((world t)\<lparr>sources := blocked\<rparr>) = world_cursor (world t)" by (intro ext) (simp add: world_cursor_def)
  ultimately show ?thesis using closed by (simp add: hook_closed_def st')
qed

text \<open>Every chain in the result was handed over.\<close>

lemma handover_pool:
  assumes on: "\<And>c head rows s. Q c (fst (onChain hooks c head rows s))"
    and keep: "\<And>c d head rows s. scan_seen H env wallet since d head rows \<Longrightarrow> Q c s \<Longrightarrow> Q c (fst (onChain hooks d head rows s))" "\<And>c d m s. Q c s \<Longrightarrow> Q c (onChainError hooks d m s)"
  shows "pool_work scan_start (scan_finish H env hooks wallet since) (\<lambda>_. True) (\<lambda>_. True) (\<lambda>_ _ _. True)
    (\<lambda>st x outcome. fst outcome = x \<and> (\<forall>head rows. snd outcome = Inr (head, rows) \<longrightarrow> Q (chainId x) (snd st))) (\<lambda>_. False)"
proof (unfold_locales, goal_cases)
  case (2 s x m s' b)
  obtain blocked r where scan: "scan_chain H env wallet since x (fst s) = (blocked, r)" by fastforce
  show ?case
  proof (cases r)
    case (Inl e)
    then show ?thesis using 2 scan by (auto simp: scan_finish_def)
  next
    case (Inr hr)
    obtain head rows where hr: "hr = (head, rows)" by (cases hr)
    obtain t m' where t: "onChain hooks (chainId x) head rows (snd s) = (t, m')" by fastforce
    have "Q (chainId x) t" using on [of "chainId x" head rows "snd s"] t by simp
    then show ?thesis using 2 scan Inr hr t by (cases m') (auto simp: scan_finish_def)
  qed
next
  case (3 s x m s' e)
  then show ?case by (auto simp: scan_finish_def split: prod.splits sum.splits option.splits)
next
  case (5 s x m s' b y c)
  obtain blocked r where scan: "scan_chain H env wallet since x (fst s) = (blocked, r)" by fastforce
  have mono: "Q d (snd s')" if q: "Q d (snd s)" for d
  proof (cases r)
    case (Inl e)
    then show ?thesis using 5 scan keep(2) [OF q] by (auto simp: scan_finish_def)
  next
    case (Inr hr)
    obtain head rows where hr: "hr = (head, rows)" by (cases hr)
    obtain t m' where t: "onChain hooks (chainId x) head rows (snd s) = (t, m')" by fastforce
    have "scan_seen H env wallet since (chainId x) head rows" using scan_chain_observed scan Inr hr unfolding scan_seen_def by metis
    from keep(1) [OF this q] have "Q d t" using t by simp
    then show ?thesis using 5 scan Inr hr t keep(2) by (cases m') (auto simp: scan_finish_def)
  qed
  then show ?case using 5 by blast
qed simp_all

lemma heads_good:
  "mget (chainHeads (foldl add_outcome r outcomes)) c \<noteq> None \<Longrightarrow> mget (chainHeads r) c \<noteq> None \<or> c \<in> set (map good_id (good_outcomes outcomes))"
proof (induction outcomes arbitrary: r)
  case (Cons outcome outcomes)
  obtain entry o' where o: "outcome = (entry, o')" by (cases outcome)
  have "mget (chainHeads (add_outcome r outcome)) c \<noteq> None \<or> c \<in> set (map good_id (good_outcomes outcomes))"
    using Cons.IH [of "add_outcome r outcome"] Cons.prems by simp
  then show ?case by (cases o') (auto simp: o add_outcome_def good_Cons good_id_def update_conv' split: if_splits)
qed simp

lemma good_handed:
  "list_all2 (\<lambda>x outcome. fst outcome = x \<and> (\<forall>head rows. snd outcome = Inr (head, rows) \<longrightarrow> (chainId x = c \<longrightarrow> R))) xs outcomes \<Longrightarrow>
   c \<in> set (map good_id (good_outcomes outcomes)) \<Longrightarrow> R"
proof (induction rule: list_all2_induct)
  case Nil
  then show ?case by (simp add: good_Nil)
next
  case (Cons x xs outcome outcomes)
  then show ?case by (cases "snd outcome") (auto simp: good_Cons good_id_def)
qed

interpretation memory: sync_services "memory_services H env uuid hash" world_cursor "scan_seen H env" for H env uuid hash
proof (unfold_locales, goal_cases)
  case (1 wallet since hooks P st st' r)
  then show ?case using adapter_keeps [of H env wallet since hooks P st st' r] by (simp add: memory_services_def)
next
  case (2 hooks wallet since st st' res c head Q)
  obtain blocked t where f: "fetchTransactions H env hooks wallet since (sources (world st), st) = ((blocked, t), Inr res)"
    and st': "st' = t\<lparr>world := (world t)\<lparr>sources := blocked\<rparr>\<rparr>"
    using 2(1) by (auto simp: memory_services_def adapter_scan_def split: prod.splits)
  have key: "apiKey env \<noteq> []" using f by (auto simp: fetchTransactions_def)
  obtain outcomes where q: "mapWithConcurrency (settles env ''chains'') CHAIN_CONCURRENCY scan_start (scan_finish H env hooks wallet since)
      (sources (world st), st) CHAIN_REGISTRY = ((blocked, t), Inr outcomes)" and col: "collect_outcomes outcomes = Inr res"
    using f key by (auto simp: fetchTransactions_def split: prod.splits sum.splits)
  have pool: "pool_work scan_start (scan_finish H env hooks wallet since) (\<lambda>_. True) (\<lambda>_. True) (\<lambda>_ _ _. True)
    (\<lambda>st x outcome. fst outcome = x \<and> (\<forall>head rows. snd outcome = Inr (head, rows) \<longrightarrow> (chainId x = c \<longrightarrow> Q (snd st)))) (\<lambda>_. False)"
    by (rule handover_pool [where Q = "\<lambda>d s. d = c \<longrightarrow> Q s"]) (use 2(3,4) in \<open>auto simp: hook_closed_def\<close>)
  have all: "list_all2 (\<lambda>x outcome. fst outcome = x \<and> (\<forall>head rows. snd outcome = Inr (head, rows) \<longrightarrow> (chainId x = c \<longrightarrow> Q t))) CHAIN_REGISTRY outcomes"
    using pool_work.pool_results(2) [OF pool _ chain_pool q] by simp
  have "c \<in> set (map good_id (good_outcomes outcomes))"
    using 2(2) col heads_good [of "\<lparr>transactions = [], chainHeads = []\<rparr>" outcomes c] by (auto simp: collect_outcomes_def Let_def split: if_splits)
  then have "Q t" using good_handed [OF all] by blast
  then show ?case using 2(4) by (simp add: st' hook_closed_def world_cursor_def fun_eq_iff)
qed (auto simp: memory_services_def world_cursor_def advance_def advanced_def cursor_key_inj update_conv' Let_def fun_eq_iff
    split: prod.splits sum.splits option.splits)

text \<open>A provider on which every chain is at block 16 and empty, except that chain 10 does not answer.\<close>

definition quiet_env :: rpc_env where
  "quiet_env = \<lparr>fetch = (\<lambda>req k. if rq_url req = ''https://opt-mainnet.g.alchemy.com/v2/k'' then Inl ''fetch failed''
       else if rq_method req = ''eth_blockNumber'' then Inr (reply (VStr ''0x10'')) else Inr (reply (VObj [(''transfers'', VArr [])]))),
     retryBase = VUndef, apiKey = ''k'', settles = (\<lambda>_ k. 7 * k), clock = 0\<rparr>"

definition one_wallet :: binding_record where
  "one_wallet = \<lparr>b_id = ''b'', b_walletAddress = ''0xW'', b_verifiedAt = None, b_initialSyncedAt = None\<rparr>"

definition fresh_world :: sync_world where
  "fresh_world = \<lparr>ledger = \<lparr>mock_repo.transactions = [], bindingOwners = []\<rparr>, cursorRows = [], sources = [], wallets = [(''u'', [one_wallet])]\<rparr>"

definition quiet_run :: "sync_world sync_state \<times> (http_error, sync_result) result" where
  "quiet_run = runSyncWork (memory_services std_host quiet_env hd (\<lambda>_. [])) ''u'' True [one_wallet] fresh_world"

text \<open>The witnesses of the two theorems: the run above, whatever it computes, ends chain 42161 and leaves sound cursors.\<close>

lemma sync_ends_all_witness: "term_at (progress (fst quiet_run)) ''b'' 42161"
proof -
  have run: "runSyncWork (memory_services std_host quiet_env hd (\<lambda>_. [])) ''u'' True [one_wallet] fresh_world = (fst quiet_run, snd quiet_run)"
    by (simp add: quiet_run_def)
  show ?thesis using sync_ends_all [OF memory.sync_services_axioms run]
    by (simp add: one_wallet_def SUPPORTED_CHAIN_IDS_def CHAIN_REGISTRY_def)
qed

lemma cursors_sound_witness:
  "sound (\<lambda>b c head. \<exists>bd \<in> {one_wallet}. b_id bd = b \<and> proven_head (memory_services std_host quiet_env hd (\<lambda>_. [])) (scan_seen std_host quiet_env) ''u'' bd c head)
     (world_cursor fresh_world) (world_cursor (world (fst quiet_run)))"
proof -
  have run: "runSyncWork (memory_services std_host quiet_env hd (\<lambda>_. [])) ''u'' True [one_wallet] fresh_world = (fst quiet_run, snd quiet_run)"
    by (simp add: quiet_run_def)
  show ?thesis using cursors_sound [OF memory.sync_services_axioms run] by simp
qed

end
