(* ===== verification/Merkle.thy ===== *)
theory Merkle
  imports JsValue
begin

text \<open>
  The canonical evidence document and its Merkle tree (\<open>evidence/evidence.merkle.ts\<close>), and the proof that one
  file belongs to it (\<open>report-vc/report-vc.policy.ts\<close>). The hash \<open>keccak256\<close> of the library viem is a parameter
  from bytes to a hexadecimal text; strings are the bytes of their UTF-8 encoding.
\<close>

section \<open>Canonical JSON\<close>

text \<open>\<open>JSON.stringify\<close> of a string.\<close>

definition json_char :: "char \<Rightarrow> string" where
  "json_char c = (let n = of_char c :: nat in
     if n = 34 then [char_of (92::nat), char_of (34::nat)]
     else if n = 92 then [char_of (92::nat), char_of (92::nat)]
     else if n = 8 then char_of (92::nat) # ''b''
     else if n = 9 then char_of (92::nat) # ''t''
     else if n = 10 then char_of (92::nat) # ''n''
     else if n = 12 then char_of (92::nat) # ''f''
     else if n = 13 then char_of (92::nat) # ''r''
     else if n < 32 then char_of (92::nat) # ''u00'' @ pad_left 2 (to_base 16 n)
     else [c])"

definition json_string :: "string \<Rightarrow> string" where
  "json_string s = char_of (34::nat) # concat (map json_char s) @ [char_of (34::nat)]"

definition res_map :: "('a \<Rightarrow> 'b) \<Rightarrow> ('e, 'a) result \<Rightarrow> ('e, 'b) result" where
  "res_map f r = rbind r (\<lambda>x. Inr (f x))"

text \<open>The calls of an array or of an object, in order: the first that throws ends it.\<close>

fun collect :: "('e, 'a) result list \<Rightarrow> ('e, 'a list) result" where
  "collect [] = Inr []"
| "collect (r # rs) = rbind r (\<lambda>x. res_map ((#) x) (collect rs))"

fun str_le :: "string \<Rightarrow> string \<Rightarrow> bool" where
  "str_le [] ys = True"
| "str_le (x # xs) [] = False"
| "str_le (x # xs) (y # ys) = (let a = of_char x :: nat; b = of_char y :: nat in a < b \<or> (a = b \<and> str_le xs ys))"

definition json_object :: "(string \<times> (string, string) result) list \<Rightarrow> (string, string) result" where
  "json_object es = res_map (\<lambda>ss. ''{'' @ join '','' ss @ ''}'')
     (collect (map (\<lambda>(k, r). res_map (\<lambda>s. json_string k @ '':'' @ s) r) (sort_by (\<lambda>x y. str_le (fst x) (fst y)) es)))"

function canonicalJson :: "jsv \<Rightarrow> (string, string) result" where
  "canonicalJson (VArr vs) = res_map (\<lambda>ss. ''['' @ join '','' ss @ '']'') (collect (map canonicalJson vs))"
| "canonicalJson (VObj p) = json_object (map (\<lambda>e. (fst e, canonicalJson (snd e))) (filter (\<lambda>e. \<not> nullish (snd e)) p))"
| "canonicalJson (VNum n) = (case n of
     JFin q \<Rightarrow> if is_integer q then Inr (num_str n) else Inl (''Canonical evidence numbers must be integers: '' @ num_str n)
   | _ \<Rightarrow> Inl (''Canonical evidence numbers must be integers: '' @ num_str n))"
| "canonicalJson (VStr s) = Inr (json_string s)"
| "canonicalJson (VBool b) = Inr (if b then ''true'' else ''false'')"
| "canonicalJson VNull = Inr ''null''"
| "canonicalJson VUndef = Inr ''null''"
  by pat_completeness auto
termination
  by (relation "measure size") (auto simp: less_Suc_eq_le size_list_estimation' elim!: size_list_estimation'[rotated])

section \<open>The tree\<close>

definition LEAF_TAG :: string where
  "LEAF_TAG = ''VW-EVIDENCE-LEAF-v1:''"

definition NODE_TAG :: string where
  "NODE_TAG = ''VW-EVIDENCE-NODE-v1:''"

definition EMPTY_TAG :: string where
  "EMPTY_TAG = ''VW-EVIDENCE-EMPTY-v1''"

text \<open>The bytes of a hexadecimal text \<open>0x..\<close>.\<close>

fun hex_pairs :: "string \<Rightarrow> string" where
  "hex_pairs (a # b # r) = char_of (16 * (case digit_val a of Some n \<Rightarrow> n | None \<Rightarrow> 0) + (case digit_val b of Some n \<Rightarrow> n | None \<Rightarrow> 0)) # hex_pairs r"
| "hex_pairs _ = []"

definition hex_bytes :: "string \<Rightarrow> string" where
  "hex_bytes h = hex_pairs (drop 2 h)"

definition leafHash :: "(string \<Rightarrow> string) \<Rightarrow> jsv \<Rightarrow> (string, string) result" where
  "leafHash K leaf = res_map (\<lambda>s. K (LEAF_TAG @ s)) (canonicalJson leaf)"

definition nodeHash :: "(string \<Rightarrow> string) \<Rightarrow> string \<Rightarrow> string \<Rightarrow> string" where
  "nodeHash K l r = K (NODE_TAG @ hex_bytes l @ hex_bytes r)"

text \<open>One level of the tree; a node left over is carried up as it is.\<close>

fun pair_up :: "(string \<Rightarrow> string) \<Rightarrow> string list \<Rightarrow> string list" where
  "pair_up K (x # y # zs) = nodeHash K x y # pair_up K zs"
| "pair_up K xs = xs"

lemma pair_up_length: "length (pair_up K xs) = (length xs + 1) div 2"
  by (induction K xs rule: pair_up.induct) auto

function climb :: "(string \<Rightarrow> string) \<Rightarrow> string list \<Rightarrow> string list" where
  "climb K level = (if 1 < length level then climb K (pair_up K level) else level)"
  by auto
termination
  by (relation "measure (\<lambda>(K, level). length level)") (auto simp: pair_up_length)

declare climb.simps [simp del]

definition merkleRoot :: "(string \<Rightarrow> string) \<Rightarrow> jsv list \<Rightarrow> (string, string) result" where
  "merkleRoot K leaves = (if leaves = [] then Inr (K EMPTY_TAG)
     else res_map (\<lambda>level. hd (climb K level)) (collect (map (leafHash K) leaves)))"

section \<open>The proof of one leaf\<close>

datatype side = SideLeft | SideRight

function proof_path :: "(string \<Rightarrow> string) \<Rightarrow> string list \<Rightarrow> nat \<Rightarrow> (side \<times> string) list" where
  "proof_path K level cursor = (if 1 < length level then
     (let sibling = (if cursor mod 2 = 1 then cursor - 1 else cursor + 1) in
      (if sibling < length level then [(if cursor mod 2 = 1 then SideLeft else SideRight, level ! sibling)] else []) @
      proof_path K (pair_up K level) (cursor div 2)) else [])"
  by auto
termination
  by (relation "measure (\<lambda>(K, level, cursor). length level)") (auto simp: pair_up_length)

declare proof_path.simps [simp del]

text \<open>A plain \<open>Error\<close> leaves a request as status 500.\<close>

definition plain_error :: "('a, 'b) result \<Rightarrow> ('a \<Rightarrow> http_error) \<Rightarrow> (http_error, 'b) result" where
  "plain_error r f = (case r of Inl e \<Rightarrow> Inl (f e) | Inr x \<Rightarrow> Inr x)"

definition fileProof :: "(string \<Rightarrow> string) \<Rightarrow> jobj list \<Rightarrow> int \<Rightarrow> (http_error, (side \<times> string) list) result" where
  "fileProof K leaves index =
     (if index < 0 \<or> int (length leaves) \<le> index \<or> pget (leaves ! nat index) ''kind'' \<noteq> VStr ''file''
      then Inl (HttpError 400 ''invalid_file_leaf'')
      else plain_error (res_map (\<lambda>level. proof_path K level (nat index)) (collect (map (\<lambda>l. leafHash K (VObj l)) leaves))) (HttpError 500))"

end
