(* ===== verification/Evidence.thy ===== *)
theory Evidence
  imports Merkle
begin

text \<open>
  Sealing a calculation on the chain: the anchor records and the service that submits a hash (\<open>anchor/\<close>), and
  the use case that stores an evidence document, anchors its root and compares it with the chain (\<open>evidence/\<close>).
  The chain client is an argument; the mock one of the source is modelled too. The clock and the fresh ids are
  arguments of the operations.
\<close>

section \<open>Anchor records\<close>

record anchor_record =
  a_id :: string
  a_payloadHash :: string
  a_type :: string
  a_chainTxHash :: "string option"
  a_blockNumber :: "int option"
  a_status :: string
  a_attempts :: nat
  a_anchoredAt :: "int option"
  a_createdAt :: int

type_synonym anchor_table = "(string, anchor_record) jmap"

definition anchor_create :: "string \<Rightarrow> int \<Rightarrow> string \<Rightarrow> string \<Rightarrow> anchor_table \<Rightarrow> anchor_table" where
  "anchor_create uuid now h ty t = (case mget t h of
     Some _ \<Rightarrow> t
   | None \<Rightarrow> mput h \<lparr>a_id = uuid, a_payloadHash = h, a_type = ty, a_chainTxHash = None, a_blockNumber = None, a_status = ''pending'',
       a_attempts = 0, a_anchoredAt = None, a_createdAt = now\<rparr> t)"

definition change_anchor :: "(anchor_record \<Rightarrow> anchor_record) \<Rightarrow> string \<Rightarrow> anchor_table \<Rightarrow> anchor_table" where
  "change_anchor f h t = (case mget t h of None \<Rightarrow> t | Some a \<Rightarrow> mput h (f a) t)"

definition incrementAttempts :: "string \<Rightarrow> anchor_table \<Rightarrow> anchor_table" where
  "incrementAttempts h t = change_anchor (\<lambda>a. a\<lparr>a_attempts := a_attempts a + 1\<rparr>) h t"

definition markAnchored :: "string \<Rightarrow> string \<Rightarrow> int \<Rightarrow> int \<Rightarrow> anchor_table \<Rightarrow> anchor_table" where
  "markAnchored h tx block t0 t = change_anchor (\<lambda>a. a\<lparr>a_status := ''anchored'', a_chainTxHash := Some tx, a_blockNumber := Some block, a_anchoredAt := Some t0\<rparr>) h t"

definition markFailed :: "string \<Rightarrow> anchor_table \<Rightarrow> anchor_table" where
  "markFailed h t = change_anchor (\<lambda>a. a\<lparr>a_status := ''failed''\<rparr>) h t"

section \<open>The chain\<close>

record receipt =
  r_txHash :: string
  r_blockNumber :: int
  r_anchoredAt :: int

record inspection =
  i_txHash :: string
  i_blockNumber :: int
  i_success :: bool
  i_payloadHash :: "string option"

record 'c chain_client =
  write_anchor :: "string \<Rightarrow> string \<Rightarrow> 'c \<Rightarrow> 'c \<times> (http_error, receipt) result"
  inspect_tx :: "string \<Rightarrow> 'c \<Rightarrow> inspection option"

text \<open>\<open>MockAnchorAdapter\<close>.\<close>

record mock_chain =
  c_records :: "(string, string \<times> int) jmap"
  c_block :: int

definition mock_tx :: "(string \<Rightarrow> string) \<Rightarrow> string \<Rightarrow> string \<Rightarrow> mock_chain \<Rightarrow> string" where
  "mock_tx K h ty c = K (h @ '':'' @ ty @ '':'' @ int_str (c_block c))"

definition mock_anchor :: "(string \<Rightarrow> string) \<Rightarrow> int \<Rightarrow> string \<Rightarrow> string \<Rightarrow> mock_chain \<Rightarrow> mock_chain \<times> (http_error, receipt) result" where
  "mock_anchor K now h ty c =
     (c\<lparr>c_records := mput (mock_tx K h ty c) (h, c_block c) (c_records c), c_block := c_block c + 1\<rparr>,
      Inr \<lparr>r_txHash = mock_tx K h ty c, r_blockNumber = c_block c, r_anchoredAt = now\<rparr>)"

definition mock_verify :: "string \<Rightarrow> mock_chain \<Rightarrow> bool" where
  "mock_verify tx c = mhas (c_records c) tx"

definition mock_inspect :: "string \<Rightarrow> mock_chain \<Rightarrow> inspection option" where
  "mock_inspect tx c = (case mget (c_records c) tx of
     None \<Rightarrow> None
   | Some (h, block) \<Rightarrow> Some \<lparr>i_txHash = tx, i_blockNumber = block, i_success = True, i_payloadHash = Some h\<rparr>)"

definition mock_client :: "(string \<Rightarrow> string) \<Rightarrow> int \<Rightarrow> mock_chain chain_client" where
  "mock_client K now = \<lparr>write_anchor = mock_anchor K now, inspect_tx = mock_inspect\<rparr>"

text \<open>The hash in the data of a transaction: after the selector of a contract call, or first in a transfer to oneself.\<close>

definition payloadHashFromInput :: "string \<Rightarrow> string \<Rightarrow> string option" where
  "payloadHashFromInput selector input =
     (if startsWith input selector \<and> 74 \<le> length input then Some (''0x'' @ take 64 (drop 10 input))
      else if \<not> startsWith input selector \<and> 66 \<le> length input then Some (''0x'' @ take 64 (drop 2 input))
      else None)"

section \<open>Submitting a hash\<close>

record 'c anchor_state =
  table :: anchor_table
  chain :: 'c

definition anchored_receipt :: "anchor_record option \<Rightarrow> receipt option" where
  "anchored_receipt a = (case a of
     Some r \<Rightarrow> (case (a_chainTxHash r, a_blockNumber r, a_anchoredAt r) of
       (Some tx, Some block, Some t) \<Rightarrow> if a_status r = ''anchored'' \<and> tx \<noteq> [] then Some \<lparr>r_txHash = tx, r_blockNumber = block, r_anchoredAt = t\<rparr> else None
     | _ \<Rightarrow> None)
   | None \<Rightarrow> None)"

definition process :: "'c chain_client \<Rightarrow> string \<Rightarrow> string \<Rightarrow> 'c anchor_state \<Rightarrow> 'c anchor_state \<times> (http_error, receipt) result" where
  "process client h ty s = (case anchored_receipt (mget (table s) h) of
     Some r \<Rightarrow> (s, Inr r)
   | None \<Rightarrow>
       (let s = s\<lparr>table := incrementAttempts h (table s)\<rparr>
        in case write_anchor client h ty (chain s) of
             (c, Inr r) \<Rightarrow> (s\<lparr>chain := c, table := markAnchored h (r_txHash r) (r_blockNumber r) (r_anchoredAt r) (table s)\<rparr>, Inr r)
           | (c, Inl e) \<Rightarrow>
               (let attempts = (case mget (table s) h of Some a \<Rightarrow> a_attempts a | None \<Rightarrow> 0)
                in (s\<lparr>chain := c, table := (if 5 \<le> attempts then markFailed h (table s) else table s)\<rparr>, Inl e))))"

text \<open>The queue retries a job that threw, five attempts in all.\<close>

fun run_attempts :: "nat \<Rightarrow> 'c chain_client \<Rightarrow> string \<Rightarrow> string \<Rightarrow> 'c anchor_state \<Rightarrow> 'c anchor_state \<times> (http_error, receipt) result" where
  "run_attempts 0 client h ty s = (s, Inl (HttpError 500 ''not attempted''))"
| "run_attempts (Suc n) client h ty s = (case process client h ty s of
     (s, Inr r) \<Rightarrow> (s, Inr r)
   | (s, Inl e) \<Rightarrow> if n = 0 then (s, Inl e) else run_attempts n client h ty s)"

text \<open>Where a submission goes: processed at once, or left to the queue's worker.\<close>

datatype dispatcher = ImmediateDispatcher | QueueDispatcher

definition submit :: "dispatcher \<Rightarrow> 'c chain_client \<Rightarrow> string \<Rightarrow> int \<Rightarrow> string \<Rightarrow> string \<Rightarrow> 'c anchor_state \<Rightarrow>
    'c anchor_state \<times> (http_error, anchor_record option) result" where
  "submit d client uuid now h ty s =
     (let s = s\<lparr>table := anchor_create uuid now h ty (table s)\<rparr>
      in case d of
           ImmediateDispatcher \<Rightarrow> (case process client h ty s of
             (s, Inl e) \<Rightarrow> (s, Inl e) | (s, Inr _) \<Rightarrow> (s, Inr (mget (table s) h)))
         | QueueDispatcher \<Rightarrow> (s, Inr (mget (table s) h)))"

section \<open>Evidence records\<close>

record evidence_record =
  e_id :: string
  e_createdAt :: int
  e_userId :: string
  e_countryCode :: string
  e_taxYear :: int
  e_merkleRoot :: string
  e_document :: jsv
  e_leafCount :: nat

type_synonym evidence_table = "(string, evidence_record) jmap"

definition evidence_key :: "string \<Rightarrow> string \<Rightarrow> string" where
  "evidence_key userId merkle = userId @ '':'' @ toLowerCase merkle"

definition evidence_save :: "evidence_record \<Rightarrow> evidence_table \<Rightarrow> evidence_table \<times> evidence_record" where
  "evidence_save input t = (let k = evidence_key (e_userId input) (e_merkleRoot input) in
     case mget t k of Some existing \<Rightarrow> (t, existing) | None \<Rightarrow> (mput k input t, input))"

definition findLatest :: "string \<Rightarrow> string \<Rightarrow> int \<Rightarrow> evidence_table \<Rightarrow> evidence_record option" where
  "findLatest userId country year t =
     (case sort_by (\<lambda>l r. e_createdAt r \<le> e_createdAt l)
        (filter (\<lambda>r. e_userId r = userId \<and> e_countryCode r = country \<and> e_taxYear r = year) (mvalues t)) of
        [] \<Rightarrow> None | r # _ \<Rightarrow> Some r)"

definition findByRoot :: "string \<Rightarrow> string \<Rightarrow> evidence_table \<Rightarrow> evidence_record option" where
  "findByRoot userId merkle t = mget t (evidence_key userId merkle)"

section \<open>The use case\<close>

definition EVIDENCE_MAX_LEAVES :: nat where
  "EVIDENCE_MAX_LEAVES = 50000"

record evidence_dto =
  d_version :: int
  d_leaves :: "jobj list"
  d_merkleRoot :: "string option"

record 'c evidence_state =
  evidences :: evidence_table
  anchors :: "'c anchor_state"

record evidence_view =
  v_merkleRoot :: string
  v_countryCode :: string
  v_taxYear :: int
  v_leafCount :: nat
  v_recordedAt :: string
  v_anchorStatus :: string
  v_txHash :: "string option"
  v_blockNumber :: "string option"
  v_anchoredAt :: "string option"
  v_explorerUrl :: "string option"

definition omnioneExplorerTxUrl :: "string option \<Rightarrow> string \<Rightarrow> string option" where
  "omnioneExplorerTxUrl base tx = (case base of None \<Rightarrow> None | Some b \<Rightarrow>
     (let trimmed = trim b in if trimmed = [] then None
      else Some (rev (dropWhile (\<lambda>c. c = CHR ''/'') (rev trimmed)) @ ''/tx/'' @ tx)))"

definition view_evidence :: "string option \<Rightarrow> evidence_record \<Rightarrow> 'c evidence_state \<Rightarrow> evidence_view" where
  "view_evidence base r s = (let a = mget (table (anchors s)) (e_merkleRoot r); tx = Option.bind a a_chainTxHash in
     \<lparr>v_merkleRoot = e_merkleRoot r, v_countryCode = e_countryCode r, v_taxYear = e_taxYear r, v_leafCount = e_leafCount r,
      v_recordedAt = toISOString (e_createdAt r), v_anchorStatus = (case a of Some a \<Rightarrow> a_status a | None \<Rightarrow> ''pending''),
      v_txHash = tx, v_blockNumber = map_option int_str (Option.bind a a_blockNumber),
      v_anchoredAt = map_option toISOString (Option.bind a a_anchoredAt),
      v_explorerUrl = (case tx of Some t \<Rightarrow> if t = [] then None else omnioneExplorerTxUrl base t | None \<Rightarrow> None)\<rparr>)"

definition evidence_header :: "jobj list \<Rightarrow> (http_error, string \<times> int) result" where
  "evidence_header leaves = (case leaves of
     [] \<Rightarrow> Inl (HttpError 400 ''The first evidence leaf must be the header leaf.'')
   | header # _ \<Rightarrow>
       if pget header ''kind'' \<noteq> VStr ''header'' then Inl (HttpError 400 ''The first evidence leaf must be the header leaf.'')
       else case (pget header ''country'', pget header ''taxYear'') of
              (VStr country, VNum (JFin y)) \<Rightarrow>
                if country = [] \<or> \<not> is_integer y then Inl (HttpError 400 ''The header leaf must carry country and taxYear.'') else Inr (country, \<lfloor>y\<rfloor>)
            | _ \<Rightarrow> Inl (HttpError 400 ''The header leaf must carry country and taxYear.''))"

definition document_of :: "evidence_dto \<Rightarrow> jsv" where
  "document_of dto = VObj [(''version'', jint (d_version dto)), (''leaves'', VArr (map VObj (d_leaves dto)))]"

definition record_evidence :: "(string \<Rightarrow> string) \<Rightarrow> bool \<Rightarrow> dispatcher \<Rightarrow> 'c chain_client \<Rightarrow> string option \<Rightarrow> string \<Rightarrow> int \<Rightarrow> string \<Rightarrow>
    evidence_dto \<Rightarrow> 'c evidence_state \<Rightarrow> 'c evidence_state \<times> (http_error, evidence_view) result" where
  "record_evidence K enabled d client base uuid now userId dto s =
     (if \<not> enabled then (s, Inl (HttpError 503 ''anchoring_disabled''))
      else if EVIDENCE_MAX_LEAVES < length (d_leaves dto) then (s, Inl (HttpError 400 (''Evidence document is too large: '' @ nat_str (length (d_leaves dto)) @ '' leaves (max '' @ nat_str EVIDENCE_MAX_LEAVES @ '').'')))
      else case evidence_header (d_leaves dto) of
        Inl e \<Rightarrow> (s, Inl e)
      | Inr (country, year) \<Rightarrow> (case merkleRoot K (map VObj (d_leaves dto)) of
          Inl m \<Rightarrow> (s, Inl (HttpError 500 m))
        | Inr merkle \<Rightarrow>
            if (case d_merkleRoot dto of Some r \<Rightarrow> r \<noteq> [] \<and> toLowerCase r \<noteq> toLowerCase merkle | None \<Rightarrow> False)
            then (s, Inl (HttpError 400 (''Evidence merkle root mismatch: client '' @ (case d_merkleRoot dto of Some r \<Rightarrow> r | None \<Rightarrow> []) @ '', server '' @ merkle @ ''.'')))
            else case evidence_save \<lparr>e_id = uuid, e_createdAt = now, e_userId = userId, e_countryCode = country, e_taxYear = year,
                   e_merkleRoot = merkle, e_document = document_of dto, e_leafCount = length (d_leaves dto)\<rparr> (evidences s) of
              (t, r) \<Rightarrow> (case submit d client uuid now merkle ''rule_version'' (anchors s) of
                (a, Inl e) \<Rightarrow> (s\<lparr>evidences := t, anchors := a\<rparr>, Inl e)
              | (a, Inr _) \<Rightarrow> (let s = s\<lparr>evidences := t, anchors := a\<rparr> in (s, Inr (view_evidence base r s))))))"

definition latest_evidence :: "string option \<Rightarrow> string \<Rightarrow> string \<Rightarrow> int \<Rightarrow> 'c evidence_state \<Rightarrow> evidence_view option" where
  "latest_evidence base userId country year s = map_option (\<lambda>r. view_evidence base r s) (findLatest userId country year (evidences s))"

definition storedDocument :: "evidence_record \<Rightarrow> jsv \<times> jsv list" where
  "storedDocument r = (let stored = (case e_document r of VObj p \<Rightarrow> p | _ \<Rightarrow> []) in
     (case pget stored ''version'' of VNum n \<Rightarrow> VNum n | _ \<Rightarrow> jint 1,
      case pget stored ''leaves'' of VArr ls \<Rightarrow> ls | _ \<Rightarrow> []))"

definition evidence_document :: "string option \<Rightarrow> string \<Rightarrow> string \<Rightarrow> 'c evidence_state \<Rightarrow> (evidence_view \<times> jsv \<times> jsv list) option" where
  "evidence_document base userId merkle s =
     map_option (\<lambda>r. (view_evidence base r s, storedDocument r)) (findByRoot userId merkle (evidences s))"

record chain_check =
  k_merkleRoot :: string
  k_txHash :: "string option"
  k_blockNumber :: "string option"
  k_readFromChain :: bool
  k_success :: bool
  k_anchoredPayloadHash :: "string option"
  k_matches :: bool
  k_checkedAt :: string

definition checkChain :: "'c chain_client \<Rightarrow> int \<Rightarrow> string \<Rightarrow> string \<Rightarrow> 'c evidence_state \<Rightarrow> chain_check option" where
  "checkChain client now userId merkle s =
     (case findByRoot userId merkle (evidences s) of
        None \<Rightarrow> None
      | Some _ \<Rightarrow>
          (let a = mget (table (anchors s)) merkle;
               unread = (\<lambda>tx block. \<lparr>k_merkleRoot = merkle, k_txHash = tx, k_blockNumber = block, k_readFromChain = False, k_success = False,
                 k_anchoredPayloadHash = None, k_matches = False, k_checkedAt = toISOString now\<rparr>)
           in case Option.bind a a_chainTxHash of
                None \<Rightarrow> Some (unread None None)
              | Some tx \<Rightarrow> if tx = [] then Some (unread None None) else (case inspect_tx client tx (chain (anchors s)) of
                  None \<Rightarrow> Some (unread (Some tx) (map_option int_str (Option.bind a a_blockNumber)))
                | Some i \<Rightarrow> Some \<lparr>k_merkleRoot = merkle, k_txHash = Some (i_txHash i), k_blockNumber = Some (int_str (i_blockNumber i)),
                    k_readFromChain = True, k_success = i_success i, k_anchoredPayloadHash = i_payloadHash i,
                    k_matches = (i_success i \<and> (case i_payloadHash i of Some h \<Rightarrow> toLowerCase h = toLowerCase merkle | None \<Rightarrow> False)),
                    k_checkedAt = toISOString now\<rparr>)))"

end
