(* ===== verification/Merkle_Properties.thy ===== *)
theory Merkle_Properties
  imports Merkle
begin

text \<open>
  What sealing a document means: its root determines every leaf of the document, and a file proof convinces
  exactly of the leaves that are in it. Both are relative to collisions among the byte strings that are hashed.
\<close>

section \<open>The tree behind the levels\<close>

datatype htree = HLeaf string | HNode htree htree

fun thash :: "(string \<Rightarrow> string) \<Rightarrow> htree \<Rightarrow> string" where
  "thash K (HLeaf s) = K (LEAF_TAG @ s)"
| "thash K (HNode l r) = nodeHash K (thash K l) (thash K r)"

fun fringe :: "htree \<Rightarrow> string list" where
  "fringe (HLeaf s) = [s]"
| "fringe (HNode l r) = fringe l @ fringe r"

fun pair_trees :: "htree list \<Rightarrow> htree list" where
  "pair_trees (x # y # zs) = HNode x y # pair_trees zs"
| "pair_trees xs = xs"

lemma pair_trees_length: "length (pair_trees xs) = (length xs + 1) div 2"
  by (induction xs rule: pair_trees.induct) auto

function grow :: "htree list \<Rightarrow> htree list" where
  "grow ts = (if 1 < length ts then grow (pair_trees ts) else ts)"
  by auto
termination
  by (relation "measure length") (auto simp: pair_trees_length)

declare grow.simps [simp del]

definition doc_tree :: "string list \<Rightarrow> htree" where
  "doc_tree texts = hd (grow (map HLeaf texts))"

lemma pair_up_trees: "pair_up K (map (thash K) ts) = map (thash K) (pair_trees ts)"
  by (induction ts rule: pair_trees.induct) auto

lemma climb_trees: "climb K (map (thash K) ts) = map (thash K) (grow ts)"
proof (induction ts rule: grow.induct)
  case (1 ts)
  show ?case
  proof (cases "1 < length ts")
    case True
    then show ?thesis using 1 [OF True] by (simp add: climb.simps [of K "map (thash K) ts"] grow.simps [of ts] pair_up_trees)
  qed (simp add: climb.simps grow.simps [of ts])
qed

lemma fringe_pair: "concat (map fringe (pair_trees ts)) = concat (map fringe ts)"
  by (induction ts rule: pair_trees.induct) auto

lemma grow_ends: "ts \<noteq> [] \<Longrightarrow> \<exists>t. grow ts = [t] \<and> fringe t = concat (map fringe ts)"
proof (induction ts rule: grow.induct)
  case (1 ts)
  show ?case
  proof (cases "1 < length ts")
    case True
    then have "pair_trees ts \<noteq> []" by (cases ts rule: pair_trees.cases) auto
    then show ?thesis using 1 True by (simp add: grow.simps [of ts] fringe_pair)
  next
    case False
    then obtain t where "ts = [t]" using "1.prems" by (cases ts) (auto simp: Suc_le_eq)
    then show ?thesis by (simp add: grow.simps)
  qed
qed

lemma doc_tree_ends: "texts \<noteq> [] \<Longrightarrow> grow (map HLeaf texts) = [doc_tree texts] \<and> fringe (doc_tree texts) = texts"
  using grow_ends [of "map HLeaf texts"] by (auto simp: doc_tree_def comp_def)

lemma res_map_Inr [simp]: "res_map f r = Inr y \<longleftrightarrow> (\<exists>x. r = Inr x \<and> y = f x)"
  by (auto simp: res_map_def)

lemma res_map_Inl [simp]: "res_map f r = Inl e \<longleftrightarrow> r = Inl e"
  by (simp add: res_map_def)

lemma collect_Inr: "collect rs = Inr xs \<longleftrightarrow> rs = map Inr xs"
  by (induction rs arbitrary: xs) auto

lemma leaf_hashes: "collect (map (leafHash K) leaves) = Inr hs \<longleftrightarrow>
    (\<exists>texts. map canonicalJson leaves = map Inr texts \<and> hs = map (thash K) (map HLeaf texts))"
proof -
  have "map (leafHash K) leaves = map Inr hs \<longleftrightarrow> (\<exists>texts. map canonicalJson leaves = map Inr texts \<and> hs = map (\<lambda>s. K (LEAF_TAG @ s)) texts)"
  proof (induction leaves arbitrary: hs)
    case (Cons l ls)
    show ?case
    proof (cases hs)
      case (Cons h hs')
      then show ?thesis using Cons.IH [of hs'] by (auto simp: leafHash_def Cons_eq_map_conv map_eq_Cons_conv)
    qed simp
  qed simp
  then show ?thesis by (simp add: collect_Inr comp_def)
qed

lemma root_of_tree:
  "leaves \<noteq> [] \<Longrightarrow> merkleRoot K leaves = Inr r \<longleftrightarrow> (\<exists>texts. map canonicalJson leaves = map Inr texts \<and> r = thash K (doc_tree texts))"
proof -
  assume ne: "leaves \<noteq> []"
  have "hd (climb K (map (thash K) (map HLeaf texts))) = thash K (doc_tree texts)" if "map canonicalJson leaves = map Inr texts" for texts
    using doc_tree_ends [of texts] that ne by (cases texts) (simp_all only: climb_trees, simp_all)
  then show ?thesis using ne by (auto simp: merkleRoot_def leaf_hashes)
qed

section \<open>Digests\<close>

text \<open>\<open>keccak256\<close> answers \<open>0x\<close> and 64 lower-case hexadecimal digits.\<close>

definition hexdigit :: "char \<Rightarrow> bool" where
  "hexdigit c \<longleftrightarrow> c \<in> set ''0123456789abcdef''"

definition is_digest :: "string \<Rightarrow> bool" where
  "is_digest h \<longleftrightarrow> take 2 h = ''0x'' \<and> length h = 66 \<and> list_all hexdigit (drop 2 h)"

definition digests :: "(string \<Rightarrow> string) \<Rightarrow> bool" where
  "digests K \<longleftrightarrow> (\<forall>b. is_digest (K b))"

definition digit_ok :: "char \<Rightarrow> bool" where
  "digit_ok c = (case digit_val c of Some n \<Rightarrow> n < 16 \<and> digit_char n = c | None \<Rightarrow> False)"

lemma hex_digit: "hexdigit c \<Longrightarrow> \<exists>n < 16. digit_val c = Some n \<and> digit_char n = c"
proof -
  have "list_all digit_ok ''0123456789abcdef''" by code_simp
  moreover assume "hexdigit c"
  ultimately have "digit_ok c" unfolding list_all_iff hexdigit_def by (rule bspec)
  then show ?thesis by (simp add: digit_ok_def split: option.splits)
qed

lemma hex_pairs_inj:
  "list_all hexdigit xs \<Longrightarrow> list_all hexdigit ys \<Longrightarrow>
   length xs = length ys \<Longrightarrow> even (length xs) \<Longrightarrow> hex_pairs xs = hex_pairs ys \<Longrightarrow> xs = ys"
proof (induction xs arbitrary: ys rule: hex_pairs.induct)
  case (1 a b r)
  obtain a' b' r' where ys: "ys = a' # b' # r'" using "1.prems"(3) by (cases ys rule: hex_pairs.cases) auto
  have digits: "hexdigit a" "hexdigit b" "list_all hexdigit r" "hexdigit a'" "hexdigit b'" "list_all hexdigit r'"
    using "1.prems"(1,2) by (simp_all add: ys)
  obtain n where n: "n < 16" "digit_val a = Some n" "digit_char n = a" using hex_digit digits(1) by blast
  obtain m where m: "m < 16" "digit_val b = Some m" "digit_char m = b" using hex_digit digits(2) by blast
  obtain n' where n': "n' < 16" "digit_val a' = Some n'" "digit_char n' = a'" using hex_digit digits(4) by blast
  obtain m' where m': "m' < 16" "digit_val b' = Some m'" "digit_char m' = b'" using hex_digit digits(5) by blast
  have c: "char_of (16 * n + m) = (char_of (16 * n' + m') :: char)" and r: "hex_pairs r = hex_pairs r'"
    using "1.prems"(5) by (simp_all add: ys n m n' m')
  have "(16 * n + m) mod 256 = (16 * n' + m') mod 256"
    using arg_cong [OF c, of "of_char :: char \<Rightarrow> nat"] by (simp only: of_char_of)
  moreover have "16 * n + m < 256" "16 * n' + m' < 256" using n(1) m(1) n'(1) m'(1) by linarith+
  ultimately have "16 * n + m = 16 * n' + m'" by (simp only: mod_less)
  then have "(16 * n + m) div 16 = (16 * n' + m') div 16" "(16 * n + m) mod 16 = (16 * n' + m') mod 16" by (simp_all only:)
  then have "n = n'" "m = m'" using m(1) m'(1) by (simp_all only: div_mult_self4 mod_mult_self4) auto
  moreover have "r = r'" using "1.IH" [of r'] "1.prems"(3,4) digits(3,6) r by (simp add: ys)
  ultimately show ?case using n m n' m' ys by simp
qed (simp_all add: eq_commute [of "Suc 0"])

lemma hex_pairs_length: "length (hex_pairs xs) = length xs div 2"
  by (induction xs rule: hex_pairs.induct) auto

lemma digest_bytes:
  assumes "is_digest x" "is_digest y"
  shows "length (hex_bytes x) = 32" "hex_bytes x = hex_bytes y \<Longrightarrow> x = y"
proof -
  show "length (hex_bytes x) = 32" using assms by (simp add: is_digest_def hex_bytes_def hex_pairs_length)
  assume "hex_bytes x = hex_bytes y"
  then have "drop 2 x = drop 2 y" using assms hex_pairs_inj [of "drop 2 x" "drop 2 y"] by (simp add: is_digest_def hex_bytes_def)
  then show "x = y" using assms append_take_drop_id [of 2 x] append_take_drop_id [of 2 y] by (metis is_digest_def)
qed

lemma tags_apart: "LEAF_TAG @ s \<noteq> NODE_TAG @ t" "NODE_TAG @ t \<noteq> LEAF_TAG @ s" "EMPTY_TAG \<noteq> LEAF_TAG @ s" "EMPTY_TAG \<noteq> NODE_TAG @ t"
  by (simp_all add: LEAF_TAG_def NODE_TAG_def EMPTY_TAG_def)

lemma node_bytes:
  assumes "is_digest l" "is_digest r" "is_digest l'" "is_digest r'" "NODE_TAG @ hex_bytes l @ hex_bytes r = NODE_TAG @ hex_bytes l' @ hex_bytes r'"
  shows "l = l' \<and> r = r'"
proof -
  have "hex_bytes l = hex_bytes l' \<and> hex_bytes r = hex_bytes r'"
    using assms digest_bytes(1) by (simp only: same_append_eq append_eq_append_conv) auto
  then show ?thesis using assms digest_bytes(2) by blast
qed

text \<open>The byte strings hashed for a tree, and for a document.\<close>

fun hashed_tree :: "(string \<Rightarrow> string) \<Rightarrow> htree \<Rightarrow> string set" where
  "hashed_tree K (HLeaf s) = {LEAF_TAG @ s}"
| "hashed_tree K (HNode l r) = insert (NODE_TAG @ hex_bytes (thash K l) @ hex_bytes (thash K r)) (hashed_tree K l \<union> hashed_tree K r)"

definition hashed :: "(string \<Rightarrow> string) \<Rightarrow> jsv list \<Rightarrow> string set" where
  "hashed K leaves = (if leaves = [] then {EMPTY_TAG}
     else case collect (map canonicalJson leaves) of Inl _ \<Rightarrow> {} | Inr texts \<Rightarrow> hashed_tree K (doc_tree texts))"

lemma thash_digest: "digests K \<Longrightarrow> is_digest (thash K t)"
  by (cases t) (simp_all add: digests_def nodeHash_def)

fun top_bytes :: "(string \<Rightarrow> string) \<Rightarrow> htree \<Rightarrow> string" where
  "top_bytes K (HLeaf s) = LEAF_TAG @ s"
| "top_bytes K (HNode l r) = NODE_TAG @ hex_bytes (thash K l) @ hex_bytes (thash K r)"

lemma thash_top: "thash K t = K (top_bytes K t)"
  by (cases t) (simp_all add: nodeHash_def)

lemma top_hashed: "top_bytes K t \<in> hashed_tree K t"
  by (cases t) simp_all

lemma thash_inj:
  assumes "digests K"
  shows "inj_on K (hashed_tree K t \<union> hashed_tree K u) \<Longrightarrow> thash K t = thash K u \<Longrightarrow> t = u"
proof (induction t arbitrary: u)
  case (HLeaf s)
  have "top_bytes K (HLeaf s) = top_bytes K u"
    using inj_onD [OF HLeaf.prems(1)] HLeaf.prems(2) top_hashed [of K u] by (auto simp: thash_top)
  then show ?case by (cases u) (simp_all add: tags_apart)
next
  case (HNode l r)
  have top: "top_bytes K (HNode l r) = top_bytes K u"
    using inj_onD [OF HNode.prems(1)] HNode.prems(2) top_hashed [of K u] top_hashed [of K "HNode l r"] by (auto simp only: thash_top)
  show ?case
  proof (cases u)
    case (HLeaf s)
    then show ?thesis using top by (simp add: tags_apart)
  next
    case u: (HNode l' r')
    have "thash K l = thash K l' \<and> thash K r = thash K r'"
      using node_bytes [OF thash_digest thash_digest thash_digest thash_digest, of K K K K l r l' r'] top assms u by simp
    moreover have "inj_on K (hashed_tree K l \<union> hashed_tree K l')" "inj_on K (hashed_tree K r \<union> hashed_tree K r')"
      by (rule inj_on_subset [OF HNode.prems(1)], force simp: u)+
    ultimately show ?thesis using HNode.IH(1) [of l'] HNode.IH(2) [of r'] u by simp
  qed
qed

lemma hashed_texts: "leaves \<noteq> [] \<Longrightarrow> map canonicalJson leaves = map Inr texts \<Longrightarrow> hashed K leaves = hashed_tree K (doc_tree texts)"
  by (simp add: hashed_def collect_Inr [THEN iffD2])


section \<open>The proof of one leaf\<close>

text \<open>How a verifier folds the siblings of a proof into a root.\<close>

definition fold_sibling :: "(string \<Rightarrow> string) \<Rightarrow> string \<Rightarrow> side \<times> string \<Rightarrow> string" where
  "fold_sibling K h p = (case p of (SideLeft, s) \<Rightarrow> nodeHash K s h | (SideRight, s) \<Rightarrow> nodeHash K h s)"

definition check_proof :: "(string \<Rightarrow> string) \<Rightarrow> string \<Rightarrow> (side \<times> string) list \<Rightarrow> string" where
  "check_proof K h path = foldl (fold_sibling K) h path"

lemma pair_up_nth: "2 * i < length level \<Longrightarrow> pair_up K level ! i =
    (if 2 * i + 1 < length level then nodeHash K (level ! (2 * i)) (level ! (2 * i + 1)) else level ! (2 * i))"
proof (induction K level arbitrary: i rule: pair_up.induct)
  case (1 K x y zs)
  then show ?case by (cases i) auto
qed (auto simp: less_Suc_eq)

lemma path_climbs:
  "cursor < length level \<Longrightarrow> check_proof K (level ! cursor) (proof_path K level cursor) = hd (climb K level)"
proof (induction K level cursor rule: proof_path.induct)
  case (1 K level cursor)
  show ?case
  proof (cases "1 < length level")
    case False
    then show ?thesis using 1(2) by (cases level) (auto simp: proof_path.simps climb.simps check_proof_def)
  next
    case True
    have c: "cursor = 2 * (cursor div 2) + (if cursor mod 2 = 1 then 1 else 0)" by presburger
    have up: "check_proof K (pair_up K level ! (cursor div 2)) (proof_path K (pair_up K level) (cursor div 2)) = hd (climb K level)"
      using 1(1) [OF True refl] 1(2) True by (simp add: pair_up_length climb.simps [of K level])
    have step: "pair_up K level ! (cursor div 2) =
      (let sibling = (if cursor mod 2 = 1 then cursor - 1 else cursor + 1) in
       foldl (fold_sibling K) (level ! cursor) (if sibling < length level then [(if cursor mod 2 = 1 then SideLeft else SideRight, level ! sibling)] else []))"
    proof (cases "cursor mod 2 = 1")
      case odd: True
      then have "cursor = 2 * (cursor div 2) + 1" using c by simp
      then obtain k where k: "cursor = 2 * k + 1" "cursor div 2 = k" by blast
      then show ?thesis using 1(2) pair_up_nth [of k level K] by (simp add: fold_sibling_def Let_def)
    next
      case even: False
      then have "cursor = 2 * (cursor div 2)" using c by simp
      then obtain k where k: "cursor = 2 * k" "cursor div 2 = k" by blast
      then show ?thesis using 1(2) pair_up_nth [of k level K] by (simp add: fold_sibling_def Let_def)
    qed
    show ?thesis using up True
      by (simp only: proof_path.simps [of K level cursor] if_True check_proof_def step Let_def foldl_append)
  qed
qed

text \<open>A file proof verifies. When the proof of a file leaf is built, folding its siblings into the hash of that leaf
  gives exactly the root of the document; the proof holds at most one sibling per level.\<close>

theorem file_proof_verifies:
  assumes "fileProof K leaves index = Inr path"
  shows "\<exists>h. leafHash K (VObj (leaves ! nat index)) = Inr h \<and> merkleRoot K (map VObj leaves) = Inr (check_proof K h path) \<and>
    nat index < length leaves"
proof -
  obtain level where level: "collect (map (leafHash K) (map VObj leaves)) = Inr level" and path: "path = proof_path K level (nat index)"
    and i: "nat index < length leaves"
    using assms by (auto simp: fileProof_def plain_error_def comp_def split: if_splits sum.splits)
  have hs: "map (leafHash K) (map VObj leaves) = map Inr level" using level by (simp add: collect_Inr)
  then have len: "length level = length leaves" by (metis length_map)
  have "map (leafHash K) (map VObj leaves) ! nat index = map Inr level ! nat index" by (simp only: hs)
  then have "leafHash K (VObj (leaves ! nat index)) = Inr (level ! nat index)" using i len by simp
  moreover have "merkleRoot K (map VObj leaves) = Inr (hd (climb K level))"
    using i level by (auto simp: merkleRoot_def)
  ultimately show ?thesis using path_climbs [of "nat index" level K] path i len by simp
qed

text \<open>The byte strings a verifier hashes along a path.\<close>

fun hashed_path :: "(string \<Rightarrow> string) \<Rightarrow> string \<Rightarrow> (side \<times> string) list \<Rightarrow> string set" where
  "hashed_path K h [] = {}"
| "hashed_path K h ((SideLeft, s) # ps) = insert (NODE_TAG @ hex_bytes s @ hex_bytes h) (hashed_path K (nodeHash K s h) ps)"
| "hashed_path K h ((SideRight, s) # ps) = insert (NODE_TAG @ hex_bytes h @ hex_bytes s) (hashed_path K (nodeHash K h s) ps)"

lemma hashed_path_snoc: "hashed_path K h (ps @ [(sd, s)]) = insert (case sd of SideLeft \<Rightarrow> NODE_TAG @ hex_bytes s @ hex_bytes (check_proof K h ps)
    | SideRight \<Rightarrow> NODE_TAG @ hex_bytes (check_proof K h ps) @ hex_bytes s) (hashed_path K h ps)"
  by (induction K h ps rule: hashed_path.induct) (auto simp: check_proof_def fold_sibling_def split: side.splits)

lemma path_finds_leaf:
  assumes "digests K"
  shows "inj_on K (insert (LEAF_TAG @ text) (hashed_path K (K (LEAF_TAG @ text)) ps \<union> hashed_tree K t)) \<Longrightarrow> list_all (is_digest \<circ> snd) ps \<Longrightarrow>
    check_proof K (K (LEAF_TAG @ text)) ps = thash K t \<Longrightarrow> text \<in> set (fringe t)"
proof (induction ps arbitrary: t rule: rev_induct)
  case Nil
  have "LEAF_TAG @ text = top_bytes K t"
    using inj_onD [OF Nil.prems(1), of "LEAF_TAG @ text" "top_bytes K t"] Nil.prems(3) top_hashed [of K t]
    by (simp add: check_proof_def thash_top)
  then show ?case by (cases t) (simp_all add: tags_apart)
next
  case (snoc p ps)
  obtain sd s where p: "p = (sd, s)" by (cases p)
  let ?h = "check_proof K (K (LEAF_TAG @ text)) ps"
  let ?b = "case sd of SideLeft \<Rightarrow> NODE_TAG @ hex_bytes s @ hex_bytes ?h | SideRight \<Rightarrow> NODE_TAG @ hex_bytes ?h @ hex_bytes s"
  have "check_proof K (K (LEAF_TAG @ text)) (ps @ [p]) = K ?b"
    by (cases sd) (simp_all add: check_proof_def p fold_sibling_def nodeHash_def)
  then have top: "?b = top_bytes K t"
    using inj_onD [OF snoc.prems(1), of ?b "top_bytes K t"] snoc.prems(3) top_hashed [of K t]
    by (simp add: thash_top p hashed_path_snoc)
  have dh: "is_digest ?h" using assms
    by (cases ps rule: rev_cases) (auto simp: check_proof_def fold_sibling_def nodeHash_def digests_def split: side.splits)
  have ds: "is_digest s" using snoc.prems(2) p by simp
  show ?case
  proof (cases t)
    case (HLeaf x)
    then show ?thesis using top by (cases sd) (simp_all add: tags_apart)
  next
    case (HNode l r)
    have "?h = thash K l \<or> ?h = thash K r"
    proof (cases sd)
      case SideLeft
      then show ?thesis using node_bytes [OF ds dh thash_digest [OF assms, of l] thash_digest [OF assms, of r]] top HNode by simp
    next
      case SideRight
      then show ?thesis using node_bytes [OF dh ds thash_digest [OF assms, of l] thash_digest [OF assms, of r]] top HNode by simp
    qed
    moreover have "inj_on K (insert (LEAF_TAG @ text) (hashed_path K (K (LEAF_TAG @ text)) ps \<union> hashed_tree K l))"
      "inj_on K (insert (LEAF_TAG @ text) (hashed_path K (K (LEAF_TAG @ text)) ps \<union> hashed_tree K r))"
      by (rule inj_on_subset [OF snoc.prems(1)], force simp: HNode p hashed_path_snoc)+
    ultimately show ?thesis using snoc.IH [of l] snoc.IH [of r] snoc.prems(2) HNode by auto
  qed
qed

lemma path_top: "\<exists>b \<in> insert (LEAF_TAG @ text) (hashed_path K (K (LEAF_TAG @ text)) ps). check_proof K (K (LEAF_TAG @ text)) ps = K b \<and> b \<noteq> EMPTY_TAG"
proof (cases ps rule: rev_cases)
  case Nil
  have "EMPTY_TAG \<noteq> LEAF_TAG @ text" by (rule tags_apart)
  then show ?thesis by (auto simp: Nil check_proof_def)
next
  case (snoc qs p)
  obtain sd s where p: "p = (sd, s)" by (cases p)
  let ?h = "check_proof K (K (LEAF_TAG @ text)) qs"
  let ?b = "case sd of SideLeft \<Rightarrow> NODE_TAG @ hex_bytes s @ hex_bytes ?h | SideRight \<Rightarrow> NODE_TAG @ hex_bytes ?h @ hex_bytes s"
  have "check_proof K (K (LEAF_TAG @ text)) ps = K ?b"
    by (cases sd) (simp_all add: snoc check_proof_def p fold_sibling_def nodeHash_def)
  moreover have "?b \<noteq> EMPTY_TAG" using tags_apart(4) [symmetric] by (cases sd) simp_all
  moreover have "?b \<in> hashed_path K (K (LEAF_TAG @ text)) ps" by (simp add: snoc p hashed_path_snoc)
  ultimately show ?thesis by blast
qed

text \<open>C31. No proof convinces of a leaf that was not sealed. If the siblings anyone presents for a text fold into the root of
  a document, and no two byte strings hashed on the way or for the document collide, that text is one of its leaves.\<close>

theorem file_proof_sound:
  assumes "digests K" "list_all (is_digest \<circ> snd) path" "merkleRoot K leaves = Inr (check_proof K (K (LEAF_TAG @ text)) path)"
    "inj_on K (insert (LEAF_TAG @ text) (hashed_path K (K (LEAF_TAG @ text)) path \<union> hashed K leaves))"
  shows "Inr text \<in> set (map canonicalJson leaves)"
proof (cases "leaves = []")
  case True
  obtain b where b: "b \<in> insert (LEAF_TAG @ text) (hashed_path K (K (LEAF_TAG @ text)) path)"
    "check_proof K (K (LEAF_TAG @ text)) path = K b" "b \<noteq> EMPTY_TAG" using path_top by blast
  have "K EMPTY_TAG = K b" using assms(3) b(2) unfolding True merkleRoot_def by simp
  then have "EMPTY_TAG = b" by (rule inj_onD [OF assms(4)]) (use b(1) in \<open>auto simp: True hashed_def\<close>)
  then show ?thesis using b(3) by simp
next
  case ne: False
  then obtain texts where t: "map canonicalJson leaves = map Inr texts" "check_proof K (K (LEAF_TAG @ text)) path = thash K (doc_tree texts)"
    using assms(3) root_of_tree [OF ne] by blast
  have "hashed K leaves = hashed_tree K (doc_tree texts)" using ne t(1) by (rule hashed_texts)
  then have "text \<in> set (fringe (doc_tree texts))" using path_finds_leaf [OF assms(1)] assms(2,4) t(2) by simp
  then have "text \<in> set texts" using doc_tree_ends [of texts] t(1) ne by (cases texts) simp_all
  then show ?thesis unfolding t(1) by simp
qed

section \<open>Key order\<close>

lemma str_le_order: "str_le a a" "str_le a b \<or> str_le b a" "str_le a b \<Longrightarrow> str_le b a \<Longrightarrow> a = b"
proof -
  show "str_le a a" by (induction a) auto
  show "str_le a b \<or> str_le b a" by (induction a b rule: str_le.induct) (auto simp: Let_def)
  show "str_le a b \<Longrightarrow> str_le b a \<Longrightarrow> a = b"
  proof (induction a b rule: str_le.induct)
    case (1 ys)
    then show ?case by (cases ys) simp_all
  qed (auto simp: Let_def)
qed

lemma str_le_trans: "str_le a b \<Longrightarrow> str_le b c \<Longrightarrow> str_le a c"
proof (induction a b arbitrary: c rule: str_le.induct)
  case (3 x xs y ys)
  then show ?case by (cases c) (auto simp: Let_def)
qed auto

lemma by_key: "distinct (map fst es) \<Longrightarrow> strict_compare (\<lambda>x y. str_le (fst x) (fst y)) (set es)"
proof (unfold_locales, goal_cases)
  case (1 x y)
  show ?case by (rule str_le_order(2))
next
  case (2 x y z)
  then show ?case by (blast intro: str_le_trans)
next
  case (3 x y)
  then show ?case by (blast intro: distinct_map_inj_on str_le_order(3))
qed

text \<open>The canonical text of an object does not depend on the order in which its keys were written, nor on keys whose
  value is absent or null.\<close>

theorem canonical_order_irrelevant:
  assumes "distinct (map fst p)" "mset (filter (\<lambda>e. \<not> nullish (snd e)) p) = mset (filter (\<lambda>e. \<not> nullish (snd e)) q)"
  shows "canonicalJson (VObj p) = canonicalJson (VObj q)"
proof -
  let ?f = "\<lambda>e. (fst e, canonicalJson (snd e))"
  let ?p = "map ?f (filter (\<lambda>e. \<not> nullish (snd e)) p)" and ?q = "map ?f (filter (\<lambda>e. \<not> nullish (snd e)) q)"
  have "mset ?p = mset ?q" using arg_cong [OF assms(2), of "image_mset ?f"] by (simp only: mset_map)
  moreover have "distinct (map fst ?p)" using assms(1) by (simp add: comp_def distinct_map_filter)
  ultimately have "sort_by (\<lambda>x y. str_le (fst x) (fst y)) ?p = sort_by (\<lambda>x y. str_le (fst x) (fst y)) ?q"
    by (intro strict_compare.sort_by_perm [OF by_key [of ?p]]) (assumption, assumption, rule order_refl)
  then show ?thesis by (simp only: canonicalJson.simps json_object_def)
qed

section \<open>A document\<close>

text \<open>A hash that tells the byte strings of this document apart, by their lengths.\<close>

definition sample_hash :: "string \<Rightarrow> string" where
  "sample_hash b = ''0x'' @ replicate (length b mod 64) (CHR ''a'') @ replicate (64 - length b mod 64) (CHR ''b'')"

definition sample_doc :: "jobj list" where
  "sample_doc = [[(''kind'', VStr ''header''), (''taxYear'', jint 2025)], [(''kind'', VStr ''file''), (''note'', VNull)]]"

definition reordered_doc :: "jobj list" where
  "reordered_doc = [[(''taxYear'', jint 2025), (''kind'', VStr ''header'')], [(''kind'', VStr ''file'')]]"

definition header_text :: string where
  "header_text = concat [''{'', json_string ''kind'', '':'', json_string ''header'', '','', json_string ''taxYear'', '':2025'', ''}'']"

definition file_text :: string where
  "file_text = concat [''{'', json_string ''kind'', '':'', json_string ''file'', ''}'']"

lemma sample_digests: "digests sample_hash"
  by (simp add: digests_def is_digest_def sample_hash_def list_all_iff hexdigit_def)

lemma sample_inj: "inj_on (\<lambda>b. length b mod 64) S \<Longrightarrow> inj_on sample_hash S"
proof (rule inj_onI)
  fix x y assume inj: "inj_on (\<lambda>b. length b mod 64) S" and xy: "x \<in> S" "y \<in> S" "sample_hash x = sample_hash y"
  have count: "length (filter ((=) (CHR ''a'')) (sample_hash b)) = length b mod 64" for b
    by (simp add: sample_hash_def)
  show "x = y" by (rule inj_onD [OF inj _ xy(1,2)]) (metis count xy(3))
qed

lemma sample_texts:
  "map canonicalJson (map VObj sample_doc) = map Inr [header_text, file_text]"
  "map canonicalJson (map VObj reordered_doc) = map Inr [header_text, file_text]"
  by code_simp+

lemma sample_lengths: "length header_text = 32" "length file_text = 15"
  by code_simp+

lemma sample_tree: "doc_tree [a, b] = HNode (HLeaf a) (HLeaf b)"
  by (simp add: doc_tree_def grow.simps)

lemma sample_hashed:
  assumes "map canonicalJson leaves = map Inr [header_text, file_text]" "leaves \<noteq> []"
  shows "hashed sample_hash leaves = {LEAF_TAG @ header_text, LEAF_TAG @ file_text,
    NODE_TAG @ hex_bytes (sample_hash (LEAF_TAG @ header_text)) @ hex_bytes (sample_hash (LEAF_TAG @ file_text))}"
  unfolding hashed_texts [OF assms(2,1)] sample_tree by auto

lemma sample_separated:
  assumes "map canonicalJson leaves = map Inr [header_text, file_text]" "leaves \<noteq> []"
  shows "inj_on sample_hash (hashed sample_hash leaves)"
proof -
  have len: "length (hex_bytes (sample_hash b)) = 32" for b
    using digest_bytes(1) [of "sample_hash b" "sample_hash b"] sample_digests by (simp add: digests_def)
  show ?thesis unfolding sample_hashed [OF assms]
    by (rule sample_inj) (simp add: inj_on_def len sample_lengths LEAF_TAG_def NODE_TAG_def)
qed

lemma sample_root: "leaves \<noteq> [] \<Longrightarrow> map canonicalJson leaves = map Inr [header_text, file_text] \<Longrightarrow>
    merkleRoot sample_hash leaves = Inr (nodeHash sample_hash (sample_hash (LEAF_TAG @ header_text)) (sample_hash (LEAF_TAG @ file_text)))"
  by (rule root_of_tree [THEN iffD2]) (auto simp: sample_tree intro!: exI [of _ "[header_text, file_text]"])


lemma sample_proof: "fileProof sample_hash sample_doc 1 = Inr [(SideLeft, sample_hash (LEAF_TAG @ header_text))]"
  by code_simp

theorem file_proof_verifies_witness:
  "\<exists>h. leafHash sample_hash (VObj (sample_doc ! nat 1)) = Inr h \<and>
     merkleRoot sample_hash (map VObj sample_doc) = Inr (check_proof sample_hash h [(SideLeft, sample_hash (LEAF_TAG @ header_text))]) \<and>
     nat 1 < length sample_doc"
  by (rule file_proof_verifies) (rule sample_proof)

theorem file_proof_sound_witness: "Inr (file_text) \<in> set (map canonicalJson (map VObj sample_doc))"
proof (rule file_proof_sound [where path = "[(SideLeft, sample_hash (LEAF_TAG @ header_text))]"])
  have ne: "map VObj sample_doc \<noteq> []" by (simp add: sample_doc_def)
  show "digests sample_hash" by (rule sample_digests)
  show "list_all (is_digest \<circ> snd) [(SideLeft, sample_hash (LEAF_TAG @ header_text))]"
    using sample_digests by (simp add: digests_def)
  show "merkleRoot sample_hash (map VObj sample_doc) = Inr (check_proof sample_hash (sample_hash (LEAF_TAG @ file_text))
      [(SideLeft, sample_hash (LEAF_TAG @ header_text))])"
    unfolding sample_root [OF ne sample_texts(1)] by (simp add: check_proof_def fold_sibling_def)
  show "inj_on sample_hash (insert (LEAF_TAG @ file_text) (hashed_path sample_hash (sample_hash (LEAF_TAG @ file_text))
      [(SideLeft, sample_hash (LEAF_TAG @ header_text))] \<union> hashed sample_hash (map VObj sample_doc)))"
    by (rule inj_on_subset [OF sample_separated [OF sample_texts(1) ne]]) (simp add: sample_hashed [OF sample_texts(1) ne])
qed

theorem canonical_order_irrelevant_witness: "canonicalJson (VObj [(''a'', jint 1), (''b'', VNull), (''c'', VStr ''x'')]) = canonicalJson (VObj [(''c'', VStr ''x''), (''a'', jint 1)])"
  by (rule canonical_order_irrelevant) (simp_all add: nullish_def jint_def)

end
