(* ===== verification/Evidence_Properties.thy ===== *)
theory Evidence_Properties
  imports Evidence Merkle_Properties
begin

text \<open>
  What anchoring guarantees: a hash is written at most once however often it is submitted and retried, a queued
  job ends, and the root of an evidence document that was recorded can be found on the chain afterwards.
\<close>

section \<open>The records\<close>

lemma change_anchor_get: "mget (change_anchor f h t) k = (if k = h then map_option f (mget t h) else mget t k)"
  by (auto simp: change_anchor_def map_of_update split: option.splits)

lemma anchor_create_get: "mget (anchor_create uuid now h ty t) k =
    (case mget t k of Some a \<Rightarrow> Some a | None \<Rightarrow> if k = h then Some \<lparr>a_id = uuid, a_payloadHash = h, a_type = ty, a_chainTxHash = None,
       a_blockNumber = None, a_status = ''pending'', a_attempts = 0, a_anchoredAt = None, a_createdAt = now\<rparr> else None)"
  by (auto simp: anchor_create_def map_of_update split: option.splits)

text \<open>A client answers with the hash of the transaction it sent.\<close>

definition names_tx :: "'c chain_client \<Rightarrow> bool" where
  "names_tx client \<longleftrightarrow> (\<forall>h ty c c' r. write_anchor client h ty c = (c', Inr r) \<longrightarrow> r_txHash r \<noteq> [])"

lemma anchored_receipt_marked: "r_txHash r \<noteq> [] \<Longrightarrow>
   anchored_receipt (Some (a\<lparr>a_status := ''anchored'', a_chainTxHash := Some (r_txHash r), a_blockNumber := Some (r_blockNumber r), a_anchoredAt := Some (r_anchoredAt r)\<rparr>)) = Some r"
  by (simp add: anchored_receipt_def)

text \<open>A job on a prepared hash: it answers from the record, or writes once and records the receipt, or throws.\<close>

lemma process_cases:
  assumes "process client h ty s = (s', res)" "mget (table s) h = Some a"
    "\<And>c r. write_anchor client h ty (chain s) = (c, Inr r) \<Longrightarrow> r_txHash r \<noteq> []"
  obtains (known) r where "anchored_receipt (Some a) = Some r" "s' = s" "res = Inr r"
  | (wrote) r c where "anchored_receipt (Some a) = None" "res = Inr r" "write_anchor client h ty (chain s) = (c, Inr r)" "chain s' = c"
      "anchored_receipt (mget (table s') h) = Some r" "\<And>k. k \<noteq> h \<Longrightarrow> mget (table s') k = mget (table s) k" "r_txHash r \<noteq> []"
      "Option.bind (mget (table s') h) a_chainTxHash = Some (r_txHash r)"
  | (threw) e c where "anchored_receipt (Some a) = None" "res = Inl e" "write_anchor client h ty (chain s) = (c, Inl e)" "chain s' = c"
      "mget (table s') h = Some (a\<lparr>a_attempts := a_attempts a + 1, a_status := (if 5 \<le> a_attempts a + 1 then ''failed'' else a_status a)\<rparr>)"
      "\<And>k. k \<noteq> h \<Longrightarrow> mget (table s') k = mget (table s) k"
proof (cases "anchored_receipt (Some a)")
  case (Some r)
  then show ?thesis using assms known by (simp add: process_def)
next
  case None
  obtain c w where w: "write_anchor client h ty (chain s) = (c, w)" by fastforce
  show ?thesis
  proof (cases w)
    case (Inl e)
    have s': "s' = s\<lparr>chain := c, table := (if 5 \<le> a_attempts a + 1 then markFailed h (incrementAttempts h (table s)) else incrementAttempts h (table s))\<rparr>" "res = Inl e"
      using assms(1,2) None w Inl by (auto simp: process_def Let_def incrementAttempts_def change_anchor_get)
    show ?thesis
    proof (rule threw)
      show "mget (table s') h = Some (a\<lparr>a_attempts := a_attempts a + 1, a_status := (if 5 \<le> a_attempts a + 1 then ''failed'' else a_status a)\<rparr>)"
        using assms(2) by (auto simp: s' incrementAttempts_def markFailed_def change_anchor_get)
      show "mget (table s') k = mget (table s) k" if "k \<noteq> h" for k
        using that by (simp add: s' incrementAttempts_def markFailed_def change_anchor_get)
    qed (use None w Inl s' in simp_all)
  next
    case (Inr r)
    have tx: "r_txHash r \<noteq> []" using assms(3) w Inr by blast
    have s': "s' = s\<lparr>chain := c, table := markAnchored h (r_txHash r) (r_blockNumber r) (r_anchoredAt r) (incrementAttempts h (table s))\<rparr>" "res = Inr r"
      using assms None w Inr by (simp_all add: process_def Let_def)
    show ?thesis
    proof (rule wrote)
      show "anchored_receipt (mget (table s') h) = Some r"
        using tx assms(2) by (simp add: s' markAnchored_def incrementAttempts_def change_anchor_get anchored_receipt_def)
      show "mget (table s') k = mget (table s) k" if "k \<noteq> h" for k
        using that by (simp add: s' markAnchored_def incrementAttempts_def change_anchor_get)
      show "Option.bind (mget (table s') h) a_chainTxHash = Some (r_txHash r)"
        using assms(2) by (simp add: s' markAnchored_def incrementAttempts_def change_anchor_get)
    qed (use None w Inr tx s' in simp_all)
  qed
qed

section \<open>Written once\<close>

text \<open>The life of the anchor table: submissions prepare a record, and jobs process prepared hashes, in any order and any
  number of times. The label is the hash a step wrote to the chain.\<close>

inductive anchor_step :: "'c chain_client \<Rightarrow> 'c anchor_state \<Rightarrow> string list \<Rightarrow> 'c anchor_state \<Rightarrow> bool" for client where
  prepare: "anchor_step client s [] (s\<lparr>table := anchor_create uuid now h ty (table s)\<rparr>)"
| answered: "mget (table s) h \<noteq> None \<Longrightarrow> process client h ty s = (s', Inr r) \<Longrightarrow>
    anchor_step client s (if anchored_receipt (mget (table s) h) = None then [h] else []) s'"
| failing: "mget (table s) h \<noteq> None \<Longrightarrow> process client h ty s = (s', Inl e) \<Longrightarrow> anchor_step client s [] s'"

inductive anchor_run :: "'c chain_client \<Rightarrow> 'c anchor_state \<Rightarrow> string list \<Rightarrow> 'c anchor_state \<Rightarrow> bool" for client where
  stop: "anchor_run client s [] s"
| more: "anchor_run client s ws t \<Longrightarrow> anchor_step client t vs u \<Longrightarrow> anchor_run client s (ws @ vs) u"

lemma step_keeps:
  assumes "anchor_step client s ws s'" "names_tx client"
  shows "anchored_receipt (mget (table s) k) = Some r \<longrightarrow> anchored_receipt (mget (table s') k) = Some r"
    and "\<forall>w \<in> set ws. anchored_receipt (mget (table s) w) = None \<and> anchored_receipt (mget (table s') w) \<noteq> None" "distinct ws"
  using assms(1)
proof (atomize (full), induction rule: anchor_step.induct)
  case (prepare s uuid now h ty)
  then show ?case by (simp add: anchor_create_get split: option.splits) (simp add: anchored_receipt_def)
next
  case (answered s h ty s' r')
  then obtain a where a: "mget (table s) h = Some a" by auto
  note names = assms(2) [unfolded names_tx_def, rule_format]
  show ?case
  proof (rule process_cases [OF answered(2) a names])
    fix r assume "anchored_receipt (Some a) = Some r" "s' = s" "Inr r' = Inr r"
    then show ?thesis using a by simp
  next
    fix r c assume w: "anchored_receipt (Some a) = None" "anchored_receipt (mget (table s') h) = Some r" "\<And>k. k \<noteq> h \<Longrightarrow> mget (table s') k = mget (table s) k"
    then show ?thesis using a by (cases "k = h") auto
  qed simp_all
next
  case (failing s h ty s' e)
  then obtain a where a: "mget (table s) h = Some a" by auto
  note names = assms(2) [unfolded names_tx_def, rule_format]
  show ?case
  proof (rule process_cases [OF failing(2) a names])
    fix e' c assume w: "anchored_receipt (Some a) = None" "Inl e = Inl e'" "\<And>k. k \<noteq> h \<Longrightarrow> mget (table s') k = mget (table s) k"
    then show ?thesis using a by (cases "k = h") auto
  qed simp_all
qed

text \<open>A hash is written to the chain at most once. Whatever submissions and retried jobs follow each other, no hash is
  written twice, every written hash is recorded as anchored, and a record that is anchored keeps its receipt for ever.\<close>

theorem anchored_once:
  assumes "names_tx client" "anchor_run client s ws s'"
  shows "distinct ws \<and> (\<forall>h \<in> set ws. anchored_receipt (mget (table s) h) = None \<and> anchored_receipt (mget (table s') h) \<noteq> None) \<and>
    (\<forall>h r. anchored_receipt (mget (table s) h) = Some r \<longrightarrow> anchored_receipt (mget (table s') h) = Some r)"
  using assms(2)
proof (induction rule: anchor_run.induct)
  case (more s ws t vs u)
  note step = step_keeps [OF more(2) assms(1)]
  have "set ws \<inter> set vs = {}" using more.IH step(2) by auto
  moreover have "anchored_receipt (mget (table u) h) \<noteq> None" if "h \<in> set ws" for h
    using more.IH step(1) [of h] that by auto
  moreover have "anchored_receipt (mget (table s) h) = None" if "h \<in> set vs" for h
    using more.IH step(2) that by (metis not_None_eq)
  ultimately show ?case using more.IH step by auto
qed simp

section \<open>A queued job ends\<close>

lemma attempts_end:
  assumes "names_tx client"
  shows "mget (table s) h = Some a \<Longrightarrow> run_attempts (Suc n) client h ty s = (s', res) \<Longrightarrow>
    (case res of Inr r \<Rightarrow> anchored_receipt (mget (table s') h) = Some r
     | Inl e \<Rightarrow> \<exists>a'. mget (table s') h = Some a' \<and> a_attempts a' = a_attempts a + Suc n \<and> (5 \<le> a_attempts a' \<longrightarrow> a_status a' = ''failed''))"
proof (induction n arbitrary: s a)
  case 0
  obtain s1 r1 where p: "process client h ty s = (s1, r1)" by fastforce
  then have r: "s' = s1" "res = r1" using "0.prems"(2) by (auto split: sum.splits)
  note names = assms [unfolded names_tx_def, rule_format]
  show ?case by (rule process_cases [OF p "0.prems"(1) names]) (use r "0.prems"(1) in auto)
next
  case (Suc n)
  obtain s1 r1 where p: "process client h ty s = (s1, r1)" by fastforce
  note names = assms [unfolded names_tx_def, rule_format]
  show ?case
  proof (cases r1)
    case (Inr r)
    then have "s' = s1" "res = Inr r" using Suc.prems(2) p by simp_all
    then show ?thesis by (rule_tac process_cases [OF p Suc.prems(1) names]) (use Suc.prems(1) Inr in auto)
  next
    case (Inl e)
    then have run: "run_attempts (Suc n) client h ty s1 = (s', res)" using Suc.prems(2) p by simp
    obtain a1 where a1: "mget (table s1) h = Some a1" "a_attempts a1 = a_attempts a + 1"
      by (rule process_cases [OF p Suc.prems(1) names]) (use Inl in auto)
    show ?thesis using Suc.IH [OF a1(1) run] a1(2) by (auto split: sum.splits)
  qed
qed

text \<open>A queued job ends in a final state. After its five attempts the hash is anchored with the receipt the job answers, or
  the record says failed and counts five more attempts; it is never left pending.\<close>

theorem queue_job_settles:
  assumes "names_tx client" "mget (table s) h = Some a" "run_attempts 5 client h ty s = (s', res)"
  shows "case res of Inr r \<Rightarrow> anchored_receipt (mget (table s') h) = Some r
    | Inl e \<Rightarrow> \<exists>a'. mget (table s') h = Some a' \<and> a_status a' = ''failed'' \<and> a_attempts a' = a_attempts a + 5"
  using attempts_end [OF assms(1), of s h a 4 ty s' res] assms(2,3) by (auto split: sum.splits simp: eval_nat_numeral)

section \<open>What was sealed can be found\<close>

text \<open>The contract of a chain client: what it wrote can be read back, and later writes do not change what can be read,
  unless a transaction hash repeats (\<open>bad\<close>).\<close>

locale chain_law =
  fixes client :: "'c chain_client" and bad :: "string \<Rightarrow> string \<Rightarrow> 'c \<Rightarrow> bool"
  assumes named: "write_anchor client h ty c = (c', Inr r) \<Longrightarrow> \<not> bad h ty c \<Longrightarrow> r_txHash r \<noteq> []"
    and written: "write_anchor client h ty c = (c', Inr r) \<Longrightarrow> \<not> bad h ty c \<Longrightarrow>
      \<exists>i. inspect_tx client (r_txHash r) c' = Some i \<and> i_success i \<and> i_payloadHash i = Some h"
    and kept: "write_anchor client h ty c = (c', res) \<Longrightarrow> \<not> bad h ty c \<Longrightarrow> inspect_tx client tx c = Some i \<Longrightarrow> inspect_tx client tx c' = Some i"

definition on_chain :: "'c chain_client \<Rightarrow> 'c \<Rightarrow> string \<Rightarrow> string \<Rightarrow> bool" where
  "on_chain client c h tx \<longleftrightarrow> tx \<noteq> [] \<and> (\<exists>i. inspect_tx client tx c = Some i \<and> i_success i \<and> i_payloadHash i = Some h)"

definition sound_table :: "'c chain_client \<Rightarrow> 'c anchor_state \<Rightarrow> bool" where
  "sound_table client s \<longleftrightarrow> (\<forall>h tx. Option.bind (mget (table s) h) a_chainTxHash = Some tx \<longrightarrow> on_chain client (chain s) h tx)"

context chain_law
begin

lemma on_chain_kept: "write_anchor client h ty c = (c', res) \<Longrightarrow> \<not> bad h ty c \<Longrightarrow> on_chain client c k tx \<Longrightarrow> on_chain client c' k tx"
  using kept unfolding on_chain_def by blast

lemma process_sound:
  assumes "sound_table client s" "mget (table s) h = Some a" "process client h ty s = (s', res)" "\<not> bad h ty (chain s)"
  shows "sound_table client s' \<and> (\<forall>r. res = Inr r \<longrightarrow> Option.bind (mget (table s') h) a_chainTxHash \<noteq> None)"
proof -
  have names: "r_txHash r \<noteq> []" if "write_anchor client h ty (chain s) = (c, Inr r)" for c r
    using named that assms(4) by blast
  show ?thesis
  proof (rule process_cases [OF assms(3,2) names])
    fix r assume r: "anchored_receipt (Some a) = Some r" "s' = s"
    then have "a_chainTxHash a \<noteq> None" by (auto simp: anchored_receipt_def split: option.splits)
    then show ?thesis using assms(1,2) r by simp
  next
    fix r c assume w: "write_anchor client h ty (chain s) = (c, Inr r)" "chain s' = c" "\<And>k. k \<noteq> h \<Longrightarrow> mget (table s') k = mget (table s) k"
      "r_txHash r \<noteq> []" "Option.bind (mget (table s') h) a_chainTxHash = Some (r_txHash r)"
    have "on_chain client c k tx" if "Option.bind (mget (table s') k) a_chainTxHash = Some tx" for k tx
    proof (cases "k = h")
      case True
      then show ?thesis using written [OF w(1) assms(4)] w(4,5) that by (simp add: on_chain_def)
    next
      case False
      then show ?thesis using on_chain_kept [OF w(1) assms(4)] assms(1) w(3) that by (simp add: sound_table_def)
    qed
    then show ?thesis using w by (simp add: sound_table_def)
  next
    fix e c assume w: "res = Inl e" "write_anchor client h ty (chain s) = (c, Inl e)" "chain s' = c"
      "mget (table s') h = Some (a\<lparr>a_attempts := a_attempts a + 1, a_status := (if 5 \<le> a_attempts a + 1 then ''failed'' else a_status a)\<rparr>)"
      "\<And>k. k \<noteq> h \<Longrightarrow> mget (table s') k = mget (table s) k"
    have "Option.bind (mget (table s') k) a_chainTxHash = Option.bind (mget (table s) k) a_chainTxHash" for k
      using w(4,5) assms(2) by (cases "k = h") simp_all
    then show ?thesis using on_chain_kept [OF w(2) assms(4)] assms(1) w(1,3) by (simp add: sound_table_def)
  qed
qed

lemma submit_sound:
  assumes "sound_table client s" "submit ImmediateDispatcher client uuid now h ty s = (s', Inr a)" "\<not> bad h ty (chain s)"
  shows "sound_table client s' \<and> Option.bind (mget (table s') h) a_chainTxHash \<noteq> None"
proof -
  let ?s = "s\<lparr>table := anchor_create uuid now h ty (table s)\<rparr>"
  have "Option.bind (mget (table ?s) k) a_chainTxHash = Option.bind (mget (table s) k) a_chainTxHash" for k
    by (auto simp: anchor_create_get split: option.splits)
  then have sound: "sound_table client ?s" using assms(1) by (simp add: sound_table_def)
  obtain b where b: "mget (table ?s) h = Some b" by (cases "mget (table s) h") (auto simp: anchor_create_get)
  obtain r where "process client h ty ?s = (s', Inr r)"
    using assms(2) by (auto simp: submit_def Let_def split: prod.splits sum.splits)
  then show ?thesis using process_sound [OF sound b] assms(3) by simp
qed

lemma sealed:
  assumes "sound_table client (anchors s)" "record_evidence K True ImmediateDispatcher client base uuid now u dto s = (s', Inr v)"
    "merkleRoot K (map VObj (d_leaves dto)) = Inr m" "\<not> bad m ''rule_version'' (chain (anchors s))"
  shows "sound_table client (anchors s') \<and> (\<exists>chk. checkChain client later u m s' = Some chk \<and> k_matches chk \<and> k_success chk)"
proof -
  obtain country year where head: "evidence_header (d_leaves dto) = Inr (country, year)"
    using assms(2) by (cases "evidence_header (d_leaves dto)") (auto simp: record_evidence_def split: if_splits)
  let ?input = "\<lparr>e_id = uuid, e_createdAt = now, e_userId = u, e_countryCode = country, e_taxYear = year,
    e_merkleRoot = m, e_document = document_of dto, e_leafCount = length (d_leaves dto)\<rparr>"
  obtain t r where sv: "evidence_save ?input (evidences s) = (t, r)" by fastforce
  obtain a q where submitted: "submit ImmediateDispatcher client uuid now m ''rule_version'' (anchors s) = (a, q)" by fastforce
  obtain b where sub: "submit ImmediateDispatcher client uuid now m ''rule_version'' (anchors s) = (a, Inr b)" and s': "s' = s\<lparr>evidences := t, anchors := a\<rparr>"
    using assms(2,3) head sv submitted by (cases q) (auto simp: record_evidence_def Let_def split: if_splits)
  have save: "findByRoot u m t \<noteq> None"
    using sv by (auto simp: evidence_save_def findByRoot_def Let_def map_of_update split: option.splits)
  note sound = submit_sound [OF assms(1) sub assms(4)]
  obtain tx where tx: "Option.bind (mget (table a) m) a_chainTxHash = Some tx" using sound by auto
  have "on_chain client (chain a) m tx" using sound tx unfolding sound_table_def by blast
  then show ?thesis using sound tx save s' by (auto simp: checkChain_def on_chain_def Let_def split: option.splits)
qed

end

interpretation mock: chain_law "mock_client K now" "\<lambda>h ty c. mock_tx K h ty c = [] \<or> mhas (c_records c) (mock_tx K h ty c)" for K now
proof (unfold_locales, goal_cases)
  case (3 h ty c c' res tx i)
  then show ?case by (cases "tx = mock_tx K h ty c") (auto simp: mock_client_def mock_anchor_def mock_inspect_def map_of_update split: option.splits)
qed (auto simp: mock_client_def mock_anchor_def mock_inspect_def map_of_update)

text \<open>What was sealed can be checked. When a document is recorded and its root processed at once, reading the chain afterwards
  finds the transaction, successful, with exactly that root, and the table of anchors stays truthful; only a repeated
  transaction hash could break it.\<close>

theorem sealed_evidence_checks:
  assumes "chain_law client bad" "sound_table client (anchors s)" "\<not> bad m ''rule_version'' (chain (anchors s))"
    "merkleRoot K (map VObj (d_leaves dto)) = Inr m"
    "record_evidence K True ImmediateDispatcher client base uuid now u dto s = (s', Inr v)"
  shows "sound_table client (anchors s') \<and> (\<exists>chk. checkChain client later u m s' = Some chk \<and> k_matches chk \<and> k_success chk)"
  by (rule chain_law.sealed [OF assms(1,2,5,4,3)])

section \<open>A run\<close>

definition empty_evidence :: "mock_chain evidence_state" where
  "empty_evidence = \<lparr>evidences = [], anchors = \<lparr>table = [], chain = \<lparr>c_records = [], c_block = 1\<rparr>\<rparr>\<rparr>"

definition sealed_dto :: evidence_dto where
  "sealed_dto = \<lparr>d_version = 1, d_leaves = [[(''kind'', VStr ''header''), (''country'', VStr ''KR''), (''taxYear'', jint 2025)]], d_merkleRoot = None\<rparr>"

definition sealed_root :: string where
  "sealed_root = (case merkleRoot sample_hash (map VObj (d_leaves sealed_dto)) of Inr m \<Rightarrow> m | Inl _ \<Rightarrow> [])"

definition sealed_run :: "mock_chain evidence_state \<times> (http_error, evidence_view) result" where
  "sealed_run = record_evidence sample_hash True ImmediateDispatcher (mock_client sample_hash 5) None ''id'' 5 ''u'' sealed_dto empty_evidence"

lemma sealed_values: "isl (snd sealed_run) = False" "isl (merkleRoot sample_hash (map VObj (d_leaves sealed_dto))) = False"
  by code_simp+

theorem sealed_evidence_checks_witness:
  "sound_table (mock_client sample_hash 5) (anchors (fst sealed_run)) \<and>
   (\<exists>chk. checkChain (mock_client sample_hash 5) 9 ''u'' sealed_root (fst sealed_run) = Some chk \<and> k_matches chk \<and> k_success chk)"
proof (rule sealed_evidence_checks [OF mock.chain_law_axioms])
  show "sound_table (mock_client sample_hash 5) (anchors empty_evidence)" by (simp add: sound_table_def empty_evidence_def)
  show "\<not> (mock_tx sample_hash sealed_root ''rule_version'' (chain (anchors empty_evidence)) = [] \<or>
      mhas (c_records (chain (anchors empty_evidence))) (mock_tx sample_hash sealed_root ''rule_version'' (chain (anchors empty_evidence))))"
    by (simp add: empty_evidence_def mock_tx_def sample_hash_def)
  show "merkleRoot sample_hash (map VObj (d_leaves sealed_dto)) = Inr sealed_root"
    using sealed_values(2) by (auto simp: sealed_root_def split: sum.splits)
  show "record_evidence sample_hash True ImmediateDispatcher (mock_client sample_hash 5) None ''id'' 5 ''u'' sealed_dto empty_evidence =
      (fst sealed_run, Inr (projr (snd sealed_run)))"
    using sealed_values(1) unfolding sealed_run_def [symmetric] by (cases "snd sealed_run") (simp_all add: prod_eq_iff)
qed

definition prepared_anchor :: "mock_chain anchor_state" where
  "prepared_anchor = \<lparr>table = anchor_create ''id'' 0 ''h'' ''event'' [], chain = \<lparr>c_records = [], c_block = 1\<rparr>\<rparr>"

lemma mock_names: "names_tx (mock_client sample_hash now)"
  by (simp add: names_tx_def mock_client_def mock_anchor_def mock_tx_def sample_hash_def)

theorem queue_job_settles_witness:
  "anchored_receipt (mget (table (fst (run_attempts 5 (mock_client sample_hash 5) ''h'' ''event'' prepared_anchor))) ''h'') =
     Some \<lparr>r_txHash = sample_hash ''h:event:1'', r_blockNumber = 1, r_anchoredAt = 5\<rparr>"
proof -
  obtain a where a: "mget (table prepared_anchor) ''h'' = Some a" by (simp add: prepared_anchor_def anchor_create_def)
  have "snd (run_attempts 5 (mock_client sample_hash 5) ''h'' ''event'' prepared_anchor) = Inr \<lparr>r_txHash = sample_hash ''h:event:1'', r_blockNumber = 1, r_anchoredAt = 5\<rparr>"
    by code_simp
  then obtain s' where "run_attempts 5 (mock_client sample_hash 5) ''h'' ''event'' prepared_anchor = (s', Inr \<lparr>r_txHash = sample_hash ''h:event:1'', r_blockNumber = 1, r_anchoredAt = 5\<rparr>)"
    by (metis prod.collapse)
  then show ?thesis using queue_job_settles [OF mock_names a] by fastforce
qed

text \<open>Two jobs for one hash: the second answers from the record.\<close>

definition first_job :: "mock_chain anchor_state" where
  "first_job = fst (process (mock_client sample_hash 5) ''h'' ''event'' prepared_anchor)"

lemma job_values:
  "isl (snd (process (mock_client sample_hash 5) ''h'' ''event'' prepared_anchor)) = False"
  "isl (snd (process (mock_client sample_hash 5) ''h'' ''event'' first_job)) = False"
  "anchored_receipt (mget (table prepared_anchor) ''h'') = None" "(anchored_receipt (mget (table first_job) ''h'') = None) = False"
  "mhas (table prepared_anchor) ''h''" "mhas (table first_job) ''h''"
  by code_simp+

theorem anchored_once_witness:
  "anchored_receipt (mget (table (fst (process (mock_client sample_hash 5) ''h'' ''event'' first_job))) ''h'') \<noteq> None"
proof -
  let ?c = "mock_client sample_hash 5"
  obtain r where r: "process ?c ''h'' ''event'' prepared_anchor = (first_job, Inr r)"
    using job_values(1) by (cases "snd (process ?c ''h'' ''event'' prepared_anchor)") (auto simp: first_job_def prod_eq_iff)
  obtain q where q: "process ?c ''h'' ''event'' first_job = (fst (process ?c ''h'' ''event'' first_job), Inr q)"
    using job_values(2) by (cases "snd (process ?c ''h'' ''event'' first_job)") (auto simp: prod_eq_iff)
  have "anchor_run ?c prepared_anchor ([] @ [''h'']) first_job"
    using anchor_step.answered [OF job_values(5) r] job_values(3) by (intro anchor_run.more [OF anchor_run.stop]) simp
  then have "anchor_run ?c prepared_anchor (([] @ [''h'']) @ []) (fst (process ?c ''h'' ''event'' first_job))"
    using anchor_step.answered [OF job_values(6) q] job_values(4) by (elim anchor_run.more) simp
  from anchored_once [OF mock_names this] show ?thesis by simp
qed

end
