(* ===== verification/Holdings.thy ===== *)
theory Holdings
  imports CostBasis TxRepository SpamFilter ChainRegistry Pool
begin

text \<open>
  The portfolio read (\<open>portfolio/holdings.service.ts\<close>): live balances of every wallet are merged per asset, joined
  with what the ledger and the provider know of the asset, priced, valued and summarised; reads are memoised per
  user for a short time. The balance reader, the metadata lookup and the price oracle are arguments, and within
  one load each of them answers a request once and for all.
\<close>

section \<open>Data\<close>

record chain_balances =
  cb_chainId :: int
  cb_nativeRaw :: int
  cb_tokens :: "(string \<times> int) list"

record balance_snapshot =
  sn_chains :: "chain_balances list"
  sn_skipped :: "int list"
  sn_truncated :: "int list"

record token_metadata =
  md_symbol :: string
  md_name :: string
  md_decimals :: nat

record token_market =
  tm_priceUsd :: "string option"
  tm_liquidityUsd :: jnum
  tm_pairCount :: nat

record ledger_asset =
  la_symbol :: string
  la_name :: string
  la_decimals :: nat
  la_spamOnly :: bool

record asset_candidate =
  as_chainId :: int
  as_type :: string
  as_contract :: "string option"
  as_raw :: int

record resolved_asset = asset_candidate +
  as_symbol :: string
  as_name :: string
  as_decimals :: nat

record priced_asset = resolved_asset +
  as_market :: "token_market option"

definition LOOKUP_CONCURRENCY :: nat where
  "LOOKUP_CONCURRENCY = 4"

definition MAX_UNKNOWN_TOKENS_PER_CHAIN :: nat where
  "MAX_UNKNOWN_TOKENS_PER_CHAIN = 40"

definition METADATA_CACHE_MAX :: nat where
  "METADATA_CACHE_MAX = 5000"

definition HOLDINGS_TTL_MS :: int where
  "HOLDINGS_TTL_MS = 30000"

definition COST_CURRENCY :: string where
  "COST_CURRENCY = ''KRW''"

section \<open>Merging balances\<close>

definition holding_key :: "int \<Rightarrow> string \<Rightarrow> string option \<Rightarrow> string" where
  "holding_key c ty contract = holdingAssetKey (jint c) ty contract None"

definition candidate_key :: "('a) asset_candidate_scheme \<Rightarrow> string" where
  "candidate_key a = holding_key (as_chainId a) (as_type a) (as_contract a)"

definition accumulate :: "(string, asset_candidate) jmap \<Rightarrow> asset_candidate \<Rightarrow> (string, asset_candidate) jmap" where
  "accumulate byKey a = (case mget byKey (candidate_key a) of
     Some existing \<Rightarrow> mput (candidate_key a) (existing\<lparr>as_raw := as_raw existing + as_raw a\<rparr>) byKey
   | None \<Rightarrow> mput (candidate_key a) a byKey)"

definition chain_candidates :: "chain_balances \<Rightarrow> asset_candidate list" where
  "chain_candidates c =
     (if 0 < cb_nativeRaw c then [\<lparr>as_chainId = cb_chainId c, as_type = ''NATIVE'', as_contract = None, as_raw = cb_nativeRaw c\<rparr>] else []) @
     map (\<lambda>(contract, raw). \<lparr>as_chainId = cb_chainId c, as_type = ''ERC20'', as_contract = Some (toLowerCase contract), as_raw = raw\<rparr>)
       (filter (\<lambda>(contract, raw). 0 < raw) (cb_tokens c))"

record merged =
  mg_candidates :: "asset_candidate list"
  mg_skipped :: "int list"
  mg_truncated :: "int list"

definition mergeSnapshots :: "balance_snapshot list \<Rightarrow> merged" where
  "mergeSnapshots snaps = \<lparr>
     mg_candidates = mvalues (foldl accumulate [] (concat (map chain_candidates (concat (map sn_chains snaps))))),
     mg_skipped = sort_by (\<le>) (sadd_all (concat (map sn_skipped snaps)) []),
     mg_truncated = sort_by (\<le>) (sadd_all (concat (map sn_truncated snaps)) [])\<rparr>"

section \<open>What the ledger knows\<close>

definition nonblank :: "jsv \<Rightarrow> string option" where
  "nonblank v = (case v of VStr s \<Rightarrow> if trim s = [] then None else Some (trim s) | _ \<Rightarrow> None)"

definition nat_number :: "jsv \<Rightarrow> nat option" where
  "nat_number v = (case v of VNum (JFin q) \<Rightarrow> if is_integer q \<and> 0 \<le> q then Some (nat \<lfloor>q\<rfloor>) else None | _ \<Rightarrow> None)"

definition ledger_row :: "(string, ledger_asset) jmap \<Rightarrow> transaction_record \<Rightarrow> (string, ledger_asset) jmap" where
  "ledger_row assets row =
     (let p = row_payload row in
      case (pget p ''asset_type'' = VStr ''ERC20'', pget p ''asset_contract'', js_Number (pget p ''chain_id''), nonblank (pget p ''symbol''), nat_number (pget p ''decimals'')) of
        (True, VStr contract, JFin c, Some symbol, Some decimals) \<Rightarrow>
          (let key = holdingAssetKey (VNum (JFin c)) ''ERC20'' (Some contract) None; spam = (pget p ''classification'' = VStr ''SPAM'')
           in case mget assets key of
                None \<Rightarrow> mput key \<lparr>la_symbol = symbol, la_name = symbol, la_decimals = decimals, la_spamOnly = spam\<rparr> assets
              | Some existing \<Rightarrow> if spam then assets else mput key (existing\<lparr>la_spamOnly := False\<rparr>) assets)
      | _ \<Rightarrow> assets)"

definition indexLedgerAssets :: "transaction_record list \<Rightarrow> (string, ledger_asset) jmap" where
  "indexLedgerAssets rows = foldl ledger_row [] rows"

section \<open>Exact amounts\<close>

definition strip_zeros :: "string \<Rightarrow> string" where
  "strip_zeros s = rev (dropWhile (\<lambda>c. c = CHR ''0'') (rev s))"

definition formatUnits :: "int \<Rightarrow> nat \<Rightarrow> string" where
  "formatUnits raw decimals =
     (let digits = pad_left (decimals + 1) (int_str raw);
          whole = (let w = take (length digits - decimals) digits in if w = [] then ''0'' else w);
          fraction = (if 0 < decimals then strip_zeros (drop (length digits - decimals) digits) else [])
      in if fraction \<noteq> [] then whole @ ''.'' @ fraction else whole)"

section \<open>Resolving\<close>

text \<open>The metadata of a contract: answered (possibly with nothing usable), or the lookup failed. Answers are kept, the
  oldest is dropped when the cache is full; failures are not kept.\<close>

type_synonym metadata_cache = "(string, token_metadata option) jmap"

definition metadata_key :: "int \<Rightarrow> string \<Rightarrow> string" where
  "metadata_key c contract = int_str c @ '':'' @ contract"

definition remember_metadata :: "string \<Rightarrow> token_metadata option \<Rightarrow> metadata_cache \<Rightarrow> metadata_cache" where
  "remember_metadata k m cache =
     mput k m (if METADATA_CACHE_MAX \<le> length cache then (case cache of [] \<Rightarrow> [] | (old, _) # _ \<Rightarrow> mdel old cache) else cache)"

type_synonym metadata_reader = "int \<Rightarrow> string \<Rightarrow> (string, token_metadata option) result"

text \<open>\<open>metadataFor\<close> in two parts: the look into the cache when the work starts, the answer when it has settled. \<open>None\<close> is a failed lookup.\<close>

definition metadata_start :: "metadata_cache \<Rightarrow> asset_candidate \<Rightarrow> token_metadata option option" where
  "metadata_start cache a = mget cache (metadata_key (as_chainId a) (case as_contract a of Some c \<Rightarrow> c | None \<Rightarrow> []))"

definition metadata_finish :: "metadata_reader \<Rightarrow> metadata_cache \<Rightarrow> asset_candidate \<Rightarrow> token_metadata option option \<Rightarrow>
    metadata_cache \<times> token_metadata option option" where
  "metadata_finish reader cache a hit = (let contract = (case as_contract a of Some c \<Rightarrow> c | None \<Rightarrow> []) in
     case hit of
       Some m \<Rightarrow> (cache, Some m)
     | None \<Rightarrow> (case reader (as_chainId a) contract of
         Inl _ \<Rightarrow> (cache, None)
       | Inr m \<Rightarrow> (remember_metadata (metadata_key (as_chainId a) contract) m cache, Some m)))"

definition resolve_as :: "asset_candidate \<Rightarrow> string \<Rightarrow> string \<Rightarrow> nat \<Rightarrow> resolved_asset" where
  "resolve_as a symbol name decimals = \<lparr>as_chainId = as_chainId a, as_type = as_type a, as_contract = as_contract a, as_raw = as_raw a,
     as_symbol = symbol, as_name = name, as_decimals = decimals\<rparr>"

definition known_finish :: "metadata_reader \<Rightarrow> metadata_cache \<Rightarrow> asset_candidate \<times> ledger_asset \<Rightarrow> token_metadata option option \<Rightarrow>
    metadata_cache \<times> (unit, resolved_asset) result" where
  "known_finish reader cache known hit = (case known of (a, seen) \<Rightarrow> (case metadata_finish reader cache a hit of
     (cache, Some (Some m)) \<Rightarrow> (cache, Inr (resolve_as a (md_symbol m) (md_name m) (md_decimals m)))
   | (cache, _) \<Rightarrow> (cache, Inr (resolve_as a (la_symbol seen) (la_name seen) (la_decimals seen)))))"

definition unknown_finish :: "metadata_reader \<Rightarrow> metadata_cache \<times> nat \<Rightarrow> asset_candidate \<Rightarrow> token_metadata option option \<Rightarrow>
    (metadata_cache \<times> nat) \<times> (unit, resolved_asset option) result" where
  "unknown_finish reader st a hit = (case metadata_finish reader (fst st) a hit of
     (cache, None) \<Rightarrow> ((cache, snd st + 1), Inr None)
   | (cache, Some None) \<Rightarrow> ((cache, snd st), Inr None)
   | (cache, Some (Some m)) \<Rightarrow> ((cache, snd st), Inr (if isInboundSpam ''ERC20'' (md_symbol m) (as_contract a) then None
       else Some (resolve_as a (md_symbol m) (md_name m) (md_decimals m)))))"

record sorted_candidates =
  sc_natives :: "resolved_asset list"
  sc_known :: "(asset_candidate \<times> ledger_asset) list"
  sc_unknown :: "(int, asset_candidate list) jmap"

definition sort_candidate :: "(string, ledger_asset) jmap \<Rightarrow> sorted_candidates \<Rightarrow> asset_candidate \<Rightarrow> sorted_candidates" where
  "sort_candidate ledger s a =
     (if as_type a = ''NATIVE'' then (case List.find (\<lambda>e. chainId e = as_chainId a) CHAIN_REGISTRY of
        None \<Rightarrow> s
      | Some e \<Rightarrow> s\<lparr>sc_natives := sc_natives s @ [resolve_as a (nativeSymbol e) (nativeSymbol e) (nativeDecimals e)]\<rparr>)
      else (case mget ledger (holding_key (as_chainId a) ''ERC20'' (as_contract a)) of
        Some seen \<Rightarrow> if la_spamOnly seen then s else s\<lparr>sc_known := sc_known s @ [(a, seen)]\<rparr>
      | None \<Rightarrow> s\<lparr>sc_unknown := mput (as_chainId a) ((case mget (sc_unknown s) (as_chainId a) of Some b \<Rightarrow> b | None \<Rightarrow> []) @ [a]) (sc_unknown s)\<rparr>))"

definition sort_candidates :: "(string, ledger_asset) jmap \<Rightarrow> asset_candidate list \<Rightarrow> sorted_candidates" where
  "sort_candidates ledger as = foldl (sort_candidate ledger) \<lparr>sc_natives = [], sc_known = [], sc_unknown = []\<rparr> as"

definition resolveAssets :: "metadata_reader \<Rightarrow> (string \<Rightarrow> nat \<Rightarrow> nat) \<Rightarrow> asset_candidate list \<Rightarrow> (string, ledger_asset) jmap \<Rightarrow> int list \<Rightarrow> metadata_cache \<Rightarrow>
    metadata_cache \<times> resolved_asset list \<times> nat \<times> int list" where
  "resolveAssets reader settles candidates ledger truncated cache =
     (let s = sort_candidates ledger candidates;
          truncated = sadd_all (map fst (filter (\<lambda>(c, bucket). MAX_UNKNOWN_TOKENS_PER_CHAIN < length bucket) (sc_unknown s))) truncated;
          unknown = concat (map (\<lambda>(c, bucket). take MAX_UNKNOWN_TOKENS_PER_CHAIN bucket) (sc_unknown s))
      in case mapWithConcurrency (settles ''known'') LOOKUP_CONCURRENCY (\<lambda>cache (a, seen). metadata_start cache a) (known_finish reader) cache (sc_known s) of
           (cache, r) \<Rightarrow> (let fromLedger = (case r of Inr bs \<Rightarrow> bs | Inl _ \<Rightarrow> []) in
             case mapWithConcurrency (settles ''unknown'') LOOKUP_CONCURRENCY (\<lambda>st a. metadata_start (fst st) a) (unknown_finish reader) (cache, 0) unknown of
               ((cache, unresolved), q) \<Rightarrow>
                 (cache, sc_natives s @ fromLedger @ List.map_filter (\<lambda>x. x) (case q of Inr bs \<Rightarrow> bs | Inl _ \<Rightarrow> []), unresolved, truncated)))"

section \<open>Prices\<close>

text \<open>\<open>marketVerdict\<close> of \<open>indexer/price-enrichment.service.ts\<close>.\<close>

datatype market_verdict = NoMarket | Illiquid | Priced

definition marketVerdict :: "token_market \<Rightarrow> market_verdict" where
  "marketVerdict m = (if tm_pairCount m = 0 then NoMarket else if tm_priceUsd m = None then Illiquid else Priced)"

type_synonym price_oracle = "int \<Rightarrow> string \<Rightarrow> (string, token_market option) result"

definition safeLookup :: "price_oracle \<Rightarrow> int \<Rightarrow> string \<Rightarrow> token_market option" where
  "safeLookup oracle c contract = (case oracle c contract of Inl _ \<Rightarrow> None | Inr m \<Rightarrow> m)"

definition nativePriceSourceOf :: "int \<Rightarrow> (int \<times> string) option" where
  "nativePriceSourceOf c = (case List.find (\<lambda>e. chainId e = c) CHAIN_REGISTRY of
     None \<Rightarrow> None
   | Some own \<Rightarrow>
       (let home = (case List.find (\<lambda>e. nativeSymbol e = nativeSymbol own) CHAIN_REGISTRY of Some e \<Rightarrow> e | None \<Rightarrow> own)
        in case wrappedNativeContract home of
             Some w \<Rightarrow> if w = [] then None else Some (chainId home, w)
           | None \<Rightarrow> None))"

definition price_source :: "resolved_asset \<Rightarrow> (int \<times> string) option" where
  "price_source a = (if as_type a = ''NATIVE'' then nativePriceSourceOf (as_chainId a)
     else case as_contract a of Some c \<Rightarrow> if c = [] then None else Some (as_chainId a, c) | None \<Rightarrow> None)"

definition with_market :: "resolved_asset \<Rightarrow> token_market option \<Rightarrow> priced_asset" where
  "with_market a m = \<lparr>as_chainId = as_chainId a, as_type = as_type a, as_contract = as_contract a, as_raw = as_raw a,
     as_symbol = as_symbol a, as_name = as_name a, as_decimals = as_decimals a, as_market = m\<rparr>"

definition keeps_market :: "priced_asset \<Rightarrow> bool" where
  "keeps_market a \<longleftrightarrow> as_type a = ''NATIVE'' \<or> (case as_market a of None \<Rightarrow> True | Some m \<Rightarrow>
     (case as_contract a of Some c \<Rightarrow> c \<noteq> [] \<and> c \<in> set CONTRACT_ALLOWLIST | None \<Rightarrow> False) \<or> marketVerdict m \<noteq> NoMarket)"

text \<open>One lookup per price source: the first asset that needs it starts it, the others wait for its answer.\<close>

definition priceAssets :: "price_oracle \<Rightarrow> resolved_asset list \<Rightarrow> priced_asset list" where
  "priceAssets oracle as = filter keeps_market (map (\<lambda>a. with_market a
     (case price_source a of None \<Rightarrow> None | Some (c, contract) \<Rightarrow> safeLookup oracle c contract)) as)"

section \<open>Values\<close>

text \<open>\<open>Decimal.prototype.toDecimalPlaces(8)\<close>, halves away from zero.\<close>

definition places8 :: "rat \<Rightarrow> rat" where
  "places8 x = (if x < 0 then - (of_int \<lfloor>- x * 10 ^ 8 + 1 / 2\<rfloor> / 10 ^ 8) else of_int \<lfloor>x * 10 ^ 8 + 1 / 2\<rfloor> / 10 ^ 8)"

definition d_places8 :: "decimal \<Rightarrow> decimal" where
  "d_places8 d = (case d of DFin q \<Rightarrow> DFin (places8 q) | x \<Rightarrow> x)"

definition parseDecimalOrNull :: "host \<Rightarrow> string option \<Rightarrow> string option" where
  "parseDecimalOrNull H v = (case v of None \<Rightarrow> None | Some s \<Rightarrow> (case decNew H (VStr s) of Some (DFin _) \<Rightarrow> Some s | _ \<Rightarrow> None))"

text \<open>\<open>new Decimal(s)\<close> for the amounts and the checked prices, which all parse.\<close>

definition dec :: "host \<Rightarrow> string \<Rightarrow> decimal" where
  "dec H s = (case decNew H (VStr s) of Some d \<Rightarrow> d | None \<Rightarrow> DNaN)"

definition asset_amount :: "('a) resolved_asset_scheme \<Rightarrow> string" where
  "asset_amount a = formatUnits (as_raw a) (as_decimals a)"

definition asset_price :: "host \<Rightarrow> priced_asset \<Rightarrow> string option" where
  "asset_price H a = parseDecimalOrNull H (Option.bind (as_market a) tm_priceUsd)"

record wallet_summary =
  ws_address :: string
  ws_verificationMethod :: string
  ws_totalValueUsd :: string
  ws_chainIds :: "int list"
  ws_holdingsCount :: nat
  ws_unpricedCount :: nat

record summary_state =
  su_total :: decimal
  su_count :: nat
  su_unpriced :: nat
  su_chains :: "int list"

definition summary_step :: "host \<Rightarrow> (string, priced_asset) jmap \<Rightarrow> summary_state \<Rightarrow> asset_candidate \<Rightarrow> summary_state" where
  "summary_step H byKey s a = (case mget byKey (candidate_key a) of
     None \<Rightarrow> s
   | Some asset \<Rightarrow>
       (let s = s\<lparr>su_count := su_count s + 1, su_chains := sadd (as_chainId a) (su_chains s)\<rparr>
        in case asset_price H asset of
             None \<Rightarrow> s\<lparr>su_unpriced := su_unpriced s + 1\<rparr>
           | Some price \<Rightarrow> s\<lparr>su_total := d_plus H (su_total s) (d_mul H (dec H (formatUnits (as_raw a) (as_decimals asset))) (dec H price))\<rparr>))"

definition assets_by_key :: "priced_asset list \<Rightarrow> (string, priced_asset) jmap" where
  "assets_by_key priced = foldl (\<lambda>m a. mput (candidate_key a) a m) [] priced"

definition walletSummary :: "host \<Rightarrow> string \<Rightarrow> string \<Rightarrow> balance_snapshot \<Rightarrow> priced_asset list \<Rightarrow> wallet_summary" where
  "walletSummary H address verification sn priced =
     (let s = foldl (summary_step H (assets_by_key priced)) \<lparr>su_total = DFin 0, su_count = 0, su_unpriced = 0, su_chains = []\<rparr>
        (mg_candidates (mergeSnapshots [sn]))
      in \<lparr>ws_address = address, ws_verificationMethod = verification, ws_totalValueUsd = decFixed H (d_places8 (su_total s)),
          ws_chainIds = sort_by (\<le>) (su_chains s), ws_holdingsCount = su_count s, ws_unpricedCount = su_unpriced s\<rparr>)"

section \<open>Canonical assets\<close>

text \<open>\<open>portfolio/canonical-asset.ts\<close>.\<close>

definition CANONICAL_ASSETS :: "(string, string) jmap" where
  "CANONICAL_ASSETS = [
     (''1:0xa0b86991c6218b36c1d19d4a2e9eb0ce3606eb48'', ''usdc''),
     (''10:0x0b2c639c533813f4aa9d7837caf62653d097ff85'', ''usdc''),
     (''137:0x3c499c542cef5e3811e1192ce70d8cc03d5c3359'', ''usdc''),
     (''8453:0x833589fcd6edb6e08f4c7c32d4f71b54bda02913'', ''usdc''),
     (''42161:0xaf88d065e77c8cc2239327c5edb3a432268e5831'', ''usdc''),
     (''1:0xdac17f958d2ee523a2206206994597c13d831ec7'', ''usdt''),
     (''10:0x94b008aa00579c1307b0ef2c499ad98a8ce58e58'', ''usdt''),
     (''137:0xc2132d05d31c914a87c6611c10748aeb04b58e8f'', ''usdt''),
     (''8453:0xfde4c96c8593536e31f229ea8f37b2ada2699bb2'', ''usdt''),
     (''42161:0xfd086bc7cd5c481dcc9c85ebe478a1c0b69fcbb9'', ''usdt''),
     (''1:0x6b175474e89094c44da98b954eedeac495271d0f'', ''dai''),
     (''1:0xc02aaa39b223fe8d0a0e5c4f27ead9083c756cc2'', ''eth''),
     (''8453:0x4200000000000000000000000000000000000006'', ''eth''),
     (''10:0x4200000000000000000000000000000000000006'', ''eth''),
     (''42161:0x82af49447d8a07e3bd95bd0d56f35241523fbab1'', ''eth''),
     (''137:0x0d500b1d8e8ef31e21c99d1db9a6444d3adf1270'', ''pol''),
     (''1:0xbe0ed4138121ecfc5c0e56b40517da27e6c5226b'', ''ath''),
     (''42161:0xc87b37a581ec3257b734886d9d3a581f5a9d056c'', ''ath''),
     (''8453:0xc08cd26474722ce93f4d0c34d16201461c10aa8c'', ''carv''),
     (''42161:0xc08cd26474722ce93f4d0c34d16201461c10aa8c'', ''carv'')]"

definition canonicalAssetIdOf :: "int \<Rightarrow> string \<Rightarrow> string option \<Rightarrow> string option" where
  "canonicalAssetIdOf c assetType contract =
     (if assetType = ''NATIVE'' then (case nativeSymbolOf c of Some s \<Rightarrow> if s = [] then None else Some (toLowerCase s) | None \<Rightarrow> None)
      else case contract of
        None \<Rightarrow> None
      | Some k \<Rightarrow> if k = [] then None else mget CANONICAL_ASSETS (int_str c @ '':'' @ toLowerCase k))"

section \<open>The answer\<close>

record holding_cost =
  hc_currency :: string
  hc_totalCost :: string
  hc_avgCost :: string
  hc_trackedAmount :: string

record holding =
  ho_chainId :: int
  ho_type :: string
  ho_contract :: "string option"
  ho_symbol :: string
  ho_name :: string
  ho_decimals :: nat
  ho_rawAmount :: string
  ho_amount :: string
  ho_priceUsd :: "string option"
  ho_valueUsd :: "string option"
  ho_priceStatus :: "market_verdict option"
  ho_costBasis :: "holding_cost option"
  ho_canonical :: "string option"

text \<open>A price status of \<open>None\<close> is the status unknown.\<close>

definition holding_value :: "host \<Rightarrow> priced_asset \<Rightarrow> string option" where
  "holding_value H a = map_option (\<lambda>price. decFixed H (d_places8 (d_mul H (dec H (asset_amount a)) (dec H price)))) (asset_price H a)"

definition price_status :: "host \<Rightarrow> priced_asset \<Rightarrow> market_verdict option" where
  "price_status H a = (case as_market a of None \<Rightarrow> None
     | Some m \<Rightarrow> if tm_priceUsd m \<noteq> None \<and> asset_price H a = None then None else Some (marketVerdict m))"

definition toHoldingDto :: "host \<Rightarrow> priced_asset \<Rightarrow> holding_cost_basis option \<Rightarrow> holding" where
  "toHoldingDto H a cost = \<lparr>ho_chainId = as_chainId a, ho_type = as_type a, ho_contract = as_contract a, ho_symbol = as_symbol a, ho_name = as_name a,
     ho_decimals = as_decimals a, ho_rawAmount = int_str (as_raw a), ho_amount = asset_amount a, ho_priceUsd = asset_price H a,
     ho_valueUsd = holding_value H a, ho_priceStatus = price_status H a,
     ho_costBasis = map_option (\<lambda>c. \<lparr>hc_currency = COST_CURRENCY, hc_totalCost = h_totalCost c, hc_avgCost = h_avgCost c, hc_trackedAmount = h_qty c\<rparr>) cost,
     ho_canonical = canonicalAssetIdOf (as_chainId a) (as_type a) (as_contract a)\<rparr>"

text \<open>\<open>compareHoldings(left, right) <= 0\<close>. Values are finite decimals, whose order is that of their numbers.\<close>

definition dec_rat :: "host \<Rightarrow> string \<Rightarrow> rat" where
  "dec_rat H s = (case dec H s of DFin q \<Rightarrow> q | _ \<Rightarrow> 0)"

definition tail_le :: "host \<Rightarrow> holding \<Rightarrow> holding \<Rightarrow> bool" where
  "tail_le H l r \<longleftrightarrow> (if ho_chainId l \<noteq> ho_chainId r then ho_chainId l < ho_chainId r else localeCompare H (ho_symbol l) (ho_symbol r) \<le> 0)"

definition holding_le :: "host \<Rightarrow> holding \<Rightarrow> holding \<Rightarrow> bool" where
  "holding_le H l r = (case (ho_valueUsd l, ho_valueUsd r) of
     (Some a, Some b) \<Rightarrow> if dec_rat H a = dec_rat H b then tail_le H l r else dec_rat H b < dec_rat H a
   | (Some a, None) \<Rightarrow> True
   | (None, Some b) \<Rightarrow> False
   | (None, None) \<Rightarrow> tail_le H l r)"

definition total_step :: "host \<Rightarrow> decimal \<times> nat \<Rightarrow> holding \<Rightarrow> decimal \<times> nat" where
  "total_step H st h = (case ho_valueUsd h of None \<Rightarrow> (fst st, snd st + 1) | Some v \<Rightarrow> (d_plus H (fst st) (dec H v), snd st))"

section \<open>One load\<close>

record holding_binding =
  hb_walletAddress :: string
  hb_verificationMethod :: string

record holdings_answer =
  an_walletAddresses :: "string list"
  an_byWallet :: "wallet_summary list"
  an_holdings :: "holding list"
  an_skipped :: "int list"
  an_truncated :: "int list"
  an_unresolved :: nat
  an_totalValueUsd :: string
  an_unpriced :: nat
  an_asOf :: string

text \<open>An address bound twice is shown with the stronger of its verifications.\<close>

definition verification_step :: "(string, string) jmap \<Rightarrow> holding_binding \<Rightarrow> (string, string) jmap" where
  "verification_step m b = (let k = toLowerCase (hb_walletAddress b) in case mget m k of
     None \<Rightarrow> mput k (hb_verificationMethod b) m
   | Some current \<Rightarrow> if current = ''watch_only'' \<and> hb_verificationMethod b \<noteq> ''watch_only'' then mput k (hb_verificationMethod b) m else m)"

fun read_all :: "(string \<Rightarrow> (http_error, balance_snapshot) result) \<Rightarrow> string list \<Rightarrow> (http_error, balance_snapshot list) result" where
  "read_all read [] = Inr []"
| "read_all read (a # as) = rbind (read a) (\<lambda>sn. rbind (read_all read as) (\<lambda>sns. Inr (sn # sns)))"

text \<open>What a load asks of the other components: the bindings, the ledger rows (\<open>listOrSync\<close>), the balances, the cost cells, the
  metadata and the prices.\<close>

record portfolio =
  po_bindings :: "string \<Rightarrow> holding_binding list"
  po_rows :: "string \<Rightarrow> (http_error, transaction_record list) result"
  po_balances :: "string \<Rightarrow> (http_error, balance_snapshot) result"
  po_costs :: "string \<Rightarrow> transaction_record list \<Rightarrow> (http_error, (string, holding_cost_basis) jmap) result"
  po_metadata :: metadata_reader
  po_oracle :: price_oracle
  po_settles :: "string \<Rightarrow> nat \<Rightarrow> nat"
  po_now :: int

definition assemble :: "host \<Rightarrow> portfolio \<Rightarrow> string list \<Rightarrow> (string, string) jmap \<Rightarrow> balance_snapshot list \<Rightarrow> (string, holding_cost_basis) jmap \<Rightarrow>
    transaction_record list \<Rightarrow> metadata_cache \<Rightarrow> metadata_cache \<times> holdings_answer" where
  "assemble H P addresses verification snaps cost rows cache =
     (let mg = mergeSnapshots snaps in
      case resolveAssets (po_metadata P) (po_settles P) (mg_candidates mg) (indexLedgerAssets rows) (mg_truncated mg) cache of
        (cache, resolved, unresolved, truncated) \<Rightarrow>
          (let priced = priceAssets (po_oracle P) resolved;
               holdings = sort_by (holding_le H) (map (\<lambda>a. toHoldingDto H a (mget cost (candidate_key a))) priced);
               (total, unpriced) = foldl (total_step H) (DFin 0, 0) holdings
           in (cache, \<lparr>an_walletAddresses = addresses,
                an_byWallet = map (\<lambda>(address, sn). walletSummary H address (case mget verification address of Some v \<Rightarrow> v | None \<Rightarrow> ''watch_only'') sn priced)
                  (zip addresses snaps),
                an_holdings = holdings, an_skipped = mg_skipped mg, an_truncated = sort_by (\<le>) truncated, an_unresolved = unresolved,
                an_totalValueUsd = decFixed H total, an_unpriced = unpriced, an_asOf = toISOString (po_now P)\<rparr>)))"

definition load_holdings :: "host \<Rightarrow> portfolio \<Rightarrow> string \<Rightarrow> string option \<Rightarrow> metadata_cache \<Rightarrow> metadata_cache \<times> (http_error, holdings_answer) result" where
  "load_holdings H P userId only cache =
     (let all_bindings = po_bindings P userId in
      if all_bindings = [] then (cache, Inl (HttpError 404 ''A bound wallet is required before reading holdings.''))
      else let bindings = (case only of None \<Rightarrow> all_bindings | Some a \<Rightarrow> filter (\<lambda>b. toLowerCase (hb_walletAddress b) = a) all_bindings) in
      if bindings = [] then (cache, Inl (HttpError 404 ''That wallet is not registered to this user.''))
      else let addresses = sadd_all (map (\<lambda>b. toLowerCase (hb_walletAddress b)) bindings) [] in
      case po_rows P userId of
        Inl e \<Rightarrow> (cache, Inl e)
      | Inr rows \<Rightarrow> (case (read_all (po_balances P) addresses, po_costs P userId rows) of
          (Inr snaps, Inr cost) \<Rightarrow> (case assemble H P addresses (foldl verification_step [] bindings) snaps cost rows cache of
             (cache, answer) \<Rightarrow> (cache, Inr answer))
        | (Inl e, Inr _) \<Rightarrow> (cache, Inl e)
        | (Inr _, Inl e) \<Rightarrow> (cache, Inl e)
        | (Inl e, Inl f) \<Rightarrow> (cache, Inl (if po_settles P ''load'' 0 = 0 then e else f))))"

section \<open>Sharing a read\<close>

text \<open>The memo of \<open>holdings\<close> and of \<open>readBalances\<close>: an entry holds the promise of a load, here its number, until it expires.
  A rejected load takes its entry away, unless a newer load has replaced it.\<close>

record memo =
  me_entries :: "(string, int \<times> nat) jmap"
  me_next :: nat

definition memo_call :: "string \<Rightarrow> int \<Rightarrow> memo \<Rightarrow> memo \<times> nat" where
  "memo_call key now m = (case mget (me_entries m) key of
     Some (expires, load) \<Rightarrow> if now < expires then (m, load)
       else (m\<lparr>me_entries := mput key (now + HOLDINGS_TTL_MS, me_next m) (filter (\<lambda>(_, t, _). now < t) (me_entries m)), me_next := me_next m + 1\<rparr>, me_next m)
   | None \<Rightarrow> (m\<lparr>me_entries := mput key (now + HOLDINGS_TTL_MS, me_next m) (filter (\<lambda>(_, t, _). now < t) (me_entries m)), me_next := me_next m + 1\<rparr>, me_next m))"

definition memo_reject :: "string \<Rightarrow> nat \<Rightarrow> memo \<Rightarrow> memo" where
  "memo_reject key load m = (case mget (me_entries m) key of
     Some (_, current) \<Rightarrow> if current = load then m\<lparr>me_entries := mdel key (me_entries m)\<rparr> else m
   | None \<Rightarrow> m)"

definition holdings_scope :: "string option \<Rightarrow> string" where
  "holdings_scope address = (case address of Some a \<Rightarrow> if a = [] then ''*'' else toLowerCase a | None \<Rightarrow> ''*'')"

definition holdings_key :: "string \<Rightarrow> string option \<Rightarrow> string" where
  "holdings_key userId address = userId @ '':'' @ holdings_scope address"

definition holdings_only :: "string option \<Rightarrow> string option" where
  "holdings_only address = (if holdings_scope address = ''*'' then None else Some (holdings_scope address))"

definition balance_key :: "string \<Rightarrow> string \<Rightarrow> string" where
  "balance_key userId address = userId @ '':'' @ toLowerCase address"

end
