(* ===== verification/Holdings_Properties.thy ===== *)
theory Holdings_Properties
  imports Holdings
begin

text \<open>
  What the portfolio answer means: merged balances add up, amounts are exact, no asset disappears without being
  counted or explained, and a memoised read is shared, fresh and never a failed one.
\<close>

section \<open>Merging adds up\<close>

interpretation int_order: strict_compare "(\<le>) :: int \<Rightarrow> int \<Rightarrow> bool" UNIV
  by unfold_locales auto

definition all_candidates :: "balance_snapshot list \<Rightarrow> asset_candidate list" where
  "all_candidates snaps = concat (map chain_candidates (concat (map sn_chains snaps)))"

definition held :: "asset_candidate list \<Rightarrow> string \<Rightarrow> int" where
  "held as k = sum_list (map as_raw (filter (\<lambda>a. candidate_key a = k) as))"

lemma candidate_key_raw [simp]: "candidate_key (a\<lparr>as_raw := r\<rparr>) = candidate_key a"
  by (simp add: candidate_key_def)

lemma chain_candidates_pos: "a \<in> set (chain_candidates c) \<Longrightarrow> 0 < as_raw a"
  by (auto simp: chain_candidates_def split: if_splits)

lemma all_candidates_pos: "a \<in> set (all_candidates snaps) \<Longrightarrow> 0 < as_raw a"
  by (auto simp: all_candidates_def dest: chain_candidates_pos)

lemma held_none: "k \<notin> candidate_key ` set as \<Longrightarrow> held as k = 0"
proof -
  assume "k \<notin> candidate_key ` set as"
  then have "filter (\<lambda>a. candidate_key a = k) as = []" by (auto simp: filter_empty_conv)
  then show ?thesis by (simp add: held_def)
qed

lemma accumulated:
  "\<forall>a \<in> set as. 0 < as_raw a \<Longrightarrow> (let m = foldl accumulate [] as in
     distinct (mkeys m) \<and> (\<forall>k. case mget m k of
        None \<Rightarrow> k \<notin> candidate_key ` set as
      | Some a \<Rightarrow> k \<in> candidate_key ` set as \<and> candidate_key a = k \<and> as_raw a = held as k \<and> 0 < as_raw a))"
proof (induction as rule: rev_induct)
  case (snoc x xs)
  define m where "m = foldl accumulate [] xs"
  have IH: "distinct (mkeys m)" "case mget m k of None \<Rightarrow> k \<notin> candidate_key ` set xs
      | Some a \<Rightarrow> k \<in> candidate_key ` set xs \<and> candidate_key a = k \<and> as_raw a = held xs k \<and> 0 < as_raw a" for k
    using snoc by (auto simp: m_def Let_def)
  have none: "k \<notin> candidate_key ` set xs \<Longrightarrow> held xs k = 0" for k
    by (rule held_none)
  have x: "0 < as_raw x" using snoc.prems by simp
  have "distinct (mkeys (accumulate m x))" using IH(1) by (simp add: accumulate_def distinct_update split: option.splits)
  moreover have "case mget (accumulate m x) k of None \<Rightarrow> k \<notin> candidate_key ` set (xs @ [x])
      | Some a \<Rightarrow> k \<in> candidate_key ` set (xs @ [x]) \<and> candidate_key a = k \<and> as_raw a = held (xs @ [x]) k \<and> 0 < as_raw a" for k
    using IH(2) [of k] IH(2) [of "candidate_key x"] none [of k] x
    by (auto simp: accumulate_def map_of_update held_def split: option.splits if_splits)
  ultimately show ?case by (simp add: m_def Let_def)
qed simp

lemma merged_at:
  assumes "a \<in> set (mg_candidates (mergeSnapshots snaps))"
  shows "as_raw a = held (all_candidates snaps) (candidate_key a)" "0 < as_raw a" "candidate_key a \<in> candidate_key ` set (all_candidates snaps)"
proof -
  let ?m = "foldl accumulate [] (all_candidates snaps)"
  have acc: "distinct (mkeys ?m)" "case mget ?m k of None \<Rightarrow> k \<notin> candidate_key ` set (all_candidates snaps)
      | Some a \<Rightarrow> k \<in> candidate_key ` set (all_candidates snaps) \<and> candidate_key a = k \<and> as_raw a = held (all_candidates snaps) k \<and> 0 < as_raw a" for k
    using accumulated [of "all_candidates snaps"] all_candidates_pos by (auto simp: Let_def)
  obtain k where "(k, a) \<in> set ?m" using assms by (auto simp: mergeSnapshots_def all_candidates_def)
  then have "mget ?m k = Some a" using acc(1) by simp
  then show "as_raw a = held (all_candidates snaps) (candidate_key a)" "0 < as_raw a" "candidate_key a \<in> candidate_key ` set (all_candidates snaps)"
    using acc(2) [of k] by auto
qed

lemma merged_keys:
  "distinct (map candidate_key (mg_candidates (mergeSnapshots snaps)))"
  "candidate_key ` set (mg_candidates (mergeSnapshots snaps)) = candidate_key ` set (all_candidates snaps)"
proof -
  let ?m = "foldl accumulate [] (all_candidates snaps)"
  have acc: "distinct (mkeys ?m)" "case mget ?m k of None \<Rightarrow> k \<notin> candidate_key ` set (all_candidates snaps)
      | Some a \<Rightarrow> k \<in> candidate_key ` set (all_candidates snaps) \<and> candidate_key a = k \<and> as_raw a = held (all_candidates snaps) k \<and> 0 < as_raw a" for k
    using accumulated [of "all_candidates snaps"] all_candidates_pos by (auto simp: Let_def)
  have key: "candidate_key a = k" if "(k, a) \<in> set ?m" for k a
    using acc(2) [of k] map_of_is_SomeI [OF acc(1) that] by simp
  have cands: "mg_candidates (mergeSnapshots snaps) = mvalues ?m" by (simp add: mergeSnapshots_def all_candidates_def)
  have keys: "map candidate_key (mvalues ?m) = mkeys ?m" using key by (auto simp: comp_def)
  show "distinct (map candidate_key (mg_candidates (mergeSnapshots snaps)))" unfolding cands keys by (rule acc(1))
  have "k \<in> set (mkeys ?m) \<longleftrightarrow> k \<in> candidate_key ` set (all_candidates snaps)" for k
    using acc(2) [of k] jm.keys_get [of k ?m] by (auto split: option.splits)
  then have "set (map candidate_key (mvalues ?m)) = candidate_key ` set (all_candidates snaps)" unfolding keys by blast
  then show "candidate_key ` set (mg_candidates (mergeSnapshots snaps)) = candidate_key ` set (all_candidates snaps)"
    unfolding cands set_map .
qed

text \<open>What one wallet holds of an asset, and what all of them hold.\<close>

definition wallet_held :: "balance_snapshot \<Rightarrow> string \<Rightarrow> int" where
  "wallet_held sn k = (case List.find (\<lambda>a. candidate_key a = k) (mg_candidates (mergeSnapshots [sn])) of Some a \<Rightarrow> as_raw a | None \<Rightarrow> 0)"

lemma held_concat: "held (all_candidates snaps) k = sum_list (map (\<lambda>sn. held (all_candidates [sn]) k) snaps)"
  by (induction snaps) (simp_all add: all_candidates_def held_def)

lemma wallet_held_eq: "wallet_held sn k = held (all_candidates [sn]) k"
proof (cases "List.find (\<lambda>a. candidate_key a = k) (mg_candidates (mergeSnapshots [sn]))")
  case None
  then have "k \<notin> candidate_key ` set (all_candidates [sn])"
    unfolding merged_keys(2) [symmetric] by (auto simp: find_None_iff)
  then have "held (all_candidates [sn]) k = 0" by (rule held_none)
  then show ?thesis using None by (simp add: wallet_held_def)
next
  case (Some a)
  then have "a \<in> set (mg_candidates (mergeSnapshots [sn]))" "candidate_key a = k" by (auto simp: find_Some_iff)
  then show ?thesis using merged_at(1) [of a "[sn]"] Some by (simp add: wallet_held_def)
qed

text \<open>Merged balances add up. Every asset with a positive balance somewhere appears exactly once, its amount is the sum of
  what each wallet holds of it, and it is positive; no other asset appears. The skipped chains are those skipped
  for some wallet, in order and without repetition.\<close>

theorem merge_adds_up:
  "distinct (map candidate_key (mg_candidates (mergeSnapshots snaps))) \<and>
   candidate_key ` set (mg_candidates (mergeSnapshots snaps)) = candidate_key ` set (all_candidates snaps) \<and>
   list_all (\<lambda>a. 0 < as_raw a \<and> as_raw a = sum_list (map (\<lambda>sn. wallet_held sn (candidate_key a)) snaps)) (mg_candidates (mergeSnapshots snaps)) \<and>
   set (mg_skipped (mergeSnapshots snaps)) = \<Union> (set ` sn_skipped ` set snaps) \<and> sorted_wrt (<) (mg_skipped (mergeSnapshots snaps))"
proof (intro conjI)
  show "list_all (\<lambda>a. 0 < as_raw a \<and> as_raw a = sum_list (map (\<lambda>sn. wallet_held sn (candidate_key a)) snaps)) (mg_candidates (mergeSnapshots snaps))"
    unfolding list_all_iff wallet_held_eq held_concat [symmetric] using merged_at by blast
  show "set (mg_skipped (mergeSnapshots snaps)) = \<Union> (set ` sn_skipped ` set snaps)"
    by (auto simp: mergeSnapshots_def set_sort_by)
  have "distinct (mg_skipped (mergeSnapshots snaps))"
    using distinct_map_sort_by [of id "(\<le>)" "sadd_all (concat (map sn_skipped snaps)) []"] by (simp add: mergeSnapshots_def)
  moreover have "sorted (mg_skipped (mergeSnapshots snaps))"
    unfolding mergeSnapshots_def using int_order.sorted_sort_by by simp
  ultimately show "sorted_wrt (<) (mg_skipped (mergeSnapshots snaps))" by (simp add: strict_sorted_iff)
qed (rule merged_keys)+

section \<open>Exact amounts\<close>

lemma strip_zeros_split: "\<exists>j. s = strip_zeros s @ zeros j \<and> j \<le> length s"
proof -
  let ?t = "takeWhile (\<lambda>c. c = CHR ''0'') (rev s)"
  have "\<forall>c \<in> set ?t. c = CHR ''0''" by (auto dest: set_takeWhileD)
  then have "?t = replicate (length ?t) (CHR ''0'')" by (simp only: replicate_length_same)
  then have "rev ?t = zeros (length ?t)" unfolding zeros_def by (metis rev_replicate)
  moreover have "s = rev (dropWhile (\<lambda>c. c = CHR ''0'') (rev s)) @ rev (takeWhile (\<lambda>c. c = CHR ''0'') (rev s))"
    by (metis rev_append rev_rev_ident takeWhile_dropWhile_id)
  ultimately have "s = strip_zeros s @ zeros (length (takeWhile (\<lambda>c. c = CHR ''0'') (rev s)))" by (simp add: strip_zeros_def)
  moreover have "length (takeWhile (\<lambda>c. c = CHR ''0'') (rev s)) \<le> length s" by (metis length_rev length_takeWhile_le)
  ultimately show ?thesis by blast
qed

lemma strip_zeros_last: "strip_zeros s \<noteq> [] \<Longrightarrow> last (strip_zeros s) \<noteq> CHR ''0''"
  using hd_dropWhile [of "\<lambda>c. c = CHR ''0''" "rev s"] by (simp add: strip_zeros_def last_rev)

definition padded :: "nat \<Rightarrow> nat \<Rightarrow> string" where
  "padded d n = pad_left (d + 1) (nat_str n)"

lemma padded_facts:
  "d < length (padded d n)" "digits_from 10 0 (padded d n) = Some n" "c \<in> set (padded d n) \<Longrightarrow> (of_char c :: nat) \<in> {48..57}"
proof -
  show "d < length (padded d n)" by (simp add: padded_def pad_left_def zeros_def)
  show "digits_from 10 0 (padded d n) = Some n"
    by (simp add: padded_def pad_left_def digits_from_append nat_str_def digits_from_to_base)
  show "c \<in> set (padded d n) \<Longrightarrow> (of_char c :: nat) \<in> {48..57}"
    using of_char_nat_str [of c n] by (auto simp: padded_def pad_left_def zeros_def)
qed

lemma format_padded:
  "0 \<le> raw \<Longrightarrow> formatUnits raw decimals =
     (let digits = padded decimals (nat raw); whole = take (length digits - decimals) digits; f = strip_zeros (drop (length digits - decimals) digits)
      in if 0 < decimals \<and> f \<noteq> [] then whole @ ''.'' @ f else whole)"
  using padded_facts(1) [of decimals "nat raw"] by (auto simp: formatUnits_def int_str_def padded_def Let_def)

text \<open>The two parts of a formatted amount.\<close>

lemma format_parts:
  assumes "0 \<le> raw"
  obtains whole f j v where "whole \<noteq> []" "digits_from 10 0 (whole @ f) = Some v" "int v * 10 ^ j = raw" "length f + j = decimals"
    "formatUnits raw decimals = (if f \<noteq> [] then whole @ ''.'' @ f else whole)" "f \<noteq> [] \<Longrightarrow> last f \<noteq> CHR ''0''"
    "\<And>c. c \<in> set whole \<Longrightarrow> (of_char c :: nat) \<in> {48..57}"
proof -
  define D where "D = padded decimals (nat raw)"
  define whole where "whole = take (length D - decimals) D"
  define frac where "frac = drop (length D - decimals) D"
  have D: "decimals < length D" "digits_from 10 0 D = Some (nat raw)" "\<And>c. c \<in> set D \<Longrightarrow> (of_char c :: nat) \<in> {48..57}"
    using padded_facts by (simp_all add: D_def)
  have parts: "D = whole @ frac" "length frac = decimals" "whole \<noteq> []" using D(1) by (auto simp: whole_def frac_def)
  obtain j where j: "frac = strip_zeros frac @ zeros j" using strip_zeros_split by blast
  have len: "length (strip_zeros frac) + j = decimals" using parts(2) arg_cong [OF j, of length] by (simp add: zeros_def)
  have "digits_from 10 0 ((whole @ strip_zeros frac) @ zeros j) = Some (nat raw)" using D(2) parts(1) j by simp
  then obtain v where v: "digits_from 10 0 (whole @ strip_zeros frac) = Some v" "v * 10 ^ j = nat raw"
    unfolding digits_from_append [of 10 0 "whole @ strip_zeros frac"] by (auto split: option.splits)
  show ?thesis
  proof (rule that)
    show "int v * 10 ^ j = raw" using v(2) assms by (metis int_nat_eq of_nat_mult of_nat_numeral of_nat_power)
    show "formatUnits raw decimals = (if strip_zeros frac \<noteq> [] then whole @ ''.'' @ strip_zeros frac else whole)"
      using parts(2) by (auto simp: format_padded [OF assms] D_def [symmetric] whole_def [symmetric] frac_def [symmetric] Let_def strip_zeros_def)
    show "c \<in> set whole \<Longrightarrow> (of_char c :: nat) \<in> {48..57}" for c using D(3) [of c] parts(1) by simp
  qed (use v len parts strip_zeros_last in auto)
qed

text \<open>C39. An amount is printed exactly. Whatever the number of decimals, the text of a balance reads back as the balance divided by
  that power of ten, without a trailing zero in its fraction.\<close>

theorem amount_exact:
  assumes "0 \<le> raw"
  shows "dec_read (formatUnits raw decimals) = Some (of_int raw / 10 ^ decimals)"
proof -
  obtain whole f j v where p: "whole \<noteq> []" "digits_from 10 0 (whole @ f) = Some v" "int v * 10 ^ j = raw" "length f + j = decimals"
    "formatUnits raw decimals = (if f \<noteq> [] then whole @ ''.'' @ f else whole)" "\<And>c. c \<in> set whole \<Longrightarrow> (of_char c :: nat) \<in> {48..57}"
    using format_parts [OF assms] by metis
  have dot: "CHR ''.'' \<notin> set whole" using p(6) [of "CHR ''.''"] by auto
  obtain c cs where c: "whole = c # cs" using p(1) by (cases whole) auto
  have sign: "c \<noteq> CHR ''-''" "c \<noteq> CHR ''+''" using p(6) [of c] c by auto
  have val: "of_int raw / 10 ^ decimals = (of_nat v / 10 ^ length f :: rat)"
    unfolding p(3,4) [symmetric] by (simp add: power_add)
  have "dec_read_abs (formatUnits raw decimals) = Some (of_nat v / 10 ^ length f)"
  proof (cases "f = []")
    case True
    then show ?thesis using p(1,2,5) by (simp add: dec_read_abs_def split_at_none [OF dot] of_base_def)
  next
    case False
    then show ?thesis using p(1,2,5) by (simp add: dec_read_abs_def split_at_append [OF dot] of_base_def)
  qed
  then have "dec_read (formatUnits raw decimals) = Some (of_nat v / 10 ^ length f)"
    using p(5) c sign by (simp add: dec_read_def split: if_splits)
  then show ?thesis by (simp only: val)
qed

section \<open>Nothing disappears silently\<close>

text \<open>A pool whose works add to a counter: at the end every work has been counted once.\<close>

context pool_work
begin

definition settled :: "('s, 'm, 'b) pool \<Rightarrow> nat set" where
  "settled p = {0..<next_item p} - fst ` set (pending p)"

lemma settled_refill: "pool_ok limit items p \<Longrightarrow> settled (refill start items p) = settled p"
  by (auto simp: refill_def settled_def pool_ok_def less_Suc_eq)

lemma pool_run_counts:
  fixes cnt :: "'s \<Rightarrow> nat" and w :: "'a \<Rightarrow> nat"
  assumes step: "\<And>s x m s' b. Inv s \<Longrightarrow> Dec s x m \<Longrightarrow> finish s x m = (s', Inr b) \<Longrightarrow> cnt s' = cnt s + w x"
  shows "pool_open limit items p \<Longrightarrow> cnt (shared p) = c0 + (\<Sum>j \<in> settled p. w (items ! j)) \<Longrightarrow>
    pool_run start finish items order k p = (s', Inr rs) \<Longrightarrow> cnt s' = c0 + (\<Sum>j < length items. w (items ! j))"
proof (induction "length items - next_item p + length (pending p)" arbitrary: p k rule: less_induct)
  case less
  show ?case
  proof (cases "pending p = []")
    case True
    then have "next_item p = length items" using less.prems(1) by (auto simp: pool_open_def pool_ok_def)
    then have "settled p = {..<length items}" using True by (auto simp: settled_def)
    then show ?thesis using less.prems(2,3) True by (simp add: pool_run.simps)
  next
    case False
    define i where "i = settle_index (order k) p"
    have i: "i < length (pending p)" using False by (simp add: i_def settle_index_less)
    obtain index m where m: "pending p ! i = (index, m)" by (cases "pending p ! i") auto
    obtain s r where fin: "finish (shared p) (items ! index) m = (s, r)" by (cases "finish (shared p) (items ! index) m") auto
    have ok: "pool_ok limit items p" using less.prems by (simp add: pool_open_def)
    have mem: "(index, m) \<in> set (pending p)" using nth_mem [OF i] m by simp
    have inv: "Inv (shared p)" "Dec (shared p) (items ! index) m" "index < next_item p" "distinct (map fst (pending p))"
      using ok mem by (auto simp: pool_ok_def)
    obtain b where r: "r = Inr b" using less.prems(3) False fin m
      by (cases r) (auto simp: pool_run.simps [of _ _ _ _ _ p] i_def Let_def)
    define p1 where "p1 = p\<lparr>shared := s, pending := take_out i (pending p), results := (results p)[index := Some b]\<rparr>"
    have ok1: "pool_ok limit items p1" "length (pending p1) < limit" using settle_ok [OF ok i m] fin r by (simp_all add: p1_def)
    have fresh: "index \<notin> settled p" using mem by (force simp: settled_def)
    have "settled p1 = insert index (settled p)"
      using take_out_distinct(2) [OF i inv(4)] inv(3) m mem by (auto simp: settled_def p1_def)
    then have "(\<Sum>j \<in> settled p1. w (items ! j)) = w (items ! index) + (\<Sum>j \<in> settled p. w (items ! j))"
      using fresh by (simp add: settled_def)
    then have "cnt (shared p1) = c0 + (\<Sum>j \<in> settled p1. w (items ! j))"
      using step [OF inv(1,2)] fin r less.prems(2) by (simp add: p1_def)
    then have cnt: "cnt (shared (refill start items p1)) = c0 + (\<Sum>j \<in> settled (refill start items p1). w (items ! j))"
      by (simp add: settled_refill [OF ok1(1)]) (simp add: refill_def)
    have less': "length items - next_item (refill start items p1) + length (pending (refill start items p1)) < length items - next_item p + length (pending p)"
      using settle_measure [OF False] by (simp add: refill_measure p1_def i_def)
    have "pool_run start finish items order (k + 1) (refill start items p1) = (s', Inr rs)"
      using less.prems(3) False fin m r by (simp add: pool_run.simps [of _ _ _ _ k p] i_def [symmetric] p1_def Let_def)
    then show ?thesis using less.hyps [OF less' refill_open [OF ok1] cnt] by simp
  qed
qed

lemma pool_counts:
  fixes cnt :: "'s \<Rightarrow> nat" and w :: "'a \<Rightarrow> nat"
  assumes "\<And>s x m s' b. Inv s \<Longrightarrow> Dec s x m \<Longrightarrow> finish s x m = (s', Inr b) \<Longrightarrow> cnt s' = cnt s + w x"
    "Inv s" "0 < limit" "list_all Dom items" "mapWithConcurrency order limit start finish s items = (s', Inr bs)"
  shows "cnt s' = cnt s + sum_list (map w items)"
proof -
  obtain rs where run: "pool_run start finish items order 0 (pool_begin limit start items s) = (s', Inr rs)"
    using assms(5) by (auto simp: mapWithConcurrency_def split: prod.splits sum.splits)
  define p0 :: "('s, 'm, 'b) pool" where "p0 = \<lparr>shared = s, pending = [], next_item = 0, results = replicate (length items) None\<rparr>"
  have "shared ((refill start items ^^ j) p0) = s \<and> settled ((refill start items ^^ j) p0) = {} \<and>
      (\<forall>im \<in> set (pending ((refill start items ^^ j) p0)). fst im < next_item ((refill start items ^^ j) p0))" for j
    by (induction j) (auto simp: p0_def settled_def refill_def less_Suc_eq)
  then have "cnt (shared (pool_begin limit start items s :: ('s, 'm, 'b) pool)) =
      cnt s + (\<Sum>j \<in> settled (pool_begin limit start items s :: ('s, 'm, 'b) pool). w (items ! j))"
    unfolding pool_begin_def p0_def [symmetric] by simp
  from pool_run_counts [where cnt = cnt and w = w and ?c0.0 = "cnt s", OF assms(1) pool_begin_ok [OF assms(2-4)] this run]
  show ?thesis by (simp add: sum_list_sum_nth atLeast0LessThan)
qed

end

text \<open>The answer a reader gives about a candidate: metadata, nothing usable, or a failed lookup.\<close>

definition meta_of :: "metadata_reader \<Rightarrow> asset_candidate \<Rightarrow> token_metadata option option" where
  "meta_of reader a = (case reader (as_chainId a) (case as_contract a of Some c \<Rightarrow> c | None \<Rightarrow> []) of Inl _ \<Rightarrow> None | Inr m \<Rightarrow> Some m)"

text \<open>Metadata is immutable: what the cache holds is what the reader would still answer.\<close>

definition coherent :: "metadata_reader \<Rightarrow> metadata_cache \<Rightarrow> bool" where
  "coherent reader cache \<longleftrightarrow> (\<forall>c contract m. mget cache (metadata_key c contract) = Some m \<longrightarrow> reader c contract = Inr m)"

definition known_result :: "metadata_reader \<Rightarrow> asset_candidate \<times> ledger_asset \<Rightarrow> resolved_asset" where
  "known_result reader known = (case known of (a, seen) \<Rightarrow> (case meta_of reader a of
     Some (Some m) \<Rightarrow> resolve_as a (md_symbol m) (md_name m) (md_decimals m)
   | _ \<Rightarrow> resolve_as a (la_symbol seen) (la_name seen) (la_decimals seen)))"

definition unknown_result :: "metadata_reader \<Rightarrow> asset_candidate \<Rightarrow> resolved_asset option" where
  "unknown_result reader a = (case meta_of reader a of
     Some (Some m) \<Rightarrow> if isInboundSpam ''ERC20'' (md_symbol m) (as_contract a) then None else Some (resolve_as a (md_symbol m) (md_name m) (md_decimals m))
   | _ \<Rightarrow> None)"

lemma metadata_key_eq: "metadata_key c k = metadata_key d l \<longleftrightarrow> c = d \<and> k = l"
proof
  assume eq: "metadata_key c k = metadata_key d l"
  have digits: "x \<noteq> CHR '':''" if "x \<in> set (int_str i)" for x i
  proof -
    have "CHR '':'' \<notin> set (nat_str n)" for n using of_char_nat_str [of "CHR '':''" n] by auto
    then show ?thesis using that by (auto simp: int_str_def split: if_splits)
  qed
  have "takeWhile (\<lambda>x. x \<noteq> CHR '':'') (metadata_key i m) = int_str i" for i m
    using digits [of _ i] by (simp add: metadata_key_def takeWhile_append)
  then have i: "int_str c = int_str d" using eq by metis
  then have "k = l" using eq by (simp add: metadata_key_def)
  moreover have "c = d"
  proof -
    have head: "nat_str n \<noteq> CHR ''-'' # s" for n s using of_char_nat_str [of "CHR ''-''" n] by auto
    show ?thesis using i by (auto simp: int_str_def head head [symmetric] split: if_splits)
  qed
  ultimately show "c = d \<and> k = l" by simp
qed simp

lemma metadata_finish_ok:
  assumes "coherent reader cache" "\<And>m. hit = Some m \<Longrightarrow> meta_of reader a = Some m" "metadata_finish reader cache a hit = (cache', r)"
  shows "coherent reader cache'" "r = meta_of reader a"
proof -
  let ?c = "case as_contract a of Some c \<Rightarrow> c | None \<Rightarrow> []"
  show "r = meta_of reader a" using assms(2,3) by (auto simp: metadata_finish_def meta_of_def Let_def split: option.splits sum.splits)
  have "coherent reader (remember_metadata (metadata_key (as_chainId a) ?c) m cache)" if "reader (as_chainId a) ?c = Inr m" for m
    using assms(1) that
    by (auto simp: coherent_def remember_metadata_def map_of_update map_of_delete_if metadata_key_eq split: if_splits list.splits)
  then show "coherent reader cache'"
    using assms(1,3) by (auto simp: metadata_finish_def Let_def split: option.splits sum.splits)
qed

lemma metadata_start_ok: "coherent reader cache \<Longrightarrow> metadata_start cache a = Some m \<Longrightarrow> meta_of reader a = Some m"
  by (auto simp: metadata_start_def coherent_def meta_of_def)

definition hit_ok :: "metadata_reader \<Rightarrow> asset_candidate \<Rightarrow> token_metadata option option \<Rightarrow> bool" where
  "hit_ok reader a hit \<longleftrightarrow> (\<forall>m. hit = Some m \<longrightarrow> meta_of reader a = Some m)"

interpretation known_pool: pool_work "\<lambda>cache (a, seen). metadata_start cache a" "known_finish reader" "\<lambda>_. True" "coherent reader"
  "\<lambda>_ known hit. hit_ok reader (fst known) hit" "\<lambda>_ known r. r = known_result reader known" "\<lambda>_. False" for reader
proof (unfold_locales, goal_cases)
  case (1 s x)
  then show ?case by (cases x) (auto simp: hit_ok_def dest: metadata_start_ok)
next
  case (2 s x m s' b)
  obtain a seen where x: "x = (a, seen)" by (cases x)
  obtain c r where f: "metadata_finish reader s a m = (c, r)" by fastforce
  have "coherent reader c" "r = meta_of reader a" using metadata_finish_ok [OF 2(1) _ f] 2(2) by (simp_all add: hit_ok_def x)
  then show ?case using 2(3) f by (auto simp: known_finish_def known_result_def x split: option.splits)
next
  case (3 s x m s' e)
  then show ?case by (auto simp: known_finish_def split: prod.splits option.splits)
qed auto

interpretation unknown_pool: pool_work "\<lambda>st a. metadata_start (fst st) a" "unknown_finish reader" "\<lambda>_. True" "\<lambda>st. coherent reader (fst st)"
  "\<lambda>_ a hit. hit_ok reader a hit" "\<lambda>_ a r. r = unknown_result reader a" "\<lambda>_. False" for reader
proof (unfold_locales, goal_cases)
  case (1 s x)
  then show ?case by (auto simp: hit_ok_def dest: metadata_start_ok)
next
  case (2 s x m s' b)
  obtain c r where f: "metadata_finish reader (fst s) x m = (c, r)" by fastforce
  have "coherent reader c" "r = meta_of reader x" using metadata_finish_ok [OF 2(1) _ f] 2(2) by (simp_all add: hit_ok_def)
  then show ?case using 2(3) f by (auto simp: unknown_finish_def unknown_result_def split: option.splits)
next
  case (3 s x m s' e)
  then show ?case by (auto simp: unknown_finish_def split: prod.splits option.splits)
qed auto

lemma unknown_counts:
  "coherent reader (fst s) \<Longrightarrow> hit_ok reader a hit \<Longrightarrow> unknown_finish reader s a hit = (s', Inr b) \<Longrightarrow>
   snd s' = snd s + (if meta_of reader a = None then 1 else 0)"
proof -
  assume a: "coherent reader (fst s)" "hit_ok reader a hit" "unknown_finish reader s a hit = (s', Inr b)"
  obtain c r where f: "metadata_finish reader (fst s) a hit = (c, r)" by fastforce
  have "r = meta_of reader a" using metadata_finish_ok [OF a(1) _ f] a(2) by (simp add: hit_ok_def)
  then show ?thesis using a(3) f by (auto simp: unknown_finish_def split: option.splits)
qed

text \<open>What becomes of the candidates, as one function of the answers.\<close>

definition resolution :: "metadata_reader \<Rightarrow> asset_candidate list \<Rightarrow> (string, ledger_asset) jmap \<Rightarrow> resolved_asset list \<times> nat" where
  "resolution reader candidates ledger =
     (let s = sort_candidates ledger candidates; unknown = concat (map (\<lambda>(c, bucket). take MAX_UNKNOWN_TOKENS_PER_CHAIN bucket) (sc_unknown s))
      in (sc_natives s @ map (known_result reader) (sc_known s) @ List.map_filter (unknown_result reader) unknown,
          length (filter (\<lambda>a. meta_of reader a = None) unknown)))"

text \<open>The chain, the ledger and the reader decide about every candidate.\<close>

definition fate :: "metadata_reader \<Rightarrow> (string, ledger_asset) jmap \<Rightarrow> asset_candidate \<Rightarrow> resolved_asset option" where
  "fate reader ledger a = (if as_type a = ''NATIVE'' then map_option (\<lambda>e. resolve_as a (nativeSymbol e) (nativeSymbol e) (nativeDecimals e)) (List.find (\<lambda>e. chainId e = as_chainId a) CHAIN_REGISTRY)
     else case mget ledger (holding_key (as_chainId a) ''ERC20'' (as_contract a)) of
       Some seen \<Rightarrow> if la_spamOnly seen then None else Some (known_result reader (a, seen))
     | None \<Rightarrow> unknown_result reader a)"

lemma count_filter: "sum_list (map (\<lambda>a. if P a then 1 else 0) xs) = length (filter P xs)"
  by (induction xs) auto

lemma resolve_exact:
  assumes "coherent reader cache" "resolveAssets reader settles candidates ledger truncated cache = (cache', resolved, unresolved, truncated')"
  shows "coherent reader cache'" "(resolved, unresolved) = resolution reader candidates ledger"
proof -
  let ?s = "sort_candidates ledger candidates"
  let ?u = "concat (map (\<lambda>(c, bucket). take MAX_UNKNOWN_TOKENS_PER_CHAIN bucket) (sc_unknown ?s))"
  have lim: "0 < LOOKUP_CONCURRENCY" by (simp add: LOOKUP_CONCURRENCY_def)
  obtain c1 r where k: "mapWithConcurrency (settles ''known'') LOOKUP_CONCURRENCY (\<lambda>cache (a, seen). metadata_start cache a) (known_finish reader) cache (sc_known ?s) = (c1, r)"
    by fastforce
  have dom: "list_all (\<lambda>_. True) xs" for xs :: "'z list" by (simp add: list_all_iff)
  obtain bs where r: "r = Inr bs"
  proof (cases r)
    case (Inl e)
    then show ?thesis using known_pool.pool_error(2) [OF assms(1) lim dom k [unfolded Inl]] by blast
  qed blast
  note known = known_pool.pool_results [OF assms(1) lim dom k [unfolded r]]
  have c1: "coherent reader c1" by (rule known(1))
  have bs: "bs = map (known_result reader) (sc_known ?s)"
    using known(2) by (auto simp: list_all2_conv_all_nth intro!: nth_equalityI)
  obtain c2 n q where u: "mapWithConcurrency (settles ''unknown'') LOOKUP_CONCURRENCY (\<lambda>st a. metadata_start (fst st) a) (unknown_finish reader) (c1, 0) ?u = ((c2, n), q)"
    by (metis surj_pair)
  have st: "coherent reader (fst (c1, 0 :: nat))" using c1 by simp
  obtain qs where q: "q = Inr qs"
  proof (cases q)
    case (Inl e)
    then show ?thesis using unknown_pool.pool_error(2) [OF st lim dom u [unfolded Inl]] by blast
  qed blast
  note unknown = unknown_pool.pool_results [OF st lim dom u [unfolded q]]
  have c2: "coherent reader c2" "qs = map (unknown_result reader) ?u"
    using unknown by (auto simp: list_all2_conv_all_nth intro!: nth_equalityI)
  have "snd (c2, n) = snd (c1, 0) + sum_list (map (\<lambda>a. if meta_of reader a = None then 1 else 0) ?u)"
    by (rule unknown_pool.pool_counts [OF _ st lim dom u [unfolded q]]) (rule unknown_counts)
  then have n: "n = sum_list (map (\<lambda>a. if meta_of reader a = None then 1 else 0) ?u)" by simp
  have eq: "cache' = c2" "resolved = sc_natives ?s @ bs @ List.map_filter (\<lambda>x. x) qs" "unresolved = n"
    using assms(2) by (simp_all add: resolveAssets_def Let_def k r u q)
  show "coherent reader cache'" using c2(1) eq by simp
  have "List.map_filter (\<lambda>x. x) qs = List.map_filter (unknown_result reader) ?u" by (simp add: c2(2) map_filter_def filter_map comp_def)
  moreover have "n = length (filter (\<lambda>a. meta_of reader a = None) ?u)" unfolding n by (rule count_filter)
  ultimately show "(resolved, unresolved) = resolution reader candidates ledger" by (simp add: resolution_def Let_def eq bs)
qed

definition unseen :: "(string, ledger_asset) jmap \<Rightarrow> asset_candidate \<Rightarrow> bool" where
  "unseen ledger a \<longleftrightarrow> as_type a \<noteq> ''NATIVE'' \<and> mget ledger (holding_key (as_chainId a) ''ERC20'' (as_contract a)) = None"

definition over_cap :: "(string, ledger_asset) jmap \<Rightarrow> asset_candidate list \<Rightarrow> int \<Rightarrow> bool" where
  "over_cap ledger candidates c \<longleftrightarrow> MAX_UNKNOWN_TOKENS_PER_CHAIN < length (filter (\<lambda>a. as_chainId a = c) (filter (unseen ledger) candidates))"

definition native_of :: "asset_candidate \<Rightarrow> resolved_asset option" where
  "native_of a = (if as_type a = ''NATIVE'' then map_option (\<lambda>e. resolve_as a (nativeSymbol e) (nativeSymbol e) (nativeDecimals e)) (List.find (\<lambda>e. chainId e = as_chainId a) CHAIN_REGISTRY) else None)"

definition known_of :: "(string, ledger_asset) jmap \<Rightarrow> asset_candidate \<Rightarrow> (asset_candidate \<times> ledger_asset) option" where
  "known_of ledger a = (if as_type a = ''NATIVE'' then None else case mget ledger (holding_key (as_chainId a) ''ERC20'' (as_contract a)) of
     Some seen \<Rightarrow> if la_spamOnly seen then None else Some (a, seen) | None \<Rightarrow> None)"

lemma map_filter_snoc: "List.map_filter f (xs @ [x]) = List.map_filter f xs @ (case f x of Some y \<Rightarrow> [y] | None \<Rightarrow> [])"
  by (simp add: map_filter_def split: option.splits)

lemma sorted_parts:
  "sort_candidates ledger as = \<lparr>sc_natives = List.map_filter native_of as, sc_known = List.map_filter (known_of ledger) as,
     sc_unknown = foldl (group_add as_chainId) [] (filter (unseen ledger) as)\<rparr>"
proof (induction as rule: rev_induct)
  case Nil
  then show ?case by (simp add: sort_candidates_def map_filter_def)
next
  case (snoc a as)
  have step: "sort_candidates ledger (as @ [a]) = sort_candidate ledger (sort_candidates ledger as) a" by (simp add: sort_candidates_def)
  show ?case
  proof (cases "as_type a = ''NATIVE''")
    case True
    then show ?thesis unfolding step snoc.IH
      by (cases "List.find (\<lambda>e. chainId e = as_chainId a) CHAIN_REGISTRY") (simp_all add: sort_candidate_def map_filter_snoc native_of_def [of a] known_of_def [of ledger a] unseen_def [of ledger a])
  next
    case False
    then show ?thesis unfolding step snoc.IH
      by (cases "mget ledger (holding_key (as_chainId a) ''ERC20'' (as_contract a))")
        (simp_all add: sort_candidate_def map_filter_snoc native_of_def [of a] known_of_def [of ledger a] unseen_def [of ledger a]
          group_add_def [of as_chainId "foldl (group_add as_chainId) [] (filter (unseen ledger) as)" a])
  qed
qed

lemma map_filter_Cons: "List.map_filter f (x # xs) = (case f x of Some y \<Rightarrow> [y] | None \<Rightarrow> []) @ List.map_filter f xs"
  by (simp add: map_filter_def split: option.split)

lemma set_map_filter: "set (List.map_filter f xs) = {y. \<exists>x \<in> set xs. f x = Some y}"
proof (induction xs)
  case Nil
  then show ?case by (simp add: map_filter_def)
next
  case (Cons x xs)
  show ?case by (cases "f x") (auto simp: map_filter_Cons Cons.IH)
qed

lemma unknown_capped:
  fixes ledger candidates
  defines "u \<equiv> concat (map (\<lambda>(c, bucket). take MAX_UNKNOWN_TOKENS_PER_CHAIN bucket) (foldl (group_add as_chainId) [] (filter (unseen ledger) candidates)))"
  shows "set u \<subseteq> set (filter (unseen ledger) candidates)" "a \<in> set candidates \<Longrightarrow> unseen ledger a \<Longrightarrow> \<not> over_cap ledger candidates (as_chainId a) \<Longrightarrow> a \<in> set u"
    "(\<And>c. \<not> over_cap ledger candidates c) \<Longrightarrow> mset u = mset (filter (unseen ledger) candidates)"
proof -
  let ?xs = "filter (unseen ledger) candidates"
  let ?g = "foldl (group_add as_chainId) [] ?xs"
  have bucket: "b = filter (\<lambda>a. as_chainId a = c) ?xs" if "(c, b) \<in> set ?g" for c b
    using map_of_is_SomeI [OF group_distinct that] by (auto simp: group_get Let_def split: if_splits)
  show "set u \<subseteq> set ?xs" using bucket by (fastforce simp: u_def dest: in_set_takeD)
  show "a \<in> set u" if a: "a \<in> set candidates" "unseen ledger a" "\<not> over_cap ledger candidates (as_chainId a)"
  proof -
    let ?b = "filter (\<lambda>x. as_chainId x = as_chainId a) ?xs"
    have "a \<in> set ?b" using a by simp
    moreover from this have "mget ?g (as_chainId a) = Some ?b" unfolding group_get Let_def by (metis empty_iff empty_set)
    ultimately have "(as_chainId a, ?b) \<in> set ?g" by (intro map_of_SomeD)
    moreover have "take MAX_UNKNOWN_TOKENS_PER_CHAIN ?b = ?b" using a(3) by (simp add: over_cap_def)
    ultimately show ?thesis using \<open>a \<in> set ?b\<close> unfolding u_def set_concat set_map by (intro UN_I [of "?b"]) (auto intro!: rev_image_eqI)
  qed
  show "mset u = mset ?xs" if "\<And>c. \<not> over_cap ledger candidates c"
  proof -
    have eq: "map (\<lambda>(c, bucket). take MAX_UNKNOWN_TOKENS_PER_CHAIN bucket) ?g = mvalues ?g"
    proof (intro map_cong refl, clarify)
      fix c b assume "(c, b) \<in> set ?g"
      then have "length b \<le> MAX_UNKNOWN_TOKENS_PER_CHAIN" using bucket [of c b] that [of c] by (simp add: over_cap_def not_less)
      then show "take MAX_UNKNOWN_TOKENS_PER_CHAIN b = snd (c, b)" by simp
    qed
    show ?thesis unfolding u_def eq by (rule group_mset)
  qed
qed


section \<open>Shared reads\<close>

declare map_of_eq_Some_iff [simp del]

text \<open>The life of a memo: reads at any times, and rejections of loads that were started. \<open>hist\<close> lists the key and the time of
  every load, \<open>R\<close> the loads that were rejected.\<close>

inductive memo_reach :: "memo \<Rightarrow> (string \<times> int) list \<Rightarrow> nat set \<Rightarrow> bool" where
  fresh_memo: "memo_reach \<lparr>me_entries = [], me_next = 0\<rparr> [] {}"
| read: "memo_reach m hist R \<Longrightarrow> memo_call k t m = (m', l) \<Longrightarrow> memo_reach m' (if l < length hist then hist else hist @ [(k, t)]) R"
| reject: "memo_reach m hist R \<Longrightarrow> l < length hist \<Longrightarrow> memo_reach (memo_reject (fst (hist ! l)) l m) hist (insert l R)"

definition memo_ok :: "memo \<Rightarrow> (string \<times> int) list \<Rightarrow> nat set \<Rightarrow> bool" where
  "memo_ok m hist R \<longleftrightarrow> me_next m = length hist \<and> distinct (mkeys (me_entries m)) \<and> R \<subseteq> {..<length hist} \<and>
     (\<forall>k e l. mget (me_entries m) k = Some (e, l) \<longrightarrow> l < length hist \<and> hist ! l = (k, e - HOLDINGS_TTL_MS) \<and> l \<notin> R)"

definition swept :: "int \<Rightarrow> (string, int \<times> nat) jmap \<Rightarrow> (string, int \<times> nat) jmap" where
  "swept now es = filter (\<lambda>(_, t, _). now < t) es"

lemma swept_get: "distinct (mkeys es) \<Longrightarrow> mget (swept now es) k = (case mget es k of Some (e, l) \<Rightarrow> if now < e then Some (e, l) else None | None \<Rightarrow> None)"
proof (induction es)
  case (Cons x es)
  obtain k' e' l' where x: "x = (k', e', l')" by (cases x)
  then have "k' \<notin> set (mkeys es)" using Cons.prems by simp
  then have "mget es k' = None" by (simp add: map_of_eq_None_iff)
  then show ?case using Cons x by (auto simp: swept_def split: option.splits)
qed (simp add: swept_def)

lemma swept_distinct: "distinct (mkeys es) \<Longrightarrow> distinct (mkeys (swept now es))"
  by (simp add: swept_def distinct_map_filter)

text \<open>A call is a hit on a live entry, or starts a load.\<close>

lemma memo_call_cases:
  assumes "memo_call k now m = (m', l)"
  obtains (hit) e where "mget (me_entries m) k = Some (e, l)" "now < e" "m' = m"
  | (started) "l = me_next m" "m' = m\<lparr>me_entries := mput k (now + HOLDINGS_TTL_MS, l) (swept now (me_entries m)), me_next := me_next m + 1\<rparr>"
      "case mget (me_entries m) k of Some (e, _) \<Rightarrow> e \<le> now | None \<Rightarrow> True"
  using assms by (auto simp: memo_call_def swept_def split: option.splits if_splits)

lemma memo_reach_ok: "memo_reach m hist R \<Longrightarrow> memo_ok m hist R"
proof (induction rule: memo_reach.induct)
  case fresh_memo
  then show ?case by (simp add: memo_ok_def)
next
  case (read m hist R k t m' l)
  note ok = read.IH [unfolded memo_ok_def]
  show ?case
    using read.hyps(2)
  proof (cases rule: memo_call_cases)
    case (hit e)
    then show ?thesis using read.IH ok by auto
  next
    case started
    have "distinct (mkeys (me_entries m'))" using started ok by (simp add: distinct_update swept_distinct)
    moreover have "j < length (hist @ [(k, t)]) \<and> (hist @ [(k, t)]) ! j = (c, e - HOLDINGS_TTL_MS) \<and> j \<notin> R"
      if "mget (me_entries m') c = Some (e, j)" for c e j
    proof (cases "c = k")
      case True
      then show ?thesis using that started ok by (auto simp: map_of_update)
    next
      case False
      then have "mget (me_entries m) c = Some (e, j)"
        using that started ok by (auto simp: map_of_update swept_get split: option.splits if_splits)
      then have "j < length hist \<and> hist ! j = (c, e - HOLDINGS_TTL_MS) \<and> j \<notin> R" using ok by blast
      then show ?thesis by (simp add: nth_append)
    qed
    ultimately show ?thesis using started ok by (auto simp: memo_ok_def)
  qed
next
  case (reject m hist R l)
  note ok = reject.IH [unfolded memo_ok_def]
  let ?k = "fst (hist ! l)"
  have frame: "distinct (mkeys (me_entries (memo_reject ?k l m)))" "me_next (memo_reject ?k l m) = me_next m"
    using conjunct1 [OF conjunct2 [OF ok]] by (simp_all add: memo_reject_def distinct_delete split: option.split prod.split)
  have live: "j < length hist \<and> hist ! j = (c, e - HOLDINGS_TTL_MS) \<and> j \<notin> insert l R" if "mget (me_entries (memo_reject ?k l m)) c = Some (e, j)" for c e j
  proof -
    have old: "mget (me_entries m) c = Some (e, j)"
      using that by (auto simp: memo_reject_def map_of_delete_if split: option.splits if_splits)
    then have j: "j < length hist" "hist ! j = (c, e - HOLDINGS_TTL_MS)" "j \<notin> R" using ok by blast+
    moreover have "j \<noteq> l"
    proof
      assume l: "j = l"
      then have k: "fst (hist ! l) = c" using j(2) by simp
      have "memo_reject c l m = m\<lparr>me_entries := mdel c (me_entries m)\<rparr>" using old by (simp add: memo_reject_def l)
      then show False using that by (simp add: k map_of_delete_if)
    qed
    ultimately show ?thesis by simp
  qed
  show ?case unfolding memo_ok_def
  proof (intro conjI)
    show "me_next (memo_reject ?k l m) = length hist" using ok frame(2) by argo
    show "insert l R \<subseteq> {..<length hist}" using ok reject.hyps(2) by blast
  qed (use frame live in blast)+
qed

datatype memo_event = MemoRead string int | MemoReject string nat

definition memo_step :: "memo \<Rightarrow> memo_event \<Rightarrow> memo" where
  "memo_step m ev = (case ev of MemoRead k t \<Rightarrow> fst (memo_call k t m) | MemoReject k l \<Rightarrow> memo_reject k l m)"

definition calm :: "nat \<Rightarrow> int \<Rightarrow> memo_event \<Rightarrow> bool" where
  "calm l e ev = (case ev of MemoRead k t \<Rightarrow> t < e | MemoReject k l' \<Rightarrow> l' \<noteq> l)"

lemma calm_step:
  assumes "distinct (mkeys (me_entries m))" "mget (me_entries m) k = Some (e, l)" "calm l e ev"
  shows "mget (me_entries (memo_step m ev)) k = Some (e, l) \<and> distinct (mkeys (me_entries (memo_step m ev)))"
proof (cases ev)
  case (MemoRead k' t)
  obtain m' l' where c: "memo_call k' t m = (m', l')" by fastforce
  then show ?thesis
  proof (cases rule: memo_call_cases)
    case (hit e')
    then show ?thesis using assms c by (simp add: memo_step_def MemoRead)
  next
    case started
    then have "k' \<noteq> k" using assms by (auto simp: calm_def MemoRead)
    then show ?thesis using started assms c by (simp add: memo_step_def MemoRead calm_def map_of_update swept_get distinct_update swept_distinct)
  qed
next
  case (MemoReject k' l')
  then show ?thesis using assms by (auto simp: memo_step_def memo_reject_def calm_def map_of_delete_if distinct_delete split: option.splits)
qed

lemma calm_run:
  "distinct (mkeys (me_entries m)) \<Longrightarrow> mget (me_entries m) k = Some (e, l) \<Longrightarrow> \<forall>ev \<in> set es. calm l e ev \<Longrightarrow>
   mget (me_entries (foldl memo_step m es)) k = Some (e, l)"
proof (induction es arbitrary: m)
  case (Cons ev es)
  then show ?case using calm_step [of m k e l ev] by simp
qed simp

text \<open>A memoised read is shared and fresh. In any life of the memo a read is answered by a load of its own key that was
  started less than the lifetime ago and was not rejected, or starts one; and until that load expires or is rejected,
  whatever else is read or rejected meanwhile, every further read of the key joins it.\<close>

theorem memo_shared_and_fresh:
  assumes "memo_reach m hist R" "memo_call k t m = (m', l)" "expiry = (if l < length hist then snd (hist ! l) else t) + HOLDINGS_TTL_MS"
    "\<forall>ev \<in> set es. calm l expiry ev" "now < expiry"
  shows "(l < length hist \<longrightarrow> fst (hist ! l) = k \<and> t < snd (hist ! l) + HOLDINGS_TTL_MS \<and> l \<notin> R) \<and> l \<le> length hist \<and>
    snd (memo_call k now (foldl memo_step m' es)) = l"
proof -
  note ok = memo_reach_ok [OF assms(1), unfolded memo_ok_def]
  have "memo_ok m' (if l < length hist then hist else hist @ [(k, t)]) R" by (rule memo_reach_ok [OF memo_reach.read [OF assms(1,2)]])
  then have d: "distinct (mkeys (me_entries m'))" by (simp add: memo_ok_def)
  show ?thesis
    using assms(2)
  proof (cases rule: memo_call_cases)
    case (hit e)
    then have h: "l < length hist" "hist ! l = (k, e - HOLDINGS_TTL_MS)" "l \<notin> R" using ok by blast+
    then have "mget (me_entries (foldl memo_step m' es)) k = Some (e, l)" using calm_run [OF d] hit assms(3,4) by simp
    then have "snd (memo_call k now (foldl memo_step m' es)) = l" using assms(3,5) h by (simp add: memo_call_def)
    then show ?thesis using h hit by simp
  next
    case started
    then have "l = length hist" using ok by simp
    then have e: "expiry = t + HOLDINGS_TTL_MS" using assms(3) by simp
    have "mget (me_entries m') k = Some (expiry, l)" using started by (simp add: map_of_update e)
    from calm_run [OF d this assms(4)] show ?thesis using assms(5) \<open>l = length hist\<close> by (simp add: memo_call_def)
  qed
qed

section \<open>A portfolio\<close>

theorem amount_exact_witness: "dec_read (formatUnits 1500000 6) = Some (of_int 1500000 / 10 ^ 6)"
  by (rule amount_exact) simp

definition sample_reader :: metadata_reader where
  "sample_reader c contract = (if contract = ''0xa'' then Inr (Some \<lparr>md_symbol = ''AAA'', md_name = ''Token A'', md_decimals = 6\<rparr>) else Inl ''fetch failed'')"

definition sample_candidates :: "asset_candidate list" where
  "sample_candidates = [
     \<lparr>as_chainId = 1, as_type = ''NATIVE'', as_contract = None, as_raw = 5\<rparr>,
     \<lparr>as_chainId = 1, as_type = ''ERC20'', as_contract = Some ''0xa'', as_raw = 7\<rparr>,
     \<lparr>as_chainId = 1, as_type = ''ERC20'', as_contract = Some ''0xb'', as_raw = 9\<rparr>]"

definition sample_resolution :: "metadata_cache \<times> resolved_asset list \<times> nat \<times> int list" where
  "sample_resolution = resolveAssets sample_reader (\<lambda>_ k. k) sample_candidates [] [] []"

lemma sample_failures: "length (filter (\<lambda>a. unseen [] a \<and> meta_of sample_reader a = None) sample_candidates) = 1"
  by code_simp


theorem memo_shared_and_fresh_witness: "snd (memo_call ''u:*'' 10 (foldl memo_step (fst (memo_call ''u:*'' 0 \<lparr>me_entries = [], me_next = 0\<rparr>)) [MemoRead ''v:*'' 5])) = 0"
proof -
  have call: "memo_call ''u:*'' 0 \<lparr>me_entries = [], me_next = 0\<rparr> = (fst (memo_call ''u:*'' 0 \<lparr>me_entries = [], me_next = 0\<rparr>), 0)"
    by (simp add: memo_call_def)
  have "\<forall>ev \<in> set [MemoRead ''v:*'' 5]. calm 0 HOLDINGS_TTL_MS ev" by (simp add: calm_def HOLDINGS_TTL_MS_def)
  from memo_shared_and_fresh [OF memo_reach.fresh_memo call _ this, of 10] show ?thesis by (simp add: HOLDINGS_TTL_MS_def)
qed

end
