(* ===== verification/Prices.thy ===== *)
theory Prices
  imports Holdings IndexerSync
begin

text \<open>
  Prices: the spot oracles and their fallback order (\<open>indexer/price-oracle.ts\<close>), the historical daily closes
  (\<open>indexer/historical-price-oracle.ts\<close>) with their cache (\<open>indexer/historical-price.repository*.ts\<close>), and the
  two enrichments a synchronisation runs over fresh rows: the display price with its dust gate
  (\<open>indexer/price-enrichment.service.ts\<close>) and the tax basis (\<open>indexer/historical-price-enrichment.service.ts\<close>).
  The web is a parameter: what an address answers, or the message with which the request fails. Log lines are left out.
\<close>

section \<open>Requests\<close>

record http_reply =
  hr_status :: nat
  hr_body :: "(string, jsv) result"

type_synonym web = "string \<Rightarrow> (string, http_reply) result"

definition reply_ok :: "http_reply \<Rightarrow> bool" where
  "reply_ok r \<longleftrightarrow> 200 \<le> hr_status r \<and> hr_status r \<le> 299"

text \<open>A property of the parsed body; reading one of \<open>null\<close> throws.\<close>

definition body_prop :: "http_reply \<Rightarrow> string \<Rightarrow> (string, jsv) result" where
  "body_prop r k = rbind (hr_body r) (\<lambda>v. if nullish v then Inl ''Cannot read properties of null'' else Inr (js_get v k))"

text \<open>The comparison \<open>a < b\<close> of numbers; it fails on \<open>NaN\<close>.\<close>

fun num_less :: "jnum \<Rightarrow> jnum \<Rightarrow> bool" where
  "num_less JNaN _ = False"
| "num_less _ JNaN = False"
| "num_less (JFin a) (JFin b) = (a < b)"
| "num_less (JFin a) (JInf neg) = (\<not> neg)"
| "num_less (JInf neg) (JFin b) = neg"
| "num_less (JInf m) (JInf n) = (m \<and> \<not> n)"

section \<open>Spot oracles\<close>

type_synonym spot_oracle = "jnum \<Rightarrow> string \<Rightarrow> (string, token_market option) result"

definition DEX_CHAIN_SLUG :: "(string, string) jmap" where
  "DEX_CHAIN_SLUG = [(''1'', ''ethereum''), (''8453'', ''base''), (''42161'', ''arbitrum''), (''10'', ''optimism''), (''137'', ''polygon'')]"

record market_scan =
  ms_liquidity :: jnum
  ms_price :: "string option"
  ms_best :: jnum

text \<open>\<open>Number(pair.liquidity?.usd) || 0\<close>.\<close>

definition pair_liquidity :: "jsv \<Rightarrow> jnum" where
  "pair_liquidity pair = (case js_Number (js_get (js_get pair ''liquidity'') ''usd'') of JNaN \<Rightarrow> JFin 0 | n \<Rightarrow> n)"

definition market_step :: "market_scan \<Rightarrow> jsv \<Rightarrow> market_scan" where
  "market_step m pair =
     (let liquidity = pair_liquidity pair;
          m = (if num_less (ms_liquidity m) liquidity then m\<lparr>ms_liquidity := liquidity\<rparr> else m)
      in case js_get pair ''priceUsd'' of
           VStr price \<Rightarrow> if num_less (ms_best m) liquidity then m\<lparr>ms_best := liquidity, ms_price := Some price\<rparr> else m
         | _ \<Rightarrow> m)"

definition pair_on_chain :: "string \<Rightarrow> jsv \<Rightarrow> bool" where
  "pair_on_chain slug pair \<longleftrightarrow> js_get pair ''chainId'' = VStr slug"

definition summarizeMarket :: "jsv \<Rightarrow> string \<Rightarrow> token_market" where
  "summarizeMarket pairs slug =
     (let onChain = filter (pair_on_chain slug) (case pairs of VArr vs \<Rightarrow> vs | _ \<Rightarrow> []);
          m = foldl market_step \<lparr>ms_liquidity = JFin 0, ms_price = None, ms_best = JFin (- 1)\<rparr> onChain
      in \<lparr>tm_priceUsd = ms_price m, tm_liquidityUsd = ms_liquidity m, tm_pairCount = length onChain\<rparr>)"

text \<open>\<open>DexScreenerPriceOracle.lookup\<close>: \<open>null\<close> whenever the question could not be answered.\<close>

definition dexLookup :: "web \<Rightarrow> spot_oracle" where
  "dexLookup web c contract = Inr (case mget DEX_CHAIN_SLUG (num_str c) of
     None \<Rightarrow> None
   | Some slug \<Rightarrow> (case web (''https://api.dexscreener.com/latest/dex/tokens/'' @ contract) of
       Inl _ \<Rightarrow> None
     | Inr r \<Rightarrow> if \<not> reply_ok r then None
         else (case body_prop r ''pairs'' of Inl _ \<Rightarrow> None | Inr pairs \<Rightarrow> Some (summarizeMarket pairs slug))))"

definition COINGECKO_PLATFORM :: "(string, string) jmap" where
  "COINGECKO_PLATFORM = [(''1'', ''ethereum''), (''8453'', ''base''), (''42161'', ''arbitrum-one''), (''10'', ''optimistic-ethereum''), (''137'', ''polygon-pos'')]"

text \<open>An option that is set to a non-empty text.\<close>

definition given :: "string option \<Rightarrow> bool" where
  "given k \<longleftrightarrow> k \<noteq> None \<and> k \<noteq> Some []"

text \<open>\<open>CoinGeckoSpotPriceOracle.lookup\<close>.\<close>

definition geckoLookup :: "string option \<Rightarrow> web \<Rightarrow> spot_oracle" where
  "geckoLookup demoKey web c contract = Inr (
     if \<not> given demoKey then None
     else case mget COINGECKO_PLATFORM (num_str c) of
       None \<Rightarrow> None
     | Some platform \<Rightarrow>
         (let address = toLowerCase contract
          in case web (''https://api.coingecko.com/api/v3/simple/token_price/'' @ platform @ ''?contract_addresses='' @ address @ ''&vs_currencies=usd&precision=full'') of
               Inl _ \<Rightarrow> None
             | Inr r \<Rightarrow> if \<not> reply_ok r then None
                 else (case body_prop r address of
                   Inl _ \<Rightarrow> None
                 | Inr entry \<Rightarrow> (case js_get entry ''usd'' of
                     VNum (JFin usd) \<Rightarrow> if usd \<le> 0 then None
                       else Some \<lparr>tm_priceUsd = Some (num_str (JFin usd)), tm_liquidityUsd = JFin 0, tm_pairCount = 1\<rparr>
                   | _ \<Rightarrow> None))))"

definition USD_STABLE_CONTRACTS :: "string list" where
  "USD_STABLE_CONTRACTS = [
     ''1:0xa0b86991c6218b36c1d19d4a2e9eb0ce3606eb48'',
     ''10:0x0b2c639c533813f4aa9d7837caf62653d097ff85'',
     ''137:0x3c499c542cef5e3811e1192ce70d8cc03d5c3359'',
     ''8453:0x833589fcd6edb6e08f4c7c32d4f71b54bda02913'',
     ''42161:0xaf88d065e77c8cc2239327c5edb3a432268e5831'',
     ''1:0xdac17f958d2ee523a2206206994597c13d831ec7'',
     ''10:0x94b008aa00579c1307b0ef2c499ad98a8ce58e58'',
     ''137:0xc2132d05d31c914a87c6611c10748aeb04b58e8f'',
     ''8453:0xfde4c96c8593536e31f229ea8f37b2ada2699bb2'',
     ''42161:0xfd086bc7cd5c481dcc9c85ebe478a1c0b69fcbb9'',
     ''1:0x6b175474e89094c44da98b954eedeac495271d0f'']"

definition isUsdStable :: "jnum \<Rightarrow> string \<Rightarrow> bool" where
  "isUsdStable c contract \<longleftrightarrow> num_str c @ '':'' @ toLowerCase contract \<in> set USD_STABLE_CONTRACTS"

definition PEG :: token_market where
  "PEG = \<lparr>tm_priceUsd = Some ''1.00'', tm_liquidityUsd = JFin 0, tm_pairCount = 1\<rparr>"

text \<open>\<open>FallbackPriceOracle.lookup\<close>.\<close>

definition fallbackLookup :: "spot_oracle \<Rightarrow> spot_oracle \<Rightarrow> spot_oracle" where
  "fallbackLookup primary secondary c contract =
     rbind (primary c contract) (\<lambda>m1. case m1 of Some m \<Rightarrow> Inr (Some m) | None \<Rightarrow>
       rbind (secondary c contract) (\<lambda>m2. case m2 of Some m \<Rightarrow> Inr (Some m) | None \<Rightarrow>
         Inr (if isUsdStable c contract then Some PEG else None)))"

definition MOCK_MARKETS :: "(string, token_market) jmap" where
  "MOCK_MARKETS = [
     (''1:0xc02aaa39b223fe8d0a0e5c4f27ead9083c756cc2'', \<lparr>tm_priceUsd = Some ''3200.00'', tm_liquidityUsd = JFin 500000000, tm_pairCount = 40\<rparr>),
     (''137:0xc2132d05d31c914a87c6611c10748aeb04b58e8f'', \<lparr>tm_priceUsd = Some ''1.00'', tm_liquidityUsd = JFin 80000000, tm_pairCount = 30\<rparr>),
     (''8453:0x833589fcd6edb6e08f4c7c32d4f71b54bda02913'', \<lparr>tm_priceUsd = Some ''1.00'', tm_liquidityUsd = JFin 120000000, tm_pairCount = 35\<rparr>)]"

definition mockLookup :: spot_oracle where
  "mockLookup c contract = Inr (mget MOCK_MARKETS (num_str c @ '':'' @ toLowerCase contract))"

section \<open>Days\<close>

text \<open>\<open>/^(\d{4})-(\d{2})-(\d{2})$/\<close> and the three numbers.\<close>

definition day_numbers :: "string \<Rightarrow> (int \<times> int \<times> int) option" where
  "day_numbers s = (if length s = 10 \<and> s ! 4 = CHR ''-'' \<and> s ! 7 = CHR ''-'' then
     (case (of_base 10 (take 4 s), of_base 10 (take 2 (drop 5 s)), of_base 10 (drop 8 s)) of
        (Some y, Some m, Some d) \<Rightarrow> Some (int y, int m, int d) | _ \<Rightarrow> None)
     else None)"

text \<open>\<open>Date.UTC(y, m - 1, d)\<close> as a day number: two-digit years mean the twentieth century, and a month out of
  range carries into the year.\<close>

definition utc_days :: "int \<Rightarrow> int \<Rightarrow> int \<Rightarrow> int" where
  "utc_days y m d = (let y = (if 0 \<le> y \<and> y \<le> 99 then 1900 + y else y)
     in days_from_civil (y + (m - 1) div 12) ((m - 1) mod 12 + 1) 1 + (d - 1))"

text \<open>\<open>dayWindow\<close>: the seconds of a day that exists, first and past the last.\<close>

definition dayWindow :: "string \<Rightarrow> (int \<times> int) option" where
  "dayWindow s = (case day_numbers s of
     None \<Rightarrow> None
   | Some (y, m, d) \<Rightarrow> (let n = utc_days y m d in
       if civil n \<noteq> (y, m, d) then None else Some (n * 86400, n * 86400 + 86400)))"

text \<open>\<open>utcDayOf\<close>: the day of a date object, or of a text that starts with a day that exists and is an instant.\<close>

datatype stamp = StampDate date | StampValue jsv

definition utcDayOf :: "host \<Rightarrow> stamp \<Rightarrow> string option" where
  "utcDayOf H v = (case v of
     StampDate d \<Rightarrow> map_option iso_day d
   | StampValue (VStr s) \<Rightarrow> (let trimmed = trim s in
       if day_numbers (take 10 trimmed) = None \<or> dayWindow (take 10 trimmed) = None then None
       else map_option iso_day (dateParse H trimmed))
   | _ \<Rightarrow> None)"

section \<open>Historical closes\<close>

datatype historical_lookup = NoAnswer | Unlisted | Resolved string

datatype endpoint = NativeEndpoint | ContractEndpoint

definition endpointKind :: "string \<Rightarrow> string option \<Rightarrow> endpoint option" where
  "endpointKind assetType contract =
     (if assetType = ''NATIVE'' then (if contract = None then Some NativeEndpoint else None)
      else if assetType = ''ERC20'' then (case contract of Some c \<Rightarrow> if trim c \<noteq> [] then Some ContractEndpoint else None | None \<Rightarrow> None)
      else None)"

definition CHAIN_COINGECKO :: "(string, string \<times> string) jmap" where
  "CHAIN_COINGECKO = [
     (''1'', ''ethereum'', ''ethereum''),
     (''8453'', ''base'', ''ethereum''),
     (''42161'', ''arbitrum-one'', ''ethereum''),
     (''10'', ''optimistic-ethereum'', ''ethereum''),
     (''137'', ''polygon-pos'', ''matic-network'')]"

text \<open>The scan of \<open>summarizeDailyClose\<close>: the best time so far and its close.\<close>

definition close_number :: "jsv \<Rightarrow> jnum" where
  "close_number price = (case price of VNum n \<Rightarrow> n | VStr s \<Rightarrow> if trim s \<noteq> [] then js_Number price else JNaN | _ \<Rightarrow> JNaN)"

definition close_step :: "rat \<Rightarrow> rat \<Rightarrow> rat \<times> string option \<Rightarrow> jsv \<Rightarrow> rat \<times> string option" where
  "close_step fromMs toMs = (\<lambda>(bestTs, close) point. case point of
     VArr (t # price # _) \<Rightarrow> (case js_Number t of
        JFin ts \<Rightarrow> if ts < fromMs \<or> toMs \<le> ts then (bestTs, close)
          else (case close_number price of
            JFin numeric \<Rightarrow> if bestTs < ts \<and> 0 < numeric then (ts, Some (js_String price)) else (bestTs, close)
          | _ \<Rightarrow> (bestTs, close))
      | _ \<Rightarrow> (bestTs, close))
   | _ \<Rightarrow> (bestTs, close))"

definition summarizeDailyClose :: "jsv \<Rightarrow> int \<Rightarrow> int \<Rightarrow> string option" where
  "summarizeDailyClose prices fromSec toSec = (case prices of
     VArr points \<Rightarrow> snd (foldl (close_step (of_int fromSec * 1000) (of_int toSec * 1000)) (- 1, None) points)
   | _ \<Rightarrow> None)"

definition outsideHistoryWindow :: "int \<Rightarrow> int \<Rightarrow> string \<Rightarrow> bool" where
  "outsideHistoryWindow historyWindowDays now date \<longleftrightarrow> 0 < historyWindowDays \<and>
     (case dayWindow date of None \<Rightarrow> False | Some (_, to) \<Rightarrow> to \<le> now div 1000 - historyWindowDays * 86400)"

definition close_url :: "endpoint \<Rightarrow> string \<times> string \<Rightarrow> string option \<Rightarrow> int \<times> int \<Rightarrow> string" where
  "close_url endpoint ids contract window =
     (let base = ''https://api.coingecko.com/api/v3''; contract = (case contract of Some c \<Rightarrow> c | None \<Rightarrow> []);
          path = (case endpoint of NativeEndpoint \<Rightarrow> base @ ''/coins/'' @ snd ids @ ''/market_chart/range''
            | ContractEndpoint \<Rightarrow> base @ ''/coins/'' @ fst ids @ ''/contract/'' @ toLowerCase contract @ ''/market_chart/range'')
      in path @ ''?vs_currency=krw&from='' @ int_str (fst window) @ ''&to='' @ int_str (snd window))"

text \<open>\<open>CoinGeckoHistoricalPriceOracle.priceAt\<close>; it never throws.\<close>

definition geckoPriceAt :: "string option \<Rightarrow> int \<Rightarrow> int \<Rightarrow> web \<Rightarrow> jnum \<Rightarrow> string option \<Rightarrow> string \<Rightarrow> string \<Rightarrow> historical_lookup" where
  "geckoPriceAt demoKey historyWindowDays now web c contract assetType date =
     (if \<not> given demoKey \<or> outsideHistoryWindow historyWindowDays now date then NoAnswer
      else case (endpointKind assetType contract, mget CHAIN_COINGECKO (num_str c), dayWindow date) of
        (Some endpoint, Some ids, Some window) \<Rightarrow>
          (case web (close_url endpoint ids contract window) of
             Inl _ \<Rightarrow> NoAnswer
           | Inr r \<Rightarrow> if hr_status r = 404 then Unlisted
               else if \<not> reply_ok r then NoAnswer
               else (case body_prop r ''prices'' of
                  Inl _ \<Rightarrow> NoAnswer
                | Inr prices \<Rightarrow> (case summarizeDailyClose prices (fst window) (snd window) of None \<Rightarrow> NoAnswer | Some krw \<Rightarrow> Resolved krw)))
      | _ \<Rightarrow> NoAnswer)"

definition MOCK_NATIVE_CLOSE_KRW :: string where "MOCK_NATIVE_CLOSE_KRW = ''4000000''"

definition mockPriceAt :: "string option \<Rightarrow> string \<Rightarrow> historical_lookup" where
  "mockPriceAt contract assetType = (if endpointKind assetType contract \<noteq> Some NativeEndpoint then NoAnswer else Resolved MOCK_NATIVE_CLOSE_KRW)"

section \<open>The cache of closes\<close>

record price_key =
  pk_chainId :: jnum
  pk_assetKey :: string
  pk_date :: string

definition historicalPriceKey :: "price_key \<Rightarrow> string" where
  "historicalPriceKey k = num_str (pk_chainId k) @ '':'' @ pk_assetKey k @ '':'' @ pk_date k"

text \<open>\<open>MockHistoricalPriceRepository\<close>.\<close>

type_synonym price_store = "(string, string) jmap"

definition priceGet :: "price_key \<Rightarrow> price_store \<Rightarrow> string option" where
  "priceGet k m = mget m (historicalPriceKey k)"

definition priceGetMany :: "price_key list \<Rightarrow> price_store \<Rightarrow> (string, string) jmap" where
  "priceGetMany ks m = foldl (\<lambda>found k. case mget m (historicalPriceKey k) of
     Some hit \<Rightarrow> mput (historicalPriceKey k) hit found | None \<Rightarrow> found) [] ks"

definition pricePut :: "price_key \<Rightarrow> string \<Rightarrow> price_store \<Rightarrow> price_store" where
  "pricePut k krw m = mput (historicalPriceKey k) krw m"

definition isFinitePositive :: "host \<Rightarrow> string \<Rightarrow> bool" where
  "isFinitePositive H raw \<longleftrightarrow> (case decNew H (VStr raw) of Some (DFin q) \<Rightarrow> 0 < q | _ \<Rightarrow> False)"

section \<open>The display price and the dust gate\<close>

text \<open>\<open>PriceEnrichmentService.enrich\<close>: one lookup per contract; the rows written before nothing can fail.\<close>

type_synonym 'w spot_source = "jnum \<Rightarrow> string \<Rightarrow> 'w \<Rightarrow> 'w \<times> (string, token_market option) result"

definition spot_key :: "jobj \<Rightarrow> (jnum \<times> string) option" where
  "spot_key p = (if pget p ''asset_type'' \<noteq> VStr ''ERC20'' \<or> pget p ''classification'' = VStr ''SPAM'' then None
     else case pget p ''asset_contract'' of
       VStr c \<Rightarrow> if c = [] then None else Some (js_Number (pget p ''chain_id''), c)
     | _ \<Rightarrow> None)"

definition market_cache_key :: "jnum \<times> string \<Rightarrow> string" where
  "market_cache_key k = num_str (fst k) @ '':'' @ toLowerCase (snd k)"

definition market_for :: "'w spot_source \<Rightarrow> jnum \<times> string \<Rightarrow> 'w \<times> (string, token_market option) jmap \<Rightarrow>
    ('w \<times> (string, token_market option) jmap) \<times> token_market option" where
  "market_for oracle k = (\<lambda>(w, cache). case mget cache (market_cache_key k) of
     Some m \<Rightarrow> ((w, cache), m)
   | None \<Rightarrow> (case oracle (fst k) (snd k) w of
       (w, r) \<Rightarrow> (let m = (case r of Inl _ \<Rightarrow> None | Inr m \<Rightarrow> m) in ((w, mput (market_cache_key k) m cache), m))))"

definition market_text :: "string option \<Rightarrow> jsv" where
  "market_text s = (case s of None \<Rightarrow> VNull | Some s \<Rightarrow> VStr s)"

definition market_row :: "token_market \<Rightarrow> jobj \<Rightarrow> jobj" where
  "market_row m p =
     (let p = pput ''market_liquidity_usd'' (VNum (tm_liquidityUsd m)) (pput ''market_price_usd'' (market_text (tm_priceUsd m)) p)
      in if pget p ''classification'' = VStr ''RECEIVE'' \<and> \<not> js_truthy (pget p ''group_id'') \<and> marketVerdict m = NoMarket
         then pput ''confidence'' (jint 0) (pput ''classification'' (VStr ''SPAM'') p)
         else p)"

definition spot_step :: "'w spot_source \<Rightarrow> ('w \<times> (string, token_market option) jmap) \<times> indexed_transaction list \<Rightarrow> indexed_transaction \<Rightarrow>
    ('w \<times> (string, token_market option) jmap) \<times> indexed_transaction list" where
  "spot_step oracle = (\<lambda>(st, done) t. case spot_key (i_payload t) of
     None \<Rightarrow> (st, done @ [t])
   | Some k \<Rightarrow> (case market_for oracle k st of
       (st, None) \<Rightarrow> (st, done @ [t])
     | (st, Some m) \<Rightarrow> (st, done @ [t\<lparr>i_payload := market_row m (i_payload t)\<rparr>])))"

definition enrichSpot :: "'w spot_source \<Rightarrow> indexed_transaction list \<Rightarrow> 'w \<Rightarrow> 'w \<times> indexed_transaction list \<times> string option" where
  "enrichSpot oracle rows w = (case foldl (spot_step oracle) ((w, []), []) rows of ((w, _), rows) \<Rightarrow> (w, rows, None))"

section \<open>The tax basis\<close>

record 'w price_services =
  cacheGet :: "price_key \<Rightarrow> 'w \<Rightarrow> (string, string option) result"
  cachePut :: "price_key \<Rightarrow> string \<Rightarrow> 'w effect"
  oracleAt :: "jnum \<Rightarrow> string option \<Rightarrow> string \<Rightarrow> string \<Rightarrow> 'w \<Rightarrow> 'w \<times> (string, historical_lookup) result"
  priceClock :: "'w \<Rightarrow> int"

definition UNLISTED_TTL_MS :: int where "UNLISTED_TTL_MS = 24 * 60 * 60 * 1000"

definition UNLISTED_MAX_ENTRIES :: nat where "UNLISTED_MAX_ENTRIES = 10000"

text \<open>The state of the service between rows: the world, the assets remembered as unlisted, and the memo of one batch.\<close>

record 'w price_state =
  pworld :: 'w
  unlisted :: "(string, int) jmap"
  pmemo :: "(string, string option) jmap"

definition unlisted_key :: "jnum \<Rightarrow> string \<Rightarrow> string" where
  "unlisted_key c akey = num_str c @ '':'' @ akey"

definition isUnlisted :: "'w price_services \<Rightarrow> jnum \<Rightarrow> string \<Rightarrow> 'w price_state \<Rightarrow> 'w price_state \<times> bool" where
  "isUnlisted S c akey st = (case mget (unlisted st) (unlisted_key c akey) of
     None \<Rightarrow> (st, False)
   | Some expiresAt \<Rightarrow> if priceClock S (pworld st) < expiresAt then (st, True)
       else (st\<lparr>unlisted := mdel (unlisted_key c akey) (unlisted st)\<rparr>, False))"

definition rememberUnlisted :: "'w price_services \<Rightarrow> jnum \<Rightarrow> string \<Rightarrow> 'w price_state \<Rightarrow> 'w price_state" where
  "rememberUnlisted S c akey st =
     (let m = (if UNLISTED_MAX_ENTRIES \<le> length (unlisted st)
         then (case unlisted st of (oldest, _) # _ \<Rightarrow> mdel oldest (unlisted st) | [] \<Rightarrow> unlisted st) else unlisted st)
      in st\<lparr>unlisted := mput (unlisted_key c akey) (priceClock S (pworld st) + UNLISTED_TTL_MS) m\<rparr>)"

definition usable :: "host \<Rightarrow> string option \<Rightarrow> bool" where
  "usable H k = (case k of Some s \<Rightarrow> isFinitePositive H s | None \<Rightarrow> False)"

text \<open>\<open>resolve\<close>: the cache first, then the oracle once; only a valid close is written back. A failure is no price.\<close>

definition resolve_close :: "host \<Rightarrow> 'w price_services \<Rightarrow> price_key \<Rightarrow> string option \<Rightarrow> string \<Rightarrow> 'w price_state \<Rightarrow> 'w price_state \<times> string option" where
  "resolve_close H S k contract assetType st =
     (case cacheGet S k (pworld st) of
        Inl _ \<Rightarrow> (st, None)
      | Inr cached \<Rightarrow> if usable H cached then (st, cached)
          else (case oracleAt S (pk_chainId k) contract assetType (pk_date k) (pworld st) of
            (w, Inl _) \<Rightarrow> (st\<lparr>pworld := w\<rparr>, None)
          | (w, Inr Unlisted) \<Rightarrow> (rememberUnlisted S (pk_chainId k) (pk_assetKey k) (st\<lparr>pworld := w\<rparr>), None)
          | (w, Inr NoAnswer) \<Rightarrow> (st\<lparr>pworld := w\<rparr>, None)
          | (w, Inr (Resolved krw)) \<Rightarrow>
              if \<not> isFinitePositive H krw then (st\<lparr>pworld := w\<rparr>, None)
              else (case cachePut S k krw w of
                (w, Some _) \<Rightarrow> (st\<lparr>pworld := w\<rparr>, None)
              | (w, None) \<Rightarrow> (st\<lparr>pworld := w\<rparr>, (case cacheGet S k w of
                  Inl _ \<Rightarrow> None
                | Inr canonical \<Rightarrow> if usable H canonical then canonical else Some krw)))))"

text \<open>\<open>nativeSymbolOf\<close> on a number.\<close>

definition native_symbol :: "jnum \<Rightarrow> string option" where
  "native_symbol c = (case c of JFin q \<Rightarrow> if is_integer q then nativeSymbolOf \<lfloor>q\<rfloor> else None | _ \<Rightarrow> None)"

definition native_key :: "jnum \<Rightarrow> string \<Rightarrow> price_key" where
  "native_key c date = \<lparr>pk_chainId = c, pk_assetKey = ''native'', pk_date = date\<rparr>"

text \<open>The answer for a key that the memo does not have: nothing for an unlisted asset, else what the lookup gives.\<close>

definition memo_close :: "host \<Rightarrow> 'w price_services \<Rightarrow> price_key \<Rightarrow> string option \<Rightarrow> string \<Rightarrow> 'w price_state \<Rightarrow> 'w price_state \<times> string option" where
  "memo_close H S k contract assetType st =
     (case isUnlisted S (pk_chainId k) (pk_assetKey k) st of (st, gone) \<Rightarrow>
        (case (if gone then (st, None) else resolve_close H S k contract assetType st) of (st, unitKrw) \<Rightarrow>
           (st\<lparr>pmemo := mput (historicalPriceKey k) unitKrw (pmemo st)\<rparr>, unitKrw)))"

text \<open>\<open>warmNativeClose\<close>: one lookup for a coin and a day, copied to the batch's other chains of that coin.\<close>

definition share_close :: "'w price_services \<Rightarrow> jnum \<Rightarrow> string \<Rightarrow> string \<Rightarrow> string \<Rightarrow> 'w price_state \<Rightarrow> jnum \<Rightarrow> 'w price_state" where
  "share_close S c symbol date krw st sibling =
     (let k = native_key sibling date in
      if sibling = c \<or> native_symbol sibling \<noteq> Some symbol \<or> mhas (pmemo st) (historicalPriceKey k) then st
      else (case cachePut S k krw (pworld st) of
        (w, None) \<Rightarrow> st\<lparr>pworld := w, pmemo := mput (historicalPriceKey k) (Some krw) (pmemo st)\<rparr>
      | (w, Some _) \<Rightarrow> st\<lparr>pworld := w\<rparr>))"

definition warmNativeClose :: "host \<Rightarrow> 'w price_services \<Rightarrow> jnum list \<Rightarrow> jnum \<Rightarrow> string option \<Rightarrow> 'w price_state \<Rightarrow> 'w price_state" where
  "warmNativeClose H S batch c date st = (case (date, num_fin c, native_symbol c) of
     (Some day, Some _, Some symbol) \<Rightarrow>
       if mhas (pmemo st) (historicalPriceKey (native_key c day)) then st
       else (case memo_close H S (native_key c day) None ''NATIVE'' st of
         (st, None) \<Rightarrow> st
       | (st, Some krw) \<Rightarrow> foldl (share_close S c symbol day krw) st batch)
   | _ \<Rightarrow> st)"

text \<open>\<open>quantityOf\<close> of the service reads an amount as the cost engine does.\<close>

definition basis_quantity :: "host \<Rightarrow> jobj \<Rightarrow> rat option" where
  "basis_quantity H p = quantityOf H p"

text \<open>The last step of a row, on a close: a text that is no number throws.\<close>

definition apply_close :: "host \<Rightarrow> string \<Rightarrow> rat \<Rightarrow> jobj \<Rightarrow> jobj \<times> string option" where
  "apply_close H unitKrw quantity p = (case decNew H (VStr unitKrw) of
     None \<Rightarrow> (p, Some (''[DecimalError] Invalid argument: '' @ unitKrw))
   | Some (DFin u) \<Rightarrow> if u \<le> 0 then (p, None)
       else (pput ''price_status'' (VStr ''RESOLVED'') (pput ''fiat_value'' (VStr (fixed H (rmul H u quantity))) p), None)
   | Some _ \<Rightarrow> (p, None))"

text \<open>The asset a row is priced as: its key in the cache and the contract and kind the oracle is asked about.\<close>

definition basis_asset :: "jobj \<Rightarrow> (string \<times> string option \<times> string) option" where
  "basis_asset p = (let assetType = js_String (coalesce (pget p ''asset_type'') (VStr [])); rawContract = str_of (pget p ''asset_contract'')
     in case endpointKind assetType rawContract of
          None \<Rightarrow> None
        | Some NativeEndpoint \<Rightarrow> Some (''native'', None, assetType)
        | Some ContractEndpoint \<Rightarrow> Some (toLowerCase (case rawContract of Some c \<Rightarrow> c | None \<Rightarrow> []), rawContract, assetType))"

definition row_day :: "host \<Rightarrow> indexed_transaction \<Rightarrow> string option" where
  "row_day H t = (case utcDayOf H (StampValue (pget (i_payload t) ''block_timestamp'')) of
     Some d \<Rightarrow> Some d | None \<Rightarrow> utcDayOf H (StampDate (Some (i_occurredAt t))))"

text \<open>The part of a row that prices it, once it is not priced already and no spam.\<close>

definition price_basis :: "host \<Rightarrow> 'w price_services \<Rightarrow> jnum \<Rightarrow> string option \<Rightarrow> jobj \<Rightarrow> 'w price_state \<Rightarrow> 'w price_state \<times> jobj \<times> string option" where
  "price_basis H S c date p st = (case (basis_asset p, basis_quantity H p, date) of
     (Some (akey, contract, assetType), Some quantity, Some day) \<Rightarrow>
       if quantity \<le> 0 then (st, p, None)
       else (let k = \<lparr>pk_chainId = c, pk_assetKey = akey, pk_date = day\<rparr> in
         case (case mget (pmemo st) (historicalPriceKey k) of Some unitKrw \<Rightarrow> (st, unitKrw) | None \<Rightarrow> memo_close H S k contract assetType st) of
           (st, None) \<Rightarrow> (st, p, None)
         | (st, Some unitKrw) \<Rightarrow> (st, apply_close H unitKrw quantity p))
   | _ \<Rightarrow> (st, p, None))"

definition enrich_row :: "host \<Rightarrow> 'w price_services \<Rightarrow> jnum list \<Rightarrow> indexed_transaction \<Rightarrow> 'w price_state \<Rightarrow> 'w price_state \<times> jobj \<times> string option" where
  "enrich_row H S batch t st =
     (let p = i_payload t; c = js_Number (pget p ''chain_id''); date = row_day H t;
          st = warmNativeClose H S batch c date st; unknown = pput ''price_status'' (VStr ''UNKNOWN'') p
      in if \<not> nullish (pget p ''fiat_value'') then (st, p, None)
         else if pget p ''classification'' = VStr ''SPAM'' then (st, unknown, None)
         else price_basis H S c date unknown st)"

fun enrich_rows :: "host \<Rightarrow> 'w price_services \<Rightarrow> jnum list \<Rightarrow> indexed_transaction list \<Rightarrow> 'w price_state \<Rightarrow>
    'w price_state \<times> indexed_transaction list \<times> string option" where
  "enrich_rows H S batch [] st = (st, [], None)"
| "enrich_rows H S batch (t # ts) st = (case enrich_row H S batch t st of
     (st, p, Some message) \<Rightarrow> (st, t\<lparr>i_payload := p\<rparr> # ts, Some message)
   | (st, p, None) \<Rightarrow> (case enrich_rows H S batch ts st of
       (st, ts', e) \<Rightarrow> (st, t\<lparr>i_payload := p\<rparr> # ts', e)))"

text \<open>\<open>HistoricalPriceEnrichmentService.enrich\<close>; the memo is new for each batch.\<close>

definition batch_chains :: "indexed_transaction list \<Rightarrow> jnum list" where
  "batch_chains rows = foldl (\<lambda>s t. let c = js_Number (pget (i_payload t) ''chain_id'') in if num_fin c \<noteq> None then sadd c s else s) [] rows"

definition enrichHistorical :: "host \<Rightarrow> 'w price_services \<Rightarrow> indexed_transaction list \<Rightarrow> 'w price_state \<Rightarrow>
    'w price_state \<times> indexed_transaction list \<times> string option" where
  "enrichHistorical H S rows st = enrich_rows H S (batch_chains rows) rows (st\<lparr>pmemo := []\<rparr>)"

end
