(* ===== verification/Backfill.thy ===== *)
theory Backfill
  imports Prices
begin

text \<open>
  The one-shot repair of the cache of native closes (\<open>indexer/native-price-backfill.ts\<close>): the scan of the stored
  ledger, the grouping into coins and days, the rolling-window throttle of the oracle calls, and the run. The
  ledger, the cache, the oracle, the clock and the sleep are a record of operations on a world \<open>'w\<close>; reading the
  clock may take time. The budget of calls per minute is positive. The state keeps, beside the window the code keeps, the times of all calls made. Log lines are
  left out.
\<close>

definition DEFAULT_CALLS_PER_MINUTE :: nat where "DEFAULT_CALLS_PER_MINUTE = 25"

definition WINDOW_MS :: int where "WINDOW_MS = 60000"

record chain_day =
  cd_chainId :: jnum
  cd_date :: string

record combo =
  co_symbol :: string
  co_date :: string
  co_keys :: "price_key list"

record 'w backfill_services =
  probeCache :: "price_key list \<Rightarrow> 'w \<Rightarrow> (string, (string, string) jmap) result"
  storeClose :: "price_key \<Rightarrow> string \<Rightarrow> 'w effect"
  askOracle :: "jnum \<Rightarrow> string \<Rightarrow> 'w \<Rightarrow> 'w \<times> (string, historical_lookup) result"
  readClock :: "'w \<Rightarrow> 'w \<times> int"
  sleepFor :: "int \<Rightarrow> 'w \<Rightarrow> 'w"

section \<open>Grouping\<close>

record combo_scan =
  cs_combos :: "(string, combo) jmap"
  cs_seen :: "string list"
  cs_skipped :: nat
  cs_kept :: nat

definition combo_key :: "string \<Rightarrow> string \<Rightarrow> string" where
  "combo_key symbol date = symbol @ '':'' @ date"

definition combo_step :: "host \<Rightarrow> combo_scan \<Rightarrow> chain_day \<Rightarrow> combo_scan" where
  "combo_step H s cd =
     (let pairKey = num_str (cd_chainId cd) @ '':'' @ cd_date cd in
      if pairKey \<in> set (cs_seen s) then s
      else let s = s\<lparr>cs_seen := cs_seen s @ [pairKey]\<rparr> in
        case native_symbol (cd_chainId cd) of
          None \<Rightarrow> s\<lparr>cs_skipped := cs_skipped s + 1\<rparr>
        | Some symbol \<Rightarrow>
            if utcDayOf H (StampValue (VStr (cd_date cd))) \<noteq> Some (cd_date cd) then s\<lparr>cs_skipped := cs_skipped s + 1\<rparr>
            else (let key = combo_key symbol (cd_date cd);
                      combo = (case mget (cs_combos s) key of Some c \<Rightarrow> c | None \<Rightarrow> \<lparr>co_symbol = symbol, co_date = cd_date cd, co_keys = []\<rparr>)
                  in s\<lparr>cs_kept := cs_kept s + 1,
                       cs_combos := mput key (combo\<lparr>co_keys := co_keys combo @ [native_key (cd_chainId cd) (cd_date cd)]\<rparr>) (cs_combos s)\<rparr>))"

definition group_days :: "host \<Rightarrow> chain_day list \<Rightarrow> combo_scan" where
  "group_days H days = foldl (combo_step H) \<lparr>cs_combos = [], cs_seen = [], cs_skipped = 0, cs_kept = 0\<rparr> days"

section \<open>What is missing\<close>

text \<open>The first valid close that one of the combo's keys has in the cache.\<close>

definition known_close :: "host \<Rightarrow> (string, string) jmap \<Rightarrow> combo \<Rightarrow> string option" where
  "known_close H cached c = List.find (isFinitePositive H) (List.map_filter (\<lambda>k. mget cached (historicalPriceKey k)) (co_keys c))"

definition pending_of :: "host \<Rightarrow> (string, string) jmap \<Rightarrow> combo list \<Rightarrow> combo list" where
  "pending_of H cached cs = filter (\<lambda>c. known_close H cached c = None) cs"

definition copies_of :: "host \<Rightarrow> (string, string) jmap \<Rightarrow> combo list \<Rightarrow> (price_key \<times> string) list" where
  "copies_of H cached cs = concat (map (\<lambda>c. case known_close H cached c of
     None \<Rightarrow> []
   | Some krw \<Rightarrow> map (\<lambda>k. (k, krw)) (filter (\<lambda>k. mget cached (historicalPriceKey k) = None) (co_keys c))) cs)"

section \<open>The throttle\<close>

record 'w backfill_state =
  bworld :: 'w
  recentCalls :: "int list"
  callTimes :: "int list"
  oracleCalls :: nat
  cachePuts :: nat
  resolvedCombos :: nat
  unresolvedCombos :: nat

text \<open>Sleeps while the window of the last minute is full. With an empty window and no budget the code sleeps for
  \<open>NaN\<close> milliseconds, which the timer takes as one.\<close>

partial_function (option) throttle :: "'w backfill_services \<Rightarrow> nat \<Rightarrow> int list \<Rightarrow> 'w \<Rightarrow> (int list \<times> int \<times> 'w) option" where
  "throttle B callsPerMinute recent w =
     (case readClock B w of (w, now) \<Rightarrow>
        (let cutoff = now - WINDOW_MS; recent = dropWhile (\<lambda>c. c \<le> cutoff) recent in
         if length recent < callsPerMinute then (case readClock B w of (w, now) \<Rightarrow> Some (recent @ [now], now, w))
         else throttle B callsPerMinute recent (sleepFor B (case recent of c # _ \<Rightarrow> c - cutoff | [] \<Rightarrow> 1) w)))"

declare throttle.simps [code]

section \<open>The run\<close>

definition put_close :: "'w backfill_services \<Rightarrow> string \<Rightarrow> 'w backfill_state \<Rightarrow> price_key \<Rightarrow> 'w backfill_state" where
  "put_close B krw st k = (case storeClose B k krw (bworld st) of
     (w, None) \<Rightarrow> st\<lparr>bworld := w, cachePuts := cachePuts st + 1\<rparr>
   | (w, Some _) \<Rightarrow> st\<lparr>bworld := w\<rparr>)"

text \<open>\<open>lookup\<close>: the first chain of the combo stands for all; only a valid close is an answer.\<close>

definition backfill_lookup :: "host \<Rightarrow> 'w backfill_services \<Rightarrow> combo \<Rightarrow> 'w \<Rightarrow> 'w \<times> string option" where
  "backfill_lookup H B c w = (case askOracle B (pk_chainId (hd (co_keys c))) (co_date c) w of
     (w, Inr (Resolved krw)) \<Rightarrow> (w, if isFinitePositive H krw then Some krw else None)
   | (w, _) \<Rightarrow> (w, None))"

definition fill_combo :: "host \<Rightarrow> 'w backfill_services \<Rightarrow> nat \<Rightarrow> combo \<Rightarrow> 'w backfill_state \<Rightarrow> 'w backfill_state option" where
  "fill_combo H B callsPerMinute c st =
     (case throttle B callsPerMinute (recentCalls st) (bworld st) of
        None \<Rightarrow> None
      | Some (recent, now, w) \<Rightarrow>
          (let st = st\<lparr>bworld := w, recentCalls := recent, callTimes := callTimes st @ [now], oracleCalls := oracleCalls st + 1\<rparr>
           in case backfill_lookup H B c (bworld st) of
                (w, None) \<Rightarrow> Some (st\<lparr>bworld := w, unresolvedCombos := unresolvedCombos st + 1\<rparr>)
              | (w, Some krw) \<Rightarrow> Some (foldl (put_close B krw) (st\<lparr>bworld := w, resolvedCombos := resolvedCombos st + 1\<rparr>) (co_keys c))))"

fun fill_combos :: "host \<Rightarrow> 'w backfill_services \<Rightarrow> nat \<Rightarrow> combo list \<Rightarrow> 'w backfill_state \<Rightarrow> 'w backfill_state option" where
  "fill_combos H B callsPerMinute [] st = Some st"
| "fill_combos H B callsPerMinute (c # cs) st = Option.bind (fill_combo H B callsPerMinute c st) (fill_combos H B callsPerMinute cs)"

record backfill_result =
  bf_chainDays :: nat
  bf_combos :: nat
  bf_missingCombos :: nat
  bf_skippedChainDays :: nat
  bf_oracleCalls :: nat
  bf_cachePuts :: nat
  bf_resolvedCombos :: nat
  bf_unresolvedCombos :: nat
  bf_estimatedMinutes :: nat
  bf_dryRun :: bool

definition backfill_report :: "combo_scan \<Rightarrow> nat \<Rightarrow> nat \<Rightarrow> bool \<Rightarrow> 'w backfill_state \<Rightarrow> backfill_result" where
  "backfill_report s missing callsPerMinute dryRun st = \<lparr>bf_chainDays = cs_kept s, bf_combos = length (cs_combos s),
     bf_missingCombos = missing, bf_skippedChainDays = cs_skipped s, bf_oracleCalls = oracleCalls st, bf_cachePuts = cachePuts st,
     bf_resolvedCombos = resolvedCombos st, bf_unresolvedCombos = unresolvedCombos st,
     bf_estimatedMinutes = (missing + callsPerMinute - 1) div callsPerMinute, bf_dryRun = dryRun\<rparr>"

text \<open>\<open>run\<close>: \<open>None\<close> when it does not come back; the probe of the cache may reject. The window of recent calls belongs
  to the object and outlives a run.\<close>

definition backfill_run :: "host \<Rightarrow> 'w backfill_services \<Rightarrow> nat \<Rightarrow> bool \<Rightarrow> chain_day list \<Rightarrow> int list \<Rightarrow> 'w \<Rightarrow>
    ('w backfill_state \<times> (string, backfill_result) result) option" where
  "backfill_run H B callsPerMinute dryRun days recent w =
     (let s = group_days H days; combos = mvalues (cs_combos s);
          st = \<lparr>bworld = w, recentCalls = recent, callTimes = [], oracleCalls = 0, cachePuts = 0, resolvedCombos = 0, unresolvedCombos = 0\<rparr>
      in case probeCache B (concat (map co_keys combos)) w of
           Inl message \<Rightarrow> Some (st, Inl message)
         | Inr cached \<Rightarrow>
             (let pending = pending_of H cached combos in
              if dryRun then Some (st, Inr (backfill_report s (length pending) callsPerMinute True st))
              else map_option (\<lambda>st. (st, Inr (backfill_report s (length pending) callsPerMinute False st)))
                (fill_combos H B callsPerMinute pending (foldl (\<lambda>st (k, krw). put_close B krw st k) st (copies_of H cached combos)))))"

section \<open>The scan of the ledger\<close>

record ledger_page_row =
  lr_id :: string
  lr_payload :: jsv
  lr_occurredAt :: date

text \<open>The rows after a cursor, at most as many as asked for, in the order of their ids.\<close>

type_synonym ledger_pager = "string option \<Rightarrow> nat \<Rightarrow> ledger_page_row list"

definition row_chain_day :: "host \<Rightarrow> ledger_page_row \<Rightarrow> chain_day option" where
  "row_chain_day H r =
     (let p = (case lr_payload r of VObj p \<Rightarrow> p | _ \<Rightarrow> []); c = js_Number (pget p ''chain_id'');
          day = (if nullish (pget p ''block_timestamp'') then StampDate (lr_occurredAt r) else StampValue (pget p ''block_timestamp''))
      in if num_fin c = None then None else map_option (\<lambda>d. \<lparr>cd_chainId = c, cd_date = d\<rparr>) (utcDayOf H day))"

definition add_chain_day :: "host \<Rightarrow> (string, chain_day) jmap \<Rightarrow> ledger_page_row \<Rightarrow> (string, chain_day) jmap" where
  "add_chain_day H pairs r = (case row_chain_day H r of
     None \<Rightarrow> pairs
   | Some cd \<Rightarrow> mput (num_str (cd_chainId cd) @ '':'' @ cd_date cd) cd pairs)"

partial_function (option) scan_ledger :: "host \<Rightarrow> ledger_pager \<Rightarrow> nat \<Rightarrow> string option \<Rightarrow> (string, chain_day) jmap \<Rightarrow> (string, chain_day) jmap option" where
  "scan_ledger H findMany pageSize cursor pairs =
     (let rows = findMany cursor pageSize in
      if rows = [] then Some pairs
      else let pairs = foldl (add_chain_day H) pairs rows in
        if length rows < pageSize then Some pairs else scan_ledger H findMany pageSize (Some (lr_id (last rows))) pairs)"

declare scan_ledger.simps [code]

definition listChainDays :: "host \<Rightarrow> ledger_pager \<Rightarrow> nat \<Rightarrow> chain_day list option" where
  "listChainDays H findMany pageSize = map_option mvalues (scan_ledger H findMany pageSize None [])"

end
