(* ===== verification/Prices_Properties.thy ===== *)
theory Prices_Properties
  imports Prices
begin

text \<open>
  What the prices mean: a row is hidden as dust only when the market said that there is no market, a tax basis is
  the product of the quantity and a close that the oracle gave for that asset and day and is left unknown
  otherwise, and a batch asks for an asset and day at most once.
\<close>

section \<open>The fallback order and the dust gate\<close>

text \<open>The market was asked and said that it has no pair of this contract on this chain.\<close>

definition no_pair_confirmed :: "web \<Rightarrow> jnum \<times> string \<Rightarrow> bool" where
  "no_pair_confirmed web k \<longleftrightarrow> (\<exists>slug r pairs. mget DEX_CHAIN_SLUG (num_str (fst k)) = Some slug \<and>
     web (''https://api.dexscreener.com/latest/dex/tokens/'' @ snd k) = Inr r \<and> reply_ok r \<and> body_prop r ''pairs'' = Inr pairs \<and>
     filter (pair_on_chain slug) (case pairs of VArr vs \<Rightarrow> vs | _ \<Rightarrow> []) = [])"

lemma no_market_pairs: "marketVerdict m = NoMarket \<longleftrightarrow> tm_pairCount m = 0"
  by (simp add: marketVerdict_def)

lemma dex_no_market: "dexLookup web c contract = Inr (Some m) \<Longrightarrow> marketVerdict m = NoMarket \<Longrightarrow> no_pair_confirmed web (c, contract)"
  unfolding dexLookup_def no_pair_confirmed_def no_market_pairs
  by (auto simp: summarizeMarket_def Let_def split: option.splits sum.splits if_splits)

lemma gecko_has_market: "geckoLookup key web c contract = Inr (Some m) \<Longrightarrow> marketVerdict m \<noteq> NoMarket"
  unfolding geckoLookup_def no_market_pairs
  by (auto simp: Let_def split: option.splits sum.splits if_splits jsv.splits jnum.splits)

lemma fallback_no_market:
  assumes "fallbackLookup (dexLookup web) (geckoLookup key web) c contract = Inr (Some m)" and "marketVerdict m = NoMarket"
  shows "no_pair_confirmed web (c, contract)"
proof -
  obtain m1 where m1: "dexLookup web c contract = Inr m1" by (simp add: dexLookup_def)
  show ?thesis
  proof (cases m1)
    case (Some a)
    then show ?thesis using assms m1 dex_no_market [of web c contract a] by (simp add: fallbackLookup_def)
  next
    case None
    obtain m2 where m2: "geckoLookup key web c contract = Inr m2" by (simp add: geckoLookup_def)
    have "marketVerdict PEG \<noteq> NoMarket" by (simp add: PEG_def no_market_pairs)
    then show ?thesis
      using assms None m1 m2 gecko_has_market [of key web c contract]
      by (auto simp: fallbackLookup_def split: option.splits if_splits)
  qed
qed

text \<open>What the loop does to a row, for an oracle that answers \<open>L\<close>; contracts that differ in case share an answer.\<close>

definition answered :: "spot_oracle \<Rightarrow> string \<Rightarrow> token_market option \<Rightarrow> bool" where
  "answered L key m \<longleftrightarrow> (\<exists>c a. market_cache_key (c, a) = key \<and> (case L c a of Inl _ \<Rightarrow> None | Inr m \<Rightarrow> m) = m)"

definition spot_row :: "spot_oracle \<Rightarrow> indexed_transaction \<Rightarrow> indexed_transaction \<Rightarrow> bool" where
  "spot_row L t t' \<longleftrightarrow> (case spot_key (i_payload t) of
     None \<Rightarrow> t' = t
   | Some k \<Rightarrow> (\<exists>m. answered L (market_cache_key k) m \<and>
       t' = (case m of None \<Rightarrow> t | Some m \<Rightarrow> t\<lparr>i_payload := market_row m (i_payload t)\<rparr>)))"

definition spot_answers :: "spot_oracle \<Rightarrow> (string, token_market option) jmap \<Rightarrow> bool" where
  "spot_answers L cache \<longleftrightarrow> (\<forall>key m. mget cache key = Some m \<longrightarrow> answered L key m)"

lemma market_for_answers:
  assumes "spot_answers L cache" "market_for (\<lambda>c a w. (w, L c a)) k (w, cache) = ((w', cache'), m)"
  shows "spot_answers L cache'" "answered L (market_cache_key k) m"
proof -
  obtain c a where k: "k = (c, a)" by (cases k)
  have new: "answered L (market_cache_key k) (case L (fst k) (snd k) of Inl _ \<Rightarrow> None | Inr m \<Rightarrow> m)"
    unfolding answered_def k by (intro exI [of _ c] exI [of _ a]) simp
  show "spot_answers L cache'"
    using assms new unfolding spot_answers_def market_for_def
    by (auto simp: Let_def map_of_update split: option.splits if_splits)
  show "answered L (market_cache_key k) m"
    using assms new unfolding spot_answers_def market_for_def
    by (auto simp: Let_def split: option.splits)
qed

lemma spot_loop:
  assumes "spot_answers L cache" and "foldl (spot_step (\<lambda>c a w. (w, L c a))) ((w, cache), done) rows = (st, out)"
  shows "\<exists>rows'. out = done @ rows' \<and> list_all2 (spot_row L) rows rows'"
  using assms
proof (induction rows arbitrary: w cache "done")
  case (Cons t rows)
  obtain w1 cache1 t' where step: "spot_step (\<lambda>c a w. (w, L c a)) ((w, cache), done) t = ((w1, cache1), done @ [t'])"
    and ok: "spot_answers L cache1" "spot_row L t t'"
  proof (cases "spot_key (i_payload t)")
    case None
    then show ?thesis using Cons.prems(1) by (intro that [of w cache t]) (simp_all add: spot_step_def spot_row_def)
  next
    case (Some k)
    obtain w1 cache1 m where f: "market_for (\<lambda>c a w. (w, L c a)) k (w, cache) = ((w1, cache1), m)"
      by (metis surj_pair)
    note a = market_for_answers [OF Cons.prems(1) f]
    have "spot_row L t (case m of None \<Rightarrow> t | Some m \<Rightarrow> t\<lparr>i_payload := market_row m (i_payload t)\<rparr>)"
      using a(2) Some unfolding spot_row_def by auto
    then show ?thesis using a(1) Some f
      by (intro that [of w1 cache1 "case m of None \<Rightarrow> t | Some m \<Rightarrow> t\<lparr>i_payload := market_row m (i_payload t)\<rparr>"])
        (simp_all add: spot_step_def split: option.splits)
  qed
  obtain rows' where "out = (done @ [t']) @ rows'" "list_all2 (spot_row L) rows rows'"
    using Cons.IH [OF ok(1), of w1 "done @ [t']"] Cons.prems(2) step by auto
  then show ?case using ok(2) by (intro exI [of _ "t' # rows'"]) simp
qed simp

lemma market_row_fields:
  "k \<notin> {''market_price_usd'', ''market_liquidity_usd'', ''classification'', ''confidence''} \<Longrightarrow> pget (market_row m p) k = pget p k"
  by (simp add: market_row_def Let_def)

lemma market_row_spam:
  assumes "pget (market_row m p) ''classification'' \<noteq> pget p ''classification''"
  shows "pget p ''classification'' = VStr ''RECEIVE''" "pget (market_row m p) ''classification'' = VStr ''SPAM''"
    "\<not> js_truthy (pget p ''group_id'')" "marketVerdict m = NoMarket"
  using assms by (auto simp: market_row_def Let_def split: if_splits)
lemma enrichSpot_rows:
  assumes "enrichSpot (\<lambda>c a w. (w, L c a)) rows w = (w', rows', e)"
  shows "e = None \<and> list_all2 (spot_row L) rows rows'"
proof -
  obtain st out where f: "foldl (spot_step (\<lambda>c a w. (w, L c a))) ((w, []), []) rows = (st, out)" by (metis surj_pair)
  have "spot_answers L []" by (simp add: spot_answers_def)
  from spot_loop [OF this f] have "list_all2 (spot_row L) rows out" by simp
  then show ?thesis using assms f by (cases st) (simp add: enrichSpot_def)
qed

text \<open>The dust gate. With the live order of the spot sources, DexScreener before CoinGecko before the dollar peg, the
  enrichment never fails, touches no field of a row but the two display prices, the classification and its
  confidence, and changes the classification only of an ungrouped receipt, to spam, and only when DexScreener
  answered for this contract and its answer holds no pair on the row's chain. A source that fails hides nothing.\<close>

theorem dust_needs_confirmation:
  assumes "enrichSpot (\<lambda>c a w. (w, fallbackLookup (dexLookup web) (geckoLookup key web) c a)) rows w = (w', rows', e)"
  shows "e = None \<and> length rows' = length rows \<and>
    (\<forall>i < length rows. \<forall>f. pget (i_payload (rows' ! i)) f = pget (i_payload (rows ! i)) f \<or>
       f \<in> {''market_price_usd'', ''market_liquidity_usd''} \<or>
       (f \<in> {''classification'', ''confidence''} \<and> pget (i_payload (rows ! i)) ''classification'' = VStr ''RECEIVE'' \<and>
        \<not> js_truthy (pget (i_payload (rows ! i)) ''group_id'') \<and> pget (i_payload (rows' ! i)) ''classification'' = VStr ''SPAM'' \<and>
        (\<exists>k c a. spot_key (i_payload (rows ! i)) = Some k \<and> market_cache_key (c, a) = market_cache_key k \<and> no_pair_confirmed web (c, a))))"
proof -
  define L where "L = fallbackLookup (dexLookup web) (geckoLookup key web)"
  have r: "e = None" "list_all2 (spot_row L) rows rows'"
    using enrichSpot_rows [of L rows w w' rows' e] assms by (simp_all add: L_def)
  have "pget (i_payload t') f = pget (i_payload t) f \<or> f \<in> {''market_price_usd'', ''market_liquidity_usd''} \<or>
      (f \<in> {''classification'', ''confidence''} \<and> pget (i_payload t) ''classification'' = VStr ''RECEIVE'' \<and>
       \<not> js_truthy (pget (i_payload t) ''group_id'') \<and> pget (i_payload t') ''classification'' = VStr ''SPAM'' \<and>
       (\<exists>k c a. spot_key (i_payload t) = Some k \<and> market_cache_key (c, a) = market_cache_key k \<and> no_pair_confirmed web (c, a)))"
    if row: "spot_row L t t'" for t t' f
  proof (cases "pget (i_payload t') f = pget (i_payload t) f \<or> f \<in> {''market_price_usd'', ''market_liquidity_usd''}")
    case False
    then obtain k m where k: "spot_key (i_payload t) = Some k" and m: "answered L (market_cache_key k) (Some m)"
      and t': "t' = t\<lparr>i_payload := market_row m (i_payload t)\<rparr>"
      using row by (auto simp: spot_row_def split: option.splits)
    have f: "f = ''classification'' \<or> f = ''confidence''" and changed: "pget (market_row m (i_payload t)) f \<noteq> pget (i_payload t) f"
      using False market_row_fields [of f m "i_payload t"] t' by auto
    have c: "pget (market_row m (i_payload t)) ''classification'' \<noteq> pget (i_payload t) ''classification''"
      using f changed by (auto simp: market_row_def Let_def split: if_splits)
    obtain ch a where a: "market_cache_key (ch, a) = market_cache_key k" "L ch a = Inr (Some m)"
    proof -
      obtain ch a where k: "market_cache_key (ch, a) = market_cache_key k" "(case L ch a of Inl _ \<Rightarrow> None | Inr m \<Rightarrow> m) = Some m"
        using m unfolding answered_def by blast
      have "L ch a = Inr (Some m)" using k(2) by (cases "L ch a") simp_all
      then show thesis by (rule that [OF k(1)])
    qed
    have "no_pair_confirmed web (ch, a)"
      using fallback_no_market [of web key ch a m] a(2) market_row_spam(4) [OF c] by (simp add: L_def)
    note spam = market_row_spam [OF c]
    have "\<exists>k c a. spot_key (i_payload t) = Some k \<and> market_cache_key (c, a) = market_cache_key k \<and> no_pair_confirmed web (c, a)"
      using k a(1) \<open>no_pair_confirmed web (ch, a)\<close> by blast
    moreover have "f \<in> {''classification'', ''confidence''}" using f by blast
    moreover have "pget (i_payload t') ''classification'' = VStr ''SPAM''" unfolding t' using spam(2) by simp
    ultimately show ?thesis using spam(1,3) by blast
  qed auto
  then show ?thesis using r by (auto simp: list_all2_conv_all_nth)
qed

text \<open>Two receipts: the market of the first token is asked and has no pair, the question about the second fails.\<close>

definition sample_web :: web where
  "sample_web url = (if url = ''https://api.dexscreener.com/latest/dex/tokens/0xdust''
     then Inr \<lparr>hr_status = 200, hr_body = Inr (VObj [(''pairs'', VNull)])\<rparr> else Inl ''timeout'')"

definition sample_receipt :: "string \<Rightarrow> indexed_transaction" where
  "sample_receipt contract = \<lparr>i_txHash = ''h'', i_chain = ''1'', i_eventType = ''CHAIN'', i_occurredAt = 0,
     i_payload = [(''asset_type'', VStr ''ERC20''), (''classification'', VStr ''RECEIVE''),
       (''asset_contract'', VStr contract), (''chain_id'', jint 1)]\<rparr>"

definition sample_spot :: "unit \<times> indexed_transaction list \<times> string option" where
  "sample_spot = enrichSpot (\<lambda>c a w. (w, fallbackLookup (dexLookup sample_web) (geckoLookup None sample_web) c a))
     [sample_receipt ''0xdust'', sample_receipt ''0xcoin''] ()"

theorem dust_needs_confirmation_witness:
  "map (\<lambda>t. pget (i_payload t) ''classification'') (fst (snd sample_spot)) = [VStr ''SPAM'', VStr ''RECEIVE''] \<and>
   pget (i_payload (fst (snd sample_spot) ! 0)) ''chain_id'' = pget (i_payload (sample_receipt ''0xdust'')) ''chain_id''"
proof
  have r: "enrichSpot (\<lambda>c a w. (w, fallbackLookup (dexLookup sample_web) (geckoLookup None sample_web) c a))
     [sample_receipt ''0xdust'', sample_receipt ''0xcoin''] () = (fst sample_spot, fst (snd sample_spot), snd (snd sample_spot))"
    by (simp only: sample_spot_def prod.collapse)
  show "map (\<lambda>t. pget (i_payload t) ''classification'') (fst (snd sample_spot)) = [VStr ''SPAM'', VStr ''RECEIVE'']" by code_simp
  show "pget (i_payload (fst (snd sample_spot) ! 0)) ''chain_id'' = pget (i_payload (sample_receipt ''0xdust'')) ''chain_id''"
    using dust_needs_confirmation [OF r, THEN conjunct2, THEN conjunct2, rule_format, of 0 "''chain_id''"] by simp
qed

section \<open>The tax basis\<close>

text \<open>What a lookup of a key asks the oracle about.\<close>

definition asked_as :: "price_key \<Rightarrow> string option \<Rightarrow> bool" where
  "asked_as k contract \<longleftrightarrow> (case contract of None \<Rightarrow> pk_assetKey k = ''native''
     | Some c \<Rightarrow> pk_assetKey k = toLowerCase c \<and> pk_assetKey k \<noteq> ''native'')"

text \<open>What the enrichment needs of the cache and the oracle: \<open>good key krw\<close> says that \<open>krw\<close> is a close of the key, the
  cache gives only such closes if it is given only such, and chains with one native coin have one close.\<close>

locale price_laws =
  fixes S :: "'w price_services" and sound :: "'w \<Rightarrow> bool" and good :: "string \<Rightarrow> string \<Rightarrow> bool"
  assumes get_good: "sound w \<Longrightarrow> cacheGet S k w = Inr (Some krw) \<Longrightarrow> good (historicalPriceKey k) krw"
    and put_sound: "sound w \<Longrightarrow> good (historicalPriceKey k) krw \<Longrightarrow> sound (fst (cachePut S k krw w))"
    and oracle_sound: "sound w \<Longrightarrow> sound (fst (oracleAt S c contract kind day w))"
    and oracle_good: "sound w \<Longrightarrow> asked_as k contract \<Longrightarrow> oracleAt S (pk_chainId k) contract kind (pk_date k) w = (w', Inr (Resolved krw)) \<Longrightarrow>
      good (historicalPriceKey k) krw"
    and coin_shared: "native_symbol a = Some s \<Longrightarrow> native_symbol b = Some s \<Longrightarrow> length day = 10 \<Longrightarrow>
      good (historicalPriceKey (native_key a day)) krw \<Longrightarrow> good (historicalPriceKey (native_key b day)) krw"
begin

definition close_ok :: "host \<Rightarrow> string \<Rightarrow> string \<Rightarrow> bool" where
  "close_ok H key krw \<longleftrightarrow> isFinitePositive H krw \<and> good key krw"

definition memo_sound :: "host \<Rightarrow> 'w price_state \<Rightarrow> bool" where
  "memo_sound H st \<longleftrightarrow> sound (pworld st) \<and> (\<forall>key krw. mget (pmemo st) key = Some (Some krw) \<longrightarrow> close_ok H key krw)"

lemma resolve_sound:
  assumes "sound (pworld st)" "asked_as k contract" "resolve_close H S k contract kind st = (st', r)"
  shows "sound (pworld st') \<and> pmemo st' = pmemo st \<and> (\<forall>krw. r = Some krw \<longrightarrow> close_ok H (historicalPriceKey k) krw)"
proof (cases "cacheGet S k (pworld st)")
  case (Inl m)
  then show ?thesis using assms by (simp add: resolve_close_def)
next
  case (Inr cached)
  show ?thesis
  proof (cases "usable H cached")
    case True
    then show ?thesis using assms Inr get_good by (auto simp: resolve_close_def usable_def close_ok_def split: option.splits)
  next
    case False
    obtain w a where o: "oracleAt S (pk_chainId k) contract kind (pk_date k) (pworld st) = (w, a)" by (cases "oracleAt S (pk_chainId k) contract kind (pk_date k) (pworld st)")
    have w: "sound w" using oracle_sound [OF assms(1)] o by (metis fst_conv)
    show ?thesis
    proof (cases a)
      case (Inl m)
      then show ?thesis using assms(3) \<open>cacheGet S k (pworld st) = Inr cached\<close> False o w by (auto simp: resolve_close_def)
    next
      case (Inr l)
      note c = \<open>cacheGet S k (pworld st) = Inr cached\<close>
      show ?thesis
      proof (cases l)
        case NoAnswer
        then show ?thesis using assms(3) c False o w Inr by (auto simp: resolve_close_def)
      next
        case Unlisted
        then show ?thesis using assms(3) c False o w Inr by (auto simp: resolve_close_def rememberUnlisted_def Let_def)
      next
        case (Resolved krw)
        show ?thesis
        proof (cases "isFinitePositive H krw")
          case False
          then show ?thesis using assms(3) c \<open>\<not> usable H cached\<close> o w Inr Resolved by (auto simp: resolve_close_def)
        next
          case True
          have g: "good (historicalPriceKey k) krw" using oracle_good [OF assms(1,2)] o Inr Resolved by simp
          obtain w2 e where p: "cachePut S k krw w = (w2, e)" by (cases "cachePut S k krw w")
          have w2: "sound w2" using put_sound [OF w g] p by (metis fst_conv)
          show ?thesis
            using assms(3) c \<open>\<not> usable H cached\<close> o w Inr Resolved True p w2 g get_good [OF w2, of k]
            by (auto simp: resolve_close_def usable_def close_ok_def split: option.splits sum.splits if_splits)
        qed
      qed
    qed
  qed
qed

lemma isUnlisted_keeps: "isUnlisted S c a st = (st', b) \<Longrightarrow> pworld st' = pworld st \<and> pmemo st' = pmemo st"
  by (auto simp: isUnlisted_def split: option.splits if_splits)

lemma memo_close_sound:
  assumes "memo_sound H st" "asked_as k contract" "memo_close H S k contract kind st = (st', r)"
  shows "memo_sound H st' \<and> (\<forall>krw. r = Some krw \<longrightarrow> close_ok H (historicalPriceKey k) krw)"
proof -
  obtain st1 gone where u: "isUnlisted S (pk_chainId k) (pk_assetKey k) st = (st1, gone)" by (cases "isUnlisted S (pk_chainId k) (pk_assetKey k) st")
  note keep = isUnlisted_keeps [OF u]
  obtain st2 r2 where r2: "(if gone then (st1, None) else resolve_close H S k contract kind st1) = (st2, r2)"
    by (cases "if gone then (st1, None) else resolve_close H S k contract kind st1")
  have "sound (pworld st2) \<and> pmemo st2 = pmemo st1 \<and> (\<forall>krw. r2 = Some krw \<longrightarrow> close_ok H (historicalPriceKey k) krw)"
  proof (cases gone)
    case True
    then show ?thesis using r2 assms(1) keep by (auto simp: memo_sound_def)
  next
    case False
    then show ?thesis using resolve_sound [of st1 k contract H kind st2 r2] r2 assms(1,2) keep by (simp add: memo_sound_def)
  qed
  moreover have "st' = st2\<lparr>pmemo := mput (historicalPriceKey k) r2 (pmemo st2)\<rparr>" "r = r2"
    using assms(3) u r2 by (auto simp: memo_close_def)
  ultimately show ?thesis using assms(1) keep by (auto simp: memo_sound_def map_of_update)
qed

lemma share_sound:
  assumes "memo_sound H st" "native_symbol c = Some s" "length day = 10" "close_ok H (historicalPriceKey (native_key c day)) krw"
  shows "memo_sound H (share_close S c s day krw st sibling)"
proof (cases "sibling = c \<or> native_symbol sibling \<noteq> Some s \<or> mhas (pmemo st) (historicalPriceKey (native_key sibling day))")
  case True
  then show ?thesis using assms(1) by (simp add: share_close_def Let_def)
next
  case False
  then have ok: "close_ok H (historicalPriceKey (native_key sibling day)) krw"
    using assms(2,3,4) coin_shared unfolding close_ok_def by blast
  obtain w e where p: "cachePut S (native_key sibling day) krw (pworld st) = (w, e)" by (cases "cachePut S (native_key sibling day) krw (pworld st)")
  have "sound w" using put_sound [of "pworld st" "native_key sibling day" krw] assms(1) ok p
    by (metis close_ok_def fst_conv memo_sound_def)
  then show ?thesis using False assms(1) ok p
    by (cases e) (auto simp: share_close_def Let_def memo_sound_def map_of_update)
qed

lemma warm_sound:
  assumes "memo_sound H st" "\<And>day. date = Some day \<Longrightarrow> length day = 10"
  shows "memo_sound H (warmNativeClose H S batch c date st)"
proof (cases "\<exists>day s. date = Some day \<and> num_fin c \<noteq> None \<and> native_symbol c = Some s \<and> \<not> mhas (pmemo st) (historicalPriceKey (native_key c day))")
  case True
  then obtain day s q where d: "date = Some day" "num_fin c = Some q" "native_symbol c = Some s" "\<not> mhas (pmemo st) (historicalPriceKey (native_key c day))"
    by auto
  obtain st1 r where m: "memo_close H S (native_key c day) None ''NATIVE'' st = (st1, r)" by (cases "memo_close H S (native_key c day) None ''NATIVE'' st")
  have "asked_as (native_key c day) None" by (simp add: asked_as_def native_key_def)
  from memo_close_sound [OF assms(1) this m]
  have ok: "memo_sound H st1" "\<And>krw. r = Some krw \<Longrightarrow> close_ok H (historicalPriceKey (native_key c day)) krw" by auto
  show ?thesis
  proof (cases r)
    case None
    then show ?thesis using d m ok by (simp add: warmNativeClose_def)
  next
    case (Some krw)
    have "memo_sound H (foldl (share_close S c s day krw) st1 batch)"
      by (rule foldl_preserves [where P = "memo_sound H"]) (use ok Some d(1,3) assms(2) in \<open>simp_all add: share_sound\<close>)
    then show ?thesis using d m Some by (simp add: warmNativeClose_def)
  qed
next
  case False
  then show ?thesis using assms(1) by (auto simp: warmNativeClose_def split: option.splits)
qed

end

lemma iso_day_length: "length (iso_day ms) = 10"
proof -
  have pad: "k \<le> length (pad_int k i)" for k i by (simp add: pad_int_def pad_left_def zeros_def)
  have year: "4 \<le> length (year_str y)" for y using pad [of 4 y] pad [of 6 "\<bar>y\<bar>"] by (simp add: year_str_def)
  obtain y m d where c: "civil (ms div 86400000) = (y, m, d)" by (metis surj_pair)
  have "10 \<le> length (toISOString ms)"
    using year [of y] pad [of 2 m] pad [of 2 d] by (simp add: toISOString_def c Let_def)
  then show ?thesis by (simp add: iso_day_def)
qed

lemma row_day_length: "row_day H t = Some day \<Longrightarrow> length day = 10"
  by (auto simp: row_day_def utcDayOf_def Let_def iso_day_length split: option.splits jsv.splits if_splits)

text \<open>What a row may become: priced rows stay, the rest is marked unknown, or resolved with quantity times close.\<close>

definition basis_row :: "host \<Rightarrow> (string \<Rightarrow> string \<Rightarrow> bool) \<Rightarrow> indexed_transaction \<Rightarrow> indexed_transaction \<Rightarrow> bool" where
  "basis_row H good t t' \<longleftrightarrow> (let p = i_payload t; p' = i_payload t' in
     t' = t\<lparr>i_payload := p'\<rparr> \<and>
     (if \<not> nullish (pget p ''fiat_value'') then p' = p
      else pget p' = (pget p)(''price_status'' := VStr ''UNKNOWN'') \<or>
        pget p ''classification'' \<noteq> VStr ''SPAM'' \<and>
        (\<exists>akey contract kind q day krw u. basis_asset p = Some (akey, contract, kind) \<and> basis_quantity H p = Some q \<and> 0 < q \<and>
           row_day H t = Some day \<and> good (historicalPriceKey \<lparr>pk_chainId = js_Number (pget p ''chain_id''), pk_assetKey = akey, pk_date = day\<rparr>) krw \<and>
           decNew H (VStr krw) = Some (DFin u) \<and> 0 < u \<and>
           pget p' = (pget p)(''fiat_value'' := VStr (fixed H (rmul H u q)), ''price_status'' := VStr ''RESOLVED''))))"

text \<open>No contract is called like the coin.\<close>

definition contract_ok :: "indexed_transaction \<Rightarrow> bool" where
  "contract_ok t \<longleftrightarrow> (case pget (i_payload t) ''asset_contract'' of VStr c \<Rightarrow> toLowerCase c \<noteq> ''native'' | _ \<Rightarrow> True)"

lemma pget_marked: "pget (pput ''price_status'' v p) = (pget p)(''price_status'' := v)"
  by (rule ext) simp

lemma basis_asset_marked: "basis_asset (pput ''price_status'' v p) = basis_asset p"
  by (simp add: basis_asset_def)

lemma basis_quantity_marked: "basis_quantity H (pput ''price_status'' v p) = basis_quantity H p"
  by (simp add: basis_quantity_def quantityOf_def)

lemma basis_asset_asked:
  assumes "basis_asset (i_payload t) = Some (akey, contract, kind)" "contract_ok t"
  shows "asked_as \<lparr>pk_chainId = c, pk_assetKey = akey, pk_date = d\<rparr> contract"
  using assms by (auto simp: basis_asset_def asked_as_def Let_def contract_ok_def endpointKind_def str_of_def
      split: option.splits endpoint.splits if_splits jsv.splits)

lemma apply_close_ok:
  assumes "isFinitePositive H krw"
  shows "\<exists>u. decNew H (VStr krw) = Some (DFin u) \<and> 0 < u \<and>
    apply_close H krw q p = (pput ''price_status'' (VStr ''RESOLVED'') (pput ''fiat_value'' (VStr (fixed H (rmul H u q))) p), None)"
  using assms by (auto simp: isFinitePositive_def apply_close_def split: option.splits decimal.splits)

context price_laws begin

lemma price_basis_sound:
  assumes "memo_sound H st" "contract_ok t" "row_day H t = date" "c = js_Number (pget (i_payload t) ''chain_id'')"
    and "nullish (pget (i_payload t) ''fiat_value'')" "pget (i_payload t) ''classification'' \<noteq> VStr ''SPAM''"
    and "price_basis H S c date (pput ''price_status'' (VStr ''UNKNOWN'') (i_payload t)) st = (st', p', e)"
  shows "memo_sound H st' \<and> e = None \<and> basis_row H good t (t\<lparr>i_payload := p'\<rparr>)"
proof -
  define p where "p = pput ''price_status'' (VStr ''UNKNOWN'') (i_payload t)"
  have unknown: "basis_row H good t (t\<lparr>i_payload := p\<rparr>)" using assms(5) by (simp add: basis_row_def Let_def p_def pget_marked)
  show ?thesis
  proof (cases "\<exists>akey contract kind q day. basis_asset p = Some (akey, contract, kind) \<and> basis_quantity H p = Some q \<and> date = Some day \<and> 0 < q")
    case False
    then have "(st', p', e) = (st, p, None)"
      using assms(7) unfolding p_def [symmetric] by (auto simp: price_basis_def not_less split: option.splits if_splits)
    then show ?thesis using assms(1) unknown by simp
  next
    case True
    then obtain akey contract kind q day where a: "basis_asset p = Some (akey, contract, kind)" "basis_quantity H p = Some q" "date = Some day" "0 < q"
      by blast
    define k where "k = \<lparr>pk_chainId = c, pk_assetKey = akey, pk_date = day\<rparr>"
    have asked: "asked_as k contract"
      unfolding k_def by (rule basis_asset_asked [OF _ assms(2)]) (use a(1) in \<open>simp add: p_def basis_asset_marked\<close>)
    obtain st2 r where r: "(case mget (pmemo st) (historicalPriceKey k) of Some unitKrw \<Rightarrow> (st, unitKrw) | None \<Rightarrow> memo_close H S k contract kind st) = (st2, r)"
      by (metis surj_pair)
    have ok: "memo_sound H st2 \<and> (\<forall>krw. r = Some krw \<longrightarrow> close_ok H (historicalPriceKey k) krw)"
    proof (cases "mget (pmemo st) (historicalPriceKey k)")
      case None
      then show ?thesis using memo_close_sound [OF assms(1) asked] r by simp
    next
      case (Some v)
      then show ?thesis using r assms(1) by (auto simp: memo_sound_def)
    qed
    have out: "(st', p', e) = (case r of None \<Rightarrow> (st2, p, None) | Some krw \<Rightarrow> (st2, apply_close H krw q p))"
      using assms(7) r a unfolding p_def [symmetric] price_basis_def by (simp add: k_def [symmetric] Let_def split: option.splits)
    show ?thesis
    proof (cases r)
      case None
      then show ?thesis using out ok unknown by simp
    next
      case (Some krw)
      then have good: "isFinitePositive H krw" "good (historicalPriceKey k) krw" using ok by (auto simp: close_ok_def)
      obtain u where u: "decNew H (VStr krw) = Some (DFin u)" "0 < u"
        "apply_close H krw q p = (pput ''price_status'' (VStr ''RESOLVED'') (pput ''fiat_value'' (VStr (fixed H (rmul H u q))) p), None)"
        using apply_close_ok [OF good(1), of q p] by blast
      have p': "st' = st2" "e = None" "pget p' = (pget (i_payload t))(''fiat_value'' := VStr (fixed H (rmul H u q)), ''price_status'' := VStr ''RESOLVED'')"
        using out Some u(3) by (auto simp: p_def intro!: ext)
      have "basis_row H good t (t\<lparr>i_payload := p'\<rparr>)"
        unfolding basis_row_def Let_def
        using assms(3,4,5,6) a good u(1,2) p'(3)
        by (simp add: p_def basis_asset_marked basis_quantity_marked k_def) blast
      then show ?thesis using p' ok by simp
    qed
  qed
qed

lemma enrich_row_sound:
  assumes "memo_sound H st" "contract_ok t" "enrich_row H S batch t st = (st', p', e)"
  shows "memo_sound H st' \<and> e = None \<and> basis_row H good t (t\<lparr>i_payload := p'\<rparr>)"
proof -
  define c where "c = js_Number (pget (i_payload t) ''chain_id'')"
  define st1 where "st1 = warmNativeClose H S batch c (row_day H t) st"
  have ok: "memo_sound H st1" unfolding st1_def by (rule warm_sound [OF assms(1) row_day_length])
  have row: "enrich_row H S batch t st =
      (if \<not> nullish (pget (i_payload t) ''fiat_value'') then (st1, i_payload t, None)
       else if pget (i_payload t) ''classification'' = VStr ''SPAM'' then (st1, pput ''price_status'' (VStr ''UNKNOWN'') (i_payload t), None)
       else price_basis H S c (row_day H t) (pput ''price_status'' (VStr ''UNKNOWN'') (i_payload t)) st1)"
    by (simp add: enrich_row_def Let_def c_def st1_def)
  show ?thesis
  proof (cases "\<not> nullish (pget (i_payload t) ''fiat_value'') \<or> pget (i_payload t) ''classification'' = VStr ''SPAM''")
    case True
    then show ?thesis using assms(3) row ok by (auto simp: basis_row_def Let_def pget_marked split: if_splits)
  next
    case False
    then show ?thesis using price_basis_sound [OF ok assms(2) refl c_def] assms(3) row by simp
  qed
qed

lemma enrich_rows_sound:
  assumes "memo_sound H st" "\<forall>t \<in> set rows. contract_ok t" "enrich_rows H S batch rows st = (st', rows', e)"
  shows "memo_sound H st' \<and> e = None \<and> list_all2 (basis_row H good) rows rows'"
  using assms
proof (induction rows arbitrary: st st' rows' e)
  case (Cons t ts)
  obtain st1 p' e1 where row: "enrich_row H S batch t st = (st1, p', e1)" by (metis surj_pair)
  have ok: "memo_sound H st1" "e1 = None" "basis_row H good t (t\<lparr>i_payload := p'\<rparr>)"
    using enrich_row_sound [OF Cons.prems(1) _ row] Cons.prems(2) by auto
  obtain st2 ts' e2 where rest: "enrich_rows H S batch ts st1 = (st2, ts', e2)" by (metis surj_pair)
  have "memo_sound H st2 \<and> e2 = None \<and> list_all2 (basis_row H good) ts ts'"
    by (rule Cons.IH [OF ok(1) _ rest]) (use Cons.prems(2) in simp)
  then show ?case using Cons.prems(3) row rest ok by auto
qed simp

lemma enrich_sound:
  assumes "sound (pworld st)" "\<forall>t \<in> set rows. contract_ok t" "enrichHistorical H S rows st = (st', rows', e)"
  shows "sound (pworld st') \<and> e = None \<and> list_all2 (basis_row H good) rows rows'"
  using enrich_rows_sound [of H "st\<lparr>pmemo := []\<rparr>" rows "batch_chains rows" st' rows' e] assms
  by (simp add: enrichHistorical_def memo_sound_def)

end

section \<open>The live oracle with the in-memory cache\<close>

text \<open>The services of a run at one time of the day, with one state of the web.\<close>

definition memory_prices :: "string option \<Rightarrow> int \<Rightarrow> int \<Rightarrow> web \<Rightarrow> price_store price_services" where
  "memory_prices demo days now web = \<lparr>cacheGet = \<lambda>k m. Inr (priceGet k m), cachePut = \<lambda>k krw m. (pricePut k krw m, None),
     oracleAt = \<lambda>c contract kind day m. (m, Inr (geckoPriceAt demo days now web c contract kind day)), priceClock = \<lambda>_. now\<rparr>"

text \<open>CoinGecko gives \<open>krw\<close> for the asset and the day of the key.\<close>

definition gecko_close :: "string option \<Rightarrow> int \<Rightarrow> int \<Rightarrow> web \<Rightarrow> string \<Rightarrow> string \<Rightarrow> bool" where
  "gecko_close demo days now web key krw \<longleftrightarrow> (\<exists>k contract kind. key = historicalPriceKey k \<and> asked_as k contract \<and>
     geckoPriceAt demo days now web (pk_chainId k) contract kind (pk_date k) = Resolved krw)"

lemma native_symbol_text: "native_symbol a = Some s \<Longrightarrow> \<exists>n. num_str a = int_str n \<and> nativeSymbolOf n = Some s"
proof -
  assume s: "native_symbol a = Some s"
  then obtain q where q: "a = JFin q" "is_integer q" "nativeSymbolOf \<lfloor>q\<rfloor> = Some s"
    by (auto simp: native_symbol_def split: jnum.splits if_splits)
  have "q = of_int \<lfloor>q\<rfloor>" using q(2) by (metis floor_of_int is_integer_def quotient_of_div[of q] div_by_1 of_int_1 prod.collapse)
  moreover have "\<lfloor>q\<rfloor> \<in> {1, 8453, 42161, 10, 137}"
    using q(3) by (auto simp: nativeSymbolOf_def CHAIN_REGISTRY_def split: if_splits)
  ultimately have "\<bar>q\<bar> < 10 ^ 21" by auto
  then show ?thesis using q by (auto simp: num_str_def)
qed

lemma coin_of_symbol: "nativeSymbolOf n = Some s \<Longrightarrow> nativeSymbolOf m = Some s \<Longrightarrow>
    \<exists>i j coin. mget CHAIN_COINGECKO (int_str n) = Some (i, coin) \<and> mget CHAIN_COINGECKO (int_str m) = Some (j, coin)"
proof -
  have e: "int_str 1 = ''1''" "int_str 8453 = ''8453''" "int_str 42161 = ''42161''" "int_str 10 = ''10''" "int_str 137 = ''137''"
    by code_simp+
  assume "nativeSymbolOf n = Some s" "nativeSymbolOf m = Some s"
  then show ?thesis
    by (auto simp: nativeSymbolOf_def CHAIN_REGISTRY_def CHAIN_COINGECKO_def e split: if_splits)
qed

lemma gecko_resolved:
  assumes "geckoPriceAt demo days now web c contract kind day = Resolved krw"
  shows "num_str c \<in> fst ` set CHAIN_COINGECKO" "length day = 10"
  using assms by (auto simp: geckoPriceAt_def dayWindow_def day_numbers_def dest!: map_of_SomeD
      split: option.splits if_splits prod.splits) force+

lemma chain_text_prefix:
  assumes "c \<in> fst ` set CHAIN_COINGECKO" "c' \<in> fst ` set CHAIN_COINGECKO" "c @ CHR '':'' # x = c' @ CHR '':'' # y"
  shows "c = c' \<and> x = y"
  using assms by (auto simp: CHAIN_COINGECKO_def)

lemma gecko_native_shared:
  assumes "native_symbol a = Some s" "native_symbol b = Some s" "length day = 10"
    and "gecko_close demo days now web (historicalPriceKey (native_key a day)) krw"
  shows "gecko_close demo days now web (historicalPriceKey (native_key b day)) krw"
proof -
  obtain n m where n: "num_str a = int_str n" "nativeSymbolOf n = Some s" and m: "num_str b = int_str m" "nativeSymbolOf m = Some s"
    using native_symbol_text assms(1,2) by blast
  obtain i j coin where coin: "mget CHAIN_COINGECKO (num_str a) = Some (i, coin)" "mget CHAIN_COINGECKO (num_str b) = Some (j, coin)"
    using coin_of_symbol [OF n(2) m(2)] by (auto simp: n m)
  obtain k contract kind where k: "historicalPriceKey (native_key a day) = historicalPriceKey k" "asked_as k contract"
    and r: "geckoPriceAt demo days now web (pk_chainId k) contract kind (pk_date k) = Resolved krw"
    using assms(4) unfolding gecko_close_def by blast
  have "num_str a \<in> fst ` set CHAIN_COINGECKO" using coin(1) by (metis dom_map_of_conv_image_fst domI)
  from chain_text_prefix [OF this gecko_resolved(1) [OF r]] k(1)
  have eq: "num_str a = num_str (pk_chainId k)" "''native:'' @ day = pk_assetKey k @ '':'' @ pk_date k"
    by (simp_all add: historicalPriceKey_def native_key_def)
  have "''native'' @ CHR '':'' # day = pk_assetKey k @ CHR '':'' # pk_date k" using eq(2) by simp
  moreover have "length (CHR '':'' # day) = length (CHR '':'' # pk_date k)" using gecko_resolved(2) [OF r] assms(3) by simp
  ultimately have "''native'' = pk_assetKey k" "CHR '':'' # day = CHR '':'' # pk_date k"
    using append_eq_append_conv [of "''native''" "pk_assetKey k" "CHR '':'' # day" "CHR '':'' # pk_date k"] by blast+
  then have "day = pk_date k" "pk_assetKey k = ''native''" by simp_all
  then have none: "contract = None" using k(2) by (auto simp: asked_as_def split: option.splits)
  have "geckoPriceAt demo days now web b None kind day = geckoPriceAt demo days now web (pk_chainId k) None kind day"
  proof -
    have "endpointKind kind None = Some NativeEndpoint \<or> endpointKind kind None = None" by (simp add: endpointKind_def)
    then show ?thesis using coin eq(1)
      by (auto simp: geckoPriceAt_def close_url_def Let_def split: option.splits)
  qed
  then have "geckoPriceAt demo days now web b None kind day = Resolved krw" using r none \<open>day = pk_date k\<close> by simp
  then show ?thesis unfolding gecko_close_def
    by (intro exI [of _ "native_key b day"] exI [of _ None] exI [of _ kind]) (simp add: asked_as_def native_key_def)
qed

definition all_good :: "(string \<Rightarrow> string \<Rightarrow> bool) \<Rightarrow> price_store \<Rightarrow> bool" where
  "all_good good m \<longleftrightarrow> (\<forall>key krw. mget m key = Some krw \<longrightarrow> good key krw)"

interpretation gecko: price_laws "memory_prices demo days now web" "all_good (gecko_close demo days now web)" "gecko_close demo days now web"
  for demo days now web
proof unfold_locales
  fix w w' k krw c contract kind day a b s
  show "all_good (gecko_close demo days now web) w \<Longrightarrow> cacheGet (memory_prices demo days now web) k w = Inr (Some krw) \<Longrightarrow>
      gecko_close demo days now web (historicalPriceKey k) krw"
    by (simp add: memory_prices_def priceGet_def all_good_def)
  show "all_good (gecko_close demo days now web) w \<Longrightarrow> gecko_close demo days now web (historicalPriceKey k) krw \<Longrightarrow>
      all_good (gecko_close demo days now web) (fst (cachePut (memory_prices demo days now web) k krw w))"
    by (simp add: memory_prices_def pricePut_def all_good_def map_of_update)
  show "all_good (gecko_close demo days now web) w \<Longrightarrow>
      all_good (gecko_close demo days now web) (fst (oracleAt (memory_prices demo days now web) c contract kind day w))"
    by (simp add: memory_prices_def)
  show "all_good (gecko_close demo days now web) w \<Longrightarrow> asked_as k contract \<Longrightarrow>
      oracleAt (memory_prices demo days now web) (pk_chainId k) contract kind (pk_date k) w = (w', Inr (Resolved krw)) \<Longrightarrow>
      gecko_close demo days now web (historicalPriceKey k) krw"
    unfolding gecko_close_def by (intro exI [of _ k] exI [of _ contract] exI [of _ kind]) (simp add: memory_prices_def)
  show "native_symbol a = Some s \<Longrightarrow> native_symbol b = Some s \<Longrightarrow> length day = 10 \<Longrightarrow>
      gecko_close demo days now web (historicalPriceKey (native_key a day)) krw \<Longrightarrow>
      gecko_close demo days now web (historicalPriceKey (native_key b day)) krw"
    by (rule gecko_native_shared)
qed

text \<open>C28. A tax basis is never guessed. When the cache starts with closes that CoinGecko gives, then after the enrichment
  it still holds only such closes, and every row either had a value and is untouched, or is marked unknown with
  nothing else changed, or is no spam and has the rounded product of its quantity and the close that CoinGecko gives
  for its asset on its day. The enrichment never fails.\<close>

theorem basis_never_guessed:
  assumes "all_good (gecko_close demo days now web) (pworld st)" and "\<forall>t \<in> set rows. contract_ok t"
    and "enrichHistorical H (memory_prices demo days now web) rows st = (st', rows', e)"
  shows "e = None \<and> list_all2 (basis_row H (gecko_close demo days now web)) rows rows' \<and>
    all_good (gecko_close demo days now web) (pworld st')"
  using gecko.enrich_sound [OF assms] by blast

text \<open>A payment of two tokens on a day on which CoinGecko closes the token at 1500, and knows nothing of the coin.\<close>

definition close_web :: web where
  "close_web url = (if url = ''https://api.coingecko.com/api/v3/coins/ethereum/contract/0xcoin/market_chart/range?vs_currency=krw&from=1704067200&to=1704153600''
     then Inr \<lparr>hr_status = 200, hr_body = Inr (VObj [(''prices'', VArr [VArr [jint 1704067200000, jint 1500]])])\<rparr>
     else Inl ''timeout'')"

definition priced_row :: indexed_transaction where
  "priced_row = \<lparr>i_txHash = ''h'', i_chain = ''1'', i_eventType = ''CHAIN'', i_occurredAt = 1704067200000,
     i_payload = [(''asset_type'', VStr ''ERC20''), (''classification'', VStr ''TRANSFER''), (''raw_amount'', VStr ''2''),
       (''asset_contract'', VStr ''0xCoin''), (''chain_id'', jint 1), (''fiat_value'', VNull)]\<rparr>"

definition fresh_prices :: "price_store price_state" where
  "fresh_prices = \<lparr>pworld = [], unlisted = [], pmemo = []\<rparr>"

definition priced_batch :: "price_store price_state \<times> indexed_transaction list \<times> string option" where
  "priced_batch = enrichHistorical std_host (memory_prices (Some ''k'') 0 1704200000000 close_web) [priced_row] fresh_prices"

theorem basis_never_guessed_witness:
  "map (\<lambda>t. pget (i_payload t) ''fiat_value'') (fst (snd priced_batch)) = [VStr ''3000''] \<and>
   pworld (fst priced_batch) \<noteq> [] \<and> all_good (gecko_close (Some ''k'') 0 1704200000000 close_web) (pworld (fst priced_batch))"
proof (intro conjI)
  have r: "enrichHistorical std_host (memory_prices (Some ''k'') 0 1704200000000 close_web) [priced_row] fresh_prices =
      (fst priced_batch, fst (snd priced_batch), snd (snd priced_batch))"
    by (simp only: priced_batch_def prod.collapse)
  have "all_good (gecko_close (Some ''k'') 0 1704200000000 close_web) (pworld fresh_prices)" by (simp add: fresh_prices_def all_good_def)
  moreover have "\<forall>t \<in> set [priced_row]. contract_ok t" by (simp, code_simp)
  ultimately show "all_good (gecko_close (Some ''k'') 0 1704200000000 close_web) (pworld (fst priced_batch))"
    using basis_never_guessed [OF _ _ r] by blast
  show "map (\<lambda>t. pget (i_payload t) ''fiat_value'') (fst (snd priced_batch)) = [VStr ''3000'']" by code_simp
  show "pworld (fst priced_batch) \<noteq> []" by code_simp
qed

section \<open>How often the oracle is asked\<close>

text \<open>The same services, with the keys the oracle is asked for written down.\<close>

definition asked_key :: "jnum \<Rightarrow> string option \<Rightarrow> string \<Rightarrow> string" where
  "asked_key c contract day = historicalPriceKey \<lparr>pk_chainId = c,
     pk_assetKey = (case contract of None \<Rightarrow> ''native'' | Some a \<Rightarrow> toLowerCase a), pk_date = day\<rparr>"

definition logged :: "'w price_services \<Rightarrow> ('w \<times> string list) price_services" where
  "logged S = \<lparr>cacheGet = \<lambda>k (w, l). cacheGet S k w,
     cachePut = \<lambda>k krw (w, l). case cachePut S k krw w of (w', e) \<Rightarrow> ((w', l), e),
     oracleAt = \<lambda>c contract kind day (w, l). case oracleAt S c contract kind day w of (w', r) \<Rightarrow> ((w', l @ [asked_key c contract day]), r),
     priceClock = \<lambda>(w, l). priceClock S w\<rparr>"

definition asked_ok :: "('w \<times> string list) price_state \<Rightarrow> bool" where
  "asked_ok st \<longleftrightarrow> distinct (snd (pworld st)) \<and> set (snd (pworld st)) \<subseteq> fst ` set (pmemo st)"

lemma logged_simps [simp]:
  "cacheGet (logged S) k (w, l) = cacheGet S k w"
  "cachePut (logged S) k krw (w, l) = ((fst (cachePut S k krw w), l), snd (cachePut S k krw w))"
  "oracleAt (logged S) c contract kind day (w, l) =
    ((fst (oracleAt S c contract kind day w), l @ [asked_key c contract day]), snd (oracleAt S c contract kind day w))"
  by (simp_all add: logged_def split: prod.splits)

lemma resolve_asks:
  assumes "asked_key (pk_chainId k) contract (pk_date k) = historicalPriceKey k"
    and "resolve_close H (logged S) k contract kind st = (st', r)"
  shows "pmemo st' = pmemo st \<and> (snd (pworld st') = snd (pworld st) \<or> snd (pworld st') = snd (pworld st) @ [historicalPriceKey k])"
proof -
  obtain w l where w: "pworld st = (w, l)" by (cases "pworld st")
  obtain w1 a where o: "oracleAt S (pk_chainId k) contract kind (pk_date k) w = (w1, a)" by (cases "oracleAt S (pk_chainId k) contract kind (pk_date k) w")
  show ?thesis
    using assms w o
    by (auto simp: resolve_close_def rememberUnlisted_def Let_def split: sum.splits historical_lookup.splits option.splits if_splits prod.splits)
qed

lemma memo_close_asks:
  assumes "asked_ok st" "\<not> mhas (pmemo st) (historicalPriceKey k)" "asked_key (pk_chainId k) contract (pk_date k) = historicalPriceKey k"
    and "memo_close H (logged S) k contract kind st = (st', r)"
  shows "asked_ok st'"
proof -
  obtain st1 gone where u: "isUnlisted (logged S) (pk_chainId k) (pk_assetKey k) st = (st1, gone)"
    by (cases "isUnlisted (logged S) (pk_chainId k) (pk_assetKey k) st")
  have keep: "pworld st1 = pworld st" "pmemo st1 = pmemo st"
    using u by (auto simp: isUnlisted_def split: option.splits if_splits)
  obtain st2 r2 where r2: "(if gone then (st1, None) else resolve_close H (logged S) k contract kind st1) = (st2, r2)"
    by (cases "if gone then (st1, None) else resolve_close H (logged S) k contract kind st1")
  have step: "pmemo st2 = pmemo st \<and> (snd (pworld st2) = snd (pworld st) \<or> snd (pworld st2) = snd (pworld st) @ [historicalPriceKey k])"
  proof (cases gone)
    case True
    then show ?thesis using r2 keep by auto
  next
    case False
    then show ?thesis using resolve_asks [OF assms(3), of H S kind st1 st2 r2] r2 keep by simp
  qed
  have "st' = st2\<lparr>pmemo := mput (historicalPriceKey k) r2 (pmemo st2)\<rparr>" using assms(4) u r2 by (auto simp: memo_close_def)
  moreover have "historicalPriceKey k \<notin> fst ` set (pmemo st)" using assms(2) by (simp add: map_of_eq_None_iff)
  ultimately show ?thesis using assms(1) step by (auto simp: asked_ok_def dom_update)
qed

lemma share_asks: "asked_ok st \<Longrightarrow> asked_ok (share_close (logged S) c s day krw st sibling)"
proof -
  assume ok: "asked_ok st"
  obtain w l where "pworld st = (w, l)" by (cases "pworld st")
  then show ?thesis using ok by (auto simp: share_close_def Let_def asked_ok_def dom_update split: option.splits prod.splits)
qed

lemma warm_asks:
  assumes "asked_ok st"
  shows "asked_ok (warmNativeClose H (logged S) batch c date st)"
proof (cases "\<exists>day s. date = Some day \<and> num_fin c \<noteq> None \<and> native_symbol c = Some s \<and> \<not> mhas (pmemo st) (historicalPriceKey (native_key c day))")
  case True
  then obtain day s q where d: "date = Some day" "num_fin c = Some q" "native_symbol c = Some s" "\<not> mhas (pmemo st) (historicalPriceKey (native_key c day))"
    by auto
  obtain st1 r where m: "memo_close H (logged S) (native_key c day) None ''NATIVE'' st = (st1, r)"
    by (cases "memo_close H (logged S) (native_key c day) None ''NATIVE'' st")
  have ok: "asked_ok st1" by (rule memo_close_asks [OF assms d(4) _ m]) (simp add: asked_key_def native_key_def)
  have "asked_ok (foldl (share_close (logged S) c s day krw) st1 batch)" for krw
    by (rule foldl_preserves [where P = asked_ok]) (simp_all add: ok share_asks)
  then show ?thesis using d m ok by (cases r) (simp_all add: warmNativeClose_def)
next
  case False
  then show ?thesis using assms by (auto simp: warmNativeClose_def split: option.splits)
qed

lemma basis_asset_key: "basis_asset p = Some (akey, contract, kind) \<Longrightarrow>
    asked_key c contract d = historicalPriceKey \<lparr>pk_chainId = c, pk_assetKey = akey, pk_date = d\<rparr>"
  by (auto simp: basis_asset_def asked_key_def Let_def endpointKind_def split: option.splits endpoint.splits if_splits)

lemma price_basis_asks:
  assumes "asked_ok st" "price_basis H (logged S) c date p st = (st', p', e)"
  shows "asked_ok st'"
proof (cases "\<exists>akey contract kind q day. basis_asset p = Some (akey, contract, kind) \<and> basis_quantity H p = Some q \<and> date = Some day \<and> 0 < q")
  case False
  then show ?thesis using assms by (auto simp: price_basis_def not_less split: option.splits if_splits)
next
  case True
  then obtain akey contract kind q day where a: "basis_asset p = Some (akey, contract, kind)" "basis_quantity H p = Some q" "date = Some day" "0 < q"
    by blast
  define k where "k = \<lparr>pk_chainId = c, pk_assetKey = akey, pk_date = day\<rparr>"
  obtain st2 r where r: "(case mget (pmemo st) (historicalPriceKey k) of Some unitKrw \<Rightarrow> (st, unitKrw) | None \<Rightarrow> memo_close H (logged S) k contract kind st) = (st2, r)"
    by (metis surj_pair)
  have "asked_ok st2"
  proof (cases "mget (pmemo st) (historicalPriceKey k)")
    case None
    then show ?thesis using memo_close_asks [OF assms(1), of k contract H S kind st2 r] r basis_asset_key [OF a(1), of c day] by (simp add: k_def)
  next
    case (Some v)
    then show ?thesis using r assms(1) by simp
  qed
  moreover have "st' = st2"
    using assms(2) r a unfolding price_basis_def by (simp add: k_def [symmetric] Let_def split: option.splits)
  ultimately show ?thesis by simp
qed

lemma enrich_rows_asks:
  assumes "asked_ok st" "enrich_rows H (logged S) batch rows st = (st', rows', e)"
  shows "asked_ok st'"
  using assms
proof (induction rows arbitrary: st st' rows' e)
  case (Cons t ts)
  obtain st1 p' e1 where row: "enrich_row H (logged S) batch t st = (st1, p', e1)" by (metis surj_pair)
  have ok: "asked_ok st1"
    using row warm_asks [OF Cons.prems(1), of H S batch "js_Number (pget (i_payload t) ''chain_id'')" "row_day H t"]
    by (auto simp: enrich_row_def Let_def price_basis_asks split: if_splits)
  show ?case
  proof (cases e1)
    case None
    obtain st2 ts' e2 where rest: "enrich_rows H (logged S) batch ts st1 = (st2, ts', e2)" by (metis surj_pair)
    then show ?thesis using Cons.IH [OF ok rest] Cons.prems(2) row None by simp
  next
    case (Some m)
    then show ?thesis using Cons.prems(2) row ok by simp
  qed
qed simp

text \<open>Whatever the cache and the oracle do, one batch asks the oracle at most once for an asset and a day, the
  coin of a chain for its gas fees included.\<close>

theorem asked_once:
  assumes "enrichHistorical H (logged S) rows st = (st', rows', e)" and "snd (pworld st) = []"
  shows "distinct (snd (pworld st'))"
proof -
  have "asked_ok (st\<lparr>pmemo := []\<rparr>)" using assms(2) by (simp add: asked_ok_def)
  from enrich_rows_asks [OF this] show ?thesis using assms(1) by (simp add: enrichHistorical_def asked_ok_def)
qed

definition asked_batch :: "(price_store \<times> string list) price_state \<times> indexed_transaction list \<times> string option" where
  "asked_batch = enrichHistorical std_host (logged (memory_prices (Some ''k'') 0 1704200000000 close_web)) [priced_row, priced_row]
     \<lparr>pworld = ([], []), unlisted = [], pmemo = []\<rparr>"

theorem asked_once_witness:
  "snd (pworld (fst asked_batch)) = [''1:native:2024-01-01'', ''1:0xcoin:2024-01-01''] \<and> distinct (snd (pworld (fst asked_batch)))"
proof
  show "snd (pworld (fst asked_batch)) = [''1:native:2024-01-01'', ''1:0xcoin:2024-01-01'']" by code_simp
  have r: "enrichHistorical std_host (logged (memory_prices (Some ''k'') 0 1704200000000 close_web)) [priced_row, priced_row]
     \<lparr>pworld = ([], []), unlisted = [], pmemo = []\<rparr> = (fst asked_batch, fst (snd asked_batch), snd (snd asked_batch))"
    by (simp only: asked_batch_def prod.collapse)
  show "distinct (snd (pworld (fst asked_batch)))" using asked_once [OF r] by simp
qed

end
