(* ===== verification/Backfill_Properties.thy ===== *)
theory Backfill_Properties
  imports Backfill Prices_Properties
begin

text \<open>
  The backfill returns, never makes more calls in a minute than its budget, writes only valid closes, and a second
  run asks only for what the first could not resolve. The scan of the ledger is complete whatever the page size.
\<close>

section \<open>The environment\<close>

text \<open>What the run needs of the clock and of the cache: \<open>time\<close> is the real time of a world, the clock shows one between
  before and after it is read, a sleep takes at least as long as asked; \<open>stored\<close> is what the cache holds, a successful
  write sets its key or finds it set, and a failed one changes nothing.\<close>

locale backfill_env =
  fixes B :: "'w backfill_services" and time :: "'w \<Rightarrow> int" and stored :: "'w \<Rightarrow> string \<Rightarrow> string option"
  assumes clock_reads: "readClock B w = (w', t) \<Longrightarrow> time w \<le> t \<and> t \<le> time w' \<and> stored w' = stored w"
    and sleep_lasts: "0 < d \<Longrightarrow> time w + d \<le> time (sleepFor B d w) \<and> stored (sleepFor B d w) = stored w"
    and ask_reads: "askOracle B c day w = (w', r) \<Longrightarrow> time w \<le> time w' \<and> stored w' = stored w"
    and store_sets: "storeClose B k krw w = (w', None) \<Longrightarrow>
      \<exists>v. stored w' = (stored w)(historicalPriceKey k := Some v) \<and> (v = krw \<or> stored w (historicalPriceKey k) = Some v)"
    and store_fails: "storeClose B k krw w = (w', Some msg) \<Longrightarrow> stored w' = stored w"
    and store_time: "storeClose B k krw w = (w', e) \<Longrightarrow> time w \<le> time w'"
    and probe_reads: "probeCache B ks w = Inr m \<Longrightarrow> k \<in> set ks \<Longrightarrow> mget m (historicalPriceKey k) = stored w (historicalPriceKey k)"
begin

text \<open>What the throttle gives back: it drops calls that are a minute old and adds the new one.\<close>

definition throttled :: "nat \<Rightarrow> int list \<Rightarrow> 'w \<Rightarrow> (int list \<times> int \<times> 'w) option \<Rightarrow> bool" where
  "throttled cpm recent w r \<longleftrightarrow> (\<exists>old kept now w'. r = Some (kept @ [now], now, w') \<and> recent = old @ kept \<and> length kept < cpm \<and>
     (\<forall>c \<in> set old. c \<le> now - WINDOW_MS) \<and> time w \<le> now \<and> now \<le> time w' \<and> stored w' = stored w)"

lemma throttle_pass:
  assumes "readClock B w = (w1, now)" "\<not> length (dropWhile (\<lambda>c. c \<le> now - WINDOW_MS) recent) < cpm" "0 < cpm"
  obtains c rest w2 where "dropWhile (\<lambda>c. c \<le> now - WINDOW_MS) recent = c # rest"
    "throttle B cpm recent w = throttle B cpm (c # rest) w2" "c + WINDOW_MS \<le> time w2" "time w \<le> time w2" "stored w2 = stored w"
proof -
  define kept where "kept = dropWhile (\<lambda>c. c \<le> now - WINDOW_MS) recent"
  then have "\<not> length kept < cpm" using assms(2) by simp
  then have "0 < length kept" using assms(3) by linarith
  then obtain c rest where k: "kept = c # rest" by (cases kept) auto
  then have "\<not> c \<le> now - WINDOW_MS" using hd_dropWhile [of "\<lambda>c. c \<le> now - WINDOW_MS" recent] by (simp add: kept_def)
  then have d: "0 < c - (now - WINDOW_MS)" by simp
  note s = sleep_lasts [OF d, of w1] and r = clock_reads [OF assms(1)]
  show thesis
  proof (rule that [of c rest "sleepFor B (c - (now - WINDOW_MS)) w1"])
    show "dropWhile (\<lambda>c. c \<le> now - WINDOW_MS) recent = c # rest" using k by (simp add: kept_def)
    show "throttle B cpm recent w = throttle B cpm (c # rest) (sleepFor B (c - (now - WINDOW_MS)) w1)"
      using assms(1,2) k unfolding kept_def by (subst throttle.simps) (simp add: Let_def)
    show "c + WINDOW_MS \<le> time (sleepFor B (c - (now - WINDOW_MS)) w1)" "time w \<le> time (sleepFor B (c - (now - WINDOW_MS)) w1)"
      using s r d by linarith+
    show "stored (sleepFor B (c - (now - WINDOW_MS)) w1) = stored w" using s r by simp
  qed
qed

lemma throttle_stop:
  assumes "readClock B w = (w1, now)" "length (dropWhile (\<lambda>c. c \<le> now - WINDOW_MS) recent) < cpm"
  shows "throttled cpm recent w (throttle B cpm recent w)"
proof -
  obtain w2 now2 where r2: "readClock B w1 = (w2, now2)" by (cases "readClock B w1")
  note a = clock_reads [OF assms(1)] and b = clock_reads [OF r2]
  have old: "c \<le> now2 - WINDOW_MS" if "c \<in> set (takeWhile (\<lambda>c. c \<le> now - WINDOW_MS) recent)" for c
    using set_takeWhileD [OF that] a b by linarith
  show ?thesis
    unfolding throttled_def
  proof (intro exI conjI)
    show "throttle B cpm recent w = Some (dropWhile (\<lambda>c. c \<le> now - WINDOW_MS) recent @ [now2], now2, w2)"
      using assms r2 by (subst throttle.simps) (simp add: Let_def)
    show "recent = takeWhile (\<lambda>c. c \<le> now - WINDOW_MS) recent @ dropWhile (\<lambda>c. c \<le> now - WINDOW_MS) recent" by simp
  qed (use assms(2) old a b in auto)
qed

lemma throttled_extend:
  assumes "throttled cpm kept w2 r" "recent = old @ kept" "\<forall>c \<in> set old. c \<le> time w2 - WINDOW_MS" "time w \<le> time w2" "stored w2 = stored w"
  shows "throttled cpm recent w r"
proof -
  obtain old' kept' now w' where t: "r = Some (kept' @ [now], now, w')" "kept = old' @ kept'" "length kept' < cpm"
      "\<forall>c \<in> set old'. c \<le> now - WINDOW_MS" "time w2 \<le> now" "now \<le> time w'" "stored w' = stored w2"
    using assms(1) unfolding throttled_def by blast
  have "\<forall>c \<in> set (old @ old'). c \<le> now - WINDOW_MS" using assms(3) t(4,5) by fastforce
  then show ?thesis
    unfolding throttled_def using t assms(2,4,5)
    by (intro exI [of _ "old @ old'"] exI [of _ kept'] exI [of _ now] exI [of _ w']) auto
qed

text \<open>Once the oldest call is a minute old, every pass drops one.\<close>

lemma throttle_returns_expired:
  assumes "0 < cpm" "recent = [] \<or> hd recent \<le> time w - WINDOW_MS"
  shows "throttled cpm recent w (throttle B cpm recent w)"
  using assms(2)
proof (induction recent arbitrary: w rule: length_induct)
  case (1 recent)
  obtain w1 now where r: "readClock B w = (w1, now)" by (cases "readClock B w")
  show ?case
  proof (cases "length (dropWhile (\<lambda>c. c \<le> now - WINDOW_MS) recent) < cpm")
    case True
    then show ?thesis by (rule throttle_stop [OF r])
  next
    case False
    then obtain c rest w2 where p: "dropWhile (\<lambda>c. c \<le> now - WINDOW_MS) recent = c # rest"
        "throttle B cpm recent w = throttle B cpm (c # rest) w2" "c + WINDOW_MS \<le> time w2" "time w \<le> time w2" "stored w2 = stored w"
      using throttle_pass [OF r _ assms(1)] by metis
    have "recent \<noteq> []" using p(1) by auto
    then obtain a as where recent: "recent = a # as" by (cases recent) auto
    have "a \<le> now - WINDOW_MS" using "1.prems" clock_reads [OF r] by (simp add: recent)
    then have shorter: "length (c # rest) < length recent"
      using p(1) length_dropWhile_le [of "\<lambda>c. c \<le> now - WINDOW_MS" as] by (simp add: recent)
    have t: "throttled cpm (c # rest) w2 (throttle B cpm (c # rest) w2)"
      by (rule "1.IH" [rule_format, OF shorter]) (use p(3) in simp)
    have "\<not> c \<le> now - WINDOW_MS" using p(1) hd_dropWhile [of "\<lambda>c. c \<le> now - WINDOW_MS" recent] by simp
    then have "\<forall>x \<in> set (takeWhile (\<lambda>c. c \<le> now - WINDOW_MS) recent). x \<le> time w2 - WINDOW_MS"
      using p(3) set_takeWhileD [of _ "\<lambda>c. c \<le> now - WINDOW_MS" recent] by (fastforce simp: WINDOW_MS_def)
    then show ?thesis unfolding p(2)
      by (rule throttled_extend [OF t, rotated]) (use p in \<open>simp_all flip: p(1)\<close>)
  qed
qed

lemma throttle_returns:
  assumes "0 < cpm"
  shows "throttled cpm recent w (throttle B cpm recent w)"
proof -
  obtain w1 now where r: "readClock B w = (w1, now)" by (cases "readClock B w")
  show ?thesis
  proof (cases "length (dropWhile (\<lambda>c. c \<le> now - WINDOW_MS) recent) < cpm")
    case True
    then show ?thesis by (rule throttle_stop [OF r])
  next
    case False
    then obtain c rest w2 where p: "dropWhile (\<lambda>c. c \<le> now - WINDOW_MS) recent = c # rest"
        "throttle B cpm recent w = throttle B cpm (c # rest) w2" "c + WINDOW_MS \<le> time w2" "time w \<le> time w2" "stored w2 = stored w"
      using throttle_pass [OF r _ assms] by metis
    have t: "throttled cpm (c # rest) w2 (throttle B cpm (c # rest) w2)"
      by (rule throttle_returns_expired [OF assms]) (use p(3) in simp)
    have "\<not> c \<le> now - WINDOW_MS" using p(1) hd_dropWhile [of "\<lambda>c. c \<le> now - WINDOW_MS" recent] by simp
    then have "\<forall>x \<in> set (takeWhile (\<lambda>c. c \<le> now - WINDOW_MS) recent). x \<le> time w2 - WINDOW_MS"
      using p(3) set_takeWhileD [of _ "\<lambda>c. c \<le> now - WINDOW_MS" recent] by (fastforce simp: WINDOW_MS_def)
    then show ?thesis unfolding p(2)
      by (rule throttled_extend [OF t, rotated]) (use p in \<open>simp_all flip: p(1)\<close>)
  qed
qed

end

section \<open>A minute's budget\<close>

definition spaced :: "nat \<Rightarrow> int list \<Rightarrow> bool" where
  "spaced n ts \<longleftrightarrow> (\<forall>i. i + n < length ts \<longrightarrow> ts ! i + WINDOW_MS \<le> ts ! (i + n))"

lemma spaced_snoc: "spaced n ts \<Longrightarrow> (n \<le> length ts \<Longrightarrow> 0 < n \<Longrightarrow> ts ! (length ts - n) + WINDOW_MS \<le> t) \<Longrightarrow> 0 < n \<Longrightarrow> spaced n (ts @ [t])"
  unfolding spaced_def
proof (intro allI impI)
  fix i
  assume s: "\<forall>i. i + n < length ts \<longrightarrow> ts ! i + WINDOW_MS \<le> ts ! (i + n)" and l: "n \<le> length ts \<Longrightarrow> 0 < n \<Longrightarrow> ts ! (length ts - n) + WINDOW_MS \<le> t"
    and n: "0 < n" and i: "i + n < length (ts @ [t])"
  show "(ts @ [t]) ! i + WINDOW_MS \<le> (ts @ [t]) ! (i + n)"
  proof (cases "i + n < length ts")
    case True
    then show ?thesis using s by (simp add: nth_append)
  next
    case False
    then have "i + n = length ts" using i by simp
    then have "i = length ts - n" "n \<le> length ts" by simp_all
    then show ?thesis using l n \<open>i + n = length ts\<close> by (simp add: nth_append)
  qed
qed

text \<open>Sorted and spaced call times leave at most \<open>n\<close> calls in every minute.\<close>

lemma spaced_window:
  assumes "sorted ts" "spaced n ts" "0 < n"
  shows "length (filter (\<lambda>c. t < c \<and> c \<le> t + WINDOW_MS) ts) \<le> n"
proof (rule ccontr)
  define I where "I = {i. i < length ts \<and> t < ts ! i \<and> ts ! i \<le> t + WINDOW_MS}"
  assume "\<not> length (filter (\<lambda>c. t < c \<and> c \<le> t + WINDOW_MS) ts) \<le> n"
  then have card: "n < card I" unfolding I_def by (simp add: length_filter_conv_card)
  have fin: "finite I" by (simp add: I_def)
  then have ne: "I \<noteq> {}" using card by auto
  have "I \<subseteq> {Min I..Max I}" using fin by auto
  then have "card I \<le> Suc (Max I) - Min I" using card_mono [of "{Min I..Max I}" I] by simp
  then have far: "Min I + n \<le> Max I" using card by linarith
  have lo: "t < ts ! Min I" "Min I < length ts" and hi: "ts ! Max I \<le> t + WINDOW_MS" "Max I < length ts"
    using Min_in [OF fin ne] Max_in [OF fin ne] by (auto simp: I_def)
  have "ts ! Min I + WINDOW_MS \<le> ts ! (Min I + n)" using assms(2) far hi(2) by (simp add: spaced_def)
  also have "\<dots> \<le> ts ! Max I" using assms(1) far hi(2) by (simp add: sorted_nth_mono)
  finally show False using lo hi by linarith
qed

section \<open>One combo\<close>

text \<open>What is valid in a cache stays valid, and what is new in it is valid.\<close>

definition grown :: "host \<Rightarrow> (string \<Rightarrow> string option) \<Rightarrow> (string \<Rightarrow> string option) \<Rightarrow> bool" where
  "grown H f g \<longleftrightarrow> (\<forall>key. (usable H (f key) \<longrightarrow> usable H (g key)) \<and> (g key \<noteq> f key \<longrightarrow> usable H (g key)))"

lemma grown_refl [simp]: "grown H f f"
  by (simp add: grown_def)

lemma grown_trans: "grown H f g \<Longrightarrow> grown H g h \<Longrightarrow> grown H f h"
  by (auto simp: grown_def) metis

definition covered :: "host \<Rightarrow> (string \<Rightarrow> string option) \<Rightarrow> combo \<Rightarrow> bool" where
  "covered H f c \<longleftrightarrow> (\<exists>k \<in> set (co_keys c). usable H (f (historicalPriceKey k)))"

lemma covered_grown: "covered H f c \<Longrightarrow> grown H f g \<Longrightarrow> covered H g c"
  by (auto simp: covered_def grown_def)

context backfill_env begin

definition window_ok :: "nat \<Rightarrow> 'w backfill_state \<Rightarrow> bool" where
  "window_ok cpm st \<longleftrightarrow> (\<exists>old. callTimes st = old @ recentCalls st \<and> (\<forall>c \<in> set old. c \<le> time (bworld st) - WINDOW_MS)) \<and>
     sorted (callTimes st) \<and> (\<forall>c \<in> set (callTimes st). c \<le> time (bworld st)) \<and> spaced cpm (callTimes st) \<and>
     length (callTimes st) = oracleCalls st"

lemma put_keeps:
  fixes st :: "'w backfill_state"
  assumes "isFinitePositive H krw"
  shows "time (bworld st) \<le> time (bworld (put_close B krw st k))"
    "grown H (stored (bworld st)) (stored (bworld (put_close B krw st k)))"
    "callTimes (put_close B krw st k) = callTimes st" "recentCalls (put_close B krw st k) = recentCalls st"
    "oracleCalls (put_close B krw st k) = oracleCalls st" "resolvedCombos (put_close B krw st k) = resolvedCombos st"
    "unresolvedCombos (put_close B krw st k) = unresolvedCombos st"
proof -
  obtain w e where p: "storeClose B k krw (bworld st) = (w, e)" by (cases "storeClose B k krw (bworld st)")
  show "time (bworld st) \<le> time (bworld (put_close B krw st k))"
    using store_time [OF p] p by (simp add: put_close_def split: option.splits)
  show "grown H (stored (bworld st)) (stored (bworld (put_close B krw st k)))"
  proof (cases e)
    case None
    then obtain v where "stored w = (stored (bworld st))(historicalPriceKey k := Some v)" "v = krw \<or> stored (bworld st) (historicalPriceKey k) = Some v"
      using store_sets [of k krw "bworld st" w] p by auto
    then show ?thesis using assms p None by (auto simp: put_close_def grown_def usable_def)
  next
    case (Some m)
    then show ?thesis using store_fails [of k krw "bworld st" w m] p by (simp add: put_close_def)
  qed
qed (auto simp: put_close_def split: prod.splits option.splits)

lemma puts_keep:
  fixes st :: "'w backfill_state"
  assumes "isFinitePositive H krw"
  shows "time (bworld st) \<le> time (bworld (foldl (put_close B krw) st ks)) \<and>
    grown H (stored (bworld st)) (stored (bworld (foldl (put_close B krw) st ks))) \<and>
    callTimes (foldl (put_close B krw) st ks) = callTimes st \<and> recentCalls (foldl (put_close B krw) st ks) = recentCalls st \<and>
    oracleCalls (foldl (put_close B krw) st ks) = oracleCalls st \<and> resolvedCombos (foldl (put_close B krw) st ks) = resolvedCombos st \<and>
    unresolvedCombos (foldl (put_close B krw) st ks) = unresolvedCombos st"
proof (induction ks arbitrary: st)
  case (Cons k ks)
  show ?case using Cons.IH [of "put_close B krw st k"] put_keeps [OF assms, of st k] by (auto intro: grown_trans)
qed simp

lemma window_ok_later:
  "window_ok cpm st \<Longrightarrow> callTimes st' = callTimes st \<Longrightarrow> recentCalls st' = recentCalls st \<Longrightarrow> oracleCalls st' = oracleCalls st \<Longrightarrow>
    time (bworld st) \<le> time (bworld st') \<Longrightarrow> window_ok cpm st'"
  by (fastforce simp: window_ok_def)

lemma window_ok_call:
  assumes "0 < cpm" "window_ok cpm st" "throttled cpm (recentCalls st) (bworld st) (Some (recent, now, w))"
  shows "window_ok cpm (st\<lparr>bworld := w, recentCalls := recent, callTimes := callTimes st @ [now], oracleCalls := oracleCalls st + 1\<rparr>)"
proof -
  obtain old kept where t: "recent = kept @ [now]" "recentCalls st = old @ kept" "length kept < cpm"
      "\<forall>c \<in> set old. c \<le> now - WINDOW_MS" "time (bworld st) \<le> now" "now \<le> time w"
    using assms(3) unfolding throttled_def by auto
  obtain older where o: "callTimes st = older @ recentCalls st" "\<forall>c \<in> set older. c \<le> time (bworld st) - WINDOW_MS"
    using assms(2) unfolding window_ok_def by blast
  have split: "callTimes st = (older @ old) @ kept" using o(1) t(2) by simp
  have gone: "\<forall>c \<in> set (older @ old). c \<le> now - WINDOW_MS" using o(2) t(4,5) by fastforce
  have "spaced cpm (callTimes st @ [now])"
  proof (rule spaced_snoc)
    show "spaced cpm (callTimes st)" using assms(2) by (simp add: window_ok_def)
    assume n: "cpm \<le> length (callTimes st)"
    then have i: "length (callTimes st) - cpm < length (older @ old)" using t(3) split by simp
    have "(xs @ ys) ! j \<in> set xs" if "j < length xs" for j and xs ys :: "int list" using that by (simp add: nth_append)
    from this [OF i, of kept, folded split] have "callTimes st ! (length (callTimes st) - cpm) \<in> set (older @ old)" .
    then show "callTimes st ! (length (callTimes st) - cpm) + WINDOW_MS \<le> now" using gone by fastforce
  qed (rule assms(1))
  moreover have "sorted (callTimes st @ [now])" using assms(2) t(5) by (fastforce simp: window_ok_def sorted_append)
  moreover have "\<forall>c \<in> set (callTimes st @ [now]). c \<le> time w" using assms(2) t(5,6) by (fastforce simp: window_ok_def)
  moreover have "\<forall>c \<in> set (older @ old). c \<le> time w - WINDOW_MS" using gone t(6) by fastforce
  ultimately show ?thesis
    using split t(1) assms(2) unfolding window_ok_def by (auto intro!: exI [of _ "older @ old"])
qed

text \<open>What one combo does: a call within the budget, and one more resolved or unresolved combo.\<close>

lemma fill_combo_ok:
  assumes "0 < cpm" "window_ok cpm st"
  obtains st' where "fill_combo H B cpm c st = Some st'" "window_ok cpm st'" "grown H (stored (bworld st)) (stored (bworld st'))"
    "oracleCalls st' = oracleCalls st + 1"
    "resolvedCombos st' = resolvedCombos st \<and> unresolvedCombos st' = unresolvedCombos st + 1 \<or>
     resolvedCombos st' = resolvedCombos st + 1 \<and> unresolvedCombos st' = unresolvedCombos st \<and>
     (\<exists>krw st0. isFinitePositive H krw \<and> stored (bworld st0) = stored (bworld st) \<and> st' = foldl (put_close B krw) st0 (co_keys c))"
proof -
  have "throttled cpm (recentCalls st) (bworld st) (throttle B cpm (recentCalls st) (bworld st))" by (rule throttle_returns [OF assms(1)])
  then obtain recent now w where t: "throttle B cpm (recentCalls st) (bworld st) = Some (recent, now, w)"
      "throttled cpm (recentCalls st) (bworld st) (Some (recent, now, w))" "stored w = stored (bworld st)"
    unfolding throttled_def by auto
  define st1 where "st1 = st\<lparr>bworld := w, recentCalls := recent, callTimes := callTimes st @ [now], oracleCalls := oracleCalls st + 1\<rparr>"
  have ok1: "window_ok cpm st1" unfolding st1_def by (rule window_ok_call [OF assms t(2)])
  obtain w2 r where l: "backfill_lookup H B c w = (w2, r)" by (cases "backfill_lookup H B c w")
  obtain w3 a where q: "askOracle B (pk_chainId (hd (co_keys c))) (co_date c) w = (w3, a)" by (cases "askOracle B (pk_chainId (hd (co_keys c))) (co_date c) w")
  have w2: "w2 = w3" and good: "\<And>krw. r = Some krw \<Longrightarrow> isFinitePositive H krw"
    using l q by (auto simp: backfill_lookup_def split: sum.splits historical_lookup.splits if_splits)
  have later: "time w \<le> time w2" "stored w2 = stored w" using ask_reads [OF q] w2 by simp_all
  have f: "fill_combo H B cpm c st = (case r of None \<Rightarrow> Some (st1\<lparr>bworld := w2, unresolvedCombos := unresolvedCombos st1 + 1\<rparr>)
      | Some krw \<Rightarrow> Some (foldl (put_close B krw) (st1\<lparr>bworld := w2, resolvedCombos := resolvedCombos st1 + 1\<rparr>) (co_keys c)))"
    using t(1) l by (simp add: fill_combo_def st1_def Let_def split: option.splits)
  show thesis
  proof (cases r)
    case None
    show thesis
    proof (rule that)
      show "fill_combo H B cpm c st = Some (st1\<lparr>bworld := w2, unresolvedCombos := unresolvedCombos st1 + 1\<rparr>)" using f None by simp
      show "window_ok cpm (st1\<lparr>bworld := w2, unresolvedCombos := unresolvedCombos st1 + 1\<rparr>)"
        by (rule window_ok_later [OF ok1]) (simp_all add: st1_def later)
    qed (simp_all add: st1_def later t(3))
  next
    case (Some krw)
    define st2 where "st2 = st1\<lparr>bworld := w2, resolvedCombos := resolvedCombos st1 + 1\<rparr>"
    note p = puts_keep [OF good [OF Some], of st2 "co_keys c"]
    have ok2: "window_ok cpm st2" by (rule window_ok_later [OF ok1]) (simp_all add: st2_def st1_def later)
    show thesis
    proof (rule that)
      show "fill_combo H B cpm c st = Some (foldl (put_close B krw) st2 (co_keys c))" using f Some by (simp add: st2_def)
      show "window_ok cpm (foldl (put_close B krw) st2 (co_keys c))" by (rule window_ok_later [OF ok2]) (use p in simp_all)
      show "grown H (stored (bworld st)) (stored (bworld (foldl (put_close B krw) st2 (co_keys c))))"
        using p by (simp add: st2_def later t(3))
      have "\<exists>krw' st0. isFinitePositive H krw' \<and> stored (bworld st0) = stored (bworld st) \<and>
          foldl (put_close B krw) st2 (co_keys c) = foldl (put_close B krw') st0 (co_keys c)"
        by (intro exI [of _ krw] exI [of _ st2]) (use good [OF Some] in \<open>simp add: st2_def later t(3)\<close>)
      moreover have "resolvedCombos st2 = resolvedCombos st + 1" "unresolvedCombos st2 = unresolvedCombos st"
        by (simp_all add: st2_def st1_def)
      ultimately
      show "resolvedCombos (foldl (put_close B krw) st2 (co_keys c)) = resolvedCombos st \<and>
          unresolvedCombos (foldl (put_close B krw) st2 (co_keys c)) = unresolvedCombos st + 1 \<or>
        resolvedCombos (foldl (put_close B krw) st2 (co_keys c)) = resolvedCombos st + 1 \<and>
          unresolvedCombos (foldl (put_close B krw) st2 (co_keys c)) = unresolvedCombos st \<and>
        (\<exists>krw' st0. isFinitePositive H krw' \<and> stored (bworld st0) = stored (bworld st) \<and>
          foldl (put_close B krw) st2 (co_keys c) = foldl (put_close B krw') st0 (co_keys c))"
        using p by simp
    qed (use p in \<open>simp add: st2_def st1_def\<close>)
  qed
qed

end

section \<open>The whole run\<close>

text \<open>No write fails.\<close>

definition puts_succeed :: "'w backfill_services \<Rightarrow> bool" where
  "puts_succeed B \<longleftrightarrow> (\<forall>k krw w. snd (storeClose B k krw w) = None)"

definition missing_in :: "host \<Rightarrow> (string \<Rightarrow> string option) \<Rightarrow> combo list \<Rightarrow> combo list" where
  "missing_in H f cs = filter (\<lambda>c. \<not> covered H f c) cs"

lemma missing_grown: "grown H f g \<Longrightarrow> length (missing_in H g cs) \<le> length (missing_in H f cs)"
  unfolding missing_in_def by (induction cs) (auto dest: covered_grown)

context backfill_env begin

lemma puts_cover:
  fixes st :: "'w backfill_state"
  assumes "isFinitePositive H krw" "puts_succeed B" "k \<in> set ks" "\<forall>key v. stored (bworld st) key = Some v \<longrightarrow> isFinitePositive H v"
  shows "usable H (stored (bworld (foldl (put_close B krw) st ks)) (historicalPriceKey k))"
  using assms(3,4)
proof (induction ks arbitrary: st)
  case (Cons a ks)
  obtain w where p: "storeClose B a krw (bworld st) = (w, None)"
    using assms(2) unfolding puts_succeed_def by (metis prod.collapse)
  obtain v where v: "stored w = (stored (bworld st))(historicalPriceKey a := Some v)" "v = krw \<or> stored (bworld st) (historicalPriceKey a) = Some v"
    using store_sets [OF p] by blast
  have put: "bworld (put_close B krw st a) = w" using p by (simp add: put_close_def)
  have valid: "isFinitePositive H v" using v(2) assms(1) Cons.prems(2) by blast
  have all: "\<forall>key v. stored (bworld (put_close B krw st a)) key = Some v \<longrightarrow> isFinitePositive H v"
    using v(1) valid Cons.prems(2) by (simp add: put)
  show ?case
  proof (cases "k \<in> set ks")
    case True
    then show ?thesis using Cons.IH [OF True all] by simp
  next
    case False
    then have "usable H (stored (bworld (put_close B krw st a)) (historicalPriceKey k))"
      using Cons.prems(1) v(1) valid by (simp add: put usable_def)
    then show ?thesis
      using puts_keep [OF assms(1), of "put_close B krw st a" ks] by (auto simp: grown_def)
  qed
qed simp

lemma fill_combos_ok:
  assumes "0 < cpm" "window_ok cpm st"
  shows "\<exists>st'. fill_combos H B cpm cs st = Some st' \<and> window_ok cpm st' \<and> grown H (stored (bworld st)) (stored (bworld st')) \<and>
    oracleCalls st' = oracleCalls st + length cs \<and>
    resolvedCombos st' + unresolvedCombos st' = resolvedCombos st + unresolvedCombos st + length cs \<and> unresolvedCombos st \<le> unresolvedCombos st' \<and>
    (puts_succeed B \<and> (\<forall>key v. stored (bworld st) key = Some v \<longrightarrow> isFinitePositive H v) \<and> (\<forall>c \<in> set cs. co_keys c \<noteq> []) \<longrightarrow>
       length (missing_in H (stored (bworld st')) cs) \<le> unresolvedCombos st' - unresolvedCombos st)"
  using assms(2)
proof (induction cs arbitrary: st)
  case Nil
  then show ?case by (simp add: missing_in_def)
next
  case (Cons c cs)
  obtain st1 where f: "fill_combo H B cpm c st = Some st1" "window_ok cpm st1" "grown H (stored (bworld st)) (stored (bworld st1))"
    "oracleCalls st1 = oracleCalls st + 1"
    "resolvedCombos st1 = resolvedCombos st \<and> unresolvedCombos st1 = unresolvedCombos st + 1 \<or>
     resolvedCombos st1 = resolvedCombos st + 1 \<and> unresolvedCombos st1 = unresolvedCombos st \<and>
     (\<exists>krw st0. isFinitePositive H krw \<and> stored (bworld st0) = stored (bworld st) \<and> st1 = foldl (put_close B krw) st0 (co_keys c))"
    by (rule fill_combo_ok [OF assms(1) Cons.prems])
  obtain st2 where g: "fill_combos H B cpm cs st1 = Some st2" "window_ok cpm st2" "grown H (stored (bworld st1)) (stored (bworld st2))"
    "oracleCalls st2 = oracleCalls st1 + length cs"
    "resolvedCombos st2 + unresolvedCombos st2 = resolvedCombos st1 + unresolvedCombos st1 + length cs" "unresolvedCombos st1 \<le> unresolvedCombos st2"
    "puts_succeed B \<and> (\<forall>key v. stored (bworld st1) key = Some v \<longrightarrow> isFinitePositive H v) \<and> (\<forall>c \<in> set cs. co_keys c \<noteq> []) \<longrightarrow>
       length (missing_in H (stored (bworld st2)) cs) \<le> unresolvedCombos st2 - unresolvedCombos st1"
    using Cons.IH [OF f(2)] by blast
  show ?case
  proof (intro exI [of _ st2] conjI impI)
    show "fill_combos H B cpm (c # cs) st = Some st2" using f(1) g(1) by simp
    show "window_ok cpm st2" by (rule g(2))
    show "grown H (stored (bworld st)) (stored (bworld st2))" by (rule grown_trans [OF f(3) g(3)])
    show "oracleCalls st2 = oracleCalls st + length (c # cs)" using f(4) g(4) by simp
    show "resolvedCombos st2 + unresolvedCombos st2 = resolvedCombos st + unresolvedCombos st + length (c # cs)" using f(5) g(5) by auto
    show "unresolvedCombos st \<le> unresolvedCombos st2" using f(5) g(6) by auto
  next
    assume h: "puts_succeed B \<and> (\<forall>key v. stored (bworld st) key = Some v \<longrightarrow> isFinitePositive H v) \<and> (\<forall>c \<in> set (c # cs). co_keys c \<noteq> [])"
    have all: "\<forall>key v. stored (bworld st1) key = Some v \<longrightarrow> isFinitePositive H v"
    proof (intro allI impI)
      fix key v assume v: "stored (bworld st1) key = Some v"
      show "isFinitePositive H v"
      proof (cases "stored (bworld st1) key = stored (bworld st) key")
        case True
        then show ?thesis using v h by simp
      next
        case False
        then have "usable H (stored (bworld st1) key)" using f(3) by (simp add: grown_def)
        then show ?thesis using v by (simp add: usable_def)
      qed
    qed
    then have rest: "length (missing_in H (stored (bworld st2)) cs) \<le> unresolvedCombos st2 - unresolvedCombos st1" using g(7) h by simp
    show "length (missing_in H (stored (bworld st2)) (c # cs)) \<le> unresolvedCombos st2 - unresolvedCombos st"
    proof (cases "unresolvedCombos st1 = unresolvedCombos st + 1")
      case True
      have "length (missing_in H (stored (bworld st2)) (c # cs)) \<le> Suc (length (missing_in H (stored (bworld st2)) cs))"
        by (simp add: missing_in_def)
      then show ?thesis using rest g(6) True by linarith
    next
      case False
      then have same: "unresolvedCombos st1 = unresolvedCombos st" using f(5) by auto
      have "covered H (stored (bworld st2)) c"
      proof (rule covered_grown [OF _ g(3)])
        obtain krw st0 where r: "isFinitePositive H krw" "stored (bworld st0) = stored (bworld st)" "st1 = foldl (put_close B krw) st0 (co_keys c)"
          using f(5) False by blast
        have k: "hd (co_keys c) \<in> set (co_keys c)" using h by simp
        have "usable H (stored (bworld st1) (historicalPriceKey (hd (co_keys c))))"
          unfolding r(3) by (rule puts_cover [OF r(1) _ k]) (use h r(2) in simp_all)
        then show "covered H (stored (bworld st1)) c" using k by (auto simp: covered_def)
      qed
      then show ?thesis using rest same by (simp add: missing_in_def)
    qed
  qed
qed

end

lemma combo_keys: "c \<in> set (mvalues (cs_combos (group_days H days))) \<Longrightarrow> co_keys c \<noteq> []"
proof -
  have "\<forall>c \<in> set (mvalues (cs_combos (group_days H days))). co_keys c \<noteq> []"
    unfolding group_days_def
  proof (rule foldl_preserves [where P = "\<lambda>s. \<forall>c \<in> set (mvalues (cs_combos s)). co_keys c \<noteq> []"])
    fix s :: combo_scan and cd
    assume ok: "\<forall>c \<in> set (mvalues (cs_combos s)). co_keys c \<noteq> []"
    have sub: "set (mvalues (mput key v m)) \<subseteq> insert v (set (mvalues m))" for key v and m :: "(string, combo) jmap"
      using set_update_subset [of key v m] by force
    show "\<forall>c \<in> set (mvalues (cs_combos (combo_step H s cd))). co_keys c \<noteq> []"
    proof (cases "cs_combos (combo_step H s cd) = cs_combos s")
      case False
      then obtain key v where "cs_combos (combo_step H s cd) = mput key v (cs_combos s)" "co_keys v \<noteq> []"
        by (auto simp: combo_step_def Let_def split: option.splits if_splits)
      then show ?thesis using ok sub [of key v "cs_combos s"] by (metis insert_iff subsetD)
    qed (use ok in simp)
  qed simp
  then show "c \<in> set (mvalues (cs_combos (group_days H days))) \<Longrightarrow> co_keys c \<noteq> []" by blast
qed

lemma known_close_valid: "known_close H cached c = Some krw \<Longrightarrow> isFinitePositive H krw"
  by (auto simp: known_close_def find_Some_iff)

lemma known_close_covered:
  assumes "\<And>k. k \<in> set (co_keys c) \<Longrightarrow> mget cached (historicalPriceKey k) = f (historicalPriceKey k)"
  shows "known_close H cached c = None \<longleftrightarrow> \<not> covered H f c"
  using assms by (force simp: known_close_def find_None_iff covered_def usable_def map_filter_def split: option.splits)

lemma pending_missing:
  assumes "\<And>c k. c \<in> set cs \<Longrightarrow> k \<in> set (co_keys c) \<Longrightarrow> mget cached (historicalPriceKey k) = f (historicalPriceKey k)"
  shows "pending_of H cached cs = missing_in H f cs"
  unfolding pending_of_def missing_in_def by (rule filter_cong) (simp_all add: assms known_close_covered)

lemma copies_valid: "(k, krw) \<in> set (copies_of H cached cs) \<Longrightarrow> isFinitePositive H krw"
  by (auto simp: copies_of_def known_close_valid split: option.splits)

context backfill_env begin

lemma copies_keep:
  fixes st :: "'w backfill_state"
  assumes "\<forall>(k, krw) \<in> set cs. isFinitePositive H krw" "window_ok cpm st"
  shows "window_ok cpm (foldl (\<lambda>st (k, krw). put_close B krw st k) st cs) \<and>
    grown H (stored (bworld st)) (stored (bworld (foldl (\<lambda>st (k, krw). put_close B krw st k) st cs))) \<and>
    oracleCalls (foldl (\<lambda>st (k, krw). put_close B krw st k) st cs) = oracleCalls st \<and>
    resolvedCombos (foldl (\<lambda>st (k, krw). put_close B krw st k) st cs) = resolvedCombos st \<and>
    unresolvedCombos (foldl (\<lambda>st (k, krw). put_close B krw st k) st cs) = unresolvedCombos st"
  using assms
proof (induction cs arbitrary: st)
  case (Cons x cs)
  obtain k krw where x: "x = (k, krw)" by (cases x)
  have good: "isFinitePositive H krw" using Cons.prems(1) x by simp
  note p = put_keeps [OF good, of st k]
  have "window_ok cpm (put_close B krw st k)" by (rule window_ok_later [OF Cons.prems(2)]) (use p in simp_all)
  then show ?case using Cons.IH [of "put_close B krw st k"] Cons.prems(1) p x by (auto intro: grown_trans)
qed simp

text \<open>A run on a cache that answers its probe: the state after the copies and the calls.\<close>

lemma run_live:
  assumes "0 < cpm" "probeCache B (concat (map co_keys (mvalues (cs_combos (group_days H days))))) w = Inr cached"
  defines "combos \<equiv> mvalues (cs_combos (group_days H days))"
  shows "\<exists>st. backfill_run H B cpm False days [] w = Some (st, Inr (backfill_report (group_days H days) (length (missing_in H (stored w) combos)) cpm False st)) \<and>
    window_ok cpm st \<and> grown H (stored w) (stored (bworld st)) \<and> oracleCalls st = length (missing_in H (stored w) combos) \<and>
    resolvedCombos st + unresolvedCombos st = length (missing_in H (stored w) combos) \<and>
    (puts_succeed B \<and> (\<forall>key v. stored w key = Some v \<longrightarrow> isFinitePositive H v) \<longrightarrow>
       length (missing_in H (stored (bworld st)) combos) \<le> unresolvedCombos st)"
proof -
  define st0 where "st0 = \<lparr>bworld = w, recentCalls = [], callTimes = [], oracleCalls = 0, cachePuts = 0, resolvedCombos = 0, unresolvedCombos = 0\<rparr>"
  have ok0: "window_ok cpm st0" by (simp add: window_ok_def st0_def spaced_def)
  have pend: "pending_of H cached combos = missing_in H (stored w) combos"
    by (rule pending_missing) (rule probe_reads [OF assms(2)], auto simp: combos_def)
  define st1 where "st1 = foldl (\<lambda>st (k, krw). put_close B krw st k) st0 (copies_of H cached combos)"
  have valid: "\<forall>(k, krw) \<in> set (copies_of H cached combos). isFinitePositive H krw" using copies_valid by blast
  have c: "window_ok cpm st1" "grown H (stored w) (stored (bworld st1))" "oracleCalls st1 = 0" "resolvedCombos st1 = 0" "unresolvedCombos st1 = 0"
    using copies_keep [OF valid ok0] by (simp_all add: st1_def [symmetric]) (simp_all add: st0_def)
  obtain st where f: "fill_combos H B cpm (missing_in H (stored w) combos) st1 = Some st" "window_ok cpm st"
      "grown H (stored (bworld st1)) (stored (bworld st))" "oracleCalls st = oracleCalls st1 + length (missing_in H (stored w) combos)"
      "resolvedCombos st + unresolvedCombos st = resolvedCombos st1 + unresolvedCombos st1 + length (missing_in H (stored w) combos)"
      "puts_succeed B \<and> (\<forall>key v. stored (bworld st1) key = Some v \<longrightarrow> isFinitePositive H v) \<and> (\<forall>c \<in> set (missing_in H (stored w) combos). co_keys c \<noteq> []) \<longrightarrow>
       length (missing_in H (stored (bworld st)) (missing_in H (stored w) combos)) \<le> unresolvedCombos st - unresolvedCombos st1"
    using fill_combos_ok [OF assms(1) c(1)] by blast
  note g = grown_trans [OF c(2) f(3)]
  have left: "missing_in H (stored (bworld st)) (missing_in H (stored w) combos) = missing_in H (stored (bworld st)) combos"
    unfolding missing_in_def filter_filter by (rule filter_cong [OF refl]) (use covered_grown [OF _ g] in blast)
  have "length (missing_in H (stored (bworld st)) combos) \<le> unresolvedCombos st"
    if h: "puts_succeed B" "\<forall>key v. stored w key = Some v \<longrightarrow> isFinitePositive H v"
  proof -
    have "isFinitePositive H v" if v: "stored (bworld st1) key = Some v" for key v
    proof (cases "stored (bworld st1) key = stored w key")
      case True
      then show ?thesis using v h(2) by simp
    next
      case False
      then have "usable H (stored (bworld st1) key)" using c(2) by (simp add: grown_def)
      then show ?thesis using v by (simp add: usable_def)
    qed
    moreover have "\<forall>c \<in> set (missing_in H (stored w) combos). co_keys c \<noteq> []" using combo_keys [of _ H days] by (simp add: missing_in_def combos_def)
    ultimately show ?thesis using f(6) h(1) c(5) left by simp
  qed
  moreover have "backfill_run H B cpm False days [] w = Some (st, Inr (backfill_report (group_days H days) (length (missing_in H (stored w) combos)) cpm False st))"
    using f(1) unfolding backfill_run_def Let_def assms(2) [unfolded combos_def [symmetric]] st0_def [symmetric] combos_def [symmetric]
    by (simp only: assms(2) [folded combos_def] sum.case if_False pend st1_def [symmetric] option.map)
  ultimately show ?thesis using f c g by (intro exI [of _ st]) auto
qed

end

lemma run_dry_or_failed:
  assumes "dry \<or> (\<exists>m. probeCache B (concat (map co_keys (mvalues (cs_combos (group_days H days))))) w = Inl m)"
  shows "\<exists>st r. backfill_run H B cpm dry days [] w = Some (st, r) \<and> bworld st = w \<and> callTimes st = [] \<and> oracleCalls st = 0 \<and> cachePuts st = 0"
  using assms by (auto simp: backfill_run_def Let_def split: sum.splits)

text \<open>C29. The backfill comes back from every ledger, and in no minute are there more oracle calls than the budget
  allows. What the cache held of valid closes it still holds, and everything new in it is a finite positive number. A
  dry run calls and writes nothing; a live run calls the oracle exactly once for every coin and day without a valid
  close, and each of these ends resolved or unresolved.\<close>

theorem backfill_within_budget:
  assumes "backfill_env B time stored" and "0 < cpm"
  shows "\<exists>st r. backfill_run H B cpm dry days [] w = Some (st, r) \<and>
    (\<forall>t. length (filter (\<lambda>c. t < c \<and> c \<le> t + WINDOW_MS) (callTimes st)) \<le> cpm) \<and>
    grown H (stored w) (stored (bworld st)) \<and> length (callTimes st) = oracleCalls st \<and>
    (if dry then bworld st = w \<and> callTimes st = []
     else case r of
       Inl m \<Rightarrow> bworld st = w \<and> callTimes st = []
     | Inr res \<Rightarrow> bf_oracleCalls res = oracleCalls st \<and> bf_oracleCalls res = bf_missingCombos res \<and>
         bf_missingCombos res = length (missing_in H (stored w) (mvalues (cs_combos (group_days H days)))) \<and>
         bf_resolvedCombos res + bf_unresolvedCombos res = bf_missingCombos res)"
proof (cases "dry \<or> (\<exists>m. probeCache B (concat (map co_keys (mvalues (cs_combos (group_days H days))))) w = Inl m)")
  case True
  then obtain st r where r: "backfill_run H B cpm dry days [] w = Some (st, r)" "bworld st = w" "callTimes st = []" "oracleCalls st = 0" "cachePuts st = 0"
    using run_dry_or_failed [of dry B H days w cpm] by auto
  have "\<exists>m. r = Inl m" if "\<not> dry" using True that r(1) by (auto simp: backfill_run_def Let_def split: sum.splits)
  then show ?thesis using r by (intro exI [of _ st] exI [of _ r]) auto
next
  case False
  then obtain cached where "probeCache B (concat (map co_keys (mvalues (cs_combos (group_days H days))))) w = Inr cached"
    by (cases "probeCache B (concat (map co_keys (mvalues (cs_combos (group_days H days))))) w") auto
  from backfill_env.run_live [OF assms(1,2) this] obtain st where r:
    "backfill_run H B cpm False days [] w = Some (st, Inr (backfill_report (group_days H days)
      (length (missing_in H (stored w) (mvalues (cs_combos (group_days H days))))) cpm False st))"
    and ok: "backfill_env.window_ok time cpm st" "grown H (stored w) (stored (bworld st))"
    and n: "oracleCalls st = length (missing_in H (stored w) (mvalues (cs_combos (group_days H days))))"
      "resolvedCombos st + unresolvedCombos st = length (missing_in H (stored w) (mvalues (cs_combos (group_days H days))))"
    by blast
  have w: "sorted (callTimes st)" "spaced cpm (callTimes st)" "length (callTimes st) = oracleCalls st"
    using ok(1) unfolding backfill_env.window_ok_def [OF assms(1)] by auto
  have "\<forall>t. length (filter (\<lambda>c. t < c \<and> c \<le> t + WINDOW_MS) (callTimes st)) \<le> cpm"
    using spaced_window [OF w(1,2) assms(2)] by blast
  then show ?thesis using False r ok(2) n w(3)
    by (intro exI [of _ st] exI [of _ "Inr (backfill_report (group_days H days)
      (length (missing_in H (stored w) (mvalues (cs_combos (group_days H days))))) cpm False st)"])
      (simp add: backfill_report_def)
qed

text \<open>Re-running is safe and cheap: on a cache of valid closes whose writes succeed, a second run over the same
  ledger calls the oracle at most for the combos that the first run left unresolved; with none left, never.\<close>

theorem rerun_asks_the_rest:
  assumes "backfill_env B time stored" and "0 < cpm" and "puts_succeed B"
    and "\<forall>key v. stored w key = Some v \<longrightarrow> isFinitePositive H v"
    and "backfill_run H B cpm False days [] w = Some (st, Inr first)"
    and "backfill_run H B cpm False days [] (bworld st) = Some (st', Inr second)"
  shows "bf_oracleCalls second \<le> bf_unresolvedCombos first"
proof -
  define combos where "combos = mvalues (cs_combos (group_days H days))"
  have probe: "\<exists>cached. probeCache B (concat (map co_keys combos)) v = Inr cached"
    if "backfill_run H B cpm False days [] v = Some (s, Inr res)" for v s res
    using that by (cases "probeCache B (concat (map co_keys combos)) v") (auto simp: backfill_run_def Let_def combos_def)
  obtain c1 c2 where p: "probeCache B (concat (map co_keys combos)) w = Inr c1" "probeCache B (concat (map co_keys combos)) (bworld st) = Inr c2"
    using probe [OF assms(5)] probe [OF assms(6)] by blast
  note one = backfill_env.run_live [OF assms(1,2) p(1) [unfolded combos_def]]
  note two = backfill_env.run_live [OF assms(1,2) p(2) [unfolded combos_def]]
  have "length (missing_in H (stored (bworld st)) combos) \<le> bf_unresolvedCombos first"
    using one assms(3-5) by (auto simp: combos_def backfill_report_def)
  moreover have "bf_oracleCalls second = length (missing_in H (stored (bworld st)) combos)"
    using two assms(6) by (auto simp: combos_def backfill_report_def)
  ultimately show ?thesis by simp
qed


section \<open>The in-memory cache and the live oracle\<close>

record memory_world =
  mw_clock :: int
  mw_store :: price_store

text \<open>The default timer and clock (\<open>setTimeout\<close> waits at least one millisecond), the in-memory cache, and CoinGecko.\<close>

definition memory_backfill :: "string option \<Rightarrow> web \<Rightarrow> memory_world backfill_services" where
  "memory_backfill demo web = \<lparr>probeCache = \<lambda>ks w. Inr (priceGetMany ks (mw_store w)),
     storeClose = \<lambda>k krw w. (w\<lparr>mw_store := pricePut k krw (mw_store w)\<rparr>, None),
     askOracle = \<lambda>c day w. (w, Inr (geckoPriceAt demo 0 (mw_clock w) web c None ''NATIVE'' day)),
     readClock = \<lambda>w. (w, mw_clock w), sleepFor = \<lambda>d w. w\<lparr>mw_clock := mw_clock w + max 1 d\<rparr>\<rparr>"

lemma getMany_get: "mget (priceGetMany ks m) key = (if \<exists>k \<in> set ks. historicalPriceKey k = key then mget m key else None)"
proof (induction ks rule: rev_induct)
  case (snoc k ks)
  then show ?case by (auto simp: priceGetMany_def map_of_update split: option.splits)
qed (simp add: priceGetMany_def)

interpretation memory: backfill_env "memory_backfill demo web" mw_clock "\<lambda>w. mget (mw_store w)"
  for demo web
proof unfold_locales
  fix w w' t d c day r k krw msg e ks m
  show "readClock (memory_backfill demo web) w = (w', t) \<Longrightarrow> mw_clock w \<le> t \<and> t \<le> mw_clock w' \<and> mget (mw_store w') = mget (mw_store w)"
    by (auto simp: memory_backfill_def)
  show "0 < d \<Longrightarrow> mw_clock w + d \<le> mw_clock (sleepFor (memory_backfill demo web) d w) \<and>
      mget (mw_store (sleepFor (memory_backfill demo web) d w)) = mget (mw_store w)"
    by (simp add: memory_backfill_def)
  show "askOracle (memory_backfill demo web) c day w = (w', r) \<Longrightarrow> mw_clock w \<le> mw_clock w' \<and> mget (mw_store w') = mget (mw_store w)"
    by (simp add: memory_backfill_def)
  show "storeClose (memory_backfill demo web) k krw w = (w', None) \<Longrightarrow>
      \<exists>v. mget (mw_store w') = (mget (mw_store w))(historicalPriceKey k := Some v) \<and> (v = krw \<or> mget (mw_store w) (historicalPriceKey k) = Some v)"
    by (intro exI [of _ krw]) (auto simp: memory_backfill_def pricePut_def update_conv)
  show "storeClose (memory_backfill demo web) k krw w = (w', Some msg) \<Longrightarrow> mget (mw_store w') = mget (mw_store w)"
    by (simp add: memory_backfill_def)
  show "storeClose (memory_backfill demo web) k krw w = (w', e) \<Longrightarrow> mw_clock w \<le> mw_clock w'"
    by (auto simp: memory_backfill_def)
  show "probeCache (memory_backfill demo web) ks w = Inr m \<Longrightarrow> k \<in> set ks \<Longrightarrow> mget m (historicalPriceKey k) = mget (mw_store w) (historicalPriceKey k)"
    by (auto simp: memory_backfill_def getMany_get)
qed

text \<open>Two days of one coin on two chains, and a day of another; CoinGecko knows the first day only.\<close>

definition coin_web :: web where
  "coin_web url = (if url = ''https://api.coingecko.com/api/v3/coins/ethereum/market_chart/range?vs_currency=krw&from=1704067200&to=1704153600''
     then Inr \<lparr>hr_status = 200, hr_body = Inr (VObj [(''prices'', VArr [VArr [jint 1704067200000, jint 3000000]])])\<rparr>
     else Inl ''timeout'')"

definition sample_days :: "chain_day list" where
  "sample_days = [\<lparr>cd_chainId = JFin 1, cd_date = ''2024-01-01''\<rparr>, \<lparr>cd_chainId = JFin 8453, cd_date = ''2024-01-01''\<rparr>,
     \<lparr>cd_chainId = JFin 137, cd_date = ''2024-01-02''\<rparr>, \<lparr>cd_chainId = JFin 7, cd_date = ''2024-01-02''\<rparr>]"

definition empty_memory :: memory_world where
  "empty_memory = \<lparr>mw_clock = 1704200000000, mw_store = []\<rparr>"

definition first_run :: "(memory_world backfill_state \<times> (string, backfill_result) result) option" where
  "first_run = backfill_run std_host (memory_backfill (Some ''k'') coin_web) 1 False sample_days [] empty_memory"

definition run_facts :: "(memory_world backfill_state \<times> (string, backfill_result) result) option \<Rightarrow> (int list \<times> nat \<times> nat) option" where
  "run_facts x = (case x of Some (st, Inr r) \<Rightarrow> Some (callTimes st, bf_oracleCalls r, bf_unresolvedCombos r) | _ \<Rightarrow> None)"

lemma run_facts_Some: "run_facts x = Some (ts, n, m) \<Longrightarrow> \<exists>st r. x = Some (st, Inr r) \<and> callTimes st = ts \<and> bf_oracleCalls r = n \<and> bf_unresolvedCombos r = m"
  by (auto simp: run_facts_def split: option.splits prod.splits sum.splits)

theorem backfill_within_budget_witness:
  "run_facts first_run = Some ([1704200000000, 1704200060000], 2, 1) \<and>
   (\<exists>st r. first_run = Some (st, r) \<and> length (filter (\<lambda>c. 1704200000000 < c \<and> c \<le> 1704200000000 + WINDOW_MS) (callTimes st)) \<le> 1)"
proof
  show "run_facts first_run = Some ([1704200000000, 1704200060000], 2, 1)" by code_simp
  have "0 < (1::nat)" by simp
  from backfill_within_budget [OF memory.backfill_env_axioms this, of std_host "Some ''k''" coin_web False sample_days empty_memory]
  show "\<exists>st r. first_run = Some (st, r) \<and> length (filter (\<lambda>c. 1704200000000 < c \<and> c \<le> 1704200000000 + WINDOW_MS) (callTimes st)) \<le> 1"
    unfolding first_run_def by (metis One_nat_def)
qed

definition second_run :: "(memory_world backfill_state \<times> (string, backfill_result) result) option" where
  "second_run = (case first_run of None \<Rightarrow> None
   | Some (st, _) \<Rightarrow> backfill_run std_host (memory_backfill (Some ''k'') coin_web) 1 False sample_days [] (bworld st))"

theorem rerun_asks_the_rest_witness:
  "\<exists>st st' first second. first_run = Some (st, Inr first) \<and> second_run = Some (st', Inr second) \<and>
     bf_oracleCalls first = 2 \<and> bf_oracleCalls second = 1 \<and> bf_oracleCalls second \<le> bf_unresolvedCombos first"
proof -
  have "run_facts first_run = Some ([1704200000000, 1704200060000], 2, 1)" by code_simp
  then obtain st first where one: "first_run = Some (st, Inr first)" "bf_oracleCalls first = 2" by (auto dest: run_facts_Some)
  have "run_facts second_run = Some ([1704200060000], 1, 1)" by code_simp
  then obtain st' second where two: "second_run = Some (st', Inr second)" "bf_oracleCalls second = 1" by (auto dest: run_facts_Some)
  have fails: "puts_succeed (memory_backfill (Some ''k'') coin_web)" by (simp add: puts_succeed_def memory_backfill_def)
  have valid: "\<forall>key v. mget (mw_store empty_memory) key = Some v \<longrightarrow> isFinitePositive std_host v" by (simp add: empty_memory_def)
  have again: "backfill_run std_host (memory_backfill (Some ''k'') coin_web) 1 False sample_days [] (bworld st) = Some (st', Inr second)"
    using two(1) by (simp only: second_run_def one(1) option.case prod.case)
  have "bf_oracleCalls second \<le> bf_unresolvedCombos first"
    by (rule rerun_asks_the_rest [OF memory.backfill_env_axioms zero_less_one fails valid one(1) [unfolded first_run_def] again])
  then show ?thesis using one two by blast
qed

section \<open>The scan of the ledger\<close>

text \<open>What the database answers: the rows after the one with the cursor's id, at most as many as asked for.\<close>

definition table_pager :: "ledger_page_row list \<Rightarrow> ledger_pager" where
  "table_pager table cursor n = take n (case cursor of None \<Rightarrow> table
     | Some i \<Rightarrow> tl (dropWhile (\<lambda>r. lr_id r \<noteq> i) table))"

lemma rows_after:
  assumes "distinct (map lr_id (xs @ r # ys))"
  shows "tl (dropWhile (\<lambda>q. lr_id q \<noteq> lr_id r) (xs @ r # ys)) = ys"
proof -
  have "lr_id q \<noteq> lr_id r" if "q \<in> set xs" for q using assms that by (force simp: image_iff)
  then show ?thesis by (simp add: dropWhile_append2)
qed

lemma scan_from:
  assumes "distinct (map lr_id table)" "0 < n" "table = xs @ ys"
    and "case cursor of None \<Rightarrow> xs = [] | Some i \<Rightarrow> xs \<noteq> [] \<and> i = lr_id (last xs)"
  shows "scan_ledger H (table_pager table) n cursor pairs = Some (foldl (add_chain_day H) pairs ys)"
  using assms(3,4)
proof (induction ys arbitrary: xs cursor pairs rule: length_induct)
  case (1 ys)
  have page: "table_pager table cursor n = take n ys"
  proof (cases cursor)
    case None
    then show ?thesis using "1.prems" by (simp add: table_pager_def)
  next
    case (Some i)
    then have "xs = butlast xs @ [last xs]" "i = lr_id (last xs)" using "1.prems" by auto
    then have "table = butlast xs @ last xs # ys" using "1.prems"(1) by (metis append.assoc append_Cons append_Nil)
    then show ?thesis using rows_after [of "butlast xs" "last xs" ys] assms(1) Some \<open>i = lr_id (last xs)\<close>
      by (simp add: table_pager_def)
  qed
  show ?case
  proof (cases "ys = []")
    case True
    then show ?thesis using page by (subst scan_ledger.simps) (simp add: Let_def)
  next
    case False
    then have ne: "take n ys \<noteq> []" using assms(2) by (cases n) simp_all
    show ?thesis
    proof (cases "length (take n ys) < n")
      case True
      then have "take n ys = ys" by simp
      then show ?thesis using page ne True by (subst scan_ledger.simps) (simp add: Let_def)
    next
      case False
      have "scan_ledger H (table_pager table) n (Some (lr_id (last (take n ys)))) (foldl (add_chain_day H) pairs (take n ys)) =
          Some (foldl (add_chain_day H) (foldl (add_chain_day H) pairs (take n ys)) (drop n ys))"
      proof (rule "1.IH" [rule_format])
        show "length (drop n ys) < length ys" using assms(2) \<open>ys \<noteq> []\<close> by simp
        show "table = (xs @ take n ys) @ drop n ys" using "1.prems"(1) by simp
        show "case Some (lr_id (last (take n ys))) of None \<Rightarrow> xs @ take n ys = [] | Some i \<Rightarrow> xs @ take n ys \<noteq> [] \<and> i = lr_id (last (xs @ take n ys))"
          using ne by simp
      qed
      then have "scan_ledger H (table_pager table) n (Some (lr_id (last (take n ys)))) (foldl (add_chain_day H) pairs (take n ys)) =
          Some (foldl (add_chain_day H) pairs ys)"
        by (simp only: foldl_append [symmetric] append_take_drop_id)
      then show ?thesis using page ne False by (subst scan_ledger.simps) (simp add: Let_def)
    qed
  qed
qed

text \<open>The scan of the ledger comes back and sees every row once, in order, whatever the size of the pages.\<close>

theorem ledger_scan_complete:
  assumes "distinct (map lr_id table)" and "0 < n"
  shows "listChainDays H (table_pager table) n = Some (mvalues (foldl (add_chain_day H) [] table))"
  using scan_from [OF assms, of "[]" table None H "[]"] by (simp add: listChainDays_def)

definition sample_table :: "ledger_page_row list" where
  "sample_table = map (\<lambda>(i, c). \<lparr>lr_id = i, lr_payload = VObj [(''chain_id'', jint c), (''block_timestamp'', VStr ''2024-01-01'')], lr_occurredAt = None\<rparr>)
     [(''a'', 1), (''b'', 10), (''c'', 1)]"

theorem ledger_scan_complete_witness:
  "listChainDays std_host (table_pager sample_table) 1 = listChainDays std_host (table_pager sample_table) 1000 \<and>
   map_option length (listChainDays std_host (table_pager sample_table) 1) = Some 2"
proof -
  have d: "distinct (map lr_id sample_table)" by code_simp
  have "length (mvalues (foldl (add_chain_day std_host) [] sample_table)) = 2" by code_simp
  then show ?thesis using ledger_scan_complete [OF d, of 1 std_host] ledger_scan_complete [OF d, of 1000 std_host] by simp
qed

section \<open>A day the backfill does not see\<close>

text \<open>A row whose stored timestamp is no date: a synchronisation prices its day from \<open>occurredAt\<close>, the backfill skips it.\<close>

lemma backfill_skips_unreadable_day:
  "row_chain_day std_host \<lparr>lr_id = ''a'', lr_payload = VObj [(''chain_id'', jint 1), (''block_timestamp'', VStr ''soon'')], lr_occurredAt = Some 1704067200000\<rparr> = None"
  "row_day std_host \<lparr>i_txHash = ''h'', i_chain = ''1'', i_eventType = ''CHAIN'', i_occurredAt = 1704067200000,
     i_payload = [(''chain_id'', jint 1), (''block_timestamp'', VStr ''soon'')]\<rparr> = Some ''2024-01-01''"
  by code_simp+

end
