(* ===== verification/Events.thy ===== *)
theory Events
  imports Estimate Prices
begin

text \<open>
  Reading and editing the ledger: the presenter (\<open>indexer/event.presenter.ts\<close>), the cost-basis snapshot shared by
  the read paths (\<open>indexer/cost-basis-snapshot.service.ts\<close>), the pages, details and summaries of a user's events
  (\<open>indexer/event-query.service.ts\<close>), and the reclassification of one
  (\<open>indexer/event-reclassification.service.ts\<close>), over the in-memory repository of \<open>TxRepository\<close>. The fold is
  the cost engine's; the clock is an argument. Log lines are left out.
\<close>

section \<open>The ledger as the engine sees it\<close>

definition as_event :: "transaction_record \<Rightarrow> taxable_transaction" where
  "as_event row = \<lparr>tx_id = row_id row, eventType = row_eventType row, occurredAt = AtDate (Some (row_occurredAt row)), payload = row_payload row\<rparr>"

section \<open>The presenter\<close>

definition text_or_null :: "string option \<Rightarrow> jsv" where
  "text_or_null s = (case s of None \<Rightarrow> VNull | Some t \<Rightarrow> VStr t)"

definition direction_name :: "direction \<Rightarrow> string" where
  "direction_name d = (case d of IN \<Rightarrow> ''IN'' | OUT \<Rightarrow> ''OUT'')"

definition costBasisFields :: "cost_result \<Rightarrow> jobj" where
  "costBasisFields c = [
     (''cost_basis'', if excluded c then VNull else VStr (costBasis c)),
     (''pnl'', text_or_null (realizedPnl c)),
     (''pnl_ratio'', text_or_null (pnlRatio c)),
     (''gas_fee_fiat'', text_or_null (case gasFiat c of Some v \<Rightarrow> v | None \<Rightarrow> None))] @
     (case bridgeMove c of None \<Rightarrow> [] | Some d \<Rightarrow> [(''bridge_move'', VStr (direction_name d))]) @
     (case review c of None \<Rightarrow> [] | Some r \<Rightarrow> [(''pnl_review'', VStr (review_name r))])"

definition publicEvent :: "transaction_record \<Rightarrow> cost_result option \<Rightarrow> jobj" where
  "publicEvent row basis =
     (let event = pdel ''_anchorPayloadHash'' (pdel ''_overrideHistory'' (pdel ''_version'' (row_payload row)))
      in case basis of None \<Rightarrow> event | Some c \<Rightarrow> pspread event (costBasisFields c))"

record event_mutation =
  em_event :: jobj
  em_version :: jnum

definition stored_version :: "jobj \<Rightarrow> jnum" where
  "stored_version p = js_Number (coalesce (pget p ''_version'') (jint 1))"

definition eventMutation :: "transaction_record \<Rightarrow> cost_result option \<Rightarrow> event_mutation" where
  "eventMutation row basis = \<lparr>em_event = publicEvent row basis, em_version = stored_version (row_payload row)\<rparr>"

definition eventDetail :: "transaction_record \<Rightarrow> cost_result option \<Rightarrow> event_mutation \<times> jsv" where
  "eventDetail row basis = (eventMutation row basis, coalesce (pget (row_payload row) ''_overrideHistory'') (VArr []))"

section \<open>The snapshot of the cost basis\<close>

text \<open>\<open>loadNativePrices\<close>: the chain days of the ledger, under the key of the cache and the key of the engine.\<close>

definition snapshot_day :: "host \<Rightarrow> transaction_record \<Rightarrow> string option" where
  "snapshot_day H row = (case (case pget (row_payload row) ''block_timestamp'' of VStr s \<Rightarrow> utcDayOf H (StampValue (VStr s)) | _ \<Rightarrow> None) of
     Some d \<Rightarrow> Some d | None \<Rightarrow> utcDayOf H (StampDate (Some (row_occurredAt row))))"

definition wanted_step :: "host \<Rightarrow> (string, price_key \<times> string) jmap \<Rightarrow> transaction_record \<Rightarrow> (string, price_key \<times> string) jmap" where
  "wanted_step H wanted row =
     (let rawChain = pget (row_payload row) ''chain_id''; c = js_Number rawChain in
      case (num_fin c, snapshot_day H row) of
        (Some _, Some date) \<Rightarrow> mput (historicalPriceKey (native_key c date))
          (native_key c date, js_String (coalesce rawChain (VStr [])) @ '':'' @ date) wanted
      | _ \<Rightarrow> wanted)"

definition loadNativePrices :: "host \<Rightarrow> (price_key list \<Rightarrow> (string, (string, string) jmap) result) \<Rightarrow> transaction_record list \<Rightarrow>
    (string, native_prices) result" where
  "loadNativePrices H getMany rows =
     (let wanted = foldl (wanted_step H) [] rows in
      if wanted = [] then Inr []
      else rbind (getMany (map fst (mvalues wanted))) (\<lambda>cached.
        Inr (foldl (\<lambda>prices (cacheKey, _, engineKey). case mget cached cacheKey of Some krw \<Rightarrow> mput engineKey krw prices | None \<Rightarrow> prices) [] wanted)))"

text \<open>The two memo levels: the price map of a rows instance, and the folds of a rows instance under a price map.
  Instances are numbers; a price map is \<open>None\<close> when gas is off (\<open>NO_GAS\<close>), 0 for \<open>NO_PRICES\<close>, and a fresh number for every
  loaded map. A failed probe is not kept. The holdings fold has a table of its own and shares the price maps.\<close>

record snapshot_memo =
  sm_prices :: "(nat, nat \<times> native_prices) jmap"
  sm_folds :: "(nat \<times> nat option, (string, cost_result) jmap) jmap"
  sm_holdings :: "(nat \<times> nat option, (string, holding_cost_basis) jmap) jmap"
  sm_next :: nat

definition nativePricesFor :: "host \<Rightarrow> (price_key list \<Rightarrow> (string, (string, string) jmap) result) \<Rightarrow> nat \<Rightarrow> transaction_record list \<Rightarrow>
    snapshot_memo \<Rightarrow> snapshot_memo \<times> nat \<times> native_prices" where
  "nativePricesFor H getMany inst rows m = (case mget (sm_prices m) inst of
     Some hit \<Rightarrow> (m, hit)
   | None \<Rightarrow> (case loadNativePrices H getMany rows of
       Inl _ \<Rightarrow> (m, 0, [])
     | Inr prices \<Rightarrow>
         (let key = (if foldl (wanted_step H) [] rows = [] then 0 else Suc (sm_next m))
          in (m\<lparr>sm_prices := mput inst (key, prices) (sm_prices m), sm_next := Suc (sm_next m)\<rparr>, key, prices))))"

definition snapshotFor :: "host \<Rightarrow> (price_key list \<Rightarrow> (string, (string, string) jmap) result) \<Rightarrow> nat \<Rightarrow> transaction_record list \<Rightarrow> bool \<Rightarrow>
    snapshot_memo \<Rightarrow> snapshot_memo \<times> (string, cost_result) jmap" where
  "snapshotFor H getMany inst rows gas m =
     (case (if gas then (case nativePricesFor H getMany inst rows m of (m, key, prices) \<Rightarrow> (m, Some key, Some prices)) else (m, None, None)) of
        (m, key, prices) \<Rightarrow> (case mget (sm_folds m) (inst, key) of
          Some basis \<Rightarrow> (m, basis)
        | None \<Rightarrow> (let basis = computeCostBasis H (map as_event rows) prices in (m\<lparr>sm_folds := mput (inst, key) basis (sm_folds m)\<rparr>, basis))))"

definition holdingsFor :: "host \<Rightarrow> (price_key list \<Rightarrow> (string, (string, string) jmap) result) \<Rightarrow> nat \<Rightarrow> transaction_record list \<Rightarrow> bool \<Rightarrow>
    snapshot_memo \<Rightarrow> snapshot_memo \<times> (string, holding_cost_basis) jmap" where
  "holdingsFor H getMany inst rows gas m =
     (case (if gas then (case nativePricesFor H getMany inst rows m of (m, key, prices) \<Rightarrow> (m, Some key, Some prices)) else (m, None, None)) of
        (m, key, prices) \<Rightarrow> (case mget (sm_holdings m) (inst, key) of
          Some held \<Rightarrow> (m, held)
        | None \<Rightarrow> (let held = computeHoldingsCostBasis H (map as_event rows) prices in (m\<lparr>sm_holdings := mput (inst, key) held (sm_holdings m)\<rparr>, held))))"

section \<open>Pages\<close>

definition MAX_PAGE_LIMIT :: nat where "MAX_PAGE_LIMIT = 1000"

definition event_id :: "transaction_record \<Rightarrow> string" where
  "event_id row = js_String (pget (row_payload row) ''id'')"

definition is_spam :: "transaction_record \<Rightarrow> bool" where
  "is_spam row \<longleftrightarrow> pget (row_payload row) ''classification'' = VStr ''SPAM''"

definition page_le :: "host \<Rightarrow> transaction_record \<Rightarrow> transaction_record \<Rightarrow> bool" where
  "page_le H a b = (let d = row_occurredAt a - row_occurredAt b in
     if d \<noteq> 0 then d < 0 else localeCompare H (event_id a) (event_id b) \<le> 0)"

definition visible_events :: "host \<Rightarrow> bool \<Rightarrow> transaction_record list \<Rightarrow> transaction_record list" where
  "visible_events H includeSpam source = sort_by (page_le H) (if includeSpam then source else filter (\<lambda>row. \<not> is_spam row) source)"

text \<open>\<open>Math.min(1000, Math.max(1, Number(rawLimit) || 20))\<close>; the end of a slice is cut to an integer.\<close>

definition page_limit :: "string option \<Rightarrow> nat" where
  "page_limit rawLimit = (case js_Number (case rawLimit of None \<Rightarrow> VUndef | Some s \<Rightarrow> VStr s) of
     JNaN \<Rightarrow> 20
   | JInf neg \<Rightarrow> if neg then 1 else MAX_PAGE_LIMIT
   | JFin q \<Rightarrow> if q = 0 then 20 else min MAX_PAGE_LIMIT (max 1 (nat \<lfloor>q\<rfloor>)))"

text \<open>\<open>findIndex\<close> of the cursor's id, and one past it; an unknown cursor starts over.\<close>

definition page_start :: "transaction_record list \<Rightarrow> string option \<Rightarrow> nat" where
  "page_start all cursor = (case cursor of
     None \<Rightarrow> 0
   | Some c \<Rightarrow> if c = [] then 0
       else (let before = takeWhile (\<lambda>row. event_id row \<noteq> c) all in if length before < length all then length before + 1 else 0))"

definition event_page :: "transaction_record list \<Rightarrow> string option \<Rightarrow> nat \<Rightarrow> transaction_record list \<times> string option" where
  "event_page all cursor limit =
     (let start = page_start all cursor; items = take limit (drop start all)
      in (items, if start + limit < length all then Some (event_id (last items)) else None))"

definition list_events :: "host \<Rightarrow> (string, cost_result) jmap \<Rightarrow> transaction_record list \<Rightarrow> string option \<Rightarrow> string option \<Rightarrow> bool \<Rightarrow>
    event_mutation list \<times> string option" where
  "list_events H basis source cursor rawLimit includeSpam =
     (case event_page (visible_events H includeSpam source) cursor (page_limit rawLimit) of
        (items, nextCursor) \<Rightarrow> (map (\<lambda>row. eventMutation row (mget basis (event_id row))) items, nextCursor))"

definition event_detail :: "(string, cost_result) jmap \<Rightarrow> string \<Rightarrow> string \<Rightarrow> mock_repo \<Rightarrow> (http_error, event_mutation \<times> jsv) result" where
  "event_detail basis userId eid r = (case findForUser userId eid r of
     None \<Rightarrow> Inl (HttpError 404 ''Event not found.'')
   | Some row \<Rightarrow> Inr (eventDetail row (mget basis (event_id row))))"

section \<open>The summary of a period\<close>

definition PERIOD_PNL_BASIS :: string where "PERIOD_PNL_BASIS = ''realized_moving_average''"

definition nonempty :: "string option \<Rightarrow> string option" where
  "nonempty s = (case s of Some t \<Rightarrow> if t = [] then None else Some t | None \<Rightarrow> None)"

definition period_ok :: "host \<Rightarrow> string option \<Rightarrow> string option \<Rightarrow> bool" where
  "period_ok H from to \<longleftrightarrow>
     (case nonempty from of Some f \<Rightarrow> dateParse H f \<noteq> None | None \<Rightarrow> True) \<and>
     (case nonempty to of Some t \<Rightarrow> dateParse H t \<noteq> None | None \<Rightarrow> True) \<and>
     (case (nonempty from, nonempty to) of
        (Some f, Some t) \<Rightarrow> (case (dateParse H f, dateParse H t) of (Some a, Some b) \<Rightarrow> a < b | _ \<Rightarrow> True)
      | _ \<Rightarrow> True)"

definition in_period :: "host \<Rightarrow> string option \<Rightarrow> string option \<Rightarrow> transaction_record \<Rightarrow> bool" where
  "in_period H from to row \<longleftrightarrow>
     (case nonempty from of Some f \<Rightarrow> (case dateParse H f of Some a \<Rightarrow> a \<le> row_occurredAt row | None \<Rightarrow> False) | None \<Rightarrow> True) \<and>
     (case nonempty to of Some t \<Rightarrow> (case dateParse H t of Some b \<Rightarrow> row_occurredAt row < b | None \<Rightarrow> False) | None \<Rightarrow> True)"

text \<open>The two sums of a period: realized gains, and the proceeds of disposals of unknown cost.\<close>

definition pnl_step :: "host \<Rightarrow> (string, cost_result) jmap \<Rightarrow> decimal \<times> decimal \<Rightarrow> transaction_record \<Rightarrow> (tax_error, decimal \<times> decimal) result" where
  "pnl_step H basis = (\<lambda>(periodPnl, unresolvedP) row. case mget basis (event_id row) of
     None \<Rightarrow> Inr (periodPnl, unresolvedP)
   | Some entry \<Rightarrow>
       if excluded entry \<or> res_direction entry \<noteq> OUT then Inr (periodPnl, unresolvedP)
       else if review entry = Some disposal_exceeds_holdings
       then (case proceeds entry of
               None \<Rightarrow> Inr (periodPnl, unresolvedP)
             | Some s \<Rightarrow> rbind (d_read H s) (\<lambda>d. Inr (periodPnl, d_plus H unresolvedP d)))
       else (case realizedPnl entry of
               None \<Rightarrow> Inr (periodPnl, unresolvedP)
             | Some s \<Rightarrow> rbind (d_read H s) (\<lambda>d. Inr (d_plus H periodPnl d, unresolvedP))))"

fun pnl_sums :: "host \<Rightarrow> (string, cost_result) jmap \<Rightarrow> decimal \<times> decimal \<Rightarrow> transaction_record list \<Rightarrow> (tax_error, decimal \<times> decimal) result" where
  "pnl_sums H basis acc [] = Inr acc"
| "pnl_sums H basis acc (row # rows) = rbind (pnl_step H basis acc row) (\<lambda>acc. pnl_sums H basis acc rows)"

record event_summary =
  es_periodPnl :: string
  es_periodPnlBasis :: string
  es_unresolvedProceeds :: string
  es_computableEventCount :: nat
  es_taxableEventCount :: nat
  es_pendingReviewCount :: nat
  es_spamEventCount :: nat
  es_currency :: string
  es_from :: string
  es_to :: string

definition class_of :: "jobj \<Rightarrow> jsv" where
  "class_of event = pget event ''classification''"

definition is_computable :: "jobj \<Rightarrow> bool" where
  "is_computable event \<longleftrightarrow> class_of event \<noteq> VStr ''SPAM'' \<and> pget event ''price_status'' \<noteq> VStr ''UNKNOWN'' \<and>
     class_of event \<noteq> VStr ''UNKNOWN'' \<and> class_of event \<noteq> VStr ''INTERNAL_TRANSFER''"

definition needs_review :: "(string, cost_result) jmap \<Rightarrow> jobj \<Rightarrow> bool" where
  "needs_review basis event \<longleftrightarrow> class_of event = VStr ''UNKNOWN'' \<or> pget event ''price_status'' = VStr ''UNKNOWN'' \<or>
     num_less (js_Number (pget event ''confidence'')) (JFin (1 / 2)) \<or>
     (case mget basis (js_String (pget event ''id'')) of None \<Rightarrow> False | Some c \<Rightarrow> review c \<noteq> None)"

datatype summary_error = BadPeriod | SumError tax_error

definition event_summary_of :: "host \<Rightarrow> (string, cost_result) jmap \<Rightarrow> transaction_record list \<Rightarrow> string option \<Rightarrow> string option \<Rightarrow>
    (summary_error, event_summary) result" where
  "event_summary_of H basis source from to =
     (if \<not> period_ok H from to then Inl BadPeriod
      else (let rows = filter (in_period H from to) source; events = map (\<lambda>row. publicEvent row None) rows;
                computable = filter is_computable events; reviewable = filter (\<lambda>e. class_of e \<noteq> VStr ''SPAM'') events
            in case pnl_sums H basis (DFin 0, DFin 0) rows of
                 Inl e \<Rightarrow> Inl (SumError e)
               | Inr (periodPnl, unresolvedP) \<Rightarrow> Inr \<lparr>
                   es_periodPnl = decFixed H periodPnl, es_periodPnlBasis = PERIOD_PNL_BASIS, es_unresolvedProceeds = decFixed H unresolvedP,
                   es_computableEventCount = length computable,
                   es_taxableEventCount = length (filter (\<lambda>e. js_String (class_of e) \<in> {''RECEIVE'', ''SEND'', ''EXCHANGE''}) computable),
                   es_pendingReviewCount = length (filter (needs_review basis) reviewable),
                   es_spamEventCount = length events - length reviewable,
                   es_currency = js_String (coalesce (case events of e # _ \<Rightarrow> pget e ''fiat_currency'' | [] \<Rightarrow> VUndef) (VStr ''KRW'')),
                   es_from = (case from of Some f \<Rightarrow> f | None \<Rightarrow> js_String (coalesce (case events of e # _ \<Rightarrow> pget e ''block_timestamp'' | [] \<Rightarrow> VUndef) (VStr []))),
                   es_to = (case to of Some t \<Rightarrow> t | None \<Rightarrow> js_String (coalesce (if events = [] then VUndef else pget (last events) ''block_timestamp'') (VStr [])))\<rparr>))"

section \<open>Reclassification\<close>

record reclassify_input =
  ri_classification :: string
  ri_reason :: "string option"
  ri_expectedVersion :: int

definition reclassified :: "int \<Rightarrow> reclassify_input \<Rightarrow> jobj \<Rightarrow> jobj" where
  "reclassified now input p =
     (let overriddenAt = VStr (toISOString now); previous = pget p ''user_override'';
          reason = text_or_null (ri_reason input); to = VStr (ri_classification input);
          from = (case previous of VObj o' \<Rightarrow> pget o' ''classification'' | VArr _ \<Rightarrow> VUndef | _ \<Rightarrow> pget p ''classification'');
          transition = VObj [(''from'', from), (''to'', to), (''reason'', reason), (''overridden_at'', overriddenAt)];
          history = (case pget p ''_overrideHistory'' of VArr vs \<Rightarrow> vs | _ \<Rightarrow> [])
      in pput ''_overrideHistory'' (VArr (history @ [transition]))
         (pput ''_version'' (case stored_version p of JFin q \<Rightarrow> VNum (JFin (q + 1)) | n \<Rightarrow> VNum n)
         (pput ''user_override'' (VObj [(''classification'', to), (''reason'', reason), (''overridden_at'', overriddenAt)])
         (pput ''classification'' to p))))"

text \<open>The handler in its two halves: it reads the event, and after an \<open>await\<close> writes the payload it computed.\<close>

definition reclassify_read :: "int \<Rightarrow> string \<Rightarrow> string \<Rightarrow> reclassify_input \<Rightarrow> mock_repo \<Rightarrow> (http_error, jobj) result" where
  "reclassify_read now userId eid input r = (case findForUser userId eid r of
     None \<Rightarrow> Inl (HttpError 404 ''Event not found.'')
   | Some row \<Rightarrow> if stored_version (row_payload row) \<noteq> JFin (of_int (ri_expectedVersion input)) then Inl (HttpError 409 ''version_conflict'')
       else Inr (reclassified now input (row_payload row)))"

definition reclassify_write :: "string \<Rightarrow> string \<Rightarrow> jobj \<Rightarrow> mock_repo \<Rightarrow> mock_repo \<times> (http_error, event_mutation) result" where
  "reclassify_write userId eid p r = (case updatePayload userId eid p r of
     (r, None) \<Rightarrow> (r, Inl (HttpError 500 ''Cannot read properties of null''))
   | (r, Some row) \<Rightarrow> (r, Inr (eventMutation row None)))"

definition reclassify :: "int \<Rightarrow> string \<Rightarrow> string \<Rightarrow> reclassify_input \<Rightarrow> mock_repo \<Rightarrow> mock_repo \<times> (http_error, event_mutation) result" where
  "reclassify now userId eid input r = (case reclassify_read now userId eid input r of
     Inl e \<Rightarrow> (r, Inl e)
   | Inr p \<Rightarrow> reclassify_write userId eid p r)"

section \<open>Reading when there may be nothing yet\<close>

text \<open>\<open>TransactionAvailabilityService.listOrSync\<close>: existing rows are answered at once and a first import runs in the
  background; with none the first import is waited for, and its failure is the answer. \<open>ensure\<close> is what the indexer
  does while the read waits.\<close>

definition listOrSync :: "(string \<Rightarrow> 'w \<Rightarrow> transaction_record list) \<Rightarrow> (string \<Rightarrow> 'w \<Rightarrow> 'w \<times> http_error option) \<Rightarrow> string \<Rightarrow> 'w \<Rightarrow>
    'w \<times> (http_error, transaction_record list) result" where
  "listOrSync rowsOf ensure userId w = (let existing = rowsOf userId w in
     if existing \<noteq> [] then (w, Inr existing)
     else case ensure userId w of
       (w, Some e) \<Rightarrow> (w, Inl e)
     | (w, None) \<Rightarrow> (w, Inr (rowsOf userId w)))"

text \<open>\<open>AnchorProofService.get\<close>: the receipt of the anchor of one event.\<close>

record anchor_proof =
  ap_tx_hash :: string
  ap_merkle_root :: string
  ap_anchored_at :: string
  ap_explorer_url :: "string option"

definition anchor_proof_of :: "(string \<Rightarrow> string option) \<Rightarrow> (string \<Rightarrow> (string option \<times> int option) option) \<Rightarrow> string \<Rightarrow> string option \<Rightarrow> mock_repo \<Rightarrow>
    (http_error, anchor_proof) result" where
  "anchor_proof_of explorer anchors userId eid r = (case nonempty eid of
     None \<Rightarrow> Inl (HttpError 400 ''eid is required.'')
   | Some i \<Rightarrow> (case findForUser userId i r of
       None \<Rightarrow> Inl (HttpError 404 ''Anchor proof not found.'')
     | Some row \<Rightarrow>
         (let payloadHash = js_String (pget (row_payload row) ''_anchorPayloadHash'') in
          case anchors payloadHash of
            Some (Some tx, Some t) \<Rightarrow>
              if tx = [] then Inl (HttpError 404 ''Anchor proof not found.'')
              else Inr \<lparr>ap_tx_hash = tx, ap_merkle_root = payloadHash, ap_anchored_at = toISOString t, ap_explorer_url = explorer tx\<rparr>
          | _ \<Rightarrow> Inl (HttpError 404 ''Anchor proof not found.''))))"

end
