(* ===== verification/Events_Properties.thy ===== *)
theory Events_Properties
  imports Events Estimate_Properties Linking_Properties
begin

text \<open>
  What reading and editing the ledger guarantees: the pages of a listing, walked by their cursors, show every visible
  event once; the summary of a tax year reports the figures of the year's estimate; a reclassification is applied to the
  version it names, only there, and survives the next indexing; and a snapshot is the fold of its own rows.
\<close>

section \<open>Walking the pages\<close>

text \<open>The client's walk: it asks for pages until one has no next cursor.\<close>

partial_function (option) walk_pages :: "host \<Rightarrow> (string, cost_result) jmap \<Rightarrow> transaction_record list \<Rightarrow> string option \<Rightarrow> bool \<Rightarrow>
    string option \<Rightarrow> event_mutation list option" where
  "walk_pages H basis source rawLimit includeSpam cursor =
     (case list_events H basis source cursor rawLimit includeSpam of
        (items, None) \<Rightarrow> Some items
      | (items, Some c) \<Rightarrow> Option.bind (walk_pages H basis source rawLimit includeSpam (Some c)) (\<lambda>rest. Some (items @ rest)))"

declare walk_pages.simps [code]

lemma page_limit_bounds: "1 \<le> page_limit rawLimit \<and> page_limit rawLimit \<le> MAX_PAGE_LIMIT"
  by (simp add: page_limit_def MAX_PAGE_LIMIT_def split: jnum.split)

lemma takeWhile_index:
  assumes "distinct (map f xs)" "k < length xs"
  shows "takeWhile (\<lambda>x. f x \<noteq> f (xs ! k)) xs = take k xs"
proof (rule takeWhile_eq_take_P_nth)
  fix i assume "i < k"
  then show "f (xs ! i) \<noteq> f (xs ! k)" using assms nth_eq_iff_index_eq [OF assms(1), of i k] by simp
qed simp

lemma page_start_of:
  assumes "distinct (map event_id all)" "k < length all" "event_id (all ! k) \<noteq> []"
  shows "page_start all (Some (event_id (all ! k))) = Suc k"
  using assms(2,3) takeWhile_index [OF assms(1,2)] by (simp add: page_start_def Let_def)

lemma event_page_at:
  assumes "1 \<le> n"
  shows "event_page all cursor n = (take n (drop (page_start all cursor) all),
    if page_start all cursor + n < length all then Some (event_id (all ! (page_start all cursor + n - 1))) else None)"
proof -
  have "last (take n (drop s all)) = all ! (s + n - 1)" if "s + n < length all" for s
    using that assms by (simp add: last_conv_nth)
  then show ?thesis by (simp add: event_page_def Let_def)
qed

text \<open>From any cursor whose page starts at a place of the list, the walk shows the rest of the list.\<close>

lemma walk_rest:
  fixes H :: host and source :: "transaction_record list" and includeSpam :: bool
  defines "all \<equiv> visible_events H includeSpam source"
  assumes ids: "distinct (map event_id all)" "\<forall>row\<in>set all. event_id row \<noteq> []"
  shows "walk_pages H basis source rawLimit includeSpam cursor =
    Some (map (\<lambda>row. eventMutation row (mget basis (event_id row))) (drop (page_start all cursor) all))"
proof (induction "length all - page_start all cursor" arbitrary: cursor rule: less_induct)
  case less
  let ?n = "page_limit rawLimit" and ?s = "page_start all cursor" and ?m = "\<lambda>row. eventMutation row (mget basis (event_id row))"
  have n: "1 \<le> ?n" using page_limit_bounds by blast
  have page: "list_events H basis source cursor rawLimit includeSpam = (map ?m (take ?n (drop ?s all)),
      if ?s + ?n < length all then Some (event_id (all ! (?s + ?n - 1))) else None)"
    by (simp only: list_events_def all_def [symmetric] event_page_at [OF n] prod.case)
  show ?case
  proof (cases "?s + ?n < length all")
    case False
    then have "take ?n (drop ?s all) = drop ?s all" by simp
    then show ?thesis by (subst walk_pages.simps) (simp add: page False)
  next
    case True
    let ?c = "event_id (all ! (?s + ?n - 1))"
    have k: "?s + ?n - 1 < length all" using True by simp
    have start: "page_start all (Some ?c) = ?s + ?n"
      using page_start_of [OF ids(1) k] ids(2) k n by simp
    have "walk_pages H basis source rawLimit includeSpam (Some ?c) = Some (map ?m (drop (?s + ?n) all))"
      using less [of "Some ?c"] True n unfolding start by simp
    moreover have "take ?n (drop ?s all) @ drop (?s + ?n) all = drop ?s all"
      using append_take_drop_id [of ?n "drop ?s all"] by (simp add: add.commute)
    then have "map ?m (take ?n (drop ?s all)) @ map ?m (drop (?s + ?n) all) = map ?m (drop ?s all)"
      by (simp only: map_append [symmetric])
    ultimately show ?thesis by (subst walk_pages.simps) (simp only: page True if_True prod.case option.case Option.bind.simps)
  qed
qed

lemma visible_set: "mset (visible_events H includeSpam source) =
    mset (if includeSpam then source else filter (\<lambda>row. \<not> is_spam row) source)"
  by (simp only: visible_events_def mset_sort_by)


definition listed_row :: "string \<Rightarrow> int \<Rightarrow> transaction_record" where
  "listed_row i t = \<lparr>row_id = i, bindingId = ''b1'', txHash = i, row_eventType = ''SEND'', chain = ''1'',
     row_payload = [(''id'', VStr i), (''classification'', VStr (if i = ''s'' then ''SPAM'' else ''SEND''))], row_occurredAt = t\<rparr>"

definition listed_rows :: "transaction_record list" where
  "listed_rows = [listed_row ''e2'' 20, listed_row ''s'' 15, listed_row ''e1'' 10, listed_row ''e3'' 30]"


text \<open>Identifiers that occur twice are outside of this: both legs of a move between two wallets of one user may carry the
  same one. The second page then starts after the first of the two again, and with pages of one event the walk never ends.\<close>

definition twin_row :: "string \<Rightarrow> int \<Rightarrow> transaction_record" where
  "twin_row i t = (listed_row i t)\<lparr>row_id := i @ (if t = 10 then ''-out'' else ''-in'')\<rparr>"

lemma twin_pages_never_end:
  "walk_pages std_host [] [twin_row ''m'' 10, twin_row ''m'' 20, listed_row ''e3'' 30] (Some ''1'') False None = None"
proof -
  let ?src = "[twin_row ''m'' 10, twin_row ''m'' 20, listed_row ''e3'' 30]"
  let ?x = "eventMutation (twin_row ''m'' 20) None"
  have p1: "list_events std_host [] ?src None (Some ''1'') False = ([eventMutation (twin_row ''m'' 10) None], Some ''m'')" by code_simp
  have p2: "list_events std_host [] ?src (Some ''m'') (Some ''1'') False = ([?x], Some ''m'')" by code_simp
  have "walk_pages std_host [] ?src (Some ''1'') False (Some ''m'') = None"
  proof (rule ccontr)
    assume "walk_pages std_host [] ?src (Some ''1'') False (Some ''m'') \<noteq> None"
    then obtain rest where r: "walk_pages std_host [] ?src (Some ''1'') False (Some ''m'') = Some rest" by blast
    have "walk_pages std_host [] ?src (Some ''1'') False (Some ''m'') = Some ([?x] @ rest)"
      by (subst walk_pages.simps) (simp only: p2 r prod.case option.case Option.bind.simps)
    then show False using r by simp
  qed
  then show ?thesis by (subst walk_pages.simps) (simp only: p1 prod.case option.case Option.bind.simps)
qed

section \<open>The summary of a year and its estimate\<close>

text \<open>One event contributes the same to both: the rule for a disposal of unknown cost is written twice in the source.\<close>

lemma pnl_step_tally:
  "pnl_step H basis acc row = (case mget basis (event_id row) of None \<Rightarrow> Inr acc | Some c \<Rightarrow> tally_money H (frontend_view c) acc)"
proof (cases "mget basis (event_id row)")
  case (Some c)
  have r: "(f_review (frontend_view c) = Some REVIEW_UNRESOLVED_COST) = (review c = Some disposal_exceeds_holdings)"
    by (cases "review c"; cases "the (review c)") (simp_all add: frontend_view_def review_name_def REVIEW_UNRESOLVED_COST_def)
  have fs: "f_excluded (frontend_view c) = excluded c" "f_direction (frontend_view c) = res_direction c"
    "f_proceeds (frontend_view c) = proceeds c" "f_realizedPnl (frontend_view c) = realizedPnl c"
    by (simp_all add: frontend_view_def)
  obtain t u where acc: "acc = (t, u)" by (cases acc)
  show ?thesis
    unfolding acc pnl_step_def prod.case Some option.case tally_money_def isUnresolvedDisposal_def r fs fst_conv snd_conv
    by (cases "excluded c"; cases "res_direction c = OUT"; cases "review c = Some disposal_exceeds_holdings")
      (simp_all split: option.split)
qed (simp add: pnl_step_def split: prod.split)

text \<open>The totals of the tally are the two sums of the summary, whatever else it collects.\<close>

lemma sums_tally:
  assumes "\<forall>row\<in>set rows. eventIdOf (as_event row) = event_id row"
  shows "pnl_sums H basis (total s, unresolved s) rows =
    (case tally_rows H s (map (\<lambda>row. scope_event H (map (\<lambda>(k, r). (k, frontend_view r)) basis) (as_event row)) rows) of
       Inl e \<Rightarrow> Inl e | Inr s' \<Rightarrow> Inr (total s', unresolved s'))"
  using assms
proof (induction rows arbitrary: s)
  case (Cons row rows)
  let ?b = "map (\<lambda>(k, r). (k, frontend_view r)) basis"
  have id: "eventIdOf (as_event row) = event_id row" using Cons.prems by simp
  have entry: "s_entry (scope_event H ?b (as_event row)) = map_option frontend_view (mget basis (event_id row))"
    by (simp add: scope_event_def id map_of_map)
  show ?case
  proof (cases "mget basis (event_id row)")
    case None
    then show ?thesis using Cons by (simp add: pnl_step_tally tally_row_def entry)
  next
    case (Some c)
    show ?thesis
    proof (cases "tally_money H (frontend_view c) (total s, unresolved s)")
      case (Inl e)
      then show ?thesis by (simp add: pnl_step_tally tally_row_def entry Some)
    next
      case (Inr tu)
      obtain t u where tu: "tu = (t, u)" by (cases tu)
      show ?thesis
        using Cons.prems Cons.IH [of "s\<lparr>excludedIds := _, nonTaxableIds := _, reviewIds := _, total := t, unresolved := u, known := _\<rparr>"]
        by (simp add: pnl_step_tally tally_row_def entry Some Inr tu)
    qed
  qed
qed simp

text \<open>The half-open year of the estimate and the period of a summary from its first to the next year's first instant.\<close>

lemma year_period:
  "filter (in_period H (Some (year_start y)) (Some (year_start (y + 1)))) source =
   filter (\<lambda>row. in_year H y (as_event row)) source"
proof (rule filter_cong [OF refl])
  fix row
  have "nonempty (Some (year_start z)) = Some (year_start z)" for z by (simp add: nonempty_def year_start_def)
  then show "in_period H (Some (year_start y)) (Some (year_start (y + 1))) row = in_year H y (as_event row)"
    by (auto simp: in_period_def in_year_def occurredMs_def as_event_def split: option.split)
qed

definition full_year :: "host \<Rightarrow> int \<Rightarrow> bool" where
  "full_year H y \<longleftrightarrow> (case (dateParse H (year_start y), dateParse H (year_start (y + 1))) of (Some a, Some b) \<Rightarrow> a < b | _ \<Rightarrow> False)"

lemma year_period_ok: "full_year H y \<Longrightarrow> period_ok H (Some (year_start y)) (Some (year_start (y + 1)))"
  by (auto simp: full_year_def period_ok_def nonempty_def year_start_def split: option.splits)

lemma scoped_rows:
  "scoped H (map as_event source) y b = map (\<lambda>row. scope_event H b (as_event row)) (filter (\<lambda>row. in_year H y (as_event row)) source)"
  by (simp add: scoped_def filter_map comp_def)

lemma estimate_from_tally:
  assumes "calculateFrontendEstimate H events country y b = Inr e"
  shows "\<exists>s. tally_rows H empty_tally (scoped H events y b) = Inr s \<and> taxableGains e = decFixed H (d_max0 (total s)) \<and>
    lossCarryforward e = decFixed H (d_loss (total s)) \<and> unresolvedProceeds e = decFixed H (unresolved s)"
  using assms by (auto simp: calculateFrontendEstimate_def Let_def split: option.splits)

lemma summary_from_sums:
  assumes "period_ok H since until" "pnl_sums H basis (DFin 0, DFin 0) (filter (in_period H since until) source) = Inr (t, u)"
  shows "\<exists>sm. event_summary_of H basis source since until = Inr sm \<and> es_periodPnl sm = decFixed H t \<and> es_unresolvedProceeds sm = decFixed H u"
  using assms by (simp add: event_summary_of_def Let_def)

lemma basis_map: "map (\<lambda>(k, r). (k, frontend_view r)) (computeCostBasis H events prices) = engine_basis H events prices"
  by (simp add: engine_basis_def)

text \<open>C8. The two answers about a tax year agree. For the same ledger and the same prices, the summary of the period from the
  first instant of the year to the first of the next and the year's estimate both answer for a supported country, and there is
  one gain the summary reports as it is and the estimate splits: the taxable gain is it floored at zero, the loss carried
  forward what falls below. The proceeds whose cost is unresolved are the same in both.\<close>

theorem summary_matches_estimate:
  assumes "decimal_laws H" "distinct (map event_id source)"
    and "\<forall>row\<in>set source. \<not> nullish (pget (row_payload row) ''id'')"
    and "getCountryRule country = Some meta" "decFinite H (VStr (r_rate meta)) = Some rate" "full_year H y"
  shows "\<exists>sm e gain. event_summary_of H (computeCostBasis H (map as_event source) prices) source
        (Some (year_start y)) (Some (year_start (y + 1))) = Inr sm \<and>
      calculateFrontendEstimate H (map as_event source) country y (engine_basis H (map as_event source) prices) = Inr e \<and>
      es_periodPnl sm = decFixed H gain \<and> taxableGains e = decFixed H (d_max0 gain) \<and>
      lossCarryforward e = decFixed H (d_loss gain) \<and> es_unresolvedProceeds sm = unresolvedProceeds e"
proof -
  let ?events = "map as_event source" and ?from = "Some (year_start y)" and ?to = "Some (year_start (y + 1))"
  let ?basis = "computeCostBasis H ?events prices" and ?rows = "filter (\<lambda>row. in_year H y (as_event row)) source"
  have ids: "eventIdOf (as_event row) = event_id row" if "row \<in> set source" for row
    using assms(3) that by (simp add: eventIdOf_def as_event_def event_id_def coalesce_def)
  then have "map idOf ?events = map event_id source" by (auto simp: eventIdOf_idOf)
  then have distinct: "distinct (map idOf ?events)" using assms(2) by (simp only:)
  have ledger: "estimate_ledger H ?events" using assms(1) distinct by (simp add: estimate_ledger_def distinct_ledger_def)
  obtain e where e: "calculateFrontendEstimate H ?events country y (engine_basis H ?events prices) = Inr e"
    by (rule estimate_ledger.estimate_engine [OF ledger assms(4,5), of y prices])
  obtain s where s: "tally_rows H empty_tally (scoped H ?events y (engine_basis H ?events prices)) = Inr s"
    "taxableGains e = decFixed H (d_max0 (total s))" "lossCarryforward e = decFixed H (d_loss (total s))"
    "unresolvedProceeds e = decFixed H (unresolved s)" using estimate_from_tally [OF e] by blast
  have "pnl_sums H ?basis (total empty_tally, unresolved empty_tally) ?rows = Inr (total s, unresolved s)"
    using sums_tally [of ?rows H ?basis empty_tally] s(1) ids
    by (simp only: basis_map scoped_rows [symmetric] sum.case) simp
  then have "pnl_sums H ?basis (DFin 0, DFin 0) (filter (in_period H ?from ?to) source) = Inr (total s, unresolved s)"
    by (simp add: year_period empty_tally_def)
  from summary_from_sums [OF year_period_ok [OF assms(6)] this] s e show ?thesis by metis
qed

theorem summary_matches_estimate_witness:
  "\<exists>sm e gain. event_summary_of std_host (computeCostBasis std_host (map as_event listed_rows) None) listed_rows
        (Some (year_start 1970)) (Some (year_start 1971)) = Inr sm \<and>
      calculateFrontendEstimate std_host (map as_event listed_rows) ''DE'' 1970 (engine_basis std_host (map as_event listed_rows) None) = Inr e \<and>
      es_periodPnl sm = decFixed std_host gain \<and> taxableGains e = decFixed std_host (d_max0 gain) \<and>
      lossCarryforward e = decFixed std_host (d_loss gain) \<and> es_unresolvedProceeds sm = unresolvedProceeds e"
proof -
  have "distinct (map event_id listed_rows)" "\<forall>row\<in>set listed_rows. \<not> nullish (pget (row_payload row) ''id'')"
    by (simp_all add: listed_rows_def listed_row_def event_id_def pget_def)
  moreover have "full_year std_host 1970" by code_simp
  ultimately show ?thesis
    using summary_matches_estimate [OF std.decimal_laws_axioms _ _ de_rule, of listed_rows 1970 None] by simp
qed

section \<open>Reclassification\<close>

lemma owned_row:
  assumes "wf_store (mock_repo.transactions r)" "findForUser u i r = Some x"
  shows "x \<in> set (listForUser u r)" "mget (mock_repo.transactions r) (row_id x) = Some x" "mget (bindingOwners r) (bindingId x) = Some u"
proof -
  show x: "x \<in> set (listForUser u r)" using find_first assms(2) unfolding findForUser_def by metis
  then show "mget (mock_repo.transactions r) (row_id x) = Some x" "mget (bindingOwners r) (bindingId x) = Some u"
    using wf_store_get [OF assms(1)] by (auto simp: listForUser_def set_sort_by)
qed

text \<open>A payload written for one user is not seen by another.\<close>

lemma update_private:
  assumes "wf_store (mock_repo.transactions r)" "findForUser u i r = Some x" "v \<noteq> u"
  shows "listForUser v (fst (updatePayload u i p r)) = listForUser v r"
proof -
  let ?own = "\<lambda>row :: transaction_record. mget (bindingOwners r) (bindingId row) = Some v" and ?x = "x\<lparr>row_payload := p\<rparr>"
  have d: "distinct (mkeys (mock_repo.transactions r))" using assms(1) by (simp add: wf_store_def)
  note x = owned_row [OF assms(1,2)]
  have "filter ?own (mvalues (mput (row_id x) ?x m)) = filter ?own (mvalues m)"
    if "mget m (row_id x) = Some x" "distinct (mkeys m)" for m
    using that x(3) assms(3) by (induction m) (auto split: if_splits)
  then show ?thesis
    using x(2) d by (simp add: updatePayload_def assms(2) listForUser_def Let_def)
qed

definition reclassify_keys :: "string list" where
  "reclassify_keys = [''classification'', ''user_override'', ''_version'', ''_overrideHistory'']"

definition past_edits :: "jobj \<Rightarrow> jsv list" where
  "past_edits p = (case pget p ''_overrideHistory'' of VArr vs \<Rightarrow> vs | _ \<Rightarrow> [])"

lemma stored_version_put: "stored_version (pput ''_version'' (VNum n) p) = n"
  by (simp add: stored_version_def coalesce_def js_Number_def)

text \<open>What the computed payload holds.\<close>

lemma reclassified_fields:
  assumes "stored_version p = JFin q"
  shows "pget (reclassified now input p) ''classification'' = VStr (ri_classification input)"
    "stored_version (reclassified now input p) = JFin (q + 1)"
    "\<exists>t. pget (reclassified now input p) ''_overrideHistory'' = VArr (past_edits p @ [t])"
    "isOverridden (reclassified now input p)"
    "k \<notin> set reclassify_keys \<Longrightarrow> pget (reclassified now input p) k = pget p k"
  using assms
  by (auto simp: reclassified_def Let_def stored_version_def coalesce_def js_Number_def past_edits_def isOverridden_def reclassify_keys_def)

text \<open>And what the next indexing of the row keeps of it.\<close>

lemma reclassified_survives:
  fixes now :: int and input :: reclassify_input
  assumes "stored_version p = JFin q"
  defines "p' \<equiv> reclassified now input p"
  shows "\<forall>k\<in>set reclassify_keys. pget (mergeSavedPayload p' incoming) k = pget p' k"
proof -
  have "isOverridden p'" "\<not> nullish (pget p' ''_overrideHistory'')" "\<not> nullish (pget p' ''_version'')" "\<not> nullish (pget p' ''user_override'')"
    using reclassified_fields(3,4) [OF assms(1), of now input]
    by (auto simp: p'_def reclassified_def Let_def split: jnum.split)
  then show ?thesis by (auto simp: reclassify_keys_def merge_get coalesce_def)
qed

text \<open>C17. A reclassification is applied to the version it names and to no other. If the stored version is another one the
  request fails with a conflict and nothing is written. If it is that one, exactly the addressed event changes: it gets the
  class asked for, the next version and one more entry in its history, and keeps every other field; no other event and no
  other user's ledger changes. Indexing the same transaction again keeps the edit.\<close>

theorem reclassify_versioned:
  assumes "wf_store (mock_repo.transactions r)" "findForUser u i r = Some row" "names_only (listForUser u r) i row"
    and "stored_version (row_payload row) = JFin q"
  shows "\<exists>r' res. reclassify now u i input r = (r', res) \<and>
    (if q = of_int (ri_expectedVersion input)
     then (let p' = reclassified now input (row_payload row) in
       res = Inr (eventMutation (row\<lparr>row_payload := p'\<rparr>) None) \<and> wf_store (mock_repo.transactions r') \<and>
       listForUser u r' = map (set_payload (row_id row) p') (listForUser u r) \<and>
       (\<forall>v. v = u \<or> listForUser v r' = listForUser v r) \<and>
       pget p' ''classification'' = VStr (ri_classification input) \<and> stored_version p' = JFin (q + 1) \<and>
       (\<exists>t. pget p' ''_overrideHistory'' = VArr (past_edits (row_payload row) @ [t])) \<and>
       (\<forall>k. k \<in> set reclassify_keys \<or> pget p' k = pget (row_payload row) k) \<and>
       (\<forall>incoming k. k \<notin> set reclassify_keys \<or> pget (mergeSavedPayload p' incoming) k = pget p' k))
     else r' = r \<and> res = Inl (HttpError 409 ''version_conflict''))"
proof (cases "q = of_int (ri_expectedVersion input)")
  case False
  then have "reclassify now u i input r = (r, Inl (HttpError 409 ''version_conflict''))"
    by (simp add: reclassify_def reclassify_read_def assms(2,4))
  then show ?thesis using False by simp
next
  case True
  let ?p = "reclassified now input (row_payload row)"
  let ?r' = "fst (updatePayload u i ?p r)"
  have w: "updatePayload u i ?p r = (?r', Some (row\<lparr>row_payload := ?p\<rparr>))"
    by (simp add: updatePayload_def assms(2) Let_def)
  have run: "reclassify now u i input r = (?r', Inr (eventMutation (row\<lparr>row_payload := ?p\<rparr>) None))"
    unfolding reclassify_def reclassify_read_def assms(2,4) option.case True
    by (simp add: reclassify_write_def) (subst w, simp)
  have upd: "mock_writer u i ?p r = Some ?r'" by (simp add: mock_writer_def)
  note row = owned_row(1) [OF assms(1,2)]
  have "wf_store (mock_repo.transactions ?r')" by (rule mock.write_ok [OF assms(1) upd])
  moreover have "listForUser u ?r' = map (set_payload (row_id row) ?p) (listForUser u r)"
    by (rule mock.write_rows [OF assms(1) upd row assms(3)])
  moreover have "\<forall>v. v = u \<or> listForUser v ?r' = listForUser v r" using update_private [OF assms(1,2)] by blast
  moreover note reclassified_fields(1-4) [OF assms(4), of now input]
  moreover have "\<forall>k. k \<in> set reclassify_keys \<or> pget ?p k = pget (row_payload row) k"
    using reclassified_fields(5) [OF assms(4)] by blast
  moreover have "\<forall>incoming k. k \<notin> set reclassify_keys \<or> pget (mergeSavedPayload ?p incoming) k = pget ?p k"
    using reclassified_survives [OF assms(4), of now input] by blast
  ultimately show ?thesis
    unfolding if_P [OF True] Let_def
    by - (rule exI [of _ ?r'], rule exI [of _ "Inr (eventMutation (row\<lparr>row_payload := ?p\<rparr>) None)"], intro conjI run refl; assumption)
qed

definition edited_repo :: mock_repo where
  "edited_repo = \<lparr>mock_repo.transactions = [(''e1'', listed_row ''e1'' 10), (''e2'', listed_row ''e2'' 20)], bindingOwners = [(''b1'', ''u1'')]\<rparr>"

definition to_swap :: "string \<Rightarrow> reclassify_input" where
  "to_swap reason = \<lparr>ri_classification = ''EXCHANGE'', ri_reason = Some reason, ri_expectedVersion = 1\<rparr>"

lemma edited_facts:
  "wf_store (mock_repo.transactions edited_repo)" "findForUser ''u1'' ''e1'' edited_repo = Some (listed_row ''e1'' 10)"
  "names_only (listForUser ''u1'' edited_repo) ''e1'' (listed_row ''e1'' 10)" "stored_version (row_payload (listed_row ''e1'' 10)) = JFin 1"
proof -
  have l: "listForUser ''u1'' edited_repo = [listed_row ''e1'' 10, listed_row ''e2'' 20]"
    by (simp add: listForUser_def edited_repo_def listed_row_def sort_by_def)
  show "findForUser ''u1'' ''e1'' edited_repo = Some (listed_row ''e1'' 10)" unfolding findForUser_def l by (simp add: listed_row_def)
  show "names_only (listForUser ''u1'' edited_repo) ''e1'' (listed_row ''e1'' 10)"
    unfolding names_only_def l by (simp add: addresses_def listed_row_def pget_def)
  show "wf_store (mock_repo.transactions edited_repo)" by (simp add: wf_store_def edited_repo_def listed_row_def row_key_def)
  show "stored_version (row_payload (listed_row ''e1'' 10)) = JFin 1" by code_simp
qed

theorem reclassify_versioned_witness:
  "\<exists>r'. reclassify 5 ''u1'' ''e1'' (to_swap ''x'') edited_repo =
      (r', Inr (eventMutation ((listed_row ''e1'' 10)\<lparr>row_payload := reclassified 5 (to_swap ''x'') (row_payload (listed_row ''e1'' 10))\<rparr>) None)) \<and>
    wf_store (mock_repo.transactions r')"
proof -
  have v: "(1 :: rat) = of_int (ri_expectedVersion (to_swap ''x''))" by (simp add: to_swap_def)
  show ?thesis using reclassify_versioned [OF edited_facts, of 5 "to_swap ''x''"] unfolding if_P [OF v] Let_def by blast
qed

text \<open>The version is compared when the event is read, and the write that follows does not ask again. Two requests that name
  the same version and both read before one writes both succeed, and the first edit is gone, history entry included.\<close>

lemma concurrent_edit_lost:
  assumes "reclassify_read now u i a r = Inr pa" "reclassify_read now' u i b r = Inr pb"
    and "wf_store (mock_repo.transactions r)" "findForUser u i r = Some row" "names_only (listForUser u r) i row"
    and "pget pa ''id'' = pget (row_payload row) ''id''"
  shows "\<exists>ra ma rb mb. reclassify_write u i pa r = (ra, Inr ma) \<and> reclassify_write u i pb ra = (rb, Inr mb) \<and>
    listForUser u rb = map (set_payload (row_id row) pb) (listForUser u r)"
proof -
  let ?ra = "fst (updatePayload u i pa r)" and ?row = "row\<lparr>row_payload := pa\<rparr>"
  have wa: "updatePayload u i pa r = (?ra, Some ?row)" by (simp add: updatePayload_def assms(4) Let_def)
  have upd: "mock_writer u i pa r = Some ?ra" by (simp add: mock_writer_def)
  note row = owned_row(1) [OF assms(3,4)]
  have wf: "wf_store (mock_repo.transactions ?ra)" by (rule mock.write_ok [OF assms(3) upd])
  have la: "listForUser u ?ra = map (set_payload (row_id row) pa) (listForUser u r)" by (rule mock.write_rows [OF assms(3) upd row assms(5)])
  have same: "set_payload (row_id row) pa x = (if x = row then ?row else x)" if "x \<in> set (listForUser u r)" for x
    using mock.row_inj [OF assms(3) that row] by (auto simp: set_payload_def)
  have "addresses i ?row" using assms(5,6) row by (simp add: names_only_def addresses_def)
  then have only: "names_only (listForUser u ?ra) i ?row"
    using assms(5) same unfolding names_only_def la by auto
  have "?row \<in> set (listForUser u ?ra)" unfolding la using row same by force
  moreover obtain rb where rb: "mock_writer u i pb ?ra = Some rb" by (simp add: mock_writer_def)
  ultimately have "listForUser u rb = map (set_payload (row_id ?row) pb) (listForUser u ?ra)"
    using mock.write_rows [OF wf rb _ only] by blast
  also have "\<dots> = map (set_payload (row_id row) pb) (listForUser u r)"
    unfolding la by (simp add: set_payload_def)
  finally have l: "listForUser u rb = map (set_payload (row_id row) pb) (listForUser u r)" .
  have "findForUser u i ?ra \<noteq> None"
    using only \<open>?row \<in> set (listForUser u ?ra)\<close> unfolding findForUser_def find_none names_only_def addresses_def by blast
  then obtain y where "updatePayload u i pb ?ra = (rb, Some y)"
    using rb by (auto simp: mock_writer_def updatePayload_def Let_def)
  then have "reclassify_write u i pb ?ra = (rb, Inr (eventMutation y None))" by (simp add: reclassify_write_def)
  moreover have "reclassify_write u i pa r = (?ra, Inr (eventMutation ?row None))"
    unfolding reclassify_write_def by (subst wa) simp
  ultimately show ?thesis using l by blast
qed

section \<open>The snapshot\<close>

text \<open>A table of folds is sound when every entry is the fold of its rows under the prices its key stands for.\<close>

definition prices_of_key :: "(nat, nat \<times> native_prices) jmap \<Rightarrow> nat \<Rightarrow> nat option \<Rightarrow> native_prices option \<Rightarrow> bool" where
  "prices_of_key loaded inst key prices \<longleftrightarrow> (case key of
     None \<Rightarrow> prices = None
   | Some 0 \<Rightarrow> prices = Some []
   | Some (Suc k) \<Rightarrow> (\<exists>p. mget loaded inst = Some (Suc k, p) \<and> prices = Some p))"

definition table_ok :: "(nat \<Rightarrow> transaction_record list) \<Rightarrow> (transaction_record list \<Rightarrow> native_prices option \<Rightarrow> 'b) \<Rightarrow>
    (nat, nat \<times> native_prices) jmap \<Rightarrow> (nat \<times> nat option, 'b) jmap \<Rightarrow> bool" where
  "table_ok rowsOf fold_of loaded table \<longleftrightarrow>
     (\<forall>inst key b. mget table (inst, key) = Some b \<longrightarrow> (\<exists>prices. prices_of_key loaded inst key prices \<and> b = fold_of (rowsOf inst) prices))"

definition snapshot_memo_ok :: "host \<Rightarrow> (nat \<Rightarrow> transaction_record list) \<Rightarrow> snapshot_memo \<Rightarrow> bool" where
  "snapshot_memo_ok H rowsOf m \<longleftrightarrow>
     (\<forall>inst p. mget (sm_prices m) inst = Some (0, p) \<longrightarrow> p = []) \<and>
     table_ok rowsOf (\<lambda>rows. computeCostBasis H (map as_event rows)) (sm_prices m) (sm_folds m) \<and>
     table_ok rowsOf (\<lambda>rows. computeHoldingsCostBasis H (map as_event rows)) (sm_prices m) (sm_holdings m)"

lemma table_loaded:
  assumes "table_ok rowsOf f loaded table" "mget loaded inst = None"
  shows "table_ok rowsOf f (mput inst kp loaded) table"
  unfolding table_ok_def
proof (intro allI impI)
  fix i key b assume "mget table (i, key) = Some b"
  then obtain prices where p: "prices_of_key loaded i key prices" "b = f (rowsOf i) prices" using assms(1) unfolding table_ok_def by blast
  have "prices_of_key (mput inst kp loaded) i key prices"
    using p(1) assms(2) by (auto simp: prices_of_key_def map_of_update split: option.splits nat.splits)
  then show "\<exists>prices. prices_of_key (mput inst kp loaded) i key prices \<and> b = f (rowsOf i) prices" using p(2) by blast
qed

lemma table_put:
  "table_ok rowsOf f loaded table \<Longrightarrow> prices_of_key loaded inst key prices \<Longrightarrow>
   table_ok rowsOf f loaded (mput (inst, key) (f (rowsOf inst) prices) table)"
  unfolding table_ok_def by (auto simp: map_of_update)

text \<open>Loading the prices keeps the memo sound and names them; once a load has succeeded the next call finds it.\<close>

lemma native_prices_for:
  assumes "snapshot_memo_ok H rowsOf m" "nativePricesFor H getMany inst rows m = (m', key, prices)"
  shows "snapshot_memo_ok H rowsOf m'" "prices_of_key (sm_prices m') inst (Some key) (Some prices)"
    "sm_folds m' = sm_folds m" "sm_holdings m' = sm_holdings m"
    "\<forall>e. loadNativePrices H getMany rows \<noteq> Inl e \<Longrightarrow> mget (sm_prices m') inst = Some (key, prices)"
proof -
  consider (hit) "mget (sm_prices m) inst = Some (key, prices)" "m' = m"
    | (failed) e where "mget (sm_prices m) inst = None" "loadNativePrices H getMany rows = Inl e" "m' = m" "key = 0" "prices = []"
    | (loaded) "mget (sm_prices m) inst = None" "loadNativePrices H getMany rows = Inr prices"
        "key = (if foldl (wanted_step H) [] rows = [] then 0 else Suc (sm_next m))"
        "m' = m\<lparr>sm_prices := mput inst (key, prices) (sm_prices m), sm_next := Suc (sm_next m)\<rparr>"
    using assms(2) by (auto simp: nativePricesFor_def Let_def split: option.splits sum.splits)
  then have "snapshot_memo_ok H rowsOf m' \<and> prices_of_key (sm_prices m') inst (Some key) (Some prices) \<and>
      sm_folds m' = sm_folds m \<and> sm_holdings m' = sm_holdings m \<and>
      ((\<forall>e. loadNativePrices H getMany rows \<noteq> Inl e) \<longrightarrow> mget (sm_prices m') inst = Some (key, prices))"
  proof cases
    case hit
    have "prices_of_key (sm_prices m) inst (Some key) (Some prices)"
      using hit(1) assms(1) by (cases key) (auto simp: prices_of_key_def snapshot_memo_ok_def)
    then show ?thesis using hit assms(1) by simp
  next
    case failed
    then show ?thesis using assms(1) by (simp add: prices_of_key_def)
  next
    case loaded
    have none: "prices = []" if "key = 0"
      using loaded(2,3) that by (auto simp: loadNativePrices_def Let_def split: if_splits)
    have "snapshot_memo_ok H rowsOf m'"
      using assms(1) none by (auto simp: snapshot_memo_ok_def loaded(4) map_of_update intro: table_loaded [OF _ loaded(1)])
    moreover have "prices_of_key (sm_prices m') inst (Some key) (Some prices)"
      using none by (cases key) (auto simp: prices_of_key_def loaded(4) map_of_update)
    ultimately show ?thesis by (simp add: loaded(4) map_of_update)
  qed
  then show "snapshot_memo_ok H rowsOf m'" "prices_of_key (sm_prices m') inst (Some key) (Some prices)"
    "sm_folds m' = sm_folds m" "sm_holdings m' = sm_holdings m"
    "\<forall>e. loadNativePrices H getMany rows \<noteq> Inl e \<Longrightarrow> mget (sm_prices m') inst = Some (key, prices)"
    by blast+
qed

text \<open>The prices of a read, under either setting of the gas option.\<close>

definition gas_prices :: "host \<Rightarrow> (price_key list \<Rightarrow> (string, (string, string) jmap) result) \<Rightarrow> nat \<Rightarrow> transaction_record list \<Rightarrow> bool \<Rightarrow>
    snapshot_memo \<Rightarrow> snapshot_memo \<times> nat option \<times> native_prices option" where
  "gas_prices H getMany inst rows gas m =
     (if gas then (case nativePricesFor H getMany inst rows m of (m, key, prices) \<Rightarrow> (m, Some key, Some prices)) else (m, None, None))"

lemma gas_prices_ok:
  assumes "snapshot_memo_ok H rowsOf m" "gas_prices H getMany inst rows gas m = (m', key, prices)"
  shows "snapshot_memo_ok H rowsOf m'" "prices_of_key (sm_prices m') inst key prices" "(prices = None) = (\<not> gas)"
    "\<forall>e. loadNativePrices H getMany rows \<noteq> Inl e \<Longrightarrow> sm_prices later = sm_prices m' \<Longrightarrow>
       gas_prices H getMany' inst rows gas later = (later, key, prices)"
proof -
  have off: "\<not> gas \<Longrightarrow> m' = m \<and> key = None \<and> prices = None" using assms(2) by (simp add: gas_prices_def)
  obtain n k p where n: "nativePricesFor H getMany inst rows m = (n, k, p)" by (cases "nativePricesFor H getMany inst rows m")
  have on: "gas \<Longrightarrow> m' = n \<and> key = Some k \<and> prices = Some p" using assms(2) by (simp add: gas_prices_def n)
  note native = native_prices_for [OF assms(1) n]
  show "snapshot_memo_ok H rowsOf m'" "prices_of_key (sm_prices m') inst key prices" "(prices = None) = (\<not> gas)"
    using off on native(1,2) assms(1) by (cases gas; simp add: prices_of_key_def)+
  show "gas_prices H getMany' inst rows gas later = (later, key, prices)"
    if "\<forall>e. loadNativePrices H getMany rows \<noteq> Inl e" "sm_prices later = sm_prices m'"
    using off on native(5) [OF that(1)] that(2) by (cases gas) (simp_all add: gas_prices_def nativePricesFor_def)
qed

text \<open>C24. A snapshot is the fold of exactly the rows it is asked for, with gas valued if and only if asked for, whatever
  the memo already holds, and taking it keeps the memo sound. A repeated read of the same rows folds nothing again: when
  the prices could be read the first time it gives the same answer and leaves the memo as it is, whatever the price cache
  says by then. A failed probe costs the gas values of the one read only: it leaves no price map in the memo.\<close>

theorem snapshot_is_fold:
  assumes "snapshot_memo_ok H rowsOf m" "snapshotFor H getMany inst (rowsOf inst) gas m = (m', basis)"
  shows "snapshot_memo_ok H rowsOf m' \<and>
    (\<exists>prices. basis = computeCostBasis H (map as_event (rowsOf inst)) prices \<and> (prices = None) = (\<not> gas)) \<and>
    (case loadNativePrices H getMany (rowsOf inst) of
       Inr _ \<Rightarrow> (\<forall>getMany'. snapshotFor H getMany' inst (rowsOf inst) gas m' = (m', basis))
     | Inl _ \<Rightarrow> sm_prices m' = sm_prices m)"
proof -
  let ?f = "\<lambda>rows. computeCostBasis H (map as_event rows)" and ?rows = "rowsOf inst"
  obtain n key prices where g: "gas_prices H getMany inst ?rows gas m = (n, key, prices)"
    by (cases "gas_prices H getMany inst ?rows gas m")
  note ok = gas_prices_ok [OF assms(1) g]
  have failed: "sm_prices n = sm_prices m" if "loadNativePrices H getMany ?rows = Inl e" for e
    using g that by (auto simp: gas_prices_def nativePricesFor_def split: if_splits option.splits)
  have tables: "table_ok rowsOf ?f (sm_prices n) (sm_folds n)" using ok(1) by (simp add: snapshot_memo_ok_def)
  have snap: "snapshotFor H getMany2 inst ?rows gas m2 = (case mget (sm_folds n2) (inst, key2) of
      Some b \<Rightarrow> (n2, b) | None \<Rightarrow> (n2\<lparr>sm_folds := mput (inst, key2) (?f ?rows prices2) (sm_folds n2)\<rparr>, ?f ?rows prices2))"
    if "gas_prices H getMany2 inst ?rows gas m2 = (n2, key2, prices2)" for getMany2 m2 n2 key2 prices2
    using that unfolding snapshotFor_def gas_prices_def [symmetric] by (simp add: Let_def split: option.split)
  have unique: "p = prices" if "prices_of_key (sm_prices n) inst key p" for p
    using that ok(2) by (auto simp: prices_of_key_def split: option.splits nat.splits)
  show ?thesis
  proof (cases "mget (sm_folds n) (inst, key)")
    case (Some b)
    then have m': "m' = n" "basis = b" using assms(2) by (simp_all add: snap [OF g])
    have "b = ?f ?rows prices" using tables Some unique unfolding table_ok_def by blast
    moreover have "snapshotFor H getMany' inst ?rows gas n = (n, b)" if "\<forall>e. loadNativePrices H getMany ?rows \<noteq> Inl e" for getMany'
      by (simp add: snap [OF ok(4) [OF that refl]] Some)
    ultimately show ?thesis
      using ok(1,3) failed by (auto simp: m' split: sum.split)
  next
    case None
    let ?n = "n\<lparr>sm_folds := mput (inst, key) (?f ?rows prices) (sm_folds n)\<rparr>"
    have m': "m' = ?n" "basis = ?f ?rows prices" using assms(2) None by (auto simp: snap [OF g])
    have "snapshot_memo_ok H rowsOf ?n"
      using ok(1) table_put [OF tables ok(2)] by (simp add: snapshot_memo_ok_def)
    moreover have "snapshotFor H getMany' inst ?rows gas ?n = (?n, ?f ?rows prices)"
      if l: "\<forall>e. loadNativePrices H getMany ?rows \<noteq> Inl e" for getMany'
    proof -
      have "gas_prices H getMany' inst ?rows gas ?n = (?n, key, prices)" by (rule ok(4) [OF l]) simp
      from snap [OF this] show ?thesis by (simp add: map_of_update)
    qed
    ultimately show ?thesis using ok(3) failed by (auto simp: m' split: sum.split)
  qed
qed

definition failing_cache :: "price_key list \<Rightarrow> (string, (string, string) jmap) result" where
  "failing_cache ks = Inl ''down''"

definition empty_memo :: snapshot_memo where
  "empty_memo = \<lparr>sm_prices = [], sm_folds = [], sm_holdings = [], sm_next = 0\<rparr>"

lemma empty_snapshot_ok: "snapshot_memo_ok H rowsOf empty_memo"
  by (simp add: snapshot_memo_ok_def table_ok_def empty_memo_def)

theorem snapshot_is_fold_witness:
  "\<exists>m' basis prices. snapshotFor std_host failing_cache 0 listed_rows True empty_memo = (m', basis) \<and>
     basis = computeCostBasis std_host (map as_event listed_rows) (Some prices)"
proof -
  obtain m' basis where s: "snapshotFor std_host failing_cache 0 listed_rows True empty_memo = (m', basis)"
    by (cases "snapshotFor std_host failing_cache 0 listed_rows True empty_memo")
  have "\<exists>prices. basis = computeCostBasis std_host (map as_event listed_rows) prices \<and> (prices = None) = (\<not> True)"
    using snapshot_is_fold [OF empty_snapshot_ok, of std_host failing_cache 0 "\<lambda>_. listed_rows" True m' basis] s by blast
  then show ?thesis using s by auto
qed

end
