(* ===== verification/ReportVc_Store.thy ===== *)
theory ReportVc_Store
  imports Host
begin

text \<open>
  The stored workflow of report credentials, \<open>report-vc/report-vc.store.ts\<close>: the attempts to link a wallet, to issue a
  credential or to verify a presentation, the wallet of each user and the credentials that were issued. The tables are
  insertion-ordered maps by primary key and every operation is one transaction of the database: it happens at one
  moment, and a rejection inside it leaves the tables as they were. The unique columns of \<open>prisma/schema.prisma\<close>
  (\<open>upstreamId\<close>, \<open>holderDid\<close> of a wallet, \<open>issuanceId\<close>) are checked by the writes that set them.
\<close>

section \<open>Tables\<close>

datatype purpose = Link | Issue | Verify

datatype attempt_status = Creating | Pending | Linked | Issued | Verified | Rejected | Failed | Cancelled

record attempt =
  at_id :: string
  at_purpose :: purpose
  at_userId :: "string option"
  at_secretHash :: string
  at_status :: attempt_status
  at_upstreamId :: "string option"
  at_idempotencyKey :: "string option"
  at_requestHash :: "string option"
  at_holderDid :: "string option"
  at_evidenceRoot :: "string option"
  at_snapshot :: jsv
  at_offer :: jsv
  at_result :: jsv
  at_disclosure :: "string option"
  at_expiresAt :: int
  at_nextPollAt :: int
  at_leaseToken :: "string option"
  at_leaseUntil :: "int option"
  at_createdAt :: int

record vc_wallet =
  w_holderDid :: string
  w_cxVerifiedAt :: int
  w_linkedAt :: int

record vc_credential =
  cr_id :: string
  cr_issuanceId :: string
  cr_userId :: string
  cr_holderDid :: string
  cr_evidenceRoot :: string
  cr_countryCode :: string
  cr_taxYear :: jnum
  cr_snapshot :: jsv
  cr_issuedAt :: int

record vc_db =
  attempts :: "(string, attempt) jmap"
  wallets :: "(string, vc_wallet) jmap"
  credentials :: "(string, vc_credential) jmap"

text \<open>\<open>reject\<close>: an HTTP exception of status 409 unless another is named; a database error leaves as 500.\<close>

definition reject :: "string \<Rightarrow> http_error" where
  "reject code = HttpError 409 code"

definition reject_as :: "nat \<Rightarrow> string \<Rightarrow> http_error" where
  "reject_as status code = HttpError status code"

definition unique_violation :: http_error where
  "unique_violation = HttpError 500 ''P2002''"

section \<open>Reads\<close>

definition open_status :: "attempt_status \<Rightarrow> bool" where
  "open_status s \<longleftrightarrow> s = Creating \<or> s = Pending"

definition active_at :: "int \<Rightarrow> attempt \<Rightarrow> bool" where
  "active_at now a \<longleftrightarrow> open_status (at_status a) \<and> now < at_expiresAt a"

definition active_of :: "int \<Rightarrow> string \<Rightarrow> vc_db \<Rightarrow> attempt list" where
  "active_of now user db = filter (\<lambda>a. at_userId a = Some user \<and> active_at now a) (mvalues (attempts db))"

text \<open>The newest row: of two created at once the first one found.\<close>

definition newest :: "attempt list \<Rightarrow> attempt option" where
  "newest as = (case sort_by (\<lambda>a b. at_createdAt b \<le> at_createdAt a) as of [] \<Rightarrow> None | a # _ \<Rightarrow> Some a)"

definition activeLink :: "int \<Rightarrow> string \<Rightarrow> vc_db \<Rightarrow> attempt option" where
  "activeLink now user db = newest (filter (\<lambda>a. at_purpose a = Link) (active_of now user db))"

definition latestAttempt :: "string \<Rightarrow> string \<Rightarrow> vc_db \<Rightarrow> attempt option" where
  "latestAttempt user merkle db = newest (filter (\<lambda>a. at_userId a = Some user \<and> at_evidenceRoot a = Some merkle \<and> at_purpose a = Issue)
     (mvalues (attempts db)))"

section \<open>Transactions\<close>

definition DAY_MS :: int where "DAY_MS = 86400000"

definition vc_cleanup :: "int \<Rightarrow> vc_db \<Rightarrow> vc_db" where
  "vc_cleanup now db = db\<lparr>attempts := filter (\<lambda>(_, a). \<not> at_expiresAt a < now - DAY_MS) (attempts db)\<rparr>"

definition vc_unlink :: "int \<Rightarrow> string \<Rightarrow> vc_db \<Rightarrow> (http_error, vc_db) result" where
  "vc_unlink now user db =
     (if active_of now user db \<noteq> [] then Inl (reject ''issuance_in_progress'')
      else Inr (db\<lparr>wallets := mdel user (wallets db)\<rparr>))"

definition with_key :: "string \<Rightarrow> string \<Rightarrow> vc_db \<Rightarrow> attempt option" where
  "with_key user key db = List.find (\<lambda>a. at_userId a = Some user \<and> at_idempotencyKey a = Some key) (mvalues (attempts db))"

text \<open>What a new attempt of a user must find: an agreeing wallet and no attempt under way.\<close>

definition admission :: "int \<Rightarrow> string \<Rightarrow> attempt \<Rightarrow> vc_db \<Rightarrow> http_error option" where
  "admission now user a db = (let wallet = mget (wallets db) user in
     if at_purpose a = Link \<and> wallet \<noteq> None then Some (reject ''wallet_already_linked'')
     else if at_purpose a = Issue \<and> (case wallet of None \<Rightarrow> True | Some w \<Rightarrow> Some (w_holderDid w) \<noteq> at_holderDid a)
     then Some (reject ''wallet_unlinked'')
     else if active_of now user db \<noteq> [] then Some (reject ''issuance_in_progress'')
     else None)"

definition insert_attempt :: "attempt \<Rightarrow> vc_db \<Rightarrow> (http_error, vc_db \<times> attempt) result" where
  "insert_attempt a db = (if mhas (attempts db) (at_id a) then Inl unique_violation
     else Inr (db\<lparr>attempts := mput (at_id a) a (attempts db)\<rparr>, a))"

definition vc_create :: "int \<Rightarrow> attempt \<Rightarrow> vc_db \<Rightarrow> (http_error, vc_db \<times> attempt) result" where
  "vc_create now a db = (case at_userId a of
     None \<Rightarrow> insert_attempt a db
   | Some user \<Rightarrow>
       (case (case at_idempotencyKey a of None \<Rightarrow> None | Some key \<Rightarrow> if key = [] then None else with_key user key db) of
          Some existing \<Rightarrow> if at_requestHash existing \<noteq> at_requestHash a then Inl (reject ''idempotency_conflict'') else Inr (db, existing)
        | None \<Rightarrow> (case admission now user a db of
            Some e \<Rightarrow> Inl e
          | None \<Rightarrow> insert_attempt a db)))"

text \<open>\<open>updateMany\<close> on one id, under the conditions of its \<open>where\<close>.\<close>

definition update_where :: "string \<Rightarrow> (attempt \<Rightarrow> bool) \<Rightarrow> (attempt \<Rightarrow> attempt) \<Rightarrow> vc_db \<Rightarrow> vc_db \<times> nat" where
  "update_where i P f db = (case mget (attempts db) i of
     Some a \<Rightarrow> if P a then (db\<lparr>attempts := mput i (f a) (attempts db)\<rparr>, 1) else (db, 0)
   | None \<Rightarrow> (db, 0))"

definition vc_activate :: "string \<Rightarrow> string \<Rightarrow> jsv \<Rightarrow> int \<Rightarrow> vc_db \<Rightarrow> (http_error, vc_db) result" where
  "vc_activate i upstream offer expires db =
     (let (db', changed) = update_where i (\<lambda>a. at_status a = Creating)
            (\<lambda>a. a\<lparr>at_status := Pending, at_upstreamId := Some upstream, at_offer := offer, at_expiresAt := expires\<rparr>) db
      in if changed = 1 \<and> list_ex (\<lambda>a. at_id a \<noteq> i \<and> at_upstreamId a = Some upstream) (mvalues (attempts db)) then Inl unique_violation
         else Inr db')"

definition vc_fail :: "string \<Rightarrow> vc_db \<Rightarrow> vc_db" where
  "vc_fail i db = fst (update_where i (\<lambda>a. at_status a = Creating) (\<lambda>a. a\<lparr>at_status := Failed\<rparr>) db)"

definition vc_cancel :: "string \<Rightarrow> vc_db \<Rightarrow> vc_db" where
  "vc_cancel i db = fst (update_where i (\<lambda>a. open_status (at_status a))
     (\<lambda>a. a\<lparr>at_status := Cancelled, at_leaseToken := None, at_leaseUntil := None\<rparr>) db)"

definition LEASE_MS :: int where "LEASE_MS = 60000"
definition POLL_MS :: int where "POLL_MS = 2000"

definition lease_free :: "int \<Rightarrow> attempt \<Rightarrow> bool" where
  "lease_free now a \<longleftrightarrow> at_status a = Pending \<and> now < at_expiresAt a \<and> at_nextPollAt a \<le> now \<and>
     (case at_leaseUntil a of None \<Rightarrow> True | Some t \<Rightarrow> t \<le> now)"

definition vc_acquire :: "string \<Rightarrow> string \<Rightarrow> int \<Rightarrow> vc_db \<Rightarrow> vc_db \<times> bool" where
  "vc_acquire i token now db =
     (let (db', changed) = update_where i (lease_free now)
            (\<lambda>a. a\<lparr>at_leaseToken := Some token, at_leaseUntil := Some (now + LEASE_MS), at_nextPollAt := now + POLL_MS\<rparr>) db
      in (db', changed = 1))"

definition vc_release :: "string \<Rightarrow> string \<Rightarrow> vc_db \<Rightarrow> vc_db" where
  "vc_release i token db = fst (update_where i (\<lambda>a. at_leaseToken a = Some token)
     (\<lambda>a. a\<lparr>at_leaseToken := None, at_leaseUntil := None\<rparr>) db)"

text \<open>What a result brings besides the new status: the wallet of a link, the credential of an issuance, or nothing.\<close>

datatype completion_detail =
    NoDetail
  | WalletDetail string "int option"
  | CredentialDetail string int string jnum

definition holds_lease :: "int \<Rightarrow> string \<Rightarrow> attempt \<Rightarrow> bool" where
  "holds_lease now token a \<longleftrightarrow> at_leaseToken a = Some token \<and> (case at_leaseUntil a of None \<Rightarrow> False | Some t \<Rightarrow> now < t) \<and>
     now < at_expiresAt a \<and> at_status a = Pending"

definition add_wallet :: "int \<Rightarrow> attempt \<Rightarrow> string \<Rightarrow> int option \<Rightarrow> vc_db \<Rightarrow> (http_error, vc_db) result" where
  "add_wallet now row holder cx db = (case at_userId row of
     None \<Rightarrow> Inl (reject_as 401 ''unauthorized'')
   | Some user \<Rightarrow>
       if list_ex (\<lambda>(u, w). w_holderDid w = holder \<and> u \<noteq> user) (wallets db) then Inl (reject ''did_linked_to_other_account'')
       else (case cx of
           None \<Rightarrow> Inl (HttpError 500 ''Invalid Date'')
         | Some t \<Rightarrow>
             if mhas (wallets db) user then Inl (reject ''did_linked_to_other_account'')
             else Inr (db\<lparr>wallets := mput user \<lparr>w_holderDid = holder, w_cxVerifiedAt = t, w_linkedAt = now\<rparr> (wallets db)\<rparr>)))"

definition add_credential :: "attempt \<Rightarrow> string \<Rightarrow> int \<Rightarrow> string \<Rightarrow> jnum \<Rightarrow> vc_db \<Rightarrow> (http_error, vc_db) result" where
  "add_credential row cid issuedAt country year db = (case (at_userId row, at_holderDid row, at_evidenceRoot row) of
     (Some user, Some holder, Some merkle) \<Rightarrow>
       if mhas (credentials db) cid \<or> list_ex (\<lambda>c. cr_issuanceId c = at_id row) (mvalues (credentials db)) then Inl unique_violation
       else Inr (db\<lparr>credentials := mput cid \<lparr>cr_id = cid, cr_issuanceId = at_id row, cr_userId = user, cr_holderDid = holder,
              cr_evidenceRoot = merkle, cr_countryCode = country, cr_taxYear = year, cr_snapshot = at_snapshot row, cr_issuedAt = issuedAt\<rparr>
              (credentials db)\<rparr>)
   | _ \<Rightarrow> Inl (HttpError 500 ''Argument is missing''))"

definition vc_complete :: "int \<Rightarrow> attempt \<Rightarrow> string \<Rightarrow> attempt_status \<Rightarrow> jsv \<Rightarrow> completion_detail \<Rightarrow> vc_db \<Rightarrow> (http_error, vc_db) result" where
  "vc_complete now row token status answer detail db =
     (case update_where (at_id row) (holds_lease now token)
         (\<lambda>a. a\<lparr>at_status := status, at_result := answer, at_leaseToken := None, at_leaseUntil := None\<rparr>) db of
        (db', changed) \<Rightarrow>
          if changed = 0 then Inl (reject ''attempt_cancelled'')
          else (case detail of
              NoDetail \<Rightarrow> Inr db'
            | WalletDetail holder cx \<Rightarrow> add_wallet now row holder cx db'
            | CredentialDetail cid issuedAt country year \<Rightarrow> add_credential row cid issuedAt country year db'))"

end
