(* ===== verification/ReportVc.thy ===== *)
theory ReportVc
  imports ReportVc_Store Evidence
begin

text \<open>
  The service of report credentials, \<open>report-vc/report-vc.service.ts\<close>, its snapshot policy
  (\<open>report-vc.policy.ts\<close>) and the sequence of its requests. A request that waits for the credential gateway is split
  there: the part before the call leaves a waiting call in the state of the machine, the part after it runs when the
  answer arrives, and other requests run in between. What the service reads of other parts (the identity check, the
  evidence, the anchors, the gateway's answers) are arguments; \<open>randomUUID\<close> and the clock too.
\<close>

section \<open>Policy\<close>

record vc_env =
  ve_host :: host
  ve_enabled :: bool
  ve_hmac :: "string \<Rightarrow> string"
  ve_sha256 :: "string \<Rightarrow> string"
  ve_keccak :: "string \<Rightarrow> string"
  ve_issuerDid :: jsv
  ve_chainId :: string

text \<open>\<open>object(value)\<close>: a plain object, neither \<open>null\<close> nor an array.\<close>

definition as_object :: "jsv \<Rightarrow> jobj option" where
  "as_object v = (case v of VObj o' \<Rightarrow> Some o' | _ \<Rightarrow> None)"

definition digits :: "string \<Rightarrow> bool" where
  "digits s \<longleftrightarrow> s \<noteq> [] \<and> list_all (\<lambda>c. digit_in 10 c \<noteq> None) s"

definition all_hex :: "string \<Rightarrow> bool" where
  "all_hex s \<longleftrightarrow> list_all (\<lambda>c. digit_in 16 c \<noteq> None) s"

definition lower_hex64 :: "string \<Rightarrow> bool" where
  "lower_hex64 s \<longleftrightarrow> length s = 64 \<and> all_hex s \<and> toLowerCase s = s"

definition secretHash :: "vc_env \<Rightarrow> string \<Rightarrow> string" where
  "secretHash E value = ve_sha256 E value"

definition matchesSecret :: "vc_env \<Rightarrow> string option \<Rightarrow> string \<Rightarrow> bool" where
  "matchesSecret E secret expected = (case secret of
     None \<Rightarrow> False
   | Some s \<Rightarrow> lower_hex64 s \<and> lower_hex64 expected \<and> secretHash E s = expected)"

text \<open>The character \<open>.\<close> of a regular expression matches no line end.\<close>

fun one_line :: "string \<Rightarrow> bool" where
  "one_line [] = True"
| "one_line (c # cs) = ((of_char c :: nat) \<notin> {10, 13} \<and>
     \<not> (\<exists>d \<in> {168, 169}. startsWith (c # cs) [char_of (226 :: nat), char_of (128 :: nat), char_of (d :: nat)]) \<and> one_line cs)"

definition lower_alnum :: "char \<Rightarrow> bool" where
  "lower_alnum c \<longleftrightarrow> digit_val c \<noteq> None \<and> lower_char c = c"

text \<open>\<open>/^did:[a-z0-9]+:.+$/\<close>.\<close>

definition did_text :: "string \<Rightarrow> bool" where
  "did_text s \<longleftrightarrow> startsWith s ''did:'' \<and>
     (let rest = drop 4 s; meth = takeWhile lower_alnum rest; tail = drop (length meth) rest in
      meth \<noteq> [] \<and> startsWith tail '':'' \<and> 1 < length tail \<and> one_line (drop 1 tail))"

text \<open>\<open>/^-?\d+(\.\d+)?$/\<close>.\<close>

definition amount_text :: "string \<Rightarrow> bool" where
  "amount_text s \<longleftrightarrow>
     (let u = (if startsWith s ''-'' then drop 1 s else s); ip = takeWhile (\<lambda>c. c \<noteq> CHR ''.'') u; fp = drop (length ip) u in
      digits ip \<and> (fp = [] \<or> digits (drop 1 fp)))"

definition hash_text :: "string \<Rightarrow> bool" where
  "hash_text s \<longleftrightarrow> startsWith s ''0x'' \<and> length s = 66 \<and> all_hex (drop 2 s)"

text \<open>\<open>/^[0-9a-f-]{36}$/i\<close>.\<close>

definition uuid_text :: "string \<Rightarrow> bool" where
  "uuid_text s \<longleftrightarrow> length s = 36 \<and> list_all (\<lambda>c. digit_in 16 c \<noteq> None \<or> c = CHR ''-'') s"

record snapshot_input =
  si_root :: string
  si_countryCode :: string
  si_taxYear :: int
  si_holderDid :: string
  si_cxVerifiedAt :: int
  si_document :: jsv
  si_chain :: string
  si_txHash :: string
  si_blockNumber :: string

text \<open>The leaves of a document of version 1: up to fifty thousand objects.\<close>

definition document_leaves :: "jsv \<Rightarrow> jobj list option" where
  "document_leaves doc = (case as_object doc of
     None \<Rightarrow> None
   | Some d \<Rightarrow> (case (pget d ''version'', pget d ''leaves'') of
       (VNum n, VArr vs) \<Rightarrow>
         if n = JFin 1 \<and> vs \<noteq> [] \<and> length vs \<le> 50000 \<and> list_all (\<lambda>v. as_object v \<noteq> None) vs then Some (map (\<lambda>v. the (as_object v)) vs) else None
     | _ \<Rightarrow> None))"

definition amount_field :: "jobj \<Rightarrow> string \<Rightarrow> bool" where
  "amount_field totals k = (case pget totals k of VStr s \<Rightarrow> amount_text s | _ \<Rightarrow> False)"

definition vc_snapshot :: "vc_env \<Rightarrow> snapshot_input \<Rightarrow> (http_error, jobj) result" where
  "vc_snapshot E i =
     (if \<not> did_text (si_holderDid i) then Inl (reject_as 400 ''invalid_holder'')
      else case document_leaves (si_document i) of
        None \<Rightarrow> Inl (reject_as 400 ''invalid_evidence'')
      | Some leaves \<Rightarrow> rbind (plain_error (merkleRoot (ve_keccak E) (map VObj leaves)) (HttpError 500)) (\<lambda>merkle.
          let header = hd leaves in
          if toLowerCase merkle \<noteq> toLowerCase (si_root i) \<or> pget header ''kind'' \<noteq> VStr ''header'' \<or>
             pget header ''country'' \<noteq> VStr (si_countryCode i) \<or> pget header ''taxYear'' \<noteq> jint (si_taxYear i) \<or>
             pget header ''currency'' \<noteq> VStr ''KRW''
          then Inl (reject_as 400 ''invalid_evidence'')
          else case as_object (pget header ''totals'') of
            None \<Rightarrow> Inl (reject_as 400 ''invalid_evidence'')
          | Some totals \<Rightarrow>
              if \<not> list_all (amount_field totals) [''estimatedCharge'', ''taxableGains'', ''incomeTotal''] then Inl (reject_as 400 ''invalid_evidence'')
              else if \<not> hash_text (si_txHash i) \<or> \<not> digits (si_blockNumber i) then Inl (reject ''evidence_not_anchored'')
              else Inr [(''evidenceRoot'', VStr (si_root i)), (''countryCode'', VStr (si_countryCode i)), (''taxYear'', jint (si_taxYear i)),
                (''holderDid'', VStr (si_holderDid i)), (''cxVerifiedAt'', VStr (toISOString (si_cxVerifiedAt i))),
                (''anchor'', VObj [(''chain'', VStr (si_chain i)), (''txHash'', VStr (si_txHash i)), (''blockNumber'', VStr (si_blockNumber i))]),
                (''totals'', VObj [(''currency'', VStr ''KRW''), (''estimatedCharge'', pget totals ''estimatedCharge''),
                   (''taxableGains'', pget totals ''taxableGains''), (''incomeTotal'', pget totals ''incomeTotal'')]),
                (''files'', VArr (map VObj (filter (\<lambda>leaf. pget leaf ''kind'' = VStr ''file'') leaves))),
                (''disclaimer'', VStr ''estimated_tax_report'')]))"

section \<open>Requests\<close>

text \<open>A request ends with an answer (status and body), with an exception, or waits for the gateway. The cookie is the
  browser's secret where the request sets it.\<close>

datatype vc_call =
    OfferCall attempt jobj
  | ResultCall attempt string
  | CancelCall attempt
  | ReleaseCall string string

datatype vc_outcome =
    Answer "string option" nat jsv
  | Throw "string option" http_error
  | Wait vc_call

definition settled_status :: "attempt_status \<Rightarrow> bool" where
  "settled_status s \<longleftrightarrow> s \<in> {Linked, Issued, Verified, Rejected, Failed, Cancelled}"

definition status_name :: "attempt_status \<Rightarrow> string" where
  "status_name s = (case s of Creating \<Rightarrow> ''creating'' | Pending \<Rightarrow> ''pending'' | Linked \<Rightarrow> ''linked'' | Issued \<Rightarrow> ''issued''
     | Verified \<Rightarrow> ''verified'' | Rejected \<Rightarrow> ''rejected'' | Failed \<Rightarrow> ''failed'' | Cancelled \<Rightarrow> ''cancelled'')"

definition vc_secret :: "vc_env \<Rightarrow> string \<Rightarrow> string option \<Rightarrow> string" where
  "vc_secret E i user = ve_hmac E (''report-vc:'' @ i @ '':'' @ (case user of Some u \<Rightarrow> u | None \<Rightarrow> ''public''))"

text \<open>The budget of new attempts: sixty a minute for the whole process.\<close>

definition vc_rate :: "int \<Rightarrow> int \<times> nat \<Rightarrow> (int \<times> nat) \<times> bool" where
  "vc_rate now budget =
     (let b = (if fst budget \<le> now then (now + 60000, 0) else budget); b' = (fst b, snd b + 1) in (b', snd b' \<le> 60))"

definition requireCx :: "vc_env \<Rightarrow> int option \<Rightarrow> (http_error, int) result" where
  "requireCx E cx = (if \<not> ve_enabled E then Inl (reject_as 503 ''feature_unavailable'')
     else case cx of None \<Rightarrow> Inl (reject_as 403 ''cx_verification_required'') | Some t \<Rightarrow> Inr t)"

definition blank_attempt :: "vc_env \<Rightarrow> int \<Rightarrow> purpose \<Rightarrow> string option \<Rightarrow> string \<Rightarrow> attempt" where
  "blank_attempt E now p user i = \<lparr>at_id = i, at_purpose = p, at_userId = user, at_secretHash = secretHash E (vc_secret E i user),
     at_status = Creating, at_upstreamId = None, at_idempotencyKey = None, at_requestHash = None, at_holderDid = None,
     at_evidenceRoot = None, at_snapshot = VNull, at_offer = VNull, at_result = VNull, at_disclosure = None,
     at_expiresAt = now + 180000, at_nextPollAt = now, at_leaseToken = None, at_leaseUntil = None, at_createdAt = now\<rparr>"

definition newAttempt :: "vc_env \<Rightarrow> int \<Rightarrow> attempt \<Rightarrow> vc_db \<times> int \<times> nat \<Rightarrow> (vc_db \<times> int \<times> nat) \<times> (http_error, attempt) result" where
  "newAttempt E now a = (\<lambda>(db, budget).
     if \<not> ve_enabled E then ((db, budget), Inl (reject_as 503 ''feature_unavailable''))
     else (case vc_rate now budget of
       (budget, False) \<Rightarrow> ((db, budget), Inl (reject_as 429 ''rate_limited''))
     | (budget, True) \<Rightarrow> (case vc_create now a db of
         Inl e \<Rightarrow> ((db, budget), Inl e)
       | Inr (db, row) \<Rightarrow> ((db, budget), Inr row))))"

definition vc_view :: "int \<Rightarrow> attempt \<Rightarrow> jobj" where
  "vc_view now row = pspread [(''issuanceId'', VStr (at_id row)),
     (''status'', VStr (if \<not> settled_status (at_status row) \<and> at_expiresAt row \<le> now then ''expired''
        else if at_status row = Pending then ''offer_ready'' else if at_status row = Creating then ''issuing'' else status_name (at_status row))),
     (''createdAt'', VStr (toISOString (at_createdAt row))), (''expiresAt'', VStr (toISOString (at_expiresAt row)))]
     (case as_object (at_result row) of Some r \<Rightarrow> r | None \<Rightarrow> [])"

section \<open>Offers\<close>

definition offer_reply :: "vc_env \<Rightarrow> int \<Rightarrow> attempt \<Rightarrow> vc_outcome" where
  "offer_reply E now row = (let cookie = Some (vc_secret E (at_id row) (at_userId row)) in
     if at_expiresAt row \<le> now then Throw cookie (reject_as 410 ''attempt_expired'')
     else if settled_status (at_status row)
     then Answer cookie 200 (coalesce (at_result row) (VObj (pput ''status'' (VStr (status_name (at_status row))) (vc_view now row))))
     else case as_object (at_offer row) of
       None \<Rightarrow> Throw cookie (reject_as 503 ''issuer_unavailable'')
     | Some offer \<Rightarrow> Answer cookie 200 (VObj (pspread
         (case at_purpose row of
            Link \<Rightarrow> [(''attemptId'', VStr (at_id row))]
          | Verify \<Rightarrow> [(''verificationId'', VStr (at_id row)), (''disclosure'', case at_disclosure row of Some d \<Rightarrow> VStr d | None \<Rightarrow> VNull)]
          | Issue \<Rightarrow> vc_view now row)
         [(''qr'', pget offer ''qr''), (''expiresAt'', VStr (toISOString (at_expiresAt row))), (''pollAfterMs'', jint 2000)])))"

definition offer_begin :: "vc_env \<Rightarrow> int \<Rightarrow> attempt \<Rightarrow> jobj \<Rightarrow> vc_outcome" where
  "offer_begin E now row request = (if at_status row = Creating then Wait (OfferCall row (pspread [(''requestId'', VStr (at_id row))] request))
     else offer_reply E now row)"

text \<open>An offer the gateway may give: its id, the text of its code and the end of its validity.\<close>

definition offer_fields :: "vc_env \<Rightarrow> jobj \<Rightarrow> (string \<times> int) option" where
  "offer_fields E offer = (case (pget offer ''offerId'', as_object (pget offer ''qr''), pget offer ''expiresAt'') of
     (VStr upstream, Some qr, VStr stamp) \<Rightarrow>
       (case (pget qr ''text'', dateParse (ve_host E) stamp) of (VStr _, Some t) \<Rightarrow> Some (upstream, t) | _ \<Rightarrow> None)
   | _ \<Rightarrow> None)"

definition offer_apply :: "vc_env \<Rightarrow> int \<Rightarrow> attempt \<Rightarrow> (http_error, jobj) result \<Rightarrow> vc_db \<Rightarrow> (http_error, vc_db) result" where
  "offer_apply E now row answer db = (case answer of
     Inl e \<Rightarrow> Inl e
   | Inr offer \<Rightarrow> (case offer_fields E offer of
       None \<Rightarrow> Inl (reject_as 502 ''invalid_provider_response'')
     | Some (upstream, t) \<Rightarrow> (let expires = min (at_expiresAt row) t in
         if expires \<le> now then Inl (reject_as 410 ''attempt_expired'') else vc_activate (at_id row) upstream (VObj offer) expires db)))"

definition offer_end :: "vc_env \<Rightarrow> int \<Rightarrow> attempt \<Rightarrow> (http_error, jobj) result \<Rightarrow> vc_db \<Rightarrow> vc_db \<times> vc_outcome" where
  "offer_end E now row answer db = (case offer_apply E now row answer db of
     Inl e \<Rightarrow> (vc_fail (at_id row) db, Throw None e)
   | Inr db' \<Rightarrow> (db', case mget (attempts db') (at_id row) of
         Some row' \<Rightarrow> offer_reply E now row'
       | None \<Rightarrow> Throw None (HttpError 500 ''Cannot read properties of null'')))"

section \<open>Linking, issuing, verifying\<close>

definition start_attempt :: "vc_env \<Rightarrow> int \<Rightarrow> attempt \<Rightarrow> (attempt \<Rightarrow> jobj) \<Rightarrow> vc_db \<times> int \<times> nat \<Rightarrow> (vc_db \<times> int \<times> nat) \<times> vc_outcome" where
  "start_attempt E now a request st = (case newAttempt E now a st of
     (st, Inl e) \<Rightarrow> (st, Throw None e)
   | (st, Inr row) \<Rightarrow> (st, offer_begin E now row (request row)))"

definition vc_link :: "vc_env \<Rightarrow> int \<Rightarrow> int option \<Rightarrow> string option \<Rightarrow> string \<Rightarrow> string \<Rightarrow> vc_db \<times> int \<times> nat \<Rightarrow> (vc_db \<times> int \<times> nat) \<times> vc_outcome" where
  "vc_link E now cx cookie user i st = (case requireCx E cx of
     Inl e \<Rightarrow> (st, Throw None e)
   | Inr verifiedAt \<Rightarrow>
       if 15 * 60000 < now - verifiedAt then (st, Throw None (reject_as 403 ''cx_reauthentication_required''))
       else (case activeLink now user (fst st) of
         Some active \<Rightarrow>
           if \<not> matchesSecret E cookie (at_secretHash active) \<or> at_status active \<noteq> Pending \<or> as_object (at_offer active) = None
           then (st, Throw None (reject ''link_in_progress''))
           else (st, offer_reply E now active)
       | None \<Rightarrow> start_attempt E now
           ((blank_attempt E now Link (Some user) i)\<lparr>at_snapshot := VObj [(''cxVerifiedAt'', VStr (toISOString verifiedAt))]\<rparr>) (\<lambda>row. []) st))"

text \<open>What the service reads before it issues: the wallet, the evidence, its anchor record and the transaction on the chain.\<close>

definition issue_data :: "vc_env \<Rightarrow> string \<Rightarrow> string option \<Rightarrow> vc_wallet option \<Rightarrow> evidence_record option \<Rightarrow> anchor_record option \<Rightarrow>
    (string \<Rightarrow> inspection option) \<Rightarrow> (http_error, string \<times> string \<times> jobj) result" where
  "issue_data E merkle key wallet evidence anchor inspect =
     (case key of
        None \<Rightarrow> Inl (reject_as 400 ''invalid_idempotency_key'')
      | Some k \<Rightarrow> if \<not> uuid_text k then Inl (reject_as 400 ''invalid_idempotency_key'')
          else (case (wallet, evidence) of
            (None, _) \<Rightarrow> Inl (reject ''wallet_unlinked'')
          | (Some w, None) \<Rightarrow> Inl (reject_as 404 ''evidence_not_found'')
          | (Some w, Some ev) \<Rightarrow>
              (case anchor of
                 None \<Rightarrow> Inl (reject ''evidence_not_anchored'')
               | Some a \<Rightarrow> (case (a_status a = ''anchored'', a_chainTxHash a, a_blockNumber a) of
                   (True, Some tx, Some block) \<Rightarrow>
                     if tx = [] then Inl (reject ''evidence_not_anchored'')
                     else (case inspect tx of
                       None \<Rightarrow> Inl (reject ''anchor_mismatch'')
                     | Some check \<Rightarrow>
                         if \<not> i_success check \<or> map_option toLowerCase (i_payloadHash check) \<noteq> Some (toLowerCase merkle) then Inl (reject ''anchor_mismatch'')
                         else rbind (vc_snapshot E \<lparr>si_root = merkle, si_countryCode = e_countryCode ev, si_taxYear = e_taxYear ev,
                             si_holderDid = w_holderDid w, si_cxVerifiedAt = w_cxVerifiedAt w, si_document = e_document ev,
                             si_chain = ve_chainId E, si_txHash = tx, si_blockNumber = int_str block\<rparr>) (\<lambda>data. Inr (k, w_holderDid w, data)))
                 | _ \<Rightarrow> Inl (reject ''evidence_not_anchored'')))))"

definition vc_issue :: "vc_env \<Rightarrow> int \<Rightarrow> int option \<Rightarrow> string \<Rightarrow> string \<Rightarrow> string \<Rightarrow> string option \<Rightarrow> vc_wallet option \<Rightarrow> evidence_record option \<Rightarrow>
    anchor_record option \<Rightarrow> (string \<Rightarrow> inspection option) \<Rightarrow> vc_db \<times> int \<times> nat \<Rightarrow> (vc_db \<times> int \<times> nat) \<times> vc_outcome" where
  "vc_issue E now cx user i merkle key wallet evidence anchor inspect st = (case requireCx E cx of
     Inl e \<Rightarrow> (st, Throw None e)
   | Inr _ \<Rightarrow> (case issue_data E merkle key wallet evidence anchor inspect of
       Inl e \<Rightarrow> (st, Throw None e)
     | Inr (k, holder, data) \<Rightarrow> start_attempt E now
         ((blank_attempt E now Issue (Some user) i)\<lparr>at_holderDid := Some holder, at_evidenceRoot := Some merkle,
            at_idempotencyKey := Some k, at_requestHash := Some (secretHash E merkle), at_snapshot := VObj data\<rparr>)
         (\<lambda>row. [(''holderDid'', case at_holderDid row of Some d \<Rightarrow> VStr d | None \<Rightarrow> VNull), (''snapshot'', at_snapshot row)]) st))"

definition vc_verify :: "vc_env \<Rightarrow> int \<Rightarrow> string \<Rightarrow> string \<Rightarrow> vc_db \<times> int \<times> nat \<Rightarrow> (vc_db \<times> int \<times> nat) \<times> vc_outcome" where
  "vc_verify E now disclosure i st =
     (if disclosure \<noteq> ''basic'' then (st, Throw None (reject_as 400 ''disclosure_unsupported''))
      else start_attempt E now ((blank_attempt E now Verify None i)\<lparr>at_disclosure := Some disclosure\<rparr>) (\<lambda>row. [(''disclosure'', VStr disclosure)]) st)"

section \<open>The bound browser\<close>

definition vc_bound :: "vc_env \<Rightarrow> int \<Rightarrow> int option \<Rightarrow> string option \<Rightarrow> string \<Rightarrow> purpose \<Rightarrow> string option \<Rightarrow> bool \<Rightarrow> bool \<Rightarrow> vc_db \<Rightarrow>
    (http_error, attempt) result" where
  "vc_bound E now cx cookie i p user allowCompleted allowCancelled db =
     (if \<not> ve_enabled E then Inl (reject_as 503 ''feature_unavailable'')
      else case (case user of None \<Rightarrow> Inr 0 | Some _ \<Rightarrow> requireCx E cx) of
        Inl e \<Rightarrow> Inl e
      | Inr _ \<Rightarrow> (case mget (attempts db) i of
          None \<Rightarrow> Inl (reject_as 404 ''attempt_not_found'')
        | Some row \<Rightarrow>
            if at_purpose row \<noteq> p \<or> at_userId row \<noteq> user then Inl (reject_as 404 ''attempt_not_found'')
            else if \<not> matchesSecret E cookie (at_secretHash row) then Inl (reject_as 403 ''attempt_not_bound'')
            else if at_expiresAt row + (if allowCompleted \<and> at_status row = Verified then 600000 else 0) \<le> now then Inl (reject_as 410 ''attempt_expired'')
            else if at_status row = Cancelled \<and> \<not> allowCancelled then Inl (reject ''attempt_cancelled'')
            else Inr row))"

definition cancel_begin :: "vc_env \<Rightarrow> int \<Rightarrow> int option \<Rightarrow> string option \<Rightarrow> string \<Rightarrow> purpose \<Rightarrow> string option \<Rightarrow> vc_db \<Rightarrow> vc_db \<times> vc_outcome" where
  "cancel_begin E now cx cookie i p user db = (case vc_bound E now cx cookie i p user True True db of
     Inl e \<Rightarrow> (db, Throw None e)
   | Inr row \<Rightarrow>
       if settled_status (at_status row) then (db, Answer None 204 VUndef)
       else (case at_upstreamId row of
         Some upstream \<Rightarrow> if upstream = [] then (vc_cancel i db, Answer None 204 VUndef) else (db, Wait (CancelCall row))
       | None \<Rightarrow> (vc_cancel i db, Answer None 204 VUndef)))"

definition cancel_end :: "attempt \<Rightarrow> (http_error, jobj) result \<Rightarrow> vc_db \<Rightarrow> vc_db \<times> vc_outcome" where
  "cancel_end row answer db = (case answer of
     Inl e \<Rightarrow> (db, Throw None e)
   | Inr r \<Rightarrow> if pget r ''cancelled'' \<noteq> VBool True then (db, Throw None (reject_as 503 ''issuer_unavailable''))
       else (vc_cancel (at_id row) db, Answer None 204 VUndef))"

section \<open>Polling\<close>

definition poll_pending :: "purpose \<Rightarrow> string \<Rightarrow> vc_outcome" where
  "poll_pending p issuing = Answer None 202 (VObj [(''status'', VStr (if p = Issue then issuing else ''pending'')), (''retryAfterMs'', jint 2000)])"

definition poll_begin :: "vc_env \<Rightarrow> int \<Rightarrow> int option \<Rightarrow> string option \<Rightarrow> string \<Rightarrow> string \<Rightarrow> purpose \<Rightarrow> string option \<Rightarrow> vc_db \<Rightarrow> vc_db \<times> vc_outcome" where
  "poll_begin E now cx cookie token i p user db = (case vc_bound E now cx cookie i p user True False db of
     Inl e \<Rightarrow> (db, Throw None e)
   | Inr row \<Rightarrow>
       if settled_status (at_status row)
       then (db, Answer None 200 (VObj (case as_object (at_result row) of Some r \<Rightarrow> pdel ''_credentialId'' r | None \<Rightarrow> vc_view now row)))
       else (case vc_acquire i token now db of
         (db, False) \<Rightarrow> (db, poll_pending p ''offer_ready'')
       | (db, True) \<Rightarrow> (db, Wait (ResultCall row token))))"

text \<open>A verified presentation: of a credential this service issued, to its holder, about its evidence. The reads are taken at
  the moment of completion; credentials never change.\<close>

definition verification_checks :: "vc_env \<Rightarrow> (string \<Rightarrow> inspection option) \<Rightarrow> jobj \<Rightarrow> vc_db \<Rightarrow>
    (http_error, vc_credential \<times> jobj \<times> jobj \<times> inspection option \<times> string) result" where
  "verification_checks E inspect r db =
     (case (pget r ''status'' = VStr ''verified'' \<and> pget r ''signatureVerified'' = VBool True \<and> pget r ''issuerDid'' = ve_issuerDid E,
        pget r ''credentialId'', pget r ''holderDid'') of
        (True, VStr cid, VStr holder) \<Rightarrow>
          (case mget (credentials db) cid of
             None \<Rightarrow> Inl (reject ''presentation_rejected'')
           | Some c \<Rightarrow> (case as_object (cr_snapshot c) of
               None \<Rightarrow> Inl (reject ''presentation_rejected'')
             | Some state \<Rightarrow> (case as_object (pget state ''anchor'') of
                 None \<Rightarrow> Inl (reject ''presentation_rejected'')
               | Some anchor \<Rightarrow>
                   if cr_holderDid c \<noteq> holder \<or> pget r ''evidenceRoot'' \<noteq> VStr (cr_evidenceRoot c) then Inl (reject ''presentation_rejected'')
                   else Inr (c, state, anchor, case pget anchor ''txHash'' of VStr tx \<Rightarrow> inspect tx | _ \<Rightarrow> None,
                     if pget r ''revocation'' = VStr ''active'' then ''active'' else if pget r ''revocation'' = VStr ''revoked'' then ''revoked'' else ''unknown''))))
      | _ \<Rightarrow> Inl (reject ''presentation_rejected''))"

definition chain_passes :: "vc_credential \<Rightarrow> inspection option \<Rightarrow> bool" where
  "chain_passes c inspection = (case inspection of
     None \<Rightarrow> False
   | Some i \<Rightarrow> i_success i \<and> map_option toLowerCase (i_payloadHash i) = Some (toLowerCase (cr_evidenceRoot c)))"

definition verification_answer :: "int \<Rightarrow> attempt \<Rightarrow> vc_credential \<times> jobj \<times> jobj \<times> inspection option \<times> string \<Rightarrow> string option \<Rightarrow> attempt_status \<times> jobj" where
  "verification_answer now row = (\<lambda>(c, state, anchor, inspection, revocation) latestRoot.
     (let status = (if revocation = ''active'' \<and> chain_passes c inspection then Verified else Rejected) in
      (status, [(''verificationId'', VStr (at_id row)), (''disclosure'', VStr ''basic''), (''status'', VStr (status_name status)),
        (''checkedAt'', VStr (toISOString now)),
        (''checks'', VObj [(''issuerAndPresentation'', VStr ''passed''), (''revocation'', VStr revocation),
           (''version'', VStr (case latestRoot of None \<Rightarrow> ''unknown'' | Some l \<Rightarrow> if l = cr_evidenceRoot c then ''latest'' else ''superseded'')),
           (''chainAnchor'', VStr (case inspection of None \<Rightarrow> ''unknown'' | Some _ \<Rightarrow> if chain_passes c inspection then ''passed'' else ''failed''))]),
        (''claims'', VObj [(''reportId'', VStr (cr_issuanceId c)), (''version'', jint 1), (''countryCode'', VStr (cr_countryCode c)),
           (''taxYear'', VNum (cr_taxYear c)), (''evidenceRoot'', VStr (cr_evidenceRoot c)), (''issuedAt'', VStr (toISOString (cr_issuedAt c))),
           (''anchor'', VObj anchor), (''totals'', VNull)]),
        (''accountLink'', VStr (case pget state ''cxVerifiedAt'' of VStr _ \<Rightarrow> ''verified'' | _ \<Rightarrow> ''not_provided''))])))"

text \<open>What a result asks to be stored: the new status, the stored and the returned answer, and the detail.\<close>

definition poll_result :: "vc_env \<Rightarrow> int \<Rightarrow> (string \<Rightarrow> inspection option) \<Rightarrow> (vc_credential \<Rightarrow> string option) \<Rightarrow> attempt \<Rightarrow> jobj \<Rightarrow> vc_db \<Rightarrow>
    (http_error, attempt_status \<times> jobj \<times> jobj \<times> completion_detail) result" where
  "poll_result E now inspect latestRoot row r db = (case at_purpose row of
     Link \<Rightarrow>
       (case (pget r ''status'' = VStr ''verified'' \<and> pget r ''signatureVerified'' = VBool True, pget r ''holderDid'') of
          (True, VStr holder) \<Rightarrow>
            if \<not> did_text holder then Inl (reject ''presentation_rejected'')
            else (case as_object (at_snapshot row) of
              None \<Rightarrow> Inl (reject ''invalid_attempt'')
            | Some state \<Rightarrow> (case pget state ''cxVerifiedAt'' of
                VStr stamp \<Rightarrow> (let answer = [(''status'', VStr ''linked''), (''did'', VStr holder), (''linkedAt'', VStr (toISOString now))] in
                  Inr (Linked, answer, answer, WalletDetail holder (dateParse (ve_host E) stamp)))
              | _ \<Rightarrow> Inl (reject ''invalid_attempt'')))
        | _ \<Rightarrow> Inl (reject ''presentation_rejected''))
   | Issue \<Rightarrow>
       (case (pget r ''status'' = VStr ''issued'' \<and> Some (pget r ''holderDid'') = map_option VStr (at_holderDid row) \<and>
              Some (pget r ''evidenceRoot'') = map_option VStr (at_evidenceRoot row) \<and> pget r ''requestId'' = VStr (at_id row),
              pget r ''credentialId'', pget r ''issuedAt'') of
          (True, VStr cid, VStr stamp) \<Rightarrow>
            (case dateParse (ve_host E) stamp of
               None \<Rightarrow> Inl (reject_as 502 ''invalid_issuance_receipt'')
             | Some t \<Rightarrow>
                 if cid = [] then Inl (reject_as 502 ''invalid_issuance_receipt'')
                 else (case as_object (at_snapshot row) of
                   None \<Rightarrow> Inl (reject ''invalid_attempt'')
                 | Some state \<Rightarrow>
                     (let answer = pspread (vc_view now row) [(''status'', VStr ''issued''), (''credentialId'', VStr cid), (''issuedAt'', VStr stamp)] in
                      Inr (Issued, answer, answer, CredentialDetail cid t (js_String (pget state ''countryCode'')) (js_Number (pget state ''taxYear''))))))
        | _ \<Rightarrow> Inl (reject_as 502 ''invalid_issuance_receipt''))
   | Verify \<Rightarrow> rbind (verification_checks E inspect r db) (\<lambda>v.
       case verification_answer now row v (latestRoot (fst v)) of (status, answer) \<Rightarrow>
         Inr (status, pput ''_credentialId'' (VStr (cr_id (fst v))) answer, answer, NoDetail)))"

definition poll_end :: "vc_env \<Rightarrow> int \<Rightarrow> (string \<Rightarrow> inspection option) \<Rightarrow> (vc_credential \<Rightarrow> string option) \<Rightarrow> attempt \<Rightarrow> string \<Rightarrow>
    (http_error, jobj) result \<Rightarrow> vc_db \<Rightarrow> vc_db \<times> vc_outcome" where
  "poll_end E now inspect latestRoot row token answer db = (case answer of
     Inl e \<Rightarrow> (db, Throw None e)
   | Inr r \<Rightarrow>
       if pget r ''status'' = VStr ''pending'' then (db, poll_pending (at_purpose row) ''issuing'')
       else (case poll_result E now inspect latestRoot row r db of
         Inl e \<Rightarrow> (db, Throw None e)
       | Inr (status, stored, shown, detail) \<Rightarrow>
           (case vc_complete now row token status (VObj stored) detail db of
              Inl e \<Rightarrow> (db, Throw None e)
            | Inr db \<Rightarrow> (db, Answer None 200 (VObj shown)))))"

section \<open>Reading\<close>

definition vc_wallet_view :: "vc_env \<Rightarrow> int option \<Rightarrow> string \<Rightarrow> vc_db \<Rightarrow> (http_error, jobj) result" where
  "vc_wallet_view E cx user db = rbind (requireCx E cx) (\<lambda>_. Inr (case mget (wallets db) user of
     Some w \<Rightarrow> [(''status'', VStr ''linked''), (''did'', VStr (w_holderDid w)), (''linkedAt'', VStr (toISOString (w_linkedAt w)))]
   | None \<Rightarrow> [(''status'', VStr ''unlinked'')]))"

definition vc_unlink_request :: "vc_env \<Rightarrow> int \<Rightarrow> int option \<Rightarrow> string \<Rightarrow> vc_db \<Rightarrow> (http_error, vc_db) result" where
  "vc_unlink_request E now cx user db = rbind (requireCx E cx) (\<lambda>_. vc_unlink now user db)"

definition vc_eligibility :: "vc_env \<Rightarrow> int \<Rightarrow> int option \<Rightarrow> string \<Rightarrow> string \<Rightarrow> evidence_record option \<Rightarrow> anchor_record option \<Rightarrow> vc_db \<Rightarrow>
    (http_error, jobj) result" where
  "vc_eligibility E now cx user merkle evidence anchorOf db = rbind (requireCx E cx) (\<lambda>_.
     let anchor = (case evidence of None \<Rightarrow> None | Some _ \<Rightarrow> anchorOf); status = map_option a_status anchor in
     Inr [(''evidenceId'', VStr merkle),
       (''eligibility'', VStr (if evidence = None then ''anchor_missing'' else if mget (wallets db) user = None then ''wallet_unlinked''
          else if status = Some ''anchored'' then ''ready'' else if status = Some ''failed'' then ''anchor_failed'' else ''anchor_pending'')),
       (''evidence'', case evidence of None \<Rightarrow> VNull | Some ev \<Rightarrow> VObj [(''merkleRoot'', VStr merkle), (''countryCode'', VStr (e_countryCode ev)),
          (''taxYear'', jint (e_taxYear ev)), (''anchorStatus'', VStr (case status of Some s \<Rightarrow> s | None \<Rightarrow> ''pending''))]),
       (''latest'', case latestAttempt user merkle db of None \<Rightarrow> VNull | Some a \<Rightarrow> VObj (vc_view now a))])"

section \<open>Checking a file\<close>

record file_check =
  fc_format :: string
  fc_algorithm :: string
  fc_hash :: string
  fc_byteLength :: int

datatype file_answer = Unavailable | NotIncluded | Included jobj "(side \<times> string) list"

definition is_file_leaf :: "file_check \<Rightarrow> jobj \<Rightarrow> bool" where
  "is_file_leaf input leaf \<longleftrightarrow> pget leaf ''kind'' = VStr ''file'' \<and> pget leaf ''file'' = VStr (fc_format input) \<and>
     pget leaf ''algorithm'' = VStr (fc_algorithm input) \<and>
     (case pget leaf ''hash'' of VStr h \<Rightarrow> toLowerCase h = toLowerCase (fc_hash input) | _ \<Rightarrow> False) \<and>
     pget leaf ''byteLength'' = jint (fc_byteLength input)"

definition object_leaves :: "jsv \<Rightarrow> jobj list option" where
  "object_leaves doc = (case as_object doc of
     None \<Rightarrow> None
   | Some d \<Rightarrow> (case pget d ''leaves'' of
       VArr vs \<Rightarrow> if list_all (\<lambda>v. as_object v \<noteq> None) vs then Some (map (\<lambda>v. the (as_object v)) vs) else None
     | _ \<Rightarrow> None))"

definition check_leaves :: "vc_env \<Rightarrow> file_check \<Rightarrow> jsv option \<Rightarrow> (http_error, file_answer) result" where
  "check_leaves E input document = (case document of
     None \<Rightarrow> Inr Unavailable
   | Some doc \<Rightarrow> (case object_leaves doc of
       None \<Rightarrow> Inr Unavailable
     | Some leaves \<Rightarrow>
         (let before = takeWhile (\<lambda>leaf. \<not> is_file_leaf input leaf) leaves in
          if length before = length leaves then Inr NotIncluded
          else rbind (fileProof (ve_keccak E) leaves (int (length before))) (\<lambda>proof. Inr (Included (leaves ! length before) proof)))))"

definition vc_checkFile :: "vc_env \<Rightarrow> int \<Rightarrow> string option \<Rightarrow> string \<Rightarrow> file_check \<Rightarrow> (vc_credential \<Rightarrow> jsv option) \<Rightarrow> vc_db \<Rightarrow>
    (http_error, string \<times> file_answer) result" where
  "vc_checkFile E now cookie i input documentOf db = rbind (vc_bound E now None cookie i Verify None True False db) (\<lambda>row.
     case (at_status row = Verified, as_object (at_result row)) of
       (True, Some r) \<Rightarrow> (case pget r ''_credentialId'' of
         VStr cid \<Rightarrow> (case mget (credentials db) cid of
           None \<Rightarrow> Inl (reject ''verification_not_completed'')
         | Some c \<Rightarrow> rbind (check_leaves E input (documentOf c)) (\<lambda>a. Inr (cr_evidenceRoot c, a)))
       | _ \<Rightarrow> Inl (reject ''verification_not_completed''))
     | _ \<Rightarrow> Inl (reject ''verification_not_completed''))"

section \<open>The machine\<close>

text \<open>Requests and answers in any order. Time never runs backwards; ids and lease tokens are fresh (\<open>randomUUID\<close>). A poll
  releases its lease in a step of its own, after its answer was stored, as its \<open>finally\<close> does.\<close>

record vc_machine =
  vm_db :: vc_db
  vm_budget :: "int \<times> nat"
  vm_clock :: int
  vm_calls :: "vc_call list"
  vm_ids :: "string list"

definition put_outcome :: "vc_outcome \<Rightarrow> vc_call list \<Rightarrow> vc_call list" where
  "put_outcome outcome calls = (case outcome of Wait c \<Rightarrow> c # calls | _ \<Rightarrow> calls)"

inductive vc_step :: "vc_env \<Rightarrow> vc_machine \<Rightarrow> vc_machine \<Rightarrow> bool" for E where
  tick: "vm_clock m \<le> t \<Longrightarrow> vc_step E m (m\<lparr>vm_clock := t\<rparr>)"
| link: "i \<notin> set (vm_ids m) \<Longrightarrow> vc_link E (vm_clock m) cx cookie user i (vm_db m, vm_budget m) = ((db, budget), out) \<Longrightarrow>
    vc_step E m (m\<lparr>vm_db := db, vm_budget := budget, vm_calls := put_outcome out (vm_calls m), vm_ids := i # vm_ids m\<rparr>)"
| issue: "i \<notin> set (vm_ids m) \<Longrightarrow>
    vc_issue E (vm_clock m) cx user i merkle key wallet evidence anchor inspect (vm_db m, vm_budget m) = ((db, budget), out) \<Longrightarrow>
    vc_step E m (m\<lparr>vm_db := db, vm_budget := budget, vm_calls := put_outcome out (vm_calls m), vm_ids := i # vm_ids m\<rparr>)"
| verify: "i \<notin> set (vm_ids m) \<Longrightarrow> vc_verify E (vm_clock m) disclosure i (vm_db m, vm_budget m) = ((db, budget), out) \<Longrightarrow>
    vc_step E m (m\<lparr>vm_db := db, vm_budget := budget, vm_calls := put_outcome out (vm_calls m), vm_ids := i # vm_ids m\<rparr>)"
| offered: "vm_calls m = cs @ OfferCall row request # cs' \<Longrightarrow> offer_end E (vm_clock m) row answer (vm_db m) = (db, out) \<Longrightarrow>
    vc_step E m (m\<lparr>vm_db := db, vm_calls := cs @ cs'\<rparr>)"
| polls: "token \<notin> set (vm_ids m) \<Longrightarrow> poll_begin E (vm_clock m) cx cookie token i p user (vm_db m) = (db, out) \<Longrightarrow>
    vc_step E m (m\<lparr>vm_db := db, vm_calls := put_outcome out (vm_calls m), vm_ids := token # vm_ids m\<rparr>)"
| polled: "vm_calls m = cs @ ResultCall row token # cs' \<Longrightarrow>
    poll_end E (vm_clock m) inspect latestRoot row token answer (vm_db m) = (db, out) \<Longrightarrow>
    vc_step E m (m\<lparr>vm_db := db, vm_calls := cs @ ReleaseCall (at_id row) token # cs'\<rparr>)"
| released: "vm_calls m = cs @ ReleaseCall i token # cs' \<Longrightarrow>
    vc_step E m (m\<lparr>vm_db := vc_release i token (vm_db m), vm_calls := cs @ cs'\<rparr>)"
| cancels: "cancel_begin E (vm_clock m) cx cookie i p user (vm_db m) = (db, out) \<Longrightarrow>
    vc_step E m (m\<lparr>vm_db := db, vm_calls := put_outcome out (vm_calls m)\<rparr>)"
| cancelled: "vm_calls m = cs @ CancelCall row # cs' \<Longrightarrow> cancel_end row answer (vm_db m) = (db, out) \<Longrightarrow>
    vc_step E m (m\<lparr>vm_db := db, vm_calls := cs @ cs'\<rparr>)"
| unlinks: "vc_unlink_request E (vm_clock m) cx user (vm_db m) = Inr db \<Longrightarrow> vc_step E m (m\<lparr>vm_db := db\<rparr>)"
| cleans: "vc_step E m (m\<lparr>vm_db := vc_cleanup (vm_clock m) (vm_db m)\<rparr>)"

definition empty_vc :: "int \<Rightarrow> vc_machine" where
  "empty_vc t = \<lparr>vm_db = \<lparr>attempts = [], wallets = [], credentials = []\<rparr>, vm_budget = (0, 0), vm_clock = t, vm_calls = [], vm_ids = []\<rparr>"

inductive vc_reachable :: "vc_env \<Rightarrow> vc_machine \<Rightarrow> bool" for E where
  start: "vc_reachable E (empty_vc t)"
| step: "vc_reachable E m \<Longrightarrow> vc_step E m m' \<Longrightarrow> vc_reachable E m'"

end
