(* ===== verification/ReportVc_Properties.thy ===== *)
theory ReportVc_Properties
  imports ReportVc Merkle_Properties TxRepository_Properties
begin

text \<open>
  What the workflow of report credentials guarantees. The contract of the store is a step relation on its tables
  (\<open>db_step\<close>): attempts are admitted, move forward and settle, wallets are linked and unlinked, credentials are issued.
  The invariant is proved for that contract, and every step of the machine of requests is shown to be one of its steps.
\<close>

section \<open>The contract of the store\<close>

text \<open>What no update of an attempt changes.\<close>

definition core :: "attempt \<Rightarrow> string \<times> purpose \<times> string option \<times> string \<times> string option \<times> string option" where
  "core a = (at_id a, at_purpose a, at_userId a, at_secretHash a, at_holderDid a, at_evidenceRoot a)"

definition unleased :: "attempt \<Rightarrow> bool" where
  "unleased a \<longleftrightarrow> at_leaseToken a = None \<and> at_leaseUntil a = None"

abbreviation set_row :: "attempt \<Rightarrow> vc_db \<Rightarrow> vc_db" where
  "set_row a db \<equiv> db\<lparr>attempts := mput (at_id a) a (attempts db)\<rparr>"

text \<open>The moves of one attempt that touch no other table.\<close>

definition moves_to :: "attempt \<Rightarrow> attempt \<Rightarrow> bool" where
  "moves_to a b \<longleftrightarrow> core b = core a \<and> at_expiresAt b \<le> at_expiresAt a \<and>
     (at_status a = Creating \<and> at_status b = Pending \<and> unleased a \<longrightarrow> unleased b) \<and>
     (at_status a = Creating \<and> at_status b = Pending \<or>
      open_status (at_status a) \<and> at_status b \<in> {Failed, Cancelled} \<and> (unleased a \<longrightarrow> unleased b) \<and> (at_status b = Cancelled \<longrightarrow> unleased b) \<and>
        (at_status b = Failed \<longrightarrow> at_status a = Creating) \<or>
      at_status a = Pending \<and> at_status b = Pending \<or>
      at_status a = Pending \<and> at_status b \<in> {Verified, Rejected} \<and> at_purpose a = Verify \<and> unleased b)"

definition settles :: "int \<Rightarrow> attempt \<Rightarrow> attempt \<Rightarrow> bool" where
  "settles now a b \<longleftrightarrow> core b = core a \<and> at_status a = Pending \<and> now < at_expiresAt a \<and> unleased b"

inductive db_step :: "int \<Rightarrow> string list \<Rightarrow> vc_db \<Rightarrow> vc_db \<Rightarrow> bool" for now used where
  stays: "db_step now used db db"
| creates: "at_status a = Creating \<Longrightarrow> unleased a \<Longrightarrow> at_id a \<notin> set used \<Longrightarrow> mget (attempts db) (at_id a) = None \<Longrightarrow>
    (case at_userId a of None \<Rightarrow> at_purpose a = Verify | Some user \<Rightarrow> at_purpose a \<noteq> Verify \<and> admission now user a db = None) \<Longrightarrow>
    (at_purpose a = Issue \<longrightarrow> at_holderDid a \<noteq> None \<and> at_evidenceRoot a \<noteq> None) \<Longrightarrow> db_step now used db (set_row a db)"
| evolves: "mget (attempts db) (at_id a) = Some a \<Longrightarrow> moves_to a b \<Longrightarrow> db_step now used db (set_row b db)"
| links: "mget (attempts db) (at_id a) = Some a \<Longrightarrow> settles now a b \<Longrightarrow> at_status b = Linked \<Longrightarrow> at_purpose a = Link \<Longrightarrow> at_userId a = Some user \<Longrightarrow>
    mget (wallets db) user = None \<Longrightarrow> \<forall>u w. mget (wallets db) u = Some w \<longrightarrow> w_holderDid w \<noteq> w_holderDid new \<Longrightarrow>
    db_step now used db ((set_row b db)\<lparr>wallets := mput user new (wallets db)\<rparr>)"
| issues: "mget (attempts db) (at_id a) = Some a \<Longrightarrow> settles now a b \<Longrightarrow> at_status b = Issued \<Longrightarrow> at_purpose a = Issue \<Longrightarrow>
    at_userId a = Some (cr_userId c) \<Longrightarrow> at_holderDid a = Some (cr_holderDid c) \<Longrightarrow> at_evidenceRoot a = Some (cr_evidenceRoot c) \<Longrightarrow>
    cr_issuanceId c = at_id a \<Longrightarrow> mget (credentials db) (cr_id c) = None \<Longrightarrow>
    \<forall>i d. mget (credentials db) i = Some d \<longrightarrow> cr_issuanceId d \<noteq> at_id a \<Longrightarrow>
    db_step now used db ((set_row b db)\<lparr>credentials := mput (cr_id c) c (credentials db)\<rparr>)"
| unlinks: "active_of now user db = [] \<Longrightarrow> db_step now used db (db\<lparr>wallets := mdel user (wallets db)\<rparr>)"
| cleans: "db_step now used db (vc_cleanup now db)"

section \<open>The invariant of the tables\<close>

definition rows_ok :: "vc_db \<Rightarrow> bool" where
  "rows_ok db \<longleftrightarrow> distinct (mkeys (attempts db)) \<and>
     (\<forall>i a. mget (attempts db) i = Some a \<longrightarrow> at_id a = i \<and> (at_status a \<noteq> Pending \<longrightarrow> unleased a) \<and>
        (at_userId a = None \<longleftrightarrow> at_purpose a = Verify))"

text \<open>A user has at most one attempt under way, and while it is, the user's wallet is as it was when it was admitted.\<close>

definition under_way_ok :: "int \<Rightarrow> vc_db \<Rightarrow> bool" where
  "under_way_ok now db \<longleftrightarrow> (\<forall>i a user. mget (attempts db) i = Some a \<longrightarrow> active_at now a \<longrightarrow> at_userId a = Some user \<longrightarrow>
     (\<forall>j b. mget (attempts db) j = Some b \<longrightarrow> active_at now b \<longrightarrow> at_userId b = Some user \<longrightarrow> j = i) \<and>
     (at_purpose a = Link \<longrightarrow> mget (wallets db) user = None) \<and>
     (at_purpose a = Issue \<longrightarrow> (\<exists>w. mget (wallets db) user = Some w \<and> at_holderDid a = Some (w_holderDid w))))"

lemma under_way_okD:
  assumes "under_way_ok now db" "mget (attempts db) i = Some a" "active_at now a" "at_userId a = Some user"
  shows "mget (attempts db) j = Some b \<Longrightarrow> active_at now b \<Longrightarrow> at_userId b = Some user \<Longrightarrow> j = i"
    "at_purpose a = Link \<Longrightarrow> mget (wallets db) user = None"
    "at_purpose a = Issue \<Longrightarrow> \<exists>w. mget (wallets db) user = Some w \<and> at_holderDid a = Some (w_holderDid w)"
  using assms unfolding under_way_ok_def by blast+

text \<open>A change of the wallets alone that leaves the wallets of users with something under way.\<close>

lemma under_way_wallets:
  assumes "under_way_ok now db" "attempts db' = attempts db"
    and "\<And>i a user. mget (attempts db) i = Some a \<Longrightarrow> active_at now a \<Longrightarrow> at_userId a = Some user \<Longrightarrow> mget (wallets db') user = mget (wallets db) user"
  shows "under_way_ok now db'"
  unfolding under_way_ok_def assms(2)
proof (intro allI impI)
  fix i a user assume a: "mget (attempts db) i = Some a" "active_at now a" "at_userId a = Some user"
  show "(\<forall>j b. mget (attempts db) j = Some b \<longrightarrow> active_at now b \<longrightarrow> at_userId b = Some user \<longrightarrow> j = i) \<and>
     (at_purpose a = Link \<longrightarrow> mget (wallets db') user = None) \<and>
     (at_purpose a = Issue \<longrightarrow> (\<exists>w. mget (wallets db') user = Some w \<and> at_holderDid a = Some (w_holderDid w)))"
    unfolding assms(3) [OF a] using under_way_okD [OF assms(1) a] by blast
qed

definition wallets_ok :: "vc_db \<Rightarrow> bool" where
  "wallets_ok db \<longleftrightarrow> (\<forall>u v w w'. mget (wallets db) u = Some w \<longrightarrow> mget (wallets db) v = Some w' \<longrightarrow> w_holderDid w = w_holderDid w' \<longrightarrow> u = v)"

lemma rows_ok_cong: "attempts db' = attempts db \<Longrightarrow> rows_ok db' = rows_ok db"
  by (simp add: rows_ok_def)

lemma unique_put:
  fixes m :: "'k \<Rightarrow> 'v option"
  assumes "\<forall>u v w w'. m u = Some w \<longrightarrow> m v = Some w' \<longrightarrow> f w = f w' \<longrightarrow> u = v" "\<forall>u w. m u = Some w \<longrightarrow> f w \<noteq> f new"
    and "(m(k \<mapsto> new)) u = Some w" "(m(k \<mapsto> new)) v = Some w'" "f w = f w'"
  shows "u = v"
proof (cases "u = k")
  case True
  then have "w = new" using assms(3) by simp
  then show ?thesis using True assms(2,4,5) by (metis map_upd_Some_unfold)
next
  case False
  then have u: "m u = Some w" using assms(3) by simp
  then have "v \<noteq> k" using assms(2,4,5) by auto
  then show ?thesis using assms(1,4,5) u by auto
qed

lemma wallets_ok_cong: "wallets db' = wallets db \<Longrightarrow> wallets_ok db' = wallets_ok db"
  by (simp add: wallets_ok_def)

definition issued_by :: "vc_credential \<Rightarrow> attempt \<Rightarrow> bool" where
  "issued_by c a \<longleftrightarrow> at_status a = Issued \<and> at_purpose a = Issue \<and> at_userId a = Some (cr_userId c) \<and>
     at_holderDid a = Some (cr_holderDid c) \<and> at_evidenceRoot a = Some (cr_evidenceRoot c)"

definition credentials_ok :: "vc_db \<Rightarrow> bool" where
  "credentials_ok db \<longleftrightarrow> (\<forall>i c. mget (credentials db) i = Some c \<longrightarrow> cr_id c = i \<and>
     (\<forall>a. mget (attempts db) (cr_issuanceId c) = Some a \<longrightarrow> issued_by c a) \<and>
     (\<forall>j d. mget (credentials db) j = Some d \<longrightarrow> cr_issuanceId d = cr_issuanceId c \<longrightarrow> j = i))"

lemma credentials_okI:
  assumes "\<And>i c. mget (credentials db) i = Some c \<Longrightarrow> cr_id c = i"
    and "\<And>i c a. mget (credentials db) i = Some c \<Longrightarrow> mget (attempts db) (cr_issuanceId c) = Some a \<Longrightarrow> issued_by c a"
    and "\<And>i j c d. mget (credentials db) i = Some c \<Longrightarrow> mget (credentials db) j = Some d \<Longrightarrow> cr_issuanceId d = cr_issuanceId c \<Longrightarrow> j = i"
  shows "credentials_ok db"
  unfolding credentials_ok_def using assms by blast

lemma credentials_okD:
  assumes "credentials_ok db" "mget (credentials db) i = Some c"
  shows "cr_id c = i" "mget (attempts db) (cr_issuanceId c) = Some a \<Longrightarrow> issued_by c a"
    "mget (credentials db) j = Some d \<Longrightarrow> cr_issuanceId d = cr_issuanceId c \<Longrightarrow> j = i"
  using assms unfolding credentials_ok_def by blast+

lemma credentials_ok_cong: "attempts db' = attempts db \<Longrightarrow> credentials db' = credentials db \<Longrightarrow> credentials_ok db' = credentials_ok db"
  by (simp add: credentials_ok_def)

definition used_ok :: "string list \<Rightarrow> vc_db \<Rightarrow> bool" where
  "used_ok used db \<longleftrightarrow> (\<forall>i a. mget (attempts db) i = Some a \<longrightarrow> i \<in> set used) \<and>
     (\<forall>i c. mget (credentials db) i = Some c \<longrightarrow> cr_issuanceId c \<in> set used)"

definition vc_ok :: "int \<Rightarrow> vc_db \<Rightarrow> bool" where
  "vc_ok now db \<longleftrightarrow> rows_ok db \<and> under_way_ok now db \<and> wallets_ok db \<and> credentials_ok db"

text \<open>Time only takes attempts out of the way.\<close>

lemma active_later: "now \<le> t \<Longrightarrow> active_at t a \<Longrightarrow> active_at now a"
  by (simp add: active_at_def)

lemma vc_ok_later: "vc_ok now db \<Longrightarrow> now \<le> t \<Longrightarrow> vc_ok t db"
  unfolding vc_ok_def under_way_ok_def by (meson active_later)

lemma active_of_nil:
  assumes "rows_ok db"
  shows "active_of now user db = [] \<longleftrightarrow> (\<forall>i a. mget (attempts db) i = Some a \<longrightarrow> at_userId a = Some user \<longrightarrow> \<not> active_at now a)"
proof -
  have "a \<in> set (mvalues (attempts db)) \<longleftrightarrow> (\<exists>i. mget (attempts db) i = Some a)" for a
    using assms by (force simp: rows_ok_def map_of_eq_Some_iff image_iff)
  then show ?thesis unfolding active_of_def filter_empty_conv by blast
qed

text \<open>One row of an attempts table that changed, and what it was before.\<close>

lemma row_of_set: "mget (attempts (set_row b db)) i = (if i = at_id b then Some b else mget (attempts db) i)"
  by (simp add: map_of_update)

lemma rows_set:
  assumes "rows_ok db" "at_status b \<noteq> Pending \<longrightarrow> unleased b" "at_userId b = None \<longleftrightarrow> at_purpose b = Verify"
  shows "rows_ok (set_row b db)"
  using assms by (auto simp: rows_ok_def map_of_update distinct_update)

lemma core_eq:
  "core b = core a \<longleftrightarrow> at_id b = at_id a \<and> at_purpose b = at_purpose a \<and> at_userId b = at_userId a \<and> at_secretHash b = at_secretHash a \<and>
     at_holderDid b = at_holderDid a \<and> at_evidenceRoot b = at_evidenceRoot a"
  by (simp add: core_def)

text \<open>A changed row is under way only if it was before.\<close>

lemma under_way_set:
  assumes "under_way_ok now db" "mget (attempts db) (at_id b) = Some a" "core b = core a" "active_at now b \<longrightarrow> active_at now a"
    "wallets db' = wallets db" "attempts db' = mput (at_id b) b (attempts db)"
  shows "under_way_ok now db'"
  unfolding under_way_ok_def
proof (intro allI impI)
  fix i x user assume x: "mget (attempts db') i = Some x" "active_at now x" "at_userId x = Some user"
  define old where "old = (\<lambda>j y. if j = at_id b then a else (y :: attempt))"
  have old: "mget (attempts db) j = Some (old j y) \<and> active_at now (old j y) \<and> core y = core (old j y)"
    if "mget (attempts db') j = Some y" "active_at now y" for j y
    using that assms(2-4,6) by (auto simp: old_def map_of_update split: if_splits)
  note ox = old [OF x(1,2)]
  have u: "at_userId (old i x) = Some user" using ox x(3) by (simp add: core_eq)
  have all: "(\<forall>j b. mget (attempts db) j = Some b \<longrightarrow> active_at now b \<longrightarrow> at_userId b = Some user \<longrightarrow> j = i) \<and>
     (at_purpose (old i x) = Link \<longrightarrow> mget (wallets db) user = None) \<and>
     (at_purpose (old i x) = Issue \<longrightarrow> (\<exists>w. mget (wallets db) user = Some w \<and> at_holderDid (old i x) = Some (w_holderDid w)))"
    using assms(1) ox u unfolding under_way_ok_def by blast
  have "j = i" if "mget (attempts db') j = Some y" "active_at now y" "at_userId y = Some user" for j y
    using all old [OF that(1,2)] that(3) by (auto simp: core_eq)
  then show "(\<forall>j b. mget (attempts db') j = Some b \<longrightarrow> active_at now b \<longrightarrow> at_userId b = Some user \<longrightarrow> j = i) \<and>
     (at_purpose x = Link \<longrightarrow> mget (wallets db') user = None) \<and>
     (at_purpose x = Issue \<longrightarrow> (\<exists>w. mget (wallets db') user = Some w \<and> at_holderDid x = Some (w_holderDid w)))"
    using all ox by (simp add: core_eq assms(5))
qed

lemma credentials_set:
  assumes "credentials_ok db" "mget (attempts db) (at_id b) = Some a" "core b = core a" "at_status a = Issued \<longrightarrow> at_status b = Issued"
    "credentials db' = credentials db" "attempts db' = mput (at_id b) b (attempts db)"
  shows "credentials_ok db'"
proof -
  have "issued_by c b" if "issued_by c a" for c using that assms(3,4) by (simp add: issued_by_def core_eq)
  then show ?thesis using assms(1,2) unfolding credentials_ok_def assms(5,6) by (simp add: map_of_update)
qed

lemma moves_row:
  assumes "moves_to a b"
  shows "core b = core a" "active_at now b \<longrightarrow> active_at now a" "open_status (at_status a)" "at_status b \<noteq> Creating" "at_status b \<noteq> Issued"
  using assms by (auto simp: moves_to_def active_at_def open_status_def)

lemma moves_unleased: "moves_to a b \<Longrightarrow> at_status a \<noteq> Pending \<longrightarrow> unleased a \<Longrightarrow> at_status b \<noteq> Pending \<longrightarrow> unleased b"
  by (auto simp: moves_to_def)

text \<open>Each kind of step keeps the invariant.\<close>

lemma creates_ok:
  assumes "vc_ok now db" "used_ok used db" "at_status a = Creating" "unleased a" "at_id a \<notin> set used" "mget (attempts db) (at_id a) = None"
    and admitted: "case at_userId a of None \<Rightarrow> at_purpose a = Verify | Some user \<Rightarrow> at_purpose a \<noteq> Verify \<and> admission now user a db = None"
  shows "vc_ok now (set_row a db)"
proof -
  have ok: "rows_ok db" "under_way_ok now db" "wallets_ok db" "credentials_ok db" using assms(1) by (simp_all add: vc_ok_def)
  have "rows_ok (set_row a db)"
    by (rule rows_set [OF ok(1)]) (use assms(4) admitted in \<open>auto split: option.splits\<close>)
  moreover have "wallets_ok (set_row a db)" using ok(3) by (simp add: wallets_ok_def)
  moreover have "credentials_ok (set_row a db)"
  proof (rule credentials_okI)
    fix i c x assume c: "mget (credentials (set_row a db)) i = Some c"
    then show "cr_id c = i" using credentials_okD(1) [OF ok(4)] by simp
    have "cr_issuanceId c \<in> set used" using assms(2) c unfolding used_ok_def by simp
    then have "cr_issuanceId c \<noteq> at_id a" using assms(5) by metis
    moreover assume "mget (attempts (set_row a db)) (cr_issuanceId c) = Some x"
    ultimately show "issued_by c x" using credentials_okD(2) [OF ok(4)] c by (simp add: map_of_update)
  qed (use credentials_okD(3) [OF ok(4)] in simp)
  moreover have "under_way_ok now (set_row a db)"
    unfolding under_way_ok_def
  proof (intro allI impI)
    fix i x user assume x: "mget (attempts (set_row a db)) i = Some x" "active_at now x" "at_userId x = Some user"
    show "(\<forall>j b. mget (attempts (set_row a db)) j = Some b \<longrightarrow> active_at now b \<longrightarrow> at_userId b = Some user \<longrightarrow> j = i) \<and>
      (at_purpose x = Link \<longrightarrow> mget (wallets (set_row a db)) user = None) \<and>
      (at_purpose x = Issue \<longrightarrow> (\<exists>w. mget (wallets (set_row a db)) user = Some w \<and> at_holderDid x = Some (w_holderDid w)))"
    proof (cases "at_userId a = Some user")
      case True
      then have "admission now user a db = None" using admitted by simp
      then have none: "active_of now user db = []" and
        wallet: "at_purpose a = Link \<longrightarrow> mget (wallets db) user = None"
        "at_purpose a = Issue \<longrightarrow> (\<exists>w. mget (wallets db) user = Some w \<and> at_holderDid a = Some (w_holderDid w))"
        by (auto simp: admission_def Let_def split: if_splits option.splits)
      have only: "j = at_id a" if "mget (attempts (set_row a db)) j = Some y" "active_at now y" "at_userId y = Some user" for j y
        using that none active_of_nil [OF ok(1), of now user] by (auto simp: map_of_update split: if_splits)
      have "x = a" using x only [OF x(1-3)] by (simp add: map_of_update)
      then show ?thesis using only wallet x by auto
    next
      case False
      have old: "mget (attempts db) j = Some y" if "mget (attempts (set_row a db)) j = Some y" "at_userId y = Some user" for j y
        using that False by (auto simp: map_of_update split: if_splits)
      note o = under_way_okD [OF ok(2) old [OF x(1,3)] x(2,3)]
      have "j = i" if "mget (attempts (set_row a db)) j = Some y" "active_at now y" "at_userId y = Some user" for j y
        using o(1) old that by metis
      then show ?thesis using o(2,3) by auto
    qed
  qed
  ultimately show ?thesis by (simp add: vc_ok_def)
qed

lemma evolves_ok:
  assumes "vc_ok now db" "mget (attempts db) (at_id a) = Some a" "moves_to a b"
  shows "vc_ok now (set_row b db)"
proof -
  have ok: "rows_ok db" "under_way_ok now db" "wallets_ok db" "credentials_ok db" using assms(1) by (simp_all add: vc_ok_def)
  note m = moves_row [OF assms(3)]
  have i: "at_id b = at_id a" using m(1) by (simp add: core_eq)
  then have old: "mget (attempts db) (at_id b) = Some a" using assms(2) by simp
  have "rows_ok (set_row b db)"
    using ok(1) old m(1) moves_unleased [OF assms(3)] by (intro rows_set) (auto simp: rows_ok_def core_eq)
  moreover have "under_way_ok now (set_row b db)" by (rule under_way_set [OF ok(2) old m(1,2)]) simp_all
  moreover have "credentials_ok (set_row b db)"
    by (rule credentials_set [OF ok(4) old m(1)]) (use m(3) in \<open>auto simp: open_status_def\<close>)
  ultimately show ?thesis using ok(3) by (simp add: vc_ok_def wallets_ok_def)
qed

text \<open>A settled attempt leaves the table as if its user had nothing under way.\<close>

lemma settles_ok:
  assumes "vc_ok now db" "mget (attempts db) (at_id a) = Some a" "settles now a b" "\<not> open_status (at_status b)"
  shows "vc_ok now (set_row b db)"
    "at_userId a = Some user \<Longrightarrow> mget (attempts (set_row b db)) i = Some x \<Longrightarrow> active_at now x \<Longrightarrow> at_userId x \<noteq> Some user"
proof -
  have ok: "rows_ok db" "under_way_ok now db" "wallets_ok db" "credentials_ok db" using assms(1) by (simp_all add: vc_ok_def)
  have s: "core b = core a" "at_status a = Pending" "now < at_expiresAt a" "unleased b" using assms(3) by (simp_all add: settles_def)
  have old: "mget (attempts db) (at_id b) = Some a" using assms(2) s(1) by (simp add: core_eq)
  have inactive: "\<not> active_at now b" using assms(4) by (simp add: active_at_def)
  have "rows_ok (set_row b db)" using ok(1) old s(1,4) by (intro rows_set) (auto simp: rows_ok_def core_eq)
  moreover have "under_way_ok now (set_row b db)" by (rule under_way_set [OF ok(2) old s(1)]) (use inactive in simp_all)
  moreover have "credentials_ok (set_row b db)" by (rule credentials_set [OF ok(4) old s(1)]) (use s(2) in simp_all)
  ultimately show "vc_ok now (set_row b db)" using ok(3) by (simp add: vc_ok_def wallets_ok_def)
  assume x: "at_userId a = Some user" "mget (attempts (set_row b db)) i = Some x" "active_at now x"
  show "at_userId x \<noteq> Some user"
  proof
    assume u: "at_userId x = Some user"
    have "i \<noteq> at_id b" using x inactive by (auto simp: map_of_update)
    then have "mget (attempts db) i = Some x" using x(2) by (simp add: map_of_update)
    moreover have "active_at now a" using s by (simp add: active_at_def open_status_def)
    ultimately have "i = at_id b" using ok(2) old x u unfolding under_way_ok_def by metis
    then show False using \<open>i \<noteq> at_id b\<close> by simp
  qed
qed

lemma links_ok:
  assumes "vc_ok now db" "mget (attempts db) (at_id a) = Some a" "settles now a b" "at_status b = Linked" "at_userId a = Some user"
    "mget (wallets db) user = None" "\<forall>u w. mget (wallets db) u = Some w \<longrightarrow> w_holderDid w \<noteq> w_holderDid new"
  shows "vc_ok now ((set_row b db)\<lparr>wallets := mput user new (wallets db)\<rparr>)"
proof -
  have closed: "\<not> open_status (at_status b)" using assms(4) by (simp add: open_status_def)
  note s = settles_ok [OF assms(1-3) closed]
  then have ok: "rows_ok (set_row b db)" "under_way_ok now (set_row b db)" "credentials_ok (set_row b db)" "wallets_ok db"
    by (simp_all add: vc_ok_def wallets_ok_def)
  let ?db = "(set_row b db)\<lparr>wallets := mput user new (wallets db)\<rparr>"
  have rows: "attempts ?db = attempts (set_row b db)" "credentials ?db = credentials (set_row b db)" by simp_all
  have "under_way_ok now ?db"
  proof (rule under_way_wallets [OF ok(2)])
    fix i x u assume "mget (attempts (set_row b db)) i = Some x" "active_at now x" "at_userId x = Some u"
    then have "u \<noteq> user" using s(2) [OF assms(5)] by blast
    then show "mget (wallets ?db) u = mget (wallets (set_row b db)) u" by (simp add: map_of_update)
  qed simp
  moreover have "wallets_ok ?db"
    unfolding wallets_ok_def
  proof (intro allI impI)
    have wallets_get: "mget (wallets ?db) = (mget (wallets db))(user \<mapsto> new)" by (rule ext) (simp add: map_of_update)
    fix u v w w' assume u: "mget (wallets ?db) u = Some w" and v: "mget (wallets ?db) v = Some w'" and same: "w_holderDid w = w_holderDid w'"
    show "u = v"
      by (rule unique_put [OF _ assms(7) u [unfolded wallets_get] v [unfolded wallets_get] same]) (use ok(4) in \<open>simp only: wallets_ok_def\<close>)
  qed
  moreover have "rows_ok ?db" "credentials_ok ?db"
    using ok(1,3) rows_ok_cong [of ?db "set_row b db"] credentials_ok_cong [of ?db "set_row b db"] by simp_all
  ultimately show ?thesis by (simp add: vc_ok_def)
qed

lemma issues_ok:
  assumes "vc_ok now db" "mget (attempts db) (at_id a) = Some a" "settles now a b" "at_status b = Issued" "at_purpose a = Issue"
    "at_userId a = Some (cr_userId c)" "at_holderDid a = Some (cr_holderDid c)" "at_evidenceRoot a = Some (cr_evidenceRoot c)"
    "cr_issuanceId c = at_id a" "mget (credentials db) (cr_id c) = None" "\<forall>i d. mget (credentials db) i = Some d \<longrightarrow> cr_issuanceId d \<noteq> at_id a"
  shows "vc_ok now ((set_row b db)\<lparr>credentials := mput (cr_id c) c (credentials db)\<rparr>)"
proof -
  have closed: "\<not> open_status (at_status b)" using assms(4) by (simp add: open_status_def)
  note s = settles_ok(1) [OF assms(1-3) closed]
  then have ok: "rows_ok (set_row b db)" "under_way_ok now (set_row b db)" "credentials_ok (set_row b db)" "wallets_ok (set_row b db)"
    by (simp_all add: vc_ok_def)
  let ?db = "(set_row b db)\<lparr>credentials := mput (cr_id c) c (credentials db)\<rparr>"
  have b: "core b = core a" using assms(3) by (simp add: settles_def)
  have cb: "issued_by c b" using assms(4-8) b by (simp add: issued_by_def core_eq)
  have id: "at_id b = at_id a" using b by (simp add: core_eq)
  have other: "cr_issuanceId d \<noteq> at_id a" if "mget (credentials db) i = Some d" for i d using assms(11) that by blast
  have "credentials_ok ?db"
  proof (rule credentials_okI)
    fix i d x assume d: "mget (credentials ?db) i = Some d"
    then show "cr_id d = i" using credentials_okD(1) [OF ok(3)] by (auto simp: map_of_update split: if_splits)
    assume x: "mget (attempts ?db) (cr_issuanceId d) = Some x"
    show "issued_by d x"
    proof (cases "i = cr_id c")
      case True
      then have "d = c" using d by (simp add: map_of_update)
      then show ?thesis using x cb assms(9) id by (simp add: map_of_update)
    next
      case False
      then have "mget (credentials (set_row b db)) i = Some d" using d by (simp add: map_of_update)
      then show ?thesis using credentials_okD(2) [OF ok(3)] x by simp
    qed
  next
    fix i j d e assume "mget (credentials ?db) i = Some d" "mget (credentials ?db) j = Some e" and same: "cr_issuanceId e = cr_issuanceId d"
    then have d: "i = cr_id c \<and> d = c \<or> i \<noteq> cr_id c \<and> mget (credentials db) i = Some d"
      and e: "j = cr_id c \<and> e = c \<or> j \<noteq> cr_id c \<and> mget (credentials db) j = Some e"
      by (auto simp: map_of_update split: if_splits)
    have old: "j = i" if "mget (credentials db) i = Some d" "mget (credentials db) j = Some e"
      using credentials_okD(3) [OF ok(3), of i d j e] that same by simp
    show "j = i" using d e other old same assms(9) by metis
  qed
  moreover have "under_way_ok now ?db" by (rule under_way_wallets [OF ok(2)]) simp_all
  moreover have "rows_ok ?db" using ok(1) rows_ok_cong [of ?db "set_row b db"] by simp
  moreover have "wallets_ok ?db" using ok(4) wallets_ok_cong [of ?db "set_row b db"] by simp
  ultimately show ?thesis by (simp add: vc_ok_def)
qed

lemma unlinks_ok:
  assumes "vc_ok now db" "active_of now user db = []"
  shows "vc_ok now (db\<lparr>wallets := mdel user (wallets db)\<rparr>)"
proof -
  have ok: "rows_ok db" "under_way_ok now db" "wallets_ok db" "credentials_ok db" using assms(1) by (simp_all add: vc_ok_def)
  have none: "at_userId a \<noteq> Some user" if "mget (attempts db) i = Some a" "active_at now a" for i a
    using that assms(2) active_of_nil [OF ok(1)] by blast
  have "under_way_ok now (db\<lparr>wallets := mdel user (wallets db)\<rparr>)"
    by (rule under_way_wallets [OF ok(2)]) (use none in \<open>auto simp: map_of_delete_if\<close>)
  then show ?thesis using ok(1,3,4) by (simp add: vc_ok_def rows_ok_def wallets_ok_def credentials_ok_def map_of_delete_if)
qed

lemma cleaned_get:
  assumes "rows_ok db"
  shows "mget (attempts (vc_cleanup now db)) i = Some a \<Longrightarrow> mget (attempts db) i = Some a"
    "rows_ok (vc_cleanup now db)"
proof -
  have d: "distinct (mkeys (attempts db))" using assms by (simp add: rows_ok_def)
  let ?P = "\<lambda>(_ :: string, a). \<not> at_expiresAt a < now - DAY_MS"
  have d': "distinct (mkeys (filter ?P (attempts db)))" using d by (rule distinct_map_filter)
  have sub: "mget (attempts (vc_cleanup now db)) i = Some a \<Longrightarrow> mget (attempts db) i = Some a" for i a
    using map_of_eq_Some_iff [OF d'] map_of_eq_Some_iff [OF d] by (auto simp: vc_cleanup_def)
  show "mget (attempts (vc_cleanup now db)) i = Some a \<Longrightarrow> mget (attempts db) i = Some a" by (rule sub)
  show "rows_ok (vc_cleanup now db)" using assms d' sub unfolding rows_ok_def by (auto simp: vc_cleanup_def)
qed

lemma cleans_ok:
  assumes "vc_ok now db"
  shows "vc_ok now (vc_cleanup now db)"
proof -
  have ok: "rows_ok db" "under_way_ok now db" "wallets_ok db" "credentials_ok db" using assms(1) by (simp_all add: vc_ok_def)
  have same: "wallets (vc_cleanup now db) = wallets db" "credentials (vc_cleanup now db) = credentials db" by (simp_all add: vc_cleanup_def)
  note sub = cleaned_get(1) [OF ok(1), of now]
  have "under_way_ok now (vc_cleanup now db)" using ok(2) sub unfolding under_way_ok_def same by meson
  moreover have "credentials_ok (vc_cleanup now db)" using ok(4) sub unfolding credentials_ok_def same by meson
  ultimately show ?thesis using cleaned_get(2) [OF ok(1)] ok(3) by (simp add: vc_ok_def wallets_ok_def same)
qed

lemma db_step_ok:
  assumes "db_step now used db db'" "vc_ok now db" "used_ok used db"
  shows "vc_ok now db'"
  using assms(1)
proof cases
  case stays
  then show ?thesis using assms(2) by simp
next
  case (creates a)
  then show ?thesis using creates_ok [OF assms(2,3)] by simp
next
  case (evolves a b)
  then show ?thesis using evolves_ok [OF assms(2)] by simp
next
  case (links a b user new)
  show ?thesis unfolding links(1) by (rule links_ok [OF assms(2) links(2-4,6-8)])
next
  case (issues a b c)
  show ?thesis unfolding issues(1) by (rule issues_ok [OF assms(2) issues(2-)])
next
  case (unlinks user)
  then show ?thesis using unlinks_ok [OF assms(2)] by simp
next
  case cleans
  then show ?thesis using cleans_ok [OF assms(2)] by simp
qed

section \<open>The operations of the store are steps of the contract\<close>

lemma update_where_cases:
  assumes "rows_ok db" "update_where i P f db = (db', n)" "\<And>a. at_id (f a) = at_id a"
  obtains "n = 0" "db' = db"
  | a where "mget (attempts db) (at_id a) = Some a" "at_id a = i" "P a" "n = 1" "db' = set_row (f a) db"
proof (cases "mget (attempts db) i")
  case None
  then show ?thesis using assms(2) that(1) by (simp add: update_where_def)
next
  case (Some a)
  then have i: "at_id a = i" using assms(1) unfolding rows_ok_def by blast
  show ?thesis
  proof (cases "P a")
    case True
    then have "n = 1" "db' = set_row (f a) db" using Some assms(2) by (simp_all add: update_where_def assms(3) i)
    then show ?thesis using that(2) [of a] Some i True by simp
  next
    case False
    then show ?thesis using Some assms(2) that(1) by (simp add: update_where_def)
  qed
qed

lemma rows_okD: "rows_ok db \<Longrightarrow> mget (attempts db) i = Some a \<Longrightarrow> at_id a = i \<and> (at_status a \<noteq> Pending \<longrightarrow> unleased a) \<and> (at_userId a = None \<longleftrightarrow> at_purpose a = Verify)"
  unfolding rows_ok_def by blast

lemma update_evolves:
  assumes "rows_ok db" "\<And>a. at_id (f a) = at_id a"
    and "\<And>a. mget (attempts db) i = Some a \<Longrightarrow> at_id a = i \<Longrightarrow> P a \<Longrightarrow> moves_to a (f a)"
  shows "db_step now used db (fst (update_where i P f db))"
proof -
  obtain db' n where u: "update_where i P f db = (db', n)" by (cases "update_where i P f db")
  show ?thesis
    unfolding u fst_conv
  proof (rule update_where_cases [OF assms(1) u assms(2)])
    assume "db' = db" then show "db_step now used db db'" by (simp add: db_step.stays)
  next
    fix a assume a: "mget (attempts db) (at_id a) = Some a" "at_id a = i" "P a" "db' = set_row (f a) db"
    show "db_step now used db db'" unfolding a(4) by (rule db_step.evolves [OF a(1)]) (use assms(3) a in auto)
  qed
qed

lemma fail_step: "rows_ok db \<Longrightarrow> db_step now used db (vc_fail i db)"
  unfolding vc_fail_def by (rule update_evolves) (auto simp: moves_to_def core_def open_status_def unleased_def)

lemma cancel_step: "rows_ok db \<Longrightarrow> db_step now used db (vc_cancel i db)"
  unfolding vc_cancel_def by (rule update_evolves) (auto simp: moves_to_def core_def unleased_def)

lemma release_step: "rows_ok db \<Longrightarrow> db_step now used db (vc_release i token db)"
  unfolding vc_release_def
proof (rule update_evolves)
  fix a assume "rows_ok db" "mget (attempts db) i = Some a" "at_leaseToken a = Some token"
  then have "at_status a = Pending" using rows_okD [of db i a] by (auto simp: unleased_def)
  then show "moves_to a (a\<lparr>at_leaseToken := None, at_leaseUntil := None\<rparr>)" by (simp add: moves_to_def core_def)
qed simp_all

lemma acquire_step:
  assumes "rows_ok db" "vc_acquire i token t db = (db', got)"
  shows "db_step now used db db'"
proof -
  have "db' = fst (update_where i (lease_free t)
      (\<lambda>a. a\<lparr>at_leaseToken := Some token, at_leaseUntil := Some (t + LEASE_MS), at_nextPollAt := t + POLL_MS\<rparr>) db)"
    using assms(2) by (auto simp: vc_acquire_def Let_def split: prod.splits)
  then show ?thesis
    by (simp only:) (rule update_evolves [OF assms(1)], auto simp: moves_to_def core_def lease_free_def)
qed

lemma activate_step:
  assumes "rows_ok db" "vc_activate i upstream offer expires db = Inr db'"
    and "\<And>a. mget (attempts db) i = Some a \<Longrightarrow> at_status a = Creating \<Longrightarrow> expires \<le> at_expiresAt a"
  shows "db_step now used db db'"
proof -
  have "db' = fst (update_where i (\<lambda>a. at_status a = Creating)
      (\<lambda>a. a\<lparr>at_status := Pending, at_upstreamId := Some upstream, at_offer := offer, at_expiresAt := expires\<rparr>) db)"
    using assms(2) by (auto simp: vc_activate_def Let_def split: prod.splits if_splits)
  then show ?thesis
    by (simp only:) (rule update_evolves [OF assms(1)], auto simp: moves_to_def core_def unleased_def intro: assms(3))
qed

lemma create_step:
  assumes "vc_create now a db = Inr (db', row)" "rows_ok db" "at_status a = Creating" "unleased a" "at_id a \<notin> set used"
    and "at_userId a = None \<longleftrightarrow> at_purpose a = Verify" "at_purpose a = Issue \<longrightarrow> at_holderDid a \<noteq> None \<and> at_evidenceRoot a \<noteq> None"
  shows "db_step now used db db'"
    "db' = set_row a db \<and> row = a \<and> mget (attempts db) (at_id a) = None \<or> db' = db \<and> (\<exists>i. mget (attempts db) i = Some row)"
proof -
  have inserted: "db' = set_row a db \<and> row = a \<and> mget (attempts db) (at_id a) = None" if "insert_attempt a db = Inr (db', row)"
    using that by (auto simp: insert_attempt_def split: if_splits)
  have "(db' = db \<and> (\<exists>user key. with_key user key db = Some row)) \<or>
      (db' = set_row a db \<and> row = a \<and> mget (attempts db) (at_id a) = None \<and>
       (case at_userId a of None \<Rightarrow> True | Some user \<Rightarrow> admission now user a db = None))"
  proof (cases "at_userId a")
    case None
    then show ?thesis using assms(1) inserted by (simp add: vc_create_def)
  next
    case (Some user)
    show ?thesis
    proof (cases "case at_idempotencyKey a of None \<Rightarrow> None | Some key \<Rightarrow> if key = [] then None else with_key user key db")
      case None
      then have "admission now user a db = None" "insert_attempt a db = Inr (db', row)"
        using assms(1) by (simp_all add: vc_create_def Some split: option.splits)
      then show ?thesis using inserted Some by simp
    next
      case (Some existing)
      then have "db' = db" "row = existing"
        using assms(1) \<open>at_userId a = Some user\<close> by (simp_all add: vc_create_def split: if_splits)
      then show ?thesis using Some by (auto split: option.splits if_splits)
    qed
  qed
  then have "db_step now used db db' \<and>
    (db' = set_row a db \<and> row = a \<and> mget (attempts db) (at_id a) = None \<or> db' = db \<and> (\<exists>i. mget (attempts db) i = Some row))"
  proof (elim disjE exE conjE)
    assume new: "db' = set_row a db" "row = a" "mget (attempts db) (at_id a) = None"
        "case at_userId a of None \<Rightarrow> True | Some user \<Rightarrow> admission now user a db = None"
    have "db_step now used db (set_row a db)"
      by (rule db_step.creates [OF assms(3-5) new(3)]) (use new(4) assms(6,7) in \<open>auto split: option.splits\<close>)
    then show ?thesis using new(1-3) by simp
  next
    fix user key assume old: "db' = db" "with_key user key db = Some row"
    have "row \<in> set (mvalues (attempts db))" using find_first [OF old(2) [unfolded with_key_def]] by blast
    then have "\<exists>i. mget (attempts db) i = Some row" using assms(2) by (force simp: rows_ok_def map_of_eq_Some_iff)
    then show ?thesis using old(1) by (simp add: db_step.stays)
  qed
  then show "db_step now used db db'"
    "db' = set_row a db \<and> row = a \<and> mget (attempts db) (at_id a) = None \<or> db' = db \<and> (\<exists>i. mget (attempts db) i = Some row)" by blast+
qed

definition detail_fits :: "attempt \<Rightarrow> attempt_status \<Rightarrow> completion_detail \<Rightarrow> bool" where
  "detail_fits row status detail \<longleftrightarrow> (case detail of
     NoDetail \<Rightarrow> status \<in> {Verified, Rejected} \<and> at_purpose row = Verify
   | WalletDetail _ _ \<Rightarrow> status = Linked \<and> at_purpose row = Link
   | CredentialDetail _ _ _ _ \<Rightarrow> status = Issued \<and> at_purpose row = Issue)"

lemma add_wallet_step:
  assumes "add_wallet now row holder cx db = Inr db'"
  shows "\<exists>user new. at_userId row = Some user \<and> w_holderDid new = holder \<and> mget (wallets db) user = None \<and>
    (\<forall>u w. mget (wallets db) u = Some w \<longrightarrow> w_holderDid w \<noteq> w_holderDid new) \<and> db' = db\<lparr>wallets := mput user new (wallets db)\<rparr>"
proof -
  obtain user t where u: "at_userId row = Some user" "\<not> list_ex (\<lambda>(u, w). w_holderDid w = holder \<and> u \<noteq> user) (wallets db)"
    "mget (wallets db) user = None"
    "db' = db\<lparr>wallets := mput user \<lparr>w_holderDid = holder, w_cxVerifiedAt = t, w_linkedAt = now\<rparr> (wallets db)\<rparr>"
    using assms by (auto simp: add_wallet_def split: option.splits if_splits)
  have "w_holderDid w \<noteq> holder" if "mget (wallets db) v = Some w" for v w
  proof
    assume "w_holderDid w = holder"
    moreover have "(v, w) \<in> set (wallets db)" using that by (rule map_of_SomeD)
    moreover have "v \<noteq> user" using that u(3) by auto
    ultimately show False using u(2) by (auto simp: list_ex_iff)
  qed
  then show ?thesis using u by (intro exI [of _ user] exI [of _ "\<lparr>w_holderDid = holder, w_cxVerifiedAt = t, w_linkedAt = now\<rparr>"]) simp
qed

lemma add_credential_step:
  assumes "add_credential row cid issuedAt country year db = Inr db'"
  shows "\<exists>c. cr_id c = cid \<and> cr_issuanceId c = at_id row \<and> at_userId row = Some (cr_userId c) \<and> at_holderDid row = Some (cr_holderDid c) \<and>
    at_evidenceRoot row = Some (cr_evidenceRoot c) \<and> mget (credentials db) cid = None \<and>
    (\<forall>i d. mget (credentials db) i = Some d \<longrightarrow> cr_issuanceId d \<noteq> at_id row) \<and> db' = db\<lparr>credentials := mput cid c (credentials db)\<rparr>"
proof -
  obtain user holder merkle where r: "at_userId row = Some user" "at_holderDid row = Some holder" "at_evidenceRoot row = Some merkle"
    using assms by (auto simp: add_credential_def split: option.splits)
  define c where "c = \<lparr>cr_id = cid, cr_issuanceId = at_id row, cr_userId = user, cr_holderDid = holder, cr_evidenceRoot = merkle,
     cr_countryCode = country, cr_taxYear = year, cr_snapshot = at_snapshot row, cr_issuedAt = issuedAt\<rparr>"
  have new: "mget (credentials db) cid = None" "\<not> list_ex (\<lambda>d. cr_issuanceId d = at_id row) (mvalues (credentials db))"
    "db' = db\<lparr>credentials := mput cid c (credentials db)\<rparr>"
    using assms by (auto simp: add_credential_def r c_def split: if_splits)
  have "cr_issuanceId d \<noteq> at_id row" if "mget (credentials db) i = Some d" for i d
    using new(2) map_of_Some_in_set [OF that] unfolding list_ex_iff by blast
  then show ?thesis using r new by (intro exI [of _ c]) (simp add: c_def)
qed

lemma complete_step:
  assumes "rows_ok db" "vc_complete now row token status answer detail db = Inr db'" "detail_fits row status detail"
    and agree: "\<And>a. mget (attempts db) (at_id row) = Some a \<Longrightarrow> core a = core row"
  shows "db_step now used db db'"
proof -
  let ?f = "\<lambda>a. a\<lparr>at_status := status, at_result := answer, at_leaseToken := None, at_leaseUntil := None\<rparr>"
  obtain db1 n where u: "update_where (at_id row) (holds_lease now token) ?f db = (db1, n)" by (cases "update_where (at_id row) (holds_lease now token) ?f db")
  have n: "n \<noteq> 0" using assms(2) by (cases "n = 0") (simp_all add: vc_complete_def u)
  obtain a where a: "mget (attempts db) (at_id a) = Some a" "at_id a = at_id row" "holds_lease now token a" "db1 = set_row (?f a) db"
    by (rule update_where_cases [OF assms(1) u]) (use n in auto)
  have c: "core a = core row" by (rule agree) (use a in simp)
  have s: "settles now a (?f a)" using a(3) by (simp add: settles_def holds_lease_def core_def unleased_def)
  have f: "core (?f a) = core a" "at_status (?f a) = status" by (simp_all add: core_def)
  show ?thesis
  proof (cases detail)
    case NoDetail
    then have db': "db' = set_row (?f a) db" using assms(2) n by (simp add: vc_complete_def u a(4))
    have "moves_to a (?f a)"
      using s assms(3) c by (auto simp: moves_to_def settles_def detail_fits_def NoDetail core_eq unleased_def)
    then show ?thesis unfolding db' by (rule db_step.evolves [OF a(1)])
  next
    case (WalletDetail holder cx)
    then have "add_wallet now row holder cx db1 = Inr db'" using assms(2) n by (simp add: vc_complete_def u)
    then obtain user new where w: "at_userId row = Some user" "mget (wallets db1) user = None"
      "\<forall>u w. mget (wallets db1) u = Some w \<longrightarrow> w_holderDid w \<noteq> w_holderDid new" "db' = db1\<lparr>wallets := mput user new (wallets db1)\<rparr>"
      using add_wallet_step by blast
    have same: "wallets db1 = wallets db" by (simp add: a(4))
    have p: "status = Linked" "at_purpose a = Link" "at_userId a = Some user"
      using assms(3) c w(1) by (simp_all add: detail_fits_def WalletDetail core_eq)
    have "db_step now used db ((set_row (?f a) db)\<lparr>wallets := mput user new (wallets db)\<rparr>)"
      by (rule db_step.links [OF a(1) s _ p(2,3)]) (use w(2,3) p(1) same in simp_all)
    then show ?thesis by (unfold w(4) same, unfold a(4))
  next
    case (CredentialDetail cid t country year)
    then have "add_credential row cid t country year db1 = Inr db'" using assms(2) n by (simp add: vc_complete_def u)
    then obtain c' where w: "cr_id c' = cid" "cr_issuanceId c' = at_id row" "at_userId row = Some (cr_userId c')" "at_holderDid row = Some (cr_holderDid c')"
      "at_evidenceRoot row = Some (cr_evidenceRoot c')" "mget (credentials db1) cid = None"
      "\<forall>i d. mget (credentials db1) i = Some d \<longrightarrow> cr_issuanceId d \<noteq> at_id row" "db' = db1\<lparr>credentials := mput cid c' (credentials db1)\<rparr>"
      using add_credential_step by blast
    have same: "credentials db1 = credentials db" by (simp add: a(4))
    have p: "status = Issued" "at_purpose a = Issue" "at_userId a = Some (cr_userId c')" "at_holderDid a = Some (cr_holderDid c')"
      "at_evidenceRoot a = Some (cr_evidenceRoot c')" "cr_issuanceId c' = at_id a"
      using assms(3) c w(2-5) a(2) by (simp_all add: detail_fits_def CredentialDetail core_eq)
    have "db_step now used db ((set_row (?f a) db)\<lparr>credentials := mput (cr_id c') c' (credentials db)\<rparr>)"
      by (rule db_step.issues [OF a(1) s _ p(2-6)]) (use w(1,6,7) p(1) same a(2) in simp_all)
    then show ?thesis by (unfold w(8) same, unfold a(4) w(1))
  qed
qed

lemma poll_result_fits:
  assumes "poll_result E now inspect latestRoot row r db = Inr (status, stored, shown, detail)"
  shows "detail_fits row status detail"
proof (cases "at_purpose row")
  case Link
  then show ?thesis
    using assms by (auto simp: poll_result_def detail_fits_def Let_def split: bool.splits jsv.splits option.splits if_splits)
next
  case Issue
  then show ?thesis
    using assms by (auto simp: poll_result_def detail_fits_def Let_def split: bool.splits jsv.splits option.splits if_splits)
next
  case Verify
  then show ?thesis
    using assms by (auto simp: poll_result_def detail_fits_def verification_answer_def Let_def split: prod.splits)
qed

section \<open>What becomes of a row\<close>

lemma set_row_get:
  assumes "mget (attempts (set_row b db)) i = Some x" "mget (attempts db) (at_id a) = Some a" "core b = core a"
    and "open_status (at_status a)" "at_status b \<noteq> Creating"
  shows "\<exists>y. mget (attempts db) i = Some y \<and> core x = core y \<and> (x = y \<or> open_status (at_status y)) \<and> (at_status x = Creating \<longrightarrow> x = y)"
proof (cases "i = at_id a")
  case True
  moreover have "at_id b = at_id a" using assms(3) by (simp add: core_eq)
  ultimately have "x = b" using assms(1) by (simp add: map_of_update)
  then show ?thesis using assms(2-5) True by auto
next
  case False
  moreover have "at_id b = at_id a" using assms(3) by (simp add: core_eq)
  ultimately show ?thesis using assms(1) by (simp add: map_of_update)
qed

lemma db_step_row:
  assumes "db_step now used db db'" "rows_ok db" "mget (attempts db') i = Some x"
  shows "i \<notin> set used \<and> mget (attempts db) i = None \<and> at_status x = Creating \<or>
    (\<exists>y. mget (attempts db) i = Some y \<and> core x = core y \<and> (x = y \<or> open_status (at_status y)) \<and> (at_status x = Creating \<longrightarrow> x = y))"
  using assms(1)
proof cases
  case stays
  then show ?thesis using assms(3) by blast
next
  case (creates a)
  show ?thesis
  proof (cases "i = at_id a")
    case True
    then have "x = a" using assms(3) by (simp add: creates(1) map_of_update)
    then show ?thesis using creates True by blast
  next
    case False
    then show ?thesis using assms(3) by (simp add: creates(1) map_of_update)
  qed
next
  case (evolves a b)
  note m = moves_row [OF evolves(3)]
  show ?thesis using set_row_get [OF assms(3) [unfolded evolves(1)] evolves(2) m(1,3,4)] by blast
next
  case (links a b user new)
  have "mget (attempts (set_row b db)) i = Some x" using assms(3) by (simp add: links(1))
  moreover have "core b = core a" "open_status (at_status a)" "at_status b \<noteq> Creating"
    using links(3,4) by (simp_all add: settles_def open_status_def)
  ultimately show ?thesis using set_row_get links(2) by blast
next
  case (issues a b c)
  have "mget (attempts (set_row b db)) i = Some x" using assms(3) by (simp add: issues(1))
  moreover have "core b = core a" "open_status (at_status a)" "at_status b \<noteq> Creating"
    using issues(3,4) by (simp_all add: settles_def open_status_def)
  ultimately show ?thesis using set_row_get issues(2) by blast
next
  case (unlinks user)
  then show ?thesis using assms(3) by simp
next
  case cleans
  then show ?thesis using assms(3) cleaned_get(1) [OF assms(2)] by blast
qed

text \<open>Credentials are never changed or removed; one appears only for an attempt under way whose user has the wallet linked.\<close>

lemma db_step_credential:
  assumes "db_step now used db db'" "mget (credentials db') i = Some c"
  shows "mget (credentials db) i = Some c \<or>
    (\<exists>a. mget (attempts db) (cr_issuanceId c) = Some a \<and> at_purpose a = Issue \<and> active_at now a \<and> at_userId a = Some (cr_userId c) \<and>
      at_holderDid a = Some (cr_holderDid c) \<and> at_evidenceRoot a = Some (cr_evidenceRoot c))"
  using assms(1)
proof cases
  case (issues a b d)
  show ?thesis
  proof (cases "i = cr_id d")
    case True
    then have "c = d" using assms(2) by (simp add: issues(1) map_of_update)
    moreover have "active_at now a" using issues(3) by (simp add: settles_def active_at_def open_status_def)
    ultimately show ?thesis using issues by (intro disjI2 exI [of _ a]) simp
  next
    case False
    then show ?thesis using assms(2) by (simp add: issues(1) map_of_update)
  qed
qed (use assms(2) in \<open>simp_all add: vc_cleanup_def\<close>)

lemma credential_kept:
  assumes "db_step now used db db'" "mget (credentials db) i = Some c"
  shows "mget (credentials db') i = Some c"
  using assms(1)
proof cases
  case (issues a b d)
  then show ?thesis using assms(2) by (auto simp: map_of_update)
qed (use assms(2) in \<open>simp_all add: vc_cleanup_def\<close>)

section \<open>The invariant of the machine\<close>

text \<open>A waiting request remembers the attempt it read; what it uses of it is still so.\<close>

definition waits_ok :: "string list \<Rightarrow> vc_db \<Rightarrow> vc_call \<Rightarrow> bool" where
  "waits_ok used db c \<longleftrightarrow> (case c of
     OfferCall row _ \<Rightarrow> at_id row \<in> set used \<and>
       (\<forall>a. mget (attempts db) (at_id row) = Some a \<longrightarrow> core a = core row \<and> (at_status a = Creating \<longrightarrow> at_expiresAt a = at_expiresAt row))
   | ResultCall row _ \<Rightarrow> at_id row \<in> set used \<and> (\<forall>a. mget (attempts db) (at_id row) = Some a \<longrightarrow> core a = core row)
   | _ \<Rightarrow> True)"

definition machine_ok :: "vc_machine \<Rightarrow> bool" where
  "machine_ok m \<longleftrightarrow> vc_ok (vm_clock m) (vm_db m) \<and> used_ok (vm_ids m) (vm_db m) \<and> list_all (waits_ok (vm_ids m) (vm_db m)) (vm_calls m)"

lemma waits_ok_step:
  assumes "db_step now used db db'" "rows_ok db" "waits_ok used db c" "set used \<subseteq> set used'"
  shows "waits_ok used' db' c"
proof -
  have old: "\<exists>y. mget (attempts db) i = Some y \<and> core x = core y \<and> (at_status x = Creating \<longrightarrow> x = y)"
    if "mget (attempts db') i = Some x" "i \<in> set used" for i x
    using db_step_row [OF assms(1,2) that(1)] that(2) by blast
  show ?thesis
  proof (cases c)
    case (OfferCall row request)
    have used: "at_id row \<in> set used" and agree: "\<And>y. mget (attempts db) (at_id row) = Some y \<Longrightarrow> core y = core row \<and> (at_status y = Creating \<longrightarrow> at_expiresAt y = at_expiresAt row)"
      using assms(3) by (simp_all add: waits_ok_def OfferCall)
    have "core x = core row \<and> (at_status x = Creating \<longrightarrow> at_expiresAt x = at_expiresAt row)" if "mget (attempts db') (at_id row) = Some x" for x
      using old [OF that used] agree by metis
    then show ?thesis using used assms(4) by (auto simp: waits_ok_def OfferCall)
  next
    case (ResultCall row token)
    have used: "at_id row \<in> set used" and agree: "\<And>y. mget (attempts db) (at_id row) = Some y \<Longrightarrow> core y = core row"
      using assms(3) by (simp_all add: waits_ok_def ResultCall)
    have "core x = core row" if "mget (attempts db') (at_id row) = Some x" for x
      using old [OF that used] agree by metis
    then show ?thesis using used assms(4) by (auto simp: waits_ok_def ResultCall)
  qed (simp_all add: waits_ok_def)
qed

text \<open>A step of the store keeps the machine sound, if every id it adds is recorded and every call it leaves is sound.\<close>

lemma machine_step:
  assumes "machine_ok m" "db_step (vm_clock m) (vm_ids m) (vm_db m) db" "set (vm_ids m) \<subseteq> set ids"
    and new: "\<And>i x. mget (attempts db) i = Some x \<Longrightarrow> mget (attempts (vm_db m)) i = None \<Longrightarrow> i \<in> set ids"
    and calls: "\<And>c. c \<in> set cs \<Longrightarrow> c \<in> set (vm_calls m) \<or> waits_ok ids db c"
  shows "machine_ok (m\<lparr>vm_db := db, vm_budget := b, vm_calls := cs, vm_ids := ids\<rparr>)"
proof -
  have ok: "vc_ok (vm_clock m) (vm_db m)" "used_ok (vm_ids m) (vm_db m)" "\<And>c. c \<in> set (vm_calls m) \<Longrightarrow> waits_ok (vm_ids m) (vm_db m) c"
    using assms(1) by (simp_all add: machine_ok_def list_all_iff)
  have rows: "rows_ok (vm_db m)" using ok(1) by (simp add: vc_ok_def)
  have "vc_ok (vm_clock m) db" by (rule db_step_ok [OF assms(2) ok(1,2)])
  moreover have "used_ok ids db"
  proof -
    have "i \<in> set ids" if "mget (attempts db) i = Some x" for i x
    proof (cases "mget (attempts (vm_db m)) i")
      case None
      then show ?thesis using new that by blast
    next
      case (Some y)
      then have "i \<in> set (vm_ids m)" using ok(2) unfolding used_ok_def by blast
      then show ?thesis using assms(3) by blast
    qed
    moreover have "cr_issuanceId c \<in> set ids" if "mget (credentials db) i = Some c" for i c
      using db_step_credential [OF assms(2) that] ok(2) assms(3) unfolding used_ok_def by blast
    ultimately show ?thesis unfolding used_ok_def by blast
  qed
  moreover have "list_all (waits_ok ids db) cs"
    using calls waits_ok_step [OF assms(2) rows ok(3) assms(3)] unfolding list_all_iff by blast
  ultimately show ?thesis by (simp add: machine_ok_def)
qed

section \<open>Every request is a step of the contract\<close>

lemma start_step:
  assumes "start_attempt E now a request (db, budget) = ((db', budget'), out)" "rows_ok db" "used_ok used db"
    and a: "at_status a = Creating" "unleased a" "at_id a \<notin> set used" "at_userId a = None \<longleftrightarrow> at_purpose a = Verify"
      "at_purpose a = Issue \<longrightarrow> at_holderDid a \<noteq> None \<and> at_evidenceRoot a \<noteq> None"
  shows "db_step now used db db'" "\<And>i x. mget (attempts db') i = Some x \<Longrightarrow> mget (attempts db) i = None \<Longrightarrow> i = at_id a"
    "\<And>c. out = Wait c \<Longrightarrow> waits_ok (at_id a # used) db' c"
proof -
  have "(\<exists>row. vc_create now a db = Inr (db', row) \<and> out = offer_begin E now row (request row)) \<or> db' = db \<and> (\<forall>c. out \<noteq> Wait c)"
  proof (cases "ve_enabled E")
    case False
    then show ?thesis using assms(1) by (auto simp: start_attempt_def newAttempt_def)
  next
    case True
    obtain b ok where r: "vc_rate now budget = (b, ok)" by (cases "vc_rate now budget")
    show ?thesis
    proof (cases ok)
      case False
      then show ?thesis using assms(1) True r by (auto simp: start_attempt_def newAttempt_def)
    next
      case ok: True
      show ?thesis
      proof (cases "vc_create now a db")
        case (Inl e)
        then show ?thesis using assms(1) True r ok by (auto simp: start_attempt_def newAttempt_def)
      next
        case (Inr dr)
        then show ?thesis using assms(1) True r ok by (cases dr) (simp add: start_attempt_def newAttempt_def)
      qed
    qed
  qed
  then have "db_step now used db db' \<and> (\<forall>i x. mget (attempts db') i = Some x \<longrightarrow> mget (attempts db) i = None \<longrightarrow> i = at_id a) \<and>
    (\<forall>c. out = Wait c \<longrightarrow> waits_ok (at_id a # used) db' c)"
  proof (elim disjE exE conjE)
    assume "db' = db" "\<forall>c. out \<noteq> Wait c"
    then show ?thesis by (simp add: db_step.stays)
  next
    fix row assume c: "vc_create now a db = Inr (db', row)" and out: "out = offer_begin E now row (request row)"
    note s = create_step [OF c assms(2) a]
    have "i = at_id a" if "mget (attempts db') i = Some x" "mget (attempts db) i = None" for i x
      using s(2) that by (auto simp: map_of_update split: if_splits)
    moreover have "waits_ok (at_id a # used) db' call" if "out = Wait call" for call
    proof -
      have call: "call = OfferCall row (pspread [(''requestId'', VStr (at_id row))] (request row))"
        using that out by (auto simp: offer_begin_def offer_reply_def Let_def split: if_splits option.splits)
      have stored: "mget (attempts db') (at_id row) = Some row \<and> at_id row \<in> insert (at_id a) (set used)"
      proof (cases "db' = set_row a db \<and> row = a")
        case True
        then show ?thesis by (simp add: map_of_update)
      next
        case False
        then obtain i where i: "db' = db" "mget (attempts db) i = Some row" using s(2) by blast
        moreover have "at_id row = i" using rows_okD [OF assms(2) i(2)] by blast
        moreover have "i \<in> set used" using assms(3) i(2) unfolding used_ok_def by blast
        ultimately show ?thesis by simp
      qed
      then show ?thesis by (simp add: waits_ok_def call)
    qed
    ultimately show ?thesis using s(1) by blast
  qed
  then show "db_step now used db db'" "\<And>i x. mget (attempts db') i = Some x \<Longrightarrow> mget (attempts db) i = None \<Longrightarrow> i = at_id a"
    "\<And>c. out = Wait c \<Longrightarrow> waits_ok (at_id a # used) db' c" by blast+
qed

text \<open>A request that begins an attempt: it stops before, shows the attempt under way, or starts one.\<close>

definition fresh_attempt :: "string \<Rightarrow> attempt \<Rightarrow> bool" where
  "fresh_attempt i a \<longleftrightarrow> at_id a = i \<and> at_status a = Creating \<and> unleased a \<and> (at_userId a = None \<longleftrightarrow> at_purpose a = Verify) \<and>
     (at_purpose a = Issue \<longrightarrow> at_holderDid a \<noteq> None \<and> at_evidenceRoot a \<noteq> None)"

definition begins :: "vc_env \<Rightarrow> int \<Rightarrow> string \<Rightarrow> vc_db \<times> int \<times> nat \<Rightarrow> (vc_db \<times> int \<times> nat) \<times> vc_outcome \<Rightarrow> bool" where
  "begins E now i st result \<longleftrightarrow> fst result = st \<and> (\<forall>c. snd result \<noteq> Wait c) \<or>
     (\<exists>a request. fresh_attempt i a \<and> result = start_attempt E now a request st)"

lemma reply_no_wait [simp]: "offer_reply E now row \<noteq> Wait c"
  by (simp add: offer_reply_def Let_def split: option.split)

lemma link_begins: "begins E now i st (vc_link E now cx cookie user i st)"
proof (cases "requireCx E cx")
  case (Inr verifiedAt)
  let ?a = "(blank_attempt E now Link (Some user) i)\<lparr>at_snapshot := VObj [(''cxVerifiedAt'', VStr (toISOString verifiedAt))]\<rparr>"
  have f: "fresh_attempt i ?a" by (simp add: fresh_attempt_def blank_attempt_def unleased_def)
  show ?thesis
  proof (cases "15 * 60000 < now - verifiedAt \<or> activeLink now user (fst st) \<noteq> None")
    case True
    then show ?thesis by (auto simp: begins_def vc_link_def Inr split: option.split)
  next
    case False
    then have "vc_link E now cx cookie user i st = start_attempt E now ?a (\<lambda>row. []) st" by (simp add: vc_link_def Inr)
    then show ?thesis unfolding begins_def using f by blast
  qed
qed (simp add: begins_def vc_link_def)

lemma issue_begins: "begins E now i st (vc_issue E now cx user i merkle key wallet evidence anchor inspect st)"
proof (cases "requireCx E cx")
  case (Inr t)
  show ?thesis
  proof (cases "issue_data E merkle key wallet evidence anchor inspect")
    case (Inr khd)
    obtain k holder data where khd: "khd = (k, holder, data)" by (cases khd)
    let ?a = "(blank_attempt E now Issue (Some user) i)\<lparr>at_holderDid := Some holder, at_evidenceRoot := Some merkle,
            at_idempotencyKey := Some k, at_requestHash := Some (secretHash E merkle), at_snapshot := VObj data\<rparr>"
    have "fresh_attempt i ?a" by (simp add: fresh_attempt_def blank_attempt_def unleased_def)
    moreover have "vc_issue E now cx user i merkle key wallet evidence anchor inspect st = start_attempt E now ?a
         (\<lambda>row. [(''holderDid'', case at_holderDid row of Some d \<Rightarrow> VStr d | None \<Rightarrow> VNull), (''snapshot'', at_snapshot row)]) st"
      by (simp add: vc_issue_def \<open>requireCx E cx = Inr t\<close> Inr khd)
    ultimately show ?thesis unfolding begins_def by blast
  qed (simp add: begins_def vc_issue_def Inr)
qed (simp add: begins_def vc_issue_def)

lemma verify_begins: "begins E now i st (vc_verify E now disclosure i st)"
proof (cases "disclosure = ''basic''")
  case True
  let ?a = "(blank_attempt E now Verify None i)\<lparr>at_disclosure := Some disclosure\<rparr>"
  have "fresh_attempt i ?a" by (simp add: fresh_attempt_def blank_attempt_def unleased_def)
  moreover have "vc_verify E now disclosure i st = start_attempt E now ?a (\<lambda>row. [(''disclosure'', VStr disclosure)]) st"
    by (simp add: vc_verify_def True)
  ultimately show ?thesis unfolding begins_def by blast
qed (simp add: begins_def vc_verify_def)

lemma machine_rows: "machine_ok m \<Longrightarrow> rows_ok (vm_db m) \<and> used_ok (vm_ids m) (vm_db m)"
  by (simp add: machine_ok_def vc_ok_def)

lemma put_outcome_cases: "c \<in> set (put_outcome out cs) \<Longrightarrow> c \<in> set cs \<or> out = Wait c"
  by (cases out) (auto simp: put_outcome_def)

lemma begins_ok:
  assumes "machine_ok m" "begins E (vm_clock m) i (vm_db m, vm_budget m) ((db, budget), out)" "i \<notin> set (vm_ids m)"
  shows "db_step (vm_clock m) (vm_ids m) (vm_db m) db"
    "machine_ok (m\<lparr>vm_db := db, vm_budget := budget, vm_calls := put_outcome out (vm_calls m), vm_ids := i # vm_ids m\<rparr>)"
proof -
  note rows = machine_rows [OF assms(1)]
  have s: "db_step (vm_clock m) (vm_ids m) (vm_db m) db \<and> (\<forall>j x. mget (attempts db) j = Some x \<longrightarrow> mget (attempts (vm_db m)) j = None \<longrightarrow> j = i) \<and>
    (\<forall>c. out = Wait c \<longrightarrow> waits_ok (i # vm_ids m) db c)"
    using assms(2) unfolding begins_def
  proof (elim disjE exE conjE)
    assume "fst ((db, budget), out) = (vm_db m, vm_budget m)" "\<forall>c. snd ((db, budget), out) \<noteq> Wait c"
    then show ?thesis by (simp add: db_step.stays)
  next
    fix a request assume a: "fresh_attempt i a" and s: "((db, budget), out) = start_attempt E (vm_clock m) a request (vm_db m, vm_budget m)"
    have f: "at_status a = Creating" "unleased a" "at_id a \<notin> set (vm_ids m)" "(at_userId a = None) = (at_purpose a = Verify)"
      "at_purpose a = Issue \<longrightarrow> at_holderDid a \<noteq> None \<and> at_evidenceRoot a \<noteq> None" "at_id a = i"
      using a assms(3) by (simp_all add: fresh_attempt_def)
    note st = start_step [OF s [symmetric] conjunct1 [OF rows] conjunct2 [OF rows] f(1-5)]
    show ?thesis using st f(6) by blast
  qed
  then show "db_step (vm_clock m) (vm_ids m) (vm_db m) db" by blast
  show "machine_ok (m\<lparr>vm_db := db, vm_budget := budget, vm_calls := put_outcome out (vm_calls m), vm_ids := i # vm_ids m\<rparr>)"
  proof (rule machine_step [OF assms(1)])
    show "db_step (vm_clock m) (vm_ids m) (vm_db m) db" using s by blast
    show "j \<in> set (i # vm_ids m)" if "mget (attempts db) j = Some x" "mget (attempts (vm_db m)) j = None" for j x using s that by auto
    show "c \<in> set (vm_calls m) \<or> waits_ok (i # vm_ids m) db c" if "c \<in> set (put_outcome out (vm_calls m))" for c
      using put_outcome_cases [OF that] s by blast
  qed auto
qed

text \<open>The other requests admit nothing: they are steps of the store whatever ids were used before.\<close>

lemma offer_end_step:
  assumes "rows_ok db" "waits_ok used db (OfferCall row request)" "offer_end E now row answer db = (db', out)"
  shows "db_step now used' db db'"
proof (cases "offer_apply E now row answer db")
  case (Inl e)
  then have "db' = vc_fail (at_id row) db" using assms(3) by (simp add: offer_end_def)
  then show ?thesis using fail_step [OF assms(1)] by simp
next
  case (Inr db1)
  have "db' = db1" using assms(3) by (simp add: offer_end_def Inr)
  moreover obtain offer upstream t where "vc_activate (at_id row) upstream (VObj offer) (min (at_expiresAt row) t) db = Inr db1"
    using Inr by (auto simp: offer_apply_def Let_def split: sum.splits option.splits prod.splits if_splits)
  ultimately show ?thesis
    using activate_step [OF assms(1)] assms(2) by (auto simp: waits_ok_def)
qed

lemma bound_row:
  assumes "vc_bound E now cx cookie i p user d e db = Inr row"
  shows "mget (attempts db) i = Some row" "at_purpose row = p" "at_userId row = user" "matchesSecret E cookie (at_secretHash row)"
  using assms by (auto simp: vc_bound_def split: option.splits sum.splits if_splits)

lemma poll_begin_step:
  assumes "rows_ok db" "used_ok used db" "poll_begin E now cx cookie token i p user db = (db', out)"
  shows "db_step now used' db db'" "out = Wait c \<Longrightarrow> waits_ok used db' c"
proof -
  show step: "db_step now used' db db'" for used'
  proof (cases "vc_bound E now cx cookie i p user True False db")
    case (Inl e)
    then show ?thesis using assms(3) by (simp add: poll_begin_def db_step.stays)
  next
    case (Inr row)
    obtain db1 got where q: "vc_acquire i token now db = (db1, got)" by (cases "vc_acquire i token now db")
    show ?thesis
      using assms(3) acquire_step [OF assms(1) q] by (cases got) (auto simp: poll_begin_def Inr q db_step.stays split: if_splits)
  qed
  assume w: "out = Wait c"
  then obtain row where row: "vc_bound E now cx cookie i p user True False db = Inr row" "c = ResultCall row token"
    using assms(3) by (auto simp: poll_begin_def poll_pending_def split: sum.splits prod.splits bool.splits if_splits)
  have r: "mget (attempts db) i = Some row" by (rule bound_row [OF row(1)])
  have i: "at_id row = i" using rows_okD [OF assms(1) r] by blast
  have used: "i \<in> set used" using assms(2) r unfolding used_ok_def by blast
  have "core x = core row" if "mget (attempts db') i = Some x" for x
    using db_step_row [OF step assms(1) that, of used] used r by auto
  then show "waits_ok used db' c" using used by (simp add: waits_ok_def row(2) i)
qed

lemma poll_end_step:
  assumes "rows_ok db" "waits_ok used db (ResultCall row token)" "poll_end E now inspect latestRoot row token answer db = (db', out)"
  shows "db_step now used' db db'"
proof -
  consider "db' = db"
    | r status stored shown detail where "poll_result E now inspect latestRoot row r db = Inr (status, stored, shown, detail)"
        "vc_complete now row token status (VObj stored) detail db = Inr db'"
    using assms(3) by (auto simp: poll_end_def split: sum.splits if_splits prod.splits)
  then show ?thesis
  proof cases
    case 1
    then show ?thesis by (simp add: db_step.stays)
  next
    case 2
    show ?thesis
      by (rule complete_step [OF assms(1) 2(2) poll_result_fits [OF 2(1)]]) (use assms(2) in \<open>simp add: waits_ok_def\<close>)
  qed
qed

lemma cancel_begin_step:
  assumes "rows_ok db" "cancel_begin E now cx cookie i p user db = (db', out)"
  shows "db_step now used db db'" "out = Wait c \<Longrightarrow> waits_ok used db' c"
proof -
  have "db' = db \<or> db' = vc_cancel i db"
    using assms(2) by (auto simp: cancel_begin_def split: sum.splits if_splits option.splits)
  then show "db_step now used db db'" using cancel_step [OF assms(1)] by (auto simp: db_step.stays)
  show "out = Wait c \<Longrightarrow> waits_ok used db' c"
    using assms(2) by (auto simp: cancel_begin_def waits_ok_def split: sum.splits if_splits option.splits)
qed

lemma cancel_end_step: "rows_ok db \<Longrightarrow> cancel_end row answer db = (db', out) \<Longrightarrow> db_step now used db db'"
  using cancel_step [of db now used "at_id row"] by (auto simp: cancel_end_def db_step.stays split: sum.splits if_splits)

lemma unlink_step:
  assumes "vc_unlink_request E now cx user db = Inr db'"
  shows "db_step now used db db'"
proof -
  have "active_of now user db = []" "db' = db\<lparr>wallets := mdel user (wallets db)\<rparr>"
    using assms by (auto simp: vc_unlink_request_def vc_unlink_def split: if_splits)
  then show ?thesis by (simp add: db_step.unlinks)
qed

lemma quiet_ok:
  assumes "machine_ok m" "\<And>used. db_step (vm_clock m) used (vm_db m) db" "set (vm_ids m) \<subseteq> set ids"
    and calls: "\<And>c. c \<in> set cs \<Longrightarrow> c \<in> set (vm_calls m) \<or> waits_ok ids db c"
  shows "machine_ok (m\<lparr>vm_db := db, vm_budget := b, vm_calls := cs, vm_ids := ids\<rparr>)"
proof (rule machine_step [OF assms(1,2,3)])
  fix i x assume "mget (attempts db) i = Some x" "mget (attempts (vm_db m)) i = None"
  then have False using db_step_row [OF assms(2) [of "[i]"] conjunct1 [OF machine_rows [OF assms(1)]], of i x] by auto
  then show "i \<in> set ids" ..
qed (rule calls)

lemma call_of: "machine_ok m \<Longrightarrow> vm_calls m = cs @ c # cs' \<Longrightarrow> waits_ok (vm_ids m) (vm_db m) c"
  by (simp add: machine_ok_def)

text \<open>Every step of the machine is one step of the store, or only time passing, and keeps the machine sound.\<close>

lemma vc_step_simulates:
  assumes "vc_step E m m'" "machine_ok m"
  shows "machine_ok m' \<and> (db_step (vm_clock m) (vm_ids m) (vm_db m) (vm_db m'))"
proof -
  note rows = machine_rows [OF assms(2)]
  have same: "m\<lparr>vm_db := db, vm_calls := cs\<rparr> = m\<lparr>vm_db := db, vm_budget := vm_budget m, vm_calls := cs, vm_ids := vm_ids m\<rparr>" for db cs by simp
  have same': "m\<lparr>vm_db := db, vm_calls := cs, vm_ids := ids\<rparr> = m\<lparr>vm_db := db, vm_budget := vm_budget m, vm_calls := cs, vm_ids := ids\<rparr>" for db cs ids by simp
  show ?thesis
    using assms(1)
  proof cases
    case (tick t)
    have "machine_ok m'" using assms(2) vc_ok_later tick by (auto simp: machine_ok_def)
    then show ?thesis using tick by (simp add: db_step.stays)
  next
    case (link i cx cookie user db budget out)
    have "begins E (vm_clock m) i (vm_db m, vm_budget m) ((db, budget), out)" using link_begins link(3) by metis
    from begins_ok [OF assms(2) this link(2)] show ?thesis unfolding link(1) by simp
  next
    case (issue i cx user merkle key wallet evidence anchor inspect db budget out)
    have "begins E (vm_clock m) i (vm_db m, vm_budget m) ((db, budget), out)" using issue_begins issue(3) by metis
    from begins_ok [OF assms(2) this issue(2)] show ?thesis unfolding issue(1) by simp
  next
    case (verify i disclosure db budget out)
    have "begins E (vm_clock m) i (vm_db m, vm_budget m) ((db, budget), out)" using verify_begins verify(3) by metis
    from begins_ok [OF assms(2) this verify(2)] show ?thesis unfolding verify(1) by simp
  next
    case (offered cs row request cs' answer db out)
    have step: "db_step (vm_clock m) used (vm_db m) db" for used
      by (rule offer_end_step [OF conjunct1 [OF rows] call_of [OF assms(2) offered(2)] offered(3)])
    have "machine_ok (m\<lparr>vm_db := db, vm_budget := vm_budget m, vm_calls := cs @ cs', vm_ids := vm_ids m\<rparr>)"
      by (rule quiet_ok [OF assms(2) step subset_refl]) (use offered(2) in auto)
    then show ?thesis unfolding offered(1) same using step by simp
  next
    case (polls token cx cookie i p user db out)
    note s = poll_begin_step [OF conjunct1 [OF rows] conjunct2 [OF rows] polls(3)]
    have w: "waits_ok (token # vm_ids m) db c" if "out = Wait c" for c
      using s(2) [OF that] by (auto simp: waits_ok_def split: vc_call.splits)
    have "machine_ok (m\<lparr>vm_db := db, vm_budget := vm_budget m, vm_calls := put_outcome out (vm_calls m), vm_ids := token # vm_ids m\<rparr>)"
      by (rule quiet_ok [OF assms(2) s(1)]) (use put_outcome_cases w in auto)
    then show ?thesis unfolding polls(1) same' using s(1) by simp
  next
    case (polled cs row token cs' inspect latestRoot answer db out)
    have step: "db_step (vm_clock m) used (vm_db m) db" for used
      by (rule poll_end_step [OF conjunct1 [OF rows] call_of [OF assms(2) polled(2)] polled(3)])
    have "machine_ok (m\<lparr>vm_db := db, vm_budget := vm_budget m, vm_calls := cs @ ReleaseCall (at_id row) token # cs', vm_ids := vm_ids m\<rparr>)"
      by (rule quiet_ok [OF assms(2) step subset_refl]) (use polled(2) in \<open>auto simp: waits_ok_def\<close>)
    then show ?thesis unfolding polled(1) same using step by simp
  next
    case (released cs i token cs')
    note step = release_step [OF conjunct1 [OF rows], of "vm_clock m" _ i token]
    have "machine_ok (m\<lparr>vm_db := vc_release i token (vm_db m), vm_budget := vm_budget m, vm_calls := cs @ cs', vm_ids := vm_ids m\<rparr>)"
      by (rule quiet_ok [OF assms(2) step subset_refl]) (use released(2) in auto)
    then show ?thesis unfolding released(1) same using step by simp
  next
    case (cancels cx cookie i p user db out)
    note s = cancel_begin_step [OF conjunct1 [OF rows] cancels(2)]
    have "machine_ok (m\<lparr>vm_db := db, vm_budget := vm_budget m, vm_calls := put_outcome out (vm_calls m), vm_ids := vm_ids m\<rparr>)"
      by (rule quiet_ok [OF assms(2) s(1) subset_refl]) (use put_outcome_cases s(2) in blast)
    then show ?thesis unfolding cancels(1) same using s(1) by simp
  next
    case (cancelled cs row cs' answer db out)
    note step = cancel_end_step [OF conjunct1 [OF rows] cancelled(3)]
    have "machine_ok (m\<lparr>vm_db := db, vm_budget := vm_budget m, vm_calls := cs @ cs', vm_ids := vm_ids m\<rparr>)"
      by (rule quiet_ok [OF assms(2) step subset_refl]) (use cancelled(2) in auto)
    then show ?thesis unfolding cancelled(1) same using step by simp
  next
    case (unlinks cx user db)
    note step = unlink_step [OF unlinks(2)]
    have "machine_ok (m\<lparr>vm_db := db, vm_budget := vm_budget m, vm_calls := vm_calls m, vm_ids := vm_ids m\<rparr>)"
      by (rule quiet_ok [OF assms(2) step subset_refl]) auto
    moreover have "m' = m\<lparr>vm_db := db, vm_budget := vm_budget m, vm_calls := vm_calls m, vm_ids := vm_ids m\<rparr>" by (simp add: unlinks(1))
    ultimately show ?thesis using step by simp
  next
    case cleans
    note step = db_step.cleans [of "vm_clock m" _ "vm_db m"]
    have "machine_ok (m\<lparr>vm_db := vc_cleanup (vm_clock m) (vm_db m), vm_budget := vm_budget m, vm_calls := vm_calls m, vm_ids := vm_ids m\<rparr>)"
      by (rule quiet_ok [OF assms(2) step subset_refl]) auto
    moreover have "m' = m\<lparr>vm_db := vc_cleanup (vm_clock m) (vm_db m), vm_budget := vm_budget m, vm_calls := vm_calls m, vm_ids := vm_ids m\<rparr>"
      by (simp add: cleans)
    ultimately show ?thesis using step by simp
  qed
qed

lemma vc_reachable_ok: "vc_reachable E m \<Longrightarrow> machine_ok m"
proof (induction rule: vc_reachable.induct)
  case (start t)
  then show ?case
    by (simp add: machine_ok_def empty_vc_def vc_ok_def rows_ok_def under_way_ok_def wallets_ok_def credentials_ok_def used_ok_def)
qed (use vc_step_simulates in blast)

section \<open>Properties of the workflow\<close>

text \<open>C32. In every state the requests can reach, in any order and with any gateway answers in between: a user has at most one
  attempt under way; while a link is under way the user has no wallet, and while an issuance is, the user's wallet is the one
  the credential will be bound to; no two users share a wallet DID; and no attempt has two credentials, and the attempt of
  each one, as long as it is kept, is settled as issued for that user, wallet and evidence root.\<close>

theorem one_attempt_under_way:
  assumes "vc_reachable E m"
  shows "length (active_of (vm_clock m) user (vm_db m)) \<le> 1 \<and> under_way_ok (vm_clock m) (vm_db m) \<and>
    wallets_ok (vm_db m) \<and> credentials_ok (vm_db m)"
proof -
  have ok: "vc_ok (vm_clock m) (vm_db m)" using vc_reachable_ok [OF assms] by (simp add: machine_ok_def)
  then have rows: "rows_ok (vm_db m)" and under: "under_way_ok (vm_clock m) (vm_db m)" by (simp_all add: vc_ok_def)
  let ?P = "\<lambda>a. at_userId a = Some user \<and> active_at (vm_clock m) a"
  have keys: "distinct (mkeys (attempts (vm_db m)))" using rows by (simp add: rows_ok_def)
  have "length (filter (?P \<circ> snd) (attempts (vm_db m))) \<le> 1"
  proof (rule ccontr)
    assume "\<not> length (filter (?P \<circ> snd) (attempts (vm_db m))) \<le> 1"
    then obtain p q rest where pq: "filter (?P \<circ> snd) (attempts (vm_db m)) = p # q # rest"
      by (cases "filter (?P \<circ> snd) (attempts (vm_db m))"; cases "tl (filter (?P \<circ> snd) (attempts (vm_db m)))") auto
    then have "p \<in> set (filter (?P \<circ> snd) (attempts (vm_db m)))" "q \<in> set (filter (?P \<circ> snd) (attempts (vm_db m)))" by simp_all
    then have g: "mget (attempts (vm_db m)) (fst p) = Some (snd p)" "?P (snd p)" "mget (attempts (vm_db m)) (fst q) = Some (snd q)" "?P (snd q)"
      using keys by auto
    have "distinct (map fst (p # q # rest))" unfolding pq [symmetric] by (rule distinct_map_filter [OF keys])
    moreover have "fst q = fst p" by (rule under_way_okD(1) [OF under g(1) conjunct2 [OF g(2)] conjunct1 [OF g(2)] g(3) conjunct2 [OF g(4)] conjunct1 [OF g(4)]])
    ultimately show False by simp
  qed
  then have "length (active_of (vm_clock m) user (vm_db m)) \<le> 1"
    by (simp add: active_of_def filter_map comp_def)
  then show ?thesis using ok by (simp add: vc_ok_def)
qed

text \<open>Only the cleanup removes a row.\<close>

lemma removed_row:
  assumes "db_step now used db db'" "rows_ok db" "mget (attempts db) i = Some a" "mget (attempts db') i = None"
  shows "at_expiresAt a < now - DAY_MS"
  using assms(1)
proof cases
  case cleans
  have d: "distinct (mkeys (attempts db))" using assms(2) by (simp add: rows_ok_def)
  show ?thesis
  proof (rule ccontr)
    assume "\<not> at_expiresAt a < now - DAY_MS"
    then have "(i, a) \<in> set (attempts db')" using map_of_SomeD [OF assms(3)] by (simp add: cleans vc_cleanup_def)
    then show False using assms(4) by (auto simp: map_of_eq_None_iff rev_image_eqI)
  qed
qed (use assms(3,4) in \<open>auto simp: map_of_update split: if_splits\<close>)

text \<open>C33. A settled attempt stays as it is. Whatever request or answer comes next, an attempt that was linked, issued,
  verified, rejected, failed or cancelled keeps every field until it is removed, and it is only removed a day after it expired.
  No credential is ever changed or removed, and a new one appears only for an attempt that is under way at that moment,
  whose user has linked, at that moment, the wallet the credential names.\<close>

theorem settled_is_final:
  assumes "vc_reachable E m" "vc_step E m m'"
  shows "(\<forall>i a. mget (attempts (vm_db m)) i = Some a \<longrightarrow> settled_status (at_status a) \<longrightarrow>
      mget (attempts (vm_db m')) i = Some a \<or> mget (attempts (vm_db m')) i = None \<and> at_expiresAt a < vm_clock m - DAY_MS) \<and>
    (\<forall>i c. mget (credentials (vm_db m)) i = Some c \<longrightarrow> mget (credentials (vm_db m')) i = Some c) \<and>
    (\<forall>i c. mget (credentials (vm_db m')) i = Some c \<longrightarrow> mget (credentials (vm_db m)) i = Some c \<or>
      (\<exists>a w. mget (attempts (vm_db m)) (cr_issuanceId c) = Some a \<and> active_at (vm_clock m) a \<and> at_evidenceRoot a = Some (cr_evidenceRoot c) \<and>
        mget (wallets (vm_db m)) (cr_userId c) = Some w \<and> w_holderDid w = cr_holderDid c))"
proof -
  have ok: "machine_ok m" by (rule vc_reachable_ok [OF assms(1)])
  then have rows: "rows_ok (vm_db m)" and under: "under_way_ok (vm_clock m) (vm_db m)" by (simp_all add: machine_ok_def vc_ok_def)
  have step: "db_step (vm_clock m) (vm_ids m) (vm_db m) (vm_db m')" using vc_step_simulates [OF assms(2) ok] by blast
  have kept: "mget (attempts (vm_db m')) i = Some a \<or> mget (attempts (vm_db m')) i = None \<and> at_expiresAt a < vm_clock m - DAY_MS"
    if a: "mget (attempts (vm_db m)) i = Some a" "settled_status (at_status a)" for i a
  proof (cases "mget (attempts (vm_db m')) i")
    case (Some x)
    then show ?thesis using db_step_row [OF step rows Some] a by (auto simp: settled_status_def open_status_def)
  next
    case None
    have "at_expiresAt a < vm_clock m - DAY_MS" by (rule removed_row [OF step rows a(1) None])
    then show ?thesis using None by blast
  qed
  have linked: "\<exists>a w. mget (attempts (vm_db m)) (cr_issuanceId c) = Some a \<and> active_at (vm_clock m) a \<and> at_evidenceRoot a = Some (cr_evidenceRoot c) \<and>
        mget (wallets (vm_db m)) (cr_userId c) = Some w \<and> w_holderDid w = cr_holderDid c"
    if c: "mget (credentials (vm_db m')) i = Some c" "mget (credentials (vm_db m)) i \<noteq> Some c" for i c
  proof -
    obtain a where a: "mget (attempts (vm_db m)) (cr_issuanceId c) = Some a" "at_purpose a = Issue" "active_at (vm_clock m) a"
      "at_userId a = Some (cr_userId c)" "at_holderDid a = Some (cr_holderDid c)" "at_evidenceRoot a = Some (cr_evidenceRoot c)"
      using db_step_credential [OF step c(1)] c(2) by blast
    have "\<exists>w. mget (wallets (vm_db m)) (cr_userId c) = Some w \<and> at_holderDid a = Some (w_holderDid w)"
      by (rule under_way_okD(3) [OF under a(1,3,4,2)])
    then show ?thesis using a by auto
  qed
  show ?thesis using kept linked credential_kept [OF step] by blast
qed

definition demo_env :: vc_env where
  "demo_env = \<lparr>ve_host = std_host, ve_enabled = True, ve_hmac = (\<lambda>s. replicate 64 (CHR ''a'')), ve_sha256 = (\<lambda>s. s), ve_keccak = (\<lambda>s. s),
     ve_issuerDid = VStr ''did:omn:issuer'', ve_chainId = ''201210''\<rparr>"

definition linking_run :: "(vc_db \<times> int \<times> nat) \<times> vc_outcome" where
  "linking_run = vc_link demo_env 5 (Some 0) None ''u1'' ''a1'' (vm_db (empty_vc 5), vm_budget (empty_vc 5))"

definition linking_machine :: vc_machine where
  "linking_machine = (empty_vc 5)\<lparr>vm_db := fst (fst linking_run), vm_budget := snd (fst linking_run),
     vm_calls := put_outcome (snd linking_run) (vm_calls (empty_vc 5)), vm_ids := [''a1'']\<rparr>"

lemma linking_step: "vc_step demo_env (empty_vc 5) linking_machine"
proof -
  have "vc_step demo_env (empty_vc 5) ((empty_vc 5)\<lparr>vm_db := fst (fst linking_run), vm_budget := snd (fst linking_run),
     vm_calls := put_outcome (snd linking_run) (vm_calls (empty_vc 5)), vm_ids := ''a1'' # vm_ids (empty_vc 5)\<rparr>)"
    by (rule vc_step.link [where cx = "Some 0" and cookie = None and user = "''u1''"]) (simp_all add: empty_vc_def linking_run_def)
  then show ?thesis by (simp add: linking_machine_def empty_vc_def)
qed

lemma linking_reachable: "vc_reachable demo_env linking_machine"
  by (rule vc_reachable.step [OF vc_reachable.start linking_step])

theorem one_attempt_under_way_witness:
  "map at_id (active_of (vm_clock linking_machine) ''u1'' (vm_db linking_machine)) = [''a1''] \<and> under_way_ok (vm_clock linking_machine) (vm_db linking_machine)"
proof
  show "map at_id (active_of (vm_clock linking_machine) ''u1'' (vm_db linking_machine)) = [''a1'']" by code_simp
  show "under_way_ok (vm_clock linking_machine) (vm_db linking_machine)"
    using one_attempt_under_way [OF linking_reachable, of "''u1''"] by blast
qed

text \<open>The run goes on: the user gives up, and the attempt is settled.\<close>

definition giving_up :: "vc_db \<times> vc_outcome" where
  "giving_up = cancel_begin demo_env 5 (Some 0) (Some (vc_secret demo_env ''a1'' (Some ''u1''))) ''a1'' Link (Some ''u1'') (vm_db linking_machine)"

definition given_up :: vc_machine where
  "given_up = linking_machine\<lparr>vm_db := fst giving_up, vm_calls := put_outcome (snd giving_up) (vm_calls linking_machine)\<rparr>"

text \<open>Then the gateway's offer arrives, too late.\<close>

definition late_offer :: "(http_error, jobj) result" where
  "late_offer = Inr [(''offerId'', VStr ''o1''), (''qr'', VObj [(''text'', VStr ''q'')]), (''expiresAt'', VStr ''2030-01-01T00:00:00.000Z'')]"

definition offered_row :: attempt where
  "offered_row = the (mget (attempts (vm_db linking_machine)) ''a1'')"

definition after_offer :: vc_machine where
  "after_offer = given_up\<lparr>vm_db := fst (offer_end demo_env (vm_clock given_up) offered_row late_offer (vm_db given_up)), vm_calls := [] @ []\<rparr>"

lemma given_up_reachable: "vc_reachable demo_env given_up"
proof (rule vc_reachable.step [OF linking_reachable])
  have "vm_clock linking_machine = 5" by (simp add: linking_machine_def empty_vc_def)
  then have "cancel_begin demo_env (vm_clock linking_machine) (Some 0) (Some (vc_secret demo_env ''a1'' (Some ''u1''))) ''a1'' Link (Some ''u1'')
      (vm_db linking_machine) = (fst giving_up, snd giving_up)" by (simp add: giving_up_def)
  then show "vc_step demo_env linking_machine given_up" unfolding given_up_def by (rule vc_step.cancels)
qed

lemma late_step: "vc_step demo_env given_up after_offer"
proof -
  have "vm_calls given_up = [OfferCall offered_row [(''requestId'', VStr ''a1'')]]" by code_simp
  then have c: "vm_calls given_up = [] @ OfferCall offered_row [(''requestId'', VStr ''a1'')] # []" by (simp only: append_Nil)
  show ?thesis
    unfolding after_offer_def by (rule vc_step.offered [OF c]) (rule prod.collapse [symmetric])
qed

theorem settled_is_final_witness:
  "mget (attempts (vm_db after_offer)) ''a1'' = mget (attempts (vm_db given_up)) ''a1'' \<and>
   map_option at_status (mget (attempts (vm_db given_up)) ''a1'') = Some Cancelled"
proof -
  have s: "map_option at_status (mget (attempts (vm_db given_up)) ''a1'') = Some Cancelled"
    and e: "map_option at_expiresAt (mget (attempts (vm_db given_up)) ''a1'') = Some 180005" "vm_clock given_up = 5" by code_simp+
  obtain a where a: "mget (attempts (vm_db given_up)) ''a1'' = Some a" "at_status a = Cancelled" "at_expiresAt a = 180005"
    using s e(1) by auto
  have "settled_status (at_status a)" by (simp add: a(2) settled_status_def)
  then have "mget (attempts (vm_db after_offer)) ''a1'' = Some a \<or> at_expiresAt a < vm_clock given_up - DAY_MS"
    using settled_is_final [OF given_up_reachable late_step] a(1) by blast
  then show ?thesis using a s e(2) by (simp add: DAY_MS_def)
qed

section \<open>What an answer means\<close>

lemma verification_checks_sound:
  assumes "verification_checks E inspect r db = Inr (c, state, anchor, inspection, revocation)"
  shows "\<exists>cid. pget r ''credentialId'' = VStr cid \<and> mget (credentials db) cid = Some c \<and> pget r ''holderDid'' = VStr (cr_holderDid c) \<and>
    pget r ''evidenceRoot'' = VStr (cr_evidenceRoot c) \<and> pget r ''signatureVerified'' = VBool True \<and> pget r ''issuerDid'' = ve_issuerDid E \<and>
    cr_snapshot c = VObj state \<and> pget state ''anchor'' = VObj anchor \<and>
    inspection = (case pget anchor ''txHash'' of VStr tx \<Rightarrow> inspect tx | _ \<Rightarrow> None) \<and> (revocation = ''active'' \<longrightarrow> pget r ''revocation'' = VStr ''active'')"
proof -
  have obj: "v = VObj o'" if "as_object v = Some o'" for v o' using that by (cases v) (simp_all add: as_object_def)
  show ?thesis
    using assms by (auto simp: verification_checks_def dest!: obj split: bool.splits jsv.splits option.splits if_splits)
qed

text \<open>C35. A presentation is accepted only for a credential this service issued and the chain still vouches for: if a poll of a
  verification answers with status verified, then the presented credential is stored, it is bound to the holder who presented
  it and to the root presented, the verifier checked the signature and named the configured issuer, the issuer reports the
  credential as active, and the transaction named in its snapshot succeeded on the chain with the credential's root as payload.
  The attempt is settled as verified, under the lease of this very poll, and no other table changed.\<close>

theorem verified_presentation:
  assumes "poll_end E now inspect latestRoot row token (Inr r) db = (db', Answer cookie 200 (VObj shown))"
    and "at_purpose row = Verify" "pget shown ''status'' = VStr ''verified''" "pget r ''status'' \<noteq> VStr ''pending''"
  shows "(\<exists>cid c state anchor tx i. pget r ''credentialId'' = VStr cid \<and> mget (credentials db) cid = Some c \<and>
      pget r ''holderDid'' = VStr (cr_holderDid c) \<and> pget r ''evidenceRoot'' = VStr (cr_evidenceRoot c) \<and>
      pget r ''signatureVerified'' = VBool True \<and> pget r ''issuerDid'' = ve_issuerDid E \<and> pget r ''revocation'' = VStr ''active'' \<and>
      cr_snapshot c = VObj state \<and> pget state ''anchor'' = VObj anchor \<and> pget anchor ''txHash'' = VStr tx \<and>
      inspect tx = Some i \<and> i_success i \<and> map_option toLowerCase (i_payloadHash i) = Some (toLowerCase (cr_evidenceRoot c))) \<and>
    (\<exists>a. mget (attempts db) (at_id row) = Some a \<and> holds_lease now token a \<and>
      map_option at_status (mget (attempts db') (at_id row)) = Some Verified \<and> wallets db' = wallets db \<and> credentials db' = credentials db)"
proof -
  obtain status stored detail where p: "poll_result E now inspect latestRoot row r db = Inr (status, stored, shown, detail)"
    "vc_complete now row token status (VObj stored) detail db = Inr db'"
    using assms(1,4) by (auto simp: poll_end_def poll_pending_def split: sum.splits if_splits prod.splits)
  obtain v where v0: "verification_checks E inspect r db = Inr v" using p(1) assms(2) by (auto simp: poll_result_def)
  obtain c state anchor inspection revocation where v5: "v = (c, state, anchor, inspection, revocation)" by (cases v)
  note v = v0 [unfolded v5]
  obtain st0 ans0 where a0: "verification_answer now row (c, state, anchor, inspection, revocation) (latestRoot c) = (st0, ans0)"
    by (cases "verification_answer now row (c, state, anchor, inspection, revocation) (latestRoot c)")
  have ans: "verification_answer now row (c, state, anchor, inspection, revocation) (latestRoot c) = (status, shown)" and d: "detail = NoDetail"
    using p(1) assms(2) by (simp_all add: poll_result_def v a0)
  have "status = (if revocation = ''active'' \<and> chain_passes c inspection then Verified else Rejected)"
    "pget shown ''status'' = VStr (status_name status)"
    using ans by (auto simp: verification_answer_def Let_def pget_def)
  then have st: "status = Verified" and pass: "revocation = ''active''" "chain_passes c inspection"
    using assms(3) by (auto simp: status_name_def split: if_splits)
  obtain cid where s: "pget r ''credentialId'' = VStr cid" "mget (credentials db) cid = Some c" "pget r ''holderDid'' = VStr (cr_holderDid c)"
    "pget r ''evidenceRoot'' = VStr (cr_evidenceRoot c)" "pget r ''signatureVerified'' = VBool True" "pget r ''issuerDid'' = ve_issuerDid E"
    "cr_snapshot c = VObj state" "pget state ''anchor'' = VObj anchor"
    "inspection = (case pget anchor ''txHash'' of VStr tx \<Rightarrow> inspect tx | _ \<Rightarrow> None)" "pget r ''revocation'' = VStr ''active''"
    using verification_checks_sound [OF v] pass(1) by blast
  obtain i where i: "inspection = Some i" "i_success i" "map_option toLowerCase (i_payloadHash i) = Some (toLowerCase (cr_evidenceRoot c))"
    using pass(2) by (auto simp: chain_passes_def split: option.splits)
  obtain tx where "pget anchor ''txHash'' = VStr tx" "inspect tx = Some i"
    using s(9) i(1) by (auto split: jsv.splits)
  then have presented: "\<exists>cid c state anchor tx i. pget r ''credentialId'' = VStr cid \<and> mget (credentials db) cid = Some c \<and>
      pget r ''holderDid'' = VStr (cr_holderDid c) \<and> pget r ''evidenceRoot'' = VStr (cr_evidenceRoot c) \<and>
      pget r ''signatureVerified'' = VBool True \<and> pget r ''issuerDid'' = ve_issuerDid E \<and> pget r ''revocation'' = VStr ''active'' \<and>
      cr_snapshot c = VObj state \<and> pget state ''anchor'' = VObj anchor \<and> pget anchor ''txHash'' = VStr tx \<and>
      inspect tx = Some i \<and> i_success i \<and> map_option toLowerCase (i_payloadHash i) = Some (toLowerCase (cr_evidenceRoot c))"
    using s(1-8,10) i(2,3) by blast
  have "\<exists>a. mget (attempts db) (at_id row) = Some a \<and> holds_lease now token a \<and>
      map_option at_status (mget (attempts db') (at_id row)) = Some Verified \<and> wallets db' = wallets db \<and> credentials db' = credentials db"
    using p(2) by (auto simp: vc_complete_def d st update_where_def map_of_update split: option.splits if_splits)
  then show ?thesis using presented by (intro conjI)
qed


section \<open>Examples of the answers\<close>

definition demo_header :: jobj where
  "demo_header = [(''kind'', VStr ''header''), (''country'', VStr ''KR''), (''taxYear'', jint 2025), (''currency'', VStr ''KRW''),
     (''totals'', VObj [(''estimatedCharge'', VStr ''22''), (''taxableGains'', VStr ''100.5''), (''incomeTotal'', VStr ''0'')])]"

definition demo_leaf :: jobj where
  "demo_leaf = [(''kind'', VStr ''file''), (''file'', VStr ''csv''), (''algorithm'', VStr ''keccak256''), (''hash'', VStr ''0xAB''), (''byteLength'', jint 3)]"

definition demo_document :: jsv where
  "demo_document = VObj [(''version'', jint 1), (''leaves'', VArr [VObj demo_header, VObj demo_leaf])]"

definition demo_root :: string where
  "demo_root = (case merkleRoot (ve_keccak demo_env) [VObj demo_header, VObj demo_leaf] of Inr r \<Rightarrow> r | Inl e \<Rightarrow> [])"

definition demo_tx :: string where
  "demo_tx = ''0x'' @ replicate 64 (CHR ''1'')"

definition demo_inspect :: "string \<Rightarrow> inspection option" where
  "demo_inspect tx = (if tx = demo_tx then Some \<lparr>inspection.i_txHash = tx, i_blockNumber = 7, i_success = True, i_payloadHash = Some demo_root\<rparr> else None)"

definition demo_issue :: "(http_error, string \<times> string \<times> jobj) result" where
  "demo_issue = issue_data demo_env demo_root (Some (replicate 36 (CHR ''a''))) (Some \<lparr>w_holderDid = ''did:omn:holder'', w_cxVerifiedAt = 0, w_linkedAt = 1\<rparr>)
     (Some \<lparr>e_id = ''ev1'', e_createdAt = 0, e_userId = ''u1'', e_countryCode = ''KR'', e_taxYear = 2025, e_merkleRoot = demo_root,
        e_document = demo_document, e_leafCount = 2\<rparr>)
     (Some \<lparr>a_id = ''an1'', a_payloadHash = demo_root, a_type = ''evidence'', a_chainTxHash = Some demo_tx, a_blockNumber = Some 7,
        a_status = ''anchored'', a_attempts = 1, a_anchoredAt = Some 1, a_createdAt = 0\<rparr>) demo_inspect"


definition demo_credential :: vc_credential where
  "demo_credential = \<lparr>cr_id = ''c1'', cr_issuanceId = ''a0'', cr_userId = ''u1'', cr_holderDid = ''did:omn:holder'', cr_evidenceRoot = demo_root,
     cr_countryCode = ''KR'', cr_taxYear = JFin 2025, cr_snapshot = VObj [(''anchor'', VObj [(''txHash'', VStr demo_tx)])], cr_issuedAt = 0\<rparr>"

definition demo_verification :: attempt where
  "demo_verification = (blank_attempt demo_env 0 Verify None ''v1'')\<lparr>at_status := Pending, at_disclosure := Some ''basic'',
     at_leaseToken := Some ''t1'', at_leaseUntil := Some 60000\<rparr>"

definition demo_presentation :: jobj where
  "demo_presentation = [(''status'', VStr ''verified''), (''signatureVerified'', VBool True), (''credentialId'', VStr ''c1''),
     (''holderDid'', VStr ''did:omn:holder''), (''issuerDid'', VStr ''did:omn:issuer''), (''evidenceRoot'', VStr demo_root), (''revocation'', VStr ''active'')]"

definition demo_poll :: "vc_db \<times> vc_outcome" where
  "demo_poll = poll_end demo_env 3000 demo_inspect (\<lambda>c. None) demo_verification ''t1'' (Inr demo_presentation)
     \<lparr>attempts = [(''v1'', demo_verification)], wallets = [], credentials = [(''c1'', demo_credential)]\<rparr>"

theorem verified_presentation_witness:
  "map_option at_status (mget (attempts (fst demo_poll)) ''v1'') = Some Verified \<and> (\<exists>tx i. demo_inspect tx = Some i \<and> i_success i)"
proof -
  have "case snd demo_poll of Answer c n (VObj s) \<Rightarrow> n = 200 \<and> pget s ''status'' = VStr ''verified'' | _ \<Rightarrow> False" by code_simp
  then obtain cookie shown where a: "snd demo_poll = Answer cookie 200 (VObj shown)" "pget shown ''status'' = VStr ''verified''"
    by (auto split: vc_outcome.splits jsv.splits)
  have id: "at_id demo_verification = ''v1''" and p: "at_purpose demo_verification = Verify" by code_simp+
  have r: "pget demo_presentation ''status'' \<noteq> VStr ''pending''" by (simp add: demo_presentation_def pget_def)
  have "demo_poll = (fst demo_poll, Answer cookie 200 (VObj shown))" by (simp add: a(1) [symmetric])
  note v = verified_presentation [OF this [unfolded demo_poll_def] p a(2) r]
  show ?thesis using v unfolding demo_poll_def [symmetric] id by blast
qed

text \<open>A file is reported as included only with a proof: the answer shows a leaf of the evidence document that is a file leaf
  with the format, algorithm, length and hash asked about, and its proof folds from the leaf's hash to the Merkle root of the
  document. Only the browser that verified the presentation gets it.\<close>

theorem included_file_proved:
  assumes "vc_checkFile E now cookie i input documentOf db = Inr (merkle, Included leaf path)"
  shows "\<exists>row c doc leaves h. mget (attempts db) i = Some row \<and> at_status row = Verified \<and> matchesSecret E cookie (at_secretHash row) \<and>
    merkle = cr_evidenceRoot c \<and> documentOf c = Some doc \<and> object_leaves doc = Some leaves \<and> leaf \<in> set leaves \<and> is_file_leaf input leaf \<and>
    leafHash (ve_keccak E) (VObj leaf) = Inr h \<and> merkleRoot (ve_keccak E) (map VObj leaves) = Inr (check_proof (ve_keccak E) h path)"
proof -
  obtain row where row: "vc_bound E now None cookie i Verify None True False db = Inr row" "at_status row = Verified"
    and c': "\<exists>c. check_leaves E input (documentOf c) = Inr (Included leaf path) \<and> merkle = cr_evidenceRoot c"
    using assms by (auto simp: vc_checkFile_def split: bool.splits option.splits jsv.splits)
  obtain c where c: "check_leaves E input (documentOf c) = Inr (Included leaf path)" "merkle = cr_evidenceRoot c" using c' by blast
  obtain doc leaves where l: "documentOf c = Some doc" "object_leaves doc = Some leaves"
    using c(1) by (auto simp: check_leaves_def split: option.splits)
  let ?n = "length (takeWhile (\<lambda>leaf. \<not> is_file_leaf input leaf) leaves)"
  have n: "?n < length leaves" "leaf = leaves ! ?n" and pr: "fileProof (ve_keccak E) leaves (int ?n) = Inr path"
    using c(1) length_takeWhile_le [of "\<lambda>leaf. \<not> is_file_leaf input leaf" leaves]
    by (auto simp: check_leaves_def l Let_def split: if_splits)
  have "is_file_leaf input leaf" using nth_length_takeWhile [OF n(1)] n(2) by simp
  moreover have "leaf \<in> set leaves" using n by simp
  moreover obtain h where "leafHash (ve_keccak E) (VObj leaf) = Inr h" "merkleRoot (ve_keccak E) (map VObj leaves) = Inr (check_proof (ve_keccak E) h path)"
    using file_proof_verifies [OF pr] n(2) by auto
  ultimately show ?thesis using bound_row(1,4) [OF row(1)] row(2) c(2) l by blast
qed

definition demo_check :: "(http_error, string \<times> file_answer) result" where
  "demo_check = vc_checkFile demo_env 3000 (Some (replicate 64 (CHR ''a''))) ''v1''
     \<lparr>fc_format = ''csv'', fc_algorithm = ''keccak256'', fc_hash = ''0xab'', fc_byteLength = 3\<rparr> (\<lambda>c. Some demo_document)
     \<lparr>attempts = [(''v1'', demo_verification\<lparr>at_status := Verified, at_result := VObj [(''_credentialId'', VStr ''c1'')]\<rparr>)], wallets = [],
      credentials = [(''c1'', demo_credential)]\<rparr>"

theorem included_file_proved_witness:
  "\<exists>leaf path leaves h. demo_check = Inr (demo_root, Included leaf path) \<and>
    merkleRoot (ve_keccak demo_env) (map VObj leaves) = Inr (check_proof (ve_keccak demo_env) h path)"
proof -
  have "case demo_check of Inr (m, Included leaf path) \<Rightarrow> m = demo_root | _ \<Rightarrow> False" by code_simp
  then obtain leaf path where d: "demo_check = Inr (demo_root, Included leaf path)" by (auto split: sum.splits prod.splits file_answer.splits)
  from included_file_proved [OF d [unfolded demo_check_def]] show ?thesis using d by blast
qed

end
