(* ===== verification/WalletBinding.thy ===== *)
theory WalletBinding
  imports IndexerSync Linking_Properties Evidence
begin

text \<open>
  Binding wallets to an account: \<open>wallet/wallet-challenge.service.ts\<close>, \<open>wallet.service.ts\<close>,
  \<open>wallet-binding.service.ts\<close>, \<open>wallet-unbind.service.ts\<close> and the in-memory repository of
  \<open>wallet.repository.adapters.ts\<close>. A request is split at its \<open>await\<close>s: \<open>start\<close> runs it up to the first one,
  \<open>resume\<close> from there to the next, and \<open>wallet_step\<close> lets the slices of different requests interleave. A rejected
  call of a repository is the step \<open>fails\<close>, which drops the rest of its request; \<open>synced\<close> is the mark the
  indexer leaves after a first synchronisation. The libraries \<open>viem\<close> and \<open>siwe\<close> are
  fields of the environment; \<open>randomBytes\<close> and \<open>randomUUID\<close> are arguments that no earlier call has used. All the rewrites of
  a user's rows by \<open>unlinkCounterparty\<close> run in one slice.
\<close>

section \<open>Challenges\<close>

record wallet_challenge =
  wc_nonce :: string
  wc_userId :: string
  wc_message :: "string option"
  wc_domain :: "string option"
  wc_uri :: "string option"
  wc_chainId :: "int option"
  wc_issuedAt :: string
  wc_expiresAtMs :: int
  wc_consumed :: bool

type_synonym challenge_store = "(string, wallet_challenge) jmap"

record siwe_message =
  sm_address :: string
  sm_nonce :: string
  sm_domain :: string
  sm_uri :: string
  sm_chainId :: int
  sm_issuedAt :: "string option"

definition create_challenge :: "string \<Rightarrow> string \<Rightarrow> int \<Rightarrow> wallet_challenge" where
  "create_challenge nonce userId now = \<lparr>wc_nonce = nonce, wc_userId = userId, wc_message = None, wc_domain = None, wc_uri = None,
     wc_chainId = None, wc_issuedAt = toISOString now, wc_expiresAtMs = now + 5 * 60000, wc_consumed = False\<rparr>"

definition line_end :: string where
  "line_end = [char_of (10 :: nat)]"

definition issueBinding :: "string \<Rightarrow> string \<Rightarrow> int \<Rightarrow> challenge_store \<Rightarrow> challenge_store \<times> wallet_challenge" where
  "issueBinding nonce user now m =
     (let ch = create_challenge nonce user now;
          ch = ch\<lparr>wc_message := Some (''VERA Wallet address binding'' @ line_end @ ''Nonce: '' @ wc_nonce ch @ line_end @ ''Issued At: '' @ wc_issuedAt ch)\<rparr>
      in (mput nonce ch m, ch))"

text \<open>The trusted origin is configuration: its host and its \<open>origin\<close> are arguments.\<close>

definition issueSiwe :: "string \<times> string \<Rightarrow> string \<Rightarrow> string \<Rightarrow> int \<Rightarrow> int \<Rightarrow> challenge_store \<Rightarrow> challenge_store \<times> wallet_challenge" where
  "issueSiwe origin nonce user cid now m =
     (let ch = (create_challenge nonce user now)\<lparr>wc_domain := Some (fst origin), wc_uri := Some (snd origin @ ''/connect-wallet''),
            wc_chainId := Some cid\<rparr>
      in (mput nonce ch m, ch))"

definition consume :: "string \<Rightarrow> string \<Rightarrow> int \<Rightarrow> challenge_store \<Rightarrow> challenge_store \<times> (http_error, wallet_challenge) result" where
  "consume nonce user now m = (case mget m nonce of
     None \<Rightarrow> (m, Inl (HttpError 400 ''challenge_not_found''))
   | Some ch \<Rightarrow>
       if wc_userId ch \<noteq> user then (m, Inl (HttpError 400 ''challenge_not_found''))
       else if wc_expiresAtMs ch \<le> now then (m, Inl (HttpError 410 ''challenge_expired''))
       else if wc_consumed ch then (m, Inl (HttpError 409 ''already-consumed''))
       else (mput nonce (ch\<lparr>wc_consumed := True\<rparr>) m, Inr (ch\<lparr>wc_consumed := True\<rparr>)))"

section \<open>The repository of bindings\<close>

record wallet_binding =
  w_id :: string
  w_userId :: string
  w_walletAddress :: string
  w_bindingHash :: "string option"
  w_verificationMethod :: string
  w_verifiedAt :: "int option"
  w_boundAt :: int
  w_initialSyncedAt :: "int option"

type_synonym binding_store = "(string, wallet_binding) jmap"

definition of_address :: "string \<Rightarrow> string \<Rightarrow> wallet_binding \<Rightarrow> bool" where
  "of_address user address w \<longleftrightarrow> w_userId w = user \<and> w_walletAddress w = address"

definition findByUserAndAddress :: "string \<Rightarrow> string \<Rightarrow> binding_store \<Rightarrow> wallet_binding option" where
  "findByUserAndAddress user address m = List.find (of_address user address) (mvalues m)"

definition upsert_binding :: "string \<Rightarrow> int \<Rightarrow> string \<Rightarrow> string \<Rightarrow> string option \<Rightarrow> string \<Rightarrow> int option \<Rightarrow> binding_store \<Rightarrow>
    binding_store \<times> wallet_binding" where
  "upsert_binding uuid now user address hash meth verifiedAt m =
     (let v = (case findByUserAndAddress user address m of
          Some e \<Rightarrow> e\<lparr>w_bindingHash := hash, w_verificationMethod := meth, w_verifiedAt := verifiedAt\<rparr>
        | None \<Rightarrow> \<lparr>w_id = uuid, w_userId = user, w_walletAddress = address, w_bindingHash = hash, w_verificationMethod = meth,
            w_verifiedAt = verifiedAt, w_boundAt = now, w_initialSyncedAt = None\<rparr>)
      in (mput (w_id v) v m, v))"

definition findLatestByUser :: "string \<Rightarrow> binding_store \<Rightarrow> wallet_binding option" where
  "findLatestByUser user m = List.find (\<lambda>w. w_userId w = user) (rev (mvalues m))"

definition findAllByUser :: "string \<Rightarrow> binding_store \<Rightarrow> wallet_binding list" where
  "findAllByUser user m = sort_by (\<lambda>a b. w_boundAt a \<le> w_boundAt b) (filter (\<lambda>w. w_userId w = user) (mvalues m))"

definition markInitialSynced :: "string \<Rightarrow> int \<Rightarrow> binding_store \<Rightarrow> binding_store" where
  "markInitialSynced i t m = (case mget m i of None \<Rightarrow> m | Some w \<Rightarrow> mput i (w\<lparr>w_initialSyncedAt := Some t\<rparr>) m)"

section \<open>The requests\<close>

record 'c wallet_env =
  we_getAddress :: "string \<Rightarrow> string option"
  we_verifyMessage :: "string \<Rightarrow> string \<Rightarrow> string \<Rightarrow> bool"
  we_packedHash :: "string \<Rightarrow> string \<Rightarrow> string \<Rightarrow> string \<Rightarrow> string option"
  we_parseSiwe :: "string \<Rightarrow> siwe_message option"
  we_origin :: "string \<times> string"
  we_dispatcher :: "dispatcher option"
  we_client :: "'c chain_client"

record 'c wallet_db =
  wd_challenges :: challenge_store
  wd_bindings :: binding_store
  wd_rows :: mock_repo
  wd_cursors :: cursor_store
  wd_anchors :: "'c anchor_state"

record wallet_user =
  sub :: string
  didHash :: string

text \<open>What waits when a request gives up control, and what a request answers.\<close>

datatype wallet_call =
    VerifyCall wallet_user string string string string
  | SubmitCall string string string
  | WatchCall wallet_user string
  | RowsCall string wallet_binding
  | CursorsCall string wallet_binding nat
  | WalletCall string wallet_binding nat
  | LinksCall string wallet_binding nat

datatype wallet_answer =
    Issued wallet_challenge
  | Bound string string string string
  | Watched string
  | Unbound string nat nat

datatype wallet_outcome =
    Rejects http_error
  | Waits wallet_call
  | Answers wallet_answer

text \<open>\<open>WalletService.bind\<close> and \<open>bindSiwe\<close>, up to the verification of the signature.\<close>

definition bind_begin :: "int \<Rightarrow> wallet_user \<Rightarrow> string \<Rightarrow> string \<Rightarrow> string \<Rightarrow> string \<Rightarrow> 'c wallet_db \<Rightarrow> 'c wallet_db \<times> wallet_outcome" where
  "bind_begin now user address message signature nonce db = (case consume nonce (sub user) now (wd_challenges db) of
     (m, Inl e) \<Rightarrow> (db\<lparr>wd_challenges := m\<rparr>, Rejects e)
   | (m, Inr ch) \<Rightarrow> (db\<lparr>wd_challenges := m\<rparr>,
       if wc_message ch \<noteq> Some message then Rejects (HttpError 400 ''challenge_mismatch'')
       else Waits (VerifyCall user address message signature nonce)))"

definition siwe_matches :: "siwe_message \<Rightarrow> wallet_challenge \<Rightarrow> bool" where
  "siwe_matches p ch \<longleftrightarrow> wc_domain ch = Some (sm_domain p) \<and> wc_uri ch = Some (sm_uri p) \<and> wc_chainId ch = Some (sm_chainId p) \<and>
     sm_issuedAt p = Some (wc_issuedAt ch)"

definition bindSiwe_begin :: "'c wallet_env \<Rightarrow> int \<Rightarrow> wallet_user \<Rightarrow> string \<Rightarrow> string \<Rightarrow> 'c wallet_db \<Rightarrow> 'c wallet_db \<times> wallet_outcome" where
  "bindSiwe_begin E now user message signature db = (case we_parseSiwe E message of
     None \<Rightarrow> (db, Rejects (HttpError 400 ''Invalid SIWE message.''))
   | Some p \<Rightarrow> (case consume (sm_nonce p) (sub user) now (wd_challenges db) of
       (m, Inl e) \<Rightarrow> (db\<lparr>wd_challenges := m\<rparr>, Rejects e)
     | (m, Inr ch) \<Rightarrow> (db\<lparr>wd_challenges := m\<rparr>,
         if \<not> siwe_matches p ch then Rejects (HttpError 400 ''challenge_mismatch'')
         else Waits (VerifyCall user (sm_address p) message signature (sm_nonce p)))))"

text \<open>\<open>getAddress\<close> throws outside the \<open>catch\<close> of \<open>verifyMessage\<close>.\<close>

definition assertSignature :: "'c wallet_env \<Rightarrow> string \<Rightarrow> string \<Rightarrow> string \<Rightarrow> http_error option" where
  "assertSignature E address message signature = (case we_getAddress E address of
     None \<Rightarrow> Some (HttpError 500 ''InvalidAddressError'')
   | Some a \<Rightarrow> if we_verifyMessage E a message signature then None else Some (HttpError 401 ''invalid_signature''))"

text \<open>\<open>WalletBindingService.bind\<close>, up to the submission of the anchor.\<close>

definition binding_bind :: "'c wallet_env \<Rightarrow> string \<Rightarrow> int \<Rightarrow> wallet_user \<Rightarrow> string \<Rightarrow> string \<Rightarrow> string \<Rightarrow> 'c wallet_db \<Rightarrow> 'c wallet_db \<times> wallet_outcome" where
  "binding_bind E uuid now user address nonce signature db = (case we_getAddress E address of
     None \<Rightarrow> (db, Rejects (HttpError 500 ''InvalidAddressError''))
   | Some a \<Rightarrow> (case we_packedHash E a (didHash user) nonce signature of
       None \<Rightarrow> (db, Rejects (HttpError 500 ''encodePacked''))
     | Some h \<Rightarrow> (let (m, w) = upsert_binding uuid now (sub user) a (Some h) ''siwe'' (Some now) (wd_bindings db)
                  in (db\<lparr>wd_bindings := m\<rparr>, Waits (SubmitCall (w_id w) (w_walletAddress w) h)))))"

definition bind_verified :: "'c wallet_env \<Rightarrow> string \<Rightarrow> int \<Rightarrow> wallet_user \<Rightarrow> string \<Rightarrow> string \<Rightarrow> string \<Rightarrow> string \<Rightarrow> 'c wallet_db \<Rightarrow> 'c wallet_db \<times> wallet_outcome" where
  "bind_verified E uuid now user address message signature nonce db = (case assertSignature E address message signature of
     Some e \<Rightarrow> (db, Rejects e)
   | None \<Rightarrow> binding_bind E uuid now user address nonce signature db)"

definition binding_submit :: "'c wallet_env \<Rightarrow> string \<Rightarrow> int \<Rightarrow> string \<Rightarrow> string \<Rightarrow> string \<Rightarrow> 'c wallet_db \<Rightarrow> 'c wallet_db \<times> wallet_outcome" where
  "binding_submit E uuid now i address hash db = (case we_dispatcher E of
     None \<Rightarrow> (db, Answers (Bound i address hash ''disabled''))
   | Some d \<Rightarrow> (case submit d (we_client E) uuid now hash ''binding'' (wd_anchors db) of
       (s, Inl e) \<Rightarrow> (db\<lparr>wd_anchors := s\<rparr>, Rejects e)
     | (s, Inr a) \<Rightarrow> (db\<lparr>wd_anchors := s\<rparr>, Answers (Bound i address hash (case a of Some r \<Rightarrow> a_status r | None \<Rightarrow> ''pending'')))))"

text \<open>\<open>WalletBindingService.watch\<close>.\<close>

definition watch_begin :: "'c wallet_env \<Rightarrow> wallet_user \<Rightarrow> string \<Rightarrow> 'c wallet_db \<Rightarrow> 'c wallet_db \<times> wallet_outcome" where
  "watch_begin E user address db = (db, case we_getAddress E address of
     None \<Rightarrow> Rejects (HttpError 400 ''invalid_address'')
   | Some a \<Rightarrow> (case findByUserAndAddress (sub user) a (wd_bindings db) of
       Some w \<Rightarrow> Answers (Watched (w_walletAddress w))
     | None \<Rightarrow> Waits (WatchCall user a)))"

definition watch_end :: "string \<Rightarrow> int \<Rightarrow> wallet_user \<Rightarrow> string \<Rightarrow> 'c wallet_db \<Rightarrow> 'c wallet_db \<times> wallet_outcome" where
  "watch_end uuid now user a db =
     (let (m, w) = upsert_binding uuid now (sub user) a None ''watch_only'' None (wd_bindings db)
      in (db\<lparr>wd_bindings := m\<rparr>, Answers (Watched (w_walletAddress w))))"

text \<open>\<open>WalletUnbindService.unbind\<close>: look up, rows, cursors, binding, moves of the other wallets.\<close>

definition unbind_begin :: "'c wallet_env \<Rightarrow> wallet_user \<Rightarrow> string \<Rightarrow> 'c wallet_db \<Rightarrow> 'c wallet_db \<times> wallet_outcome" where
  "unbind_begin E user address db = (db, case we_getAddress E address of
     None \<Rightarrow> Rejects (HttpError 400 ''invalid_address'')
   | Some a \<Rightarrow> (case findByUserAndAddress (sub user) a (wd_bindings db) of
       None \<Rightarrow> Rejects (HttpError 404 ''wallet_not_found'')
     | Some w \<Rightarrow> Waits (RowsCall (sub user) w)))"

definition unbind_rows :: "string \<Rightarrow> wallet_binding \<Rightarrow> 'c wallet_db \<Rightarrow> 'c wallet_db \<times> wallet_outcome" where
  "unbind_rows user w db = (let (r, n) = deleteAllForBinding (w_id w) (wd_rows db) in (db\<lparr>wd_rows := r\<rparr>, Waits (CursorsCall user w n)))"

definition unbind_cursors :: "string \<Rightarrow> wallet_binding \<Rightarrow> nat \<Rightarrow> 'c wallet_db \<Rightarrow> 'c wallet_db \<times> wallet_outcome" where
  "unbind_cursors user w n db = (db\<lparr>wd_cursors := deleteForBinding (w_id w) (wd_cursors db)\<rparr>, Waits (WalletCall user w n))"

definition unbind_wallet :: "string \<Rightarrow> wallet_binding \<Rightarrow> nat \<Rightarrow> 'c wallet_db \<Rightarrow> 'c wallet_db \<times> wallet_outcome" where
  "unbind_wallet user w n db = (db\<lparr>wd_bindings := mdel (w_id w) (wd_bindings db)\<rparr>, Waits (LinksCall user w n))"

definition unbind_links :: "string \<Rightarrow> wallet_binding \<Rightarrow> nat \<Rightarrow> 'c wallet_db \<Rightarrow> 'c wallet_db \<times> wallet_outcome" where
  "unbind_links user w n db =
     (let (r, k) = unlinkCounterparty (mock_writer user) (w_walletAddress w) (listForUser user (wd_rows db)) (wd_rows db)
      in (db\<lparr>wd_rows := r\<rparr>, Answers (Unbound (w_walletAddress w) n k)))"

section \<open>Slices and their order\<close>

datatype wallet_request =
    BindingChallenge string
  | SiweChallenge string int
  | Bind string string string string
  | BindSiwe string string
  | Watch string
  | Unbind string

fun start :: "'c wallet_env \<Rightarrow> int \<Rightarrow> wallet_user \<Rightarrow> wallet_request \<Rightarrow> 'c wallet_db \<Rightarrow> 'c wallet_db \<times> wallet_outcome" where
  "start E now user (BindingChallenge nonce) db =
     (let (m, ch) = issueBinding nonce (sub user) now (wd_challenges db) in (db\<lparr>wd_challenges := m\<rparr>, Answers (Issued ch)))"
| "start E now user (SiweChallenge nonce cid) db =
     (let (m, ch) = issueSiwe (we_origin E) nonce (sub user) cid now (wd_challenges db) in (db\<lparr>wd_challenges := m\<rparr>, Answers (Issued ch)))"
| "start E now user (Bind address message signature nonce) db = bind_begin now user address message signature nonce db"
| "start E now user (BindSiwe message signature) db = bindSiwe_begin E now user message signature db"
| "start E now user (Watch address) db = watch_begin E user address db"
| "start E now user (Unbind address) db = unbind_begin E user address db"

fun resume :: "'c wallet_env \<Rightarrow> string \<Rightarrow> int \<Rightarrow> wallet_call \<Rightarrow> 'c wallet_db \<Rightarrow> 'c wallet_db \<times> wallet_outcome" where
  "resume E uuid now (VerifyCall user address message signature nonce) db = bind_verified E uuid now user address message signature nonce db"
| "resume E uuid now (SubmitCall i address hash) db = binding_submit E uuid now i address hash db"
| "resume E uuid now (WatchCall user a) db = watch_end uuid now user a db"
| "resume E uuid now (RowsCall user w) db = unbind_rows user w db"
| "resume E uuid now (CursorsCall user w n) db = unbind_cursors user w n db"
| "resume E uuid now (WalletCall user w n) db = unbind_wallet user w n db"
| "resume E uuid now (LinksCall user w n) db = unbind_links user w n db"

text \<open>A request with nobody in between: at most four slices follow the first.\<close>

fun run_on :: "nat \<Rightarrow> 'c wallet_env \<Rightarrow> string \<Rightarrow> int \<Rightarrow> 'c wallet_db \<times> wallet_outcome \<Rightarrow> 'c wallet_db \<times> wallet_outcome" where
  "run_on (Suc n) E uuid now (db, Waits c) = run_on n E uuid now (resume E uuid now c db)"
| "run_on n E uuid now (db, out) = (db, out)"

definition perform :: "'c wallet_env \<Rightarrow> string \<Rightarrow> int \<Rightarrow> wallet_user \<Rightarrow> wallet_request \<Rightarrow> 'c wallet_db \<Rightarrow> 'c wallet_db \<times> wallet_outcome" where
  "perform E uuid now user request db = run_on 4 E uuid now (start E now user request db)"

record 'c wallet_machine =
  wm_db :: "'c wallet_db"
  wm_calls :: "wallet_call list"
  wm_clock :: int

definition add_call :: "wallet_outcome \<Rightarrow> wallet_call list \<Rightarrow> wallet_call list" where
  "add_call out cs = (case out of Waits c \<Rightarrow> cs @ [c] | _ \<Rightarrow> cs)"

text \<open>The nonce of a challenge is new among the challenges, the id of a binding among the bindings.\<close>

fun fresh_nonce :: "wallet_request \<Rightarrow> challenge_store \<Rightarrow> bool" where
  "fresh_nonce (BindingChallenge nonce) m = (\<not> mhas m nonce)"
| "fresh_nonce (SiweChallenge nonce cid) m = (\<not> mhas m nonce)"
| "fresh_nonce _ m = True"

inductive wallet_step :: "'c wallet_env \<Rightarrow> 'c wallet_machine \<Rightarrow> 'c wallet_machine \<Rightarrow> bool" for E where
  tick: "wm_clock m \<le> t \<Longrightarrow> wallet_step E m (m\<lparr>wm_clock := t\<rparr>)"
| starts: "fresh_nonce request (wd_challenges (wm_db m)) \<Longrightarrow> start E (wm_clock m) user request (wm_db m) = (db, out) \<Longrightarrow>
    wallet_step E m (m\<lparr>wm_db := db, wm_calls := add_call out (wm_calls m)\<rparr>)"
| resumes: "wm_calls m = cs @ c # cs' \<Longrightarrow> \<not> mhas (wd_bindings (wm_db m)) uuid \<Longrightarrow> resume E uuid (wm_clock m) c (wm_db m) = (db, out) \<Longrightarrow>
    wallet_step E m (m\<lparr>wm_db := db, wm_calls := add_call out (cs @ cs')\<rparr>)"
| synced: "wallet_step E m (m\<lparr>wm_db := (wm_db m)\<lparr>wd_bindings := markInitialSynced i (wm_clock m) (wd_bindings (wm_db m))\<rparr>\<rparr>)"
| fails: "wm_calls m = cs @ c # cs' \<Longrightarrow> wallet_step E m (m\<lparr>wm_calls := cs @ cs'\<rparr>)"

abbreviation wallet_steps :: "'c wallet_env \<Rightarrow> 'c wallet_machine \<Rightarrow> 'c wallet_machine \<Rightarrow> bool" where
  "wallet_steps E \<equiv> (wallet_step E)\<^sup>*\<^sup>*"

text \<open>A start with nothing issued, nothing bound and nothing under way; rows and cursors are arbitrary.\<close>

definition fresh_machine :: "'c wallet_machine \<Rightarrow> bool" where
  "fresh_machine m \<longleftrightarrow> wd_challenges (wm_db m) = [] \<and> wd_bindings (wm_db m) = [] \<and> wm_calls m = []"

definition wallet_reachable :: "'c wallet_env \<Rightarrow> 'c wallet_machine \<Rightarrow> bool" where
  "wallet_reachable E m \<longleftrightarrow> (\<exists>m0. fresh_machine m0 \<and> wallet_steps E m0 m)"

end
