(* ===== verification/WalletBinding_Properties.thy ===== *)
theory WalletBinding_Properties
  imports WalletBinding
begin

text \<open>
  What binding a wallet guarantees, for every interleaving of the slices of concurrent requests: a challenge serves one
  request, a binding that counts as verified was proved with a signature over a challenge of its own user, an account has
  one binding for an address, watching an address leaves bindings alone when nothing runs in between, and an
  unbinding that runs to its end leaves nothing behind. The last section shows what happens when it does not.
\<close>

section \<open>Slices\<close>

lemma find_address: "findByUserAndAddress user a m = Some w \<Longrightarrow> w \<in> set (mvalues m) \<and> w_userId w = user \<and> w_walletAddress w = a"
  unfolding findByUserAndAddress_def of_address_def find_Some_iff by (metis nth_mem)

lemma find_address_none: "findByUserAndAddress user a m = None \<longleftrightarrow> (\<forall>w\<in>set (mvalues m). \<not> of_address user a w)"
  unfolding findByUserAndAddress_def find_None_iff by auto

lemmas slice_defs = bind_begin_def bindSiwe_begin_def assertSignature_def binding_bind_def bind_verified_def binding_submit_def
  watch_begin_def watch_end_def unbind_begin_def unbind_rows_def unbind_cursors_def unbind_wallet_def unbind_links_def
  issueBinding_def issueSiwe_def Let_def

lemmas slice_splits = option.splits prod.splits sum.splits if_splits

section \<open>Challenges\<close>

definition spent :: "wallet_challenge \<Rightarrow> wallet_challenge" where
  "spent ch = ch\<lparr>wc_consumed := True\<rparr>"

text \<open>Challenges are only added and spent.\<close>

definition challenges_grow :: "challenge_store \<Rightarrow> challenge_store \<Rightarrow> bool" where
  "challenges_grow m m' \<longleftrightarrow> (\<forall>n ch. mget m n = Some ch \<longrightarrow> mget m' n = Some ch \<or> mget m' n = Some (spent ch))"

lemma challenges_grow_refl [simp]: "challenges_grow m m"
  by (simp add: challenges_grow_def)

lemma challenges_grow_trans: "challenges_grow a b \<Longrightarrow> challenges_grow b c \<Longrightarrow> challenges_grow a c"
  unfolding challenges_grow_def spent_def by (metis wallet_challenge.update_convs(9) wallet_challenge.surjective)

lemma spent_stays: "challenges_grow m m' \<Longrightarrow> mget m n = Some ch \<Longrightarrow> wc_consumed ch \<Longrightarrow> mget m' n = Some ch"
  by (cases ch) (force simp: challenges_grow_def spent_def)

lemma consume_grows: "challenges_grow m (fst (consume nonce user now m))"
  by (auto simp: consume_def challenges_grow_def spent_def map_of_update split: option.splits)

lemma consume_ok:
  assumes "consume nonce user now m = (m', Inr ch)"
  shows "mget m' nonce = Some ch \<and> wc_consumed ch \<and> wc_userId ch = user"
  using assms by (auto simp: consume_def map_of_update split: option.splits if_splits)

lemma consume_refuses: "mget m nonce = Some ch \<Longrightarrow> wc_consumed ch \<Longrightarrow> \<exists>e. consume nonce user now m = (m, Inl e)"
  by (simp add: consume_def)

lemma start_grows:
  assumes "fresh_nonce request (wd_challenges db)"
  shows "challenges_grow (wd_challenges db) (wd_challenges (fst (start E now user request db)))"
proof -
  have put: "challenges_grow m (mput n ch m)" if "\<not> mhas m n" for m n and ch :: wallet_challenge
    using that by (auto simp: challenges_grow_def map_of_update)
  have eaten: "challenges_grow m m'" if "consume n u t m = (m', r)" for n u t m m' r
    using consume_grows [of m n u t] that by simp
  show ?thesis
    using assms by (cases request) (auto simp: slice_defs put dest: eaten split: slice_splits)
qed

lemma resume_challenges [simp]: "wd_challenges (fst (resume E uuid now c db)) = wd_challenges db"
  by (cases c) (auto simp: slice_defs split: slice_splits)

lemma step_grows:
  assumes "wallet_step E m m'"
  shows "challenges_grow (wd_challenges (wm_db m)) (wd_challenges (wm_db m'))"
  using assms
proof cases
  case (starts request user db out)
  then show ?thesis using start_grows [of request "wm_db m" E "wm_clock m" user] by simp
next
  case (resumes cs c cs' uuid db out)
  then show ?thesis using resume_challenges [of E uuid "wm_clock m" c "wm_db m"] by simp
qed simp_all

lemma steps_grow: "wallet_steps E m m' \<Longrightarrow> challenges_grow (wd_challenges (wm_db m)) (wd_challenges (wm_db m'))"
  by (induction rule: rtranclp_induct) (auto intro: challenges_grow_trans step_grows)

text \<open>A signature waits for its verification only under a spent challenge of its user that it answers.\<close>

definition answers_challenge :: "'c wallet_env \<Rightarrow> wallet_challenge \<Rightarrow> string \<Rightarrow> string \<Rightarrow> string \<Rightarrow> bool" where
  "answers_challenge E ch nonce message address \<longleftrightarrow> wc_message ch = Some message \<or>
     (\<exists>p. we_parseSiwe E message = Some p \<and> sm_nonce p = nonce \<and> sm_address p = address \<and> siwe_matches p ch)"

fun wallet_call_ok :: "'c wallet_env \<Rightarrow> challenge_store \<Rightarrow> wallet_call \<Rightarrow> bool" where
  "wallet_call_ok E m (VerifyCall user address message signature nonce) =
     (\<exists>ch. mget m nonce = Some ch \<and> wc_consumed ch \<and> wc_userId ch = sub user \<and> answers_challenge E ch nonce message address)"
| "wallet_call_ok E m _ = True"

lemma call_ok_grows: "challenges_grow m m' \<Longrightarrow> wallet_call_ok E m c \<Longrightarrow> wallet_call_ok E m' c"
  by (cases c) (auto dest: spent_stays)

lemma start_call: "start E now user request db = (db', Waits c) \<Longrightarrow> wallet_call_ok E (wd_challenges db') c"
  by (cases request) (auto simp: slice_defs answers_challenge_def dest!: consume_ok split: slice_splits)

lemma resume_call: "resume E uuid now c db = (db', Waits d) \<Longrightarrow> wallet_call_ok E m d"
  by (cases c) (auto simp: slice_defs split: slice_splits)

text \<open>C37. A challenge serves one request. Once a request has been let through to the verification of its signature, no later
  request under the same nonce is, whoever sends it, by which route, and whatever ran in between; a refused request changes nothing.\<close>

theorem challenge_single_use:
  assumes "start E now user request db = (wm_db m, Waits (VerifyCall user' address message signature nonce))" and "wallet_steps E m m'"
  shows "(\<exists>e. start E t other (Bind a s g nonce) (wm_db m') = (wm_db m', Rejects e)) \<and>
    (\<forall>p. we_parseSiwe E s = Some p \<longrightarrow> sm_nonce p = nonce \<longrightarrow> (\<exists>e. start E t other (BindSiwe s g) (wm_db m') = (wm_db m', Rejects e)))"
proof -
  obtain ch where "mget (wd_challenges (wm_db m)) nonce = Some ch" "wc_consumed ch"
    using start_call [OF assms(1)] by auto
  then have "mget (wd_challenges (wm_db m')) nonce = Some ch" using steps_grow [OF assms(2)] by (metis spent_stays)
  then show ?thesis using \<open>wc_consumed ch\<close> by (auto simp: slice_defs consume_def)
qed

section \<open>Bindings\<close>

definition bindings_ok :: "binding_store \<Rightarrow> bool" where
  "bindings_ok m \<longleftrightarrow> distinct (mkeys m) \<and> (\<forall>(k, w)\<in>set m. w_id w = k) \<and> distinct (map (\<lambda>w. (w_userId w, w_walletAddress w)) (mvalues m))"

lemma bindings_get:
  assumes ok: "bindings_ok m"
  shows "w \<in> set (mvalues m) \<longleftrightarrow> mget m (w_id w) = Some w"
proof
    assume "w \<in> set (mvalues m)"
    then obtain k where k: "(k, w) \<in> set m" by auto
    then have "w_id w = k" using ok by (auto simp: bindings_ok_def)
    then show "mget m (w_id w) = Some w" using k ok by (simp add: bindings_ok_def)
next
  assume "mget m (w_id w) = Some w"
  then show "w \<in> set (mvalues m)" by (rule map_of_Some_in_set)
qed

lemma bindings_same:
  assumes "bindings_ok m" "v \<in> set (mvalues m)" "w \<in> set (mvalues m)" "of_address (w_userId v) (w_walletAddress v) w"
  shows "w = v"
proof -
  have "inj_on (\<lambda>w. (w_userId w, w_walletAddress w)) (set (mvalues m))"
    using assms(1) unfolding bindings_ok_def distinct_map by blast
  then show ?thesis using assms(2-4) by (auto simp only: of_address_def dest: inj_onD)
qed

lemma find_binding:
  assumes "bindings_ok m"
  shows "findByUserAndAddress user a m = Some w \<longleftrightarrow> w \<in> set (mvalues m) \<and> of_address user a w"
proof
  show "findByUserAndAddress user a m = Some w \<Longrightarrow> w \<in> set (mvalues m) \<and> of_address user a w"
    using find_address by (auto simp: of_address_def)
  assume w: "w \<in> set (mvalues m) \<and> of_address user a w"
  then obtain v where v: "findByUserAndAddress user a m = Some v"
    by (cases "findByUserAndAddress user a m") (auto simp: find_address_none)
  have "v = w" by (rule bindings_same [OF assms, of w v]) (use w find_address [OF v] in \<open>auto simp: of_address_def\<close>)
  then show "findByUserAndAddress user a m = Some w" using v by simp
qed

lemma upsert_new:
  assumes "findByUserAndAddress user a m = None" "\<not> mhas m uuid"
  shows "fst (upsert_binding uuid now user a hash meth t m) = m @ [(uuid, snd (upsert_binding uuid now user a hash meth t m))] \<and>
    w_id (snd (upsert_binding uuid now user a hash meth t m)) = uuid"
proof -
  have "mput uuid w m = m @ [(uuid, w)]" for w using assms(2) by (induction m) (auto split: if_splits)
  then show ?thesis by (simp add: upsert_binding_def assms(1) Let_def)
qed

lemma upsert_binding_is:
  "w_userId (snd (upsert_binding uuid now user a hash meth t m)) = user \<and>
   w_walletAddress (snd (upsert_binding uuid now user a hash meth t m)) = a \<and>
   w_bindingHash (snd (upsert_binding uuid now user a hash meth t m)) = hash \<and>
   w_verificationMethod (snd (upsert_binding uuid now user a hash meth t m)) = meth \<and>
   w_verifiedAt (snd (upsert_binding uuid now user a hash meth t m)) = t"
proof (cases "findByUserAndAddress user a m")
  case (Some e)
  then show ?thesis using find_address [OF Some] by (simp add: upsert_binding_def Let_def)
qed (simp add: upsert_binding_def Let_def)

lemma upsert_values:
  assumes ok: "bindings_ok m" and fresh: "\<not> mhas m uuid"
  shows "mvalues (fst (upsert_binding uuid now user a hash meth t m)) =
    (if findByUserAndAddress user a m = None
     then mvalues m @ [snd (upsert_binding uuid now user a hash meth t m)]
     else map (\<lambda>w. if of_address user a w then snd (upsert_binding uuid now user a hash meth t m) else w) (mvalues m))"
proof (cases "findByUserAndAddress user a m")
  case None
  then show ?thesis using upsert_new [OF None fresh, of now hash meth t] by simp
next
  case (Some e)
  have e: "e \<in> set (mvalues m)" "of_address user a e" using Some find_binding [OF ok] by auto
  have "k = w_id e \<longleftrightarrow> of_address user a w" if "(k, w) \<in> set m" for k w
  proof
    have w: "w \<in> set (mvalues m)" using that by (force simp: image_iff)
    have k: "w_id w = k" using ok that by (auto simp: bindings_ok_def)
    show "of_address user a w" if "k = w_id e"
      using bindings_get [OF ok, of e] bindings_get [OF ok, of w] e w k that by simp
    show "k = w_id e" if "of_address user a w"
      using bindings_same [OF ok e(1) w] e(2) that k by (auto simp: of_address_def)
  qed
  then have "map (\<lambda>(k', w). if k' = w_id e then v else w) m = map (\<lambda>w. if of_address user a w then v else w) (mvalues m)" for v
    by auto
  then show ?thesis
    using mput_values [of m "w_id e" e] ok bindings_get [OF ok, of e] e(1)
    by (simp add: upsert_binding_def Some Let_def bindings_ok_def)
qed

lemma upsert_ok:
  assumes ok: "bindings_ok m" and fresh: "\<not> mhas m uuid"
  shows "bindings_ok (fst (upsert_binding uuid now user a hash meth t m))"
proof (cases "findByUserAndAddress user a m")
  case None
  note new = upsert_new [OF None fresh, of now hash meth t]
  have "uuid \<notin> set (mkeys m)" using fresh by (auto simp: map_of_eq_None_iff)
  moreover have "(user, a) \<notin> set (map (\<lambda>w. (w_userId w, w_walletAddress w)) (mvalues m))"
    using None by (auto simp: find_address_none of_address_def)
  ultimately show ?thesis
    using ok new upsert_binding_is [of uuid now user a hash meth t m] by (simp add: bindings_ok_def)
next
  case (Some e)
  let ?f = "\<lambda>w. (w_userId w, w_walletAddress w)" and ?v = "snd (upsert_binding uuid now user a hash meth t m)"
  have v: "fst (upsert_binding uuid now user a hash meth t m) = mput (w_id e) ?v m" "w_id ?v = w_id e"
    by (simp_all add: upsert_binding_def Some Let_def)
  have "map ?f (map (\<lambda>w. if of_address user a w then ?v else w) (mvalues m)) = map ?f (mvalues m)"
    using upsert_binding_is [of uuid now user a hash meth t m] by (auto simp: of_address_def)
  then have "map ?f (mvalues (mput (w_id e) ?v m)) = map ?f (mvalues m)"
    using upsert_values [OF ok fresh, of now user a hash meth t] by (simp add: Some v(1))
  moreover have "\<forall>(k, w)\<in>set (mput (w_id e) ?v m). w_id w = k"
    using ok set_update_subset [of "w_id e" ?v m] v(2) unfolding bindings_ok_def by blast
  ultimately show ?thesis using ok unfolding bindings_ok_def v(1) by (simp add: distinct_update)
qed

lemma delete_ok: "bindings_ok m \<Longrightarrow> bindings_ok (mdel k m)"
  unfolding bindings_ok_def AList.delete_eq by (auto simp: distinct_map_filter filter_map [symmetric] intro!: distinct_map_filter)

lemma mark_values: "bindings_ok m \<Longrightarrow> mget m i = Some w \<Longrightarrow> mvalues (markInitialSynced i t m) =
    map (\<lambda>v. if w_id v = i then v\<lparr>w_initialSyncedAt := Some t\<rparr> else v) (mvalues m)"
proof -
  assume ok: "bindings_ok m" and w: "mget m i = Some w"
  have "(case kv of (k, v) \<Rightarrow> if k = i then w\<lparr>w_initialSyncedAt := Some t\<rparr> else v) =
      (if w_id (snd kv) = i then (snd kv)\<lparr>w_initialSyncedAt := Some t\<rparr> else snd kv)" if "kv \<in> set m" for kv
  proof -
    have "w_id (snd kv) = fst kv" "mget m (fst kv) = Some (snd kv)" using ok that by (auto simp: bindings_ok_def)
    then show ?thesis using w by (cases kv) auto
  qed
  then show ?thesis using mput_values [of m i w] ok w by (simp add: markInitialSynced_def bindings_ok_def)
qed

lemma mark_keys: "mkeys (markInitialSynced i t m) = mkeys m"
proof (cases "mget m i")
  case (Some w)
  then have "i \<in> set (mkeys m)" by (force dest: map_of_SomeD)
  then show ?thesis by (simp add: markInitialSynced_def update_keys Some)
qed (simp add: markInitialSynced_def)

lemma mark_ok:
  assumes "bindings_ok m"
  shows "bindings_ok (markInitialSynced i t m)"
proof (cases "mget m i")
  case (Some w)
  let ?f = "\<lambda>w. (w_userId w, w_walletAddress w)"
  have "map ?f (mvalues (markInitialSynced i t m)) = map ?f (mvalues m)"
    unfolding mark_values [OF assms Some] by simp
  moreover have "w_id w = i" using assms map_of_SomeD [OF Some] by (auto simp: bindings_ok_def)
  then have "\<forall>(k, w)\<in>set (markInitialSynced i t m). w_id w = k"
    using assms set_update_subset [of i "w\<lparr>w_initialSyncedAt := Some t\<rparr>" m] by (auto simp: bindings_ok_def markInitialSynced_def Some)
  ultimately show ?thesis using assms unfolding bindings_ok_def mark_keys by simp
qed (simp add: markInitialSynced_def assms)

section \<open>What a verified binding proves\<close>

definition proved :: "'c wallet_env \<Rightarrow> challenge_store \<Rightarrow> wallet_binding \<Rightarrow> bool" where
  "proved E m w \<longleftrightarrow> (\<exists>nonce ch message signature did address.
     mget m nonce = Some ch \<and> wc_consumed ch \<and> wc_userId ch = w_userId w \<and> answers_challenge E ch nonce message address \<and>
     we_getAddress E address = Some (w_walletAddress w) \<and> we_verifyMessage E (w_walletAddress w) message signature \<and>
     w_bindingHash w \<noteq> None \<and> w_bindingHash w = we_packedHash E (w_walletAddress w) did nonce signature)"

lemma provedI:
  assumes "mget m nonce = Some ch" "wc_consumed ch" "wc_userId ch = w_userId w" "answers_challenge E ch nonce message address"
    and "we_getAddress E address = Some (w_walletAddress w)" "we_verifyMessage E (w_walletAddress w) message signature"
    and "w_bindingHash w = Some h" "we_packedHash E (w_walletAddress w) did nonce signature = Some h"
  shows "proved E m w"
  unfolding proved_def using assms by (metis option.distinct(1))

definition binding_ok :: "'c wallet_env \<Rightarrow> challenge_store \<Rightarrow> wallet_binding \<Rightarrow> bool" where
  "binding_ok E m w \<longleftrightarrow> w_verificationMethod w = ''siwe'' \<and> w_verifiedAt w \<noteq> None \<and> proved E m w \<or>
     w_verificationMethod w = ''watch_only'' \<and> w_verifiedAt w = None \<and> w_bindingHash w = None"

definition wallet_ok :: "'c wallet_env \<Rightarrow> 'c wallet_machine \<Rightarrow> bool" where
  "wallet_ok E m \<longleftrightarrow> bindings_ok (wd_bindings (wm_db m)) \<and>
     (\<forall>w\<in>set (mvalues (wd_bindings (wm_db m))). binding_ok E (wd_challenges (wm_db m)) w) \<and>
     (\<forall>c\<in>set (wm_calls m). wallet_call_ok E (wd_challenges (wm_db m)) c)"

lemma binding_ok_grows: "challenges_grow m m' \<Longrightarrow> binding_ok E m w \<Longrightarrow> binding_ok E m' w"
  unfolding binding_ok_def proved_def by (blast dest: spent_stays)

lemma set_replaced: "e \<in> set xs \<Longrightarrow> P e \<Longrightarrow> set (map (\<lambda>w. if P w then v else w) xs) = insert v {w \<in> set xs. \<not> P w}"
  by auto

lemma upsert_members:
  assumes "bindings_ok m" "\<not> mhas m uuid"
  shows "set (mvalues (fst (upsert_binding uuid now user a hash meth t m))) =
    insert (snd (upsert_binding uuid now user a hash meth t m)) {w \<in> set (mvalues m). \<not> of_address user a w}"
proof (cases "findByUserAndAddress user a m")
  case (Some e)
  then have "e \<in> set (mvalues m)" "of_address user a e" using find_binding [OF assms(1)] by auto
  then show ?thesis unfolding upsert_values [OF assms] using Some by (simp only: set_replaced if_False option.distinct simp_thms)
next
  case None
  then show ?thesis unfolding upsert_values [OF assms] by (auto simp: find_address_none)
qed

lemma resume_bindings:
  assumes "wallet_call_ok E (wd_challenges db) c" "bindings_ok (wd_bindings db)" "\<not> mhas (wd_bindings db) uuid"
    and "\<forall>w\<in>set (mvalues (wd_bindings db)). binding_ok E (wd_challenges db) w"
  shows "bindings_ok (wd_bindings (fst (resume E uuid now c db))) \<and>
    (\<forall>w\<in>set (mvalues (wd_bindings (fst (resume E uuid now c db)))). binding_ok E (wd_challenges db) w)"
proof (cases c)
  case (VerifyCall user address message signature nonce)
  show ?thesis
  proof (cases "we_getAddress E address")
    case (Some a)
    show ?thesis
    proof (cases "we_verifyMessage E a message signature \<and> we_packedHash E a (didHash user) nonce signature \<noteq> None")
      case True
      then obtain h where h: "we_packedHash E a (didHash user) nonce signature = Some h" "we_verifyMessage E a message signature" by auto
      have b: "wd_bindings (fst (resume E uuid now c db)) = fst (upsert_binding uuid now (sub user) a (Some h) ''siwe'' (Some now) (wd_bindings db))"
        by (simp add: VerifyCall slice_defs Some h split: prod.split)
      have "binding_ok E (wd_challenges db) (snd (upsert_binding uuid now (sub user) a (Some h) ''siwe'' (Some now) (wd_bindings db)))"
        using assms(1) provedI [where m = "wd_challenges db" and nonce = nonce and E = E and message = message and address = address and signature = signature and did = "didHash user"] Some h
        by (auto simp: binding_ok_def upsert_binding_is VerifyCall)
      then show ?thesis unfolding b upsert_members [OF assms(2,3)] using assms(4) upsert_ok [OF assms(2,3)] by auto
    qed (use assms in \<open>auto simp: VerifyCall slice_defs Some\<close>)
  qed (use assms in \<open>simp add: VerifyCall slice_defs\<close>)
next
  case (WatchCall user a)
  have b: "wd_bindings (fst (resume E uuid now c db)) = fst (upsert_binding uuid now (sub user) a None ''watch_only'' None (wd_bindings db))"
    by (simp add: WatchCall slice_defs split: prod.split)
  have "binding_ok E (wd_challenges db) (snd (upsert_binding uuid now (sub user) a None ''watch_only'' None (wd_bindings db)))"
    by (simp add: binding_ok_def upsert_binding_is)
  then show ?thesis unfolding b upsert_members [OF assms(2,3)] using assms(4) upsert_ok [OF assms(2,3)] by auto
next
  case (WalletCall user w n)
  then show ?thesis using assms(2,4) set_delete_subset [of "w_id w" "wd_bindings db"] by (auto simp: slice_defs delete_ok)
qed (use assms in \<open>auto simp: slice_defs split: slice_splits\<close>)

lemma start_bindings [simp]: "wd_bindings (fst (start E now user request db)) = wd_bindings db"
  by (cases request) (auto simp: slice_defs split: slice_splits)

lemma wallet_step_ok:
  assumes "wallet_step E m m'" "wallet_ok E m"
  shows "wallet_ok E m'"
proof -
  have ok: "bindings_ok (wd_bindings (wm_db m))" "\<forall>w\<in>set (mvalues (wd_bindings (wm_db m))). binding_ok E (wd_challenges (wm_db m)) w"
    and calls: "\<forall>c\<in>set (wm_calls m). wallet_call_ok E (wd_challenges (wm_db m)) c"
    using assms(2) by (simp_all add: wallet_ok_def)
  note grow = step_grows [OF assms(1)]
  have added: "c \<in> set (add_call out cs) \<longleftrightarrow> c \<in> set cs \<or> out = Waits c" for c out cs
    by (auto simp: add_call_def split: wallet_outcome.split)
  show ?thesis using assms(1)
  proof cases
    case (starts request user db out)
    have db: "db = fst (start E (wm_clock m) user request (wm_db m))" using starts by simp
    have "wallet_call_ok E (wd_challenges db) c" if "out = Waits c" for c using start_call starts(3) that by metis
    then show ?thesis
      using ok calls grow starts(1) by (auto simp: wallet_ok_def added db binding_ok_grows call_ok_grows)
  next
    case (resumes cs c cs' uuid db out)
    have db: "db = fst (resume E uuid (wm_clock m) c (wm_db m))" using resumes by simp
    have "wallet_call_ok E (wd_challenges db) d" if "out = Waits d" for d using resume_call resumes(4) that by metis
    moreover have "wallet_call_ok E (wd_challenges (wm_db m)) c" using calls resumes(2) by simp
    ultimately show ?thesis
      using resume_bindings [of E "wm_db m" c uuid "wm_clock m"] ok calls resumes(1-3) by (auto simp: wallet_ok_def added db)
  next
    case (synced i)
    let ?b = "wd_bindings (wm_db m)"
    have keep: "binding_ok E ch (w\<lparr>w_initialSyncedAt := t\<rparr>) \<longleftrightarrow> binding_ok E ch w" for ch w t by (simp add: binding_ok_def proved_def)
    have "\<forall>w\<in>set (mvalues (markInitialSynced i (wm_clock m) ?b)). binding_ok E (wd_challenges (wm_db m)) w"
    proof (cases "mget ?b i")
      case (Some w)
      show ?thesis unfolding mark_values [OF ok(1) Some] using ok(2) by (auto simp: keep)
    qed (use ok(2) in \<open>simp add: markInitialSynced_def\<close>)
    then show ?thesis using ok(1) calls synced by (simp add: wallet_ok_def mark_ok)
  qed (use ok calls in \<open>auto simp: wallet_ok_def\<close>)
qed

lemma wallet_reachable_ok: "wallet_reachable E m \<Longrightarrow> wallet_ok E m"
proof -
  have "wallet_steps E m0 m \<Longrightarrow> wallet_ok E m0 \<Longrightarrow> wallet_ok E m" for m0
    by (induction rule: rtranclp_induct) (auto intro: wallet_step_ok)
  moreover have "wallet_ok E m0" if "fresh_machine m0" for m0 :: "'a wallet_machine"
    using that by (simp add: fresh_machine_def wallet_ok_def bindings_ok_def)
  ultimately show "wallet_reachable E m \<Longrightarrow> wallet_ok E m" by (auto simp: wallet_reachable_def)
qed

text \<open>C36. A verified binding was proved. However requests interleave, fail or race, a binding that counts as verified carries the
  hash of a signature that verifies for its address, over the text of a spent challenge issued to its own user; every other binding is
  watched, with neither a hash nor a time of verification; and a user has one binding of an address.\<close>

theorem verified_binding_proved:
  assumes "wallet_reachable E m" "w \<in> set (mvalues (wd_bindings (wm_db m)))"
  shows "(w_verificationMethod w = ''siwe'' \<and> w_verifiedAt w \<noteq> None \<and> proved E (wd_challenges (wm_db m)) w \<or>
      w_verificationMethod w = ''watch_only'' \<and> w_verifiedAt w = None \<and> w_bindingHash w = None) \<and>
    (\<forall>v\<in>set (mvalues (wd_bindings (wm_db m))). w_userId v = w_userId w \<longrightarrow> w_walletAddress v = w_walletAddress w \<longrightarrow> v = w)"
proof -
  have ok: "wallet_ok E m" by (rule wallet_reachable_ok [OF assms(1)])
  then have "binding_ok E (wd_challenges (wm_db m)) w" and b: "bindings_ok (wd_bindings (wm_db m))"
    using assms(2) by (simp_all only: wallet_ok_def)
  then show ?thesis using bindings_same [OF b assms(2)] by (simp add: binding_ok_def of_address_def)
qed

section \<open>Watching an address\<close>

text \<open>Watching an address, with nothing in between, changes no binding. It is idempotent when the user has a binding of the
  address, verified or not, and adds one unverified binding otherwise; challenges, anchors, rows and cursors stay as they are.\<close>

theorem watch_keeps_bindings:
  assumes "we_getAddress E address = Some a" "\<not> mhas (wd_bindings db) uuid"
  shows "\<exists>added. perform E uuid now user (Watch address) db = (db\<lparr>wd_bindings := wd_bindings db @ map (Pair uuid) added\<rparr>, Answers (Watched a)) \<and>
    (if \<exists>w\<in>set (mvalues (wd_bindings db)). of_address (sub user) a w then added = []
     else \<exists>w. added = [w] \<and> of_address (sub user) a w \<and> w_verificationMethod w = ''watch_only'' \<and> w_verifiedAt w = None \<and> w_bindingHash w = None)"
proof (cases "findByUserAndAddress (sub user) a (wd_bindings db)")
  case (Some w)
  have "db\<lparr>wd_bindings := wd_bindings db @ map (Pair uuid) []\<rparr> = db" by simp
  then show ?thesis using Some assms(1) find_address [OF Some]
    by (intro exI [of _ "[]"]) (auto simp: perform_def slice_defs eval_nat_numeral of_address_def)
next
  case None
  let ?u = "upsert_binding uuid now (sub user) a None ''watch_only'' None (wd_bindings db)"
  have new: "fst ?u = wd_bindings db @ [(uuid, snd ?u)]" using upsert_new [OF None assms(2)] by blast
  have "perform E uuid now user (Watch address) db = (db\<lparr>wd_bindings := fst ?u\<rparr>, Answers (Watched a))"
    using assms(1) None upsert_binding_is [of uuid now "sub user" a None "''watch_only''" None "wd_bindings db"]
    by (simp add: perform_def slice_defs eval_nat_numeral case_prod_unfold)
  then show ?thesis
    unfolding new using None upsert_binding_is [of uuid now "sub user" a None "''watch_only''" None "wd_bindings db"]
    by (intro exI [of _ "[snd ?u]"]) (auto simp: find_address_none of_address_def)
qed

section \<open>Unbinding\<close>

lemma delete_all: "foldl (\<lambda>m i. mdel i m) m ks = filter (\<lambda>(k, _). k \<notin> set ks) m"
  by (induction ks arbitrary: m) (auto simp: AList.delete_eq intro: filter_cong)

lemma binding_rows_gone:
  assumes wf: "wf_store (mock_repo.transactions r)"
  shows "mock_repo.transactions (fst (deleteAllForBinding b r)) = filter (\<lambda>(k, row). bindingId row \<noteq> b) (mock_repo.transactions r)"
proof -
  let ?m = "mock_repo.transactions r"
  have "k \<in> set (map row_id (filter (\<lambda>row. bindingId row = b) (mvalues ?m))) \<longleftrightarrow> bindingId row = b" if "(k, row) \<in> set ?m" for k row
  proof -
    have own: "row_id x = l" if "(l, x) \<in> set ?m" for l x using wf that by (auto simp: wf_store_def)
    have "distinct (mkeys ?m)" using wf by (simp add: wf_store_def)
    then have "x = row" if "(l, x) \<in> set ?m" "row_id x = k" for l x
      using own that \<open>(k, row) \<in> set ?m\<close> by (metis map_of_eq_Some_iff option.inject)
    then show ?thesis using own [OF that] that by force
  qed
  then show ?thesis unfolding deleteAllForBinding_def Let_def fst_conv
    by (simp add: delete_all del: set_map) (rule filter_cong, auto)
qed

lemma wf_filter: "wf_store m \<Longrightarrow> wf_store (filter P m)"
  unfolding wf_store_def by (auto simp: distinct_map_filter)

lemma unbound_rows:
  assumes wf: "wf_store (mock_repo.transactions r)"
  shows "set (listForUser u (fst (deleteAllForBinding b r))) = {row \<in> set (listForUser u r). bindingId row \<noteq> b}"
proof -
  have "bindingOwners (fst (deleteAllForBinding b r)) = mdel b (bindingOwners r)" by (simp add: deleteAllForBinding_def Let_def)
  then show ?thesis
    unfolding listForUser_def binding_rows_gone [OF wf] by (auto simp: set_sort_by map_of_delete_if rev_image_eqI)
qed

lemma unbind_runs:
  assumes "we_getAddress E address = Some a" "findByUserAndAddress (sub user) a (wd_bindings db) = Some w"
  shows "perform E uuid now user (Unbind address) db =
    (let (r, n) = deleteAllForBinding (w_id w) (wd_rows db);
         (r', k) = unlinkCounterparty (mock_writer (sub user)) a (listForUser (sub user) r) r
     in (db\<lparr>wd_rows := r', wd_cursors := deleteForBinding (w_id w) (wd_cursors db), wd_bindings := mdel (w_id w) (wd_bindings db)\<rparr>,
         Answers (Unbound a n k)))"
  using assms find_address [OF assms(2)] by (simp add: perform_def slice_defs eval_nat_numeral split: prod.splits)

definition user_legs :: "wallet_user \<Rightarrow> 'c wallet_db \<Rightarrow> transaction_record list" where
  "user_legs user db = listForUser (sub user) (wd_rows db)"


section \<open>A sample account\<close>

text \<open>Every signature verifies, and an anchor is never submitted.\<close>

definition sample_wallets :: "mock_chain wallet_env" where
  "sample_wallets = \<lparr>we_getAddress = Some, we_verifyMessage = (\<lambda>_ _ _. True), we_packedHash = (\<lambda>a d n s. Some (a @ d @ n @ s)),
     we_parseSiwe = (\<lambda>_. None), we_origin = (''host'', ''https://host''), we_dispatcher = None,
     we_client = \<lparr>write_anchor = (\<lambda>_ _ c. (c, Inl (HttpError 500 ''down''))), inspect_tx = (\<lambda>_ _. None)\<rparr>\<rparr>"

definition alice :: wallet_user where
  "alice = \<lparr>sub = ''alice'', didHash = ''0xd1''\<rparr>"

definition alice_row :: "string \<Rightarrow> string \<Rightarrow> transaction_record" where
  "alice_row i b = \<lparr>row_id = i, bindingId = b, txHash = i, row_eventType = ''tx'', chain = ''1'',
     row_payload = [(''id'', VStr i), (''direction'', VStr ''OUT''), (''counterparty'', VStr ''0xa''), (''classification'', VStr ''INTERNAL_TRANSFER'')],
     row_occurredAt = 5\<rparr>"

definition wallets_at :: "challenge_store \<Rightarrow> binding_store \<Rightarrow> mock_chain wallet_db" where
  "wallets_at ch b = \<lparr>wd_challenges = ch, wd_bindings = b,
     wd_rows = \<lparr>mock_repo.transactions = [(''r1'', alice_row ''r1'' ''b1''), (''r2'', alice_row ''r2'' ''b2'')], bindingOwners = [(''b1'', ''alice''), (''b2'', ''alice'')]\<rparr>,
     wd_cursors = [(''b1:1'', \<lparr>cur_chainId = 1, lastSyncedBlock = 900, rulesVersion = 1\<rparr>)],
     wd_anchors = \<lparr>anchor_state.table = [], chain = \<lparr>c_records = [], c_block = 0\<rparr>\<rparr>\<rparr>"

definition wallets_machine :: "mock_chain wallet_db \<Rightarrow> wallet_call list \<Rightarrow> mock_chain wallet_machine" where
  "wallets_machine db cs = \<lparr>wm_db = db, wm_calls = cs, wm_clock = 1000\<rparr>"

definition nonce1 :: "challenge_store" where
  "nonce1 = fst (issueBinding ''n1'' ''alice'' 1000 [])"

definition nonce1_spent :: "challenge_store" where
  "nonce1_spent = fst (consume ''n1'' ''alice'' 1000 nonce1)"

definition nonce1_text :: string where
  "nonce1_text = the (wc_message (snd (issueBinding ''n1'' ''alice'' 1000 [])))"

definition signed_call :: wallet_call where
  "signed_call = VerifyCall alice ''0xa'' nonce1_text ''sig'' ''n1''"

definition siwe_binding :: wallet_binding where
  "siwe_binding = \<lparr>w_id = ''b1'', w_userId = ''alice'', w_walletAddress = ''0xa'', w_bindingHash = Some ''0xa0xd1n1sig'',
     w_verificationMethod = ''siwe'', w_verifiedAt = Some 1000, w_boundAt = 1000, w_initialSyncedAt = None\<rparr>"

definition downgraded_binding :: wallet_binding where
  "downgraded_binding = siwe_binding\<lparr>w_bindingHash := None, w_verificationMethod := ''watch_only'', w_verifiedAt := None\<rparr>"

lemma nonce1_consumed:
  "start sample_wallets 1000 alice (Bind ''0xa'' nonce1_text ''sig'' ''n1'') (wallets_at nonce1 []) =
    (wallets_at nonce1_spent [], Waits signed_call)"
  by (simp add: slice_defs wallets_at_def nonce1_def nonce1_spent_def nonce1_text_def signed_call_def consume_def create_challenge_def alice_def)

lemma first_step: "wallet_step sample_wallets (wallets_machine (wallets_at [] []) cs) (wallets_machine (wallets_at nonce1 []) cs)"
proof -
  have "start sample_wallets (wm_clock (wallets_machine (wallets_at [] []) cs)) alice (BindingChallenge ''n1'') (wm_db (wallets_machine (wallets_at [] []) cs)) =
      (wallets_at nonce1 [], Answers (Issued (snd (issueBinding ''n1'' ''alice'' 1000 []))))"
    by (simp add: slice_defs wallets_at_def nonce1_def alice_def wallets_machine_def)
  from wallet_step.starts [OF _ this] show ?thesis by (simp add: wallets_machine_def wallets_at_def add_call_def)
qed

lemma second_step:
  "wallet_step sample_wallets (wallets_machine (wallets_at nonce1 []) cs) (wallets_machine (wallets_at nonce1_spent []) (cs @ [signed_call]))"
  using wallet_step.starts [of "Bind ''0xa'' nonce1_text ''sig'' ''n1''" "wallets_machine (wallets_at nonce1 []) cs" sample_wallets alice]
  by (simp add: wallets_machine_def add_call_def nonce1_consumed del: start.simps)

lemma third_step:
  "wallet_step sample_wallets (wallets_machine (wallets_at nonce1_spent []) (cs @ [signed_call]))
     (wallets_machine (wallets_at nonce1_spent [(''b1'', siwe_binding)]) (cs @ [SubmitCall ''b1'' ''0xa'' ''0xa0xd1n1sig'']))"
proof -
  have "resume sample_wallets ''b1'' 1000 signed_call (wallets_at nonce1_spent []) =
      (wallets_at nonce1_spent [(''b1'', siwe_binding)], Waits (SubmitCall ''b1'' ''0xa'' ''0xa0xd1n1sig''))"
    by (simp add: slice_defs wallets_at_def signed_call_def siwe_binding_def sample_wallets_def alice_def upsert_binding_def findByUserAndAddress_def)
  with wallet_step.resumes [of "wallets_machine (wallets_at nonce1_spent []) (cs @ [signed_call])" cs signed_call "[]" "''b1''" sample_wallets]
  show ?thesis by (simp add: wallets_machine_def wallets_at_def add_call_def)
qed

lemma fresh_sample: "fresh_machine (wallets_machine (wallets_at [] []) [])"
  by (simp add: fresh_machine_def wallets_machine_def wallets_at_def)

lemma bound_steps: "wallet_steps sample_wallets (wallets_machine (wallets_at [] []) cs)
    (wallets_machine (wallets_at nonce1_spent [(''b1'', siwe_binding)]) (cs @ [SubmitCall ''b1'' ''0xa'' ''0xa0xd1n1sig'']))"
  using first_step [of cs] second_step [of cs] third_step [of cs] by (meson rtranclp.rtrancl_into_rtrancl rtranclp.rtrancl_refl)

lemma bound_reachable: "wallet_reachable sample_wallets
    (wallets_machine (wallets_at nonce1_spent [(''b1'', siwe_binding)]) [SubmitCall ''b1'' ''0xa'' ''0xa0xd1n1sig''])"
  using bound_steps [of "[]"] fresh_sample by (auto simp: wallet_reachable_def)

theorem challenge_single_use_witness:
  "\<exists>e. start sample_wallets 2000 alice (Bind ''0xb'' ''s'' ''m'' ''n1'') (wallets_at nonce1_spent []) = (wallets_at nonce1_spent [], Rejects e)"
  using challenge_single_use [of sample_wallets 1000 alice "Bind ''0xa'' nonce1_text ''sig'' ''n1''" "wallets_at nonce1 []"
    "wallets_machine (wallets_at nonce1_spent []) []" alice "''0xa''" nonce1_text "''sig''" "''n1''" "wallets_machine (wallets_at nonce1_spent []) []"
    2000 alice "''0xb''" "''s''" "''m''"] nonce1_consumed
  by (simp add: wallets_machine_def signed_call_def del: start.simps)

theorem verified_binding_proved_witness:
  "w_verificationMethod siwe_binding = ''siwe'' \<and> proved sample_wallets nonce1_spent siwe_binding"
  using verified_binding_proved [OF bound_reachable, of siwe_binding] by (simp add: wallets_machine_def wallets_at_def siwe_binding_def)

theorem watch_keeps_bindings_witness:
  "fst (perform sample_wallets ''b2'' 2000 alice (Watch ''0xa'') (wallets_at nonce1_spent [(''b1'', siwe_binding)])) =
    wallets_at nonce1_spent [(''b1'', siwe_binding)]"
  using watch_keeps_bindings [of sample_wallets "''0xa''" "''0xa''" "wallets_at nonce1_spent [(''b1'', siwe_binding)]" "''b2''" 2000 alice]
  by (auto simp: sample_wallets_def wallets_at_def of_address_def siwe_binding_def alice_def)


section \<open>What goes wrong\<close>

text \<open>Two requests at once. An address is watched while its binding is being signed: the watch looked before the signature was stored
  and writes after it, and the verified binding is a watched one without a hash.\<close>

lemma watch_race_downgrades:
  "\<exists>m m'. wallet_reachable sample_wallets m \<and> mvalues (wd_bindings (wm_db m)) = [siwe_binding] \<and>
    wallet_step sample_wallets m m' \<and> mvalues (wd_bindings (wm_db m')) = [downgraded_binding]"
proof -
  let ?w = "WatchCall alice ''0xa''" and ?s = "SubmitCall ''b1'' ''0xa'' ''0xa0xd1n1sig''"
  let ?m = "wallets_machine (wallets_at nonce1_spent [(''b1'', siwe_binding)]) [?w, ?s]"
  let ?m' = "wallets_machine (wallets_at nonce1_spent [(''b1'', downgraded_binding)]) [?s]"
  have "wallet_step sample_wallets (wallets_machine (wallets_at [] []) []) (wallets_machine (wallets_at [] []) [?w])"
    using wallet_step.starts [of "Watch ''0xa''" "wallets_machine (wallets_at [] []) []" sample_wallets alice]
    by (simp add: slice_defs wallets_machine_def wallets_at_def add_call_def sample_wallets_def findByUserAndAddress_def)
  then have "wallet_reachable sample_wallets ?m"
    using bound_steps [of "[?w]"] fresh_sample unfolding wallet_reachable_def by (auto intro: converse_rtranclp_into_rtranclp)
  moreover have "resume sample_wallets ''b9'' 1000 ?w (wallets_at nonce1_spent [(''b1'', siwe_binding)]) =
      (wallets_at nonce1_spent [(''b1'', downgraded_binding)], Answers (Watched ''0xa''))"
    by (simp add: slice_defs wallets_at_def siwe_binding_def downgraded_binding_def alice_def upsert_binding_def findByUserAndAddress_def of_address_def)
  then have "wallet_step sample_wallets ?m ?m'"
    using wallet_step.resumes [of ?m "[]" ?w "[?s]" "''b9''" sample_wallets] by (simp add: wallets_machine_def wallets_at_def add_call_def)
  ultimately show ?thesis by (intro exI [of _ ?m] exI [of _ ?m']) (simp add: wallets_machine_def wallets_at_def)
qed

lemma call_taken: "wallet_step E m (m\<lparr>wm_db := db, wm_calls := wm_calls m @ [d]\<rparr>)"
  if "start E (wm_clock m) user request (wm_db m) = (db, Waits d)" "fresh_nonce request (wd_challenges (wm_db m))"
  using wallet_step.starts [OF that(2,1)] by (simp add: add_call_def)

lemma call_resumed: "wallet_step E (m\<lparr>wm_db := db, wm_calls := wm_calls m @ [c]\<rparr>) (m\<lparr>wm_db := db', wm_calls := wm_calls m @ [d]\<rparr>)"
  if "\<not> mhas (wd_bindings db) uuid" "resume E uuid (wm_clock m) c db = (db', Waits d)"
  using wallet_step.resumes [of "m\<lparr>wm_db := db, wm_calls := wm_calls m @ [c]\<rparr>" "wm_calls m" c "[]" uuid E db' "Waits d"] that
  by (simp add: add_call_def)

lemma call_dropped: "wallet_step E (m\<lparr>wm_db := db, wm_calls := wm_calls m @ [c]\<rparr>) (m\<lparr>wm_db := db\<rparr>)"
  using wallet_step.fails [of "m\<lparr>wm_db := db, wm_calls := wm_calls m @ [c]\<rparr>" "wm_calls m" c "[]" E] by simp

text \<open>An unbinding that fails at the cursors: the rows are gone, and the binding stays with all its cursors, from which the next
  synchronisation goes on.\<close>

lemma unbind_failure_keeps_cursors:
  fixes user :: wallet_user
  assumes "we_getAddress E address = Some a" "findByUserAndAddress (sub user) a (wd_bindings (wm_db m)) = Some w" "\<not> mhas (wd_bindings (wm_db m)) uuid"
  shows "wallet_steps E m (m\<lparr>wm_db := (wm_db m)\<lparr>wd_rows := fst (deleteAllForBinding (w_id w) (wd_rows (wm_db m)))\<rparr>\<rparr>)"
proof -
  let ?db = "(wm_db m)\<lparr>wd_rows := fst (deleteAllForBinding (w_id w) (wd_rows (wm_db m)))\<rparr>"
  have 1: "wallet_step E m (m\<lparr>wm_db := wm_db m, wm_calls := wm_calls m @ [RowsCall (sub user) w]\<rparr>)"
    using call_taken [of E m user "Unbind address" "wm_db m"] assms(1,2) by (simp add: slice_defs)
  have 2: "wallet_step E (m\<lparr>wm_db := wm_db m, wm_calls := wm_calls m @ [RowsCall (sub user) w]\<rparr>)
      (m\<lparr>wm_db := ?db, wm_calls := wm_calls m @ [CursorsCall (sub user) w (snd (deleteAllForBinding (w_id w) (wd_rows (wm_db m))))]\<rparr>)"
    by (rule call_resumed [OF assms(3)]) (simp add: slice_defs case_prod_unfold)
  show ?thesis using 1 2 call_dropped [where E = E and m = m and db = ?db] by (meson rtranclp.rtrancl_into_rtrancl rtranclp.rtrancl_refl)
qed

text \<open>An unbinding that fails at the moves of the other wallets: the binding is gone, every one of those moves is still booked as an
  internal transfer, and asking again answers that the wallet is not registered.\<close>

lemma unbind_failure_keeps_links:
  fixes user :: wallet_user
  assumes "wallet_reachable E m" "we_getAddress E address = Some a" "findByUserAndAddress (sub user) a (wd_bindings (wm_db m)) = Some w"
    and "\<not> mhas (wd_bindings (wm_db m)) uuid" "wf_store (mock_repo.transactions (wd_rows (wm_db m)))"
  shows "\<exists>db. wallet_steps E m (m\<lparr>wm_db := db\<rparr>) \<and>
    (\<forall>t. start E t user (Unbind address) db = (db, Rejects (HttpError 404 ''wallet_not_found''))) \<and>
    set (user_legs user db) = {leg \<in> set (user_legs user (wm_db m)). bindingId leg \<noteq> w_id w}"
proof -
  let ?u = "sub user" and ?db = "wm_db m" and ?n = "snd (deleteAllForBinding (w_id w) (wd_rows (wm_db m)))"
  let ?db1 = "?db\<lparr>wd_rows := fst (deleteAllForBinding (w_id w) (wd_rows ?db))\<rparr>"
  let ?db2 = "?db1\<lparr>wd_cursors := deleteForBinding (w_id w) (wd_cursors ?db)\<rparr>"
  let ?db3 = "?db2\<lparr>wd_bindings := mdel (w_id w) (wd_bindings ?db)\<rparr>"
  have ok: "bindings_ok (wd_bindings ?db)" using wallet_reachable_ok [OF assms(1)] by (simp add: wallet_ok_def)
  have 1: "wallet_step E m (m\<lparr>wm_db := ?db, wm_calls := wm_calls m @ [RowsCall ?u w]\<rparr>)"
    using call_taken [of E m user "Unbind address" ?db] assms(2,3) by (simp add: slice_defs)
  have 2: "wallet_step E (m\<lparr>wm_db := ?db, wm_calls := wm_calls m @ [RowsCall ?u w]\<rparr>)
      (m\<lparr>wm_db := ?db1, wm_calls := wm_calls m @ [CursorsCall ?u w ?n]\<rparr>)"
    by (rule call_resumed [OF assms(4)]) (simp add: slice_defs case_prod_unfold)
  have 3: "wallet_step E (m\<lparr>wm_db := ?db1, wm_calls := wm_calls m @ [CursorsCall ?u w ?n]\<rparr>)
      (m\<lparr>wm_db := ?db2, wm_calls := wm_calls m @ [WalletCall ?u w ?n]\<rparr>)"
    by (rule call_resumed [where uuid = uuid]) (use assms(4) in \<open>simp_all add: slice_defs\<close>)
  have 4: "wallet_step E (m\<lparr>wm_db := ?db2, wm_calls := wm_calls m @ [WalletCall ?u w ?n]\<rparr>)
      (m\<lparr>wm_db := ?db3, wm_calls := wm_calls m @ [LinksCall ?u w ?n]\<rparr>)"
    by (rule call_resumed [where uuid = uuid]) (use assms(4) in \<open>simp_all add: slice_defs\<close>)
  have "wallet_steps E m (m\<lparr>wm_db := ?db3\<rparr>)"
    using 1 2 3 4 call_dropped [where E = E and m = m and db = ?db3] by (meson rtranclp.rtrancl_into_rtrancl rtranclp.rtrancl_refl)
  moreover have "findByUserAndAddress ?u a (mdel (w_id w) (wd_bindings ?db)) = None"
  proof (rule ccontr)
    assume "findByUserAndAddress ?u a (mdel (w_id w) (wd_bindings ?db)) \<noteq> None"
    then obtain v where "v \<in> set (mvalues (mdel (w_id w) (wd_bindings ?db)))" "of_address ?u a v"
      using find_binding [OF delete_ok [OF ok]] by blast
    moreover have "w \<in> set (mvalues (wd_bindings ?db))" "of_address ?u a w" using find_binding [OF ok] assms(3) by blast+
    ultimately show False
      using bindings_get [OF ok] bindings_get [OF delete_ok [OF ok, of "w_id w"]] find_binding [OF ok] by (metis map_of_delete_if option.distinct(1) option.inject)
  qed
  then have "start E t user (Unbind address) ?db3 = (?db3, Rejects (HttpError 404 ''wallet_not_found''))" for t
    using assms(2) by (simp add: slice_defs)
  moreover have "set (user_legs user ?db3) = {leg \<in> set (user_legs user ?db). bindingId leg \<noteq> w_id w}"
    using unbound_rows [OF assms(5), of ?u "w_id w"] by (simp add: user_legs_def)
  ultimately show ?thesis by blast
qed

end
