(* ===== verification/Spec2Isabelle.thy ===== *)
theory Spec2Isabelle
  imports Estimate_Properties Normalize_Properties SyncJob_Properties IndexerSync_Properties Evidence_Properties Holdings_Properties
    Backfill_Properties Events_Properties ReportVc_Properties WalletBinding_Properties
begin

text \<open>
  \<^bold>\<open>The VERA wallet back end.\<close> The program reads the transfers of a user's wallets from a node provider, writes
  them as a ledger of normalized rows, prices them, and computes from the ledger the portfolio, the cost basis and a
  yearly tax estimate; documents derived from it are sealed on a chain. This development models its own logic, from
  \<open>src/apps/backend/src\<close> and \<open>src/packages/tax-engine/src\<close>, and proves what makes each part correct.
  Theories come in pairs: \<open>X\<close> holds the definitions, in the order of the source and under its names, and
  \<open>X_Properties\<close> the lemmas and theorems.

  \<^bold>\<open>How the parts interact.\<close> A job (\<open>SyncJob\<close>) runs a synchronisation (\<open>IndexerSync\<close>), which scans every chain
  of every wallet (\<open>ChainScan\<close> over \<open>Rpc\<close>, \<open>Pool\<close>, \<open>NativeRecovery\<close>), turns the transfers into rows (\<open>Normalize\<close>
  with \<open>SpamFilter\<close> and \<open>ChainRegistry\<close>), prices them, saves and purges through the repository
  (\<open>TxRepository\<close>), moves the cursor of the chain, shows its progress (\<open>SyncProgress\<close>), and in the end links the
  user's own moves and bridges (\<open>Linking\<close>). Rows are priced by the spot and historical oracles (\<open>Prices\<close>), and
  missing closes are filled later (\<open>Backfill\<close>). The stored rows are what the cost engine (\<open>CostBasis\<close>), the yearly
  estimate (\<open>Estimate\<close>, \<open>TaxRules\<close>), the event pages and summaries (\<open>Events\<close>) and the portfolio (\<open>Holdings\<close>)
  read. An evidence document (\<open>Merkle\<close>, \<open>Evidence\<close>) is hashed into a tree whose root is anchored, and an anchored
  document can be issued as a credential of the user's wallet (\<open>ReportVc\<close> over \<open>ReportVc_Store\<close>). The wallets that a
  synchronisation walks are bound, watched and unbound by \<open>WalletBinding\<close>, which deletes rows, cursors and links with them.

  \<^bold>\<open>Foundations.\<close> \<open>Prelude\<close>: insertion-ordered maps and sets, the stable sort driven by a comparator, results with
  errors as values; the locales \<open>js_map\<close>, \<open>consistent_compare\<close> and \<open>strict_compare\<close> are the interfaces of
  these. \<open>JsValue\<close>: dynamically typed values and the conversions of the standard library (\<open>Number\<close>, \<open>String\<close>,
  \<open>BigInt\<close>, ISO dates); strings are the bytes of their UTF-8 text. \<open>Host\<close>: the package \<open>decimal.js\<close>,
  \<open>localeCompare\<close> and \<open>Date.parse\<close> as a parameter \<open>host\<close> with documented laws (locales \<open>decimal_laws\<close>,
  \<open>collation_laws\<close>, \<open>host_laws\<close>), discharged for the package's default configuration (20 significant digits).

  \<^bold>\<open>Theories and sources.\<close>
  \<^item> \<open>CostBasis\<close> is \<open>tax-engine/src/core/cost-basis.ts\<close>: payload readers, the pre-scan of bridge pairs, the
    reorder pass, the choice of the leg that carries gas, and the moving-average fold with its escrow
    (\<open>fold_step\<close> over \<open>fold_state\<close>). \<open>CostBasis_Order\<close>, \<open>CostBasis_Gas\<close>, \<open>CostBasis_Fold\<close> and
    \<open>CostBasis_Account\<close> carry its lemmas. \<open>TaxRules\<close> and \<open>Estimate\<close> are \<open>core/rules.ts\<close>,
    \<open>core/rule-catalog.ts\<close>, \<open>core/calculator.ts\<close> and \<open>frontend/\<close>.
  \<^item> \<open>ChainRegistry\<close>, \<open>SpamFilter\<close>, \<open>NativeRecovery\<close> are the files of those names under \<open>indexer/\<close>
    (\<open>native-balance-diff.ts\<close> and \<open>native-trace.ts\<close> for the last). \<open>Normalize\<close>, \<open>Rpc\<close>, \<open>Pool\<close> and
    \<open>ChainScan\<close> are \<open>indexer/indexer.adapters.ts\<close>: transfer to legs to rows, requests with retries and
    pages, the bounded worker pool as a step relation, the native sources and the scan.
  \<^item> \<open>TxRepository\<close> is \<open>indexer/transaction.repository.adapters.ts\<close>: the merge of a stored row with a fresh
    one, the purge plan, the in-memory store, the snapshot cache as a machine of events. \<open>Linking\<close> is
    \<open>own-wallet-linking.service.ts\<close> and \<open>bridge-linking.service.ts\<close>.
  \<^item> \<open>SyncProgress\<close>, \<open>SyncJob\<close>, \<open>IndexerSync\<close> are \<open>sync-progress.ts\<close>, \<open>sync-job.ts\<close> with its service and
    \<open>indexer.service.ts\<close>; \<open>SyncWorld\<close> instantiates the services a synchronisation calls with the in-memory ones.
  \<^item> \<open>Merkle\<close> and \<open>Evidence\<close> are \<open>evidence/\<close> and \<open>anchor/\<close>; \<open>Holdings\<close> is
    \<open>portfolio/holdings.service.ts\<close> and \<open>canonical-asset.ts\<close>.
  \<^item> \<open>Prices\<close> is \<open>price-oracle.ts\<close>, \<open>historical-price-oracle.ts\<close>, the in-memory price cache and both enrichments
    (\<open>price-enrichment.service.ts\<close>, \<open>historical-price-enrichment.service.ts\<close>); \<open>Backfill\<close> is
    \<open>native-price-backfill.ts\<close> with its throttle and its paged scan of the ledger.
  \<^item> \<open>Events\<close> is \<open>event-query.service.ts\<close>, \<open>event.presenter.ts\<close>, \<open>cost-basis-snapshot.service.ts\<close> with its memo of
    folds by identity of the rows, \<open>event-reclassification.service.ts\<close>, \<open>transaction-availability.service.ts\<close> and
    \<open>anchor-proof.service.ts\<close>.
  \<^item> \<open>ReportVc_Store\<close> is \<open>report-vc/report-vc.store.ts\<close>: the tables of attempts, wallets and credentials, one
    definition per transaction. \<open>ReportVc\<close> is \<open>report-vc.service.ts\<close> and \<open>report-vc.policy.ts\<close>; a request that waits
    for the gateway is two definitions, and \<open>vc_step\<close> interleaves requests, answers and time.
  \<^item> \<open>WalletBinding\<close> is \<open>wallet/\<close>: the challenges, the in-memory bindings, and each request cut at its \<open>await\<close>s
    (\<open>start\<close>, \<open>resume\<close>); \<open>wallet_step\<close> interleaves the pieces and lets a repository call fail, \<open>perform\<close> runs one
    request alone, in at most four pieces after the first.

  \<^bold>\<open>What is proved.\<close> Cost: no cost is created or lost, each event gets one result, input order is irrelevant,
  holdings stay positive, gas is charged once, the estimate totals what the engine realized. Ledger: rows carry
  exactly the value of the transfers, a merge keeps edits, a purge loses no row whose leg is not stored again, links
  are exactly the isolated pairs. Scan: a chain is in the result exactly when all of it was observed, whatever
  the order of the concurrent requests; retries are bounded; cursors never skip rows. Jobs and progress: one active
  job per user, every run ends and shows its end. Evidence: the root binds the document, a hash is anchored once.
  Portfolio: balances add up, nothing disappears uncounted, reads are shared and fresh. Prices: a tax basis is a
  quoted close times a quantity or stays unknown, a row is hidden only on confirmation, the backfill ends within its
  budget of calls and a second run asks only for what is left. Reading: pages cover the listing, a summary and the
  estimate of its year agree, a reclassification changes one version of one event, a snapshot is the fold of its rows.
  Credentials: every step of the machine of requests is a step of the contract \<open>db_step\<close> of the tables (a
  simulation), hence one attempt at a time, settled attempts are final, a credential appears only for a linked wallet;
  claims to sign are anchored and a verified presentation is of a stored, active, anchored credential.
  Wallets: a challenge serves one request, a verified binding was proved by its user, an unbinding leaves nothing behind.

  Lemmas also show where the code does less than it means to: \<open>reverted_fee_becomes_leg\<close>,
  \<open>purge_loses_survivor_edit\<close>, \<open>cache_serves_stale_rows\<close>, \<open>bridge_overwrites_edit\<close>, \<open>concurrent_edit_lost\<close>,
  \<open>twin_pages_never_end\<close>, \<open>backfill_skips_unreadable_day\<close>, \<open>watch_race_downgrades\<close>, \<open>unbind_failure_keeps_cursors\<close>
  and \<open>unbind_failure_keeps_links\<close>.

  \<^bold>\<open>Interfaces.\<close> Where a component relies on another, the laws are a locale: \<open>ledger_writer\<close> (the repository
  the linking passes write through), \<open>sync_services\<close> (what a synchronisation needs of the scan and the stores),
  \<open>chain_law\<close> (what the chain client promises), \<open>pool_work\<close> (what a work of the pool keeps), \<open>price_laws\<close> (what the
  price oracle and cache promise an enrichment), \<open>backfill_env\<close> (the clock and cache under a backfill). Each is
  interpreted on the model of the code that provides it.

  \<^bold>\<open>Loops and bounds.\<close> Recursion is structural or has a measure; a request is tried at most seven times, a direction
  reads at most 100 pages, a queue tries a job five times, as the code says, and the recursions count these
  bounds down. The worker pool is a step relation that is shown to end. The throttle of the backfill and the walk over
  the pages of a listing may run forever and are partial functions to an option; that they return is proved.

  \<^bold>\<open>Not modelled.\<close> Code outside the repository enters as parameters: the node provider, the chain client,
  \<open>keccak256\<close>, the decimal package, the database. The Prisma adapters issue the operations of the in-memory ones as
  statements of a database that is not part of the source. Log lines and timing wrappers have no effect on results
  and are left out, as are the progress callbacks from inside a scan. The clock is read once per scan. HTTP
  controllers, modules and configuration are framework glue. The balance reader of the portfolio, the
  credential gateway, login and identity checks are not modelled: they are mostly calls of external services. \<open>PROJECT.json\<close> lists every part.
\<close>

end
